(* ===== verification/Prelude.thy ===== *)
theory Prelude
  imports Main "HOL-Library.Monad_Syntax" "HOL-Library.List_Lexorder" "HOL-Library.Char_ord" "HOL-Library.Product_Lexorder"
begin

text \<open>
  What every component shares: Rust's \<open>Ordering\<close> with the contract its comparison functions
  keep, and \<open>Result\<close> with the \<open>?\<close> operator, the guards and the fallible loops of the step lists.
\<close>

named_theorems res_simps \<open>evaluation of the result monad\<close>

section \<open>Ordering\<close>

datatype ordering = Less | Equal | Greater

definition cmp :: "'a::linorder \<Rightarrow> 'a \<Rightarrow> ordering" where
  "cmp x y = (if x < y then Less else if x = y then Equal else Greater)"

fun ord_reverse :: "ordering \<Rightarrow> ordering" where
  "ord_reverse Less = Greater"
| "ord_reverse Equal = Equal"
| "ord_reverse Greater = Less"

fun ord_then :: "ordering \<Rightarrow> ordering \<Rightarrow> ordering" where
  "ord_then Equal o' = o'"
| "ord_then o1 o' = o1"

definition is_eq :: "ordering \<Rightarrow> bool" where "is_eq ord \<longleftrightarrow> ord = Equal"
definition is_lt :: "ordering \<Rightarrow> bool" where "is_lt ord \<longleftrightarrow> ord = Less"
definition is_gt :: "ordering \<Rightarrow> bool" where "is_gt ord \<longleftrightarrow> ord = Greater"

lemmas ordering_defs = is_eq_def is_lt_def is_gt_def

lemma cmp_simps [simp]:
  "cmp x y = Less \<longleftrightarrow> x < y" "cmp x y = Equal \<longleftrightarrow> x = y" "cmp x y = Greater \<longleftrightarrow> y < x"
  by (auto simp: cmp_def)

lemma cmp_refl [simp]: "cmp x x = Equal"
  by (simp add: cmp_def)

lemma cmp_reverse: "ord_reverse (cmp x y) = cmp y x"
  by (auto simp: cmp_def)

lemma ord_reverse_reverse [simp]: "ord_reverse (ord_reverse ord) = ord"
  by (cases ord) simp_all

text \<open>
  The contract of every comparison function of the program: it orders by a measure into a linear
  order. A client needs no more than this to exchange, chain and test comparisons.
\<close>

locale comparison =
  fixes compare :: "'a \<Rightarrow> 'a \<Rightarrow> ordering"
    and meaning :: "'a \<Rightarrow> 'm::linorder"
    and ok :: "'a \<Rightarrow> bool"
  assumes compare_meaning: "ok x \<Longrightarrow> ok y \<Longrightarrow> compare x y = cmp (meaning x) (meaning y)"
begin

lemma compare_refl: "ok x \<Longrightarrow> compare x x = Equal"
  by (simp add: compare_meaning)

lemma compare_reverse: "ok x \<Longrightarrow> ok y \<Longrightarrow> compare y x = ord_reverse (compare x y)"
  by (simp add: compare_meaning cmp_reverse)

lemma compare_trans:
  assumes "ok x" "ok y" "ok z" and "compare x y \<noteq> Greater" "compare y z \<noteq> Greater"
  shows "compare x z \<noteq> Greater"
  using assms by (auto simp: compare_meaning)

lemma compare_Equal_left:
  "ok x \<Longrightarrow> ok y \<Longrightarrow> ok z \<Longrightarrow> compare x y = Equal \<Longrightarrow> compare x z = compare y z"
  by (simp add: compare_meaning)

end

section \<open>Results\<close>

text \<open>\<open>Result<T, E>\<close> is \<open>'e + 'a\<close>, the error on the left; \<open>rbind\<close> is the \<open>?\<close> operator.\<close>

type_synonym ('e, 'a) result = "'e + 'a"

abbreviation Err :: "'e \<Rightarrow> ('e, 'a) result" where "Err \<equiv> Inl"
abbreviation Ok :: "'a \<Rightarrow> ('e, 'a) result" where "Ok \<equiv> Inr"

definition rbind :: "('e, 'a) result \<Rightarrow> ('a \<Rightarrow> ('e, 'b) result) \<Rightarrow> ('e, 'b) result" where
  "rbind m f = (case m of Err e \<Rightarrow> Err e | Ok x \<Rightarrow> f x)"

lemma rbind_simps [simp]:
  "rbind (Err e) f = Err e" "rbind (Ok x) f = f x"
  by (simp_all add: rbind_def)

lemma rbind_Ok_iff [res_simps]: "rbind m f = Ok y \<longleftrightarrow> (\<exists>x. m = Ok x \<and> f x = Ok y)"
  by (cases m) simp_all

lemma rbind_Err_iff [res_simps]:
  "rbind m f = Err e \<longleftrightarrow> m = Err e \<or> (\<exists>x. m = Ok x \<and> f x = Err e)"
  by (cases m) simp_all

lemma rbind_cong [fundef_cong]:
  "m = m' \<Longrightarrow> (\<And>x. m' = Ok x \<Longrightarrow> f x = f' x) \<Longrightarrow> rbind m f = rbind m' f'"
  by (cases m') simp_all

lemma rbind_assoc: "rbind (rbind m f) g = rbind m (\<lambda>x. rbind (f x) g)"
  by (cases m) simp_all

lemma rbind_Ok_right [simp]: "rbind m Ok = m"
  by (cases m) simp_all

text \<open>\<open>if c { return Err(e) }\<close>, the guards of the step lists.\<close>

definition ensure :: "bool \<Rightarrow> 'e \<Rightarrow> ('e, unit) result" where
  "ensure c e = (if c then Ok () else Err e)"

lemma ensure_simps [simp]:
  "ensure c e = Ok u \<longleftrightarrow> c" "ensure c e = Err e' \<longleftrightarrow> \<not> c \<and> e' = e"
  by (auto simp: ensure_def)

text \<open>\<open>Option::ok_or_else\<close>.\<close>

definition ok_or :: "'a option \<Rightarrow> 'e \<Rightarrow> ('e, 'a) result" where
  "ok_or m e = (case m of None \<Rightarrow> Err e | Some x \<Rightarrow> Ok x)"

lemma ok_or_simps [simp]: "ok_or None e = Err e" "ok_or (Some x) e = Ok x"
  by (simp_all add: ok_or_def)

lemma ok_or_Ok_iff [res_simps]: "ok_or m e = Ok x \<longleftrightarrow> m = Some x"
  by (cases m) simp_all

lemma ok_or_Err_iff [res_simps]: "ok_or m e = Err e' \<longleftrightarrow> m = None \<and> e' = e"
  by (cases m) auto

text \<open>A loop of fallible steps that collects what each gives, in order.\<close>

fun rmap :: "('a \<Rightarrow> ('e, 'b) result) \<Rightarrow> 'a list \<Rightarrow> ('e, 'b list) result" where
  "rmap f [] = Ok []"
| "rmap f (x # xs) = rbind (f x) (\<lambda>y. rbind (rmap f xs) (\<lambda>ys. Ok (y # ys)))"

lemma rmap_cong [fundef_cong]:
  "xs = ys \<Longrightarrow> (\<And>x. x \<in> set ys \<Longrightarrow> f x = g x) \<Longrightarrow> rmap f xs = rmap g ys"
  by (induction ys arbitrary: xs) auto

lemma rmap_Ok_length: "rmap f xs = Ok ys \<Longrightarrow> length ys = length xs"
  by (induction xs arbitrary: ys) (auto simp: res_simps)

lemma rmap_Ok_iff: "rmap f xs = Ok ys \<longleftrightarrow> list_all2 (\<lambda>x y. f x = Ok y) xs ys"
  by (induction xs arbitrary: ys) (auto simp: res_simps list_all2_Cons1)

text \<open>A loop of fallible steps over a state.\<close>

fun rfold :: "('a \<Rightarrow> 's \<Rightarrow> ('e, 's) result) \<Rightarrow> 'a list \<Rightarrow> 's \<Rightarrow> ('e, 's) result" where
  "rfold f [] s = Ok s"
| "rfold f (x # xs) s = rbind (f x s) (rfold f xs)"

lemma rfold_cong [fundef_cong]:
  "xs = ys \<Longrightarrow> s = t \<Longrightarrow> (\<And>x s. x \<in> set ys \<Longrightarrow> f x s = g x s) \<Longrightarrow> rfold f xs s = rfold g ys t"
proof (induction ys arbitrary: xs s t)
  case (Cons y ys)
  then show ?case by (cases "g y t") simp_all
qed simp

lemma rfold_invariant:
  assumes "rfold f xs s = Ok t" and "P s"
    and "\<And>x s s'. x \<in> set xs \<Longrightarrow> f x s = Ok s' \<Longrightarrow> P s \<Longrightarrow> P s'"
  shows "P t"
  using assms
proof (induction xs arbitrary: s)
  case (Cons x xs)
  from Cons.prems(1) obtain s' where "f x s = Ok s'" "rfold f xs s' = Ok t"
    by (auto simp: res_simps)
  with Cons show ?case by (metis list.set_intros)
qed simp

end
