(* ===== verification/Maps.thy ===== *)
theory Maps
  imports Prelude
begin

text \<open>
  The ordered maps and sets of the program: \<open>BTreeMap\<close>, \<open>serde_json::Map\<close> (built without
  \<open>preserve_order\<close>, so it is a \<open>BTreeMap\<close>) and \<open>BTreeSet\<close>. A map is an association list whose
  keys ascend strictly, so equality of maps is equality of lists and iteration is in key order.
  The laws a client uses are the locale \<open>ordered_map\<close>, interpreted on these operations.
\<close>

named_theorems map_simps \<open>lookup laws of the ordered maps\<close>

type_synonym ('k, 'v) btree = "('k \<times> 'v) list"
type_synonym 'v smap = "(string, 'v) btree"

definition sorted_keys :: "('k::linorder, 'v) btree \<Rightarrow> bool" where
  "sorted_keys m \<longleftrightarrow> sorted_wrt (<) (map fst m)"

fun bt_insert :: "'k::linorder \<Rightarrow> 'v \<Rightarrow> ('k, 'v) btree \<Rightarrow> ('k, 'v) btree" where
  "bt_insert k v [] = [(k, v)]"
| "bt_insert k v ((k', v') # m) =
     (if k < k' then (k, v) # (k', v') # m
      else if k' < k then (k', v') # bt_insert k v m
      else (k, v) # m)"

definition bt_remove :: "'k \<Rightarrow> ('k, 'v) btree \<Rightarrow> ('k, 'v) btree" where
  "bt_remove k m = filter (\<lambda>(k', _). k' \<noteq> k) m"

abbreviation bt_get :: "('k, 'v) btree \<Rightarrow> 'k \<Rightarrow> 'v option" where
  "bt_get \<equiv> map_of"

definition bt_keys :: "('k, 'v) btree \<Rightarrow> 'k list" where
  "bt_keys m = map fst m"

definition bt_values :: "('k, 'v) btree \<Rightarrow> 'v list" where
  "bt_values m = map snd m"

definition bt_contains :: "('k, 'v) btree \<Rightarrow> 'k \<Rightarrow> bool" where
  "bt_contains m k \<longleftrightarrow> map_of m k \<noteq> None"

text \<open>\<open>iter.collect::<BTreeMap<_, _>>()\<close>: later entries replace earlier ones of the same key.\<close>

definition bt_collect :: "('k::linorder \<times> 'v) list \<Rightarrow> ('k, 'v) btree" where
  "bt_collect kvs = fold (\<lambda>(k, v) m. bt_insert k v m) kvs []"

section \<open>The map interface\<close>

locale ordered_map =
  fixes empty :: "'m"
    and insert :: "'k::linorder \<Rightarrow> 'v \<Rightarrow> 'm \<Rightarrow> 'm"
    and remove :: "'k \<Rightarrow> 'm \<Rightarrow> 'm"
    and get :: "'m \<Rightarrow> 'k \<Rightarrow> 'v option"
    and entries :: "'m \<Rightarrow> ('k \<times> 'v) list"
    and inv :: "'m \<Rightarrow> bool"
  assumes inv_empty: "inv empty"
    and inv_insert: "inv m \<Longrightarrow> inv (insert k v m)"
    and inv_remove: "inv m \<Longrightarrow> inv (remove k m)"
    and get_empty: "get empty k = None"
    and get_insert: "inv m \<Longrightarrow> get (insert k v m) k' = (if k' = k then Some v else get m k')"
    and get_remove: "inv m \<Longrightarrow> get (remove k m) k' = (if k' = k then None else get m k')"
    and get_entries: "inv m \<Longrightarrow> get m k = Some v \<longleftrightarrow> (k, v) \<in> set (entries m)"
    and entries_sorted: "inv m \<Longrightarrow> sorted_wrt (<) (map fst (entries m))"
    and entries_inject: "inv m \<Longrightarrow> inv m' \<Longrightarrow> entries m = entries m' \<Longrightarrow> m = m'"
begin

text \<open>A map is determined by its lookups: the shape below never matters to a client.\<close>

lemma keys_entries: "inv m \<Longrightarrow> k \<in> fst ` set (entries m) \<longleftrightarrow> get m k \<noteq> None"
  using get_entries by force

lemma entries_by_keys:
  assumes "inv m"
  shows "entries m = map (\<lambda>k. (k, the (get m k))) (map fst (entries m))"
proof -
  have "(k, v) \<in> set (entries m) \<Longrightarrow> get m k = Some v" for k v
    using assms get_entries by blast
  then show ?thesis by (auto simp: list_eq_iff_nth_eq) (metis nth_mem option.sel prod.collapse)
qed

lemma extensionality:
  assumes "inv m" "inv m'" and get: "\<And>k. get m k = get m' k"
  shows "m = m'"
proof -
  have "set (map fst (entries m)) = set (map fst (entries m'))"
    by (simp add: set_eq_iff keys_entries [OF assms(1)] keys_entries [OF assms(2)] get del: image_iff)
  then have keys: "map fst (entries m) = map fst (entries m')"
    using entries_sorted assms(1,2) by (metis strict_sorted_equal)
  have "entries m = map (\<lambda>k. (k, the (get m k))) (map fst (entries m))"
    by (rule entries_by_keys [OF assms(1)])
  also have "\<dots> = map (\<lambda>k. (k, the (get m' k))) (map fst (entries m'))"
    by (simp only: keys get)
  also have "\<dots> = entries m'"
    by (rule entries_by_keys [OF assms(2), symmetric])
  finally show ?thesis using assms(1,2) by (intro entries_inject)
qed

lemma insert_get: "inv m \<Longrightarrow> get m k = Some v \<Longrightarrow> insert k v m = m"
  by (rule extensionality) (auto simp: inv_insert get_insert)

lemma remove_absent: "inv m \<Longrightarrow> get m k = None \<Longrightarrow> remove k m = m"
  by (rule extensionality) (auto simp: inv_remove get_remove)

lemma insert_commute:
  "inv m \<Longrightarrow> k \<noteq> k' \<Longrightarrow> insert k v (insert k' v' m) = insert k' v' (insert k v m)"
  by (rule extensionality) (auto simp: inv_insert get_insert)

text \<open>Loops that insert a list of entries, or remove a list of keys.\<close>

definition insert_all :: "('k \<times> 'v) list \<Rightarrow> 'm \<Rightarrow> 'm" where
  "insert_all kvs m = fold (\<lambda>(k, v). insert k v) kvs m"

definition remove_all :: "'k list \<Rightarrow> 'm \<Rightarrow> 'm" where
  "remove_all ks m = fold remove ks m"

lemma inv_insert_all: "inv m \<Longrightarrow> inv (insert_all kvs m)"
  by (induction kvs arbitrary: m) (auto simp: insert_all_def inv_insert)

lemma inv_remove_all: "inv m \<Longrightarrow> inv (remove_all ks m)"
  by (induction ks arbitrary: m) (auto simp: remove_all_def inv_remove)

lemma get_insert_all:
  "inv m \<Longrightarrow> get (insert_all kvs m) k =
     (case map_of (rev kvs) k of None \<Rightarrow> get m k | Some v \<Rightarrow> Some v)"
proof (induction kvs arbitrary: m)
  case (Cons kv kvs)
  then show ?case
    by (cases kv) (auto simp: insert_all_def inv_insert get_insert map_add_def split: option.splits)
qed (simp add: insert_all_def)

lemma get_remove_all:
  "inv m \<Longrightarrow> get (remove_all ks m) k = (if k \<in> set ks then None else get m k)"
  by (induction ks arbitrary: m) (auto simp: remove_all_def inv_remove get_remove)

end

section \<open>The sorted association list keeps the interface\<close>

lemma sorted_keys_simps [simp]:
  "sorted_keys []"
  "sorted_keys (kv # m) \<longleftrightarrow> (\<forall>k \<in> fst ` set m. fst kv < k) \<and> sorted_keys m"
  by (auto simp: sorted_keys_def)

lemma sorted_keys_distinct: "sorted_keys m \<Longrightarrow> distinct (map fst m)"
  by (simp add: sorted_keys_def strict_sorted_iff)

lemma bt_insert_set_keys [simp]: "fst ` set (bt_insert k v m) = insert k (fst ` set m)"
  by (induction k v m rule: bt_insert.induct) auto

lemma sorted_keys_insert [simp]: "sorted_keys m \<Longrightarrow> sorted_keys (bt_insert k v m)"
  by (induction k v m rule: bt_insert.induct) auto

lemma sorted_keys_remove [simp]: "sorted_keys m \<Longrightarrow> sorted_keys (bt_remove k m)"
  by (induction m) (auto simp: bt_remove_def)

lemma bt_get_insert [simp, map_simps]:
  "map_of (bt_insert k v m) k' = (if k' = k then Some v else map_of m k')"
  by (induction k v m rule: bt_insert.induct) auto

lemma bt_get_remove [simp, map_simps]:
  "map_of (bt_remove k m) k' = (if k' = k then None else map_of m k')"
  by (induction m) (auto simp: bt_remove_def)

interpretation bt: ordered_map "[]" bt_insert bt_remove map_of "\<lambda>m. m" sorted_keys
proof unfold_locales
  fix m :: "('a \<times> 'b) list" and k v
  assume "sorted_keys m"
  then show "map_of m k = Some v \<longleftrightarrow> (k, v) \<in> set m"
    by (simp add: sorted_keys_distinct)
qed (simp_all add: sorted_keys_def [symmetric])

lemma bt_insert_nonempty [simp]: "bt_insert k v m \<noteq> []"
  by (induction k v m rule: bt_insert.induct) auto

lemma bt_contains_iff: "bt_contains m k \<longleftrightarrow> k \<in> fst ` set m"
  by (simp add: bt_contains_def map_of_eq_None_iff)

lemma bt_collect_insert_all: "bt_collect kvs = bt.insert_all kvs []"
  by (simp add: bt_collect_def bt.insert_all_def)

lemma sorted_keys_collect [simp]: "sorted_keys (bt_collect kvs)"
  by (simp add: bt_collect_insert_all bt.inv_insert_all)

lemma bt_get_collect [map_simps]: "map_of (bt_collect kvs) k = map_of (rev kvs) k"
  by (simp add: bt_collect_insert_all bt.get_insert_all split: option.splits)

text \<open>Collecting what is already a map gives that map back.\<close>

lemma map_of_rev_distinct: "distinct (map fst m) \<Longrightarrow> map_of (rev m) = map_of m"
  by (rule map_of_inject_set [THEN iffD2]) (simp_all add: rev_map [symmetric])

lemma bt_collect_id: "sorted_keys m \<Longrightarrow> bt_collect m = m"
  by (rule bt.extensionality) (simp_all add: bt_get_collect sorted_keys_distinct map_of_rev_distinct)

lemma sorted_keys_map_snd [simp]:
  "sorted_keys (map (map_prod id f) m) \<longleftrightarrow> sorted_keys m"
  by (simp add: sorted_keys_def comp_def)

lemma sorted_keys_filter: "sorted_keys m \<Longrightarrow> sorted_keys (filter P m)"
  by (induction m) auto

lemma map_of_map_prod_id [simp]:
  "map_of (map (map_prod id f) m) k = map_option f (map_of m k)"
  by (induction m) auto

section \<open>Ordered sets\<close>

text \<open>A \<open>BTreeSet\<close> is its ascending list of elements.\<close>

definition bs_insert :: "'a::linorder \<Rightarrow> 'a list \<Rightarrow> 'a list" where
  "bs_insert x xs = (if x \<in> set xs then xs else insort x xs)"

abbreviation sorted_set :: "'a::linorder list \<Rightarrow> bool" where
  "sorted_set \<equiv> sorted_wrt (<)"

lemma set_bs_insert [simp]: "set (bs_insert x xs) = insert x (set xs)"
  by (auto simp: bs_insert_def set_insort_key)

lemma sorted_set_bs_insert [simp]: "sorted_set xs \<Longrightarrow> sorted_set (bs_insert x xs)"
  by (auto simp: bs_insert_def strict_sorted_iff sorted_insort distinct_insort)

definition bs_collect :: "'a::linorder list \<Rightarrow> 'a list" where
  "bs_collect xs = fold bs_insert xs []"

lemma fold_bs_insert:
  "set (fold bs_insert xs ys) = set xs \<union> set ys"
  "sorted_set ys \<Longrightarrow> sorted_set (fold bs_insert xs ys)"
  by (induction xs arbitrary: ys) auto

lemma set_bs_collect [simp]: "set (bs_collect xs) = set xs"
  by (simp add: bs_collect_def fold_bs_insert)

lemma sorted_set_bs_collect [simp]: "sorted_set (bs_collect xs)"
  by (simp add: bs_collect_def fold_bs_insert)

end
