(* ===== verification/Strings.thy ===== *)
theory Strings
  imports Maps
begin

text \<open>
  The string operations of Rust's standard library that the kernel calls. A \<open>str\<close> is its UTF-8
  bytes: \<open>string\<close> in HOL is a list of 8-bit characters, so one \<open>char\<close> here is one byte, and a
  Unicode scalar value is the chunk of bytes that encodes it (\<open>utf8_chars\<close>). Comparison of
  strings is bytewise and lexicographic, which is Rust's \<open>Ord for str\<close>.
\<close>

section \<open>Splitting\<close>

text \<open>\<open>split_once(c)\<close>: what precedes the first \<open>c\<close>, and what follows it where there is one.\<close>

fun split_first :: "(char \<Rightarrow> bool) \<Rightarrow> string \<Rightarrow> string \<times> string option" where
  "split_first p [] = ([], None)"
| "split_first p (c # cs) =
     (if p c then ([], Some cs) else (let (a, b) = split_first p cs in (c # a, b)))"

lemma split_first_rest_length: "split_first p s = (a, Some r) \<Longrightarrow> length r < length s"
  by (induction s arbitrary: a r) (fastforce split: if_splits prod.splits)+

lemma split_first_append: "\<forall>c \<in> set a. \<not> p c \<Longrightarrow> split_first p (a @ s) = (a @ fst (split_first p s), snd (split_first p s))"
  by (induction a) (auto split: prod.splits)

lemma split_first_none: "\<forall>c \<in> set s. \<not> p c \<Longrightarrow> split_first p s = (s, None)"
  using split_first_append [of s p "[]"] by simp

lemma split_first_once: "\<forall>c \<in> set a. \<not> p c \<Longrightarrow> p x \<Longrightarrow> split_first p (a @ x # b) = (a, Some b)"
  by (simp add: split_first_append)

text \<open>\<open>split(c)\<close>: every piece between the separators, empty ones included.\<close>

fun split_all :: "(char \<Rightarrow> bool) \<Rightarrow> string \<Rightarrow> string list" where
  "split_all p [] = [[]]"
| "split_all p (c # cs) =
     (if p c then [] # split_all p cs
      else (case split_all p cs of [] \<Rightarrow> [[c]] | s # ss \<Rightarrow> (c # s) # ss))"

lemma split_all_nonempty [simp]: "split_all p s \<noteq> []"
  by (cases s) (auto split: list.splits)

lemma split_all_no_sep: "\<forall>c \<in> set a. \<not> p c \<Longrightarrow> split_all p a = [a]"
  by (induction a) auto

lemma split_all_sep: "\<forall>c \<in> set a. \<not> p c \<Longrightarrow> p x \<Longrightarrow> split_all p (a @ x # b) = a # split_all p b"
  by (induction a) auto

text \<open>\<open>strip_prefix\<close>, \<open>starts_with\<close>, \<open>ends_with\<close> and substring \<open>contains\<close>, on bytes.\<close>

fun strip_prefix :: "string \<Rightarrow> string \<Rightarrow> string option" where
  "strip_prefix [] s = Some s"
| "strip_prefix (c # p) [] = None"
| "strip_prefix (c # p) (d # s) = (if c = d then strip_prefix p s else None)"

lemma strip_prefix_Some [simp]: "strip_prefix p s = Some r \<longleftrightarrow> s = p @ r"
  by (induction p s rule: strip_prefix.induct) auto

definition starts_with :: "string \<Rightarrow> string \<Rightarrow> bool" where
  "starts_with s p \<longleftrightarrow> strip_prefix p s \<noteq> None"

definition ends_with :: "string \<Rightarrow> string \<Rightarrow> bool" where
  "ends_with s p \<longleftrightarrow> starts_with (rev s) (rev p)"

fun str_contains :: "string \<Rightarrow> string \<Rightarrow> bool" where
  "str_contains [] p \<longleftrightarrow> p = []"
| "str_contains (c # s) p \<longleftrightarrow> starts_with (c # s) p \<or> str_contains s p"

lemma starts_with_iff: "starts_with s p \<longleftrightarrow> (\<exists>r. s = p @ r)"
proof -
  have "starts_with s p \<longleftrightarrow> (\<exists>r. strip_prefix p s = Some r)"
    unfolding starts_with_def by (simp only: not_None_eq)
  then show ?thesis by simp
qed

lemma ends_with_iff: "ends_with s p \<longleftrightarrow> (\<exists>r. s = r @ p)"
proof -
  have "ends_with s p \<longleftrightarrow> (\<exists>r. rev s = rev p @ r)"
    by (simp add: ends_with_def starts_with_iff)
  also have "\<dots> \<longleftrightarrow> (\<exists>r. s = r @ p)"
    by (metis rev_append rev_rev_ident)
  finally show ?thesis .
qed

lemma str_contains_iff: "str_contains s p \<longleftrightarrow> (\<exists>a b. s = a @ p @ b)"
proof (induction s)
  case (Cons c s)
  have "(\<exists>a b. c # s = a @ p @ b) \<longleftrightarrow> (\<exists>b. c # s = p @ b) \<or> (\<exists>a b. s = a @ p @ b)"
    by (metis append_Cons append_Nil list.exhaust list.inject)
  with Cons show ?case by (auto simp: starts_with_iff)
qed auto

section \<open>Unicode scalar values\<close>

text \<open>A continuation byte is \<open>0b10xxxxxx\<close>.\<close>

definition is_continuation :: "char \<Rightarrow> bool" where
  "is_continuation c \<longleftrightarrow> (of_char c :: nat) \<ge> 128 \<and> (of_char c :: nat) < 192"

text \<open>\<open>str::chars\<close>: each scalar as the bytes that encode it.\<close>

function utf8_chars :: "string \<Rightarrow> string list" where
  "utf8_chars [] = []"
| "utf8_chars (c # cs) =
     (c # takeWhile is_continuation cs) # utf8_chars (dropWhile is_continuation cs)"
  by pat_completeness auto
termination
  by (relation "measure length") (auto simp: length_dropWhile_le le_imp_less_Suc)

lemma concat_utf8_chars [simp]: "concat (utf8_chars s) = s"
  by (induction s rule: utf8_chars.induct) simp_all

lemma utf8_chars_ascii: "\<forall>c \<in> set s. \<not> is_continuation c \<Longrightarrow> utf8_chars s = map (\<lambda>c. [c]) s"
proof (induction s)
  case (Cons c cs)
  then have "takeWhile is_continuation cs = [] \<and> dropWhile is_continuation cs = cs"
    by (cases cs) auto
  with Cons show ?case by simp
qed simp

lemma utf8_chars_inject: "utf8_chars s = utf8_chars t \<longleftrightarrow> s = t"
  by (metis concat_utf8_chars)

text \<open>\<open>char::is_whitespace\<close>: the Unicode property White_Space, by encoding.\<close>

definition is_whitespace :: "string \<Rightarrow> bool" where
  "is_whitespace c \<longleftrightarrow> c \<in> set
     [[CHR 0x09], [CHR 0x0A], [CHR 0x0B], [CHR 0x0C], [CHR 0x0D], [CHR 0x20],
      [CHR 0xC2, CHR 0x85], [CHR 0xC2, CHR 0xA0], [CHR 0xE1, CHR 0x9A, CHR 0x80],
      [CHR 0xE2, CHR 0x80, CHR 0x80], [CHR 0xE2, CHR 0x80, CHR 0x81], [CHR 0xE2, CHR 0x80, CHR 0x82],
      [CHR 0xE2, CHR 0x80, CHR 0x83], [CHR 0xE2, CHR 0x80, CHR 0x84], [CHR 0xE2, CHR 0x80, CHR 0x85],
      [CHR 0xE2, CHR 0x80, CHR 0x86], [CHR 0xE2, CHR 0x80, CHR 0x87], [CHR 0xE2, CHR 0x80, CHR 0x88],
      [CHR 0xE2, CHR 0x80, CHR 0x89], [CHR 0xE2, CHR 0x80, CHR 0x8A], [CHR 0xE2, CHR 0x80, CHR 0xA8],
      [CHR 0xE2, CHR 0x80, CHR 0xA9], [CHR 0xE2, CHR 0x80, CHR 0xAF], [CHR 0xE2, CHR 0x81, CHR 0x9F],
      [CHR 0xE3, CHR 0x80, CHR 0x80]]"

definition trim :: "string \<Rightarrow> string" where
  "trim s = concat (rev (dropWhile is_whitespace (rev (dropWhile is_whitespace (utf8_chars s)))))"

text \<open>\<open>s.trim().is_empty()\<close>, the test of a blank identity or name.\<close>

definition is_blank :: "string \<Rightarrow> bool" where
  "is_blank s \<longleftrightarrow> trim s = []"

lemma utf8_chars_nonempty: "c \<in> set (utf8_chars s) \<Longrightarrow> c \<noteq> []"
  by (induction s rule: utf8_chars.induct) auto

lemma is_blank_iff: "is_blank s \<longleftrightarrow> (\<forall>c \<in> set (utf8_chars s). is_whitespace c)"
proof -
  let ?cs = "dropWhile is_whitespace (rev (dropWhile is_whitespace (utf8_chars s)))"
  have "c \<noteq> []" if "c \<in> set ?cs" for c
    using that set_dropWhileD utf8_chars_nonempty by (metis set_rev)
  then have "is_blank s \<longleftrightarrow> ?cs = []"
    by (auto simp: is_blank_def trim_def)
  also have "\<dots> \<longleftrightarrow> (\<forall>c \<in> set (dropWhile is_whitespace (utf8_chars s)). is_whitespace c)"
    by (auto simp: dropWhile_eq_Nil_conv)
  also have "\<dots> \<longleftrightarrow> (\<forall>c \<in> set (utf8_chars s). is_whitespace c)"
    by (metis dropWhile_eq_Nil_conv hd_dropWhile list.set_intros(1) list.set_sel(1) set_dropWhileD)
  finally show ?thesis .
qed

lemma trim_id:
  assumes "utf8_chars s \<noteq> []" "\<not> is_whitespace (hd (utf8_chars s))" "\<not> is_whitespace (last (utf8_chars s))"
  shows "trim s = s"
proof -
  from assms have "dropWhile is_whitespace (utf8_chars s) = utf8_chars s"
    by (cases "utf8_chars s") auto
  moreover from assms have "dropWhile is_whitespace (rev (utf8_chars s)) = rev (utf8_chars s)"
    by (cases "utf8_chars s" rule: rev_cases) auto
  ultimately show ?thesis by (simp add: trim_def)
qed

section \<open>Decimal text\<close>

definition is_digit :: "char \<Rightarrow> bool" where
  "is_digit c \<longleftrightarrow> (of_char c :: nat) \<ge> 48 \<and> (of_char c :: nat) \<le> 57"

definition digit_val :: "char \<Rightarrow> nat" where
  "digit_val c = of_char c - 48"

definition digit_char :: "nat \<Rightarrow> char" where
  "digit_char d = char_of (48 + d)"

lemma digit_val_char [simp]: "d < 10 \<Longrightarrow> digit_val (digit_char d) = d"
  by (simp add: digit_val_def digit_char_def)

lemma is_digit_char [simp]: "d < 10 \<Longrightarrow> is_digit (digit_char d)"
  by (simp add: is_digit_def digit_char_def)

lemma digit_char_simps [simp]:
  "digit_char 0 = CHR ''0''" "digit_char (Suc 0) = CHR ''1''" "digit_char 1 = CHR ''1''" "digit_char 2 = CHR ''2''"
  "digit_char 3 = CHR ''3''" "digit_char 4 = CHR ''4''" "digit_char 5 = CHR ''5''" "digit_char 6 = CHR ''6''"
  "digit_char 7 = CHR ''7''" "digit_char 8 = CHR ''8''" "digit_char 9 = CHR ''9''"
  by code_simp+

lemma digit_val_less: "is_digit c \<Longrightarrow> digit_val c < 10"
  unfolding is_digit_def digit_val_def by arith

lemma digit_char_val [simp]: "is_digit c \<Longrightarrow> digit_char (digit_val c) = c"
  by (simp add: is_digit_def digit_val_def digit_char_def)

lemma is_digit_not_continuation: "is_digit c \<Longrightarrow> \<not> is_continuation c"
  by (simp add: is_digit_def is_continuation_def)

text \<open>The number a list of digits names, most significant first.\<close>

definition digits_val :: "nat list \<Rightarrow> nat" where
  "digits_val ds = foldl (\<lambda>n d. 10 * n + d) 0 ds"

definition nat_of_text :: "string \<Rightarrow> nat" where
  "nat_of_text s = digits_val (map digit_val s)"

fun show_nat :: "nat \<Rightarrow> string" where
  "show_nat n = (if n < 10 then [digit_char n] else show_nat (n div 10) @ [digit_char (n mod 10)])"

declare show_nat.simps [simp del]

definition show_int :: "int \<Rightarrow> string" where
  "show_int i = (if i < 0 then CHR ''-'' # show_nat (nat (- i)) else show_nat (nat i))"

lemma foldl_digits: "foldl (\<lambda>n d. 10 * n + d) a ds = a * 10 ^ length ds + digits_val ds"
proof (induction ds arbitrary: a)
  case (Cons d ds)
  have "digits_val (d # ds) = d * 10 ^ length ds + digits_val ds"
    using Cons [of d] by (simp add: digits_val_def)
  with Cons [of "10 * a + d"] show ?case by (simp add: algebra_simps)
qed (simp add: digits_val_def)

lemma digits_val_simps [simp]:
  "digits_val [] = 0"
  "digits_val (d # ds) = d * 10 ^ length ds + digits_val ds"
  using foldl_digits [of d ds] by (simp_all add: digits_val_def)

lemma digits_val_append [simp]: "digits_val (ds @ es) = digits_val ds * 10 ^ length es + digits_val es"
  by (induction ds) (simp_all add: algebra_simps power_add)

lemma digits_val_less: "\<forall>d \<in> set ds. d < 10 \<Longrightarrow> digits_val ds < 10 ^ length ds"
proof (induction ds)
  case (Cons d ds)
  then have "d * 10 ^ length ds + digits_val ds < d * 10 ^ length ds + 10 ^ length ds" by simp
  also have "\<dots> = Suc d * 10 ^ length ds" by simp
  also have "\<dots> \<le> 10 * 10 ^ length ds" using Cons.prems by (intro mult_right_mono) simp_all
  finally show ?case by simp
qed simp

lemma show_nat_digits: "c \<in> set (show_nat n) \<Longrightarrow> is_digit c"
  by (induction n rule: show_nat.induct) (subst (asm) show_nat.simps, auto split: if_splits)

lemma show_nat_nonempty [simp]: "show_nat n \<noteq> []"
  by (subst show_nat.simps) simp

lemma nat_of_text_show [simp]: "nat_of_text (show_nat n) = n"
proof (induction n rule: show_nat.induct)
  case (1 n)
  then show ?case by (subst show_nat.simps) (auto simp: nat_of_text_def)
qed

lemma show_nat_inject: "show_nat m = show_nat n \<longleftrightarrow> m = n"
  by (metis nat_of_text_show)

subsection \<open>Reading integers\<close>

text \<open>
  \<open>from_str\<close> of the integer types: an optional sign (\<open>-\<close> for signed types only), at least one
  ASCII digit, and a value in range. A leading \<open>+\<close> is accepted by all of them.
\<close>

definition is_digits :: "string \<Rightarrow> bool" where
  "is_digits s \<longleftrightarrow> s \<noteq> [] \<and> list_all is_digit s"

definition parse_unsigned :: "nat \<Rightarrow> string \<Rightarrow> nat option" where
  "parse_unsigned bits s =
     (let ds = (case s of c # r \<Rightarrow> if c = CHR ''+'' then r else s | [] \<Rightarrow> s)
      in if is_digits ds \<and> nat_of_text ds < 2 ^ bits then Some (nat_of_text ds) else None)"

definition parse_signed :: "nat \<Rightarrow> string \<Rightarrow> int option" where
  "parse_signed bits s =
     (let (neg, ds) = (case s of
          c # r \<Rightarrow> if c = CHR ''-'' then (True, r) else if c = CHR ''+'' then (False, r) else (False, s)
        | [] \<Rightarrow> (False, s));
          i = (if neg then - int (nat_of_text ds) else int (nat_of_text ds))
      in if is_digits ds \<and> - (2 ^ (bits - 1)) \<le> i \<and> i < 2 ^ (bits - 1) then Some i else None)"

lemma is_digits_show_nat [simp]: "is_digits (show_nat n)"
  using show_nat_digits by (auto simp: is_digits_def list_all_iff)

lemma is_digit_signs [simp]: "\<not> is_digit CHR ''-''" "\<not> is_digit CHR ''+''" "\<not> is_digit CHR ''.''"
  "\<not> is_digit CHR ''e''" "\<not> is_digit CHR ''E''"
  by (simp_all add: is_digit_def)

lemma show_nat_head: "show_nat n = c # r \<Longrightarrow> is_digit c"
  using show_nat_digits [of c n] by simp

lemma parse_unsigned_show: "n < 2 ^ bits \<Longrightarrow> parse_unsigned bits (show_nat n) = Some n"
  using nat_of_text_show [of n] is_digits_show_nat [of n]
  by (cases "show_nat n") (auto simp: parse_unsigned_def Let_def dest: show_nat_head)

lemma parse_signed_show:
  assumes "- (2 ^ (bits - 1)) \<le> i" "i < 2 ^ (bits - 1)"
  shows "parse_signed bits (show_int i) = Some i"
proof (cases "i < 0")
  case True
  with assms show ?thesis by (simp add: show_int_def parse_signed_def Let_def)
next
  case False
  obtain c r where s: "show_nat (nat i) = c # r" by (cases "show_nat (nat i)") simp_all
  then have "c \<noteq> CHR ''-''" "c \<noteq> CHR ''+''" using show_nat_head by fastforce+
  moreover have "nat_of_text (c # r) = nat i" "is_digits (c # r)"
    using nat_of_text_show [of "nat i"] is_digits_show_nat [of "nat i"] by (simp_all add: s)
  ultimately show ?thesis using False assms by (simp add: show_int_def parse_signed_def Let_def s)
qed

lemma parse_unsigned_less: "parse_unsigned bits s = Some n \<Longrightarrow> n < 2 ^ bits"
  by (auto simp: parse_unsigned_def Let_def split: if_splits)

lemma parse_signed_range:
  "parse_signed bits s = Some i \<Longrightarrow> - (2 ^ (bits - 1)) \<le> i \<and> i < 2 ^ (bits - 1)"
  by (auto simp: parse_signed_def Let_def split: if_splits prod.splits)

end
