(* ===== verification/Json.thy ===== *)
theory Json
  imports Strings Complex_Main
begin

text \<open>
  JSON documents as \<open>serde_json\<close> holds them in this build: \<open>arbitrary_precision\<close> keeps a number as
  the text it was written in, and without \<open>preserve_order\<close> an object is a map ordered by key.
  Equality of values is structural, and of numbers it is equality of the text.
\<close>

type_synonym number = string

datatype json =
    JNull
  | JBool bool
  | JNumber number
  | JString string
  | JArray "json list"
  | JObject "(string \<times> json) list"

type_synonym jmap = "json smap"

fun as_str :: "json \<Rightarrow> string option" where
  "as_str (JString s) = Some s"
| "as_str _ = None"

fun as_bool :: "json \<Rightarrow> bool option" where
  "as_bool (JBool b) = Some b"
| "as_bool _ = None"

fun as_number :: "json \<Rightarrow> number option" where
  "as_number (JNumber n) = Some n"
| "as_number _ = None"

fun as_array :: "json \<Rightarrow> json list option" where
  "as_array (JArray xs) = Some xs"
| "as_array _ = None"

fun as_object :: "json \<Rightarrow> jmap option" where
  "as_object (JObject m) = Some m"
| "as_object _ = None"

lemma as_object_Some [simp]: "as_object v = Some m \<longleftrightarrow> v = JObject m"
  by (cases v) auto

lemma as_str_Some [simp]: "as_str v = Some s \<longleftrightarrow> v = JString s"
  by (cases v) auto

lemma as_number_Some [simp]: "as_number v = Some n \<longleftrightarrow> v = JNumber n"
  by (cases v) auto

lemma as_bool_Some [simp]: "as_bool v = Some b \<longleftrightarrow> v = JBool b"
  by (cases v) auto

lemma as_array_Some [simp]: "as_array v = Some xs \<longleftrightarrow> v = JArray xs"
  by (cases v) auto

text \<open>\<open>describe\<close>, which \<open>definition.rs\<close> and \<open>identity.rs\<close> each carry.\<close>

definition describe :: "json \<Rightarrow> string" where
  "describe v = (case v of
     JNull \<Rightarrow> ''null'' | JBool _ \<Rightarrow> ''a boolean'' | JNumber _ \<Rightarrow> ''a number''
   | JString _ \<Rightarrow> ''a string'' | JArray _ \<Rightarrow> ''a list'' | JObject _ \<Rightarrow> ''a mapping'')"

text \<open>\<open>Number::as_i64\<close> and \<open>Number::as_u64\<close> read the text; \<open>Number::from\<close> writes an integer's.\<close>

definition as_i64 :: "number \<Rightarrow> int option" where "as_i64 n = parse_signed 64 n"
definition as_u64 :: "number \<Rightarrow> nat option" where "as_u64 n = parse_unsigned 64 n"
definition number_of_int :: "int \<Rightarrow> number" where "number_of_int i = show_int i"
definition number_of_nat :: "nat \<Rightarrow> number" where "number_of_nat n = show_nat n"

section \<open>Canonical documents\<close>

text \<open>
  \<open>canonicalize\<close> and \<open>canonical_object\<close> of \<open>runtime.rs\<close>: every object at every depth is collected
  into key order.
\<close>

primrec canonicalize :: "json \<Rightarrow> json" where
  "canonicalize JNull = JNull"
| "canonicalize (JBool b) = JBool b"
| "canonicalize (JNumber n) = JNumber n"
| "canonicalize (JString s) = JString s"
| "canonicalize (JArray xs) = JArray (map canonicalize xs)"
| "canonicalize (JObject m) = JObject (bt_collect (map (map_prod id canonicalize) m))"

definition canonical_object :: "jmap \<Rightarrow> jmap" where
  "canonical_object m = bt_collect (map (map_prod id canonicalize) m)"

lemma canonicalize_object: "canonicalize (JObject m) = JObject (canonical_object m)"
  by (simp add: canonical_object_def)

text \<open>
  The representation invariant of \<open>serde_json::Value\<close>: keys of an object ascend strictly, and a
  number is a token of the JSON grammar.
\<close>

definition is_exponent_mark :: "char \<Rightarrow> bool" where
  "is_exponent_mark c \<longleftrightarrow> c = CHR ''e'' \<or> c = CHR ''E''"

definition is_point :: "char \<Rightarrow> bool" where
  "is_point c \<longleftrightarrow> c = CHR ''.''"

definition unsigned_text :: "string \<Rightarrow> bool \<times> string" where
  "unsigned_text s = (case s of c # r \<Rightarrow> if c = CHR ''-'' then (True, r) else (False, s) | [] \<Rightarrow> (False, s))"

definition unsign_exponent :: "string \<Rightarrow> bool \<times> string" where
  "unsign_exponent e = (case e of
     c # r \<Rightarrow> if c = CHR ''-'' then (True, r) else if c = CHR ''+'' then (False, r) else (False, e)
   | [] \<Rightarrow> (False, e))"

definition number_ok :: "number \<Rightarrow> bool" where
  "number_ok n = (let (_, u) = unsigned_text n;
      (mantissa, exponent) = split_first is_exponent_mark u;
      (whole, fraction) = split_first is_point mantissa
    in is_digits whole \<and> (hd whole = CHR ''0'' \<longrightarrow> whole = ''0'')
     \<and> (case fraction of None \<Rightarrow> True | Some f \<Rightarrow> is_digits f)
     \<and> (case exponent of None \<Rightarrow> True | Some e \<Rightarrow> is_digits (snd (unsign_exponent e))))"

primrec json_ok :: "json \<Rightarrow> bool" where
  "json_ok JNull = True"
| "json_ok (JBool b) = True"
| "json_ok (JNumber n) = number_ok n"
| "json_ok (JString s) = True"
| "json_ok (JArray xs) = list_all id (map json_ok xs)"
| "json_ok (JObject m) = (sorted_keys m \<and> list_all snd (map (map_prod id json_ok) m))"

definition jmap_ok :: "jmap \<Rightarrow> bool" where
  "jmap_ok m \<longleftrightarrow> json_ok (JObject m)"

lemma json_ok_array [simp]: "json_ok (JArray xs) \<longleftrightarrow> (\<forall>x \<in> set xs. json_ok x)"
  by (simp add: list_all_iff)

lemma json_ok_object [simp]: "json_ok (JObject m) \<longleftrightarrow> sorted_keys m \<and> (\<forall>v \<in> snd ` set m. json_ok v)"
  by (auto simp: list_all_iff map_prod_def)

declare json_ok.simps(5,6) [simp del]

lemma jmap_ok_simps [simp]:
  "jmap_ok []"
  "jmap_ok (kv # m) \<longleftrightarrow> (\<forall>k \<in> fst ` set m. fst kv < k) \<and> json_ok (snd kv) \<and> jmap_ok m"
  by (auto simp: jmap_ok_def)

lemma jmap_ok_sorted: "jmap_ok m \<Longrightarrow> sorted_keys m"
  by (simp add: jmap_ok_def)

lemma jmap_ok_get: "jmap_ok m \<Longrightarrow> map_of m k = Some v \<Longrightarrow> json_ok v"
  by (force simp: jmap_ok_def dest: map_of_SomeD)

lemma bt_insert_set_values: "snd ` set (bt_insert k v m) \<subseteq> insert v (snd ` set m)"
  by (induction k v m rule: bt_insert.induct) auto

lemma jmap_ok_insert [simp]: "jmap_ok m \<Longrightarrow> json_ok v \<Longrightarrow> jmap_ok (bt_insert k v m)"
  unfolding jmap_ok_def json_ok_object
  using bt_insert_set_values [of k v m] by (intro conjI ballI) (simp, blast)

lemma jmap_ok_remove [simp]: "jmap_ok m \<Longrightarrow> jmap_ok (bt_remove k m)"
  by (auto simp: jmap_ok_def) (auto simp: bt_remove_def)

lemma jmap_ok_fold_insert:
  "jmap_ok m \<Longrightarrow> \<forall>v \<in> snd ` set kvs. json_ok v \<Longrightarrow> jmap_ok (fold (\<lambda>(k, v). bt_insert k v) kvs m)"
  by (induction kvs arbitrary: m) auto

lemma jmap_ok_collect: "\<forall>v \<in> snd ` set kvs. json_ok v \<Longrightarrow> jmap_ok (bt_collect kvs)"
  using jmap_ok_fold_insert [of "[]" kvs] by (simp add: bt_collect_def)

lemma canonicalize_ok: "json_ok v \<Longrightarrow> canonicalize v = v"
proof (induction v)
  case (JArray xs)
  then show ?case by (simp add: map_idI)
next
  case (JObject m)
  then have "map (map_prod id canonicalize) m = m"
    by (force intro!: map_idI)
  with JObject show ?case by (simp add: bt_collect_id)
qed simp_all

lemma canonical_object_ok [simp]: "jmap_ok m \<Longrightarrow> canonical_object m = m"
  using canonicalize_ok [of "JObject m"] by (simp add: jmap_ok_def canonical_object_def)

text \<open>The numbers of a document, and that canonicalization is idempotent on any document.\<close>

lemma canonicalize_idem: "canonicalize (canonicalize v) = canonicalize v"
proof (induction v)
  case (JObject m)
  let ?m = "map (map_prod id canonicalize) m"
  have "canonicalize w = w" if "w \<in> snd ` set (bt_collect ?m)" for w
  proof -
    from that obtain k where "(k, w) \<in> set (bt_collect ?m)" by auto
    then have "map_of (bt_collect ?m) k = Some w"
      by (simp add: sorted_keys_distinct)
    then have "map_of (rev ?m) k = Some w" by (simp only: bt_get_collect)
    then have "(k, w) \<in> set (rev ?m)" by (rule map_of_SomeD)
    then have "(k, w) \<in> set ?m" by simp
    with JObject.IH show ?thesis by fastforce
  qed
  then have "map (map_prod id canonicalize) (bt_collect ?m) = bt_collect ?m"
    by (force intro!: map_idI)
  then show ?case by (simp add: bt_collect_id)
qed simp_all

end
