(* ===== verification/Definition.thy ===== *)
theory Definition
  imports Json "HOL-Library.Word"
begin

text \<open>
  \<open>entity-core/src/definition.rs\<close>: what an entity type is, as data. Structs are records and enums are
  datatypes with the source's constructors (prefixed where HOL has the name); \<open>u32\<close> is \<open>32 word\<close>,
  \<open>usize\<close> is \<open>nat\<close>, a \<open>BTreeMap\<close> an ordered map. The pure functions of the module follow their types.
\<close>

section \<open>Document rule sets\<close>

datatype semantics = Kernel1 | Service1 | Service2 | Service3

definition is_kernel_1 :: "semantics \<Rightarrow> bool" where
  "is_kernel_1 s \<longleftrightarrow> s = Kernel1"

definition is_service_1 :: "semantics \<Rightarrow> bool" where
  "is_service_1 s \<longleftrightarrow> s = Service1"

definition has_service_semantics :: "semantics \<Rightarrow> bool" where
  "has_service_semantics s \<longleftrightarrow> s = Service1 \<or> s = Service2 \<or> s = Service3"

definition has_conditional_presence :: "semantics \<Rightarrow> bool" where
  "has_conditional_presence s \<longleftrightarrow> s = Service2 \<or> s = Service3"

definition has_operation_fulfillment :: "semantics \<Rightarrow> bool" where
  "has_operation_fulfillment s \<longleftrightarrow> s = Service3"

lemma has_service_semantics_iff: "has_service_semantics s \<longleftrightarrow> \<not> is_kernel_1 s"
  by (cases s) (simp_all add: has_service_semantics_def is_kernel_1_def)

datatype number_observation = SourceNumber1

section \<open>Fields\<close>

datatype field_kind =
    KString | KInteger | KNumber | KBoolean | KEnum | KArray | KObject | KJson | KRef
  | KMap | KUnion | KBinary64

definition kind_as_str :: "field_kind \<Rightarrow> string" where
  "kind_as_str k = (case k of
     KString \<Rightarrow> ''string'' | KInteger \<Rightarrow> ''integer'' | KNumber \<Rightarrow> ''number'' | KBoolean \<Rightarrow> ''boolean''
   | KEnum \<Rightarrow> ''enum'' | KArray \<Rightarrow> ''array'' | KObject \<Rightarrow> ''object'' | KJson \<Rightarrow> ''json'' | KRef \<Rightarrow> ''ref''
   | KMap \<Rightarrow> ''map'' | KUnion \<Rightarrow> ''union'' | KBinary64 \<Rightarrow> ''binary64'')"

definition is_service_only :: "field_kind \<Rightarrow> bool" where
  "is_service_only k \<longleftrightarrow> k = KMap \<or> k = KUnion \<or> k = KBinary64"

definition is_numeric :: "field_kind \<Rightarrow> bool" where
  "is_numeric k \<longleftrightarrow> k = KInteger \<or> k = KNumber \<or> k = KBinary64"

datatype map_key =
    KeyString | KeyBoolean | KeyInteger | KeyDecimal | KeyTimestamp | KeyDuration | KeyUuid | KeyBytes

definition map_key_as_str :: "map_key \<Rightarrow> string" where
  "map_key_as_str k = (case k of
     KeyString \<Rightarrow> ''string'' | KeyBoolean \<Rightarrow> ''boolean'' | KeyInteger \<Rightarrow> ''integer'' | KeyDecimal \<Rightarrow> ''decimal''
   | KeyTimestamp \<Rightarrow> ''timestamp'' | KeyDuration \<Rightarrow> ''duration'' | KeyUuid \<Rightarrow> ''uuid'' | KeyBytes \<Rightarrow> ''bytes'')"

datatype declared_default = DefaultAbsent | DefaultValue json

fun default_as_value :: "declared_default \<Rightarrow> json option" where
  "default_as_value DefaultAbsent = None"
| "default_as_value (DefaultValue v) = Some v"

datatype field_definition = FieldDefinition
  (fd_kind: field_kind)
  (fd_required: bool)
  (fd_default: declared_default)
  (fd_min_length: "nat option")
  (fd_max_length: "nat option")
  (fd_alphabet: "string option")
  (fd_min: "number option")
  (fd_max: "number option")
  (fd_values: "string list")
  (fd_items: "field_definition option")
  (fd_properties: "(string \<times> field_definition) list")
  (fd_additional_properties: bool)
  (fd_entity: "string option")
  (fd_inverse: "string option")
  (fd_acyclic: "bool option")
  (fd_key: "map_key option")
  (fd_tag: "string option")
  (fd_variants: "(string \<times> field_definition) list")

text \<open>\<open>FieldDefinition { kind, ..Default::default() }\<close>.\<close>

definition field_of_kind :: "field_kind \<Rightarrow> field_definition" where
  "field_of_kind k = FieldDefinition k False DefaultAbsent None None None None None [] None [] False
     None None None None None []"

definition is_acyclic :: "field_definition \<Rightarrow> bool" where
  "is_acyclic f = (case fd_acyclic f of None \<Rightarrow> False | Some b \<Rightarrow> b)"

record object_schema =
  os_fields :: "field_definition smap"
  os_additional_fields :: bool

definition empty_schema :: object_schema where
  "empty_schema = \<lparr>os_fields = [], os_additional_fields = False\<rparr>"

definition schema_is_empty :: "object_schema \<Rightarrow> bool" where
  "schema_is_empty s \<longleftrightarrow> os_fields s = [] \<and> \<not> os_additional_fields s"

section \<open>Conditions\<close>

datatype compare_op = OpEq | OpNe | OpLt | OpLte | OpGt | OpGte

definition accepts :: "compare_op \<Rightarrow> ordering \<Rightarrow> bool" where
  "accepts op order = (case op of
     OpEq \<Rightarrow> is_eq order
   | OpNe \<Rightarrow> \<not> is_eq order
   | OpLt \<Rightarrow> is_lt order
   | OpLte \<Rightarrow> is_lt order \<or> is_eq order
   | OpGt \<Rightarrow> is_gt order
   | OpGte \<Rightarrow> is_gt order \<or> is_eq order)"

definition is_ordering :: "compare_op \<Rightarrow> bool" where
  "is_ordering op \<longleftrightarrow> op = OpLt \<or> op = OpLte \<or> op = OpGt \<or> op = OpGte"

definition compare_op_as_str :: "compare_op \<Rightarrow> string" where
  "compare_op_as_str op = (case op of
     OpEq \<Rightarrow> ''eq'' | OpNe \<Rightarrow> ''ne'' | OpLt \<Rightarrow> ''lt'' | OpLte \<Rightarrow> ''lte'' | OpGt \<Rightarrow> ''gt'' | OpGte \<Rightarrow> ''gte'')"

record comparison_def =
  left_operand :: json
  comparison_op :: compare_op
  right_operand :: json

datatype condition =
    CLiteral bool
  | CAll "condition list"
  | CAny "condition list"
  | CNot condition
  | CExists json
  | CBefore json json
  | CAfter json json
  | CEq json json
  | CNe json json
  | CGt json json
  | CGte json json
  | CLt json json
  | CLte json json
  | CIn json json
  | CContains json json
  | CStartsWith json json
  | CEndsWith json json
  | CCompare comparison_def
  | CTruthy json
  | CForAll quantifier
  | CForAny quantifier
and quantifier = Quantifier (over: json) (bind_name: string) (body: condition)

definition condition_operators :: "string list" where
  "condition_operators = [''all'', ''any'', ''not'', ''exists'', ''eq'', ''ne'', ''gt'', ''gte'', ''lt'', ''lte'',
     ''in'', ''contains'', ''starts_with'', ''ends_with'', ''before'', ''after'', ''compare'', ''truthy'',
     ''for_all'', ''for_any'']"

definition service_condition_operators :: "string list" where
  "service_condition_operators = [''compare'', ''truthy'', ''for_all'', ''for_any'']"

definition max_condition_depth :: nat where
  "max_condition_depth = 32"

fun condition_depth :: "condition \<Rightarrow> nat" where
  "condition_depth (CAll cs) = 1 + fold max (map condition_depth cs) 0"
| "condition_depth (CAny cs) = 1 + fold max (map condition_depth cs) 0"
| "condition_depth (CNot c) = 1 + condition_depth c"
| "condition_depth (CForAll (Quantifier ov bn c)) = 1 + condition_depth c"
| "condition_depth (CForAny (Quantifier ov bn c)) = 1 + condition_depth c"
| "condition_depth c = 1"

definition operator :: "condition \<Rightarrow> string" where
  "operator c = (case c of
     CLiteral _ \<Rightarrow> ''literal'' | CAll _ \<Rightarrow> ''all'' | CAny _ \<Rightarrow> ''any'' | CNot _ \<Rightarrow> ''not''
   | CExists _ \<Rightarrow> ''exists'' | CBefore _ _ \<Rightarrow> ''before'' | CAfter _ _ \<Rightarrow> ''after'' | CEq _ _ \<Rightarrow> ''eq''
   | CNe _ _ \<Rightarrow> ''ne'' | CGt _ _ \<Rightarrow> ''gt'' | CGte _ _ \<Rightarrow> ''gte'' | CLt _ _ \<Rightarrow> ''lt'' | CLte _ _ \<Rightarrow> ''lte''
   | CIn _ _ \<Rightarrow> ''in'' | CContains _ _ \<Rightarrow> ''contains'' | CStartsWith _ _ \<Rightarrow> ''starts_with''
   | CEndsWith _ _ \<Rightarrow> ''ends_with'' | CCompare _ \<Rightarrow> ''compare'' | CTruthy _ \<Rightarrow> ''truthy''
   | CForAll _ \<Rightarrow> ''for_all'' | CForAny _ \<Rightarrow> ''for_any'')"

section \<open>Rules, events and branches\<close>

record rule_definition =
  rule_name :: "string option"
  rule_condition :: condition
  rule_message :: "string option"

record present_argument =
  pa_argument :: string

record event_definition =
  ed_event_type :: string
  ed_payload :: json
  ed_payload_if_present :: "present_argument smap"

datatype 'a one_or_many = One 'a | Many "'a list"

fun as_slice :: "'a one_or_many \<Rightarrow> 'a list" where
  "as_slice (One x) = [x]"
| "as_slice (Many xs) = xs"

definition one_or_many_is_empty :: "'a one_or_many \<Rightarrow> bool" where
  "one_or_many_is_empty x \<longleftrightarrow> as_slice x = []"

record transition_definition =
  td_from :: "string one_or_many"
  td_to :: string

record refusal_definition =
  rd_error :: string
  rd_message :: "string option"

datatype outcome_effect =
    EffectNone
  | Creates
  | Moves (moves_to: string) (moves_from: "string one_or_many")
  | Updates

definition effect_is_none :: "outcome_effect \<Rightarrow> bool" where
  "effect_is_none e \<longleftrightarrow> e = EffectNone"

fun effect_move_sources :: "outcome_effect \<Rightarrow> string list option" where
  "effect_move_sources (Moves to from) = Some (as_slice from)"
| "effect_move_sources _ = None"

definition effect_as_str :: "outcome_effect \<Rightarrow> string" where
  "effect_as_str e = (case e of
     EffectNone \<Rightarrow> ''none'' | Creates \<Rightarrow> ''creates'' | Moves _ _ \<Rightarrow> ''moves'' | Updates \<Rightarrow> ''updates'')"

datatype operation_field_actions = ActionsRequired | ActionsOptional

record operation_field_requirement =
  ofr_actions :: operation_field_actions

datatype operation_field_action = Preserve | SetValue json | Remove

record outcome_definition =
  od_name :: string
  od_when :: "condition option"
  od_in_state :: "string option"
  od_wrong_state :: bool
  od_effect :: outcome_effect
  od_set :: "json smap"
  od_fulfills :: "operation_field_requirement smap"
  od_set_if_present :: "present_argument smap"
  od_emits :: "event_definition list"
  od_responds :: "json smap"
  od_responds_if_present :: "present_argument smap"
  od_refuses :: "refusal_definition option"

definition is_default_branch :: "outcome_definition \<Rightarrow> bool" where
  "is_default_branch o' \<longleftrightarrow> od_when o' = None \<and> od_in_state o' = None \<and> \<not> od_wrong_state o'"

definition is_observable :: "outcome_definition \<Rightarrow> bool" where
  "is_observable o' \<longleftrightarrow> od_emits o' \<noteq> [] \<or> od_set o' \<noteq> [] \<or> od_fulfills o' \<noteq> [] \<or> od_set_if_present o' \<noteq> []
     \<or> od_responds o' \<noteq> [] \<or> od_responds_if_present o' \<noteq> [] \<or> od_refuses o' \<noteq> None \<or> \<not> effect_is_none (od_effect o')"

text \<open>\<open>SetAssignment::of\<close>: how one \<open>set:\<close> value is read.\<close>

datatype set_assignment =
    AssignTemplate json
  | AssignIncrement json
  | AssignCleared json
  | AssignConflicting jmap

definition set_assignment_of :: "json \<Rightarrow> set_assignment" where
  "set_assignment_of v = (case v of
     JObject members \<Rightarrow>
       if members = [] \<or> \<not> list_all (\<lambda>k. k \<in> set [''increment'', ''cleared'']) (bt_keys members)
       then AssignTemplate v
       else if length members > 1 then AssignConflicting members
       else (case members of
           (k, operand) # _ \<Rightarrow>
             if k = ''increment'' then AssignIncrement operand
             else if k = ''cleared'' then AssignCleared operand
             else AssignTemplate v
         | [] \<Rightarrow> AssignTemplate v)
   | _ \<Rightarrow> AssignTemplate v)"

section \<open>The definition\<close>

record lifecycle_definition =
  lc_initial :: string
  lc_states :: "string list"

record create_definition =
  cd_emit :: "event_definition option"
  cd_arguments :: object_schema
  cd_response :: object_schema
  cd_outcomes :: "outcome_definition list"

record operation_definition =
  op_arguments :: object_schema
  op_transitions :: "transition_definition list"
  op_preconditions :: "rule_definition list"
  op_set :: "json smap"
  op_emits :: "event_definition list"
  op_response :: object_schema
  op_outcomes :: "outcome_definition list"

record identity_definition =
  id_field :: string

datatype relation_kind = Owns | References

definition relation_kind_as_str :: "relation_kind \<Rightarrow> string" where
  "relation_kind_as_str k = (case k of Owns \<Rightarrow> ''owns'' | References \<Rightarrow> ''references'')"

datatype cardinality = CardinalityOne | CardinalityMany

definition cardinality_as_str :: "cardinality \<Rightarrow> string" where
  "cardinality_as_str c = (case c of CardinalityOne \<Rightarrow> ''one'' | CardinalityMany \<Rightarrow> ''many'')"

record relation_definition =
  rel_kind :: relation_kind
  rel_target :: string
  rel_cardinality :: cardinality
  rel_via :: string

record projection_definition =
  pd_key :: string
  pd_in_state :: "string option"

record entity_definition =
  def_entity :: string
  def_version :: "32 word"
  def_schema :: object_schema
  def_lifecycle :: lifecycle_definition
  def_invariants :: "rule_definition list"
  def_create :: create_definition
  def_operations :: "operation_definition smap"
  def_projections :: "projection_definition smap"
  def_semantics :: semantics
  def_identity :: "identity_definition option"
  def_relations :: "relation_definition smap"
  def_scales :: "(string list) smap"
  def_number_observation :: number_observation

section \<open>Facts\<close>

lemma accepts_ne: "accepts OpNe order \<longleftrightarrow> \<not> accepts OpEq order"
  by (simp add: accepts_def)

lemma accepts_complement:
  "accepts OpLt order \<longleftrightarrow> \<not> accepts OpGte order" "accepts OpGt order \<longleftrightarrow> \<not> accepts OpLte order"
  by (cases order; simp add: accepts_def ordering_defs)+

lemma accepts_reverse: "accepts OpLt (ord_reverse order) \<longleftrightarrow> accepts OpGt order"
  by (cases order) (simp_all add: accepts_def ordering_defs)

end
