(* ===== verification/Errors.thy ===== *)
theory Errors
  imports Definition
begin

text \<open>
  The typed refusals of \<open>entity-core/src/error.rs\<close>. A message is the text the code formats and the
  values it formats into it, not the rendered string: \<open>Msg ''value {} is below {}'' [a, b]\<close>.
\<close>

datatype msg_arg = ArgText string | ArgNat nat | ArgJson json

datatype message = Msg string "msg_arg list"

abbreviation plain :: "string \<Rightarrow> message" where
  "plain s \<equiv> Msg s []"

record validation_error =
  ve_path :: string
  ve_message :: message

definition ve_new :: "string \<Rightarrow> message \<Rightarrow> validation_error" where
  "ve_new p m = \<lparr>ve_path = p, ve_message = m\<rparr>"

text \<open>
  \<open>Definition(DefinitionErrors)\<close> is raised by registration alone and is not a constructor here.
  \<open>Panicked\<close> is not a variant of the source: it is the outcome of an \<open>expect\<close> or an index that the
  code believes cannot fail, so that a failing one would show.
\<close>

datatype core_error =
    Validation "validation_error list"
  | EntityNotRegistered string "32 word"
  | EntityMismatch string "32 word" string "32 word"
  | SubjectMismatch string string string
  | UnknownState string string
  | RevisionExhausted string string "64 word"
  | OperationNotFound string
  | InvalidTransition string string
  | PreconditionFailed string "string option" message
  | PreconditionUnobservable string "string option" message "string list"
  | InvariantViolation "string option" message
  | InvariantUnobservable "string option" message "string list"
  | Template message message
  | Refused string string "string option"
  | NoOutcomeSelected string
  | OutcomeUnobservable string string "string list"
  | UnspecifiedMoveSource string string string "string list"
  | IdentityMismatch string string message
  | CreationIdentityUnavailable string message
  | FulfillmentRequired string string "string list"
  | FulfillmentKeysMismatch string string "string list" "string list"
  | RequiredFieldRemoval string string string
  | IncrementOverflow string string number number message
  | Panicked string

type_synonym 'a core_result = "core_error + 'a"

definition core_error_kind :: "core_error \<Rightarrow> string" where
  "core_error_kind e = (case e of
     Validation _ \<Rightarrow> ''validation''
   | EntityNotRegistered _ _ \<Rightarrow> ''entity_not_registered''
   | EntityMismatch _ _ _ _ \<Rightarrow> ''entity_mismatch''
   | SubjectMismatch _ _ _ \<Rightarrow> ''subject_mismatch''
   | UnknownState _ _ \<Rightarrow> ''unknown_state''
   | RevisionExhausted _ _ _ \<Rightarrow> ''revision_exhausted''
   | OperationNotFound _ \<Rightarrow> ''operation_not_found''
   | InvalidTransition _ _ \<Rightarrow> ''invalid_transition''
   | PreconditionFailed _ _ _ \<Rightarrow> ''precondition_failed''
   | PreconditionUnobservable _ _ _ _ \<Rightarrow> ''precondition_unobservable''
   | InvariantViolation _ _ \<Rightarrow> ''invariant_violation''
   | InvariantUnobservable _ _ _ \<Rightarrow> ''invariant_unobservable''
   | Template _ _ \<Rightarrow> ''template''
   | Refused _ _ _ \<Rightarrow> ''refused''
   | NoOutcomeSelected _ \<Rightarrow> ''no_outcome_selected''
   | OutcomeUnobservable _ _ _ \<Rightarrow> ''outcome_unobservable''
   | UnspecifiedMoveSource _ _ _ _ \<Rightarrow> ''unspecified_move_source''
   | IdentityMismatch _ _ _ \<Rightarrow> ''identity_mismatch''
   | CreationIdentityUnavailable _ _ \<Rightarrow> ''creation_identity_unavailable''
   | FulfillmentRequired _ _ _ \<Rightarrow> ''fulfillment_required''
   | FulfillmentKeysMismatch _ _ _ _ \<Rightarrow> ''fulfillment_keys_mismatch''
   | RequiredFieldRemoval _ _ _ \<Rightarrow> ''required_field_removal''
   | IncrementOverflow _ _ _ _ _ \<Rightarrow> ''increment_overflow''
   | Panicked _ \<Rightarrow> ''panicked'')"

end
