(* ===== verification/Decimals.thy ===== *)
theory Decimals
  imports Json
begin

text \<open>
  What decimal text means, shared by the two readers of numbers (\<open>number.rs\<close> and \<open>observed.rs\<close>):
  the rational value of a token, and the comparison both make, which orders by the place of the
  first digit and then by the digits padded with zeros.
\<close>

section \<open>Digit lists from the low end\<close>

primrec lsd_val :: "nat list \<Rightarrow> nat" where
  "lsd_val [] = 0"
| "lsd_val (d # ds) = d + 10 * lsd_val ds"

lemma lsd_val_append: "lsd_val (ds @ es) = lsd_val ds + 10 ^ length ds * lsd_val es"
  by (induction ds) (simp_all add: algebra_simps)

lemma digits_val_rev: "digits_val (rev ds) = lsd_val ds"
  by (induction ds) simp_all

lemma lsd_val_rev: "lsd_val (rev ds) = digits_val ds"
  by (metis digits_val_rev rev_rev_ident)

lemma lsd_val_less: "list_all (\<lambda>d. d < 10) ds \<Longrightarrow> lsd_val ds < 10 ^ length ds"
  using digits_val_less [of "rev ds"] by (simp add: digits_val_rev list_all_iff)

lemma lsd_val_replicate0 [simp]: "lsd_val (replicate k 0) = 0"
  by (induction k) simp_all

lemma digits_val_lower: "ds \<noteq> [] \<Longrightarrow> hd ds \<noteq> 0 \<Longrightarrow> 10 ^ (length ds - 1) \<le> digits_val ds"
  by (cases ds) (simp_all add: trans_le_add1)

lemma digits_val_replicate0 [simp]: "digits_val (replicate k 0) = 0"
  using digits_val_rev [of "replicate k 0"] by simp

lemma digits_val_dropWhile0: "digits_val (dropWhile (\<lambda>d. d = 0) ds) = digits_val ds"
  by (induction ds) auto

section \<open>The value of a token\<close>

definition strip_sign_int :: "string \<Rightarrow> int" where
  "strip_sign_int e = (let (neg, ds) = unsign_exponent e in
     if neg then - int (nat_of_text ds) else int (nat_of_text ds))"

text \<open>
  The parse both readers open with: sign, digits before the point, digits after it, exponent,
  where an absent fraction is empty and an absent exponent is \<open>0\<close>.
\<close>

definition split_number :: "string \<Rightarrow> bool \<times> string \<times> string \<times> string" where
  "split_number text =
     (let (negative, unsigned) = unsigned_text text;
          (mantissa, exponent) = (case split_first is_exponent_mark unsigned of
             (m, None) \<Rightarrow> (m, ''0'') | (m, Some e) \<Rightarrow> (m, e));
          (whole, fraction) = (case split_first is_point mantissa of
             (w, None) \<Rightarrow> (w, []) | (w, Some f) \<Rightarrow> (w, f))
      in (negative, whole, fraction, exponent))"

definition sign_rat :: "bool \<Rightarrow> rat" where
  "sign_rat negative = (if negative then - 1 else 1)"

definition number_value :: "number \<Rightarrow> rat" where
  "number_value n = (let (negative, whole, fraction, exponent) = split_number n in
     sign_rat negative * of_nat (nat_of_text (whole @ fraction))
       * 10 powi (strip_sign_int exponent - int (length fraction)))"

lemma number_ok_split:
  assumes "number_ok n" and "split_number n = (negative, whole, fraction, exponent)"
  shows "is_digits whole" "list_all is_digit fraction" "is_digits (snd (unsign_exponent exponent))"
  using assms
  by (auto simp: number_ok_def split_number_def Let_def is_digits_def unsign_exponent_def is_digit_def
      split: prod.splits option.splits)

section \<open>Digit text as a fraction\<close>

text \<open>\<open>0.s\<close>, for comparing digit strings of different lengths.\<close>

definition frac :: "string \<Rightarrow> rat" where
  "frac s = of_nat (nat_of_text s) / 10 ^ length s"

definition pad_zeros :: "nat \<Rightarrow> string \<Rightarrow> string" where
  "pad_zeros w s = take w (s @ replicate w CHR ''0'')"

lemma nat_of_text_append: "nat_of_text (s @ t) = nat_of_text s * 10 ^ length t + nat_of_text t"
  by (simp add: nat_of_text_def)

lemma nat_of_text_zeros [simp]: "nat_of_text (replicate k CHR ''0'') = 0"
  by (simp add: nat_of_text_def digit_val_def)

lemma digit_val_0_iff: "is_digit c \<Longrightarrow> digit_val c = 0 \<longleftrightarrow> c = CHR ''0''"
  by (metis digit_char_simps(1) digit_char_val digit_val_char zero_less_numeral)

lemma nat_of_text_zero_iff: "list_all is_digit s \<Longrightarrow> nat_of_text s = 0 \<longleftrightarrow> (\<forall>c \<in> set s. c = CHR ''0'')"
  by (induction s) (auto simp: nat_of_text_def digit_val_0_iff)

lemma nat_of_text_less: "list_all is_digit s \<Longrightarrow> nat_of_text s < 10 ^ length s"
  using digits_val_less [of "map digit_val s"]
  by (simp add: nat_of_text_def list_all_iff digit_val_less)

lemma nat_of_text_lower:
  assumes "list_all is_digit s" "s \<noteq> []" "hd s \<noteq> CHR ''0''"
  shows "10 ^ (length s - 1) \<le> nat_of_text s"
proof -
  from assms obtain c r where s: "s = c # r" and "is_digit c" "c \<noteq> CHR ''0''"
    by (cases s) auto
  then have "digit_val c \<noteq> 0"
    by (simp add: digit_val_0_iff)
  with digits_val_lower [of "map digit_val s"] show ?thesis
    by (simp add: nat_of_text_def s)
qed

lemma show_nat_hd: "0 < n \<Longrightarrow> hd (show_nat n) \<noteq> CHR ''0''"
proof (induction n rule: show_nat.induct)
  case (1 n)
  show ?case
  proof (cases "n < 10")
    case True
    then show ?thesis
      using 1(2) digit_val_0_iff [of "digit_char n"] by (subst show_nat.simps) simp
  next
    case False
    with 1 show ?thesis by (subst show_nat.simps) simp
  qed
qed

lemma show_nat_all_digits: "list_all is_digit (show_nat n)"
  using show_nat_digits by (auto simp: list_all_iff)

lemma show_nat_length: "n < 10 ^ w \<Longrightarrow> 0 < w \<Longrightarrow> length (show_nat n) \<le> w"
proof (cases "n = 0")
  case False
  assume "n < 10 ^ w" "0 < w"
  have "10 ^ (length (show_nat n) - 1) \<le> n"
    using nat_of_text_lower [of "show_nat n"] show_nat_hd [of n] False by (simp add: show_nat_all_digits)
  also have "\<dots> < 10 ^ w" by fact
  finally show ?thesis by (simp add: power_strict_increasing_iff)
qed (simp add: show_nat.simps)

lemma frac_bounds:
  assumes "list_all is_digit s" "s \<noteq> []" "hd s \<noteq> CHR ''0''"
  shows "1 / 10 \<le> frac s" "frac s < 1"
proof -
  have "(10::rat) ^ (length s - 1) \<le> of_nat (nat_of_text s)"
    using nat_of_text_lower [OF assms] by (metis of_nat_le_iff of_nat_numeral of_nat_power)
  moreover have "(10::rat) ^ length s = 10 * 10 ^ (length s - 1)"
    using assms(2) by (cases s) simp_all
  ultimately show "1 / 10 \<le> frac s" by (simp add: frac_def field_simps)
  have "of_nat (nat_of_text s) < (10::rat) ^ length s"
    using nat_of_text_less [OF assms(1)] by (metis of_nat_less_iff of_nat_numeral of_nat_power)
  then show "frac s < 1" by (simp add: frac_def)
qed

lemma frac_pad: "frac (s @ replicate k CHR ''0'') = frac s"
  by (simp add: frac_def nat_of_text_append power_add)

lemma pad_zeros_append: "length s \<le> w \<Longrightarrow> pad_zeros w s = s @ replicate (w - length s) CHR ''0''"
  by (simp add: pad_zeros_def)

section \<open>Comparison\<close>

lemma less_char_digit: "is_digit c \<Longrightarrow> is_digit d \<Longrightarrow> c < d \<longleftrightarrow> digit_val c < digit_val d"
  by (auto simp: less_char_def is_digit_def digit_val_def)

lemma digits_less_iff:
  "length xs = length ys \<Longrightarrow> list_all (\<lambda>d. d < 10) xs \<Longrightarrow> list_all (\<lambda>d. d < 10) ys \<Longrightarrow>
     xs < ys \<longleftrightarrow> digits_val xs < digits_val ys"
proof (induction xs ys rule: list_induct2)
  case (Cons x xs y ys)
  have bound: "digits_val xs < 10 ^ length ys" "digits_val ys < 10 ^ length ys"
    using Cons digits_val_less [of xs] digits_val_less [of ys] by (simp_all add: list_all_iff)
  have step: "a * 10 ^ length ys + u < b * 10 ^ length ys + v"
    if "a < b" "u < 10 ^ length ys" for a b u v :: nat
  proof -
    from that have "(a + 1) * 10 ^ length ys \<le> b * 10 ^ length ys" by (intro mult_right_mono) auto
    with that show ?thesis by (simp add: algebra_simps)
  qed
  show ?case
    using Cons bound step [of x y "digits_val xs" "digits_val ys"] step [of y x "digits_val ys" "digits_val xs"]
    by (cases x y rule: linorder_cases) simp_all
qed simp

lemma cmp_digits:
  assumes "length xs = length ys" "list_all (\<lambda>d. d < 10) xs" "list_all (\<lambda>d. d < 10) ys"
  shows "cmp xs ys = cmp (digits_val xs) (digits_val ys)"
  using digits_less_iff [OF assms] digits_less_iff [of ys xs] assms
  by (auto simp: cmp_def)

lemma text_less_digits:
  "length s = length t \<Longrightarrow> list_all is_digit s \<Longrightarrow> list_all is_digit t \<Longrightarrow>
     s < t \<longleftrightarrow> map digit_val s < map digit_val t"
proof (induction s t rule: list_induct2)
  case (Cons c s d t)
  then show ?case by (auto simp: less_char_digit) (metis digit_char_val)+
qed simp

lemma text_less_iff:
  "length s = length t \<Longrightarrow> list_all is_digit s \<Longrightarrow> list_all is_digit t \<Longrightarrow>
     s < t \<longleftrightarrow> nat_of_text s < nat_of_text t"
  using digits_less_iff [of "map digit_val s" "map digit_val t"]
  by (simp add: text_less_digits nat_of_text_def list_all_iff digit_val_less)

lemma cmp_text:
  assumes "length s = length t" "list_all is_digit s" "list_all is_digit t"
  shows "cmp s t = cmp (nat_of_text s) (nat_of_text t)"
  using text_less_iff [OF assms] text_less_iff [of t s] assms
  by (auto simp: cmp_def)

lemma cmp_scale:
  fixes c :: rat
  assumes "0 < c"
  shows "cmp (x * c) (y * c) = cmp x y" "cmp (x / c) (y / c) = cmp x y"
  using assms by (auto simp: cmp_def divide_less_cancel)

lemma cmp_of_nat: "cmp (of_nat m :: rat) (of_nat n) = cmp m n"
  by (simp add: cmp_def)

text \<open>
  The comparison of the two readers: place first, then the digits padded to one width.
\<close>

definition compare_digits :: "int \<Rightarrow> string \<Rightarrow> int \<Rightarrow> string \<Rightarrow> ordering" where
  "compare_digits p s q t =
     ord_then (cmp p q) (let width = max (length s) (length t) in cmp (pad_zeros width s) (pad_zeros width t))"

lemma cmp_frac:
  assumes "list_all is_digit s" "list_all is_digit t"
  shows "cmp (pad_zeros (max (length s) (length t)) s) (pad_zeros (max (length s) (length t)) t)
    = cmp (frac s) (frac t)"
proof -
  let ?w = "max (length s) (length t)"
  let ?s = "pad_zeros ?w s" and ?t = "pad_zeros ?w t"
  have len: "length ?s = ?w" "length ?t = ?w"
    by (simp_all add: pad_zeros_def)
  have digits: "list_all is_digit ?s" "list_all is_digit ?t"
    using assms by (auto simp: pad_zeros_append list_all_iff is_digit_def)
  have "cmp (frac s) (frac t) = cmp (frac ?s) (frac ?t)"
    by (simp add: pad_zeros_append frac_pad)
  also have "\<dots> = cmp (of_nat (nat_of_text ?s) :: rat) (of_nat (nat_of_text ?t))"
    by (simp add: frac_def len cmp_scale)
  finally show ?thesis
    using cmp_text [of ?s ?t] len digits by (simp add: cmp_of_nat)
qed

lemma frac_place_less:
  assumes a: "list_all is_digit a" "a \<noteq> []" "hd a \<noteq> CHR ''0''"
    and b: "list_all is_digit b" "b \<noteq> []" "hd b \<noteq> CHR ''0''" and "i < j"
  shows "frac a * 10 powi i < frac b * (10 powi j :: rat)"
proof -
  have "frac a * 10 powi i < 1 * (10 powi i :: rat)"
    using frac_bounds(2) [OF a] by (intro mult_strict_right_mono) auto
  also have "\<dots> \<le> 10 powi (j - 1)"
    using \<open>i < j\<close> by (simp add: power_int_increasing)
  also have "\<dots> = 1 / 10 * 10 powi j"
    by (simp add: power_int_diff)
  also have "\<dots> \<le> frac b * 10 powi j"
    using frac_bounds(1) [OF b] by (intro mult_right_mono) auto
  finally show ?thesis .
qed

lemma compare_digits_value:
  assumes s: "list_all is_digit s" "s \<noteq> []" "hd s \<noteq> CHR ''0''"
    and t: "list_all is_digit t" "t \<noteq> []" "hd t \<noteq> CHR ''0''"
  shows "compare_digits p s q t = cmp (frac s * 10 powi p) (frac t * 10 powi q)"
proof (cases p q rule: linorder_cases)
  case equal
  then show ?thesis
    by (simp add: compare_digits_def Let_def cmp_frac [OF s(1) t(1)] cmp_scale)
next
  case less
  then show ?thesis using frac_place_less [OF s t less] by (simp add: compare_digits_def cmp_def)
next
  case greater
  then show ?thesis using frac_place_less [OF t s greater] by (simp add: compare_digits_def cmp_def)
qed

end
