(* ===== verification/Binary64.thy ===== *)
theory Binary64
  imports Decimals
begin

text \<open>
  The operations of Rust's \<open>f64\<close> that \<open>observed.rs\<close> uses, on the numbers a binary64 is:
  \<open>Finite negative m q\<close> is \<open>m * 2^q\<close> with its sign. Reading decimal text rounds to the nearest
  binary64, ties to even (\<open>str::parse::<f64>\<close> is correctly rounded); \<open>Display\<close> writes the shortest
  decimal that reads back as the same number, without an exponent; \<open>total_cmp\<close> orders by the bits.
\<close>

datatype f64 = Finite bool nat int | Infinite bool | Nan

text \<open>\<open>m < 2^53\<close>, the exponent at least \<open>-1074\<close>, and a normal number has its leading bit set.\<close>

definition min_exponent :: int where "min_exponent = - 1074"
definition max_exponent :: int where "max_exponent = 971"

fun f64_ok :: "f64 \<Rightarrow> bool" where
  "f64_ok (Finite neg m q) \<longleftrightarrow> m < 2 ^ 53 \<and> min_exponent \<le> q \<and> q \<le> max_exponent
     \<and> (2 ^ 52 \<le> m \<or> q = min_exponent)"
| "f64_ok _ \<longleftrightarrow> True"

fun is_finite :: "f64 \<Rightarrow> bool" where
  "is_finite (Finite neg m q) \<longleftrightarrow> True"
| "is_finite _ \<longleftrightarrow> False"

fun f64_value :: "f64 \<Rightarrow> rat" where
  "f64_value (Finite neg m q) = sign_rat neg * of_nat m * 2 powi q"
| "f64_value _ = 0"

section \<open>Rounding\<close>

fun bit_length :: "nat \<Rightarrow> nat" where
  "bit_length n = (if n = 0 then 0 else Suc (bit_length (n div 2)))"

declare bit_length.simps [simp del]

definition half_even :: "nat \<Rightarrow> nat \<Rightarrow> nat" where
  "half_even num den = (let n = num div den; r = num mod den in
     if 2 * r < den then n else if den < 2 * r then n + 1 else if even n then n else n + 1)"

text \<open>\<open>num / den / 2^q\<close> as a ratio of naturals.\<close>

definition scale2 :: "nat \<Rightarrow> nat \<Rightarrow> int \<Rightarrow> nat \<times> nat" where
  "scale2 num den q = (if 0 \<le> q then (num, den * 2 ^ nat q) else (num * 2 ^ nat (- q), den))"

definition f64_of_ratio :: "bool \<Rightarrow> nat \<Rightarrow> nat \<Rightarrow> f64" where
  "f64_of_ratio neg num den =
     (if num = 0 then Finite neg 0 min_exponent
      else (let q0 = int (bit_length num) - int (bit_length den) - 53;
                (n0, d0) = scale2 num den q0;
                q = max min_exponent (if n0 < 2 ^ 53 * d0 then q0 else q0 + 1);
                (n, d) = scale2 num den q;
                m = half_even n d;
                (m, q) = (if m = 2 ^ 53 then (2 ^ 52, q + 1) else (m, q))
            in if q > max_exponent then Infinite neg else Finite neg m q))"

text \<open>
  \<open>text.parse::<f64>()\<close> with the grammar of \<open>f64::from_str\<close>: an optional sign, a word for infinity or
  NaN, or digits with an optional point (a digit on at least one side of it) and an optional
  exponent. And \<open>units as f64\<close>.
\<close>

definition to_lower :: "string \<Rightarrow> string" where
  "to_lower s = map (\<lambda>c. if (65::nat) \<le> of_char c \<and> (of_char c :: nat) \<le> 90 then char_of (of_char c + (32::nat)) else c) s"

definition f64_of_decimal :: "bool \<Rightarrow> nat \<Rightarrow> int \<Rightarrow> f64" where
  "f64_of_decimal negative m e =
     (if 0 \<le> e then f64_of_ratio negative (m * 10 ^ nat e) 1
      else f64_of_ratio negative m (10 ^ nat (- e)))"

definition f64_parse :: "string \<Rightarrow> f64 option" where
  "f64_parse text =
     (let (negative, rest) = unsign_exponent text;
          (mantissa, exponent) = split_first is_exponent_mark rest;
          (whole, point) = split_first is_point mantissa;
          fraction = (case point of None \<Rightarrow> [] | Some f \<Rightarrow> f)
      in if is_digits (whole @ fraction)
            \<and> (case exponent of None \<Rightarrow> True | Some e \<Rightarrow> is_digits (snd (unsign_exponent e)))
         then Some (f64_of_decimal negative (nat_of_text (whole @ fraction))
           ((case exponent of None \<Rightarrow> 0 | Some e \<Rightarrow> strip_sign_int e) - int (length fraction)))
         else if to_lower rest = ''inf'' \<or> to_lower rest = ''infinity'' then Some (Infinite negative)
         else if to_lower rest = ''nan'' then Some Nan
         else None)"

text \<open>On a token of the JSON grammar it is the rounding of the token's value.\<close>

lemma f64_parse_number:
  assumes ok: "number_ok n" and n: "split_number n = (negative, whole, fraction, exponent)"
  shows "f64_parse n = Some (f64_of_decimal negative (nat_of_text (whole @ fraction))
    (strip_sign_int exponent - int (length fraction)))"
proof -
  have zero: "strip_sign_int ''0'' = 0"
    by (simp add: strip_sign_int_def unsign_exponent_def nat_of_text_def digit_val_def)
  obtain u where u: "unsigned_text n = (negative, u)"
    using n by (cases "unsigned_text n") (auto simp: split_number_def Let_def split: prod.splits)
  have "u \<noteq> []" "is_digit (hd u)"
    using ok u by (cases u; auto simp: number_ok_def is_digits_def split: prod.splits if_splits)+
  then have "unsign_exponent n = (negative, u)"
    using u by (cases n) (auto simp: unsigned_text_def unsign_exponent_def split: if_splits)
  then show ?thesis
    using ok n number_ok_split(1,2) [OF ok n] u
    by (auto simp: f64_parse_def number_ok_def split_number_def Let_def is_digits_def zero
        split: prod.splits option.splits)
qed

definition f64_of_int :: "int \<Rightarrow> f64" where
  "f64_of_int i = f64_of_ratio (i < 0) (nat \<bar>i\<bar>) 1"

section \<open>Tests and order\<close>

fun f64_is_zero :: "f64 \<Rightarrow> bool" where
  "f64_is_zero (Finite neg m q) \<longleftrightarrow> m = 0"
| "f64_is_zero _ \<longleftrightarrow> False"

text \<open>The bits below the sign, whose order is the order of magnitudes.\<close>

fun f64_magnitude :: "f64 \<Rightarrow> nat" where
  "f64_magnitude (Finite neg m q) =
     (if m < 2 ^ 52 then m else nat (q - min_exponent + 1) * 2 ^ 52 + (m - 2 ^ 52))"
| "f64_magnitude (Infinite neg) = 2047 * 2 ^ 52"
| "f64_magnitude Nan = 2047 * 2 ^ 52 + 2 ^ 51"

fun f64_negative :: "f64 \<Rightarrow> bool" where
  "f64_negative (Finite neg m q) = neg"
| "f64_negative (Infinite neg) = neg"
| "f64_negative Nan = False"

definition f64_to_bits :: "f64 \<Rightarrow> nat" where
  "f64_to_bits x = (if f64_negative x then 2 ^ 63 else 0) + f64_magnitude x"

definition f64_key :: "f64 \<Rightarrow> int" where
  "f64_key x = (if f64_negative x then - int (f64_magnitude x) - 1 else int (f64_magnitude x))"

definition total_cmp :: "f64 \<Rightarrow> f64 \<Rightarrow> ordering" where
  "total_cmp x y = cmp (f64_key x) (f64_key y)"

text \<open>\<open>fract() == 0.0\<close>, and \<open>as i128\<close> of such a value.\<close>

fun f64_integral :: "f64 \<Rightarrow> bool" where
  "f64_integral (Finite neg m q) \<longleftrightarrow> 0 \<le> q \<or> 2 ^ nat (- q) dvd m"
| "f64_integral _ \<longleftrightarrow> False"

fun f64_truncate :: "f64 \<Rightarrow> int" where
  "f64_truncate (Finite neg m q) =
     (let n = (if 0 \<le> q then m * 2 ^ nat q else m div 2 ^ nat (- q))
      in if neg then - int n else int n)"
| "f64_truncate (Infinite neg) = (if neg then - (2 ^ 127) else 2 ^ 127 - 1)"
| "f64_truncate Nan = 0"

section \<open>The shortest decimal\<close>

text \<open>
  \<open>num / den\<close> is the magnitude, \<open>lower / den\<close> and \<open>upper / den\<close> half the distances to its
  neighbours. Digits are produced from the highest place down; at each place the decimals below and
  above are tried, and the first place with one inside the rounding interval ends the search, taking
  the nearer of the two (the upper one on a tie).
\<close>

definition shortest_at :: "bool \<Rightarrow> nat \<Rightarrow> nat \<Rightarrow> nat \<Rightarrow> nat \<Rightarrow> int \<Rightarrow> nat option" where
  "shortest_at inclusive num den lower upper p =
     (let s = (if 0 \<le> p then 1 else 10 ^ nat (- p));
          d = (if 0 \<le> p then den * 10 ^ nat p else den);
          n = (num * s) div d;
          r = (num * s) mod d;
          down = (r < lower * s \<or> inclusive \<and> r = lower * s);
          up = (d < r + upper * s \<or> inclusive \<and> d = r + upper * s)
      in if down \<or> up then Some (if up \<and> (\<not> down \<or> d \<le> 2 * r) then n + 1 else n) else None)"

primrec shortest :: "nat \<Rightarrow> (int \<Rightarrow> nat option) \<Rightarrow> int \<Rightarrow> nat \<times> int" where
  "shortest 0 trial p = (0, p)"
| "shortest (Suc fuel) trial p = (case trial p of Some n \<Rightarrow> (n, p) | None \<Rightarrow> shortest fuel trial (p - 1))"

definition f64_shortest :: "nat \<Rightarrow> int \<Rightarrow> nat \<times> int" where
  "f64_shortest m q =
     (let unit = (if 2 \<le> q then 2 ^ nat (q - 2) else 1);
          den = (if 2 \<le> q then 1 else 2 ^ nat (2 - q));
          num = 4 * m * unit;
          lower = (if m = 2 ^ 52 then unit else 2 * unit);
          p = int (length (show_nat num)) - int (length (show_nat den)) + 1
      in shortest (nat (p - min 0 q) + 1) (shortest_at (even m) num den lower (2 * unit)) p)"

text \<open>\<open>format!("{value}")\<close>.\<close>

fun f64_display :: "f64 \<Rightarrow> string" where
  "f64_display Nan = ''NaN''"
| "f64_display (Infinite neg) = (if neg then ''-inf'' else ''inf'')"
| "f64_display (Finite neg m q) =
     (if neg then ''-'' else []) @
     (if m = 0 then ''0''
      else (let (n, p) = f64_shortest m q; digits = show_nat n
            in if 0 \<le> p then digits @ replicate (nat p) CHR ''0''
               else (let point = int (length digits) + p
                     in if 0 < point then take (nat point) digits @ ''.'' @ drop (nat point) digits
                        else ''0.'' @ replicate (nat (- point)) CHR ''0'' @ digits)))"

section \<open>Evaluation\<close>

text \<open>The definitions \<open>simp\<close> computes a token's reading with, on numerals.\<close>

lemmas token_eval = number_ok_def split_number_def unsigned_text_def is_exponent_mark_def is_point_def
  is_digits_def is_digit_def strip_sign_int_def unsign_exponent_def nat_of_text_def digit_val_def Let_def

lemmas ratio_eval = f64_of_ratio_def bit_length.simps scale2_def half_even_def min_exponent_def
  max_exponent_def Let_def

lemma shortest_numeral [simp]:
  "shortest (numeral k) trial p =
     (case trial p of Some n \<Rightarrow> (n, p) | None \<Rightarrow> shortest (pred_numeral k) trial (p - 1))"
  by (simp add: numeral_eq_Suc)

text \<open>The token and the bits of the first test of \<open>observed.rs\<close>.\<close>

lemma f64_parse_witness:
  "map_option f64_to_bits (f64_parse ''946.3702156715110866946'') = Some 0x408d92f633a24cdb"
proof -
  have ok: "number_ok ''946.3702156715110866946''" by (simp add: token_eval)
  have split: "split_number ''946.3702156715110866946'' = (False, ''946'', ''3702156715110866946'', ''0'')"
    by (simp add: token_eval)
  have "nat_of_text ''9463702156715110866946'' = 9463702156715110866946" "strip_sign_int ''0'' = 0"
    by (simp_all add: token_eval)
  moreover have "f64_of_ratio False 9463702156715110866946 10000000000000000000 = Finite False 8324360450493659 (- 43)"
    by (simp add: ratio_eval)
  ultimately have "f64_parse ''946.3702156715110866946'' = Some (Finite False 8324360450493659 (- 43))"
    by (simp add: f64_parse_number [OF ok split] f64_of_decimal_def)
  then show ?thesis by (simp add: f64_to_bits_def min_exponent_def)
qed

lemma f64_display_witness:
  "f64_display (Finite False 8324360450493659 (- 43)) = ''946.3702156715111''"
proof -
  have "show_nat 33297441801974636 = ''33297441801974636''" "show_nat 35184372088832 = ''35184372088832''"
    by (simp_all add: show_nat.simps)
  then have "f64_shortest 8324360450493659 (- 43) = (9463702156715111, - 13)"
    by (simp add: f64_shortest_def) (simp add: shortest_at_def Let_def)
  moreover have "show_nat 9463702156715111 = ''9463702156715111''" by (simp add: show_nat.simps)
  ultimately show ?thesis by simp
qed

section \<open>Rounding is to the nearest\<close>

definition ratio :: "nat \<Rightarrow> nat \<Rightarrow> rat" where
  "ratio num den = of_nat num / of_nat den"

lemma bit_length_bounds:
  "0 < n \<Longrightarrow> 2 ^ bit_length n \<le> 2 * n \<and> n < 2 ^ bit_length n"
proof (induction n rule: bit_length.induct)
  case (1 n)
  show ?case
  proof (cases "n = 1")
    case True
    then show ?thesis by (simp add: bit_length.simps)
  next
    case False
    with 1 have "2 ^ bit_length (n div 2) \<le> 2 * (n div 2)" "n div 2 < 2 ^ bit_length (n div 2)"
      by simp_all
    then have "2 ^ bit_length (n div 2) \<le> n" "n < 2 * 2 ^ bit_length (n div 2)"
      using times_div_less_eq_dividend [of 2 n] by (linarith, simp add: div_less_iff_less_mult mult.commute)
    then show ?thesis using 1(2) by (subst (1 2) bit_length.simps) simp
  qed
qed

lemma scale2_ratio:
  assumes "scale2 num den q = (n, d)" "0 < den"
  shows "ratio n d = ratio num den / 2 powi q" "0 < d"
  using assms
  by (auto simp: scale2_def ratio_def power_int_def field_simps split: if_splits)

lemma half_even_near:
  assumes "0 < d"
  shows "2 * \<bar>of_nat (half_even n d) - ratio n d\<bar> \<le> 1"
proof -
  define k r where "k = n div d" and "r = n mod d"
  have "n = k * d + r" by (simp add: k_def r_def)
  then have ratio: "ratio n d = of_nat k + of_nat r / of_nat d"
    using assms by (simp add: ratio_def field_simps)
  have r: "r < d" using assms by (simp add: r_def)
  have le: "2 * r \<le> d \<Longrightarrow> 2 * (of_nat r / of_nat d :: rat) \<le> 1"
    using assms by (simp add: field_simps flip: of_nat_le_iff [where 'a = rat])
  have ge: "d \<le> 2 * r \<Longrightarrow> 1 \<le> 2 * (of_nat r / of_nat d :: rat)"
    using assms by (simp add: field_simps flip: of_nat_le_iff [where 'a = rat])
  have bounds: "0 \<le> (of_nat r / of_nat d :: rat)" "(of_nat r / of_nat d :: rat) < 1"
    using assms r by (simp_all add: field_simps)
  have "half_even n d = k \<and> 2 * r \<le> d \<or> half_even n d = k + 1 \<and> d \<le> 2 * r"
    by (auto simp: half_even_def Let_def k_def r_def)
  then show ?thesis
    using le ge bounds by (auto simp: ratio)
qed

lemma half_even_mono_bounds:
  assumes "0 < d"
  shows "of_nat a \<le> ratio n d \<Longrightarrow> a \<le> half_even n d" "ratio n d < of_nat b \<Longrightarrow> half_even n d \<le> b"
proof -
  have div: "n div d \<le> half_even n d" "half_even n d \<le> n div d + 1"
    by (simp_all add: half_even_def Let_def)
  show "a \<le> half_even n d" if "of_nat a \<le> ratio n d"
  proof -
    from that have "of_nat (a * d) \<le> (of_nat n :: rat)" using assms by (simp add: ratio_def field_simps)
    then have "a * d \<le> n" by (simp only: of_nat_le_iff)
    then show ?thesis using div(1) assms by (meson div_le_mono less_eq_div_iff_mult_less_eq order_trans)
  qed
  show "half_even n d \<le> b" if "ratio n d < of_nat b"
  proof -
    from that have "of_nat n < (of_nat (b * d) :: rat)" using assms by (simp add: ratio_def field_simps)
    then have "n < b * d" by (simp only: of_nat_less_iff)
    then have "n div d < b" using assms by (simp add: div_less_iff_less_mult)
    then show ?thesis using div(2) by simp
  qed
qed

text \<open>
  The bounds of the normalization: the quotient by \<open>2^q\<close> lies in \<open>[2^52, 2^53)\<close>, or below it when
  the exponent is the least one.
\<close>

definition chosen_exponent :: "nat \<Rightarrow> nat \<Rightarrow> int" where
  "chosen_exponent num den =
     (let q0 = int (bit_length num) - int (bit_length den) - 53;
          (n0, d0) = scale2 num den q0
      in max min_exponent (if n0 < 2 ^ 53 * d0 then q0 else q0 + 1))"

lemma f64_of_ratio_alt:
  "f64_of_ratio neg num den =
     (if num = 0 then Finite neg 0 min_exponent
      else (let q = chosen_exponent num den; (n, d) = scale2 num den q; m = half_even n d;
                (m, q) = (if m = 2 ^ 53 then (2 ^ 52, q + 1) else (m, q))
            in if q > max_exponent then Infinite neg else Finite neg m q))"
  by (simp add: f64_of_ratio_def chosen_exponent_def Let_def split: prod.splits)

lemma chosen_exponent_bounds:
  assumes "0 < num" "0 < den"
  defines "q \<equiv> chosen_exponent num den"
  shows "min_exponent \<le> q" "ratio num den / 2 powi q < 2 ^ 53"
    "q = min_exponent \<or> 2 ^ 52 \<le> ratio num den / 2 powi q"
proof -
  define q0 where "q0 = int (bit_length num) - int (bit_length den) - 53"
  obtain n0 d0 where s: "scale2 num den q0 = (n0, d0)" by fastforce
  note n0 = scale2_ratio [OF s assms(2)]
  define R where "R = ratio num den"
  have pos: "0 < (2::rat) powi i" for i by simp
  have pow: "(2::rat) ^ bit_length num = 2 powi q0 * 2 ^ 53 * 2 ^ bit_length den"
    by (simp add: q0_def power_int_diff)
  have bounds: "2 ^ bit_length num \<le> 2 * (of_nat num :: rat)" "of_nat num < (2 ^ bit_length num :: rat)"
    "2 ^ bit_length den \<le> 2 * (of_nat den :: rat)" "of_nat den < (2 ^ bit_length den :: rat)"
    using bit_length_bounds [OF assms(1)] bit_length_bounds [OF assms(2)]
    by (metis of_nat_le_iff of_nat_mult of_nat_numeral of_nat_power, metis of_nat_less_iff of_nat_numeral of_nat_power)+
  have low: "2 ^ 52 * 2 powi q0 \<le> R"
  proof -
    have "2 powi q0 * 2 ^ 52 * of_nat den \<le> 2 powi q0 * 2 ^ 52 * (2 ^ bit_length den :: rat)"
      using bounds(4) by (intro mult_left_mono) simp_all
    also have "\<dots> \<le> of_nat num" using bounds(1) by (simp add: pow)
    finally show ?thesis using assms(2) by (simp add: R_def ratio_def field_simps)
  qed
  have high: "R < 2 ^ 54 * 2 powi q0"
  proof -
    have "of_nat num < 2 powi q0 * 2 ^ 53 * (2 ^ bit_length den :: rat)" using bounds(2) by (simp add: pow)
    also have "\<dots> \<le> 2 powi q0 * 2 ^ 53 * (2 * of_nat den)"
      using bounds(3) by (intro mult_left_mono) simp_all
    finally show ?thesis using assms(2) by (simp add: R_def ratio_def field_simps)
  qed
  define q1 where "q1 = (if n0 < 2 ^ 53 * d0 then q0 else q0 + 1)"
  have test: "n0 < 2 ^ 53 * d0 \<longleftrightarrow> R < 2 ^ 53 * 2 powi q0"
  proof -
    have "n0 < 2 ^ 53 * d0 \<longleftrightarrow> (of_nat n0 :: rat) < of_nat (2 ^ 53 * d0)"
      by (simp only: of_nat_less_iff)
    also have "\<dots> \<longleftrightarrow> ratio n0 d0 < 2 ^ 53"
      using n0(2) by (simp add: ratio_def pos_divide_less_eq)
    also have "\<dots> \<longleftrightarrow> R < 2 ^ 53 * 2 powi q0"
      by (simp add: n0(1) R_def pos_divide_less_eq)
    finally show ?thesis .
  qed
  have q1: "2 ^ 52 * 2 powi q1 \<le> R" "R < 2 ^ 53 * 2 powi q1"
    using low high test by (auto simp: q1_def power_int_add not_less)
  have q: "q = max min_exponent q1"
    by (simp add: q_def chosen_exponent_def s q0_def [symmetric] q1_def Let_def)
  show "min_exponent \<le> q" by (simp add: q)
  have "R < 2 ^ 53 * 2 powi q"
  proof -
    have "(2::rat) powi q1 \<le> 2 powi q" by (simp add: q power_int_increasing)
    with q1(2) show ?thesis by simp
  qed
  then show "ratio num den / 2 powi q < 2 ^ 53" by (simp add: R_def pos_divide_less_eq)
  show "q = min_exponent \<or> 2 ^ 52 \<le> ratio num den / 2 powi q"
    using q1(1) by (auto simp: q R_def pos_le_divide_eq max_def)
qed

lemma f64_of_ratio_rounds:
  assumes den: "0 < den"
  shows "f64_ok (f64_of_ratio neg num den)"
    and "f64_of_ratio neg num den = Finite neg m q \<Longrightarrow>
      2 * \<bar>of_nat m * 2 powi q - ratio num den\<bar> \<le> 2 powi q"
proof -
  consider (zero) "num = 0" | (pos) "0 < num" by linarith
  then have "f64_ok (f64_of_ratio neg num den) \<and> (f64_of_ratio neg num den = Finite neg m q \<longrightarrow>
      2 * \<bar>of_nat m * 2 powi q - ratio num den\<bar> \<le> 2 powi q)"
  proof cases
    case zero
    then show ?thesis by (auto simp: f64_of_ratio_def min_exponent_def max_exponent_def ratio_def)
  next
    case pos
    define c where "c = chosen_exponent num den"
    note bounds = chosen_exponent_bounds [OF pos den, folded c_def]
    obtain n d where s: "scale2 num den c = (n, d)" by fastforce
    note nd = scale2_ratio [OF s den]
    define k where "k = half_even n d"
    have k: "k \<le> 2 ^ 53" "c = min_exponent \<or> 2 ^ 52 \<le> k"
      using half_even_mono_bounds(1) [OF nd(2), of "2 ^ 52" n] half_even_mono_bounds(2) [OF nd(2), of n "2 ^ 53"]
        bounds nd(1) by (auto simp: k_def)
    have near: "2 * \<bar>of_nat k * 2 powi c - ratio num den\<bar> \<le> 2 powi c"
    proof -
      have "2 * \<bar>of_nat k - ratio num den / 2 powi c\<bar> * 2 powi c \<le> 1 * 2 powi c"
        using half_even_near [OF nd(2), of n] by (intro mult_right_mono) (simp_all add: k_def nd(1))
      moreover have "of_nat k * 2 powi c - ratio num den = (of_nat k - ratio num den / 2 powi c) * 2 powi c"
        by (simp add: field_simps)
      ultimately show ?thesis by (simp add: abs_mult mult.assoc)
    qed
    have result: "f64_of_ratio neg num den =
      (if k = 2 ^ 53 then (if c + 1 > max_exponent then Infinite neg else Finite neg (2 ^ 52) (c + 1))
       else if c > max_exponent then Infinite neg else Finite neg k c)"
      using pos by (simp add: f64_of_ratio_alt c_def [symmetric] s k_def [symmetric] Let_def)
    have up: "2 * \<bar>2 ^ 52 * 2 powi (c + 1) - ratio num den\<bar> \<le> (2 powi (c + 1) :: rat)" if "k = 2 ^ 53"
    proof -
      have half: "2 * a \<le> b \<Longrightarrow> 0 \<le> a \<Longrightarrow> a \<le> b" for a b :: rat by linarith
      have "\<bar>2 ^ 53 * 2 powi c - ratio num den\<bar> \<le> 2 powi c"
        using near unfolding that of_nat_power of_nat_numeral by (rule half) simp
      then show ?thesis by (simp add: power_int_add)
    qed
    show ?thesis
      using k near up bounds(1) by (auto simp: result)
  qed
  then show "f64_ok (f64_of_ratio neg num den)"
    and "f64_of_ratio neg num den = Finite neg m q \<Longrightarrow>
      2 * \<bar>of_nat m * 2 powi q - ratio num den\<bar> \<le> 2 powi q" by simp_all
qed

end
