(* ===== verification/Number.thy ===== *)
theory Number
  imports Decimals
begin

text \<open>
  \<open>entity-core/src/number.rs\<close>: the exact comparison of JSON numbers, whose exponents are decimal
  integers of any length (\<open>Integer\<close>), and their exact sum (\<open>Exact\<close>), aligned within
  \<open>MAX_SUM_PLACES\<close> places. Both are proved to agree with the rational \<open>number_value\<close>.
\<close>

section \<open>Integers of any length\<close>

record dec_integer =
  int_negative :: bool
  int_digits :: "nat list"  \<comment> \<open>least significant first\<close>

definition integer_parse :: "string \<Rightarrow> dec_integer" where
  "integer_parse text =
     (let digits = map digit_val (rev (dropWhile (\<lambda>c. c = CHR ''0'')
                     (dropWhile (\<lambda>c. c = CHR ''-'' \<or> c = CHR ''+'') text)))
      in \<lparr>int_negative = (starts_with text ''-'' \<and> digits \<noteq> []), int_digits = digits\<rparr>)"

definition integer_magnitude :: "dec_integer \<Rightarrow> dec_integer \<Rightarrow> ordering" where
  "integer_magnitude a b =
     ord_then (cmp (length (int_digits a)) (length (int_digits b)))
       (cmp (rev (int_digits a)) (rev (int_digits b)))"

text \<open>\<open>other.digits.get(index).copied().unwrap_or(0)\<close> as the loop over the indices advances.\<close>

definition first_digit :: "nat list \<Rightarrow> nat" where
  "first_digit ds = (case ds of [] \<Rightarrow> 0 | d # _ \<Rightarrow> d)"

fun add_carry :: "nat list \<Rightarrow> nat list \<Rightarrow> nat \<Rightarrow> nat list \<times> nat" where
  "add_carry [] other carry = ([], carry)"
| "add_carry (d # ds) other carry =
     (let sum = d + first_digit other + carry;
          (rest, c) = add_carry ds (tl other) (sum div 10)
      in (sum mod 10 # rest, c))"

fun sub_borrow :: "nat list \<Rightarrow> nat list \<Rightarrow> int \<Rightarrow> nat list" where
  "sub_borrow [] other borrow = []"
| "sub_borrow (d # ds) other borrow =
     (let v = int d - int (first_digit other) - borrow;
          b = (if v < 0 then 1 else 0)
      in nat (v + b * 10) # sub_borrow ds (tl other) b)"

definition pop_zeros :: "nat list \<Rightarrow> nat list" where
  "pop_zeros ds = rev (dropWhile (\<lambda>d. d = 0) (rev ds))"

definition resize_zeros :: "nat \<Rightarrow> nat list \<Rightarrow> nat list" where
  "resize_zeros w ds = take w ds @ replicate (w - length ds) 0"

definition integer_add :: "dec_integer \<Rightarrow> dec_integer \<Rightarrow> dec_integer" where
  "integer_add a b =
     (if int_negative a = int_negative b then
        (let width = max (length (int_digits a)) (length (int_digits b));
             (digits, carry) = add_carry (resize_zeros width (int_digits a)) (int_digits b) 0
         in \<lparr>int_negative = int_negative a,
             int_digits = (if carry \<noteq> 0 then digits @ [carry] else digits)\<rparr>)
      else
        (let (large, small) = (if is_lt (integer_magnitude a b) then (b, a) else (a, b));
             digits = pop_zeros (sub_borrow (int_digits large) (int_digits small) 0)
         in \<lparr>int_negative = (if digits = [] then False else int_negative large), int_digits = digits\<rparr>))"

definition integer_cmp :: "dec_integer \<Rightarrow> dec_integer \<Rightarrow> ordering" where
  "integer_cmp a b = (case cmp (int_negative a) (int_negative b) of
     Equal \<Rightarrow> if int_negative a then ord_reverse (integer_magnitude a b) else integer_magnitude a b
   | order \<Rightarrow> ord_reverse order)"

subsection \<open>Their meaning\<close>

definition integer_value :: "dec_integer \<Rightarrow> int" where
  "integer_value a = (if int_negative a then - int (lsd_val (int_digits a)) else int (lsd_val (int_digits a)))"

definition digits_ok :: "nat list \<Rightarrow> bool" where
  "digits_ok ds \<longleftrightarrow> list_all (\<lambda>d. d < 10) ds \<and> (ds \<noteq> [] \<longrightarrow> 10 ^ (length ds - 1) \<le> lsd_val ds)"

definition integer_ok :: "dec_integer \<Rightarrow> bool" where
  "integer_ok a \<longleftrightarrow> digits_ok (int_digits a) \<and> (int_negative a \<longrightarrow> int_digits a \<noteq> [])"

lemma digits_ok_positive: "digits_ok ds \<Longrightarrow> ds \<noteq> [] \<Longrightarrow> 0 < lsd_val ds"
  by (auto simp: digits_ok_def intro: less_le_trans [rotated])

lemma first_digit_less: "list_all (\<lambda>d. d < 10) ds \<Longrightarrow> first_digit ds < 10"
  by (cases ds) (simp_all add: first_digit_def)

lemma lsd_val_first: "lsd_val ds = first_digit ds + 10 * lsd_val (tl ds)"
  by (cases ds) (simp_all add: first_digit_def)

lemma list_all_tl: "list_all P ds \<Longrightarrow> list_all P (tl ds)"
  by (cases ds) simp_all

lemma add_carry_value:
  assumes "add_carry ds other carry = (rest, c)" "length other \<le> length ds"
  shows "lsd_val rest + 10 ^ length ds * c = lsd_val ds + lsd_val other + carry"
    and "length rest = length ds" and "list_all (\<lambda>d. d < 10) rest"
  using assms
proof (induction ds other carry arbitrary: rest c rule: add_carry.induct)
  case (2 d ds other carry)
  {
    case 1
    define sum where "sum = d + first_digit other + carry"
    from 1 obtain r where r: "add_carry ds (tl other) (sum div 10) = (r, c)" "rest = sum mod 10 # r"
      by (auto simp: Let_def sum_def split: prod.splits)
    have "lsd_val r + 10 ^ length ds * c = lsd_val ds + lsd_val (tl other) + sum div 10"
      using "2.IH"(1) [OF sum_def r(1)] 1 by simp
    then have "10 * (lsd_val r + 10 ^ length ds * c) + sum mod 10
      = 10 * (lsd_val ds + lsd_val (tl other)) + sum"
      by simp
    then show ?case
      by (simp add: r(2) sum_def lsd_val_first [of other])
  next
    case 2
    then show ?case using "2.IH"(2) by (auto simp: Let_def split: prod.splits)
  next
    case 3
    then show ?case using "2.IH"(3) by (auto simp: Let_def split: prod.splits)
  }
qed simp_all

lemma sub_borrow_value:
  assumes "list_all (\<lambda>d. d < 10) ds" "list_all (\<lambda>d. d < 10) other" "length other \<le> length ds"
    and "borrow = 0 \<or> borrow = 1" "int (lsd_val other) + borrow \<le> int (lsd_val ds)"
  shows "int (lsd_val (sub_borrow ds other borrow)) = int (lsd_val ds) - int (lsd_val other) - borrow
    \<and> list_all (\<lambda>d. d < 10) (sub_borrow ds other borrow)"
  using assms
proof (induction ds other borrow rule: sub_borrow.induct)
  case (2 d ds other borrow)
  define v where "v = int d - int (first_digit other) - borrow"
  define b where "b = (if v < 0 then 1 else 0 :: int)"
  have range: "0 \<le> v + b * 10" "v + b * 10 < 10"
    using 2 first_digit_less [of other] by (auto simp: v_def b_def)
  have other: "int (lsd_val other) = int (first_digit other) + 10 * int (lsd_val (tl other))"
    by (subst lsd_val_first) simp
  have "int (lsd_val (tl other)) + b \<le> int (lsd_val ds)"
    using "2.prems"(5) range other by (simp add: v_def)
  moreover have "length (tl other) \<le> length ds" "b = 0 \<or> b = 1"
    using "2.prems"(3) by (simp_all add: b_def)
  ultimately have "int (lsd_val (sub_borrow ds (tl other) b)) = int (lsd_val ds) - int (lsd_val (tl other)) - b
      \<and> list_all (\<lambda>d. d < 10) (sub_borrow ds (tl other) b)"
    using 2 by (intro "2.IH" [OF v_def b_def]) (simp_all add: list_all_tl)
  with range other show ?case
    by (auto simp: Let_def v_def [symmetric] b_def [symmetric]) (simp add: v_def)
qed simp

lemma lsd_val_pop_zeros [simp]: "lsd_val (pop_zeros ds) = lsd_val ds"
  by (simp add: pop_zeros_def lsd_val_rev digits_val_dropWhile0 flip: digits_val_rev)

lemma digits_ok_pop_zeros:
  assumes "list_all (\<lambda>d. d < 10) ds"
  shows "digits_ok (pop_zeros ds)"
proof -
  let ?ms = "dropWhile (\<lambda>d. d = 0) (rev ds)"
  have "list_all (\<lambda>d. d < 10) ?ms"
    using assms by (auto simp: list_all_iff dest: set_dropWhileD)
  moreover have "10 ^ (length ?ms - 1) \<le> digits_val ?ms" if "?ms \<noteq> []"
    using that by (intro digits_val_lower hd_dropWhile) auto
  ultimately show ?thesis
    by (auto simp: digits_ok_def pop_zeros_def lsd_val_rev list_all_iff)
qed

lemma digits_ok_cmp:
  assumes xs: "digits_ok xs" and ys: "digits_ok ys"
  shows "ord_then (cmp (length xs) (length ys)) (cmp (rev xs) (rev ys)) = cmp (lsd_val xs) (lsd_val ys)"
proof (cases "length xs" "length ys" rule: linorder_cases)
  case equal
  then show ?thesis
    using cmp_digits [of "rev xs" "rev ys"] assms by (simp add: digits_ok_def digits_val_rev list_all_iff)
next
  have shorter: "lsd_val as < lsd_val bs" if as: "digits_ok as" and bs: "digits_ok bs" and "length as < length bs" for as bs
  proof -
    have "lsd_val as < 10 ^ length as" using as by (simp add: digits_ok_def lsd_val_less)
    also have "\<dots> \<le> 10 ^ (length bs - 1)" using that(3) by (intro power_increasing) auto
    also have "\<dots> \<le> lsd_val bs" using bs that(3) by (auto simp: digits_ok_def)
    finally show ?thesis .
  qed
  {
    case less
    with shorter [OF xs ys] show ?thesis by (simp add: cmp_def)
  next
    case greater
    with shorter [OF ys xs] show ?thesis by (simp add: cmp_def)
  }
qed

lemma integer_magnitude_value:
  "integer_ok a \<Longrightarrow> integer_ok b \<Longrightarrow>
     integer_magnitude a b = cmp (lsd_val (int_digits a)) (lsd_val (int_digits b))"
  by (simp add: integer_magnitude_def integer_ok_def digits_ok_cmp)

lemma integer_cmp_value:
  assumes a: "integer_ok a" and b: "integer_ok b"
  shows "integer_cmp a b = cmp (integer_value a) (integer_value b)"
proof -
  have pos: "int_negative a \<Longrightarrow> 0 < lsd_val (int_digits a)" "int_negative b \<Longrightarrow> 0 < lsd_val (int_digits b)"
    using a b by (simp_all add: integer_ok_def digits_ok_positive)
  from a b pos show ?thesis
    by (cases "int_negative a"; cases "int_negative b")
      (auto simp: integer_cmp_def integer_value_def integer_magnitude_value cmp_def)
qed

lemma integer_add_same:
  assumes a: "integer_ok a" and b: "integer_ok b" and sign: "int_negative a = int_negative b"
  shows "integer_value (integer_add a b) = integer_value a + integer_value b
    \<and> integer_ok (integer_add a b)"
proof -
  let ?w = "max (length (int_digits a)) (length (int_digits b))"
  define xs where "xs = resize_zeros ?w (int_digits a)"
  have xs: "length xs = ?w" "lsd_val xs = lsd_val (int_digits a)"
    by (simp_all add: xs_def resize_zeros_def lsd_val_append)
  obtain rest c where sum: "add_carry xs (int_digits b) 0 = (rest, c)" by fastforce
  note carry = add_carry_value [OF sum]
  have total: "lsd_val rest + 10 ^ ?w * c = lsd_val (int_digits a) + lsd_val (int_digits b)"
    and len: "length rest = ?w" and digits: "list_all (\<lambda>d. d < 10) rest"
    using carry xs by simp_all
  have bounds: "lsd_val (int_digits a) < 10 ^ ?w" "lsd_val (int_digits b) < 10 ^ ?w"
  proof -
    have "lsd_val ds < 10 ^ n" if "digits_ok ds" "length ds \<le> n" for ds n
      using that lsd_val_less [of ds] by (auto simp: digits_ok_def elim: less_le_trans)
    with a b show "lsd_val (int_digits a) < 10 ^ ?w" "lsd_val (int_digits b) < 10 ^ ?w"
      by (simp_all add: integer_ok_def)
  qed
  have c: "c < 2"
  proof (rule ccontr)
    assume "\<not> c < 2"
    then have "10 ^ ?w * 2 \<le> 10 ^ ?w * c" by simp
    with total bounds show False by linarith
  qed
  define ds where "ds = (if c \<noteq> 0 then rest @ [c] else rest)"
  have add: "integer_add a b = \<lparr>int_negative = int_negative a, int_digits = ds\<rparr>"
    using sign sum by (simp add: integer_add_def Let_def xs_def ds_def)
  have val: "lsd_val ds = lsd_val (int_digits a) + lsd_val (int_digits b)"
    using total len by (cases "c = 0") (simp_all add: ds_def lsd_val_append)
  have lower: "10 ^ (?w - 1) \<le> lsd_val ds" if "?w \<noteq> 0"
  proof -
    have "?w = length (int_digits a) \<or> ?w = length (int_digits b)" by linarith
    with a b that val show ?thesis
      by (auto simp: integer_ok_def digits_ok_def)
  qed
  have "digits_ok ds"
  proof (cases "c = 0")
    case True
    then have "ds = rest" by (simp add: ds_def)
    moreover have "?w \<noteq> 0" if "rest \<noteq> []"
      using that len by (metis length_0_conv)
    ultimately show ?thesis using lower digits len unfolding digits_ok_def by metis
  next
    case False
    with c have "c = 1" by simp
    with digits len total val show ?thesis by (simp add: digits_ok_def ds_def)
  qed
  moreover have "ds \<noteq> []" if "int_negative a"
    using that a val digits_ok_positive [of "int_digits a"] by (auto simp: integer_ok_def)
  ultimately show ?thesis
    using sign val by (simp add: add integer_ok_def integer_value_def)
qed

lemma integer_sub_digits:
  assumes a: "integer_ok a" and b: "integer_ok b"
    and less: "lsd_val (int_digits b) \<le> lsd_val (int_digits a)"
  defines "ds \<equiv> pop_zeros (sub_borrow (int_digits a) (int_digits b) 0)"
  shows "int (lsd_val ds) = int (lsd_val (int_digits a)) - int (lsd_val (int_digits b))" "digits_ok ds"
proof -
  have "length (int_digits b) \<le> length (int_digits a)"
  proof (rule ccontr)
    assume longer: "\<not> length (int_digits b) \<le> length (int_digits a)"
    have "lsd_val (int_digits a) < 10 ^ length (int_digits a)"
      using a by (simp add: integer_ok_def digits_ok_def lsd_val_less)
    also have "\<dots> \<le> 10 ^ (length (int_digits b) - 1)"
      using longer by (intro power_increasing) auto
    also have "\<dots> \<le> lsd_val (int_digits b)"
      using longer b by (auto simp: integer_ok_def digits_ok_def)
    finally show False using less by simp
  qed
  then have sub: "int (lsd_val (sub_borrow (int_digits a) (int_digits b) 0))
      = int (lsd_val (int_digits a)) - int (lsd_val (int_digits b))
      \<and> list_all (\<lambda>d. d < 10) (sub_borrow (int_digits a) (int_digits b) 0)"
    using a b less sub_borrow_value [of "int_digits a" "int_digits b" 0]
    by (simp add: integer_ok_def digits_ok_def)
  then show "int (lsd_val ds) = int (lsd_val (int_digits a)) - int (lsd_val (int_digits b))" "digits_ok ds"
    by (simp_all add: ds_def digits_ok_pop_zeros)
qed

lemma integer_add_differ:
  assumes a: "integer_ok a" and b: "integer_ok b" and sign: "int_negative a \<noteq> int_negative b"
  shows "integer_value (integer_add a b) = integer_value a + integer_value b
    \<and> integer_ok (integer_add a b)"
proof -
  obtain l s where ls: "(if is_lt (integer_magnitude a b) then (b, a) else (a, b)) = (l, s)" by fastforce
  then have l: "integer_ok l" and s: "integer_ok s" and le: "lsd_val (int_digits s) \<le> lsd_val (int_digits l)"
    and swap: "integer_value a + integer_value b = integer_value l + integer_value s"
      "int_negative l \<noteq> int_negative s"
    using a b sign by (auto simp: ordering_defs integer_magnitude_value split: if_splits)
  define ds where "ds = pop_zeros (sub_borrow (int_digits l) (int_digits s) 0)"
  have add: "integer_add a b = \<lparr>int_negative = (if ds = [] then False else int_negative l), int_digits = ds\<rparr>"
    using sign ls by (simp add: integer_add_def Let_def ds_def)
  note ds = integer_sub_digits [OF l s le, folded ds_def]
  have "ds = [] \<Longrightarrow> lsd_val ds = 0" by simp
  with ds swap show ?thesis
    by (auto simp: add integer_ok_def integer_value_def)
qed

lemma integer_add_value:
  assumes "integer_ok a" "integer_ok b"
  shows "integer_value (integer_add a b) = integer_value a + integer_value b"
    and "integer_ok (integer_add a b)"
  using integer_add_same [OF assms] integer_add_differ [OF assms] by auto

lemma nat_of_text_drop0: "nat_of_text (dropWhile (\<lambda>c. c = CHR ''0'') s) = nat_of_text s"
  by (induction s) (auto simp: nat_of_text_def digit_val_def)

lemma digits_ok_text:
  assumes "list_all is_digit s"
  shows "digits_ok (map digit_val (rev (dropWhile (\<lambda>c. c = CHR ''0'') s)))"
    and "lsd_val (map digit_val (rev (dropWhile (\<lambda>c. c = CHR ''0'') s))) = nat_of_text s"
proof -
  let ?t = "dropWhile (\<lambda>c. c = CHR ''0'') s"
  have digits: "list_all is_digit ?t"
    using assms by (auto simp: list_all_iff dest: set_dropWhileD)
  have val: "lsd_val (map digit_val (rev ?t)) = nat_of_text ?t"
    by (simp add: rev_map [symmetric] lsd_val_rev nat_of_text_def)
  then show "lsd_val (map digit_val (rev ?t)) = nat_of_text s"
    by (simp add: nat_of_text_drop0)
  show "digits_ok (map digit_val (rev ?t))"
    using nat_of_text_lower [OF digits] digits hd_dropWhile [of "\<lambda>c. c = CHR ''0''" s]
    by (auto simp: digits_ok_def val list_all_iff digit_val_less simp del: rev_map)
qed

lemma integer_parse_value:
  assumes "is_digits (snd (unsign_exponent e))"
  shows "integer_value (integer_parse e) = strip_sign_int e \<and> integer_ok (integer_parse e)"
proof -
  obtain neg ds where e: "unsign_exponent e = (neg, ds)" by fastforce
  with assms have ds: "ds \<noteq> []" "list_all is_digit ds" by (simp_all add: is_digits_def)
  then obtain d r where "ds = d # r" "is_digit d" by (cases ds) auto
  then have first: "ds = d # r" "d \<noteq> CHR ''-''" "d \<noteq> CHR ''+''" by auto
  have signs: "dropWhile (\<lambda>c. c = CHR ''-'' \<or> c = CHR ''+'') e = ds"
    and neg: "starts_with e ''-'' \<longleftrightarrow> neg"
    using e first
    by (auto simp: unsign_exponent_def starts_with_def split: list.splits if_splits)
  note ok = digits_ok_text [OF ds(2)]
  have "nat_of_text ds = 0" if "dropWhile (\<lambda>c. c = CHR ''0'') ds = []"
    using ok(2) that by simp
  with ok neg show ?thesis
    by (auto simp: integer_parse_def Let_def signs integer_value_def strip_sign_int_def e integer_ok_def)
qed

section \<open>Comparison\<close>

record decimal =
  dec_negative :: bool
  dec_digits :: string
  dec_places :: dec_integer

definition trim_end_zeros :: "string \<Rightarrow> string" where
  "trim_end_zeros s = rev (dropWhile (\<lambda>c. c = CHR ''0'') (rev s))"

definition decimal_parse :: "string \<Rightarrow> decimal" where
  "decimal_parse text =
     (let (negative, whole, fraction, exponent) = split_number text;
          raw = whole @ fraction;
          leading = length (takeWhile (\<lambda>c. c = CHR ''0'') raw);
          digits = trim_end_zeros (drop leading raw);
          places = integer_parse exponent;
          places = integer_add places (integer_parse (show_nat (length whole)));
          places = integer_add places (integer_parse (CHR ''-'' # show_nat leading))
      in \<lparr>dec_negative = negative, dec_digits = digits, dec_places = places\<rparr>)"

text \<open>\<open>entity_core::compare_numbers\<close>.\<close>

definition number_compare :: "number \<Rightarrow> number \<Rightarrow> ordering" where
  "number_compare left right =
     (let left = decimal_parse left; right = decimal_parse right in
      case (dec_digits left = [], dec_digits right = []) of
        (True, True) \<Rightarrow> Equal
      | (True, False) \<Rightarrow> if dec_negative right then Greater else Less
      | (False, True) \<Rightarrow> if dec_negative left then Less else Greater
      | (False, False) \<Rightarrow>
          if dec_negative left \<noteq> dec_negative right then
            (if dec_negative left then Less else Greater)
          else
            (let width = max (length (dec_digits left)) (length (dec_digits right));
                 order = ord_then (integer_cmp (dec_places left) (dec_places right))
                   (cmp (pad_zeros width (dec_digits left)) (pad_zeros width (dec_digits right)))
             in if dec_negative left then ord_reverse order else order))"

text \<open>A parsed number is its sign times \<open>0.digits\<close> at its places.\<close>

definition decimal_value :: "decimal \<Rightarrow> rat" where
  "decimal_value d = sign_rat (dec_negative d) * (frac (dec_digits d) * 10 powi integer_value (dec_places d))"

definition decimal_ok :: "decimal \<Rightarrow> bool" where
  "decimal_ok d \<longleftrightarrow> integer_ok (dec_places d) \<and> list_all is_digit (dec_digits d)
     \<and> (dec_digits d \<noteq> [] \<longrightarrow> hd (dec_digits d) \<noteq> CHR ''0'')"

lemma trim_end_zeros_append: "\<exists>k. s = trim_end_zeros s @ replicate k CHR ''0''"
proof -
  let ?z = "\<lambda>c. c = CHR ''0''"
  have "rev s = takeWhile ?z (rev s) @ dropWhile ?z (rev s)" by simp
  then have "s = trim_end_zeros s @ rev (takeWhile ?z (rev s))"
    unfolding trim_end_zeros_def by (metis rev_append rev_rev_ident)
  moreover have "rev (takeWhile ?z (rev s)) = replicate (length (takeWhile ?z (rev s))) CHR ''0''"
    by (rule replicate_eqI) (auto dest: set_takeWhileD)
  ultimately show ?thesis by metis
qed

lemma powi_add_nat: "(10::rat) powi (x + int k + int m) = 10 powi x * 10 ^ k * 10 ^ m"
  by (simp add: power_int_add)

lemma decimal_parse_value:
  assumes ok: "number_ok n"
  shows "decimal_value (decimal_parse n) = number_value n" "decimal_ok (decimal_parse n)"
proof -
  obtain neg w f e where n: "split_number n = (neg, w, f, e)" by (metis prod_cases4)
  note digits = number_ok_split [OF ok n]
  define raw where "raw = w @ f"
  define leading where "leading = length (takeWhile (\<lambda>c. c = CHR ''0'') raw)"
  define body where "body = trim_end_zeros (drop leading raw)"
  have raw_digits: "list_all is_digit raw"
    using digits by (simp add: raw_def is_digits_def)
  have drop: "drop leading raw = dropWhile (\<lambda>c. c = CHR ''0'') raw"
    by (simp add: leading_def dropWhile_eq_drop)
  obtain k where k: "drop leading raw = body @ replicate k CHR ''0''"
    using trim_end_zeros_append [of "drop leading raw"] by (auto simp: body_def)
  have body_digits: "list_all is_digit body"
  proof -
    have "list_all is_digit (drop leading raw)"
      using raw_digits by (simp add: list_all_iff in_set_dropD)
    then show ?thesis by (simp add: k)
  qed
  have body_head: "hd body \<noteq> CHR ''0''" if "body \<noteq> []"
    using that k drop hd_dropWhile [of "\<lambda>c. c = CHR ''0''" raw] by (metis Nil_is_append_conv hd_append2)
  define places where "places = integer_add (integer_add (integer_parse e) (integer_parse (show_nat (length w))))
      (integer_parse (CHR ''-'' # show_nat leading))"
  have parse_nat: "integer_value (integer_parse (show_nat m)) = int m" "integer_ok (integer_parse (show_nat m))"
    "integer_value (integer_parse (CHR ''-'' # show_nat m)) = - int m" "integer_ok (integer_parse (CHR ''-'' # show_nat m))" for m
  proof -
    have "unsign_exponent (show_nat m) = (False, show_nat m)"
      using show_nat_head [of m] by (auto simp: unsign_exponent_def split: list.splits)
    then show "integer_value (integer_parse (show_nat m)) = int m" "integer_ok (integer_parse (show_nat m))"
      using integer_parse_value [of "show_nat m"] by (simp_all add: strip_sign_int_def)
    show "integer_value (integer_parse (CHR ''-'' # show_nat m)) = - int m"
      "integer_ok (integer_parse (CHR ''-'' # show_nat m))"
      using integer_parse_value [of "CHR ''-'' # show_nat m"]
      by (simp_all add: strip_sign_int_def unsign_exponent_def)
  qed
  have places: "integer_value places = strip_sign_int e + int (length w) - int leading" "integer_ok places"
    using integer_parse_value [OF digits(3)] by (simp_all add: places_def integer_add_value parse_nat)
  have parsed: "decimal_parse n = \<lparr>dec_negative = neg, dec_digits = body, dec_places = places\<rparr>"
    by (simp add: decimal_parse_def n Let_def body_def places_def leading_def raw_def)
  show "decimal_ok (decimal_parse n)"
    using places(2) body_digits body_head by (simp add: decimal_ok_def parsed)
  have "nat_of_text raw = nat_of_text body * 10 ^ k"
    using nat_of_text_drop0 [of raw] by (simp add: drop [symmetric] k nat_of_text_append)
  moreover have len: "leading + (length body + k) = length w + length f"
  proof -
    have "leading \<le> length raw" by (simp add: leading_def length_takeWhile_le)
    moreover have "length (drop leading raw) = length body + k" by (simp add: k)
    ultimately show ?thesis by (simp add: raw_def)
  qed
  have exp: "strip_sign_int e - int (length f) + int k + int (length body) = integer_value places"
    using places(1) len by linarith
  have "(10::rat) ^ k * 10 powi (strip_sign_int e - int (length f))
    = 10 powi integer_value places / 10 ^ length body"
    using powi_add_nat [of "strip_sign_int e - int (length f)" k "length body"] by (simp add: exp)
  ultimately show "decimal_value (decimal_parse n) = number_value n"
    by (simp add: decimal_value_def parsed number_value_def n raw_def frac_def mult.assoc)
qed

lemma sign_rat_simps [simp]: "sign_rat True = - 1" "sign_rat False = 1"
  by (simp_all add: sign_rat_def)

lemma cmp_neg: "cmp (- x :: rat) (- y) = ord_reverse (cmp x y)"
  by (simp add: cmp_def)

lemma number_compare_decimal:
  assumes l: "decimal_ok (decimal_parse l)" and r: "decimal_ok (decimal_parse r)"
  shows "number_compare l r = cmp (decimal_value (decimal_parse l)) (decimal_value (decimal_parse r))"
proof -
  define a b where "a = decimal_parse l" and "b = decimal_parse r"
  define mag where "mag d = frac (dec_digits d) * 10 powi integer_value (dec_places d)" for d :: decimal
  have val: "decimal_value d = sign_rat (dec_negative d) * mag d" for d
    by (simp add: decimal_value_def mag_def)
  have zero: "mag d = 0" if "dec_digits d = []" for d
    using that by (simp add: mag_def frac_def nat_of_text_def)
  have pos: "0 < mag d" if "decimal_ok d" "dec_digits d \<noteq> []" for d
    using that frac_bounds(1) [of "dec_digits d"] by (simp add: decimal_ok_def mag_def)
  have digits: "ord_then (integer_cmp (dec_places a) (dec_places b))
      (cmp (pad_zeros (max (length (dec_digits a)) (length (dec_digits b))) (dec_digits a))
        (pad_zeros (max (length (dec_digits a)) (length (dec_digits b))) (dec_digits b)))
    = cmp (mag a) (mag b)" if "dec_digits a \<noteq> []" "dec_digits b \<noteq> []"
    using l r that compare_digits_value [of "dec_digits a" "dec_digits b"]
    by (simp add: decimal_ok_def a_def b_def integer_cmp_value compare_digits_def Let_def mag_def)
  have pos_ab: "dec_digits a \<noteq> [] \<Longrightarrow> 0 < mag a" "dec_digits b \<noteq> [] \<Longrightarrow> 0 < mag b"
    using l r by (simp_all add: pos a_def b_def)
  show ?thesis
    unfolding number_compare_def Let_def a_def [symmetric] b_def [symmetric] val
    using digits pos_ab zero [of a] zero [of b]
    by (cases "dec_digits a = []"; cases "dec_digits b = []"; cases "dec_negative a"; cases "dec_negative b")
      (auto simp: cmp_neg, auto simp: cmp_def)
qed

interpretation number: comparison number_compare number_value number_ok
  by unfold_locales (simp add: number_compare_decimal decimal_parse_value)

section \<open>Exact sums\<close>

text \<open>\<open>digits * 10^exponent\<close>, the exponent an \<open>i64\<close> whose arithmetic is checked.\<close>

record exact =
  ex_negative :: bool
  ex_digits :: "nat list"  \<comment> \<open>most significant first\<close>
  ex_exponent :: int

definition checked_i64 :: "int \<Rightarrow> int option" where
  "checked_i64 i = (if - (2 ^ 63) \<le> i \<and> i < 2 ^ 63 then Some i else None)"

definition max_sum_places :: int where
  "max_sum_places = 1024"

text \<open>\<open>byte.wrapping_sub(b'0')\<close>.\<close>

definition byte_digit :: "char \<Rightarrow> nat" where
  "byte_digit c = (of_char c + 208) mod 256"

definition exact_normalized :: "bool \<Rightarrow> nat list \<Rightarrow> int \<Rightarrow> exact option" where
  "exact_normalized negative digits exponent =
     (let digits = dropWhile (\<lambda>d. d = 0) digits;
          trailing = length (takeWhile (\<lambda>d. d = 0) (rev digits));
          digits = take (length digits - trailing) digits
      in if digits = [] then Some \<lparr>ex_negative = False, ex_digits = digits, ex_exponent = 0\<rparr>
         else do {
           t \<leftarrow> checked_i64 (int trailing);
           e \<leftarrow> checked_i64 (exponent + t);
           Some \<lparr>ex_negative = negative, ex_digits = digits, ex_exponent = e\<rparr>
         })"

definition exact_parse :: "string \<Rightarrow> exact option" where
  "exact_parse text =
     (let (negative, whole, fraction, exponent) = split_number text in do {
        e \<leftarrow> parse_signed 64 exponent;
        n \<leftarrow> checked_i64 (int (length fraction));
        e \<leftarrow> checked_i64 (e - n);
        (let digits = map byte_digit (whole @ fraction)
         in if list_ex (\<lambda>d. d > 9) digits then None else exact_normalized negative digits e)
      })"

definition exact_high :: "exact \<Rightarrow> int option" where
  "exact_high x = do {
     n \<leftarrow> checked_i64 (int (length (ex_digits x)));
     h \<leftarrow> checked_i64 (ex_exponent x + n);
     checked_i64 (h - 1)
   }"

definition exact_at :: "exact \<Rightarrow> int \<Rightarrow> nat" where
  "exact_at x place = (case checked_i64 (place - ex_exponent x) of
     None \<Rightarrow> 0
   | Some from_low \<Rightarrow>
       if from_low < 0 then 0
       else if 1 + nat from_low \<le> length (ex_digits x)
         then ex_digits x ! (length (ex_digits x) - (1 + nat from_low))
       else 0)"

text \<open>Two equal-width magnitudes, least significant digit first.\<close>

fun add_magnitudes :: "nat list \<Rightarrow> nat list \<Rightarrow> nat \<Rightarrow> nat list" where
  "add_magnitudes (l # ls) (r # rs) carry =
     (let place = l + r + carry in place mod 10 # add_magnitudes ls rs (place div 10))"
| "add_magnitudes _ _ carry = [carry]"

fun subtract_magnitudes :: "nat list \<Rightarrow> nat list \<Rightarrow> int \<Rightarrow> nat list" where
  "subtract_magnitudes (l # ls) (r # rs) borrow =
     (let place = int l - int r - borrow;
          borrow = (if place < 0 then 1 else 0)
      in nat (place + borrow * 10) # subtract_magnitudes ls rs borrow)"
| "subtract_magnitudes _ _ borrow = []"

text \<open>The places the operands occupy, the units place included.\<close>

fun exact_span :: "exact list \<Rightarrow> int \<times> int \<Rightarrow> (int \<times> int) option" where
  "exact_span [] places = Some places"
| "exact_span (x # xs) (high, low) =
     (if ex_digits x = [] then exact_span xs (high, low)
      else do {
        h \<leftarrow> exact_high x;
        exact_span xs (max high h, min low (ex_exponent x))
      })"

definition exact_plus :: "exact \<Rightarrow> exact \<Rightarrow> exact option" where
  "exact_plus x y = do {
     (high, low) \<leftarrow> exact_span [x, y] (0, 0);
     width \<leftarrow> checked_i64 (high - low);
     width \<leftarrow> checked_i64 (width + 1);
     (if width > max_sum_places then None
      else (let left = map (exact_at x) [low..high];
                right = map (exact_at y) [low..high];
                (negative, sum) =
                  (if ex_negative x = ex_negative y then (ex_negative x, add_magnitudes left right 0)
                   else if is_lt (cmp (rev left) (rev right)) then (ex_negative y, subtract_magnitudes right left 0)
                   else (ex_negative x, subtract_magnitudes left right 0))
            in exact_normalized negative (rev sum) low))
   }"

definition zeros :: "int \<Rightarrow> string" where
  "zeros n = replicate (nat n) CHR ''0''"

definition exact_spelled :: "exact \<Rightarrow> string" where
  "exact_spelled x =
     (if ex_digits x = [] then ''0''
      else (let digits = map digit_char (ex_digits x);
                sign = (if ex_negative x then ''-'' else []);
                len = int (length digits)
            in if ex_exponent x \<ge> 0 then sign @ digits @ zeros (ex_exponent x)
               else (let point = len + ex_exponent x
                     in if point > 0 then sign @ take (nat point) digits @ ''.'' @ drop (nat point) digits
                        else sign @ ''0.'' @ zeros (- point) @ digits)))"

text \<open>\<open>Number::from_str\<close> accepts the tokens of the JSON grammar.\<close>

definition number_from_str :: "string \<Rightarrow> number option" where
  "number_from_str s = (if number_ok s then Some s else None)"

definition number_add :: "number \<Rightarrow> number \<Rightarrow> number option" where
  "number_add left right = do {
     left \<leftarrow> exact_parse left;
     right \<leftarrow> exact_parse right;
     sum \<leftarrow> exact_plus left right;
     number_from_str (exact_spelled sum)
   }"

subsection \<open>Their meaning\<close>

definition exact_value :: "exact \<Rightarrow> rat" where
  "exact_value x = sign_rat (ex_negative x) * of_nat (digits_val (ex_digits x)) * 10 powi ex_exponent x"

definition exact_ok :: "exact \<Rightarrow> bool" where
  "exact_ok x \<longleftrightarrow> list_all (\<lambda>d. d < 10) (ex_digits x) \<and> (ex_digits x \<noteq> [] \<longrightarrow> hd (ex_digits x) \<noteq> 0)
     \<and> (ex_digits x = [] \<longrightarrow> \<not> ex_negative x \<and> ex_exponent x = 0)"

lemma checked_i64_Some [simp]: "checked_i64 i = Some j \<longleftrightarrow> j = i \<and> - (2 ^ 63) \<le> i \<and> i < 2 ^ 63"
  by (auto simp: checked_i64_def)

lemma strip_trailing_value:
  "digits_val ds = digits_val (take (length ds - length (takeWhile (\<lambda>d. d = 0) (rev ds))) ds)
     * 10 ^ length (takeWhile (\<lambda>d. d = 0) (rev ds))"
proof -
  define z d where "z = takeWhile (\<lambda>d. d = 0) (rev ds)" and "d = dropWhile (\<lambda>d. d = 0) (rev ds)"
  have "rev ds = z @ d" by (simp add: z_def d_def)
  then have ds: "ds = rev d @ rev z" by (metis rev_append rev_rev_ident)
  have "rev z = replicate (length z) 0"
    by (rule replicate_eqI) (auto simp: z_def dest: set_takeWhileD)
  then have "digits_val (rev z) = 0" by (metis digits_val_replicate0)
  then have "digits_val ds = digits_val (rev d) * 10 ^ length z" by (subst ds) simp
  moreover have "take (length ds - length z) ds = rev d" by (subst (2) ds) (simp add: ds)
  ultimately show ?thesis by (simp add: z_def)
qed

lemma exact_normalized_value:
  assumes "exact_normalized negative ds e = Some x" and ds: "list_all (\<lambda>d. d < 10) ds"
  shows "exact_value x = sign_rat negative * of_nat (digits_val ds) * 10 powi e" "exact_ok x"
proof -
  define es where "es = dropWhile (\<lambda>d. d = 0) ds"
  define t where "t = length (takeWhile (\<lambda>d. d = 0) (rev es))"
  define fs where "fs = take (length es - t) es"
  have val: "digits_val ds = digits_val fs * 10 ^ t"
    using strip_trailing_value [of es] digits_val_dropWhile0 [of ds] by (simp add: fs_def t_def es_def)
  have small: "list_all (\<lambda>d. d < 10) fs"
    using ds by (auto simp: list_all_iff fs_def es_def dest!: in_set_takeD set_dropWhileD)
  have head: "hd fs \<noteq> 0" if "fs \<noteq> []"
    using that hd_dropWhile [of "\<lambda>d. d = 0" ds] by (auto simp: fs_def es_def)
  have "exact_normalized negative ds e =
      (if fs = [] then Some \<lparr>ex_negative = False, ex_digits = fs, ex_exponent = 0\<rparr>
       else do {
         t \<leftarrow> checked_i64 (int t);
         e \<leftarrow> checked_i64 (e + t);
         Some \<lparr>ex_negative = negative, ex_digits = fs, ex_exponent = e\<rparr> })"
    by (simp only: exact_normalized_def Let_def es_def t_def fs_def)
  with assms(1) have x: "x = (if fs = [] then \<lparr>ex_negative = False, ex_digits = fs, ex_exponent = 0\<rparr>
      else \<lparr>ex_negative = negative, ex_digits = fs, ex_exponent = e + int t\<rparr>)"
    by (auto simp: bind_eq_Some_conv split: if_splits)
  show "exact_ok x" using small head by (simp add: x exact_ok_def)
  show "exact_value x = sign_rat negative * of_nat (digits_val ds) * 10 powi e"
    using val powi_add_nat [of e t 0] by (simp add: x exact_value_def)
qed

lemma byte_digit_is: "is_digit c \<Longrightarrow> byte_digit c = digit_val c"
proof -
  assume "is_digit c"
  then have range: "48 \<le> (of_char c :: nat)" "(of_char c :: nat) \<le> 57" by (simp_all add: is_digit_def)
  define k where "k = (of_char c :: nat) - 48"
  with range have "(of_char c :: nat) = 48 + k" "k \<le> 9" by simp_all
  then show ?thesis by (simp add: byte_digit_def digit_val_def)
qed

lemma parse_signed_sign: "parse_signed bits e = Some i \<Longrightarrow> i = strip_sign_int e"
  by (auto simp: parse_signed_def strip_sign_int_def unsign_exponent_def Let_def split: list.splits if_splits)

lemma exact_parse_value:
  assumes ok: "number_ok n" and parsed: "exact_parse n = Some x"
  shows "exact_value x = number_value n" "exact_ok x"
proof -
  obtain neg w f e where n: "split_number n = (neg, w, f, e)" by (metis prod_cases4)
  note digits = number_ok_split [OF ok n]
  have bytes: "map byte_digit w = map digit_val w" "map byte_digit f = map digit_val f"
    using digits by (auto simp: is_digits_def list_all_iff byte_digit_is)
  have small: "list_all (\<lambda>d. d < 10) (map digit_val w @ map digit_val f)"
    using digits by (auto simp: is_digits_def list_all_iff digit_val_less)
  from parsed have "exact_normalized neg (map digit_val w @ map digit_val f) (strip_sign_int e - int (length f)) = Some x"
    by (auto simp: exact_parse_def n bytes bind_eq_Some_conv split: if_splits dest!: parse_signed_sign)
  from exact_normalized_value [OF this small]
  show "exact_value x = number_value n" "exact_ok x"
    by (simp_all add: number_value_def n nat_of_text_def)
qed

text \<open>The digits of an operand laid out over the places \<open>low..high\<close> it lies within.\<close>

definition lies_within :: "exact \<Rightarrow> int \<Rightarrow> int \<Rightarrow> bool" where
  "lies_within x low high \<longleftrightarrow> ex_digits x \<noteq> [] \<longrightarrow>
     low \<le> ex_exponent x \<and> ex_exponent x + int (length (ex_digits x)) - 1 \<le> high"

lemma magnitude_layout:
  assumes "lies_within x low high" "ex_digits x \<noteq> []" "high - low < 2 ^ 63"
  shows "map (exact_at x) [low..high] =
    replicate (nat (ex_exponent x - low)) 0 @ rev (ex_digits x)
      @ replicate (nat (high - (ex_exponent x + int (length (ex_digits x)) - 1))) 0"
    (is "?l = ?r")
proof (rule nth_equalityI)
  note within = assms(1) [unfolded lies_within_def, rule_format, OF assms(2)]
  show "length ?l = length ?r" using within by simp arith
  fix i assume "i < length ?l"
  then have i: "low + int i \<le> high" by simp
  have "- (2 ^ 63) \<le> low + int i - ex_exponent x" "low + int i - ex_exponent x < 2 ^ 63"
  proof -
    have "0 < length (ex_digits x)" using assms(2) by simp
    then have "ex_exponent x \<le> high" using within by linarith
    with within i assms(3) show "- (2 ^ 63) \<le> low + int i - ex_exponent x" "low + int i - ex_exponent x < 2 ^ 63"
      by linarith+
  qed
  then have checked: "checked_i64 (low + int i - ex_exponent x) = Some (low + int i - ex_exponent x)"
    by (simp add: checked_i64_def)
  have "exact_at x (low + int i) =
      (if low + int i < ex_exponent x then 0
       else if 1 + nat (low + int i - ex_exponent x) \<le> length (ex_digits x)
       then ex_digits x ! (length (ex_digits x) - (1 + nat (low + int i - ex_exponent x))) else 0)"
    unfolding exact_at_def checked by simp
  moreover have "nat (low + int i - ex_exponent x) = i - nat (ex_exponent x - low)"
    using within by linarith
  ultimately show "?l ! i = ?r ! i"
    using i within by (auto simp: nth_append rev_nth nth_upto)
qed

lemma magnitude_value:
  assumes "lies_within x low high" "high - low < 2 ^ 63"
  shows "of_nat (lsd_val (map (exact_at x) [low..high])) * 10 powi low
      = (of_nat (digits_val (ex_digits x)) * 10 powi ex_exponent x :: rat)"
proof (cases "ex_digits x = []")
  case True
  then have "exact_at x = (\<lambda>_. 0)"
    by (auto simp: exact_at_def fun_eq_iff split: option.splits)
  then show ?thesis using True by (simp add: map_replicate_const)
next
  case False
  define n where "n = nat (ex_exponent x - low)"
  have e: "ex_exponent x = low + int n"
    using assms(1) False by (simp add: lies_within_def n_def)
  have "lsd_val (map (exact_at x) [low..high]) = 10 ^ n * digits_val (ex_digits x)"
    unfolding magnitude_layout [OF assms(1) False assms(2)]
    by (simp add: lsd_val_append lsd_val_rev n_def)
  then show ?thesis by (simp add: e power_int_add)
qed

lemma exact_at_less: "exact_ok x \<Longrightarrow> exact_at x p < 10"
  by (auto simp: exact_at_def exact_ok_def list_all_length split: option.splits)

lemma exact_span_within:
  assumes "exact_span xs (high, low) = Some (high', low')"
  shows "high \<le> high'" "low' \<le> low" "x \<in> set xs \<Longrightarrow> lies_within x low' high'"
  using assms
proof (induction xs arbitrary: high low)
  case (Cons y ys)
  {
    case 1
    then show ?case using Cons.IH(1) by (force simp: bind_eq_Some_conv split: if_splits)
  next
    case 2
    then show ?case using Cons.IH(2) by (force simp: bind_eq_Some_conv split: if_splits)
  next
    case 3
    then show ?case
      using Cons.IH(3) Cons.IH(1,2)
      by (force simp: bind_eq_Some_conv exact_high_def lies_within_def split: if_splits)
  }
qed simp_all

lemma add_magnitudes_carry:
  "length ls = length rs \<Longrightarrow> add_magnitudes ls rs c = (let (rest, c') = add_carry ls rs c in rest @ [c'])"
  by (induction ls rs arbitrary: c rule: list_induct2)
    (simp_all add: Let_def first_digit_def split: prod.splits)

lemma subtract_magnitudes_borrow:
  "length ls = length rs \<Longrightarrow> subtract_magnitudes ls rs b = sub_borrow ls rs b"
  by (induction ls rs arbitrary: b rule: list_induct2) (simp_all add: Let_def first_digit_def)

lemma add_magnitudes_value:
  assumes "length ls = length rs" "list_all (\<lambda>d. d < 10) ls" "list_all (\<lambda>d. d < 10) rs"
  shows "lsd_val (add_magnitudes ls rs 0) = lsd_val ls + lsd_val rs"
    and "list_all (\<lambda>d. d < 10) (add_magnitudes ls rs 0)"
proof -
  obtain rest c where sum: "add_carry ls rs 0 = (rest, c)" by fastforce
  have total: "lsd_val rest + 10 ^ length ls * c = lsd_val ls + lsd_val rs"
    and len: "length rest = length ls" and digits: "list_all (\<lambda>d. d < 10) rest"
    using add_carry_value [OF sum] assms(1) by simp_all
  then show "lsd_val (add_magnitudes ls rs 0) = lsd_val ls + lsd_val rs"
    by (simp add: add_magnitudes_carry assms(1) sum lsd_val_append)
  have "c < 10"
  proof (rule ccontr)
    assume "\<not> c < 10"
    then have "10 ^ length ls * 2 \<le> 10 ^ length ls * c" by simp
    moreover have "lsd_val ls < 10 ^ length ls" "lsd_val rs < 10 ^ length ls"
      using lsd_val_less [OF assms(2)] lsd_val_less [OF assms(3)] assms(1) by simp_all
    ultimately show False using total by linarith
  qed
  with digits show "list_all (\<lambda>d. d < 10) (add_magnitudes ls rs 0)"
    by (simp add: add_magnitudes_carry assms(1) sum)
qed

lemma exact_plus_value:
  assumes x: "exact_ok x" and y: "exact_ok y" and sum: "exact_plus x y = Some z"
  shows "exact_value z = exact_value x + exact_value y \<and> exact_ok z"
proof -
  from sum obtain high low where sp: "exact_span [x, y] (0, 0) = Some (high, low)"
    and width: "high - low + 1 \<le> max_sum_places"
    by (auto simp: exact_plus_def bind_eq_Some_conv split: if_splits simp del: exact_span.simps)
  define l r where "l = map (exact_at x) [low..high]" and "r = map (exact_at y) [low..high]"
  have small: "high - low < 2 ^ 63" using width by (simp add: max_sum_places_def)
  have within: "lies_within x low high" "lies_within y low high"
    by (rule exact_span_within(3) [OF sp], simp)+
  note vx = magnitude_value [OF within(1) small, folded l_def]
    and vy = magnitude_value [OF within(2) small, folded r_def]
  have digits: "list_all (\<lambda>d. d < 10) l" "list_all (\<lambda>d. d < 10) r" and len: "length l = length r"
    by (simp_all add: l_def r_def list_all_iff exact_at_less x y)
  define ns where "ns = (if ex_negative x = ex_negative y then (ex_negative x, add_magnitudes l r 0)
      else if is_lt (cmp (rev l) (rev r)) then (ex_negative y, subtract_magnitudes r l 0)
      else (ex_negative x, subtract_magnitudes l r 0))"
  obtain n s where ns: "ns = (n, s)" by fastforce
  have z: "exact_normalized n (rev s) low = Some z"
    using sum width ns
    by (simp add: exact_plus_def sp Let_def l_def [symmetric] r_def [symmetric] ns_def [symmetric]
        bind_eq_Some_conv not_less del: exact_span.simps)
  have order: "cmp (rev l) (rev r) = cmp (lsd_val l) (lsd_val r)"
    using cmp_digits [of "rev l" "rev r"] digits len by (simp add: digits_val_rev)
  have sub: "int (lsd_val (subtract_magnitudes a b 0)) = int (lsd_val a) - int (lsd_val b)
      \<and> list_all (\<lambda>d. d < 10) (subtract_magnitudes a b 0)"
    if "list_all (\<lambda>d. d < 10) a" "list_all (\<lambda>d. d < 10) b" "length a = length b" "lsd_val b \<le> lsd_val a" for a b
    using sub_borrow_value [of a b 0] that by (simp add: subtract_magnitudes_borrow)
  have "sign_rat n * of_nat (lsd_val s) = sign_rat (ex_negative x) * of_nat (lsd_val l)
        + sign_rat (ex_negative y) * (of_nat (lsd_val r) :: rat) \<and> list_all (\<lambda>d. d < 10) s"
  proof (cases "ex_negative x = ex_negative y")
    case True
    then show ?thesis
      using ns add_magnitudes_value [OF len digits] by (auto simp: ns_def algebra_simps)
  next
    case False
    have signs: "sign_rat (ex_negative y) = - sign_rat (ex_negative x)"
      using False by (auto simp: sign_rat_def)
    have diff: "of_nat u = (of_nat v - of_nat w :: rat)" if "int u = int v - int w" for u v w
      using that by (metis of_int_diff of_int_of_nat_eq)
    show ?thesis
    proof (cases "lsd_val l < lsd_val r")
      case True
      with False ns have n: "n = ex_negative y" "s = subtract_magnitudes r l 0"
        by (auto simp: ns_def order ordering_defs)
      with sub [of r l] digits len True have "int (lsd_val s) = int (lsd_val r) - int (lsd_val l)"
        and "list_all (\<lambda>d. d < 10) s" by simp_all
      then show ?thesis by (simp add: diff [OF \<open>int (lsd_val s) = _\<close>] n(1) signs right_diff_distrib)
    next
      case no: False
      with False ns have n: "n = ex_negative x" "s = subtract_magnitudes l r 0"
        by (auto simp: ns_def order ordering_defs)
      with sub [of l r] digits len no have "int (lsd_val s) = int (lsd_val l) - int (lsd_val r)"
        and "list_all (\<lambda>d. d < 10) s" by simp_all
      then show ?thesis by (simp add: diff [OF \<open>int (lsd_val s) = _\<close>] n(1) signs right_diff_distrib)
    qed
  qed
  then show ?thesis
    using exact_normalized_value [OF z] vx vy
    by (simp add: exact_value_def digits_val_rev distrib_right mult.assoc)
qed

text \<open>The spelling of a sum is a token that names its value.\<close>

lemma unsigned_text_sign: "list_all is_digit w \<Longrightarrow> w \<noteq> [] \<Longrightarrow>
    unsigned_text ((if neg then ''-'' else []) @ w @ r) = (neg, w @ r)"
  by (cases w) (auto simp: unsigned_text_def)

lemma digits_no_marks:
  assumes "list_all is_digit w"
  shows "\<forall>c \<in> set w. \<not> is_exponent_mark c" "\<forall>c \<in> set w. \<not> is_point c"
  using assms by (auto simp: list_all_iff is_exponent_mark_def is_point_def)

lemma spelled_whole:
  fixes neg :: bool
  assumes w: "list_all is_digit w" "w \<noteq> []"
  defines "t \<equiv> (if neg then ''-'' else []) @ w"
  shows "number_ok t \<longleftrightarrow> (hd w = CHR ''0'' \<longrightarrow> w = ''0'')"
    "number_value t = sign_rat neg * of_nat (nat_of_text w)"
proof -
  have u: "unsigned_text t = (neg, w)"
    using unsigned_text_sign [OF w, of neg "[]"] by (simp add: t_def)
  note s = split_first_none [OF digits_no_marks(1) [OF w(1)]] split_first_none [OF digits_no_marks(2) [OF w(1)]]
  show "number_ok t \<longleftrightarrow> (hd w = CHR ''0'' \<longrightarrow> w = ''0'')"
    using w by (simp add: number_ok_def u s is_digits_def)
  show "number_value t = sign_rat neg * of_nat (nat_of_text w)"
    by (simp add: number_value_def split_number_def u s strip_sign_int_def unsign_exponent_def
        nat_of_text_def digit_val_def)
qed

lemma spelled_fraction:
  fixes neg :: bool
  assumes w: "list_all is_digit w" "w \<noteq> []" and f: "list_all is_digit f" "f \<noteq> []"
  defines "t \<equiv> (if neg then ''-'' else []) @ w @ ''.'' @ f"
  shows "number_ok t \<longleftrightarrow> (hd w = CHR ''0'' \<longrightarrow> w = ''0'')"
    "number_value t = sign_rat neg * (of_nat (nat_of_text (w @ f)) * 10 powi (- int (length f)))"
proof -
  have u: "unsigned_text t = (neg, w @ ''.'' @ f)"
    unfolding t_def by (rule unsigned_text_sign [OF w])
  have s: "split_first is_exponent_mark (w @ ''.'' @ f) = (w @ ''.'' @ f, None)"
  proof (rule split_first_none)
    have "\<not> is_exponent_mark (CHR ''.'')" by (simp add: is_exponent_mark_def)
    with digits_no_marks(1) [OF w(1)] digits_no_marks(1) [OF f(1)]
    show "\<forall>c \<in> set (w @ ''.'' @ f). \<not> is_exponent_mark c" by (simp add: ball_Un)
  qed
  have p: "split_first is_point (w @ ''.'' @ f) = (w, Some f)"
  proof -
    have "is_point (CHR ''.'')" by (simp add: is_point_def)
    with split_first_once [OF digits_no_marks(2) [OF w(1)], of "CHR ''.''" f] show ?thesis by simp
  qed
  show "number_ok t \<longleftrightarrow> (hd w = CHR ''0'' \<longrightarrow> w = ''0'')"
    using w f unfolding number_ok_def u Let_def prod.case s p by (simp add: is_digits_def)
  have "split_number t = (neg, w, f, ''0'')"
    unfolding split_number_def u Let_def prod.case s p by (simp add: p [simplified])
  then show "number_value t = sign_rat neg * (of_nat (nat_of_text (w @ f)) * 10 powi (- int (length f)))"
    by (simp add: number_value_def strip_sign_int_def unsign_exponent_def nat_of_text_def digit_val_def)
qed

lemma exact_spelled_value:
  assumes x: "exact_ok x"
  shows "number_ok (exact_spelled x) \<and> number_value (exact_spelled x) = exact_value x"
proof (cases "ex_digits x = []")
  case True
  then show ?thesis
    using spelled_whole [of "''0''" False]
    by (simp add: exact_spelled_def exact_value_def nat_of_text_def digit_val_def is_digit_def)
next
  case False
  define D where "D = map digit_char (ex_digits x)"
  have D: "list_all is_digit D" "D \<noteq> []" "length D = length (ex_digits x)"
    using x False by (auto simp: D_def exact_ok_def list_all_iff)
  have hd_D: "hd D \<noteq> CHR ''0''"
  proof -
    from False obtain d ds where ds: "ex_digits x = d # ds" by (cases "ex_digits x") auto
    with x have "d < 10" "d \<noteq> 0" by (simp_all add: exact_ok_def)
    then show ?thesis
      using digit_val_0_iff [of "digit_char d"] by (simp add: D_def ds)
  qed
  have val: "nat_of_text D = digits_val (ex_digits x)"
  proof -
    have "map digit_val D = ex_digits x"
      using x by (auto simp: D_def exact_ok_def list_all_iff intro!: map_idI)
    then show ?thesis by (simp add: nat_of_text_def)
  qed
  define sign where "sign = (if ex_negative x then ''-'' else [])"
  define point where "point = int (length D) + ex_exponent x"
  have zeros_digits: "list_all is_digit (zeros k)" for k
    by (auto simp: zeros_def list_all_iff is_digit_def)
  consider (whole) "ex_exponent x \<ge> 0" | (inside) "ex_exponent x < 0" "point > 0"
    | (below) "ex_exponent x < 0" "point \<le> 0" by linarith
  then show ?thesis
  proof cases
    case whole
    then have "exact_spelled x = sign @ D @ zeros (ex_exponent x)"
      using False by (simp add: exact_spelled_def Let_def D_def sign_def)
    moreover have "hd (D @ zeros (ex_exponent x)) = hd D" using D(2) by simp
    moreover have "nat_of_text (D @ zeros (ex_exponent x)) = digits_val (ex_digits x) * 10 ^ nat (ex_exponent x)"
      by (simp add: nat_of_text_append val zeros_def)
    ultimately show ?thesis
      using spelled_whole [of "D @ zeros (ex_exponent x)" "ex_negative x"] D hd_D zeros_digits whole
      by (simp add: sign_def exact_value_def power_int_def)
  next
    case inside
    have "exact_spelled x = sign @ take (nat point) D @ ''.'' @ drop (nat point) D"
      using inside False D(3) by (simp add: exact_spelled_def Let_def D_def sign_def point_def)
    moreover have "take (nat point) D \<noteq> []" "hd (take (nat point) D) = hd D"
      using inside D(2) by (cases D; auto simp: take_Cons')+
    moreover have "drop (nat point) D \<noteq> []" "int (length (drop (nat point) D)) = - ex_exponent x"
      using inside by (auto simp: point_def)
    moreover have "list_all is_digit (take (nat point) D)" "list_all is_digit (drop (nat point) D)"
      using D(1) by (auto simp: list_all_iff dest: in_set_takeD in_set_dropD)
    ultimately show ?thesis
      using spelled_fraction [of "take (nat point) D" "drop (nat point) D" "ex_negative x"] hd_D
      by (simp add: sign_def exact_value_def val)
  next
    case below
    have "exact_spelled x = sign @ ''0'' @ ''.'' @ (zeros (- point) @ D)"
      using below False D(3) by (simp add: exact_spelled_def Let_def D_def sign_def point_def)
    moreover have "int (length (zeros (- point) @ D)) = - ex_exponent x"
      using below by (simp add: zeros_def point_def)
    moreover have "nat_of_text (''0'' @ zeros (- point) @ D) = digits_val (ex_digits x)"
      by (simp add: nat_of_text_append val zeros_def del: append_Cons append_Nil) (simp add: nat_of_text_def digit_val_def)
    ultimately show ?thesis
      using spelled_fraction [of "''0''" "zeros (- point) @ D" "ex_negative x"] D zeros_digits
      by (simp add: sign_def exact_value_def is_digit_def)
  qed
qed

lemma number_add_exact:
  assumes l: "number_ok l" and r: "number_ok r" and sum: "number_add l r = Some s"
  shows "number_value s = number_value l + number_value r \<and> number_ok s"
proof -
  from sum obtain x y z where x: "exact_parse l = Some x" and y: "exact_parse r = Some y"
    and z: "exact_plus x y = Some z" and s: "s = exact_spelled z"
    by (auto simp: number_add_def number_from_str_def bind_eq_Some_conv split: if_splits)
  note vx = exact_parse_value [OF l x] and vy = exact_parse_value [OF r y]
  have z_val: "exact_value z = exact_value x + exact_value y" "exact_ok z"
    using exact_plus_value [OF vx(2) vy(2) z] by simp_all
  with exact_spelled_value [OF z_val(2)] vx vy show ?thesis by (simp add: s)
qed

end
