(* ===== verification/Observed.thy ===== *)
theory Observed
  imports Binary64 Number
begin

text \<open>
  \<open>entity-core/src/observed.rs\<close>, \<open>source-number/1\<close>: what a service predicate reads a number as. A value
  is carried exactly as \<open>units * 10^-scale\<close> beside its binary64, or as a binary64 no such pair spells.
  The intermediate \<open>i64\<close> and \<open>i128\<close> arithmetic is checked where the code checks it. The one unchecked
  step, \<open>fraction.len() - exponent\<close>, leaves \<open>i64\<close> only for an exponent beside \<open>i64::MIN\<close>: a wrapped
  difference then ends, after its loop, in the value the unbounded difference used here gives.
\<close>

definition max_scale :: int where "max_scale = 255"

definition i128_ok :: "int \<Rightarrow> bool" where
  "i128_ok i \<longleftrightarrow> - (2 ^ 127) \<le> i \<and> i < 2 ^ 127"

datatype observed =
    Exact int nat f64
  | Binary f64

section \<open>Authored decimals\<close>

text \<open>\<open>while scale < 0 { units = units.checked_mul(10)?; scale += 1 }\<close>, \<open>k\<close> the steps left.\<close>

fun scale_up :: "nat \<Rightarrow> int \<Rightarrow> int option" where
  "scale_up 0 u = Some u"
| "scale_up (Suc k) u = (if i128_ok (u * 10) then scale_up k (u * 10) else None)"

text \<open>\<open>while scale > 0 && units % 10 == 0 { units /= 10; scale -= 1 }\<close>.\<close>

fun scale_down :: "int \<Rightarrow> nat \<Rightarrow> int \<times> nat" where
  "scale_down u 0 = (u, 0)"
| "scale_down u (Suc k) = (if u mod 10 = 0 then scale_down (u div 10) k else (u, Suc k))"

definition parse_exponent :: "string option \<Rightarrow> int option" where
  "parse_exponent exponent = (case exponent of
     None \<Rightarrow> Some 0
   | Some text \<Rightarrow>
       (let (negative, digits) = unsign_exponent text
        in if text = [] \<or> \<not> is_digits digits then None
           else map_option (\<lambda>m. if negative then - m else m) (parse_signed 64 digits)))"

text \<open>The scale brought to zero or above, then the trailing zeros normalised away.\<close>

definition decimal_pair :: "bool \<Rightarrow> int \<Rightarrow> int \<Rightarrow> (int \<times> nat) option" where
  "decimal_pair negative units scale = do {
     units \<leftarrow> scale_up (nat (- scale)) units;
     (let (units, scale) = scale_down units (nat scale);
          scale = (if units = 0 then 0 else scale)
      in if int scale > max_scale then None
         else Some (if negative then - units else units, scale))
   }"

definition exact_of_decimal_text :: "string \<Rightarrow> (int \<times> nat) option" where
  "exact_of_decimal_text text =
     (if text = [] then None
      else
        (let (negative, rest) = unsign_exponent text;
             (mantissa, exponent) = split_first is_exponent_mark rest;
             (whole, point) = split_first is_point mantissa;
             fraction = (case point of None \<Rightarrow> [] | Some f \<Rightarrow> f)
         in if point = Some [] \<or> \<not> is_digits whole \<or> (fraction \<noteq> [] \<and> \<not> is_digits fraction) then None
            else do {
              exponent \<leftarrow> parse_exponent exponent;
              units \<leftarrow> parse_signed 128 (whole @ fraction);
              decimal_pair negative units (int (length fraction) - exponent)
            }))"

definition exact_text :: "int \<Rightarrow> nat \<Rightarrow> string" where
  "exact_text units scale =
     (if scale = 0 then show_int units
      else
        (let digits = show_nat (nat \<bar>units\<bar>);
             (whole, fraction) =
               (if length digits > scale
                then (take (length digits - scale) digits, drop (length digits - scale) digits)
                else (''0'', replicate (scale - length digits) CHR ''0'' @ digits));
             sign = (if units < 0 then ''-'' else [])
         in sign @ whole @ ''.'' @ fraction))"

definition magnitude_cmp :: "string \<Rightarrow> nat \<Rightarrow> string \<Rightarrow> nat \<Rightarrow> ordering" where
  "magnitude_cmp left left_scale right right_scale =
     (let left_exponent = int (length left) - 1 - int left_scale;
          right_exponent = int (length right) - 1 - int right_scale
      in case cmp left_exponent right_exponent of
           Equal \<Rightarrow> (let width = max (length left) (length right)
                     in cmp (pad_zeros width left) (pad_zeros width right))
         | other \<Rightarrow> other)"

definition exact_cmp :: "int \<Rightarrow> nat \<Rightarrow> int \<Rightarrow> nat \<Rightarrow> ordering" where
  "exact_cmp left left_scale right right_scale =
     (if sgn left = 0 \<and> sgn right = 0 then Equal
      else if sgn left = 0 then cmp 0 (sgn right)
      else if sgn right = 0 then cmp (sgn left) 0
      else if sgn left \<noteq> sgn right then cmp (sgn left) (sgn right)
      else (let order = magnitude_cmp (show_nat (nat \<bar>left\<bar>)) left_scale
                          (show_nat (nat \<bar>right\<bar>)) right_scale
            in if sgn left < 0 then ord_reverse order else order))"

section \<open>The two doors\<close>

definition canonical_decimal :: "f64 \<Rightarrow> (int \<times> nat) option" where
  "canonical_decimal value =
     (if f64_integral value \<and> \<bar>f64_truncate value\<bar> \<le> 2 ^ 63
      then Some (f64_truncate value, 0)
      else exact_of_decimal_text (f64_display value))"

definition of_binary64 :: "f64 \<Rightarrow> observed" where
  "of_binary64 value = (case canonical_decimal value of
     Some (units, scale) \<Rightarrow> Exact units scale value
   | None \<Rightarrow> Binary value)"

definition exact_integer :: "int \<Rightarrow> observed" where
  "exact_integer units = Exact units 0 (f64_of_int units)"

definition of_number :: "number \<Rightarrow> observed option" where
  "of_number value = (case as_i64 value of
     Some units \<Rightarrow> Some (exact_integer units)
   | None \<Rightarrow> (case as_u64 value of
       Some units \<Rightarrow> Some (exact_integer (int units))
     | None \<Rightarrow> do {
         binary \<leftarrow> f64_parse value;
         (if is_finite binary then Some (of_binary64 binary) else None)
       }))"

definition of_literal :: "string \<Rightarrow> observed option" where
  "of_literal text = do {
     binary \<leftarrow> f64_parse text;
     (if \<not> is_finite binary then None
      else (case exact_of_decimal_text text of
         Some (units, scale) \<Rightarrow>
           if scale = 0 \<or> canonical_decimal binary = Some (units, scale)
           then Some (Exact units scale binary)
           else Some (of_binary64 binary)
       | None \<Rightarrow> Some (of_binary64 binary)))
   }"

fun carried :: "observed \<Rightarrow> f64" where
  "carried (Exact units scale binary) = binary"
| "carried (Binary binary) = binary"

definition observed_cmp :: "observed \<Rightarrow> observed \<Rightarrow> ordering" where
  "observed_cmp left right = (case (left, right) of
     (Exact l ls _, Exact r rs _) \<Rightarrow> exact_cmp l ls r rs
   | _ \<Rightarrow> total_cmp (carried left) (carried right))"

definition observed_is_zero :: "observed \<Rightarrow> bool" where
  "observed_is_zero x \<longleftrightarrow> f64_is_zero (carried x)"

definition observed_text :: "observed \<Rightarrow> string" where
  "observed_text x = (case x of
     Exact units scale _ \<Rightarrow> exact_text units scale
   | Binary value \<Rightarrow> f64_display value)"

section \<open>Exact values\<close>

definition exact_meaning :: "int \<times> nat \<Rightarrow> rat" where
  "exact_meaning x = of_int (fst x) / 10 ^ snd x"

text \<open>The pairs the readers produce: one pair per value.\<close>

definition normal_pair :: "int \<times> nat \<Rightarrow> bool" where
  "normal_pair x \<longleftrightarrow> (snd x = 0 \<or> fst x mod 10 \<noteq> 0) \<and> int (snd x) \<le> max_scale"

lemma magnitude_cmp_value:
  assumes "0 < m" "0 < n"
  shows "magnitude_cmp (show_nat m) ms (show_nat n) ns = cmp (of_nat m / 10 ^ ms :: rat) (of_nat n / 10 ^ ns)"
proof -
  let ?l = "show_nat m" and ?r = "show_nat n"
  have exponent: "cmp (int (length ?l) - 1 - int ms) (int (length ?r) - 1 - int ns)
      = cmp (int (length ?l) - int ms) (int (length ?r) - int ns)"
    by (auto simp: cmp_def)
  have chain: "(case c of Less \<Rightarrow> Less | Equal \<Rightarrow> x | Greater \<Rightarrow> Greater) = ord_then c x" for c x
    by (cases c) simp_all
  have "magnitude_cmp ?l ms ?r ns = compare_digits (int (length ?l) - int ms) ?l (int (length ?r) - int ns) ?r"
    by (simp only: magnitude_cmp_def compare_digits_def Let_def exponent chain)
  also have "\<dots> = cmp (frac ?l * 10 powi (int (length ?l) - int ms)) (frac ?r * 10 powi (int (length ?r) - int ns))"
    using assms by (intro compare_digits_value show_nat_all_digits show_nat_nonempty show_nat_hd)
  finally show ?thesis
    by (simp add: frac_def power_int_diff)
qed

lemma exact_cmp_value: "exact_cmp l ls r rs = cmp (exact_meaning (l, ls)) (exact_meaning (r, rs))"
proof -
  have mag: "magnitude_cmp (show_nat (nat \<bar>l\<bar>)) ls (show_nat (nat \<bar>r\<bar>)) rs
      = cmp (of_int \<bar>l\<bar> / 10 ^ ls :: rat) (of_int \<bar>r\<bar> / 10 ^ rs)" if "l \<noteq> 0" "r \<noteq> 0"
    using magnitude_cmp_value [of "nat \<bar>l\<bar>" "nat \<bar>r\<bar>" ls rs] that by (simp add: of_nat_nat)
  have less: "(of_int l / 10 ^ ls :: rat) < of_int r / 10 ^ rs" if "l \<le> 0" "0 \<le> r" "l \<noteq> 0 \<or> r \<noteq> 0" for l r ls rs
  proof -
    have "(of_int l / 10 ^ ls :: rat) \<le> 0" "0 \<le> (of_int r / 10 ^ rs :: rat)"
      and "l \<noteq> 0 \<Longrightarrow> (of_int l / 10 ^ ls :: rat) < 0" "r \<noteq> 0 \<Longrightarrow> 0 < (of_int r / 10 ^ rs :: rat)"
      using that by (simp_all add: divide_nonpos_pos divide_neg_pos)
    with that(3) show ?thesis by linarith
  qed
  consider "l = 0" "r = 0" | "l \<le> 0" "0 \<le> r" "l \<noteq> 0 \<or> r \<noteq> 0" | "r \<le> 0" "0 \<le> l" "l \<noteq> 0 \<or> r \<noteq> 0"
    | "l < 0" "r < 0" | "0 < l" "0 < r" by linarith
  then show ?thesis
  proof cases
    case 1
    then show ?thesis by (simp add: exact_cmp_def exact_meaning_def)
  next
    case 2
    with less [of l r ls rs] show ?thesis
      by (auto simp: exact_cmp_def exact_meaning_def cmp_def sgn_if divide_less_0_iff zero_less_divide_iff)
  next
    case 3
    with less [of r l rs ls] show ?thesis
      by (auto simp: exact_cmp_def exact_meaning_def cmp_def sgn_if divide_less_0_iff zero_less_divide_iff)
  next
    case 4
    then show ?thesis
      using mag by (simp add: exact_cmp_def exact_meaning_def cmp_neg)
  next
    case 5
    then show ?thesis
      using mag by (simp add: exact_cmp_def exact_meaning_def)
  qed
qed

interpretation exact: comparison "\<lambda>x y. exact_cmp (fst x) (snd x) (fst y) (snd y)" exact_meaning "\<lambda>_. True"
  by unfold_locales (simp add: exact_cmp_value)

text \<open>One value has one normal pair, so equal comparison of two read values is equality of the pairs.\<close>

lemma normal_pair_inject:
  assumes "normal_pair x" "normal_pair y" "exact_meaning x = exact_meaning y"
  shows "x = y"
proof -
  have key: "s \<le> s'" if "(of_int u / 10 ^ s :: rat) = of_int u' / 10 ^ s'" "s = 0 \<or> u mod 10 \<noteq> 0" for u u' s s'
  proof (rule ccontr)
    assume "\<not> s \<le> s'"
    then obtain k where s: "s = s' + Suc k" by (metis add_Suc_right less_iff_Suc_add not_le)
    have "of_int u = (of_int (u' * 10 ^ Suc k) :: rat)"
      using that(1) by (simp add: s power_add field_simps)
    then have "u = u' * 10 ^ Suc k" by (simp only: of_int_eq_iff)
    then have "u mod 10 = 0" by simp
    with that(2) s show False by simp
  qed
  obtain u s u' s' where xy: "x = (u, s)" "y = (u', s')" by (cases x; cases y)
  with assms key [of u s u' s'] key [of u' s' u s] have "s = s'"
    by (auto simp: normal_pair_def exact_meaning_def intro: antisym)
  with assms(3) show ?thesis by (simp add: xy exact_meaning_def)
qed

lemma scale_up_value: "scale_up k u = Some v \<Longrightarrow> v = u * 10 ^ k"
  by (induction k u rule: scale_up.induct) (auto split: if_splits)

lemma scale_down_value:
  "scale_down u k = (v, j) \<Longrightarrow> exact_meaning (v, j) = exact_meaning (u, k) \<and> (j = 0 \<or> v mod 10 \<noteq> 0)"
proof (induction u k rule: scale_down.induct)
  case (2 u k)
  show ?case
  proof (cases "u mod 10 = 0")
    case True
    then have "of_int u = (10 * of_int (u div 10) :: rat)"
      by (metis mult_div_mod_eq add.right_neutral of_int_mult of_int_numeral)
    with 2 True show ?thesis by (simp add: exact_meaning_def)
  next
    case False
    with 2 show ?thesis by auto
  qed
qed simp

lemma parse_signed_digits:
  assumes "is_digits ds" "parse_signed bits ds = Some i"
  shows "i = int (nat_of_text ds)"
proof -
  from assms(1) obtain c r where "ds = c # r" "is_digit c" by (cases ds) (auto simp: is_digits_def)
  then have "c \<noteq> CHR ''-''" "c \<noteq> CHR ''+''" by auto
  with assms(2) \<open>ds = c # r\<close> show ?thesis
    by (simp add: parse_signed_def Let_def split: if_splits)
qed

lemma parse_exponent_value:
  assumes "parse_exponent (Some e) = Some i"
  shows "i = strip_sign_int e"
proof -
  obtain neg ds where e: "unsign_exponent e = (neg, ds)" by fastforce
  with assms obtain m where "is_digits ds" "parse_signed 64 ds = Some m" "i = (if neg then - m else m)"
    by (auto simp: parse_exponent_def split: if_splits)
  then show ?thesis using parse_signed_digits [of ds 64 m] by (simp add: strip_sign_int_def e)
qed

lemma decimal_pair_value:
  assumes "decimal_pair negative n sc = Some (u, s)"
  shows "exact_meaning (u, s) = sign_rat negative * (of_int n * 10 powi (- sc)) \<and> normal_pair (u, s)"
proof -
  obtain v w j where v: "scale_up (nat (- sc)) n = Some v" and w: "scale_down v (nat sc) = (w, j)"
    using assms by (cases "scale_up (nat (- sc)) n") (auto simp: decimal_pair_def prod_eq_iff)
  then have us: "u = (if negative then - w else w)" "s = (if w = 0 then 0 else j)" "int s \<le> max_scale"
    using assms by (auto simp: decimal_pair_def Let_def split: if_splits)
  have shift: "exact_meaning (v, nat sc) = of_int n * 10 powi (- sc)"
  proof (cases "0 \<le> sc")
    case True
    then obtain k where "sc = int k" using nonneg_int_cases by blast
    with v show ?thesis by (simp add: exact_meaning_def power_int_minus divide_inverse)
  next
    case False
    then obtain k where "sc = - int k" by (metis int_cases2 nat_int of_nat_0_le_iff)
    with scale_up_value [OF v] show ?thesis by (simp add: exact_meaning_def)
  qed
  have down: "exact_meaning (w, j) = exact_meaning (v, nat sc)" "j = 0 \<or> w mod 10 \<noteq> 0"
    using scale_down_value [OF w] by simp_all
  have "(- w) mod 10 \<noteq> 0 \<longleftrightarrow> w mod 10 \<noteq> 0"
    by (simp add: mod_eq_0_iff_dvd)
  then have "normal_pair (u, s)"
    using down(2) us by (auto simp: normal_pair_def)
  moreover have "exact_meaning (u, s) = sign_rat negative * exact_meaning (w, j)"
    using us(1,2) by (simp add: exact_meaning_def sign_rat_def)
  ultimately show ?thesis by (simp add: down(1) shift)
qed

text \<open>A number token's parts, as both readers split it.\<close>

lemma number_ok_parts:
  assumes ok: "number_ok t"
  obtains negative rest mantissa exponent whole point where
    "unsign_exponent t = (negative, rest)" "split_first is_exponent_mark rest = (mantissa, exponent)"
    "split_first is_point mantissa = (whole, point)"
    "split_number t = (negative, whole, (case point of None \<Rightarrow> [] | Some f \<Rightarrow> f),
       (case exponent of None \<Rightarrow> ''0'' | Some e \<Rightarrow> e))"
proof -
  obtain negative rest where u: "unsigned_text t = (negative, rest)" by fastforce
  have "rest \<noteq> []" "is_digit (hd rest)"
    using ok u by (cases rest; auto simp: number_ok_def is_digits_def split: prod.splits if_splits)+
  then have "unsign_exponent t = (negative, rest)"
    using u by (cases t) (auto simp: unsigned_text_def unsign_exponent_def split: if_splits)
  moreover obtain mantissa exponent where m: "split_first is_exponent_mark rest = (mantissa, exponent)" by fastforce
  moreover obtain whole point where w: "split_first is_point mantissa = (whole, point)" by fastforce
  moreover have "split_number t = (negative, whole, (case point of None \<Rightarrow> [] | Some f \<Rightarrow> f),
       (case exponent of None \<Rightarrow> ''0'' | Some e \<Rightarrow> e))"
    by (cases exponent; cases point) (simp_all add: split_number_def u m w Let_def)
  ultimately show ?thesis using that by blast
qed

lemma exact_of_decimal_text_value:
  assumes ok: "number_ok t" and read: "exact_of_decimal_text t = Some (u, s)"
  shows "exact_meaning (u, s) = number_value t \<and> normal_pair (u, s)"
proof -
  obtain negative rest mantissa exponent whole point where
    parts: "unsign_exponent t = (negative, rest)" "split_first is_exponent_mark rest = (mantissa, exponent)"
      "split_first is_point mantissa = (whole, point)"
    and sn: "split_number t = (negative, whole, (case point of None \<Rightarrow> [] | Some f \<Rightarrow> f),
       (case exponent of None \<Rightarrow> ''0'' | Some e \<Rightarrow> e))"
    using number_ok_parts [OF ok] by metis
  define f where "f = (case point of None \<Rightarrow> [] | Some f \<Rightarrow> f)"
  from read obtain e n where e: "parse_exponent exponent = Some e"
    and n: "parse_signed 128 (whole @ f) = Some n" and digits: "is_digits whole" "f = [] \<or> is_digits f"
    and pair: "decimal_pair negative n (int (length f) - e) = Some (u, s)"
    by (auto simp: exact_of_decimal_text_def parts f_def [symmetric] Let_def bind_eq_Some_conv split: if_splits)
  have "is_digits (whole @ f)" using digits by (auto simp: is_digits_def)
  with n have "n = int (nat_of_text (whole @ f))" by (simp add: parse_signed_digits)
  moreover have "strip_sign_int (case exponent of None \<Rightarrow> ''0'' | Some e \<Rightarrow> e) = e"
    using e parse_exponent_value
    by (cases exponent) (auto simp: parse_exponent_def strip_sign_int_def unsign_exponent_def nat_of_text_def digit_val_def)
  ultimately show ?thesis
    using decimal_pair_value [OF pair] by (simp add: number_value_def sn f_def)
qed

section \<open>The canonical text\<close>

lemma exact_text_spelled:
  "exact_text u s =
     (if s = 0 then (if u < 0 then ''-'' else []) @ show_nat (nat \<bar>u\<bar>)
      else if s < length (show_nat (nat \<bar>u\<bar>))
        then (if u < 0 then ''-'' else []) @ take (length (show_nat (nat \<bar>u\<bar>)) - s) (show_nat (nat \<bar>u\<bar>))
               @ ''.'' @ drop (length (show_nat (nat \<bar>u\<bar>)) - s) (show_nat (nat \<bar>u\<bar>))
      else (if u < 0 then ''-'' else []) @ ''0'' @ ''.'' @
             (replicate (s - length (show_nat (nat \<bar>u\<bar>))) CHR ''0'' @ show_nat (nat \<bar>u\<bar>)))"
  by (simp add: exact_text_def Let_def show_int_def)

lemma exact_text_value:
  "number_ok (exact_text u s) \<and> number_value (exact_text u s) = exact_meaning (u, s)"
proof -
  define D where "D = show_nat (nat \<bar>u\<bar>)"
  have D: "list_all is_digit D" "D \<noteq> []" "nat_of_text D = nat \<bar>u\<bar>"
    by (simp_all add: D_def show_nat_all_digits)
  have head: "hd D = CHR ''0'' \<Longrightarrow> D = ''0''"
    using show_nat_hd [of "nat \<bar>u\<bar>"] by (cases "u = 0") (simp_all add: D_def show_nat.simps)
  have sign: "sign_rat (u < 0) * of_nat (nat \<bar>u\<bar>) = of_int u"
    by (simp add: sign_rat_def of_nat_nat)
  consider (whole) "s = 0" | (inside) "0 < s" "s < length D" | (below) "0 < s" "length D \<le> s" by linarith
  then show ?thesis
  proof cases
    case whole
    then show ?thesis
      using spelled_whole [OF D(1,2), of "u < 0"] head sign D(3)
      by (simp add: exact_text_spelled D_def [symmetric] exact_meaning_def)
  next
    case inside
    let ?k = "length D - s"
    have "take ?k D \<noteq> []" "drop ?k D \<noteq> []" "length (drop ?k D) = s" "hd (take ?k D) = hd D"
      using inside by (cases D; auto simp: take_Cons')+
    moreover have "D \<noteq> ''0''" using inside by auto
    moreover have "list_all is_digit (take ?k D)" "list_all is_digit (drop ?k D)"
      using D(1) by (auto simp: list_all_iff dest: in_set_takeD in_set_dropD)
    ultimately show ?thesis
      using spelled_fraction [of "take ?k D" "drop ?k D" "u < 0"] head sign D(3) inside
      by (auto simp: exact_text_spelled D_def [symmetric] exact_meaning_def power_int_minus divide_inverse
          simp flip: mult.assoc)
  next
    case below
    let ?f = "replicate (s - length D) CHR ''0'' @ D"
    have "nat_of_text (''0'' @ ?f) = nat \<bar>u\<bar>"
      by (simp add: nat_of_text_append D(3) del: append_Cons append_Nil)
        (simp add: nat_of_text_def digit_val_def)
    moreover have "list_all is_digit ?f" using D(1) by (auto simp: list_all_iff is_digit_def)
    ultimately show ?thesis
      using spelled_fraction [of "''0''" ?f "u < 0"] sign below D(2)
      by (auto simp: exact_text_spelled D_def [symmetric] exact_meaning_def is_digit_def power_int_minus divide_inverse
          simp flip: mult.assoc)
  qed
qed

lemma exact_text_inject:
  assumes "normal_pair (u, s)" "normal_pair (v, t)"
  shows "exact_text u s = exact_text v t \<longleftrightarrow> exact_cmp u s v t = Equal"
  using assms exact_text_value [of u s] exact_text_value [of v t] normal_pair_inject [OF assms]
  by (auto simp: exact_cmp_value)

section \<open>What the doors carry\<close>

fun observed_ok :: "observed \<Rightarrow> bool" where
  "observed_ok (Exact units scale binary) \<longleftrightarrow> normal_pair (units, scale)"
| "observed_ok (Binary binary) \<longleftrightarrow> canonical_decimal binary = None"

lemma exact_of_decimal_text_normal: "exact_of_decimal_text t = Some (u, s) \<Longrightarrow> normal_pair (u, s)"
  using decimal_pair_value
  by (fastforce simp: exact_of_decimal_text_def Let_def bind_eq_Some_conv split: if_splits prod.splits)

lemma canonical_decimal_normal: "canonical_decimal b = Some (u, s) \<Longrightarrow> normal_pair (u, s)"
  by (auto simp: canonical_decimal_def normal_pair_def max_scale_def split: if_splits
      dest: exact_of_decimal_text_normal [unfolded normal_pair_def max_scale_def])

lemma of_binary64_ok: "observed_ok (of_binary64 b)"
  by (auto simp: of_binary64_def canonical_decimal_normal split: option.splits)

lemma exact_integer_ok: "observed_ok (exact_integer i)"
  by (simp add: exact_integer_def normal_pair_def max_scale_def)

lemma of_number_ok: "of_number n = Some x \<Longrightarrow> observed_ok x"
  by (auto simp: of_number_def exact_integer_ok of_binary64_ok bind_eq_Some_conv split: option.splits if_splits)

lemma of_literal_ok:
  assumes "of_literal t = Some x"
  shows "observed_ok x"
proof (cases "exact_of_decimal_text t")
  case None
  with assms show ?thesis by (auto simp: of_literal_def of_binary64_ok bind_eq_Some_conv split: if_splits)
next
  case (Some us)
  then show ?thesis
    using assms exact_of_decimal_text_normal [of t "fst us" "snd us"]
    by (cases us) (auto simp: of_literal_def of_binary64_ok bind_eq_Some_conv split: if_splits)
qed

text \<open>An integer token is carried as that integer, whatever a binary64 would make of it.\<close>

lemma as_i64_value:
  assumes ok: "number_ok n" and i: "as_i64 n = Some i"
  shows "number_value n = of_int i"
proof -
  obtain ds neg where n: "n = (if neg then ''-'' else []) @ ds" and ds: "is_digits ds"
    and i: "i = (if neg then - int (nat_of_text ds) else int (nat_of_text ds))"
  proof (cases n)
    case Nil
    with i show ?thesis by (simp add: as_i64_def parse_signed_def is_digits_def)
  next
    case (Cons c r)
    have "c \<noteq> CHR ''+''"
      using ok Cons by (auto simp: number_ok_def unsigned_text_def is_digits_def is_exponent_mark_def is_point_def
          split: prod.splits if_splits)
    with i Cons show ?thesis
      using that [of True r] that [of False n]
      by (auto simp: as_i64_def parse_signed_def Let_def split: if_splits)
  qed
  then show ?thesis
    using spelled_whole(2) [of ds neg] by (simp add: is_digits_def sign_rat_def)
qed

lemma of_number_integer:
  assumes "as_i64 n = Some i"
  shows "of_number n = Some (Exact i 0 (f64_of_int i))"
  using assms by (simp add: of_number_def exact_integer_def)

end
