(* ===== verification/Timestamp.thy ===== *)
theory Timestamp
  imports Decimals
begin

text \<open>
  \<open>entity-core/src/timestamp.rs\<close>: the reading of an ISO-8601 instant, in the subset the kernel orders.
  The fields are compared in declaration order, as \<open>derive(Ord)\<close> does.
\<close>

record timestamp =
  ts_year :: nat
  ts_month :: nat
  ts_day :: nat
  ts_hour :: nat
  ts_minute :: nat
  ts_second :: nat
  ts_nanosecond :: nat

definition timestamp_key :: "timestamp \<Rightarrow> nat \<times> nat \<times> nat \<times> nat \<times> nat \<times> nat \<times> nat" where
  "timestamp_key t = (ts_year t, ts_month t, ts_day t, ts_hour t, ts_minute t, ts_second t, ts_nanosecond t)"

definition timestamp_cmp :: "timestamp \<Rightarrow> timestamp \<Rightarrow> ordering" where
  "timestamp_cmp s t = cmp (timestamp_key s) (timestamp_key t)"

interpretation timestamp: comparison timestamp_cmp timestamp_key "\<lambda>_. True"
  by unfold_locales (simp add: timestamp_cmp_def)

definition days_in_month :: "nat \<Rightarrow> nat \<Rightarrow> nat" where
  "days_in_month year month =
     (if month \<in> {1, 3, 5, 7, 8, 10, 12} then 31
      else if month \<in> {4, 6, 9, 11} then 30
      else if month = 2 then
        (if year mod 400 = 0 \<or> (year mod 4 = 0 \<and> year mod 100 \<noteq> 0) then 29 else 28)
      else 0)"

text \<open>A fixed-width, all-digit field; every field this reads fits the integer type it is read as.\<close>

definition field_number :: "string \<Rightarrow> nat \<Rightarrow> nat option" where
  "field_number s width =
     (if length s \<noteq> width \<or> \<not> list_all is_digit s then None else Some (nat_of_text s))"

text \<open>\<open>value.find(chars)\<close>, the byte index of the first one.\<close>

fun find_index :: "(char \<Rightarrow> bool) \<Rightarrow> string \<Rightarrow> nat option" where
  "find_index p [] = None"
| "find_index p (c # s) = (if p c then Some 0 else map_option Suc (find_index p s))"

text \<open>\<open>rest.get(1..)\<close>, which is \<open>None\<close> past the end and inside a scalar.\<close>

definition get_from_1 :: "string \<Rightarrow> string option" where
  "get_from_1 s = (case s of
     [] \<Rightarrow> None
   | c # r \<Rightarrow> (case r of [] \<Rightarrow> Some [] | d # _ \<Rightarrow> if is_continuation d then None else Some r))"

definition strip_suffix_char :: "char \<Rightarrow> string \<Rightarrow> string option" where
  "strip_suffix_char c s = (if s \<noteq> [] \<and> last s = c then Some (butlast s) else None)"

definition parse_fraction :: "string option \<Rightarrow> nat option" where
  "parse_fraction fraction = (case fraction of
     None \<Rightarrow> Some 0
   | Some digits \<Rightarrow>
       if digits = [] \<or> length digits > 9 \<or> \<not> list_all is_digit digits then None
       else Some (nat_of_text digits * 10 ^ (9 - length digits)))"

text \<open>What precedes an offset-free clock: the \<open>Z\<close> is dropped, an explicit offset refused.\<close>

definition strip_zone :: "string \<Rightarrow> string option" where
  "strip_zone rest =
     (case (case strip_suffix_char CHR ''Z'' rest of Some n \<Rightarrow> Some n | None \<Rightarrow> strip_suffix_char CHR ''z'' rest) of
        Some naive \<Rightarrow> Some naive
      | None \<Rightarrow>
          if CHR ''+'' \<in> set rest then None
          else (case get_from_1 rest of
                  Some tail \<Rightarrow> if CHR ''-'' \<in> set tail then None else Some rest
                | None \<Rightarrow> Some rest))"

definition parse_date :: "string \<Rightarrow> (nat \<times> nat \<times> nat) option" where
  "parse_date date = (case split_all (\<lambda>c. c = CHR ''-'') date of
     [y, m, d] \<Rightarrow> do {
       year \<leftarrow> field_number y 4;
       month \<leftarrow> field_number m 2;
       day \<leftarrow> field_number d 2;
       (if month < 1 \<or> 12 < month \<or> day = 0 \<or> day > days_in_month year month then None
        else Some (year, month, day))
     }
   | _ \<Rightarrow> None)"

definition parse_clock :: "string \<Rightarrow> (nat \<times> nat \<times> nat \<times> nat) option" where
  "parse_clock rest =
     (let (clock, fraction) = split_first (\<lambda>c. c = CHR ''.'') rest
      in case split_all (\<lambda>c. c = CHR '':'') clock of
           [h, mi, s] \<Rightarrow> do {
             hour \<leftarrow> field_number h 2;
             minute \<leftarrow> field_number mi 2;
             second \<leftarrow> field_number s 2;
             (if hour > 23 \<or> minute > 59 \<or> second > 60 then None
              else do {
                nanosecond \<leftarrow> parse_fraction fraction;
                Some (hour, minute, second, nanosecond)
              })
           }
         | _ \<Rightarrow> None)"

definition timestamp_parse :: "string \<Rightarrow> timestamp option" where
  "timestamp_parse text =
     (let text = trim text;
          (date, rest) = (case find_index (\<lambda>c. c = CHR ''T'' \<or> c = CHR ''t'' \<or> c = CHR '' '') text of
              Some at' \<Rightarrow> if at' = 10 \<and> length text > 11 then (take at' text, Some (drop (at' + 1) text))
                         else (text, None)
            | None \<Rightarrow> (text, None))
      in do {
        (year, month, day) \<leftarrow> parse_date date;
        (case rest of
           None \<Rightarrow> Some \<lparr>ts_year = year, ts_month = month, ts_day = day,
                         ts_hour = 0, ts_minute = 0, ts_second = 0, ts_nanosecond = 0\<rparr>
         | Some rest \<Rightarrow> do {
             rest \<leftarrow> strip_zone rest;
             (hour, minute, second, nanosecond) \<leftarrow> parse_clock rest;
             Some \<lparr>ts_year = year, ts_month = month, ts_day = day,
                   ts_hour = hour, ts_minute = minute, ts_second = second, ts_nanosecond = nanosecond\<rparr>
           })
      })"

text \<open>\<open>entity_core::is_valid_timestamp\<close>.\<close>

definition is_valid_timestamp :: "string \<Rightarrow> bool" where
  "is_valid_timestamp text \<longleftrightarrow> timestamp_parse text \<noteq> None"

section \<open>What is read\<close>

definition timestamp_ok :: "timestamp \<Rightarrow> bool" where
  "timestamp_ok t \<longleftrightarrow> ts_year t < 10000 \<and> 1 \<le> ts_month t \<and> ts_month t \<le> 12
     \<and> 1 \<le> ts_day t \<and> ts_day t \<le> days_in_month (ts_year t) (ts_month t)
     \<and> ts_hour t \<le> 23 \<and> ts_minute t \<le> 59 \<and> ts_second t \<le> 60 \<and> ts_nanosecond t < 10 ^ 9"

text \<open>The full spelling of an instant, the reference the reader is checked against.\<close>

definition pad_number :: "nat \<Rightarrow> nat \<Rightarrow> string" where
  "pad_number width n = replicate (width - length (show_nat n)) CHR ''0'' @ show_nat n"

definition timestamp_text :: "timestamp \<Rightarrow> string" where
  "timestamp_text t =
     pad_number 4 (ts_year t) @ ''-'' @ pad_number 2 (ts_month t) @ ''-'' @ pad_number 2 (ts_day t) @ ''T''
     @ pad_number 2 (ts_hour t) @ '':'' @ pad_number 2 (ts_minute t) @ '':'' @ pad_number 2 (ts_second t)
     @ ''.'' @ pad_number 9 (ts_nanosecond t) @ ''Z''"

lemma field_number_Some: "field_number s w = Some n \<Longrightarrow> n < 10 ^ w"
  using nat_of_text_less [of s] by (auto simp: field_number_def split: if_splits)

lemma parse_fraction_less: "parse_fraction f = Some n \<Longrightarrow> n < 10 ^ 9"
proof (cases f)
  case (Some s)
  assume "parse_fraction f = Some n"
  with Some have s: "list_all is_digit s" "length s \<le> 9" "n = nat_of_text s * 10 ^ (9 - length s)"
    by (auto simp: parse_fraction_def split: if_splits)
  have "nat_of_text s * 10 ^ (9 - length s) < 10 ^ length s * 10 ^ (9 - length s)"
    using nat_of_text_less [OF s(1)] by (intro mult_strict_right_mono) auto
  also have "\<dots> = 10 ^ 9" using s(2) by (simp flip: power_add)
  finally show ?thesis by (simp add: s(3))
qed (simp add: parse_fraction_def)

lemma parse_date_ok:
  "parse_date d = Some (y, m, dd) \<Longrightarrow> y < 10000 \<and> 1 \<le> m \<and> m \<le> 12 \<and> 1 \<le> dd \<and> dd \<le> days_in_month y m"
  by (auto simp: parse_date_def bind_eq_Some_conv split: list.splits if_splits dest!: field_number_Some)

lemma parse_clock_ok:
  "parse_clock c = Some (h, m, s, n) \<Longrightarrow> h \<le> 23 \<and> m \<le> 59 \<and> s \<le> 60 \<and> n < 10 ^ 9"
  by (auto simp: parse_clock_def bind_eq_Some_conv split: prod.splits list.splits if_splits
      dest!: parse_fraction_less)

lemma timestamp_parse_sound: "timestamp_parse text = Some t \<Longrightarrow> timestamp_ok t"
  by (auto simp: timestamp_parse_def Let_def bind_eq_Some_conv timestamp_ok_def
      split: prod.splits option.splits if_splits dest!: parse_date_ok parse_clock_ok)

section \<open>Round trip\<close>

lemma pad_number:
  assumes "n < 10 ^ w" "0 < w"
  shows "length (pad_number w n) = w" "list_all is_digit (pad_number w n)" "nat_of_text (pad_number w n) = n"
  using show_nat_length [OF assms] show_nat_all_digits [of n]
  by (auto simp: pad_number_def nat_of_text_append list_all_iff is_digit_def)

lemma field_number_pad: "n < 10 ^ w \<Longrightarrow> 0 < w \<Longrightarrow> field_number (pad_number w n) w = Some n"
  using pad_number [of n w] by (simp add: field_number_def)

lemma digits_not: "list_all is_digit s \<Longrightarrow> \<not> is_digit x \<Longrightarrow> \<forall>c \<in> set s. \<not> (c = x)"
  by (auto simp: list_all_iff)

lemma find_index_append: "\<forall>c \<in> set s. \<not> p c \<Longrightarrow> find_index p (s @ t) = map_option ((+) (length s)) (find_index p t)"
  by (induction s) (cases "find_index p t", auto)+

lemma parse_date_text:
  assumes "y < 10000" "1 \<le> m" "m \<le> 12" "1 \<le> d" "d \<le> days_in_month y m"
  shows "parse_date (pad_number 4 y @ ''-'' @ pad_number 2 m @ ''-'' @ pad_number 2 d) = Some (y, m, d)"
proof -
  have d: "d < 100" using assms(5) by (simp add: days_in_month_def split: if_splits)
  have no: "\<forall>c \<in> set (pad_number w n). \<not> (c = CHR ''-'')" if "n < 10 ^ w" "0 < w" for w n
    using pad_number(2) [OF that] by (rule digits_not) simp
  have "split_all (\<lambda>c. c = CHR ''-'') (pad_number 4 y @ ''-'' @ pad_number 2 m @ ''-'' @ pad_number 2 d)
    = [pad_number 4 y, pad_number 2 m, pad_number 2 d]"
    using assms d no [of y 4] no [of m 2] no [of d 2] by (simp add: split_all_sep split_all_no_sep)
  then show ?thesis
    using assms d by (simp add: parse_date_def field_number_pad)
qed

lemma parse_clock_text:
  assumes "h \<le> 23" "m \<le> 59" "s \<le> 60" "n < 10 ^ 9"
  shows "parse_clock (pad_number 2 h @ '':'' @ pad_number 2 m @ '':'' @ pad_number 2 s @ ''.'' @ pad_number 9 n)
    = Some (h, m, s, n)"
proof -
  have no: "\<forall>c \<in> set (pad_number w k). \<not> (c = x)" if "k < 10 ^ w" "0 < w" "\<not> is_digit x" for w k x
    using pad_number(2) [OF that(1,2)] that(3) by (rule digits_not)
  let ?clock = "pad_number 2 h @ '':'' @ pad_number 2 m @ '':'' @ pad_number 2 s"
  have "\<forall>c \<in> set ?clock. \<not> (c = CHR ''.'')"
    using assms no [of h 2 "CHR ''.''"] no [of m 2 "CHR ''.''"] no [of s 2 "CHR ''.''"] by (simp add: ball_Un)
  then have fraction: "split_first (\<lambda>c. c = CHR ''.'') (?clock @ CHR ''.'' # pad_number 9 n) = (?clock, Some (pad_number 9 n))"
    by (rule split_first_once) simp
  have colon: "\<not> is_digit CHR '':''" by (simp add: is_digit_def)
  have "split_all (\<lambda>c. c = CHR '':'') ?clock = [pad_number 2 h, pad_number 2 m, pad_number 2 s]"
    using assms no [of h 2 "CHR '':''"] no [of m 2 "CHR '':''"] no [of s 2 "CHR '':''"] colon
    by (simp add: split_all_sep split_all_no_sep)
  moreover have "parse_fraction (Some (pad_number 9 n)) = Some n"
    using assms(4) pad_number [of n 9] by (auto simp: parse_fraction_def)
  ultimately show ?thesis
    using assms fraction by (simp add: parse_clock_def field_number_pad)
qed

lemma timestamp_parse_text:
  assumes ok: "timestamp_ok t"
  shows "timestamp_parse (timestamp_text t) = Some t"
proof -
  define date where "date = pad_number 4 (ts_year t) @ ''-'' @ pad_number 2 (ts_month t) @ ''-'' @ pad_number 2 (ts_day t)"
  define clock where "clock = pad_number 2 (ts_hour t) @ '':'' @ pad_number 2 (ts_minute t) @ '':'' @
    pad_number 2 (ts_second t) @ ''.'' @ pad_number 9 (ts_nanosecond t)"
  have spell: "timestamp_text t = date @ CHR ''T'' # (clock @ ''Z'')"
    by (simp add: timestamp_text_def date_def clock_def)
  have small: "ts_year t < 10 ^ 4" "ts_month t < 10 ^ 2" "ts_day t < 10 ^ 2" "ts_hour t < 10 ^ 2"
    "ts_minute t < 10 ^ 2" "ts_second t < 10 ^ 2" "ts_nanosecond t < 10 ^ 9"
    using ok by (auto simp: timestamp_ok_def days_in_month_def split: if_splits)
  have date_digits: "c = CHR ''-'' \<or> is_digit c" if "c \<in> set date" for c
    using that pad_number(2) [OF small(1)] pad_number(2) [OF small(2)] pad_number(2) [OF small(3)]
    by (auto simp: date_def list_all_iff)
  have len: "length date = 10"
    using pad_number(1) [OF small(1)] pad_number(1) [OF small(2)] pad_number(1) [OF small(3)] by (simp add: date_def)
  have clock_len: "0 < length clock" by (simp add: clock_def)
  have clock_digits: "c \<in> {CHR '':'', CHR ''.''} \<or> is_digit c" if "c \<in> set clock" for c
    using that pad_number(2) [OF small(4)] pad_number(2) [OF small(5)] pad_number(2) [OF small(6)]
      pad_number(2) [OF small(7)] by (auto simp: clock_def list_all_iff)
  have trim: "trim (timestamp_text t) = timestamp_text t"
  proof (rule trim_id)
    have "\<not> is_continuation c" if "c \<in> set (timestamp_text t)" for c
      using that date_digits [of c] clock_digits [of c] is_digit_not_continuation [of c]
      by (auto simp: spell is_continuation_def)
    then have ascii: "utf8_chars (timestamp_text t) = map (\<lambda>c. [c]) (timestamp_text t)"
      by (intro utf8_chars_ascii) blast
    then show "utf8_chars (timestamp_text t) \<noteq> []" by (simp add: spell)
    have "\<not> is_whitespace [hd date]"
      using date_digits [of "hd date"] len by (cases date) (auto simp: is_whitespace_def is_digit_def)
    moreover have "hd (timestamp_text t) = hd date" using len by (cases date) (simp_all add: spell)
    ultimately show "\<not> is_whitespace (hd (utf8_chars (timestamp_text t)))"
      unfolding ascii by (subst hd_map) (simp_all add: spell)
    show "\<not> is_whitespace (last (utf8_chars (timestamp_text t)))"
      unfolding ascii by (subst last_map) (simp_all add: spell is_whitespace_def)
  qed
  have "find_index (\<lambda>c. c = CHR ''T'' \<or> c = CHR ''t'' \<or> c = CHR '' '') (timestamp_text t) = Some 10"
  proof -
    have "\<forall>c \<in> set date. \<not> (c = CHR ''T'' \<or> c = CHR ''t'' \<or> c = CHR '' '')"
      using date_digits [of "CHR ''T''"] date_digits [of "CHR ''t''"] date_digits [of "CHR '' ''"]
      by (auto simp: is_digit_def)
    from find_index_append [OF this] show ?thesis by (simp add: spell len)
  qed
  moreover have "parse_date date = Some (ts_year t, ts_month t, ts_day t)"
    using ok parse_date_text by (simp add: timestamp_ok_def date_def)
  moreover have "strip_zone (clock @ ''Z'') = Some clock"
    by (simp add: strip_zone_def strip_suffix_char_def)
  moreover have "parse_clock clock = Some (ts_hour t, ts_minute t, ts_second t, ts_nanosecond t)"
    using ok parse_clock_text by (simp add: timestamp_ok_def clock_def)
  ultimately show ?thesis
    using clock_len len by (simp add: timestamp_parse_def trim [unfolded spell] spell)
qed

end
