(* ===== verification/Validation.thy ===== *)
theory Validation
  imports Errors Observed Timestamp
begin

text \<open>
  The value half of \<open>entity-core/src/validation.rs\<close>: filling in declared defaults and checking a value
  against its declaration. Findings are accumulated in the order the code pushes them; the set an
  alphabet is turned into is a cache of the code and is not state here.
\<close>

section \<open>Declarations\<close>

lemma size_fd_items: "fd_items f = Some g \<Longrightarrow> size g < size f"
  by (cases f) auto

lemma size_member:
  fixes fs :: "(string \<times> field_definition) list"
  shows "(n, g) \<in> set fs \<Longrightarrow> size g < size_list (size_prod (\<lambda>_. 0) size) fs"
  by (induction fs) auto

lemma size_fd_properties: "(n, g) \<in> set (fd_properties f) \<Longrightarrow> size g < size f"
  using size_member [of n g "fd_properties f"] by (cases f) auto

lemma size_fd_variants: "(n, g) \<in> set (fd_variants f) \<Longrightarrow> size g < size f"
  using size_member [of n g "fd_variants f"] by (cases f) auto

text \<open>The representation invariant of a declaration: its maps are ordered, its documents canonical.\<close>

function field_ok :: "field_definition \<Rightarrow> bool" where
  "field_ok f \<longleftrightarrow> sorted_keys (fd_properties f) \<and> sorted_keys (fd_variants f)
     \<and> (case fd_default f of DefaultAbsent \<Rightarrow> True | DefaultValue v \<Rightarrow> json_ok v)
     \<and> (case fd_min f of None \<Rightarrow> True | Some n \<Rightarrow> number_ok n) \<and> (case fd_max f of None \<Rightarrow> True | Some n \<Rightarrow> number_ok n)
     \<and> (case fd_items f of None \<Rightarrow> True | Some g \<Rightarrow> field_ok g)
     \<and> (\<forall>(n, g) \<in> set (fd_properties f). field_ok g) \<and> (\<forall>(n, g) \<in> set (fd_variants f). field_ok g)"
  by pat_completeness auto
termination
  by (relation "measure size") (auto simp: size_fd_items size_fd_properties size_fd_variants)

declare field_ok.simps [simp del]

definition schema_ok :: "object_schema \<Rightarrow> bool" where
  "schema_ok s \<longleftrightarrow> sorted_keys (os_fields s) \<and> (\<forall>(n, g) \<in> set (os_fields s). field_ok g)"

section \<open>Defaults\<close>

text \<open>One member: a missing one takes its declared default, a present one is filled at every depth.\<close>

definition default_step :: "(json \<Rightarrow> json) \<Rightarrow> string \<Rightarrow> declared_default \<Rightarrow> jmap \<Rightarrow> jmap" where
  "default_step nested name declared object =
     (let object = (if bt_contains object name then object
                    else case default_as_value declared of
                           Some d \<Rightarrow> bt_insert name d object
                         | None \<Rightarrow> object)
      in case bt_get object name of
           Some v \<Rightarrow> bt_insert name (nested v) object
         | None \<Rightarrow> object)"

definition member_defaults :: "(field_definition \<Rightarrow> json \<Rightarrow> json) \<Rightarrow> field_definition smap \<Rightarrow> jmap \<Rightarrow> jmap" where
  "member_defaults nested decls object =
     fold (\<lambda>(name, definition). default_step (nested definition) name (fd_default definition)) decls object"

lemma member_defaults_cong [fundef_cong]:
  assumes "decls = decls'" "object = object'" "\<And>n d v. (n, d) \<in> set decls' \<Longrightarrow> nested d v = nested' d v"
  shows "member_defaults nested decls object = member_defaults nested' decls' object'"
proof -
  have "nested d = nested' d" if "(n, d) \<in> set decls'" for n d using assms(3) [OF that] by auto
  then show ?thesis
    unfolding member_defaults_def assms(1,2) by (intro fold_cong) auto
qed

function apply_nested_defaults :: "field_definition \<Rightarrow> json \<Rightarrow> json" where
  "apply_nested_defaults f v = (case fd_kind f of
     KObject \<Rightarrow> (case v of
         JObject m \<Rightarrow> JObject (member_defaults apply_nested_defaults (fd_properties f) m)
       | _ \<Rightarrow> v)
   | KArray \<Rightarrow> (case (fd_items f, v) of
         (Some items, JArray xs) \<Rightarrow> JArray (map (apply_nested_defaults items) xs)
       | _ \<Rightarrow> v)
   | _ \<Rightarrow> v)"
  by pat_completeness auto
termination
  by (relation "measure (size \<circ> fst)") (auto simp: size_fd_items size_fd_properties)

declare apply_nested_defaults.simps [simp del]

definition apply_member_defaults :: "field_definition smap \<Rightarrow> jmap \<Rightarrow> jmap" where
  "apply_member_defaults = member_defaults apply_nested_defaults"

definition apply_defaults :: "object_schema \<Rightarrow> jmap \<Rightarrow> jmap" where
  "apply_defaults schema object = apply_member_defaults (os_fields schema) object"

section \<open>Checking a value\<close>

type_synonym findings = "validation_error list"

definition member_path :: "string \<Rightarrow> string \<Rightarrow> string" where
  "member_path base name = base @ ''.'' @ name"

definition index_path :: "string \<Rightarrow> nat \<Rightarrow> string" where
  "index_path base i = base @ ''['' @ show_nat i @ '']''"

definition wrong_type :: "string \<Rightarrow> string \<Rightarrow> findings" where
  "wrong_type path expected = [ve_new path (Msg ''expected {}'' [ArgText expected])]"

text \<open>\<open>value.chars().enumerate().find(..)\<close>.\<close>

fun first_outside :: "nat \<Rightarrow> string list \<Rightarrow> string list \<Rightarrow> (nat \<times> string) option" where
  "first_outside i members [] = None"
| "first_outside i members (c # cs) =
     (if c \<notin> set members then Some (i, c) else first_outside (i + 1) members cs)"

definition validate_string :: "field_definition \<Rightarrow> string \<Rightarrow> string \<Rightarrow> findings" where
  "validate_string f v path =
     (let len = length (utf8_chars v) in
      (case fd_min_length f of
         Some m \<Rightarrow> if len < m
           then [ve_new path (Msg ''length {} is below minimum {}'' [ArgNat len, ArgNat m])] else []
       | None \<Rightarrow> []) @
      (case fd_max_length f of
         Some m \<Rightarrow> if len > m
           then [ve_new path (Msg ''length {} exceeds maximum {}'' [ArgNat len, ArgNat m])] else []
       | None \<Rightarrow> []) @
      (case fd_alphabet f of
         Some alphabet \<Rightarrow>
           (case first_outside 0 (utf8_chars alphabet) (utf8_chars v) of
              Some (i, c) \<Rightarrow> [ve_new path (Msg ''character {:?} (U+{:04X}) at position {} is not in the alphabet''
                  [ArgText c, ArgText c, ArgNat (i + 1)])]
            | None \<Rightarrow> [])
       | None \<Rightarrow> []))"

definition validate_bound :: "observed \<Rightarrow> number \<Rightarrow> string \<Rightarrow> number option \<times> bool \<times> string \<Rightarrow> findings" where
  "validate_bound observed v path entry =
     (let (bound, exceeded, detail) = entry in
      case bound of
        None \<Rightarrow> []
      | Some bound \<Rightarrow>
          (case of_literal bound of
             None \<Rightarrow> [ve_new path (Msg ''bound {} is outside the source observation domain'' [ArgText bound])]
           | Some limit \<Rightarrow>
               (let order = observed_cmp observed limit
                in if exceeded \<and> is_lt order \<or> \<not> exceeded \<and> is_gt order
                   then [ve_new path (Msg (''value {} '' @ detail @ '' {}'') [ArgText v, ArgText bound])] else [])))"

definition validate_number :: "field_definition \<Rightarrow> number \<Rightarrow> string \<Rightarrow> semantics \<Rightarrow> findings" where
  "validate_number f v path semantics =
     (if has_service_semantics semantics then
        (case of_number v of
           None \<Rightarrow> [ve_new path (Msg ''value {} is outside the source observation domain'' [ArgText v])]
         | Some observed \<Rightarrow>
             concat (map (validate_bound observed v path)
               [(fd_min f, True, ''is below minimum''), (fd_max f, False, ''exceeds maximum'')]))
      else
        (case fd_min f of
           Some m \<Rightarrow> if is_lt (number_compare v m)
             then [ve_new path (Msg ''value {} is below minimum {}'' [ArgText v, ArgText m])] else []
         | None \<Rightarrow> []) @
        (case fd_max f of
           Some m \<Rightarrow> if is_gt (number_compare v m)
             then [ve_new path (Msg ''value {} exceeds maximum {}'' [ArgText v, ArgText m])] else []
         | None \<Rightarrow> []))"

subsection \<open>Map keys\<close>

fun duration_bytes :: "string \<Rightarrow> bool \<Rightarrow> bool \<Rightarrow> bool" where
  "duration_bytes [] digits component \<longleftrightarrow> component \<and> \<not> digits"
| "duration_bytes (c # cs) digits component \<longleftrightarrow>
     (if is_digit c \<or> c = CHR ''.'' then duration_bytes cs True component
      else if c = CHR ''T'' then duration_bytes cs False component
      else if c \<in> set ''YMWDHS'' then digits \<and> duration_bytes cs False True
      else False)"

definition is_duration :: "string \<Rightarrow> bool" where
  "is_duration s = (case (case strip_prefix ''P'' s of Some r \<Rightarrow> Some r | None \<Rightarrow> strip_prefix ''-P'' s) of
     None \<Rightarrow> False
   | Some rest \<Rightarrow> rest \<noteq> [] \<and> rest \<noteq> ''T'' \<and> duration_bytes rest False False)"

definition is_hexdigit :: "char \<Rightarrow> bool" where
  "is_hexdigit c \<longleftrightarrow> is_digit c \<or> c \<in> set ''abcdefABCDEF''"

definition is_uuid :: "string \<Rightarrow> bool" where
  "is_uuid s = (let groups = split_all (\<lambda>c. c = CHR ''-'') s in
     length groups = 5 \<and>
     list_all (\<lambda>(width, group). length group = width \<and> list_all is_hexdigit group)
       (zip [8, 4, 4, 4, 12] groups))"

definition is_alphanumeric :: "char \<Rightarrow> bool" where
  "is_alphanumeric c \<longleftrightarrow> is_digit c \<or> ((65::nat) \<le> of_char c \<and> (of_char c :: nat) \<le> 90)
     \<or> ((97::nat) \<le> of_char c \<and> (of_char c :: nat) \<le> 122)"

definition is_padded_base64 :: "string \<Rightarrow> bool" where
  "is_padded_base64 s =
     (if s = [] \<or> length s mod 4 \<noteq> 0 then False
      else (let body = rev (dropWhile (\<lambda>c. c = CHR ''='') (rev s))
            in length s - length body \<le> 2
               \<and> list_all (\<lambda>c. is_alphanumeric c \<or> c = CHR ''+'' \<or> c = CHR ''/'') body))"

definition instant_forms :: string where
  "instant_forms = ''`YYYY-MM-DD` or `YYYY-MM-DDTHH:MM:SS[.fff][Z]`, where a space may stand in for the `T` and an explicit offset is not read''"

definition check_text :: "bool \<Rightarrow> message \<Rightarrow> (message, unit) result" where
  "check_text ok m = (if ok then Ok () else Err m)"

definition validate_map_key :: "map_key \<Rightarrow> string \<Rightarrow> (message, unit) result" where
  "validate_map_key key s = (case key of
     KeyString \<Rightarrow> Ok ()
   | KeyBoolean \<Rightarrow> check_text (s = ''false'' \<or> s = ''true'') (plain ''expected `false` or `true`'')
   | KeyInteger \<Rightarrow> check_text (parse_signed 64 s \<noteq> None) (plain ''expected decimal integer text'')
   | KeyDecimal \<Rightarrow> check_text (of_literal s \<noteq> None) (plain ''expected exact decimal text'')
   | KeyTimestamp \<Rightarrow> check_text (timestamp_parse s \<noteq> None) (Msg ''expected an instant written {}'' [ArgText instant_forms])
   | KeyDuration \<Rightarrow> check_text (is_duration s) (plain ''expected an ISO-8601 duration'')
   | KeyUuid \<Rightarrow> check_text (is_uuid s) (plain ''expected a canonical hyphenated UUID'')
   | KeyBytes \<Rightarrow> check_text (is_padded_base64 s) (plain ''expected padded base64''))"

subsection \<open>Values\<close>

text \<open>The membership check of a schema and of a nested object, over the check of one member.\<close>

definition check_members :: "(field_definition \<Rightarrow> json \<Rightarrow> string \<Rightarrow> findings) \<Rightarrow> field_definition smap \<Rightarrow> bool
    \<Rightarrow> jmap \<Rightarrow> string \<Rightarrow> string \<Rightarrow> findings" where
  "check_members check decls additional object base noun =
     concat (map (\<lambda>(name, f). case bt_get object name of
         Some v \<Rightarrow> check f v (member_path base name)
       | None \<Rightarrow> if fd_required f
           then [ve_new (member_path base name) (Msg ''required {} is missing'' [ArgText noun])] else []) decls)
     @ (if additional then []
        else concat (map (\<lambda>name. if bt_contains decls name then []
            else [ve_new (member_path base name) (Msg ''{} is not declared in the schema'' [ArgText noun])])
          (bt_keys object)))"

lemma check_members_cong [fundef_cong]:
  assumes "decls = decls'" "additional = additional'" "object = object'" "base = base'" "noun = noun'"
    and "\<And>n f v p. (n, f) \<in> set decls' \<Longrightarrow> check f v p = check' f v p"
  shows "check_members check decls additional object base noun
    = check_members check' decls' additional' object' base' noun'"
  unfolding check_members_def assms(1-5)
  by (intro arg_cong2 [where f = append] arg_cong [where f = concat] map_cong refl)
    (auto simp: assms(6) split: option.splits)

definition check_entries :: "(json \<Rightarrow> string \<Rightarrow> findings) option \<Rightarrow> map_key \<Rightarrow> jmap \<Rightarrow> string \<Rightarrow> findings" where
  "check_entries check key members path =
     concat (map (\<lambda>(name, member).
       (case validate_map_key key name of
          Err detail \<Rightarrow> [ve_new (member_path path name)
            (case detail of Msg t args \<Rightarrow> Msg (''key is not {} text: '' @ t) (ArgText (map_key_as_str key) # args))]
        | Ok _ \<Rightarrow> []) @
       (case check of Some c \<Rightarrow> c member (member_path path name) | None \<Rightarrow> [])) members)"

definition content_key :: "field_definition \<Rightarrow> string" where
  "content_key f = (if fd_tag f = Some ''value'' then ''content'' else ''value'')"

definition tag_key :: "field_definition \<Rightarrow> string" where
  "tag_key f = (case fd_tag f of Some t \<Rightarrow> t | None \<Rightarrow> ''kind'')"

definition check_union :: "(field_definition \<Rightarrow> json \<Rightarrow> string \<Rightarrow> findings) \<Rightarrow> field_definition \<Rightarrow> json \<Rightarrow> string \<Rightarrow> findings" where
  "check_union check f v path = (case as_object v of
     None \<Rightarrow> wrong_type path ''union object''
   | Some members \<Rightarrow>
       (case bt_get members (tag_key f) of
          Some (JString label) \<Rightarrow>
            (case bt_get (fd_variants f) label of
               None \<Rightarrow> [ve_new path (Msg ''{} is not one of [{}]'' (ArgText label # map ArgText (bt_keys (fd_variants f))))]
             | Some variant \<Rightarrow>
                 concat (map (\<lambda>name. if name \<noteq> tag_key f \<and> name \<noteq> content_key f
                     then [ve_new (member_path path name) (Msg ''a union carries only {} and {}''
                       [ArgText (tag_key f), ArgText (content_key f)])] else []) (bt_keys members))
                 @ (case bt_get members (content_key f) of
                      Some payload \<Rightarrow> check variant payload (member_path path (content_key f))
                    | None \<Rightarrow> if fd_required variant
                        then [ve_new (member_path path (content_key f)) (Msg ''variant {} carries a payload'' [ArgText label])]
                        else []))
        | _ \<Rightarrow> [ve_new path (Msg ''union carries its variant label as text under {}'' [ArgText (tag_key f)])]))"

lemma check_union_cong [fundef_cong]:
  assumes "f = f'" "v = v'" "path = path'" "\<And>n g v p. (n, g) \<in> set (fd_variants f') \<Longrightarrow> check g v p = check' g v p"
  shows "check_union check f v path = check_union check' f' v' path'"
proof -
  have "check g v p = check' g v p" if "map_of (fd_variants f') l = Some g" for l g v p
    using assms(4) [OF map_of_SomeD [OF that]] .
  then show ?thesis
    unfolding check_union_def assms(1-3) by (auto split: option.splits json.splits)
qed

function validate_value :: "semantics \<Rightarrow> field_definition \<Rightarrow> json \<Rightarrow> string \<Rightarrow> findings" where
  "validate_value semantics f v path = (case fd_kind f of
     KString \<Rightarrow> (case as_str v of Some s \<Rightarrow> validate_string f s path | None \<Rightarrow> wrong_type path ''string'')
   | KInteger \<Rightarrow> (case as_number v of
         None \<Rightarrow> wrong_type path ''integer''
       | Some n \<Rightarrow>
           if has_service_semantics semantics then
             (if as_i64 n \<noteq> None then validate_number f n path semantics
              else if as_u64 n \<noteq> None
              then [ve_new path (Msg ''value {} is outside the source integer range [{}, {}]''
                [ArgText n, ArgText (show_int (- (2 ^ 63))), ArgText (show_int (2 ^ 63 - 1))])]
              else wrong_type path ''integer'')
           else if as_i64 n \<noteq> None \<or> as_u64 n \<noteq> None then validate_number f n path semantics
           else wrong_type path ''integer'')
   | KNumber \<Rightarrow> (case as_number v of Some n \<Rightarrow> validate_number f n path semantics | None \<Rightarrow> wrong_type path ''number'')
   | KBinary64 \<Rightarrow> (case as_number v of Some n \<Rightarrow> validate_number f n path semantics
       | None \<Rightarrow> wrong_type path ''binary64 number'')
   | KMap \<Rightarrow> (case as_object v of
         Some members \<Rightarrow>
           let key = (case fd_key f of Some k \<Rightarrow> k | None \<Rightarrow> KeyString) in
           (case fd_items f of
              Some items \<Rightarrow> check_entries (Some (\<lambda>w p. validate_value semantics items w p)) key members path
            | None \<Rightarrow> check_entries None key members path)
       | None \<Rightarrow> wrong_type path ''map object'')
   | KUnion \<Rightarrow> check_union (\<lambda>g w p. validate_value semantics g w p) f v path
   | KBoolean \<Rightarrow> (case as_bool v of Some _ \<Rightarrow> [] | None \<Rightarrow> wrong_type path ''boolean'')
   | KEnum \<Rightarrow> (case as_str v of
         Some s \<Rightarrow> if s \<in> set (fd_values f) then []
           else [ve_new path (Msg ''{} is not one of [{}]'' (ArgText s # map ArgText (fd_values f)))]
       | None \<Rightarrow> wrong_type path ''enum string'')
   | KArray \<Rightarrow> (case as_array v of
         Some xs \<Rightarrow> (case fd_items f of
             Some items \<Rightarrow> concat (map (\<lambda>(i, w). validate_value semantics items w (index_path path i)) (enumerate 0 xs))
           | None \<Rightarrow> [])
       | None \<Rightarrow> wrong_type path ''array'')
   | KObject \<Rightarrow> (case as_object v of
         Some m \<Rightarrow> check_members (\<lambda>g w p. validate_value semantics g w p) (fd_properties f)
           (fd_additional_properties f) m path ''property''
       | None \<Rightarrow> wrong_type path ''object'')
   | KJson \<Rightarrow> []
   | KRef \<Rightarrow> (case as_str v of
         Some s \<Rightarrow> if is_blank s then [ve_new path (plain ''a reference is not empty or whitespace'')] else []
       | None \<Rightarrow> wrong_type path ''ref''))"
  by pat_completeness auto
termination
  by (relation "measure (\<lambda>(_, f, _). size f)") (auto simp: size_fd_items size_fd_properties size_fd_variants)

declare validate_value.simps [simp del]

definition validate_field_value :: "field_definition \<Rightarrow> json \<Rightarrow> string \<Rightarrow> semantics \<Rightarrow> findings" where
  "validate_field_value f v path semantics = validate_value semantics f v path"

definition validate_members :: "field_definition smap \<Rightarrow> bool \<Rightarrow> jmap \<Rightarrow> string \<Rightarrow> string \<Rightarrow> semantics \<Rightarrow> findings" where
  "validate_members decls additional object base noun semantics =
     check_members (validate_value semantics) decls additional object base noun"

definition validate_object_under :: "object_schema \<Rightarrow> jmap \<Rightarrow> string \<Rightarrow> semantics \<Rightarrow> findings" where
  "validate_object_under schema object base semantics =
     validate_members (os_fields schema) (os_additional_fields schema) object base ''field'' semantics"

definition validate_object :: "object_schema \<Rightarrow> jmap \<Rightarrow> string \<Rightarrow> findings" where
  "validate_object schema object base = validate_object_under schema object base Kernel1"

end
