(* ===== verification/Conformance.thy ===== *)
theory Conformance
  imports Validation
begin

text \<open>
  What a declaration promises of a value, written without the order or the wording of the findings, and
  the proof that \<open>validate_value\<close> of \<open>entity-core/src/validation.rs\<close> decides it. The facts
  about defaults are here too: filling them in keeps a document canonical and is idempotent.
\<close>

section \<open>The specification of a conforming value\<close>

text \<open>What a declaration says of a value, with the numbers read as rationals under \<open>kernel/1\<close>.\<close>

definition text_conforms :: "field_definition \<Rightarrow> string \<Rightarrow> bool" where
  "text_conforms f s \<longleftrightarrow>
     (\<forall>m. fd_min_length f = Some m \<longrightarrow> m \<le> length (utf8_chars s))
   \<and> (\<forall>m. fd_max_length f = Some m \<longrightarrow> length (utf8_chars s) \<le> m)
   \<and> (\<forall>alphabet. fd_alphabet f = Some alphabet \<longrightarrow> set (utf8_chars s) \<subseteq> set (utf8_chars alphabet))"

definition number_conforms :: "semantics \<Rightarrow> field_definition \<Rightarrow> number \<Rightarrow> bool" where
  "number_conforms semantics f n \<longleftrightarrow>
     (if has_service_semantics semantics then
        (\<exists>x. of_number n = Some x
           \<and> (\<forall>m. fd_min f = Some m \<longrightarrow> (\<exists>y. of_literal m = Some y \<and> observed_cmp x y \<noteq> Less))
           \<and> (\<forall>m. fd_max f = Some m \<longrightarrow> (\<exists>y. of_literal m = Some y \<and> observed_cmp x y \<noteq> Greater)))
      else
        (\<forall>m. fd_min f = Some m \<longrightarrow> number_value m \<le> number_value n)
      \<and> (\<forall>m. fd_max f = Some m \<longrightarrow> number_value n \<le> number_value m))"

definition key_conforms :: "map_key \<Rightarrow> string \<Rightarrow> bool" where
  "key_conforms key s \<longleftrightarrow> validate_map_key key s = Ok ()"

definition members_conform :: "(field_definition \<Rightarrow> json \<Rightarrow> bool) \<Rightarrow> field_definition smap \<Rightarrow> bool \<Rightarrow> jmap \<Rightarrow> bool" where
  "members_conform ok decls additional m \<longleftrightarrow>
     (\<forall>(n, g) \<in> set decls. case map_of m n of Some w \<Rightarrow> ok g w | None \<Rightarrow> \<not> fd_required g)
   \<and> (additional \<or> fst ` set m \<subseteq> fst ` set decls)"

lemma members_conform_cong [fundef_cong]:
  assumes "decls = decls'" "additional = additional'" "m = m'" "\<And>n g w. (n, g) \<in> set decls' \<Longrightarrow> ok g w = ok' g w"
  shows "members_conform ok decls additional m = members_conform ok' decls' additional' m'"
  using assms unfolding members_conform_def by (auto split: option.splits)

definition union_conforms :: "(field_definition \<Rightarrow> json \<Rightarrow> bool) \<Rightarrow> field_definition \<Rightarrow> jmap \<Rightarrow> bool" where
  "union_conforms ok f m = (case map_of m (tag_key f) of
     Some (JString label) \<Rightarrow> (case map_of (fd_variants f) label of
         Some variant \<Rightarrow> fst ` set m \<subseteq> {tag_key f, content_key f}
           \<and> (case map_of m (content_key f) of Some w \<Rightarrow> ok variant w | None \<Rightarrow> \<not> fd_required variant)
       | None \<Rightarrow> False)
   | _ \<Rightarrow> False)"

lemma union_conforms_cong [fundef_cong]:
  assumes "f = f'" "m = m'" "\<And>n g w. (n, g) \<in> set (fd_variants f') \<Longrightarrow> ok g w = ok' g w"
  shows "union_conforms ok f m = union_conforms ok' f' m'"
proof -
  have "ok v w = ok' v w" if "map_of (fd_variants f') l = Some v" for l v w
    using assms(3) [OF map_of_SomeD [OF that]] .
  then show ?thesis
    unfolding union_conforms_def assms(1,2) by (auto split: option.splits json.splits)
qed

function conforms :: "semantics \<Rightarrow> field_definition \<Rightarrow> json \<Rightarrow> bool" where
  "conforms semantics f v = (case (fd_kind f, v) of
     (KString, JString s) \<Rightarrow> text_conforms f s
   | (KInteger, JNumber n) \<Rightarrow> (as_i64 n \<noteq> None \<or> \<not> has_service_semantics semantics \<and> as_u64 n \<noteq> None)
       \<and> number_conforms semantics f n
   | (KNumber, JNumber n) \<Rightarrow> number_conforms semantics f n
   | (KBinary64, JNumber n) \<Rightarrow> number_conforms semantics f n
   | (KBoolean, JBool b) \<Rightarrow> True
   | (KEnum, JString s) \<Rightarrow> s \<in> set (fd_values f)
   | (KRef, JString s) \<Rightarrow> \<not> is_blank s
   | (KJson, _) \<Rightarrow> True
   | (KArray, JArray xs) \<Rightarrow> (case fd_items f of Some g \<Rightarrow> \<forall>w \<in> set xs. conforms semantics g w | None \<Rightarrow> True)
   | (KMap, JObject m) \<Rightarrow> (\<forall>n \<in> fst ` set m. key_conforms (case fd_key f of Some k \<Rightarrow> k | None \<Rightarrow> KeyString) n)
       \<and> (case fd_items f of Some g \<Rightarrow> \<forall>w \<in> snd ` set m. conforms semantics g w | None \<Rightarrow> True)
   | (KObject, JObject m) \<Rightarrow>
       members_conform (\<lambda>g w. conforms semantics g w) (fd_properties f) (fd_additional_properties f) m
   | (KUnion, JObject m) \<Rightarrow> union_conforms (\<lambda>g w. conforms semantics g w) f m
   | _ \<Rightarrow> False)"
  by pat_completeness auto
termination
  by (relation "measure (\<lambda>(_, f, _). size f)") (auto simp: size_fd_items size_fd_properties size_fd_variants)

declare conforms.simps [simp del]

subsection \<open>The check decides the specification\<close>

lemma first_outside_None: "first_outside i members cs = None \<longleftrightarrow> set cs \<subseteq> set members"
  by (induction cs arbitrary: i) auto

lemma case_first_outside_Nil:
  "(case first_outside i members cs of None \<Rightarrow> [] | Some (i, c) \<Rightarrow> [g i c]) = [] \<longleftrightarrow> set cs \<subseteq> set members"
  using first_outside_None [of i members cs] by (auto split: option.split)

lemma validate_string_Nil: "validate_string f s p = [] \<longleftrightarrow> text_conforms f s"
  unfolding validate_string_def text_conforms_def Let_def append_is_Nil_conv
  by (intro conj_cong) (auto simp: case_first_outside_Nil split: option.split)

lemma ordering_not_Less: "\<not> is_lt x \<longleftrightarrow> x \<noteq> Less" "\<not> is_gt x \<longleftrightarrow> x \<noteq> Greater"
  by (simp_all add: ordering_defs)

lemma validate_bound_Nil:
  "validate_bound x v p (b, True, d) = [] \<longleftrightarrow>
     (\<forall>m. b = Some m \<longrightarrow> (\<exists>y. of_literal m = Some y \<and> observed_cmp x y \<noteq> Less))"
  "validate_bound x v p (b, False, d) = [] \<longleftrightarrow>
     (\<forall>m. b = Some m \<longrightarrow> (\<exists>y. of_literal m = Some y \<and> observed_cmp x y \<noteq> Greater))"
  by (auto simp: validate_bound_def Let_def ordering_defs split: option.splits)

lemma validate_number_Nil:
  assumes f: "field_ok f" and n: "number_ok n"
  shows "validate_number f n p s = [] \<longleftrightarrow> number_conforms s f n"
proof (cases "has_service_semantics s")
  case True
  then show ?thesis
    by (auto simp: validate_number_def number_conforms_def validate_bound_Nil split: option.splits)
next
  case False
  have "number_ok m" if "fd_min f = Some m \<or> fd_max f = Some m" for m
    using f that by (subst (asm) field_ok.simps) auto
  with False n show ?thesis
    by (auto simp: validate_number_def number_conforms_def number.compare_meaning ordering_defs
        split: option.splits)
qed

lemma check_members_Nil:
  assumes "\<And>n g w p. (n, g) \<in> set decls \<Longrightarrow> map_of m n = Some w \<Longrightarrow> check g w p = [] \<longleftrightarrow> ok g w"
  shows "check_members check decls additional m base noun = [] \<longleftrightarrow> members_conform ok decls additional m"
proof -
  have "concat (map (\<lambda>(name, f). case bt_get m name of
         Some v \<Rightarrow> check f v (member_path base name)
       | None \<Rightarrow> if fd_required f
           then [ve_new (member_path base name) (Msg ''required {} is missing'' [ArgText noun])] else []) decls) = []
    \<longleftrightarrow> (\<forall>(n, g) \<in> set decls. case map_of m n of Some w \<Rightarrow> ok g w | None \<Rightarrow> \<not> fd_required g)"
    using assms by (fastforce split: option.splits if_splits)
  moreover have "concat (map (\<lambda>name. if bt_contains decls name then []
            else [ve_new (member_path base name) (Msg ''{} is not declared in the schema'' [ArgText noun])])
          (bt_keys m)) = [] \<longleftrightarrow> fst ` set m \<subseteq> fst ` set decls"
    by (auto simp: bt_keys_def bt_contains_iff)
  ultimately show ?thesis by (simp add: check_members_def members_conform_def)
qed

lemma check_entries_Nil:
  assumes "\<And>w p. w \<in> snd ` set m \<Longrightarrow> check w p = [] \<longleftrightarrow> ok w"
  shows "check_entries (Some check) key m path = [] \<longleftrightarrow>
      (\<forall>n \<in> fst ` set m. key_conforms key n) \<and> (\<forall>w \<in> snd ` set m. ok w)"
    and "check_entries None key m path = [] \<longleftrightarrow> (\<forall>n \<in> fst ` set m. key_conforms key n)"
  using assms by (fastforce simp: check_entries_def key_conforms_def split: sum.splits)+

lemma check_union_Nil:
  assumes "\<And>n g w p. (n, g) \<in> set (fd_variants f) \<Longrightarrow> map_of m (content_key f) = Some w \<Longrightarrow> check g w p = [] \<longleftrightarrow> ok g w"
  shows "check_union check f (JObject m) path = [] \<longleftrightarrow> union_conforms ok f m"
proof -
  have keys: "concat (map (\<lambda>name. if name \<noteq> tag_key f \<and> name \<noteq> content_key f
                     then [ve_new (member_path path name) (Msg ''a union carries only {} and {}''
                       [ArgText (tag_key f), ArgText (content_key f)])] else []) (bt_keys m)) = []
    \<longleftrightarrow> fst ` set m \<subseteq> {tag_key f, content_key f}"
    by (auto simp: bt_keys_def)
  have payload: "check g w p = [] \<longleftrightarrow> ok g w"
    if "map_of (fd_variants f) l = Some g" "map_of m (content_key f) = Some w" for l g w p
    using assms [OF map_of_SomeD [OF that(1)] that(2)] .
  show ?thesis
  proof (cases "\<exists>label g. map_of m (tag_key f) = Some (JString label) \<and> map_of (fd_variants f) label = Some g")
    case True
    then obtain label g where "map_of m (tag_key f) = Some (JString label)" "map_of (fd_variants f) label = Some g"
      by blast
    then show ?thesis
      using keys by (simp add: check_union_def union_conforms_def payload split: option.split)
  next
    case False
    then show ?thesis
      by (auto simp: check_union_def union_conforms_def split: option.splits json.splits)
  qed
qed

lemmas conformance = validate_string_Nil validate_number_Nil wrong_type_def text_conforms_def

lemma conforms_kind:
  "fd_kind f = KString \<Longrightarrow> conforms s f v \<longleftrightarrow> (\<exists>t. v = JString t \<and> text_conforms f t)"
  "fd_kind f = KNumber \<Longrightarrow> conforms s f v \<longleftrightarrow> (\<exists>n. v = JNumber n \<and> number_conforms s f n)"
  "fd_kind f = KBinary64 \<Longrightarrow> conforms s f v \<longleftrightarrow> (\<exists>n. v = JNumber n \<and> number_conforms s f n)"
  "fd_kind f = KInteger \<Longrightarrow> conforms s f v \<longleftrightarrow> (\<exists>n. v = JNumber n \<and>
     (as_i64 n \<noteq> None \<or> \<not> has_service_semantics s \<and> as_u64 n \<noteq> None) \<and> number_conforms s f n)"
  "fd_kind f = KBoolean \<Longrightarrow> conforms s f v \<longleftrightarrow> (\<exists>b. v = JBool b)"
  "fd_kind f = KEnum \<Longrightarrow> conforms s f v \<longleftrightarrow> (\<exists>t. v = JString t \<and> t \<in> set (fd_values f))"
  "fd_kind f = KRef \<Longrightarrow> conforms s f v \<longleftrightarrow> (\<exists>t. v = JString t \<and> \<not> is_blank t)"
  "fd_kind f = KJson \<Longrightarrow> conforms s f v"
  "fd_kind f = KArray \<Longrightarrow> conforms s f v \<longleftrightarrow> (\<exists>xs. v = JArray xs \<and>
     (\<forall>g. fd_items f = Some g \<longrightarrow> (\<forall>w \<in> set xs. conforms s g w)))"
  "fd_kind f = KMap \<Longrightarrow> conforms s f v \<longleftrightarrow> (\<exists>m. v = JObject m \<and>
     (\<forall>n \<in> fst ` set m. key_conforms (case fd_key f of Some k \<Rightarrow> k | None \<Rightarrow> KeyString) n) \<and>
     (\<forall>g. fd_items f = Some g \<longrightarrow> (\<forall>w \<in> snd ` set m. conforms s g w)))"
  "fd_kind f = KObject \<Longrightarrow> conforms s f v \<longleftrightarrow> (\<exists>m. v = JObject m \<and>
     members_conform (conforms s) (fd_properties f) (fd_additional_properties f) m)"
  "fd_kind f = KUnion \<Longrightarrow> conforms s f v \<longleftrightarrow> (\<exists>m. v = JObject m \<and> union_conforms (conforms s) f m)"
  by (subst conforms.simps, cases v; auto split: option.splits)+

lemma concat_enumerate_Nil:
  "concat (map (\<lambda>(i, w). g w (h i)) (enumerate k xs)) = [] \<longleftrightarrow> (\<forall>i < length xs. g (xs ! i) (h (k + i)) = [])"
proof (induction xs arbitrary: k)
  case (Cons x xs)
  have "(\<forall>i < length (x # xs). g ((x # xs) ! i) (h (k + i)) = [])
    \<longleftrightarrow> g x (h k) = [] \<and> (\<forall>i < length xs. g (xs ! i) (h (Suc k + i)) = [])"
    by (simp add: All_less_Suc2)
  with Cons [of "Suc k"] show ?case by simp
qed simp

lemma json_ok_JObjectD: "json_ok (JObject m) \<Longrightarrow> map_of m n = Some w \<Longrightarrow> json_ok w"
  using jmap_ok_get [of m n w] by (simp add: jmap_ok_def)

lemma validate_value_Nil:
  "field_ok f \<Longrightarrow> json_ok v \<Longrightarrow> validate_value s f v p = [] \<longleftrightarrow> conforms s f v"
proof (induction f arbitrary: v p rule: measure_induct_rule [where f = size])
  case (less f)
  have parts: "field_ok g" if "fd_items f = Some g \<or> (\<exists>n. (n, g) \<in> set (fd_properties f)) \<or> (\<exists>n. (n, g) \<in> set (fd_variants f))" for g
    using less.prems(1) that by (subst (asm) field_ok.simps) auto
  have items: "validate_value s g w q = [] \<longleftrightarrow> conforms s g w" if "fd_items f = Some g" "json_ok w" for g w q
    using less.IH [OF size_fd_items [OF that(1)]] parts that by blast
  have props: "validate_value s g w q = [] \<longleftrightarrow> conforms s g w" if "(n, g) \<in> set (fd_properties f)" "json_ok w" for n g w q
    using less.IH [OF size_fd_properties [OF that(1)]] parts that by blast
  have vars: "validate_value s g w q = [] \<longleftrightarrow> conforms s g w" if "(n, g) \<in> set (fd_variants f)" "json_ok w" for n g w q
    using less.IH [OF size_fd_variants [OF that(1)]] parts that by blast
  note num = validate_number_Nil [OF less.prems(1)]
  show ?case
  proof (cases "fd_kind f")
    case KArray
    show ?thesis
    proof (cases v)
      case (JArray xs)
      then have ok: "json_ok (xs ! i)" if "i < length xs" for i using less.prems(2) that by auto
      have "concat (map (\<lambda>(i, w). validate_value s g w (index_path p i)) (enumerate 0 xs)) = []
          \<longleftrightarrow> (\<forall>w \<in> set xs. conforms s g w)" if "fd_items f = Some g" for g
        using concat_enumerate_Nil [of "validate_value s g" "index_path p" 0 xs] items [OF that ok]
        by (simp del: concat_eq_Nil_conv) (simp add: all_set_conv_all_nth)
      with KArray JArray show ?thesis
        by (subst validate_value.simps) (simp add: conforms_kind split: option.split del: concat_eq_Nil_conv)
    qed (use KArray in \<open>subst validate_value.simps; auto simp: conforms_kind wrong_type_def\<close>)+
  next
    case KObject
    show ?thesis
    proof (cases v)
      case (JObject m)
      then have ok: "json_ok w" if "map_of m n = Some w" for n w
        using less.prems(2) json_ok_JObjectD that by blast
      show ?thesis
        using KObject JObject
        by (subst validate_value.simps)
          (simp add: conforms_kind check_members_Nil [where ok = "conforms s", OF props, OF _ ok])
    qed (use KObject in \<open>subst validate_value.simps; auto simp: conforms_kind wrong_type_def\<close>)+
  next
    case KMap
    show ?thesis
    proof (cases v)
      case (JObject m)
      then have ok: "json_ok w" if "w \<in> snd ` set m" for w using less.prems(2) that by auto
      show ?thesis
      proof (cases "fd_items f")
        case None
        then show ?thesis using KMap JObject
          by (subst validate_value.simps) (simp add: conforms_kind check_entries_Nil Let_def)
      next
        case (Some g)
        then show ?thesis using KMap JObject
          by (subst validate_value.simps)
            (simp add: conforms_kind Let_def check_entries_Nil(1) [where ok = "conforms s g", OF items [OF Some ok]])
      qed
    qed (use KMap in \<open>subst validate_value.simps; auto simp: conforms_kind wrong_type_def\<close>)+
  next
    case KUnion
    show ?thesis
    proof (cases v)
      case (JObject m)
      then have ok: "json_ok w" if "map_of m n = Some w" for n w
        using less.prems(2) json_ok_JObjectD that by blast
      show ?thesis
        using KUnion JObject
        by (subst validate_value.simps)
          (simp add: conforms_kind check_union_Nil [where ok = "conforms s", OF vars, OF _ ok])
    qed (use KUnion in \<open>subst validate_value.simps; auto simp: conforms_kind wrong_type_def check_union_def\<close>)+
  qed (use less.prems in \<open>subst validate_value.simps, cases v;
        auto simp: conforms_kind wrong_type_def validate_string_Nil num split: if_splits\<close>)+
qed

section \<open>Defaults\<close>

lemma default_step_get:
  "map_of (default_step nested n d m) k =
     (if k = n then map_option nested (case map_of m n of Some v \<Rightarrow> Some v | None \<Rightarrow> default_as_value d)
      else map_of m k)"
  by (cases "map_of m n"; cases "default_as_value d") (auto simp: default_step_def bt_contains_def)

lemma default_step_sorted [simp]: "sorted_keys m \<Longrightarrow> sorted_keys (default_step nested n d m)"
  by (auto simp: default_step_def Let_def split: option.splits)

text \<open>One pass over a declared member map decides every member by its own declaration alone.\<close>

lemma member_defaults_get:
  assumes "distinct (map fst decls)"
  shows "map_of (member_defaults nested decls m) k = (case map_of decls k of
      None \<Rightarrow> map_of m k
    | Some d \<Rightarrow> map_option (nested d) (case map_of m k of Some v \<Rightarrow> Some v | None \<Rightarrow> default_as_value (fd_default d)))"
  using assms
proof (induction decls arbitrary: m)
  case (Cons nd decls)
  obtain n d where nd: "nd = (n, d)" by force
  have step: "member_defaults nested ((n, d) # decls) m
      = member_defaults nested decls (default_step (nested d) n (fd_default d) m)"
    by (simp add: member_defaults_def)
  show ?case
  proof (cases "k = n")
    case True
    then have "map_of decls k = None" using Cons.prems nd by (simp add: map_of_eq_None_iff)
    with True Cons nd show ?thesis by (simp add: step default_step_get)
  next
    case False
    then have "map_of (default_step (nested d) n (fd_default d) m) k = map_of m k"
      by (simp add: default_step_get)
    with False Cons nd show ?thesis by (cases "map_of decls k") (simp_all add: step)
  qed
qed (simp add: member_defaults_def)

lemma member_defaults_sorted [simp]: "sorted_keys m \<Longrightarrow> sorted_keys (member_defaults nested decls m)"
  by (induction decls arbitrary: m) (auto simp: member_defaults_def split: prod.splits)

lemma member_defaults_ok:
  assumes "jmap_ok m" "distinct (map fst decls)"
    and "\<And>n d v. (n, d) \<in> set decls \<Longrightarrow> json_ok v \<Longrightarrow> json_ok (nested d v)"
    and "\<And>n d v. (n, d) \<in> set decls \<Longrightarrow> default_as_value (fd_default d) = Some v \<Longrightarrow> json_ok v"
  shows "jmap_ok (member_defaults nested decls m)"
proof -
  have "json_ok w" if "map_of (member_defaults nested decls m) k = Some w" for k w
    using that assms(1,3,4) jmap_ok_get [of m k]
    by (auto simp: member_defaults_get [OF assms(2)] dest!: map_of_SomeD split: option.splits)
  moreover have "sorted_keys (member_defaults nested decls m)"
    using assms(1) by (simp add: jmap_ok_def)
  ultimately show ?thesis
    by (auto simp: jmap_ok_def sorted_keys_distinct)
qed

lemma default_ok: "field_ok f \<Longrightarrow> default_as_value (fd_default f) = Some v \<Longrightarrow> json_ok v"
  by (subst (asm) field_ok.simps) (auto split: declared_default.splits)

lemma field_ok_parts:
  assumes "field_ok f"
  shows "fd_items f = Some g \<Longrightarrow> field_ok g" "(n, g) \<in> set (fd_properties f) \<Longrightarrow> field_ok g"
    "(n, g) \<in> set (fd_variants f) \<Longrightarrow> field_ok g" "distinct (map fst (fd_properties f))"
  using assms by (subst (asm) field_ok.simps; auto simp: sorted_keys_distinct)+

lemma apply_nested_defaults_object:
  "fd_kind f = KObject \<Longrightarrow> apply_nested_defaults f (JObject m)
     = JObject (member_defaults apply_nested_defaults (fd_properties f) m)"
  by (simp add: apply_nested_defaults.simps [of f])

lemma apply_nested_defaults_array:
  "fd_kind f = KArray \<Longrightarrow> fd_items f = Some g \<Longrightarrow>
     apply_nested_defaults f (JArray xs) = JArray (map (apply_nested_defaults g) xs)"
  by (simp add: apply_nested_defaults.simps [of f])

lemma apply_nested_defaults_other:
  assumes "\<And>m. fd_kind f = KObject \<Longrightarrow> v \<noteq> JObject m"
    "\<And>g xs. fd_kind f = KArray \<Longrightarrow> fd_items f = Some g \<Longrightarrow> v \<noteq> JArray xs"
  shows "apply_nested_defaults f v = v"
  using assms by (auto simp: apply_nested_defaults.simps [of f] split: field_kind.split json.split option.split)

text \<open>The three cases of filling in a value.\<close>

lemma apply_nested_defaults_cases:
  obtains (object) m where "fd_kind f = KObject" "v = JObject m"
    | (array) g xs where "fd_kind f = KArray" "fd_items f = Some g" "v = JArray xs"
    | (other) "apply_nested_defaults f v = v"
  using apply_nested_defaults_other by metis

lemma apply_nested_defaults_ok: "field_ok f \<Longrightarrow> json_ok v \<Longrightarrow> json_ok (apply_nested_defaults f v)"
proof (induction f arbitrary: v rule: measure_induct_rule [where f = size])
  case (less f)
  note parts = field_ok_parts [OF less.prems(1)]
  have "jmap_ok m \<Longrightarrow> jmap_ok (member_defaults apply_nested_defaults (fd_properties f) m)" for m
    by (rule member_defaults_ok) (auto intro: parts less.IH size_fd_properties default_ok)
  moreover have "json_ok w \<Longrightarrow> json_ok (apply_nested_defaults g w)" if "fd_items f = Some g" for g w
    using that by (auto intro: parts less.IH size_fd_items)
  ultimately show ?case
    using less.prems(2)
    by (cases f v rule: apply_nested_defaults_cases)
      (auto simp: apply_nested_defaults_object apply_nested_defaults_array jmap_ok_def [symmetric]
        simp del: json_ok_object)
qed

lemma member_defaults_idem:
  assumes "sorted_keys m" "distinct (map fst decls)"
    and "\<And>n d v. (n, d) \<in> set decls \<Longrightarrow> v \<in> snd ` set m \<or> default_as_value (fd_default d) = Some v \<Longrightarrow>
      nested d (nested d v) = nested d v"
  shows "member_defaults nested decls (member_defaults nested decls m) = member_defaults nested decls m"
proof (rule bt.extensionality)
  show "map_of (member_defaults nested decls (member_defaults nested decls m)) k
      = map_of (member_defaults nested decls m) k" for k
  proof (cases "map_of decls k")
    case (Some d)
    note idem = assms(3) [OF map_of_SomeD [OF Some]]
    show ?thesis
    proof (cases "map_of m k")
      case None
      then show ?thesis using idem
        by (cases "default_as_value (fd_default d)") (simp_all add: member_defaults_get [OF assms(2)] Some)
    next
      case (Some v)
      then have "v \<in> snd ` set m" by (force dest: map_of_SomeD)
      with Some \<open>map_of decls k = Some d\<close> idem show ?thesis by (simp add: member_defaults_get [OF assms(2)])
    qed
  qed (simp add: member_defaults_get [OF assms(2)])
qed (use assms(1) in simp_all)

lemma apply_nested_defaults_idem:
  "field_ok f \<Longrightarrow> json_ok v \<Longrightarrow> apply_nested_defaults f (apply_nested_defaults f v) = apply_nested_defaults f v"
proof (induction f arbitrary: v rule: measure_induct_rule [where f = size])
  case (less f)
  note parts = field_ok_parts [OF less.prems(1)]
  have obj: "member_defaults apply_nested_defaults (fd_properties f) (member_defaults apply_nested_defaults (fd_properties f) m)
      = member_defaults apply_nested_defaults (fd_properties f) m" if "jmap_ok m" for m
  proof (rule member_defaults_idem)
    show "sorted_keys m" using that by (simp add: jmap_ok_def)
    show "apply_nested_defaults d (apply_nested_defaults d v) = apply_nested_defaults d v"
      if "(n, d) \<in> set (fd_properties f)" "v \<in> snd ` set m \<or> default_as_value (fd_default d) = Some v" for n d v
      using that parts(2) [OF that(1)] default_ok [of d v] \<open>jmap_ok m\<close>
      by (intro less.IH [OF size_fd_properties]) (auto simp: jmap_ok_def)
  qed (rule parts)
  show ?case
  proof (cases f v rule: apply_nested_defaults_cases)
    case (object m)
    then show ?thesis
      using obj [of m] less.prems(2)
      by (simp add: apply_nested_defaults_object jmap_ok_def del: json_ok_object)
  next
    case (array g xs)
    then have "apply_nested_defaults g (apply_nested_defaults g w) = apply_nested_defaults g w" if "w \<in> set xs" for w
      using that less.prems(2) by (intro less.IH [OF size_fd_items] parts) auto
    with array show ?thesis by (simp add: apply_nested_defaults_array)
  qed simp
qed

lemma schema_ok_parts:
  assumes "schema_ok s"
  shows "distinct (map fst (os_fields s))" "(n, g) \<in> set (os_fields s) \<Longrightarrow> field_ok g"
  using assms by (auto simp: schema_ok_def sorted_keys_distinct)

lemma apply_defaults_ok: "schema_ok s \<Longrightarrow> jmap_ok m \<Longrightarrow> jmap_ok (apply_defaults s m)"
  unfolding apply_defaults_def apply_member_defaults_def
  by (rule member_defaults_ok) (auto intro: schema_ok_parts apply_nested_defaults_ok default_ok)

lemma apply_defaults_idem:
  assumes "schema_ok s" "jmap_ok m"
  shows "apply_defaults s (apply_defaults s m) = apply_defaults s m"
  unfolding apply_defaults_def apply_member_defaults_def
proof (rule member_defaults_idem)
  show "sorted_keys m" using assms(2) by (simp add: jmap_ok_def)
  show "apply_nested_defaults d (apply_nested_defaults d v) = apply_nested_defaults d v"
    if "(n, d) \<in> set (os_fields s)" "v \<in> snd ` set m \<or> default_as_value (fd_default d) = Some v" for n d v
    using that schema_ok_parts(2) [OF assms(1) that(1)] default_ok [of d v] assms(2)
    by (intro apply_nested_defaults_idem) (auto simp: jmap_ok_def)
qed (rule schema_ok_parts [OF assms(1)])

lemma validate_object_Nil:
  assumes "schema_ok s" "jmap_ok m"
  shows "validate_object_under s m base k = []
    \<longleftrightarrow> members_conform (conforms k) (os_fields s) (os_additional_fields s) m"
  unfolding validate_object_under_def validate_members_def
  by (rule check_members_Nil) (use assms schema_ok_parts jmap_ok_get validate_value_Nil in blast)

end
