(* ===== verification/Addressing.thy ===== *)
theory Addressing
  imports Conformance
begin

text \<open>
  Dotted addresses. The run-time walk of \<open>entity-core/src/runtime.rs\<close> (\<open>lookup\<close>, \<open>walk\<close>,
  \<open>collection_address\<close>, \<open>selected_variant\<close>), and the checks of \<open>entity-core/src/validation.rs\<close> that
  decide at registration which addresses a reader may write (\<open>walk_field_path\<close>) and under which
  declaration a quantifier's elements are read (\<open>collection_element\<close>).

  \<open>usize\<close> is 64 bits wide. The last section relates the two walks.
\<close>

section \<open>The run-time walk\<close>

abbreviation is_dot :: "char \<Rightarrow> bool" where
  "is_dot c \<equiv> c = CHR ''.''"

text \<open>\<open>path.splitn(2, '.')\<close>: the first segment and, past a dot, the rest.\<close>

definition next_segment :: "string \<Rightarrow> string \<times> string option" where
  "next_segment = split_first is_dot"

lemma next_segment_shorter: "next_segment p = (s, Some r) \<Longrightarrow> length r < length p"
  unfolding next_segment_def by (rule split_first_rest_length)

lemmas next_segment_smaller = next_segment_shorter next_segment_shorter [OF sym]

lemma split_all_next:
  "split_all is_dot p = (case next_segment p of (s, None) \<Rightarrow> [s] | (s, Some r) \<Rightarrow> s # split_all is_dot r)"
  unfolding next_segment_def by (induction p) (auto split: prod.splits option.splits list.splits)

datatype start = Root | Binder

definition selected_variant :: "field_definition \<Rightarrow> json \<Rightarrow> string \<Rightarrow> field_definition option" where
  "selected_variant f v segment =
     (if segment \<noteq> content_key f then None
      else do {
        members \<leftarrow> as_object v;
        tag \<leftarrow> bt_get members (tag_key f);
        label \<leftarrow> as_str tag;
        bt_get (fd_variants f) label
      })"

definition reads_array :: "field_definition option \<Rightarrow> bool" where
  "reads_array field = (case map_option fd_kind field of
     None \<Rightarrow> True | Some k \<Rightarrow> k = KArray \<or> k = KJson)"

definition collection_address ::
    "json \<Rightarrow> field_definition option \<Rightarrow> string \<Rightarrow> (json \<times> field_definition option) option" where
  "collection_address v field segment = (case v of
     JObject members \<Rightarrow>
       if map_option fd_kind field = Some KMap \<and> segment = ''count''
       then Some (JNumber (number_of_nat (length members)), None) else None
   | JArray values \<Rightarrow>
       if reads_array field \<and> segment = ''count'' then Some (JNumber (number_of_nat (length values)), None)
       else if reads_array field then
         (if segment \<noteq> ''0'' \<and> starts_with segment ''0'' then None
          else (case parse_unsigned 64 segment of
              None \<Rightarrow> None
            | Some i \<Rightarrow> if i < length values then Some (values ! i, Option.bind field fd_items) else None))
       else None
   | _ \<Rightarrow> None)"

text \<open>Under a binder a declared map is read as the untyped object it holds.\<close>

definition declared_at :: "start \<Rightarrow> field_definition option \<Rightarrow> field_definition option" where
  "declared_at start field = (case field of
     Some f \<Rightarrow> if start = Root \<or> fd_kind f \<noteq> KMap then Some f else None
   | None \<Rightarrow> None)"

definition member_field :: "field_definition option \<Rightarrow> json \<Rightarrow> string \<Rightarrow> field_definition option" where
  "member_field field v segment = Option.bind field (\<lambda>f. case fd_kind f of
     KObject \<Rightarrow> bt_get (fd_properties f) segment
   | KUnion \<Rightarrow> selected_variant f v segment
   | _ \<Rightarrow> None)"

function walk :: "json \<Rightarrow> string \<Rightarrow> field_definition option \<Rightarrow> bool \<Rightarrow> bool \<Rightarrow> start \<Rightarrow> json option" where
  "walk v path field checked service start = (case next_segment path of (segment, rest) \<Rightarrow>
     let field = declared_at start field; kind = map_option fd_kind field in
     if service \<and> checked \<and> kind = Some KString then
       (case v of
          JString text \<Rightarrow> if rest = None \<and> segment = ''count''
            then Some (JNumber (number_of_nat (length (utf8_chars text)))) else None
        | _ \<Rightarrow> None)
     else (case (if service then collection_address v field segment else None) of
       Some (next, next_field) \<Rightarrow>
         (case rest of None \<Rightarrow> Some next | Some rest \<Rightarrow> walk next rest next_field checked service start)
     | None \<Rightarrow>
         if service \<and> (kind = Some KMap \<or> kind = Some KArray) then None
         else (case Option.bind (as_object v) (\<lambda>m. bt_get m segment) of
             None \<Rightarrow> None
           | Some next \<Rightarrow>
               (case rest of
                  None \<Rightarrow> Some next
                | Some rest \<Rightarrow> walk next rest (member_field field v segment)
                    (checked \<and> kind \<noteq> Some KUnion) service start))))"
  by pat_completeness auto
termination
  by (relation "measure (\<lambda>(_, path, _). length path)") (auto simp: next_segment_smaller)

declare walk.simps [simp del]

definition lookup :: "jmap \<Rightarrow> string \<Rightarrow> object_schema option \<Rightarrow> bool \<Rightarrow> json option" where
  "lookup root_map path schema service = (case next_segment path of (first, rest) \<Rightarrow>
     if first = [] then None
     else (case bt_get root_map first of
         None \<Rightarrow> None
       | Some v \<Rightarrow>
           let field = Option.bind schema (\<lambda>s. bt_get (os_fields s) first) in
           (case rest of
              None \<Rightarrow> Some v
            | Some rest \<Rightarrow> walk v rest field (field \<noteq> None) service Root)))"

section \<open>Addresses at registration\<close>

definition is_ordinal :: "string \<Rightarrow> bool" where
  "is_ordinal segment \<longleftrightarrow> segment = ''0'' \<or>
     (segment \<noteq> [] \<and> \<not> starts_with segment ''0'' \<and> list_all is_digit segment)"

datatype reader = KernelReader | ProjectionReader

definition nothing_past :: "string \<Rightarrow> string option \<Rightarrow> string \<Rightarrow> (message, unit) result" where
  "nothing_past template rest here = (case rest of
     None \<Rightarrow> Ok ()
   | Some r \<Rightarrow> Err (Msg template [ArgText here, ArgText r]))"

function walk_field_path :: "field_definition \<Rightarrow> string \<Rightarrow> string \<Rightarrow> reader \<Rightarrow> bool \<Rightarrow> (message, unit) result" where
  "walk_field_path f walked path reader service = (case next_segment path of (segment, rest) \<Rightarrow>
     let here = walked @ ''.'' @ segment in
     if segment = [] then Err (plain ''the path is empty'')
     else if service \<and> fd_kind f = KArray \<and> (segment = ''count'' \<or> is_ordinal segment) then
       (if segment = ''count''
        then nothing_past ''{} is a count, so {} resolves to nothing'' rest here
        else (case (fd_items f, rest) of
            (Some items, Some rest) \<Rightarrow> walk_field_path items here rest reader service
          | _ \<Rightarrow> Ok ()))
     else if service \<and> fd_kind f = KArray then
       Err (Msg ''{} is an array field, so {} resolves to nothing; an array addresses `count` or an element index''
         [ArgText walked, ArgText segment])
     else if service \<and> fd_kind f = KMap then
       (if segment \<noteq> ''count''
        then Err (Msg ''{} is a map field, so {} resolves to nothing; keys are not addressable and only `count` reads it''
          [ArgText walked, ArgText segment])
        else nothing_past ''{} is a count, so {} resolves to nothing'' rest here)
     else if service \<and> fd_kind f = KString \<and> segment = ''count'' then
       (if reader = ProjectionReader
        then Err (Msg ''{} reads the length of a text, and a projection key reads object members only'' [ArgText here])
        else nothing_past ''{} is a count, so {} resolves to nothing'' rest here)
     else (case fd_kind f of
         KJson \<Rightarrow> Ok ()
       | KObject \<Rightarrow> (case bt_get (fd_properties f) segment of
             Some next \<Rightarrow> (case rest of
                 None \<Rightarrow> Ok ()
               | Some rest \<Rightarrow> walk_field_path next here rest reader service)
           | None \<Rightarrow> if fd_additional_properties f then Ok ()
               else Err (Msg ''{} declares no property {}'' [ArgText walked, ArgText segment]))
       | kind \<Rightarrow>
           if kind = KUnion \<and> service then
             (let tag = (case fd_tag f of Some t \<Rightarrow> t | None \<Rightarrow> []) in
              if segment = tag then nothing_past ''{} is the tag of the union, so {} resolves to nothing'' rest here
              else if segment = content_key f then Ok ()
              else Err (Msg ''{} is a union field, so {} resolves to nothing; it carries {} and {}''
                [ArgText walked, ArgText segment, ArgText tag, ArgText (content_key f)]))
           else if service \<and> segment = ''count'' then
             Err (Msg ''{} is a {} field, so `count` resolves to nothing; `count` reads a text, an array or a map''
               [ArgText walked, ArgText (kind_as_str kind)])
           else Err (Msg ''{} is a {} field, so {} resolves to nothing''
             [ArgText walked, ArgText (kind_as_str kind), ArgText segment])))"
  by pat_completeness auto
termination
  by (relation "measure (\<lambda>(_, _, path, _). length path)") (auto simp: next_segment_smaller)

declare walk_field_path.simps [simp del]

definition validate_schema_path :: "object_schema \<Rightarrow> string \<Rightarrow> string \<Rightarrow> reader \<Rightarrow> bool \<Rightarrow> (message, unit) result" where
  "validate_schema_path schema path noun reader service = (case next_segment path of (root_name, rest) \<Rightarrow>
     if root_name = [] then Err (plain ''the path is empty'')
     else (case bt_get (os_fields schema) root_name of
         None \<Rightarrow> if os_additional_fields schema then Ok ()
           else Err (Msg ''unknown {} {}'' [ArgText noun, ArgText root_name])
       | Some field \<Rightarrow> (case rest of
             None \<Rightarrow> Ok ()
           | Some rest \<Rightarrow> walk_field_path field root_name rest reader service)))"

subsection \<open>The declaration of a collection's elements\<close>

function field_at :: "field_definition \<Rightarrow> string \<Rightarrow> (message, field_definition option) result" where
  "field_at f path = (case next_segment path of (segment, rest) \<Rightarrow>
     if fd_kind f = KJson \<or> fd_kind f = KUnion then Ok None
     else if fd_kind f = KObject then
       (case bt_get (fd_properties f) segment of
          Some next \<Rightarrow> (case rest of None \<Rightarrow> Ok (Some next) | Some rest \<Rightarrow> field_at next rest)
        | None \<Rightarrow> if fd_additional_properties f then Ok None
            else Err (Msg ''nothing declares a property {}'' [ArgText segment]))
     else if fd_kind f = KArray \<and> is_ordinal segment then
       (case fd_items f of
          None \<Rightarrow> Ok None
        | Some items \<Rightarrow> (case rest of None \<Rightarrow> Ok (Some items) | Some rest \<Rightarrow> field_at items rest))
     else Err (Msg ''a {} field has no member {}'' [ArgText (kind_as_str (fd_kind f)), ArgText segment]))"
  by pat_completeness auto
termination
  by (relation "measure (\<lambda>(_, path). length path)") (auto simp: next_segment_smaller)

declare field_at.simps [simp del]

definition element_of :: "field_definition option \<Rightarrow> (message, field_definition option) result" where
  "element_of field = (case field of
     None \<Rightarrow> Ok None
   | Some f \<Rightarrow> if fd_kind f = KArray \<or> fd_kind f = KMap then Ok (fd_items f)
       else Err (Msg ''it is a {} field, and a quantifier walks an array or a map''
         [ArgText (kind_as_str (fd_kind f))]))"

definition collection_in_schema :: "string \<Rightarrow> string \<Rightarrow> object_schema option \<Rightarrow> (message, field_definition option) result" where
  "collection_in_schema expression path schema = (case schema of
     None \<Rightarrow> Err (Msg ''{} is not available here'' [ArgText expression])
   | Some s \<Rightarrow> (case next_segment path of (root_name, rest) \<Rightarrow>
       (case bt_get (os_fields s) root_name of
          None \<Rightarrow> if os_additional_fields s then Ok None
            else Err (Msg ''{} names nothing the schema declares'' [ArgText expression])
        | Some field \<Rightarrow> (case rest of
              None \<Rightarrow> element_of (Some field)
            | Some rest \<Rightarrow> rbind (field_at field rest) element_of))))"

definition collection_element :: "json \<Rightarrow> object_schema \<Rightarrow> object_schema option
    \<Rightarrow> (string \<Rightarrow> field_definition option option) \<Rightarrow> (message, field_definition option) result" where
  "collection_element ov schema args binder = (case ov of
     JString expression \<Rightarrow>
       (case next_segment (tl expression) of (name, path) \<Rightarrow>
          (case binder name of
             Some element \<Rightarrow> (case (element, path) of
                 (Some f, Some p) \<Rightarrow> rbind (field_at f p) element_of
               | _ \<Rightarrow> Ok None)
           | None \<Rightarrow>
               (case strip_prefix ''$fields.'' expression of
                  Some path \<Rightarrow> collection_in_schema expression path (Some schema)
                | None \<Rightarrow> (case strip_prefix ''$old_fields.'' expression of
                    Some path \<Rightarrow> collection_in_schema expression path (Some schema)
                  | None \<Rightarrow> (case strip_prefix ''$args.'' expression of
                      Some path \<Rightarrow> collection_in_schema expression path args
                    | None \<Rightarrow> Err (Msg ''{} is not a reference to a collection'' [ArgText expression]))))))
   | _ \<Rightarrow> Err (plain ''`in` is a reference to an array or map field''))"

section \<open>Well-formed answers\<close>

lemma number_ok_show_nat [simp]: "number_ok (show_nat n)"
proof -
  have "hd (show_nat n) = CHR ''0'' \<Longrightarrow> show_nat n = ''0''"
    using show_nat_hd [of n] by (cases "n = 0") (simp_all add: show_nat.simps)
  moreover have "unsigned_text (show_nat n) = (False, show_nat n)"
    by (auto simp: unsigned_text_def split: list.split dest: show_nat_head)
  moreover have "split_first is_exponent_mark (show_nat n) = (show_nat n, None)"
    "split_first is_point (show_nat n) = (show_nat n, None)"
    by (rule split_first_none; force dest!: show_nat_digits simp: is_exponent_mark_def is_point_def)+
  ultimately show ?thesis by (simp add: number_ok_def)
qed

lemma number_ok_of_nat [simp]: "number_ok (number_of_nat n)"
  by (simp add: number_of_nat_def)

lemma collection_address_ok: "collection_address v field segment = Some (next, f) \<Longrightarrow> json_ok v \<Longrightarrow> json_ok next"
  by (auto simp: collection_address_def split: json.splits if_splits option.splits)

lemma json_ok_member: "json_ok v \<Longrightarrow> Option.bind (as_object v) (\<lambda>m. bt_get m segment) = Some w \<Longrightarrow> json_ok w"
  by (cases v) (auto dest: json_ok_JObjectD simp del: json_ok_object)

lemma walk_ok: "walk v path field checked service start = Some w \<Longrightarrow> json_ok v \<Longrightarrow> json_ok w"
proof (induction path arbitrary: v field checked rule: measure_induct_rule [where f = length])
  case (less path)
  have IH: "json_ok v \<Longrightarrow> json_ok w" if "next_segment path = (s, Some r)" "walk v r f c service start = Some w" for v r s f c
    using less.IH [OF next_segment_shorter [OF that(1)] that(2)] .
  from less.prems show ?case
    by (subst (asm) walk.simps)
      (auto simp: Let_def dest: IH collection_address_ok json_ok_member
        split: prod.splits if_splits json.splits option.splits)
qed

lemma lookup_ok: "lookup m path schema service = Some w \<Longrightarrow> jmap_ok m \<Longrightarrow> json_ok w"
  by (auto simp: lookup_def Let_def dest: walk_ok jmap_ok_get split: prod.splits if_splits option.splits)

section \<open>A path registration refuses resolves to nothing\<close>

text \<open>Every union declares its tag, as registration requires.\<close>

function unions_tagged :: "field_definition \<Rightarrow> bool" where
  "unions_tagged f \<longleftrightarrow> (fd_kind f = KUnion \<longrightarrow> fd_tag f \<noteq> None)
     \<and> (case fd_items f of None \<Rightarrow> True | Some g \<Rightarrow> unions_tagged g)
     \<and> (\<forall>(n, g) \<in> set (fd_properties f). unions_tagged g)"
  by pat_completeness auto
termination
  by (relation "measure size") (auto simp: size_fd_items size_fd_properties)

declare unions_tagged.simps [simp del]

definition plain_segments :: "string \<Rightarrow> bool" where
  "plain_segments path \<longleftrightarrow> list_all (\<lambda>s. s \<noteq> [] \<and> \<not> starts_with s ''+'') (split_all is_dot path)"

lemma plain_segments_next:
  assumes "next_segment path = (s, rest)" "plain_segments path"
  shows "s \<noteq> []" "\<not> starts_with s ''+''" "rest = Some r \<Longrightarrow> plain_segments r"
  using assms by (auto simp: plain_segments_def split_all_next [of path] split: option.splits)

lemma parse_unsigned_ordinal:
  assumes "parse_unsigned 64 s = Some i" "\<not> starts_with s ''+''" "s = ''0'' \<or> \<not> starts_with s ''0''"
  shows "is_ordinal s"
proof (cases s)
  case (Cons c r)
  then have "c \<noteq> CHR ''+''" using assms(2) by (auto simp: starts_with_iff)
  with Cons assms show ?thesis
    by (auto simp: parse_unsigned_def Let_def is_ordinal_def is_digits_def split: if_splits)
qed (use assms in \<open>simp add: parse_unsigned_def is_digits_def\<close>)

lemma collection_address_scalar:
  "as_object v = None \<Longrightarrow> as_array v = None \<Longrightarrow> collection_address v field segment = None"
  by (cases v) (simp_all add: collection_address_def)

lemma walk_scalar:
  "as_object v = None \<Longrightarrow> as_array v = None \<Longrightarrow> as_str v = None \<Longrightarrow> walk v path field checked service start = None"
  by (subst walk.simps; cases v) (auto simp: Let_def collection_address_scalar split: prod.splits option.splits)

lemma walk_text_past:
  "next_segment path = (s, rest) \<Longrightarrow> rest \<noteq> None \<or> s \<noteq> ''count'' \<Longrightarrow>
     walk (JString t) path field checked service start = None"
  by (subst walk.simps) (auto simp: Let_def collection_address_scalar split: prod.splits option.splits)

lemma walk_untyped_text: "walk (JString t) path None checked service start = None"
  by (subst walk.simps) (auto simp: Let_def declared_at_def collection_address_scalar split: prod.splits option.splits)

lemma walk_labelled_text: "fd_kind f \<noteq> KString \<Longrightarrow> walk (JString t) path (Some f) checked service start = None"
  by (subst walk.simps)
    (auto simp: Let_def declared_at_def collection_address_scalar split: prod.splits option.splits if_splits)

lemma declared_at_Root [simp]: "declared_at Root field = field"
  by (simp add: declared_at_def split: option.splits)

lemma nothing_past_Err [simp]: "nothing_past t rest here = Err e \<longleftrightarrow> (\<exists>r. rest = Some r \<and> e = Msg t [ArgText here, ArgText r])"
  by (auto simp: nothing_past_def split: option.splits)

lemma members_conformD:
  assumes "members_conform ok decls additional m" "map_of m n = Some w"
  shows "map_of decls n = Some g \<Longrightarrow> ok g w" "map_of decls n = None \<Longrightarrow> additional"
proof -
  show "ok g w" if "map_of decls n = Some g"
    using assms map_of_SomeD [OF that] unfolding members_conform_def by fastforce
  have "n \<in> fst ` set m" using map_of_SomeD [OF assms(2)] by force
  then show additional if "map_of decls n = None"
    using assms(1) that unfolding members_conform_def map_of_eq_None_iff by blast
qed

lemma unions_tagged_parts:
  assumes "unions_tagged f"
  shows "fd_items f = Some g \<Longrightarrow> unions_tagged g" "map_of (fd_properties f) n = Some g \<Longrightarrow> unions_tagged g"
    "fd_kind f = KUnion \<Longrightarrow> fd_tag f \<noteq> None"
  using assms by (subst (asm) unions_tagged.simps; auto dest!: map_of_SomeD)+

lemma refused_array:
  assumes refused: "walk_field_path f walked path KernelReader True = Err e"
    and kind: "fd_kind f = KArray" and xs: "conforms s f (JArray xs)" and path: "plain_segments path"
    and IH: "\<And>seg rest g w here. next_segment path = (seg, Some rest) \<Longrightarrow> fd_items f = Some g \<Longrightarrow>
      walk_field_path g here rest KernelReader True = Err e \<Longrightarrow> w \<in> set xs \<Longrightarrow> walk w rest (Some g) True True Root = None"
  shows "walk (JArray xs) path (Some f) True True Root = None"
proof -
  obtain seg rest where seg: "next_segment path = (seg, rest)" by force
  note plain = plain_segments_next [OF seg path]
  have array: "reads_array (Some f)" by (simp add: reads_array_def kind)
  consider (count) "seg = ''count''" | (ordinal) "is_ordinal seg" "seg \<noteq> ''count''" | (other) "\<not> is_ordinal seg" "seg \<noteq> ''count''"
    by blast
  then show ?thesis
  proof cases
    case count
    then obtain r where "rest = Some r"
      using refused by (subst (asm) walk_field_path.simps) (auto simp: seg kind Let_def)
    with count show ?thesis
      by (subst walk.simps) (simp add: seg kind collection_address_def array Let_def walk_scalar)
  next
    case ordinal
    then obtain g r here where r: "rest = Some r" and g: "fd_items f = Some g"
      and e: "walk_field_path g here r KernelReader True = Err e"
      using refused plain(1)
      by (subst (asm) walk_field_path.simps) (auto simp: seg kind Let_def split: option.splits)
    show ?thesis
      using IH [OF seg [unfolded r] g e] r g ordinal(2)
      by (subst walk.simps)
        (auto simp: seg kind collection_address_def array Let_def split: option.splits)
  next
    case other
    then have "parse_unsigned 64 seg = None \<or> seg \<noteq> ''0'' \<and> starts_with seg ''0''"
      using parse_unsigned_ordinal [OF _ plain(2)] by (metis option.exhaust)
    then show ?thesis
      using other by (subst walk.simps) (auto simp: seg kind collection_address_def array Let_def)
  qed
qed

lemma refused_object:
  assumes refused: "walk_field_path f walked path KernelReader True = Err e"
    and kind: "fd_kind f = KObject" and m: "conforms s f (JObject m)"
    and IH: "\<And>seg rest g w here. next_segment path = (seg, Some rest) \<Longrightarrow> map_of (fd_properties f) seg = Some g \<Longrightarrow>
      walk_field_path g here rest KernelReader True = Err e \<Longrightarrow> map_of m seg = Some w \<Longrightarrow> conforms s g w \<Longrightarrow>
      walk w rest (Some g) True True Root = None"
    and path: "plain_segments path"
  shows "walk (JObject m) path (Some f) True True Root = None"
proof -
  obtain seg rest where seg: "next_segment path = (seg, rest)" by force
  have m: "members_conform (conforms s) (fd_properties f) (fd_additional_properties f) m"
    using m kind by (auto simp: conforms_kind)
  have out: "walk (JObject m) path (Some f) True True Root = (case map_of m seg of None \<Rightarrow> None
      | Some w \<Rightarrow> (case rest of None \<Rightarrow> Some w | Some r \<Rightarrow> walk w r (map_of (fd_properties f) seg) True True Root))"
    by (subst walk.simps) (simp add: seg kind collection_address_def Let_def member_field_def split: option.split)
  show ?thesis
  proof (cases "map_of (fd_properties f) seg")
    case None
    then have "\<not> fd_additional_properties f"
      using refused plain_segments_next(1) [OF seg path]
      by (subst (asm) walk_field_path.simps) (auto simp: seg kind Let_def split: if_splits)
    then have "map_of m seg = None"
      using members_conformD(2) [OF m _ None] by (cases "map_of m seg") auto
    then show ?thesis by (simp add: out)
  next
    case (Some g)
    then obtain r here where "rest = Some r" "walk_field_path g here r KernelReader True = Err e"
      using refused plain_segments_next(1) [OF seg path]
      by (subst (asm) walk_field_path.simps) (auto simp: seg kind Let_def split: option.splits)
    with Some show ?thesis
      using IH [OF _ Some] members_conformD(1) [OF m _ Some]
      by (simp add: out seg split: option.split)
  qed
qed

lemma refused_union:
  assumes refused: "walk_field_path f walked path KernelReader True = Err e"
    and kind: "fd_kind f = KUnion" and m: "union_conforms (conforms s) f m"
    and tagged: "unions_tagged f" and path: "plain_segments path"
  shows "walk (JObject m) path (Some f) True True Root = None"
proof -
  obtain seg rest where seg: "next_segment path = (seg, rest)" by force
  obtain tag where tag: "fd_tag f = Some tag"
    using unions_tagged_parts(3) [OF tagged kind] by blast
  have keys: "fst ` set m \<subseteq> {tag, content_key f}" and label: "\<exists>l. map_of m tag = Some (JString l)"
    using m by (auto simp: union_conforms_def tag_key_def tag split: option.splits json.splits)
  have out: "walk (JObject m) path (Some f) True True Root = (case map_of m seg of None \<Rightarrow> None
      | Some w \<Rightarrow> (case rest of None \<Rightarrow> Some w | Some r \<Rightarrow> walk w r (selected_variant f (JObject m) seg) False True Root))"
    by (subst walk.simps) (simp add: seg kind collection_address_def Let_def member_field_def split: option.split)
  show ?thesis
  proof (cases "seg = tag")
    case True
    then obtain r where "rest = Some r"
      using refused plain_segments_next(1) [OF seg path]
      by (subst (asm) walk_field_path.simps) (auto simp: seg kind tag Let_def)
    moreover have "tag \<noteq> content_key f" by (simp add: content_key_def tag)
    ultimately show ?thesis
      using label True by (auto simp: out selected_variant_def walk_untyped_text)
  next
    case False
    moreover have "seg \<noteq> content_key f"
      using refused False plain_segments_next(1) [OF seg path]
      by (subst (asm) walk_field_path.simps) (auto simp: seg kind tag Let_def)
    ultimately have "map_of m seg = None" using keys by (auto simp: map_of_eq_None_iff)
    then show ?thesis by (simp add: out)
  qed
qed

lemma refused_map:
  assumes "walk_field_path f walked path KernelReader True = Err e" "fd_kind f = KMap" "plain_segments path"
  shows "walk (JObject m) path (Some f) True True Root = None"
proof -
  obtain seg rest where seg: "next_segment path = (seg, rest)" by force
  have "seg \<noteq> ''count'' \<or> rest \<noteq> None"
    using assms(1,2) plain_segments_next(1) [OF seg assms(3)]
    by (subst (asm) walk_field_path.simps) (auto simp: seg Let_def split: if_splits)
  then show ?thesis
    using assms(2) by (subst walk.simps)
      (auto simp: seg collection_address_def Let_def walk_scalar split: option.splits)
qed

lemma refused_resolves_to_nothing:
  "walk_field_path f walked path KernelReader True = Err e \<Longrightarrow> conforms s f v \<Longrightarrow> unions_tagged f \<Longrightarrow>
     plain_segments path \<Longrightarrow> walk v path (Some f) True True Root = None"
proof (induction path arbitrary: f v walked rule: measure_induct_rule [where f = length])
  case (less path)
  note prems = less.prems
  have IH: "walk w r (Some g) True True Root = None"
    if "next_segment path = (seg, Some r)" "walk_field_path g here r KernelReader True = Err e" "conforms s g w" "unions_tagged g"
    for seg r g here w
    using less.IH [OF next_segment_shorter [OF that(1)] that(2-4)] plain_segments_next(3) [OF that(1) prems(4)] by simp
  note parts = unions_tagged_parts [OF prems(3)]
  show ?case
  proof (cases "fd_kind f")
    case KArray
    with prems(2) obtain xs where xs: "v = JArray xs" by (auto simp: conforms_kind)
    have "conforms s g w" if "fd_items f = Some g" "w \<in> set xs" for g w
      using prems(2) KArray xs that by (auto simp: conforms_kind)
    then show ?thesis
      unfolding xs using refused_array [OF prems(1) KArray _ prems(4)] prems(2) xs IH parts(1) by blast
  next
    case KObject
    with prems(2) obtain m where m: "v = JObject m" by (auto simp: conforms_kind)
    show ?thesis
      unfolding m using refused_object [OF prems(1) KObject _ _ prems(4)] prems(2) m IH parts(2) by blast
  next
    case KUnion
    with prems(2) obtain m where "v = JObject m" "union_conforms (conforms s) f m" by (auto simp: conforms_kind)
    then show ?thesis using refused_union [OF prems(1) KUnion _ prems(3,4)] by simp
  next
    case KMap
    with prems(2) obtain m where "v = JObject m" by (auto simp: conforms_kind)
    then show ?thesis using refused_map [OF prems(1) KMap prems(4)] by simp
  next
    case KString
    obtain seg rest where seg: "next_segment path = (seg, rest)" by force
    from KString prems(2) obtain t where "v = JString t" by (auto simp: conforms_kind)
    moreover have "rest \<noteq> None \<or> seg \<noteq> ''count''"
      using prems(1) KString plain_segments_next(1) [OF seg prems(4)]
      by (subst (asm) walk_field_path.simps) (auto simp: seg Let_def split: if_splits)
    ultimately show ?thesis using walk_text_past [OF seg] by simp
  next
    case KJson
    obtain seg rest where seg: "next_segment path = (seg, rest)" by force
    have False
      using prems(1) KJson plain_segments_next(1) [OF seg prems(4)]
      by (subst (asm) walk_field_path.simps) (auto simp: seg Let_def split: if_splits)
    then show ?thesis ..
  next
    case KEnum
    then show ?thesis using prems(2) by (auto simp: conforms_kind walk_labelled_text)
  next
    case KRef
    then show ?thesis using prems(2) by (auto simp: conforms_kind walk_labelled_text)
  qed (use prems(2) in \<open>auto simp: conforms_kind walk_scalar\<close>)
qed

end
