(* ===== verification/Truth.thy ===== *)
theory Truth
  imports Prelude
begin

text \<open>
  Three-valued truth (\<open>entity-core/src/truth.rs\<close>) and the fourth answer a guard can give before its
  subject is loaded (\<open>PartialTruth\<close> of \<open>runtime.rs\<close>). Both are instances of one algebra, the locale
  \<open>three_valued\<close>, in which the folds of \<open>all\<close> and \<open>any\<close> are studied once.
\<close>

datatype truth = True3 | False3 | Unknown

fun truth_and :: "truth \<Rightarrow> truth \<Rightarrow> truth" where
  "truth_and False3 _ = False3"
| "truth_and _ False3 = False3"
| "truth_and Unknown _ = Unknown"
| "truth_and _ Unknown = Unknown"
| "truth_and True3 True3 = True3"

fun truth_or :: "truth \<Rightarrow> truth \<Rightarrow> truth" where
  "truth_or True3 _ = True3"
| "truth_or _ True3 = True3"
| "truth_or Unknown _ = Unknown"
| "truth_or _ Unknown = Unknown"
| "truth_or False3 False3 = False3"

fun truth_not :: "truth \<Rightarrow> truth" where
  "truth_not True3 = False3"
| "truth_not False3 = True3"
| "truth_not Unknown = Unknown"

definition is_satisfied :: "truth \<Rightarrow> bool" where
  "is_satisfied t \<longleftrightarrow> t = True3"

definition truth_as_str :: "truth \<Rightarrow> string" where
  "truth_as_str t = (case t of True3 \<Rightarrow> ''true'' | False3 \<Rightarrow> ''false'' | Unknown \<Rightarrow> ''unknown'')"

definition from_bool :: "bool \<Rightarrow> truth" where
  "from_bool b = (if b then True3 else False3)"

text \<open>\<open>PartialTruth\<close>: an answer, or that the subject is needed to give one.\<close>

datatype partial_truth = Known truth | NeedsSubject

fun partial_and :: "partial_truth \<Rightarrow> partial_truth \<Rightarrow> partial_truth" where
  "partial_and (Known False3) _ = Known False3"
| "partial_and _ (Known False3) = Known False3"
| "partial_and (Known left) (Known right) = Known (truth_and left right)"
| "partial_and _ _ = NeedsSubject"

fun partial_or :: "partial_truth \<Rightarrow> partial_truth \<Rightarrow> partial_truth" where
  "partial_or (Known True3) _ = Known True3"
| "partial_or _ (Known True3) = Known True3"
| "partial_or (Known left) (Known right) = Known (truth_or left right)"
| "partial_or _ _ = NeedsSubject"

fun partial_not :: "partial_truth \<Rightarrow> partial_truth" where
  "partial_not (Known t) = Known (truth_not t)"
| "partial_not NeedsSubject = NeedsSubject"

section \<open>The algebra of the connectives\<close>

locale three_valued =
  fixes conj :: "'t \<Rightarrow> 't \<Rightarrow> 't" and disj :: "'t \<Rightarrow> 't \<Rightarrow> 't" and neg :: "'t \<Rightarrow> 't"
    and tt :: 't and ff :: 't
  assumes conj_assoc: "conj (conj a b) c = conj a (conj b c)"
    and conj_commute: "conj a b = conj b a"
    and conj_idem: "conj a a = a"
    and conj_tt: "conj tt a = a"
    and conj_ff: "conj ff a = ff"
    and neg_neg: "neg (neg a) = a"
    and neg_tt: "neg tt = ff"
    and neg_conj: "neg (conj a b) = disj (neg a) (neg b)"
begin

lemma neg_disj: "neg (disj a b) = conj (neg a) (neg b)"
  by (metis neg_conj neg_neg)

lemma disj_by_conj: "disj a b = neg (conj (neg a) (neg b))"
  by (simp add: neg_conj neg_neg)

lemma disj_assoc: "disj (disj a b) c = disj a (disj b c)"
  by (simp add: disj_by_conj neg_neg conj_assoc)

lemma disj_commute: "disj a b = disj b a"
  by (simp add: disj_by_conj conj_commute)

lemma disj_ff: "disj ff a = a" and disj_tt: "disj tt a = tt"
  by (metis conj_tt neg_disj neg_neg neg_tt) (metis conj_ff neg_disj neg_neg neg_tt)

lemma disj_idem: "disj a a = a"
  by (simp add: disj_by_conj conj_idem neg_neg)

text \<open>\<open>all\<close> folds \<open>conj\<close> over its children from \<open>tt\<close>, \<open>any\<close> folds \<open>disj\<close> from \<open>ff\<close>.\<close>

definition all_of :: "'t list \<Rightarrow> 't" where "all_of ts = fold (\<lambda>t acc. conj acc t) ts tt"
definition any_of :: "'t list \<Rightarrow> 't" where "any_of ts = fold (\<lambda>t acc. disj acc t) ts ff"

lemma fold_conj: "fold (\<lambda>t acc. conj acc t) ts a = conj a (all_of ts)"
proof (induction ts arbitrary: a)
  case (Cons t ts)
  have "all_of (t # ts) = conj t (all_of ts)"
    using Cons [of t] by (simp add: all_of_def conj_tt)
  then show ?case using Cons [of "conj a t"] by (simp add: conj_assoc)
next
  case Nil
  show ?case using conj_commute [of tt a] by (simp add: all_of_def conj_tt)
qed

lemma all_of_simps: "all_of [] = tt" "all_of (t # ts) = conj t (all_of ts)"
  using fold_conj [of ts t] by (simp_all add: all_of_def conj_tt)

lemma neg_all_of: "neg (all_of ts) = any_of (map neg ts)"
proof -
  have "neg (fold (\<lambda>t acc. conj acc t) ts a) = fold (\<lambda>t acc. disj acc t) (map neg ts) (neg a)" for a
    by (induction ts arbitrary: a) (simp_all add: neg_conj)
  then show ?thesis by (simp add: all_of_def any_of_def neg_tt)
qed

lemma all_of_mem: "t \<in> set ts \<Longrightarrow> conj t (all_of ts) = all_of ts"
proof (induction ts)
  case (Cons u ts)
  then show ?case
    by (auto simp: all_of_simps conj_assoc [symmetric] conj_idem)
       (metis conj_assoc conj_commute)
qed simp

text \<open>The fold depends on which answers there are, not on their order or number.\<close>

lemma all_of_subset: "set us \<subseteq> set ts \<Longrightarrow> conj (all_of us) (all_of ts) = all_of ts"
  by (induction us) (auto simp: all_of_simps conj_tt conj_assoc all_of_mem)

lemma all_of_set: "set ts = set us \<Longrightarrow> all_of ts = all_of us"
  by (metis all_of_subset conj_commute subset_refl)

lemma any_of_set: "set ts = set us \<Longrightarrow> any_of ts = any_of us"
  using all_of_set [of "map neg ts" "map neg us"] neg_all_of [of "map neg ts"] neg_all_of [of "map neg us"]
  by (simp add: neg_neg comp_def)

lemma all_of_ff: "ff \<in> set ts \<Longrightarrow> all_of ts = ff"
  using all_of_mem [of ff ts] by (simp add: conj_ff)

lemma any_of_tt: "tt \<in> set ts \<Longrightarrow> any_of ts = tt"
  using neg_all_of [of "map neg ts"] all_of_ff [of "map neg ts"]
  by (metis (no_types, lifting) image_eqI list.map_comp list.set_map map_idI neg_neg neg_tt o_apply)

end

interpretation truth: three_valued truth_and truth_or truth_not True3 False3
proof unfold_locales
  fix a b c :: truth
  show "truth_and (truth_and a b) c = truth_and a (truth_and b c)"
    by (cases a; cases b; cases c) simp_all
  show "truth_and a b = truth_and b a" by (cases a; cases b) simp_all
  show "truth_and a a = a" "truth_and True3 a = a" "truth_and False3 a = False3"
    "truth_not (truth_not a) = a" by (cases a; simp)+
  show "truth_not True3 = False3" by simp
  show "truth_not (truth_and a b) = truth_or (truth_not a) (truth_not b)"
    by (cases a; cases b) simp_all
qed

lemma partial_and_cases:
  "partial_and (Known a) (Known b) = Known (truth_and a b)"
  "partial_and NeedsSubject p = (if p = Known False3 then Known False3 else NeedsSubject)"
  "partial_and p NeedsSubject = (if p = Known False3 then Known False3 else NeedsSubject)"
proof -
  show "partial_and (Known a) (Known b) = Known (truth_and a b)" by (cases a; cases b) simp_all
  have known: "partial_and NeedsSubject (Known u) = (if u = False3 then Known False3 else NeedsSubject)"
    "partial_and (Known u) NeedsSubject = (if u = False3 then Known False3 else NeedsSubject)" for u
    by (cases u; simp)+
  show "partial_and NeedsSubject p = (if p = Known False3 then Known False3 else NeedsSubject)"
    by (cases p) (simp_all add: known)
  show "partial_and p NeedsSubject = (if p = Known False3 then Known False3 else NeedsSubject)"
    by (cases p) (simp_all add: known)
qed

lemma truth_and_right [simp]: "truth_and a False3 = False3" "truth_and a True3 = a"
  by (cases a; simp)+

lemma partial_or_by_and: "partial_or p q = partial_not (partial_and (partial_not p) (partial_not q))"
proof (cases p; cases q)
  fix a b assume "p = Known a" "q = Known b"
  then show ?thesis by (cases a; cases b) simp_all
next
  fix a assume "p = Known a" "q = NeedsSubject"
  then show ?thesis by (cases a) simp_all
next
  fix b assume "p = NeedsSubject" "q = Known b"
  then show ?thesis by (cases b) simp_all
qed simp

lemma truth_and_False_iff [simp]: "truth_and a b = False3 \<longleftrightarrow> a = False3 \<or> b = False3"
  by (cases a; cases b) simp_all

lemma truth_or_True_iff [simp]: "truth_or a b = True3 \<longleftrightarrow> a = True3 \<or> b = True3"
  by (cases a; cases b) simp_all

lemma truth_and_True_iff [simp]: "truth_and a b = True3 \<longleftrightarrow> a = True3 \<and> b = True3"
  by (cases a; cases b) simp_all

lemma truth_not_involutive [simp]: "truth_not (truth_not a) = a"
  by (cases a) simp_all

interpretation partial: three_valued partial_and partial_or partial_not "Known True3" "Known False3"
proof unfold_locales
  fix a b c :: partial_truth
  show "partial_and (partial_and a b) c = partial_and a (partial_and b c)"
    by (cases a; cases b; cases c) (auto simp: partial_and_cases truth.conj_assoc)
  show commute: "partial_and a b = partial_and b a"
    by (cases a; cases b) (auto simp: partial_and_cases truth.conj_commute)
  show "partial_and a a = a"
    by (cases a) (auto simp: partial_and_cases truth.conj_idem)
  show "partial_and (Known True3) a = a"
    by (cases a) (auto simp: partial_and_cases truth.conj_tt)
  show "partial_and (Known False3) a = Known False3" by simp
  show nn: "partial_not (partial_not a) = a" for a by (cases a) simp_all
  show "partial_not (Known True3) = Known False3" by simp
  show "partial_not (partial_and a b) = partial_or (partial_not a) (partial_not b)"
    by (simp add: partial_or_by_and nn)
qed

section \<open>Agreement of the two\<close>

text \<open>
  What a pre-load answer says about the answer after loading: a \<open>Known\<close> truth is the truth, and
  \<open>NeedsSubject\<close> says nothing.
\<close>

definition sound_for :: "partial_truth \<Rightarrow> truth \<Rightarrow> bool" where
  "sound_for p t \<longleftrightarrow> (case p of Known t' \<Rightarrow> t' = t | NeedsSubject \<Rightarrow> True)"

lemma sound_for_simps [simp]: "sound_for (Known t') t \<longleftrightarrow> t' = t" "sound_for NeedsSubject t"
  by (simp_all add: sound_for_def)

lemma sound_for_and: "sound_for p t \<Longrightarrow> sound_for q u \<Longrightarrow> sound_for (partial_and p q) (truth_and t u)"
  by (cases p; cases q) (auto simp: partial_and_cases truth.conj_ff truth.conj_commute)

lemma sound_for_not: "sound_for p t \<Longrightarrow> sound_for (partial_not p) (truth_not t)"
  by (cases p) simp_all

lemma sound_for_or: "sound_for p t \<Longrightarrow> sound_for q u \<Longrightarrow> sound_for (partial_or p q) (truth_or t u)"
  by (simp add: partial_or_by_and truth.disj_by_conj sound_for_and sound_for_not)

section \<open>Properties\<close>

lemma from_bool_simps [simp]: "from_bool b = True3 \<longleftrightarrow> b" "from_bool b = False3 \<longleftrightarrow> \<not> b" "from_bool b \<noteq> Unknown"
  by (simp_all add: from_bool_def)

lemma from_bool_connectives:
  "truth_and (from_bool a) (from_bool b) = from_bool (a \<and> b)"
  "truth_or (from_bool a) (from_bool b) = from_bool (a \<or> b)"
  "truth_not (from_bool a) = from_bool (\<not> a)"
  by (simp_all add: from_bool_def)

end
