(* ===== verification/Evaluation.thy ===== *)
theory Evaluation
  imports Addressing Truth
begin

text \<open>
  References, templates and conditions of \<open>entity-core/src/runtime.rs\<close>. A condition is evaluated to a
  three-valued truth; every address that was read and held nothing is gathered in a set, here an
  ascending list threaded through the evaluation in the order the code reads its operands.

  \<open>Option<&Bindings>\<close> is the list of the binders in scope, innermost first; its \<open>get\<close> is \<open>map_of\<close>.
\<close>

section \<open>The context of an evaluation\<close>

record template_context =
  tc_definition :: entity_definition
  tc_id :: "string option"
  tc_args :: jmap
  tc_arguments_schema :: "object_schema option"
  tc_old_fields :: jmap
  tc_new_fields :: jmap
  tc_from_state :: "string option"
  tc_to_state :: string

definition service :: "template_context \<Rightarrow> bool" where
  "service ctx \<longleftrightarrow> has_service_semantics (def_semantics (tc_definition ctx))"

type_synonym bindings = "(string \<times> json \<times> field_definition option) list"

type_synonym unobserved = "string list"

type_synonym 'a evaluation = "unobserved \<Rightarrow> (core_error, 'a \<times> unobserved) result"

definition template_error :: "string \<Rightarrow> message \<Rightarrow> core_error" where
  "template_error expression m = Template (plain expression) m"

definition pre_address_identity_error :: core_error where
  "pre_address_identity_error = template_error ''$id''
     (plain ''the storage identity is unavailable until the selected creation fields validate; reading $id here would make address derivation circular'')"

section \<open>References\<close>

definition resolve_root :: "template_context \<Rightarrow> string \<Rightarrow> json option core_result" where
  "resolve_root ctx expression =
     (case strip_prefix ''$args.'' expression of
        Some path \<Rightarrow> Ok (lookup (tc_args ctx) path (tc_arguments_schema ctx) (service ctx))
      | None \<Rightarrow> (case strip_prefix ''$fields.'' expression of
          Some path \<Rightarrow> Ok (lookup (tc_new_fields ctx) path (Some (def_schema (tc_definition ctx))) (service ctx))
        | None \<Rightarrow> (case strip_prefix ''$old_fields.'' expression of
            Some path \<Rightarrow> Ok (lookup (tc_old_fields ctx) path (Some (def_schema (tc_definition ctx))) (service ctx))
          | None \<Rightarrow> Err (template_error expression (plain ''unknown template expression'')))))"

definition resolve_named :: "template_context \<Rightarrow> string \<Rightarrow> json option core_result" where
  "resolve_named ctx expression =
     (if expression = ''$id'' then
        (case tc_id ctx of Some i \<Rightarrow> Ok (Some (JString i)) | None \<Rightarrow> Err pre_address_identity_error)
      else if expression = ''$entity'' then Ok (Some (JString (def_entity (tc_definition ctx))))
      else if expression = ''$version'' then Ok (Some (JNumber (number_of_nat (unat (def_version (tc_definition ctx))))))
      else if expression = ''$from_state'' then Ok (map_option JString (tc_from_state ctx))
      else if expression = ''$to_state'' \<or> expression = ''$state'' then Ok (Some (JString (tc_to_state ctx)))
      else if expression = ''$args'' then Ok (Some (JObject (tc_args ctx)))
      else if expression = ''$fields'' then Ok (Some (JObject (tc_new_fields ctx)))
      else if expression = ''$old_fields'' then Ok (Some (JObject (tc_old_fields ctx)))
      else resolve_root ctx expression)"

definition resolve_expression_optional :: "string \<Rightarrow> template_context \<Rightarrow> bindings \<Rightarrow> json option core_result" where
  "resolve_expression_optional expression ctx bindings =
     (case next_segment (tl expression) of (name, path) \<Rightarrow>
        (case map_of bindings name of
           Some (element, declared) \<Rightarrow> Ok (case path of
               None \<Rightarrow> Some element
             | Some path \<Rightarrow> walk element path declared (declared \<noteq> None) (service ctx) Binder)
         | None \<Rightarrow> resolve_named ctx expression))"

lemma size_jarray: "v \<in> set vs \<Longrightarrow> size v < size (JArray vs)"
  by (induction vs) auto

lemma size_jobject: "(k, v) \<in> set m \<Longrightarrow> size v < size (JObject m)"
  by (induction m) auto

lemmas size_json = size_jarray size_jobject size_jarray [simplified] size_jobject [simplified]

lemma enumerate_member: "(i, x) \<in> set (enumerate n xs) \<Longrightarrow> x \<in> set xs"
  by (induction xs arbitrary: n) auto

text \<open>A template: references are replaced at every depth, and one that holds nothing is an error.\<close>

function resolve_template :: "json \<Rightarrow> template_context \<Rightarrow> json core_result" where
  "resolve_template v ctx = (case v of
     JString s \<Rightarrow>
       if starts_with s ''$$'' then Ok (JString (tl s))
       else if starts_with s ''$'' then
         rbind (resolve_expression_optional s ctx [])
           (\<lambda>r. ok_or r (template_error s (plain ''referenced value does not exist'')))
       else Ok v
   | JArray vs \<Rightarrow> rbind (rmap (\<lambda>w. resolve_template w ctx) vs) (\<lambda>ws. Ok (JArray ws))
   | JObject m \<Rightarrow> rbind (rmap (\<lambda>(k, w). rbind (resolve_template w ctx) (\<lambda>x. Ok (k, x))) m)
       (\<lambda>kvs. Ok (JObject (bt_collect kvs)))
   | _ \<Rightarrow> Ok v)"
  by pat_completeness auto
termination
  by (relation "measure (size \<circ> fst)") (auto simp: size_json)

declare resolve_template.simps [simp del]

section \<open>Operands\<close>

fun ev_map :: "('a \<Rightarrow> 'b evaluation) \<Rightarrow> 'a list \<Rightarrow> 'b list evaluation" where
  "ev_map f [] u = Ok ([], u)"
| "ev_map f (x # xs) u = rbind (f x u) (\<lambda>(y, u). rbind (ev_map f xs u) (\<lambda>(ys, u). Ok (y # ys, u)))"

lemma ev_map_cong [fundef_cong]:
  "xs = ys \<Longrightarrow> u = w \<Longrightarrow> (\<And>x u. x \<in> set ys \<Longrightarrow> f x u = g x u) \<Longrightarrow> ev_map f xs u = ev_map g ys w"
proof (induction ys arbitrary: xs u w)
  case (Cons y ys)
  then show ?case by (cases "g y w") auto
qed simp

function resolve_operand :: "json \<Rightarrow> template_context \<Rightarrow> bindings \<Rightarrow> json option evaluation" where
  "resolve_operand v ctx bindings u = (case v of
     JString s \<Rightarrow>
       if starts_with s ''$$'' then Ok (Some (JString (tl s)), u)
       else if starts_with s ''$'' then
         rbind (resolve_expression_optional s ctx bindings) (\<lambda>r.
           if r = None \<or> r = Some JNull then Ok (None, bs_insert s u) else Ok (r, u))
       else Ok (Some v, u)
   | JArray vs \<Rightarrow> rbind (ev_map (\<lambda>w u. resolve_operand w ctx bindings u) vs u)
       (\<lambda>(rs, u). Ok (map_option JArray (those rs), u))
   | JObject m \<Rightarrow> rbind (ev_map (\<lambda>(k, w) u. resolve_operand w ctx bindings u) m u)
       (\<lambda>(rs, u). Ok (map_option (\<lambda>ws. JObject (bt_collect (zip (bt_keys m) ws))) (those rs), u))
   | _ \<Rightarrow> Ok (Some v, u))"
  by pat_completeness auto
termination
  by (relation "measure (size \<circ> fst)") (auto simp: size_json)

declare resolve_operand.simps [simp del]

definition resolve_pair :: "json \<Rightarrow> json \<Rightarrow> template_context \<Rightarrow> bindings \<Rightarrow> (json option \<times> json option) evaluation" where
  "resolve_pair a b ctx bindings u =
     rbind (resolve_operand a ctx bindings u) (\<lambda>(left, u).
     rbind (resolve_operand b ctx bindings u) (\<lambda>(right, u). Ok ((left, right), u)))"

section \<open>Equality and order of values\<close>

function values_equal :: "json \<Rightarrow> json \<Rightarrow> bool" where
  "values_equal l r = (case (l, r) of
     (JNumber a, JNumber b) \<Rightarrow> is_eq (number_compare a b)
   | (JArray xs, JArray ys) \<Rightarrow> length xs = length ys \<and> list_all (\<lambda>(x, y). values_equal x y) (zip xs ys)
   | (JObject m, JObject n) \<Rightarrow> length m = length n \<and>
       list_all (\<lambda>(k, x). case bt_get n k of Some y \<Rightarrow> values_equal x y | None \<Rightarrow> False) m
   | _ \<Rightarrow> l = r)"
  by pat_completeness auto
termination
  by (relation "measure (size \<circ> fst)") (auto simp: size_json dest: set_zip_leftD)

declare values_equal.simps [simp del]

definition observe :: "number \<Rightarrow> json option \<Rightarrow> observed option" where
  "observe v written = (case written of
     Some (JNumber literal) \<Rightarrow> of_literal literal
   | _ \<Rightarrow> of_number v)"

definition written_element :: "json option \<Rightarrow> nat \<Rightarrow> json option" where
  "written_element written i = (case written of
     Some (JArray vs) \<Rightarrow> if i < length vs then Some (vs ! i) else None
   | _ \<Rightarrow> None)"

definition written_member :: "json option \<Rightarrow> string \<Rightarrow> json option" where
  "written_member written k = (case written of Some (JObject m) \<Rightarrow> bt_get m k | _ \<Rightarrow> None)"

function observed_values_equal :: "json \<Rightarrow> json option \<Rightarrow> json \<Rightarrow> json option \<Rightarrow> bool" where
  "observed_values_equal l lw r rw = (case (l, r) of
     (JNumber a, JNumber b) \<Rightarrow>
       (case (observe a lw, observe b rw) of
          (Some x, Some y) \<Rightarrow> is_eq (observed_cmp x y)
        | _ \<Rightarrow> a = b)
   | (JArray xs, JArray ys) \<Rightarrow> length xs = length ys \<and>
       list_all (\<lambda>(i, (x, y)). observed_values_equal x (written_element lw i) y (written_element rw i))
         (enumerate 0 (zip xs ys))
   | (JObject m, JObject n) \<Rightarrow> length m = length n \<and>
       list_all (\<lambda>(k, x). case bt_get n k of
           Some y \<Rightarrow> observed_values_equal x (written_member lw k) y (written_member rw k)
         | None \<Rightarrow> False) m
   | _ \<Rightarrow> l = r)"
  by pat_completeness auto
termination
  by (relation "measure (size \<circ> fst)") (auto simp: size_json dest!: enumerate_member set_zip_leftD)

declare observed_values_equal.simps [simp del]

definition equal_under :: "template_context \<Rightarrow> json \<Rightarrow> json option \<Rightarrow> json \<Rightarrow> json option \<Rightarrow> bool" where
  "equal_under ctx l lw r rw =
     (if service ctx then observed_values_equal l lw r rw else values_equal l r)"

definition is_scalar :: "json \<Rightarrow> bool" where
  "is_scalar v = (case v of JBool _ \<Rightarrow> True | JNumber _ \<Rightarrow> True | JString _ \<Rightarrow> True | _ \<Rightarrow> False)"

text \<open>\<open>slice.iter().position(..)\<close>.\<close>

fun position :: "'a \<Rightarrow> 'a list \<Rightarrow> nat option" where
  "position x [] = None"
| "position x (y # ys) = (if y = x then Some 0 else map_option Suc (position x ys))"

fun scale_from :: "ordering option \<Rightarrow> string list list \<Rightarrow> string \<Rightarrow> string \<Rightarrow> ordering option" where
  "scale_from answer [] left right = answer"
| "scale_from answer (values # scales) left right =
     (case (position left values, position right values) of
        (Some l, Some r) \<Rightarrow>
          (case answer of
             None \<Rightarrow> scale_from (Some (cmp l r)) scales left right
           | Some previous \<Rightarrow>
               if previous = cmp l r then scale_from answer scales left right else None)
      | _ \<Rightarrow> scale_from answer scales left right)"

definition scale_compare :: "(string list) smap \<Rightarrow> string \<Rightarrow> string \<Rightarrow> ordering option" where
  "scale_compare scales left right = scale_from None (bt_values scales) left right"

section \<open>Conditions\<close>

definition value_test :: "json \<Rightarrow> json \<Rightarrow> template_context \<Rightarrow> bindings \<Rightarrow> (json \<Rightarrow> json \<Rightarrow> truth) \<Rightarrow> truth evaluation" where
  "value_test a b ctx bindings decide u =
     rbind (resolve_pair a b ctx bindings u) (\<lambda>(pair, u).
       case pair of
         (Some left, Some right) \<Rightarrow> Ok (decide left right, u)
       | _ \<Rightarrow> Ok (Unknown, u))"

definition compare_values :: "json \<Rightarrow> json \<Rightarrow> template_context \<Rightarrow> bindings \<Rightarrow> (json \<Rightarrow> json \<Rightarrow> bool) \<Rightarrow> truth evaluation" where
  "compare_values a b ctx bindings predicate =
     value_test a b ctx bindings (\<lambda>l r. from_bool (predicate l r))"

definition compare_strings :: "json \<Rightarrow> json \<Rightarrow> template_context \<Rightarrow> bindings \<Rightarrow> (string \<Rightarrow> string \<Rightarrow> bool) \<Rightarrow> truth evaluation" where
  "compare_strings a b ctx bindings holds =
     value_test a b ctx bindings (\<lambda>l r. case (l, r) of
         (JString v, JString needle) \<Rightarrow> from_bool (holds v needle)
       | _ \<Rightarrow> False3)"

definition compare_numbers :: "json \<Rightarrow> json \<Rightarrow> template_context \<Rightarrow> bindings \<Rightarrow> (ordering \<Rightarrow> bool) \<Rightarrow> truth evaluation" where
  "compare_numbers a b ctx bindings predicate =
     value_test a b ctx bindings (\<lambda>l r. case (as_number l, as_number r) of
         (Some m, Some n) \<Rightarrow> from_bool (predicate (number_compare m n))
       | _ \<Rightarrow> False3)"

definition evaluate_in :: "json \<Rightarrow> json \<Rightarrow> template_context \<Rightarrow> bindings \<Rightarrow> truth evaluation" where
  "evaluate_in a b ctx bindings =
     value_test a b ctx bindings (\<lambda>needle haystack. case haystack of
         JArray elements \<Rightarrow> from_bool (list_ex (\<lambda>(i, element).
             equal_under ctx element (written_element (Some b) i) needle (Some a)) (enumerate 0 elements))
       | _ \<Rightarrow> False3)"

definition evaluate_contains :: "json \<Rightarrow> json \<Rightarrow> template_context \<Rightarrow> bindings \<Rightarrow> truth evaluation" where
  "evaluate_contains a b ctx bindings =
     value_test a b ctx bindings (\<lambda>container needle. case (container, needle) of
         (JArray elements, _) \<Rightarrow> from_bool (list_ex (\<lambda>(i, element).
             equal_under ctx element (written_element (Some a) i) needle (Some b)) (enumerate 0 elements))
       | (JString v, JString n) \<Rightarrow> from_bool (str_contains v n)
       | (JObject v, JString k) \<Rightarrow> from_bool (bt_contains v k)
       | _ \<Rightarrow> False3)"

text \<open>
  The closure \<open>read\<close> of \<open>compare_instants\<close>: a value that is no instant is recorded under the reference
  it was read through.
\<close>

definition read_instant :: "json \<Rightarrow> json \<Rightarrow> unobserved \<Rightarrow> timestamp option \<times> unobserved" where
  "read_instant v written u =
     (let instant = Option.bind (as_str v) timestamp_parse
      in (instant,
          if instant = None then
            (case written of JString expression \<Rightarrow> if starts_with expression ''$'' then bs_insert expression u else u
             | _ \<Rightarrow> u)
          else u))"

definition compare_instants :: "json \<Rightarrow> json \<Rightarrow> template_context \<Rightarrow> bindings \<Rightarrow> (ordering \<Rightarrow> bool) \<Rightarrow> truth evaluation" where
  "compare_instants a b ctx bindings predicate u =
     rbind (resolve_pair a b ctx bindings u) (\<lambda>(pair, u).
       case pair of
         (Some left, Some right) \<Rightarrow>
           let (l, u) = read_instant left a u; (r, u) = read_instant right b u
           in (case (l, r) of
               (Some x, Some y) \<Rightarrow> Ok (from_bool (predicate (timestamp_cmp x y)), u)
             | _ \<Rightarrow> Ok (Unknown, u))
       | _ \<Rightarrow> Ok (Unknown, u))"

definition compare_scalars :: "comparison_def \<Rightarrow> template_context \<Rightarrow> json \<Rightarrow> json \<Rightarrow> truth" where
  "compare_scalars c ctx left right =
     (let op = comparison_op c in
      case (left, right) of
        (JNumber l, JNumber r) \<Rightarrow>
          (case (observe l (Some (left_operand c)), observe r (Some (right_operand c))) of
             (Some x, Some y) \<Rightarrow> from_bool (accepts op (observed_cmp x y))
           | _ \<Rightarrow> Unknown)
      | (JString l, JString r) \<Rightarrow>
          if is_ordering op then
            (case scale_compare (def_scales (tc_definition ctx)) l r of
               Some order \<Rightarrow> from_bool (accepts op order)
             | None \<Rightarrow> Unknown)
          else from_bool (accepts op (cmp l r))
      | _ \<Rightarrow>
          (case (left, right) of
             (JBool l, JBool r) \<Rightarrow> if is_ordering op then Unknown else from_bool (accepts op (cmp l r))
           | _ \<Rightarrow> if \<not> is_scalar left \<or> \<not> is_scalar right then Unknown
               else if is_ordering op then Unknown
               else from_bool (op = OpNe)))"

definition evaluate_compare :: "comparison_def \<Rightarrow> template_context \<Rightarrow> bindings \<Rightarrow> truth evaluation" where
  "evaluate_compare c ctx bindings =
     value_test (left_operand c) (right_operand c) ctx bindings (compare_scalars c ctx)"

definition truthy_value :: "json option \<Rightarrow> truth" where
  "truthy_value v = (case v of
     Some (JBool b) \<Rightarrow> from_bool b
   | Some (JNumber n) \<Rightarrow> (case of_number n of
         Some x \<Rightarrow> from_bool (\<not> observed_is_zero x)
       | None \<Rightarrow> Unknown)
   | Some (JString s) \<Rightarrow> from_bool (s \<noteq> [] \<and> s \<noteq> ''false'')
   | _ \<Rightarrow> Unknown)"

datatype quantification = QAll | QAny

definition element_declaration :: "quantifier \<Rightarrow> template_context \<Rightarrow> bindings \<Rightarrow> field_definition option" where
  "element_declaration q ctx bindings =
     (case collection_element (over q) (def_schema (tc_definition ctx)) (tc_arguments_schema ctx)
         (\<lambda>name. map_option snd (map_of bindings name)) of
        Ok declared \<Rightarrow> declared
      | Err _ \<Rightarrow> None)"

text \<open>The elements of a resolved collection: an array's in order, an object's values in key order.\<close>

definition elements_of :: "json \<Rightarrow> json list option" where
  "elements_of v = (case v of JArray vs \<Rightarrow> Some vs | JObject m \<Rightarrow> Some (bt_values m) | _ \<Rightarrow> None)"

text \<open>A loop over a state that stops as soon as the state is settled.\<close>

fun rfold_until :: "('s \<Rightarrow> bool) \<Rightarrow> ('a \<Rightarrow> 's \<Rightarrow> ('e, 's) result) \<Rightarrow> 'a list \<Rightarrow> 's \<Rightarrow> ('e, 's) result" where
  "rfold_until settled f [] s = Ok s"
| "rfold_until settled f (x # xs) s =
     rbind (f x s) (\<lambda>s'. if settled s' then Ok s' else rfold_until settled f xs s')"

lemma rfold_until_cong [fundef_cong]:
  "settled = settled' \<Longrightarrow> xs = ys \<Longrightarrow> s = t \<Longrightarrow> (\<And>x s. x \<in> set ys \<Longrightarrow> f x s = g x s) \<Longrightarrow>
     rfold_until settled f xs s = rfold_until settled' g ys t"
proof (induction ys arbitrary: xs s t)
  case (Cons y ys)
  then show ?case by (cases "g y t") auto
qed simp

text \<open>One step of a fold: evaluate a child, then join its answer to the accumulator.\<close>

definition join_step :: "('t \<Rightarrow> 't \<Rightarrow> 't) \<Rightarrow> ('a \<Rightarrow> 't evaluation) \<Rightarrow> 'a \<Rightarrow> 't \<times> unobserved
    \<Rightarrow> (core_error, 't \<times> unobserved) result" where
  "join_step join ev x = (\<lambda>(acc, u). rbind (ev x u) (\<lambda>(t, u). Ok (join acc t, u)))"

lemma join_step_cong [fundef_cong]:
  "join = join' \<Longrightarrow> x = x' \<Longrightarrow> au = au' \<Longrightarrow> (\<And>u. ev x' u = ev' x' u) \<Longrightarrow> join_step join ev x au = join_step join' ev' x' au'"
  by (simp add: join_step_def split: prod.split)

lemma size_condition_member: "(d :: condition) \<in> set cs \<Longrightarrow> size d < Suc (size_list size cs)"
  by (induction cs) auto

lemma size_quantifier_body: "size (body q) < size q"
  by (cases q) simp

text \<open>
  \<open>quantify\<close>, over the evaluation of its body under one more binder. An unresolved collection is
  \<open>Unknown\<close>, and the loop stops once the fold is settled.
\<close>

definition quantify :: "(bindings \<Rightarrow> truth evaluation) \<Rightarrow> quantifier \<Rightarrow> template_context \<Rightarrow> bindings \<Rightarrow> quantification
    \<Rightarrow> truth evaluation" where
  "quantify eval q ctx bindings mode u =
     rbind (resolve_operand (over q) ctx bindings u) (\<lambda>(collection, u).
       case Option.bind collection elements_of of
         None \<Rightarrow> Ok (Unknown, u)
       | Some elements \<Rightarrow>
           let declared = element_declaration q ctx bindings;
               ev = (\<lambda>element. eval ((bind_name q, element, declared) # bindings))
           in (case mode of
               QAll \<Rightarrow> rfold_until (\<lambda>(t, _). t = False3) (join_step truth_and ev) elements (True3, u)
             | QAny \<Rightarrow> rfold_until (\<lambda>(t, _). t = True3) (join_step truth_or ev) elements (False3, u)))"

lemma quantify_cong [fundef_cong]:
  assumes "q = q'" "ctx = ctx'" "bindings = bindings'" "mode = mode'" "u = u'" "\<And>bs u. eval bs u = eval' bs u"
  shows "quantify eval q ctx bindings mode u = quantify eval' q' ctx' bindings' mode' u'"
proof -
  have "eval = eval'" using assms(6) by blast
  with assms show ?thesis by simp
qed

function evaluate_condition :: "condition \<Rightarrow> template_context \<Rightarrow> bindings \<Rightarrow> truth evaluation" where
  "evaluate_condition c ctx bindings u = (case c of
     CLiteral b \<Rightarrow> Ok (from_bool b, u)
   | CAll cs \<Rightarrow> rfold (join_step truth_and (\<lambda>d u. evaluate_condition d ctx bindings u)) cs (True3, u)
   | CAny cs \<Rightarrow> rfold (join_step truth_or (\<lambda>d u. evaluate_condition d ctx bindings u)) cs (False3, u)
   | CNot d \<Rightarrow> rbind (evaluate_condition d ctx bindings u) (\<lambda>(t, u). Ok (truth_not t, u))
   | CCompare k \<Rightarrow> evaluate_compare k ctx bindings u
   | CTruthy v \<Rightarrow> rbind (resolve_operand v ctx bindings u) (\<lambda>(r, u). Ok (truthy_value r, u))
   | CForAll q \<Rightarrow> quantify (\<lambda>bs u. evaluate_condition (body q) ctx bs u) q ctx bindings QAll u
   | CForAny q \<Rightarrow> quantify (\<lambda>bs u. evaluate_condition (body q) ctx bs u) q ctx bindings QAny u
   | CExists v \<Rightarrow> rbind (resolve_operand v ctx bindings []) (\<lambda>(r, _). Ok (from_bool (r \<noteq> None), u))
   | CBefore a b \<Rightarrow> compare_instants a b ctx bindings is_lt u
   | CAfter a b \<Rightarrow> compare_instants a b ctx bindings is_gt u
   | CEq a b \<Rightarrow> compare_values a b ctx bindings (\<lambda>l r. equal_under ctx l (Some a) r (Some b)) u
   | CNe a b \<Rightarrow> compare_values a b ctx bindings (\<lambda>l r. \<not> equal_under ctx l (Some a) r (Some b)) u
   | CGt a b \<Rightarrow> compare_numbers a b ctx bindings is_gt u
   | CGte a b \<Rightarrow> compare_numbers a b ctx bindings (\<lambda>order. is_gt order \<or> is_eq order) u
   | CLt a b \<Rightarrow> compare_numbers a b ctx bindings is_lt u
   | CLte a b \<Rightarrow> compare_numbers a b ctx bindings (\<lambda>order. is_lt order \<or> is_eq order) u
   | CIn a b \<Rightarrow> evaluate_in a b ctx bindings u
   | CContains a b \<Rightarrow> evaluate_contains a b ctx bindings u
   | CStartsWith a b \<Rightarrow> compare_strings a b ctx bindings starts_with u
   | CEndsWith a b \<Rightarrow> compare_strings a b ctx bindings ends_with u)"
  by pat_completeness auto
termination
  by (relation "measure (\<lambda>(c, _). size c)") (auto simp: size_quantifier_body less_SucI size_condition_member)

declare evaluate_condition.simps [simp del]

section \<open>Before the subject is loaded\<close>

function value_needs_subject :: "json \<Rightarrow> bindings \<Rightarrow> bool" where
  "value_needs_subject v bindings = (case v of
     JString s \<Rightarrow>
       if starts_with s ''$'' \<and> \<not> starts_with s ''$$'' then
         (let root_name = fst (next_segment (tl s)) in
          if map_of bindings root_name \<noteq> None then False
          else root_name \<in> set [''fields'', ''old_fields'', ''from_state''])
       else False
   | JArray vs \<Rightarrow> list_ex (\<lambda>w. value_needs_subject w bindings) vs
   | JObject m \<Rightarrow> list_ex (\<lambda>(k, w). value_needs_subject w bindings) m
   | _ \<Rightarrow> False)"
  by pat_completeness auto
termination
  by (relation "measure (size \<circ> fst)") (auto simp: size_json)

declare value_needs_subject.simps [simp del]

definition condition_needs_subject :: "condition \<Rightarrow> bindings \<Rightarrow> bool" where
  "condition_needs_subject c bindings =
     (let some_needs = list_ex (\<lambda>v. value_needs_subject v bindings) in
      case c of
        CLiteral _ \<Rightarrow> False
      | CAll _ \<Rightarrow> False
      | CAny _ \<Rightarrow> False
      | CNot _ \<Rightarrow> False
      | CForAll _ \<Rightarrow> False
      | CForAny _ \<Rightarrow> False
      | CExists v \<Rightarrow> value_needs_subject v bindings
      | CBefore a b \<Rightarrow> some_needs [a, b]
      | CAfter a b \<Rightarrow> some_needs [a, b]
      | CEq a b \<Rightarrow> some_needs [a, b]
      | CNe a b \<Rightarrow> some_needs [a, b]
      | CGt a b \<Rightarrow> some_needs [a, b]
      | CGte a b \<Rightarrow> some_needs [a, b]
      | CLt a b \<Rightarrow> some_needs [a, b]
      | CLte a b \<Rightarrow> some_needs [a, b]
      | CIn a b \<Rightarrow> some_needs [a, b]
      | CContains a b \<Rightarrow> some_needs [a, b]
      | CStartsWith a b \<Rightarrow> some_needs [a, b]
      | CEndsWith a b \<Rightarrow> some_needs [a, b]
      | CCompare k \<Rightarrow> value_needs_subject (left_operand k) bindings \<or> value_needs_subject (right_operand k) bindings
      | CTruthy v \<Rightarrow> value_needs_subject v bindings)"

text \<open>Unlike \<open>quantify\<close>, this loop does not stop when the fold is settled.\<close>

definition quantify_before_load :: "(bindings \<Rightarrow> partial_truth evaluation) \<Rightarrow> quantifier \<Rightarrow> template_context \<Rightarrow> bindings
    \<Rightarrow> quantification \<Rightarrow> partial_truth evaluation" where
  "quantify_before_load eval q ctx bindings mode u =
     (if value_needs_subject (over q) bindings then Ok (NeedsSubject, u)
      else rbind (resolve_operand (over q) ctx bindings u) (\<lambda>(collection, u).
        case Option.bind collection elements_of of
          None \<Rightarrow> Ok (Known Unknown, u)
        | Some elements \<Rightarrow>
            let declared = element_declaration q ctx bindings;
                ev = (\<lambda>element. eval ((bind_name q, element, declared) # bindings))
            in (case mode of
                QAll \<Rightarrow> rfold (join_step partial_and ev) elements (Known True3, u)
              | QAny \<Rightarrow> rfold (join_step partial_or ev) elements (Known False3, u))))"

lemma quantify_before_load_cong [fundef_cong]:
  assumes "q = q'" "ctx = ctx'" "bindings = bindings'" "mode = mode'" "u = u'" "\<And>bs u. eval bs u = eval' bs u"
  shows "quantify_before_load eval q ctx bindings mode u = quantify_before_load eval' q' ctx' bindings' mode' u'"
proof -
  have "eval = eval'" using assms(6) by blast
  with assms show ?thesis by simp
qed

function evaluate_condition_before_load :: "condition \<Rightarrow> template_context \<Rightarrow> bindings \<Rightarrow> partial_truth evaluation" where
  "evaluate_condition_before_load c ctx bindings u = (case c of
     CAll cs \<Rightarrow> rfold (join_step partial_and (\<lambda>d u. evaluate_condition_before_load d ctx bindings u)) cs (Known True3, u)
   | CAny cs \<Rightarrow> rfold (join_step partial_or (\<lambda>d u. evaluate_condition_before_load d ctx bindings u)) cs (Known False3, u)
   | CNot d \<Rightarrow> rbind (evaluate_condition_before_load d ctx bindings u) (\<lambda>(p, u). Ok (partial_not p, u))
   | CForAll q \<Rightarrow> quantify_before_load (\<lambda>bs u. evaluate_condition_before_load (body q) ctx bs u) q ctx bindings QAll u
   | CForAny q \<Rightarrow> quantify_before_load (\<lambda>bs u. evaluate_condition_before_load (body q) ctx bs u) q ctx bindings QAny u
   | _ \<Rightarrow>
       if condition_needs_subject c bindings then Ok (NeedsSubject, u)
       else rbind (evaluate_condition c ctx bindings u) (\<lambda>(t, u). Ok (Known t, u)))"
  by pat_completeness auto
termination
  by (relation "measure (\<lambda>(c, _). size c)") (auto simp: size_quantifier_body less_SucI size_condition_member)

declare evaluate_condition_before_load.simps [simp del]

end
