(* ===== verification/Preload.thy ===== *)
theory Preload
  imports Evaluation
begin

text \<open>
  What a condition means, and what may be said of it before its subject is loaded. A condition whose
  references are all ones registration admits is evaluated without error, to the Kleene meaning of its
  connectives over the answers of its operators, whatever has been gathered so far. A guard answered
  before the load gets the answer it would have got after it.
\<close>

section \<open>Evaluations that always answer\<close>

definition answers :: "'a evaluation \<Rightarrow> 'a \<Rightarrow> bool" where
  "answers m t \<longleftrightarrow> (\<forall>u. \<exists>u'. m u = Ok (t, u'))"

lemma answersD: "answers m t \<Longrightarrow> \<exists>u'. m u = Ok (t, u')"
  by (simp add: answers_def)

lemma answers_unique: "answers m t \<Longrightarrow> m u = Ok (s, u') \<Longrightarrow> s = t"
  by (metis answers_def Inr_inject prod.inject)

lemma answers_return [intro]: "(\<And>u. m u = Ok (t, g u)) \<Longrightarrow> answers m t"
  by (auto simp: answers_def)

lemma answers_bind:
  assumes "answers m x" "answers (k x) y" "\<And>u. n u = rbind (m u) (\<lambda>(x, u). k x u)"
  shows "answers n y"
  unfolding answers_def
proof
  fix u
  obtain w where "m u = Ok (x, w)" using answersD [OF assms(1)] by blast
  then show "\<exists>u'. n u = Ok (y, u')"
    using answersD [OF assms(2), of w] assms(3) by simp
qed

lemma bind_join_step:
  "rbind (join_step join f x (t, u)) k = rbind (f x u) (\<lambda>(s, u). k (join t s, u))"
  by (cases "f x u") (auto simp: join_step_def)

lemma answers_map:
  assumes "\<And>x. x \<in> set xs \<Longrightarrow> answers (f x) (g x)"
  shows "answers (ev_map f xs) (map g xs)"
  using assms
proof (induction xs)
  case (Cons x xs)
  have "answers (\<lambda>u. rbind (ev_map f xs u) (\<lambda>(ys, u). Ok (g x # ys, u))) (g x # map g xs)"
    by (rule answers_bind [where m = "ev_map f xs" and k = "\<lambda>ys u. Ok (g x # ys, u)"])
      (use Cons in auto)
  note tail = this
  show ?case
    by (rule answers_bind [where m = "f x" and x = "g x" and n = "ev_map f (x # xs)"
          and k = "\<lambda>y u. rbind (ev_map f xs u) (\<lambda>(ys, u). Ok (y # ys, u))"])
      (use Cons.prems tail in auto)
qed auto

lemma answers_join:
  assumes "\<And>x. x \<in> set xs \<Longrightarrow> answers (f x) (g x)"
  shows "answers (\<lambda>u. rfold (join_step join f) xs (t, u)) (fold (\<lambda>x acc. join acc x) (map g xs) t)"
  using assms
proof (induction xs arbitrary: t)
  case (Cons x xs)
  have "answers (\<lambda>u. rfold (join_step join f) xs (join t (g x), u)) (fold (\<lambda>x acc. join acc x) (map g (x # xs)) t)"
    using Cons by simp
  note tail = this
  show ?case
    by (rule answers_bind [where m = "f x" and x = "g x"
          and k = "\<lambda>s u. rfold (join_step join f) xs (join t s, u)"])
      (use Cons.prems tail in \<open>auto simp: bind_join_step\<close>)
qed auto

text \<open>A fold that stops at an absorbing answer gives what the whole fold gives.\<close>

lemma fold_absorbed: "(\<And>s. join stop s = stop) \<Longrightarrow> fold (\<lambda>x acc. join acc x) ys stop = stop"
  by (induction ys) simp_all

lemma answers_join_until:
  assumes "\<And>x. x \<in> set xs \<Longrightarrow> answers (f x) (g x)" and absorbing: "\<And>s. join stop s = stop"
  shows "answers (\<lambda>u. rfold_until (\<lambda>(s, _). s = stop) (join_step join f) xs (t, u))
      (fold (\<lambda>x acc. join acc x) (map g xs) t)"
  using assms(1)
proof (induction xs arbitrary: t)
  case (Cons x xs)
  define k where "k s u = (if join t s = stop then Ok (join t s, u)
      else rfold_until (\<lambda>(s, _). s = stop) (join_step join f) xs (join t s, u))" for s u
  have "answers (k (g x)) (fold (\<lambda>x acc. join acc x) (map g (x # xs)) t)"
  proof (cases "join t (g x) = stop")
    case True
    then show ?thesis by (auto simp: k_def fold_absorbed [of join stop, OF absorbing])
  next
    case False
    then have "k (g x) = (\<lambda>u. rfold_until (\<lambda>(s, _). s = stop) (join_step join f) xs (join t (g x), u))"
      by (simp add: k_def fun_eq_iff)
    with Cons show ?thesis by simp
  qed
  note tail = this
  show ?case
    by (rule answers_bind [where m = "f x" and x = "g x" and k = k])
      (use Cons.prems tail in \<open>auto simp: bind_join_step k_def [abs_def]\<close>)
qed auto

definition answer_of :: "'a evaluation \<Rightarrow> 'a" where
  "answer_of m = fst (projr (m []))"

lemma answers_answer_of: "answers m t \<Longrightarrow> answer_of m = t"
  using answersD [of m t "[]"] by (auto simp: answer_of_def)

abbreviation total :: "'a evaluation \<Rightarrow> bool" where
  "total m \<equiv> answers m (answer_of m)"

lemma totalI: "answers m t \<Longrightarrow> total m"
  by (simp add: answers_answer_of)

lemma total_image:
  assumes "answers m x" "\<And>u. n u = rbind (m u) (\<lambda>(x, u). Ok (h x, u))"
  shows "answers n (h x)" "total n"
proof -
  show "answers n (h x)"
    by (rule answers_bind [where m = m and x = x and k = "\<lambda>x u. Ok (h x, u)"]) (use assms in auto)
  then show "total n" by (rule totalI)
qed

lemma answers_cong: "answers m t \<Longrightarrow> (\<And>u. n u = m u) \<Longrightarrow> answers n t"
  by (simp add: answers_def)

section \<open>References a scope admits\<close>

text \<open>
  The roots an expression may name. \<open>target\<close> says whether the state the command leads to may be read:
  a selector may not read it, since no branch has been chosen yet.
\<close>

definition reference_ok :: "bool \<Rightarrow> string list \<Rightarrow> string \<Rightarrow> bool" where
  "reference_ok target names s \<longleftrightarrow> fst (next_segment (tl s)) \<in> set names
     \<or> s \<in> set [''$id'', ''$entity'', ''$version'', ''$from_state'', ''$args'', ''$fields'', ''$old_fields'']
     \<or> target \<and> (s = ''$to_state'' \<or> s = ''$state'')
     \<or> starts_with s ''$args.'' \<or> starts_with s ''$fields.'' \<or> starts_with s ''$old_fields.''"

function value_ok :: "bool \<Rightarrow> string list \<Rightarrow> json \<Rightarrow> bool" where
  "value_ok target names v = (case v of
     JString s \<Rightarrow> starts_with s ''$'' \<and> \<not> starts_with s ''$$'' \<longrightarrow> reference_ok target names s
   | JArray vs \<Rightarrow> list_all (value_ok target names) vs
   | JObject m \<Rightarrow> list_all (\<lambda>(k, w). value_ok target names w) m
   | _ \<Rightarrow> True)"
  by pat_completeness auto
termination
  by (relation "measure (\<lambda>(_, _, v). size v)") (auto simp: size_json)

declare value_ok.simps [simp del]

lemma value_ok_simps [simp]:
  "value_ok target names (JString s) \<longleftrightarrow> (starts_with s ''$'' \<and> \<not> starts_with s ''$$'' \<longrightarrow> reference_ok target names s)"
  "value_ok target names (JArray vs) \<longleftrightarrow> (\<forall>w \<in> set vs. value_ok target names w)"
  "value_ok target names (JObject m) \<longleftrightarrow> (\<forall>(k, w) \<in> set m. value_ok target names w)"
  by (subst value_ok.simps; simp add: list_all_iff)+

definition leaf_operands :: "condition \<Rightarrow> json list" where
  "leaf_operands c = (case c of
     CLiteral _ \<Rightarrow> [] | CAll _ \<Rightarrow> [] | CAny _ \<Rightarrow> [] | CNot _ \<Rightarrow> [] | CForAll _ \<Rightarrow> [] | CForAny _ \<Rightarrow> []
   | CExists v \<Rightarrow> [v] | CTruthy v \<Rightarrow> [v] | CCompare k \<Rightarrow> [left_operand k, right_operand k]
   | CBefore a b \<Rightarrow> [a, b] | CAfter a b \<Rightarrow> [a, b] | CEq a b \<Rightarrow> [a, b] | CNe a b \<Rightarrow> [a, b]
   | CGt a b \<Rightarrow> [a, b] | CGte a b \<Rightarrow> [a, b] | CLt a b \<Rightarrow> [a, b] | CLte a b \<Rightarrow> [a, b]
   | CIn a b \<Rightarrow> [a, b] | CContains a b \<Rightarrow> [a, b] | CStartsWith a b \<Rightarrow> [a, b] | CEndsWith a b \<Rightarrow> [a, b])"

definition is_leaf :: "condition \<Rightarrow> bool" where
  "is_leaf c = (case c of CAll _ \<Rightarrow> False | CAny _ \<Rightarrow> False | CNot _ \<Rightarrow> False | CForAll _ \<Rightarrow> False | CForAny _ \<Rightarrow> False | _ \<Rightarrow> True)"

function condition_ok :: "bool \<Rightarrow> string list \<Rightarrow> condition \<Rightarrow> bool" where
  "condition_ok target names c = (case c of
     CAll cs \<Rightarrow> list_all (condition_ok target names) cs
   | CAny cs \<Rightarrow> list_all (condition_ok target names) cs
   | CNot d \<Rightarrow> condition_ok target names d
   | CForAll q \<Rightarrow> value_ok target names (over q) \<and> condition_ok target (bind_name q # names) (body q)
   | CForAny q \<Rightarrow> value_ok target names (over q) \<and> condition_ok target (bind_name q # names) (body q)
   | _ \<Rightarrow> list_all (value_ok target names) (leaf_operands c))"
  by pat_completeness auto
termination
  by (relation "measure (\<lambda>(_, _, c). size c)") (auto simp: size_quantifier_body less_SucI size_condition_member)

declare condition_ok.simps [simp del]

lemma condition_ok_leaf: "is_leaf c \<Longrightarrow> condition_ok target names c \<longleftrightarrow> (\<forall>v \<in> set (leaf_operands c). value_ok target names v)"
  by (cases c) (simp_all add: condition_ok.simps is_leaf_def leaf_operands_def list_all_iff)

lemma condition_cases_leaf:
  obtains (all) cs where "c = CAll cs" | (any) cs where "c = CAny cs" | (neg) d where "c = CNot d"
    | (for_all) q where "c = CForAll q" | (for_any) q where "c = CForAny q" | (leaf) "is_leaf c"
  by (cases c) (auto simp: is_leaf_def)

section \<open>Operands and operators always answer\<close>

lemma resolve_root_total:
  "starts_with s ''$args.'' \<or> starts_with s ''$fields.'' \<or> starts_with s ''$old_fields.'' \<Longrightarrow> \<exists>r. resolve_root ctx s = Ok r"
  unfolding resolve_root_def starts_with_def by (auto split: option.split)

lemma resolve_named_total:
  assumes "s \<in> set [''$id'', ''$entity'', ''$version'', ''$from_state'', ''$args'', ''$fields'', ''$old_fields''] \<or>
      target \<and> (s = ''$to_state'' \<or> s = ''$state'') \<or>
      starts_with s ''$args.'' \<or> starts_with s ''$fields.'' \<or> starts_with s ''$old_fields.''"
    and i: "tc_id ctx \<noteq> None"
  shows "\<exists>r. resolve_named ctx s = Ok r"
proof -
  obtain i where i: "tc_id ctx = Some i" using i by blast
  have named: "\<exists>r. resolve_named ctx s = Ok r" if "\<exists>r. resolve_root ctx s = Ok r"
    using that i unfolding resolve_named_def by (simp split: if_split)
  from assms(1) show ?thesis
  proof (elim disjE)
    assume "s \<in> set [''$id'', ''$entity'', ''$version'', ''$from_state'', ''$args'', ''$fields'', ''$old_fields'']"
    with i show ?thesis by (auto simp: resolve_named_def)
  next
    assume "target \<and> (s = ''$to_state'' \<or> s = ''$state'')"
    then show ?thesis by (auto simp: resolve_named_def)
  qed (rule named, rule resolve_root_total, simp)+
qed

lemma resolve_expression_total:
  assumes "reference_ok target (map fst bs) s" "tc_id ctx \<noteq> None"
  shows "\<exists>r. resolve_expression_optional s ctx bs = Ok r"
proof (cases "map_of bs (fst (next_segment (tl s)))")
  case None
  then have "fst (next_segment (tl s)) \<notin> set (map fst bs)" by (simp add: map_of_eq_None_iff)
  with assms have "\<exists>r. resolve_named ctx s = Ok r"
    unfolding reference_ok_def by (intro resolve_named_total) blast+
  with None show ?thesis by (simp add: resolve_expression_optional_def split_beta)
qed (auto simp: resolve_expression_optional_def split_beta)

definition is_reference :: "string \<Rightarrow> bool" where
  "is_reference s \<longleftrightarrow> starts_with s ''$'' \<and> \<not> starts_with s ''$$''"

lemma resolve_operand_simps:
  "is_reference s \<Longrightarrow> resolve_operand (JString s) ctx bs u = rbind (resolve_expression_optional s ctx bs) (\<lambda>r.
     if r = None \<or> r = Some JNull then Ok (None, bs_insert s u) else Ok (r, u))"
  "\<not> is_reference s \<Longrightarrow> resolve_operand (JString s) ctx bs u
     = Ok (Some (JString (if starts_with s ''$$'' then tl s else s)), u)"
  "resolve_operand (JArray vs) ctx bs u = rbind (ev_map (\<lambda>w u. resolve_operand w ctx bs u) vs u)
       (\<lambda>(rs, u). Ok (map_option JArray (those rs), u))"
  "resolve_operand (JObject m) ctx bs u = rbind (ev_map (\<lambda>(k, w) u. resolve_operand w ctx bs u) m u)
       (\<lambda>(rs, u). Ok (map_option (\<lambda>ws. JObject (bt_collect (zip (bt_keys m) ws))) (those rs), u))"
  "resolve_operand JNull ctx bs u = Ok (Some JNull, u)" "resolve_operand (JBool b) ctx bs u = Ok (Some (JBool b), u)"
  "resolve_operand (JNumber n) ctx bs u = Ok (Some (JNumber n), u)"
  by (subst resolve_operand.simps; auto simp: is_reference_def)+

lemma resolve_operand_total:
  "value_ok target (map fst bs) v \<Longrightarrow> tc_id ctx \<noteq> None \<Longrightarrow> total (resolve_operand v ctx bs)"
proof (induction v rule: measure_induct_rule [where f = size])
  case (less v)
  note IH = less.IH [OF _ _ less.prems(2)]
  show ?case
  proof (cases v)
    case (JString s)
    show ?thesis
    proof (cases "is_reference s")
      case True
      with JString less.prems(1) have "reference_ok target (map fst bs) s" by (simp add: is_reference_def)
      then obtain r where r: "resolve_expression_optional s ctx bs = Ok r"
        using resolve_expression_total [OF _ less.prems(2)] by blast
      show ?thesis
        unfolding JString
        by (rule totalI [of _ "if r = None \<or> r = Some JNull then None else r"],
            rule answers_return [where g = "\<lambda>u. if r = None \<or> r = Some JNull then bs_insert s u else u"])
          (simp add: resolve_operand_simps(1) [OF True] r)
    next
      case False
      then show ?thesis unfolding JString by (auto intro!: totalI simp: resolve_operand_simps)
    qed
  next
    case (JArray vs)
    have "answers (ev_map (\<lambda>w u. resolve_operand w ctx bs u) vs) (map (\<lambda>w. answer_of (resolve_operand w ctx bs)) vs)"
      using less.prems(1) by (intro answers_map IH) (auto simp: JArray size_json)
    then show ?thesis
      unfolding JArray by (rule total_image(2) [OF _ resolve_operand_simps(3)])
  next
    case (JObject m)
    have "answers (ev_map (\<lambda>(k, w) u. resolve_operand w ctx bs u) m) (map (\<lambda>(k, w). answer_of (resolve_operand w ctx bs)) m)"
    proof (rule answers_map)
      fix kw assume kw: "kw \<in> set m"
      obtain k w where "kw = (k, w)" by force
      with kw less.prems(1) have "total (resolve_operand w ctx bs)"
        by (intro IH) (auto simp: JObject size_json)
      then show "answers (case kw of (k, w) \<Rightarrow> \<lambda>u. resolve_operand w ctx bs u) (case kw of (k, w) \<Rightarrow> answer_of (resolve_operand w ctx bs))"
        by (simp add: \<open>kw = (k, w)\<close>)
    qed
    then show ?thesis
      unfolding JObject by (rule total_image(2) [OF _ resolve_operand_simps(4)])
  qed (auto intro!: totalI simp: resolve_operand_simps)
qed

lemma resolve_pair_total:
  assumes "total (resolve_operand a ctx bs)" "total (resolve_operand b ctx bs)"
  shows "answers (resolve_pair a b ctx bs) (answer_of (resolve_operand a ctx bs), answer_of (resolve_operand b ctx bs))"
  unfolding answers_def
proof
  fix u
  obtain w where "resolve_operand a ctx bs u = Ok (answer_of (resolve_operand a ctx bs), w)"
    using answersD [OF assms(1)] by blast
  then show "\<exists>u'. resolve_pair a b ctx bs u = Ok ((answer_of (resolve_operand a ctx bs), answer_of (resolve_operand b ctx bs)), u')"
    using answersD [OF assms(2), of w] by (auto simp: resolve_pair_def)
qed

text \<open>The answer of an operator over two values, wherever they were read.\<close>

definition both :: "(json \<Rightarrow> json \<Rightarrow> truth) \<Rightarrow> json option \<times> json option \<Rightarrow> truth" where
  "both decide pair = (case pair of (Some l, Some r) \<Rightarrow> decide l r | _ \<Rightarrow> Unknown)"

lemma value_test_total:
  assumes "total (resolve_operand a ctx bs)" "total (resolve_operand b ctx bs)"
  shows "total (value_test a b ctx bs decide)"
  by (rule total_image(2) [OF resolve_pair_total [OF assms], where h = "both decide"])
    (auto simp: value_test_def both_def intro!: rbind_cong split: option.split)

lemma compare_instants_total:
  assumes "total (resolve_operand a ctx bs)" "total (resolve_operand b ctx bs)"
  shows "total (compare_instants a b ctx bs predicate)"
proof (rule totalI, unfold answers_def, rule allI)
  fix u
  let ?t = "both (\<lambda>l r. case (Option.bind (as_str l) timestamp_parse, Option.bind (as_str r) timestamp_parse) of
      (Some x, Some y) \<Rightarrow> from_bool (predicate (timestamp_cmp x y)) | _ \<Rightarrow> Unknown)
    (answer_of (resolve_operand a ctx bs), answer_of (resolve_operand b ctx bs))"
  obtain w where w: "resolve_pair a b ctx bs u = Ok ((answer_of (resolve_operand a ctx bs), answer_of (resolve_operand b ctx bs)), w)"
    using answersD [OF resolve_pair_total [OF assms]] by blast
  show "\<exists>u'. compare_instants a b ctx bs predicate u = Ok (?t, u')"
    unfolding compare_instants_def w
    by (auto simp: both_def read_instant_def Let_def split: option.split)
qed

lemma leaf_total:
  assumes "is_leaf c" "condition_ok target (map fst bs) c" "tc_id ctx \<noteq> None"
  shows "total (evaluate_condition c ctx bs)"
proof -
  have op: "total (resolve_operand v ctx bs)" if "v \<in> set (leaf_operands c)" for v
    using assms that by (intro resolve_operand_total) (auto simp: condition_ok_leaf)
  note rules = value_test_total compare_instants_total
  show ?thesis
  proof (cases c)
    case (CLiteral b)
    then show ?thesis by (intro totalI answers_return) (simp add: evaluate_condition.simps)
  next
    case (CExists v)
    then have "total (resolve_operand v ctx bs)" using op by (simp add: leaf_operands_def)
    from answersD [OF this, of "[]"]
    show ?thesis
      by (intro totalI answers_return) (auto simp: CExists evaluate_condition.simps)
  next
    case (CTruthy v)
    then have "total (resolve_operand v ctx bs)" using op by (simp add: leaf_operands_def)
    then show ?thesis
      by (rule total_image(2)) (simp add: CTruthy evaluate_condition.simps)
  qed (use assms(1) op in \<open>auto simp: is_leaf_def leaf_operands_def evaluate_condition.simps [abs_def] evaluate_compare_def
      compare_values_def compare_numbers_def compare_strings_def evaluate_in_def evaluate_contains_def intro!: rules\<close>)
qed

section \<open>The meaning of a condition\<close>

definition walked_elements :: "quantifier \<Rightarrow> template_context \<Rightarrow> bindings \<Rightarrow> json list option" where
  "walked_elements q ctx bs = Option.bind (answer_of (resolve_operand (over q) ctx bs)) elements_of"

function meaning :: "condition \<Rightarrow> template_context \<Rightarrow> bindings \<Rightarrow> truth" where
  "meaning c ctx bs = (case c of
     CAll cs \<Rightarrow> truth.all_of (map (\<lambda>d. meaning d ctx bs) cs)
   | CAny cs \<Rightarrow> truth.any_of (map (\<lambda>d. meaning d ctx bs) cs)
   | CNot d \<Rightarrow> truth_not (meaning d ctx bs)
   | CForAll q \<Rightarrow> (case walked_elements q ctx bs of
         None \<Rightarrow> Unknown
       | Some es \<Rightarrow> truth.all_of (map (\<lambda>e. meaning (body q) ctx ((bind_name q, e, element_declaration q ctx bs) # bs)) es))
   | CForAny q \<Rightarrow> (case walked_elements q ctx bs of
         None \<Rightarrow> Unknown
       | Some es \<Rightarrow> truth.any_of (map (\<lambda>e. meaning (body q) ctx ((bind_name q, e, element_declaration q ctx bs) # bs)) es))
   | _ \<Rightarrow> answer_of (evaluate_condition c ctx bs))"
  by pat_completeness auto
termination
  by (relation "measure (\<lambda>(c, _). size c)") (auto simp: size_quantifier_body less_SucI size_condition_member)

declare meaning.simps [simp del]

lemmas meaning_simps = meaning.simps [of "CAll cs" for cs] meaning.simps [of "CAny cs" for cs]
  meaning.simps [of "CNot d" for d] meaning.simps [of "CForAll q" for q] meaning.simps [of "CForAny q" for q]

lemmas connective_simps = evaluate_condition.simps [of "CAll cs" for cs] evaluate_condition.simps [of "CAny cs" for cs]
  evaluate_condition.simps [of "CNot d" for d] evaluate_condition.simps [of "CForAll q" for q]
  evaluate_condition.simps [of "CForAny q" for q]

lemma meaning_leaf: "is_leaf c \<Longrightarrow> meaning c ctx bs = answer_of (evaluate_condition c ctx bs)"
  by (cases c) (simp_all add: is_leaf_def meaning.simps)

definition joined :: "quantification \<Rightarrow> truth list \<Rightarrow> truth" where
  "joined mode ts = (case mode of QAll \<Rightarrow> truth.all_of ts | QAny \<Rightarrow> truth.any_of ts)"

lemma quantify_answers:
  assumes over: "total (resolve_operand (over q) ctx bs)"
    and body: "\<And>e. answers (eval ((bind_name q, e, element_declaration q ctx bs) # bs)) (g e)"
  shows "answers (quantify eval q ctx bs mode) (case walked_elements q ctx bs of
      None \<Rightarrow> Unknown | Some es \<Rightarrow> joined mode (map g es))"
proof -
  let ?ev = "\<lambda>e. eval ((bind_name q, e, element_declaration q ctx bs) # bs)"
  have all: "answers (\<lambda>u. rfold_until (\<lambda>(t, _). t = False3) (join_step truth_and ?ev) es (True3, u)) (joined QAll (map g es))"
    and any: "answers (\<lambda>u. rfold_until (\<lambda>(t, _). t = True3) (join_step truth_or ?ev) es (False3, u)) (joined QAny (map g es))" for es
    unfolding joined_def truth.all_of_def truth.any_of_def quantification.case
    by (rule answers_join_until, rule body, simp)+
  define k where "k collection = (\<lambda>u. case Option.bind collection elements_of of
         None \<Rightarrow> Ok (Unknown, u)
       | Some elements \<Rightarrow> (case mode of
               QAll \<Rightarrow> rfold_until (\<lambda>(t, _). t = False3) (join_step truth_and ?ev) elements (True3, u)
             | QAny \<Rightarrow> rfold_until (\<lambda>(t, _). t = True3) (join_step truth_or ?ev) elements (False3, u)))" for collection
  have "answers (k (answer_of (resolve_operand (over q) ctx bs))) (case walked_elements q ctx bs of
      None \<Rightarrow> Unknown | Some es \<Rightarrow> joined mode (map g es))"
    using all any by (cases mode) (auto simp: k_def walked_elements_def split: option.split)
  then show ?thesis
    by (rule answers_bind [OF over]) (unfold quantify_def k_def Let_def, rule refl)
qed

lemma evaluate_means:
  "condition_ok target (map fst bs) c \<Longrightarrow> tc_id ctx \<noteq> None \<Longrightarrow>
     answers (evaluate_condition c ctx bs) (meaning c ctx bs)"
proof (induction c arbitrary: bs rule: measure_induct_rule [where f = size])
  case (less c)
  note IH = less.IH [OF _ _ less.prems(2)]
  note ok = less.prems(1) [unfolded condition_ok.simps [of target "map fst bs" c]]
  have quantified: "answers (quantify (\<lambda>bs u. evaluate_condition (body q) ctx bs u) q ctx bs mode)
      (case walked_elements q ctx bs of None \<Rightarrow> Unknown | Some es \<Rightarrow>
        joined mode (map (\<lambda>e. meaning (body q) ctx ((bind_name q, e, element_declaration q ctx bs) # bs)) es))"
    if "value_ok target (map fst bs) (over q)" "condition_ok target (bind_name q # map fst bs) (body q)" "size q < size c" for q mode
  proof (rule quantify_answers)
    show "total (resolve_operand (over q) ctx bs)" using that(1) less.prems(2) by (rule resolve_operand_total)
    show "answers (evaluate_condition (body q) ctx ((bind_name q, e, element_declaration q ctx bs) # bs))
        (meaning (body q) ctx ((bind_name q, e, element_declaration q ctx bs) # bs))" for e
      using that size_quantifier_body [of q] by (intro IH) auto
  qed
  show ?case
  proof (cases c rule: condition_cases_leaf)
    case (all cs)
    have "answers (\<lambda>u. rfold (join_step truth_and (\<lambda>d u. evaluate_condition d ctx bs u)) cs (True3, u))
        (fold (\<lambda>x acc. truth_and acc x) (map (\<lambda>d. meaning d ctx bs) cs) True3)"
      using ok all by (intro answers_join IH) (auto simp: list_all_iff size_condition_member)
    then show ?thesis
      using all by (simp add: connective_simps [abs_def] meaning_simps truth.all_of_def)
  next
    case (any cs)
    have "answers (\<lambda>u. rfold (join_step truth_or (\<lambda>d u. evaluate_condition d ctx bs u)) cs (False3, u))
        (fold (\<lambda>x acc. truth_or acc x) (map (\<lambda>d. meaning d ctx bs) cs) False3)"
      using ok any by (intro answers_join IH) (auto simp: list_all_iff size_condition_member)
    then show ?thesis
      using any by (simp add: connective_simps [abs_def] meaning_simps truth.any_of_def)
  next
    case (neg d)
    then have "answers (evaluate_condition d ctx bs) (meaning d ctx bs)" using ok by (intro IH) auto
    from total_image(1) [OF this connective_simps(3) [of d ctx bs, unfolded condition.case]] show ?thesis
      by (simp add: neg meaning_simps)
  next
    case (for_all q)
    then show ?thesis
      using quantified [of q QAll] ok
      by (simp add: connective_simps [abs_def] meaning_simps joined_def cong: option.case_cong)
  next
    case (for_any q)
    then show ?thesis
      using quantified [of q QAny] ok
      by (simp add: connective_simps [abs_def] meaning_simps joined_def cong: option.case_cong)
  next
    case leaf
    then show ?thesis
      using leaf_total [OF leaf less.prems] by (simp add: meaning_leaf)
  qed
qed

section \<open>The answer given before the load\<close>

text \<open>Two contexts that differ in the subject alone.\<close>

definition same_input :: "template_context \<Rightarrow> template_context \<Rightarrow> bool" where
  "same_input ctx ctx' \<longleftrightarrow> tc_definition ctx = tc_definition ctx' \<and> tc_id ctx = tc_id ctx'
     \<and> tc_args ctx = tc_args ctx' \<and> tc_arguments_schema ctx = tc_arguments_schema ctx'"

lemma same_input_service: "same_input ctx ctx' \<Longrightarrow> service ctx = service ctx'"
  by (simp add: same_input_def service_def)

lemma same_input_named:
  assumes "same_input ctx ctx'" and "s \<in> set [''$id'', ''$entity'', ''$version'', ''$args'']"
  shows "resolve_named ctx s = resolve_named ctx' s"
  using assms by (auto simp: resolve_named_def same_input_def)

lemma same_input_root:
  "same_input ctx ctx' \<Longrightarrow> starts_with s ''$args.'' \<Longrightarrow> resolve_root ctx s = resolve_root ctx' s"
  by (auto simp: resolve_root_def same_input_def service_def starts_with_def)

lemma prefixed_not_named:
  "starts_with s ''$args.'' \<Longrightarrow> resolve_named ctx s = resolve_root ctx s"
  by (auto simp: resolve_named_def starts_with_iff)

lemma next_segment_dot: "next_segment (a @ CHR ''.'' # r) = (a, Some r)" if "\<forall>c \<in> set a. c \<noteq> CHR ''.''"
  unfolding next_segment_def using that by (intro split_first_once) auto

lemma subject_roots:
  "starts_with s ''$fields.'' \<Longrightarrow> fst (next_segment (tl s)) = ''fields''"
  "starts_with s ''$old_fields.'' \<Longrightarrow> fst (next_segment (tl s)) = ''old_fields''"
  using next_segment_dot [of "''fields''"] next_segment_dot [of "''old_fields''"]
  by (auto simp: starts_with_iff)

lemma subject_names:
  "fst (next_segment ''fields'') = ''fields''" "fst (next_segment ''old_fields'') = ''old_fields''"
  "fst (next_segment ''from_state'') = ''from_state''"
  by (simp_all add: next_segment_def)

lemma same_input_expression:
  assumes same: "same_input ctx ctx'" and ok: "reference_ok False (map fst bs) s"
    and free: "\<not> (map_of bs (fst (next_segment (tl s))) = None
      \<and> fst (next_segment (tl s)) \<in> set [''fields'', ''old_fields'', ''from_state''])"
  shows "resolve_expression_optional s ctx bs = resolve_expression_optional s ctx' bs"
proof (cases "map_of bs (fst (next_segment (tl s)))")
  case None
  then have root_name: "fst (next_segment (tl s)) \<notin> set [''fields'', ''old_fields'', ''from_state'']"
    using free by blast
  have "fst (next_segment (tl s)) \<notin> set (map fst bs)"
    using None by (simp add: map_of_eq_None_iff)
  then have "s \<in> set [''$id'', ''$entity'', ''$version'', ''$args''] \<or> starts_with s ''$args.''"
    using ok unfolding reference_ok_def
  proof (elim disjE)
    assume "s \<in> set [''$id'', ''$entity'', ''$version'', ''$from_state'', ''$args'', ''$fields'', ''$old_fields'']"
    moreover have "s \<noteq> ''$from_state''" "s \<noteq> ''$fields''" "s \<noteq> ''$old_fields''"
      using root_name by (auto simp: subject_names)
    ultimately show ?thesis by simp
  next
    assume "starts_with s ''$fields.''"
    then show ?thesis using root_name by (simp add: subject_roots)
  next
    assume "starts_with s ''$old_fields.''"
    then show ?thesis using root_name by (simp add: subject_roots)
  qed simp_all
  then have "resolve_named ctx s = resolve_named ctx' s"
    using same_input_named [OF same] same_input_root [OF same] prefixed_not_named by metis
  with None show ?thesis by (simp add: resolve_expression_optional_def split_beta)
qed (auto simp: resolve_expression_optional_def split_beta same_input_service [OF same] cong: option.case_cong)

lemma same_input_operand:
  assumes same: "same_input ctx ctx'"
  shows "value_ok False (map fst bs) v \<Longrightarrow> \<not> value_needs_subject v bs \<Longrightarrow> resolve_operand v ctx bs = resolve_operand v ctx' bs"
proof (induction v rule: measure_induct_rule [where f = size])
  case (less v)
  show ?case
  proof (cases v)
    case (JString s)
    show ?thesis
    proof (cases "is_reference s")
      case True
      then have "resolve_expression_optional s ctx bs = resolve_expression_optional s ctx' bs"
        using less.prems by (intro same_input_expression [OF same])
          (auto simp: JString is_reference_def value_needs_subject.simps Let_def)
      then show ?thesis by (simp add: JString fun_eq_iff resolve_operand_simps(1) [OF True])
    qed (simp add: JString fun_eq_iff resolve_operand_simps(2))
  next
    case (JArray vs)
    have "resolve_operand w ctx bs = resolve_operand w ctx' bs" if "w \<in> set vs" for w
      using less.prems that by (intro less.IH)
        (auto simp: JArray size_json list_ex_iff value_needs_subject.simps [of "JArray vs"])
    then have "ev_map (\<lambda>w u. resolve_operand w ctx bs u) vs u = ev_map (\<lambda>w u. resolve_operand w ctx' bs u) vs u" for u
      by (intro ev_map_cong) auto
    then show ?thesis
      unfolding JArray fun_eq_iff resolve_operand_simps by simp
  next
    case (JObject m)
    have "resolve_operand w ctx bs = resolve_operand w ctx' bs" if "(k, w) \<in> set m" for k w
      using less.prems that by (intro less.IH)
        (auto simp: JObject size_json list_ex_iff value_needs_subject.simps [of "JObject m"])
    then have "ev_map (\<lambda>(k, w) u. resolve_operand w ctx bs u) m u = ev_map (\<lambda>(k, w) u. resolve_operand w ctx' bs u) m u" for u
      by (intro ev_map_cong) auto
    then show ?thesis
      unfolding JObject fun_eq_iff resolve_operand_simps by simp
  qed (simp_all add: fun_eq_iff resolve_operand_simps)
qed

text \<open>A leaf reads its context through its operands and the definition alone.\<close>

lemma leaf_cong:
  assumes d: "tc_definition ctx = tc_definition ctx'" and leaf: "is_leaf c"
    and op: "\<And>v. v \<in> set (leaf_operands c) \<Longrightarrow> resolve_operand v ctx bs = resolve_operand v ctx' bs"
  shows "evaluate_condition c ctx bs = evaluate_condition c ctx' bs"
proof -
  have equal: "equal_under ctx = equal_under ctx'"
    by (simp add: fun_eq_iff equal_under_def service_def d)
  have scalars: "compare_scalars k ctx = compare_scalars k ctx'" for k
    unfolding fun_eq_iff compare_scalars_def d by (intro allI refl)
  have test: "value_test a b ctx bs decide = value_test a b ctx' bs decide"
    if "resolve_operand a ctx bs = resolve_operand a ctx' bs" "resolve_operand b ctx bs = resolve_operand b ctx' bs" for a b decide
    using that by (intro ext) (simp add: value_test_def resolve_pair_def)
  note defs = evaluate_condition.simps evaluate_compare_def compare_instants_def resolve_pair_def
      compare_values_def compare_numbers_def compare_strings_def evaluate_in_def
      evaluate_contains_def
  show ?thesis
    using leaf op
    by (intro ext; cases c) (simp_all add: is_leaf_def leaf_operands_def defs test scalars, unfold equal, simp_all)
qed

lemma same_input_leaf:
  assumes same: "same_input ctx ctx'" and leaf: "is_leaf c"
    and ok: "condition_ok False (map fst bs) c" and free: "\<not> condition_needs_subject c bs"
  shows "evaluate_condition c ctx bs = evaluate_condition c ctx' bs"
proof (rule leaf_cong [OF _ leaf])
  show "tc_definition ctx = tc_definition ctx'" using same by (simp add: same_input_def)
  show "resolve_operand v ctx bs = resolve_operand v ctx' bs" if "v \<in> set (leaf_operands c)" for v
    using that ok free leaf
    by (intro same_input_operand [OF same])
      (cases c; auto simp: condition_ok_leaf leaf_operands_def condition_needs_subject_def Let_def is_leaf_def)+
qed

lemma same_input_elements:
  assumes same: "same_input ctx ctx'"
  shows "element_declaration q ctx bs = element_declaration q ctx' bs"
  using same by (simp add: element_declaration_def same_input_def)

lemma sound_for_fold_and:
  assumes "\<And>x. x \<in> set xs \<Longrightarrow> sound_for (p x) (g x)"
  shows "sound_for a t \<Longrightarrow> sound_for (fold (\<lambda>x acc. partial_and acc x) (map p xs) a) (fold (\<lambda>x acc. truth_and acc x) (map g xs) t)"
  using assms by (induction xs arbitrary: a t) (simp_all add: sound_for_and)

lemma sound_for_fold_or:
  assumes "\<And>x. x \<in> set xs \<Longrightarrow> sound_for (p x) (g x)"
  shows "sound_for a t \<Longrightarrow> sound_for (fold (\<lambda>x acc. partial_or acc x) (map p xs) a) (fold (\<lambda>x acc. truth_or acc x) (map g xs) t)"
  using assms by (induction xs arbitrary: a t) (simp_all add: sound_for_or)

definition answers_soundly :: "partial_truth evaluation \<Rightarrow> truth \<Rightarrow> bool" where
  "answers_soundly m t \<longleftrightarrow> (\<exists>p. answers m p \<and> sound_for p t)"

lemma answers_soundlyI: "answers m p \<Longrightarrow> sound_for p t \<Longrightarrow> answers_soundly m t"
  by (auto simp: answers_soundly_def)

lemma answers_soundly_choice:
  assumes "\<And>x. x \<in> A \<Longrightarrow> answers_soundly (f x) (g x)"
  obtains p where "\<And>x. x \<in> A \<Longrightarrow> answers (f x) (p x)" "\<And>x. x \<in> A \<Longrightarrow> sound_for (p x) (g x)"
proof -
  have "\<forall>x \<in> A. \<exists>p. answers (f x) p \<and> sound_for p (g x)" using assms by (simp add: answers_soundly_def)
  then obtain p where "\<forall>x \<in> A. answers (f x) (p x) \<and> sound_for (p x) (g x)" by (rule bchoice [THEN exE])
  then show thesis using that by blast
qed

lemma answers_soundly_all:
  assumes "\<And>x. x \<in> set xs \<Longrightarrow> answers_soundly (f x) (g x)"
  shows "answers_soundly (\<lambda>u. rfold (join_step partial_and f) xs (Known True3, u)) (truth.all_of (map g xs))"
    and "answers_soundly (\<lambda>u. rfold (join_step partial_or f) xs (Known False3, u)) (truth.any_of (map g xs))"
proof -
  obtain p where p: "\<And>x. x \<in> set xs \<Longrightarrow> answers (f x) (p x)" "\<And>x. x \<in> set xs \<Longrightarrow> sound_for (p x) (g x)"
    using answers_soundly_choice [of "set xs" f g, OF assms] by blast
  show "answers_soundly (\<lambda>u. rfold (join_step partial_and f) xs (Known True3, u)) (truth.all_of (map g xs))"
    unfolding truth.all_of_def
    by (rule answers_soundlyI, rule answers_join, rule p, assumption, rule sound_for_fold_and, rule p, assumption, simp)
  show "answers_soundly (\<lambda>u. rfold (join_step partial_or f) xs (Known False3, u)) (truth.any_of (map g xs))"
    unfolding truth.any_of_def
    by (rule answers_soundlyI, rule answers_join, rule p, assumption, rule sound_for_fold_or, rule p, assumption, simp)
qed

lemmas before_load_simps = evaluate_condition_before_load.simps [of "CAll cs" for cs]
  evaluate_condition_before_load.simps [of "CAny cs" for cs] evaluate_condition_before_load.simps [of "CNot d" for d]
  evaluate_condition_before_load.simps [of "CForAll q" for q] evaluate_condition_before_load.simps [of "CForAny q" for q]

lemma before_load_leaf:
  "is_leaf c \<Longrightarrow> evaluate_condition_before_load c ctx bs u =
     (if condition_needs_subject c bs then Ok (NeedsSubject, u)
      else rbind (evaluate_condition c ctx bs u) (\<lambda>(t, u). Ok (Known t, u)))"
  by (subst evaluate_condition_before_load.simps, cases c) (simp_all add: is_leaf_def)

lemma quantify_before_load_sound:
  assumes same: "same_input ctx ctx'"
    and over: "value_ok False (map fst bs) (over q)" "tc_id ctx \<noteq> None"
    and body: "\<And>e. answers_soundly (eval ((bind_name q, e, element_declaration q ctx' bs) # bs)) (g e)"
  shows "answers_soundly (quantify_before_load eval q ctx bs mode) (case walked_elements q ctx' bs of
      None \<Rightarrow> Unknown | Some es \<Rightarrow> joined mode (map g es))"
proof (cases "value_needs_subject (over q) bs")
  case True
  then have "answers (quantify_before_load eval q ctx bs mode) NeedsSubject"
    by (intro answers_return) (simp add: quantify_before_load_def)
  then show ?thesis by (rule answers_soundlyI) simp
next
  case False
  have operand: "resolve_operand (over q) ctx bs = resolve_operand (over q) ctx' bs"
    using same_input_operand [OF same over(1) False] .
  have declared: "element_declaration q ctx bs = element_declaration q ctx' bs"
    by (rule same_input_elements [OF same])
  have total: "total (resolve_operand (over q) ctx' bs)"
    using resolve_operand_total [OF over] by (simp add: operand)
  let ?ev = "\<lambda>e. eval ((bind_name q, e, element_declaration q ctx' bs) # bs)"
  define k where "k collection = (\<lambda>u. case Option.bind collection elements_of of
          None \<Rightarrow> Ok (Known Unknown, u)
        | Some elements \<Rightarrow> (case mode of
                QAll \<Rightarrow> rfold (join_step partial_and ?ev) elements (Known True3, u)
              | QAny \<Rightarrow> rfold (join_step partial_or ?ev) elements (Known False3, u)))" for collection
  have "answers_soundly (k (answer_of (resolve_operand (over q) ctx' bs))) (case walked_elements q ctx' bs of
      None \<Rightarrow> Unknown | Some es \<Rightarrow> joined mode (map g es))"
  proof (cases "walked_elements q ctx' bs")
    case None
    then have "answers (k (answer_of (resolve_operand (over q) ctx' bs))) (Known Unknown)"
      by (intro answers_return) (simp add: k_def walked_elements_def)
    with None show ?thesis by (intro answers_soundlyI) auto
  next
    case (Some es)
    then show ?thesis
      using answers_soundly_all [of es ?ev g, OF body]
      by (cases mode) (simp_all add: k_def walked_elements_def joined_def)
  qed
  then obtain p where p: "answers (k (answer_of (resolve_operand (over q) ctx' bs))) p"
      "sound_for p (case walked_elements q ctx' bs of None \<Rightarrow> Unknown | Some es \<Rightarrow> joined mode (map g es))"
    by (auto simp: answers_soundly_def)
  have "answers (quantify_before_load eval q ctx bs mode) p"
    by (rule answers_bind [where k = k, OF total p(1)])
      (simp only: quantify_before_load_def k_def Let_def False if_False operand declared)
  then show ?thesis using p(2) by (rule answers_soundlyI)
qed

text \<open>An answer given without the subject is the answer the loaded subject would get.\<close>

lemma before_load_sound:
  assumes same: "same_input ctx ctx'" and i: "tc_id ctx \<noteq> None"
  shows "condition_ok False (map fst bs) c \<Longrightarrow> answers_soundly (evaluate_condition_before_load c ctx bs) (meaning c ctx' bs)"
proof (induction c arbitrary: bs rule: measure_induct_rule [where f = size])
  case (less c)
  note IH = less.IH
  note ok = less.prems [unfolded condition_ok.simps [of False "map fst bs" c]]
  have i': "tc_id ctx' \<noteq> None" using same i by (simp add: same_input_def)
  have quantified: "answers_soundly (quantify_before_load (\<lambda>bs u. evaluate_condition_before_load (body q) ctx bs u) q ctx bs mode)
      (case walked_elements q ctx' bs of None \<Rightarrow> Unknown | Some es \<Rightarrow>
        joined mode (map (\<lambda>e. meaning (body q) ctx' ((bind_name q, e, element_declaration q ctx' bs) # bs)) es))"
    if "value_ok False (map fst bs) (over q)" "condition_ok False (bind_name q # map fst bs) (body q)" "size q < size c" for q mode
    using that(1) i
  proof (rule quantify_before_load_sound [OF same])
    show "answers_soundly (evaluate_condition_before_load (body q) ctx ((bind_name q, e, element_declaration q ctx' bs) # bs))
        (meaning (body q) ctx' ((bind_name q, e, element_declaration q ctx' bs) # bs))" for e
      using that size_quantifier_body [of q] by (intro IH) auto
  qed
  show ?case
  proof (cases c rule: condition_cases_leaf)
    case (all cs)
    have "answers_soundly (evaluate_condition_before_load d ctx bs) (meaning d ctx' bs)" if "d \<in> set cs" for d
      using ok all that by (intro IH) (auto simp: list_all_iff size_condition_member)
    from answers_soundly_all(1) [of cs, OF this] show ?thesis
      by (simp add: all before_load_simps [abs_def] meaning_simps)
  next
    case (any cs)
    have "answers_soundly (evaluate_condition_before_load d ctx bs) (meaning d ctx' bs)" if "d \<in> set cs" for d
      using ok any that by (intro IH) (auto simp: list_all_iff size_condition_member)
    from answers_soundly_all(2) [of cs, OF this] show ?thesis
      by (simp add: any before_load_simps [abs_def] meaning_simps)
  next
    case (neg d)
    then have "answers_soundly (evaluate_condition_before_load d ctx bs) (meaning d ctx' bs)" using ok by (intro IH) auto
    then obtain p where p: "answers (evaluate_condition_before_load d ctx bs) p" "sound_for p (meaning d ctx' bs)"
      by (auto simp: answers_soundly_def)
    from total_image(1) [OF p(1) before_load_simps(3) [of d ctx bs, unfolded condition.case]] sound_for_not [OF p(2)]
    show ?thesis by (simp add: neg meaning_simps answers_soundlyI)
  next
    case (for_all q)
    then show ?thesis
      using quantified [of q QAll] ok
      by (simp add: before_load_simps [abs_def] meaning_simps joined_def cong: option.case_cong)
  next
    case (for_any q)
    then show ?thesis
      using quantified [of q QAny] ok
      by (simp add: before_load_simps [abs_def] meaning_simps joined_def cong: option.case_cong)
  next
    case leaf
    show ?thesis
    proof (cases "condition_needs_subject c bs")
      case True
      then have "answers (evaluate_condition_before_load c ctx bs) NeedsSubject"
        by (intro answers_return) (simp add: before_load_leaf [OF leaf])
      then show ?thesis by (rule answers_soundlyI) simp
    next
      case False
      have "total (evaluate_condition c ctx' bs)" using leaf less.prems i' by (rule leaf_total)
      then have "answers (evaluate_condition_before_load c ctx bs) (Known (answer_of (evaluate_condition c ctx' bs)))"
        by (rule total_image(1)) (simp add: before_load_leaf [OF leaf] False same_input_leaf [OF same leaf less.prems False])
      then show ?thesis by (rule answers_soundlyI) (simp add: meaning_leaf [OF leaf])
    qed
  qed
qed

end
