(* ===== verification/Identity.thy ===== *)
theory Identity
  imports Definition Observed Errors
begin

text \<open>
  \<open>entity-core/src/identity.rs\<close>: the storage address of a logical identity. The JSON quoting of a
  string inside a composite is \<open>serde_json\<close>'s, the parameter \<open>quote\<close>.
\<close>

datatype address_error =
    KindNotAddressable string
  | ValueNotOfKind string string
  | NumberOutsideSourceDomain number
  | NullInComposite

text \<open>\<open>impl Display for AddressError\<close>.\<close>

fun address_error_message :: "address_error \<Rightarrow> message" where
  "address_error_message (KindNotAddressable k) = Msg ''a {} identity has no address: it types nothing, so no address function over it could be injective'' [ArgText k]"
| "address_error_message (ValueNotOfKind k found) = Msg ''a {} identity cannot be addressed from {}'' [ArgText k, ArgText found]"
| "address_error_message (NumberOutsideSourceDomain token) = Msg ''the number {} is outside the source observation domain, so it has no canonical address'' [ArgText token]"
| "address_error_message NullInComposite = plain ''a composite identity cannot carry a null member''"

definition numeric_text :: "number \<Rightarrow> (address_error, string) result" where
  "numeric_text n = (case of_number n of
     Some x \<Rightarrow> Ok (observed_text x)
   | None \<Rightarrow> Err (NumberOutsideSourceDomain n))"

fun intercalate :: "string \<Rightarrow> string list \<Rightarrow> string" where
  "intercalate sep [] = []"
| "intercalate sep [x] = x"
| "intercalate sep (x # y # xs) = x @ sep @ intercalate sep (y # xs)"

text \<open>\<open>write_canonical\<close>; a map is already in key order, so the sort of its keys changes nothing.\<close>

fun write_canonical :: "(string \<Rightarrow> string) \<Rightarrow> json \<Rightarrow> (address_error, string) result" where
  "write_canonical quote JNull = Err NullInComposite"
| "write_canonical quote (JBool b) = Ok (if b then ''true'' else ''false'')"
| "write_canonical quote (JNumber n) = numeric_text n"
| "write_canonical quote (JString s) = Ok (quote s)"
| "write_canonical quote (JArray xs) =
     rbind (rmap (write_canonical quote) xs) (\<lambda>ts. Ok (''['' @ intercalate '','' ts @ '']''))"
| "write_canonical quote (JObject m) =
     rbind (rmap (\<lambda>kv. rbind (write_canonical quote (snd kv)) (\<lambda>t. Ok (quote (fst kv) @ '':'' @ t))) m)
       (\<lambda>ts. Ok (''{'' @ intercalate '','' ts @ ''}''))"

definition address :: "(string \<Rightarrow> string) \<Rightarrow> field_kind \<Rightarrow> json \<Rightarrow> (address_error, string) result" where
  "address quote kind v =
     (let wrong = Err (ValueNotOfKind (kind_as_str kind) (describe v)) in
      case kind of
        KString \<Rightarrow> (case as_str v of Some t \<Rightarrow> Ok (''s:'' @ t) | None \<Rightarrow> wrong)
      | KEnum \<Rightarrow> (case as_str v of Some t \<Rightarrow> Ok (''s:'' @ t) | None \<Rightarrow> wrong)
      | KRef \<Rightarrow> (case as_str v of Some t \<Rightarrow> Ok (''s:'' @ t) | None \<Rightarrow> wrong)
      | KInteger \<Rightarrow> (case as_number v of Some n \<Rightarrow> numeric_text n | None \<Rightarrow> wrong)
      | KNumber \<Rightarrow> (case as_number v of Some n \<Rightarrow> numeric_text n | None \<Rightarrow> wrong)
      | KBinary64 \<Rightarrow> (case as_number v of Some n \<Rightarrow> numeric_text n | None \<Rightarrow> wrong)
      | KBoolean \<Rightarrow> (case as_bool v of Some b \<Rightarrow> Ok (if b then ''true'' else ''false'') | None \<Rightarrow> wrong)
      | KArray \<Rightarrow> (case v of JArray _ \<Rightarrow> write_canonical quote v | _ \<Rightarrow> wrong)
      | KObject \<Rightarrow> (case v of JObject _ \<Rightarrow> write_canonical quote v | _ \<Rightarrow> wrong)
      | KMap \<Rightarrow> (case v of JObject _ \<Rightarrow> write_canonical quote v | _ \<Rightarrow> wrong)
      | KUnion \<Rightarrow> (case v of JObject _ \<Rightarrow> write_canonical quote v | _ \<Rightarrow> wrong)
      | KJson \<Rightarrow> Err (KindNotAddressable (kind_as_str kind)))"

section \<open>An address is never blank\<close>

definition visible_ascii :: "char \<Rightarrow> bool" where
  "visible_ascii c \<longleftrightarrow> (32::nat) < of_char c \<and> (of_char c :: nat) < 128"

lemma not_blank_ascii: "visible_ascii c \<Longrightarrow> \<not> is_blank (c # r)"
proof -
  assume c: "visible_ascii c"
  have "\<not> is_whitespace (c # t)" for t
  proof
    assume "is_whitespace (c # t)"
    then have "c \<in> set (map hd [[CHR 0x09], [CHR 0x0A], [CHR 0x0B], [CHR 0x0C], [CHR 0x0D], [CHR 0x20],
      [CHR 0xC2], [CHR 0xE1], [CHR 0xE2], [CHR 0xE3]])"
      unfolding is_whitespace_def by simp (elim disjE conjE; simp)
    with c show False by (auto simp: visible_ascii_def)
  qed
  moreover have "c # takeWhile is_continuation r \<in> set (utf8_chars (c # r))" by simp
  ultimately show ?thesis unfolding is_blank_iff by blast
qed

lemma show_nat_visible: "show_nat n = c # r \<Longrightarrow> visible_ascii c"
  using show_nat_head [of n c r] by (auto simp: is_digit_def visible_ascii_def)

lemma exact_text_visible: "\<exists>c r. exact_text u s = c # r \<and> visible_ascii c"
proof -
  obtain c r where n: "show_nat (nat \<bar>u\<bar>) = c # r" by (cases "show_nat (nat \<bar>u\<bar>)") simp_all
  note c = show_nat_visible [OF n]
  show ?thesis
    using c by (auto simp: exact_text_spelled n take_Cons' visible_ascii_def)
qed

lemma f64_display_visible: "\<exists>c r. f64_display x = c # r \<and> visible_ascii c"
proof (cases x)
  case (Finite neg m q)
  obtain n p where np: "f64_shortest m q = (n, p)" by fastforce
  obtain c r where n: "show_nat n = c # r" by (cases "show_nat n") simp_all
  note c = show_nat_visible [OF n]
  show ?thesis
    using c by (auto simp: Finite np n Let_def take_Cons' visible_ascii_def)
qed (auto simp: visible_ascii_def)

lemma numeric_text_visible: "numeric_text n = Ok a \<Longrightarrow> \<exists>c r. a = c # r \<and> visible_ascii c"
  using exact_text_visible f64_display_visible
  by (auto simp: numeric_text_def observed_text_def split: option.splits observed.splits)

lemma address_composite:
  "address quote KArray v = Ok a \<Longrightarrow> \<exists>xs. v = JArray xs \<and> write_canonical quote (JArray xs) = Ok a"
  "kind \<in> {KObject, KMap, KUnion} \<Longrightarrow> address quote kind v = Ok a \<Longrightarrow>
     \<exists>m. v = JObject m \<and> write_canonical quote (JObject m) = Ok a"
  by (cases v; simp add: address_def del: write_canonical.simps)
     (cases v; elim insertE emptyE; simp add: address_def del: write_canonical.simps)

lemma address_visible:
  assumes "address quote kind v = Ok a"
  shows "\<exists>c r. a = c # r \<and> visible_ascii c"
proof -
  have bracket: "\<exists>r. b = CHR ''['' # r" if "write_canonical quote (JArray xs) = Ok b" for xs b
    using that by (auto simp: res_simps)
  have brace: "\<exists>r. b = CHR ''{'' # r" if "write_canonical quote (JObject m) = Ok b" for m b
    using that by (auto simp: res_simps)
  consider (str) "kind \<in> {KString, KEnum, KRef}" | (numeric) "kind \<in> {KInteger, KNumber, KBinary64}"
    | (boolean) "kind = KBoolean" | (array) "kind = KArray" | (object) "kind \<in> {KObject, KMap, KUnion}"
    | (json) "kind = KJson" by (cases kind) auto
  then show ?thesis
  proof cases
    case str
    with assms show ?thesis by (auto simp: address_def visible_ascii_def split: option.splits)
  next
    case numeric
    with assms show ?thesis by (auto simp: address_def split: option.splits dest!: numeric_text_visible)
  next
    case boolean
    with assms have "a = ''true'' \<or> a = ''false''"
      by (cases v) (simp_all add: address_def split: if_splits)
    then show ?thesis by (elim disjE) (simp_all add: visible_ascii_def)
  next
    case array
    then obtain xs where "write_canonical quote (JArray xs) = Ok a"
      using address_composite(1) assms by metis
    moreover have "visible_ascii CHR ''[''" by (simp add: visible_ascii_def)
    ultimately show ?thesis using bracket by metis
  next
    case object
    then obtain m where "write_canonical quote (JObject m) = Ok a"
      using address_composite(2) assms by metis
    moreover have "visible_ascii CHR ''{''" by (simp add: visible_ascii_def)
    ultimately show ?thesis using brace by metis
  next
    case json
    with assms show ?thesis by (simp add: address_def)
  qed
qed

section \<open>Addresses separate values\<close>

lemma address_text_inject:
  assumes "kind \<in> {KString, KEnum, KRef}" "address quote kind v = Ok a" "address quote kind w = Ok a"
  shows "v = w"
  using assms by (auto simp: address_def split: option.splits)

lemma numeric_text_Exact:
  assumes "of_number m = Some (Exact u s b)" "of_number n = Some (Exact u' s' b')"
  shows "numeric_text m = numeric_text n \<longleftrightarrow> observed_cmp (Exact u s b) (Exact u' s' b') = Equal"
  using assms of_number_ok [OF assms(1)] of_number_ok [OF assms(2)]
  by (simp add: numeric_text_def observed_text_def observed_cmp_def exact_text_inject)

end
