(* ===== verification/Kernel.thy ===== *)
theory Kernel
  imports Preload Identity
begin

text \<open>
  The data of a decision and the steps the kernel is made of (\<open>entity-core/src/runtime.rs\<close>). Each step is
  one definition; \<open>Decide\<close> composes them. \<open>serde\<close> and \<open>serde_json\<close> are not part of the program: what the
  kernel takes from them is the record \<open>serde\<close>, an argument of the definitions that call them.
\<close>

section \<open>Instances, events, records\<close>

record serde =
  sd_quote :: "string \<Rightarrow> string"
  sd_to_value :: "entity_definition \<Rightarrow> json option"
  sd_from_value :: "json \<Rightarrow> entity_definition option"

record entity_instance =
  in_entity :: string
  in_version :: "32 word"
  in_id :: string
  in_state :: string
  in_revision :: "64 word"
  in_fields :: jmap

record domain_event =
  ev_entity :: string
  ev_version :: "32 word"
  ev_id :: string
  ev_revision :: "64 word"
  ev_type :: string
  ev_from_state :: "string option"
  ev_to_state :: string
  ev_changed :: jmap
  ev_removed :: "string list"
  ev_args :: jmap
  ev_payload :: json

type_synonym actions = "operation_field_action smap"

datatype decision_command =
    CommandCreate (created_fields: jmap) (create_arguments: jmap)
  | CommandExecute (executed: string) (execute_arguments: jmap) (fulfilled: actions)
  | LegacyImport

datatype decision_effect = Created | Moved | Updated | Unchanged

record decision_record =
  dr_definition :: "entity_definition option"
  dr_command :: decision_command
  dr_entity :: string
  dr_id :: string
  dr_revision :: "64 word"
  dr_from_state :: "string option"
  dr_to_state :: string
  dr_result :: entity_instance
  dr_changed :: jmap
  dr_removed :: "string list"
  dr_events :: "domain_event list"
  dr_outcome :: "string option"
  dr_effect :: "decision_effect option"
  dr_response :: "jmap option"

record decision =
  dn_instance :: entity_instance
  dn_record :: decision_record
  dn_events :: "domain_event list"

record refusal =
  rf_outcome :: string
  rf_error :: string
  rf_message :: "string option"

datatype kernel_answer = Accepted decision | RefusedBranch refusal

definition into_decision :: "kernel_answer \<Rightarrow> decision core_result" where
  "into_decision e = (case e of
     Accepted d \<Rightarrow> Ok d
   | RefusedBranch r \<Rightarrow> Err (Refused (rf_outcome r) (rf_error r) (rf_message r)))"

definition accepted :: "kernel_answer \<Rightarrow> decision option" where
  "accepted e = (case e of Accepted d \<Rightarrow> Some d | RefusedBranch _ \<Rightarrow> None)"

definition legacy_import :: "entity_instance \<Rightarrow> domain_event list \<Rightarrow> decision" where
  "legacy_import i events =
     \<lparr>dn_instance = i,
      dn_record = \<lparr>dr_definition = None, dr_command = LegacyImport, dr_entity = in_entity i, dr_id = in_id i,
        dr_revision = in_revision i, dr_from_state = None, dr_to_state = in_state i, dr_result = i,
        dr_changed = in_fields i, dr_removed = [], dr_events = events, dr_outcome = None, dr_effect = None,
        dr_response = None\<rparr>,
      dn_events = events\<rparr>"

datatype response_check = Checked | Recorded

section \<open>Normal forms of the input\<close>

definition into_object :: "json \<Rightarrow> string \<Rightarrow> jmap core_result" where
  "into_object v path = (case v of
     JObject m \<Rightarrow> Ok (canonical_object m)
   | _ \<Rightarrow> Err (Validation [ve_new path (plain ''expected object'')]))"

definition require_valid :: "findings \<Rightarrow> unit core_result" where
  "require_valid errors = ensure (errors = []) (Validation errors)"

definition normalize_arguments :: "entity_definition \<Rightarrow> string \<Rightarrow> json \<Rightarrow> jmap core_result" where
  "normalize_arguments d operation_name arguments =
     rbind (ok_or (bt_get (def_operations d) operation_name) (OperationNotFound operation_name)) (\<lambda>op.
     rbind (into_object arguments ''arguments'') (\<lambda>object.
     let args = apply_defaults (op_arguments op) object in
     rbind (require_valid (validate_object_under (op_arguments op) args ''arguments'' (def_semantics d))) (\<lambda>_.
     Ok args)))"

definition ensure_entity_matches :: "entity_definition \<Rightarrow> entity_instance \<Rightarrow> unit core_result" where
  "ensure_entity_matches d i =
     (if def_entity d \<noteq> in_entity i \<or> def_version d \<noteq> in_version i
      then Err (EntityMismatch (def_entity d) (def_version d) (in_entity i) (in_version i))
      else Ok ())"

definition ensure_state_known :: "entity_definition \<Rightarrow> entity_instance \<Rightarrow> unit core_result" where
  "ensure_state_known d i =
     ensure (in_state i \<in> set (lc_states (def_lifecycle d))) (UnknownState (def_entity d) (in_state i))"

definition ensure_instance_matches :: "entity_definition \<Rightarrow> entity_instance \<Rightarrow> unit core_result" where
  "ensure_instance_matches d i = rbind (ensure_entity_matches d i) (\<lambda>_. ensure_state_known d i)"

definition definition_snapshot :: "serde \<Rightarrow> entity_definition \<Rightarrow> entity_definition core_result" where
  "definition_snapshot S d =
     rbind (ok_or (sd_to_value S d) (Panicked ''an EntityDefinition always serializes to JSON'')) (\<lambda>v.
     ok_or (sd_from_value S (canonicalize v))
       (Panicked ''canonicalizing JSON cannot change the shape of an EntityDefinition''))"

section \<open>Rules\<close>

definition rule_text :: "rule_definition \<Rightarrow> string \<Rightarrow> message" where
  "rule_text rule otherwise = plain (case rule_message rule of Some m \<Rightarrow> m | None \<Rightarrow> otherwise)"

fun check_preconditions :: "string \<Rightarrow> rule_definition list \<Rightarrow> template_context \<Rightarrow> unit core_result" where
  "check_preconditions operation_name [] ctx = Ok ()"
| "check_preconditions operation_name (rule # rules) ctx =
     rbind (evaluate_condition (rule_condition rule) ctx [] []) (\<lambda>(t, unobserved).
       case t of
         True3 \<Rightarrow> check_preconditions operation_name rules ctx
       | False3 \<Rightarrow> Err (PreconditionFailed operation_name (rule_name rule)
           (rule_text rule ''condition evaluated to false''))
       | Unknown \<Rightarrow> Err (PreconditionUnobservable operation_name (rule_name rule)
           (rule_text rule ''condition could not be evaluated'') unobserved))"

fun invariants_hold :: "rule_definition list \<Rightarrow> template_context \<Rightarrow> unit core_result" where
  "invariants_hold [] ctx = Ok ()"
| "invariants_hold (rule # rules) ctx =
     rbind (evaluate_condition (rule_condition rule) ctx [] []) (\<lambda>(t, unobserved).
       case t of
         True3 \<Rightarrow> invariants_hold rules ctx
       | False3 \<Rightarrow> Err (InvariantViolation (rule_name rule) (rule_text rule ''condition evaluated to false''))
       | Unknown \<Rightarrow> Err (InvariantUnobservable (rule_name rule)
           (rule_text rule ''condition could not be evaluated'') unobserved))"

definition check_invariants :: "entity_definition \<Rightarrow> template_context \<Rightarrow> unit core_result" where
  "check_invariants d ctx = invariants_hold (def_invariants d) ctx"

section \<open>Identity\<close>

definition check_identity_mirror :: "serde \<Rightarrow> entity_definition \<Rightarrow> entity_instance \<Rightarrow> unit core_result" where
  "check_identity_mirror S d i = (case def_identity d of
     None \<Rightarrow> Ok ()
   | Some identity \<Rightarrow>
       (let kind = (case bt_get (os_fields (def_schema d)) (id_field identity) of Some f \<Rightarrow> fd_kind f | None \<Rightarrow> KString);
            derived = (case bt_get (in_fields i) (id_field identity) of
                Some v \<Rightarrow> (case address (sd_quote S) kind v of Ok a \<Rightarrow> Ok a | Err e \<Rightarrow> Err (address_error_message e))
              | None \<Rightarrow> Err (plain ''the identity field carries no value''))
        in case derived of
             Ok a \<Rightarrow> if a = in_id i then Ok ()
               else Err (IdentityMismatch (id_field identity) (in_id i) (Msg ''{}'' [ArgText a]))
           | Err detail \<Rightarrow> Err (IdentityMismatch (id_field identity) (in_id i) detail)))"

definition derive_creation_identity :: "serde \<Rightarrow> entity_definition \<Rightarrow> jmap \<Rightarrow> string core_result" where
  "derive_creation_identity S d object =
     rbind (ok_or (def_identity d) (CreationIdentityUnavailable (def_entity d)
       (plain ''the validated definition declares no logical identity field''))) (\<lambda>identity.
     rbind (ok_or (bt_get (os_fields (def_schema d)) (id_field identity)) (CreationIdentityUnavailable (def_entity d)
       (Msg ''the declared identity field {} is absent from the schema'' [ArgText (id_field identity)]))) (\<lambda>field.
     rbind (ok_or (bt_get object (id_field identity)) (CreationIdentityUnavailable (def_entity d)
       (Msg ''the selected fields carry no value for {}'' [ArgText (id_field identity)]))) (\<lambda>v.
     case address (sd_quote S) (fd_kind field) v of
       Ok a \<Rightarrow> Ok a
     | Err e \<Rightarrow> Err (CreationIdentityUnavailable (def_entity d)
         (case address_error_message e of Msg t args \<Rightarrow>
            Msg (''identity field {}: '' @ t) (ArgText (id_field identity) # args))))))"

section \<open>Writing fields\<close>

text \<open>\<open>argument_presence\<close>: the leaf a dotted argument path reaches through objects.\<close>

fun object_path :: "json \<Rightarrow> string list \<Rightarrow> json option" where
  "object_path v [] = Some v"
| "object_path v (segment # segments) =
     (case Option.bind (as_object v) (\<lambda>m. bt_get m segment) of
        Some next \<Rightarrow> object_path next segments
      | None \<Rightarrow> None)"

definition argument_presence :: "jmap \<Rightarrow> present_argument \<Rightarrow> json option" where
  "argument_presence arguments source = (case split_all is_dot (pa_argument source) of
     [] \<Rightarrow> None
   | first # segments \<Rightarrow> (case bt_get arguments first of
         Some v \<Rightarrow> object_path v segments
       | None \<Rightarrow> None))"

definition insert_present_arguments :: "jmap \<Rightarrow> present_argument smap \<Rightarrow> jmap \<Rightarrow> jmap" where
  "insert_present_arguments target conditional arguments =
     fold (\<lambda>(field, source) target. case argument_presence arguments source of
         Some v \<Rightarrow> bt_insert field (canonicalize v) target
       | None \<Rightarrow> target) conditional target"

text \<open>The integer of either width, as the \<open>i128\<close> the sum is taken in.\<close>

definition integer_of :: "number \<Rightarrow> int option" where
  "integer_of n = (case as_i64 n of Some i \<Rightarrow> Some i | None \<Rightarrow> map_option int (as_u64 n))"

definition i64_range :: "int \<Rightarrow> bool" where "i64_range i \<longleftrightarrow> - (2 ^ 63) \<le> i \<and> i < 2 ^ 63"
definition u64_range :: "int \<Rightarrow> bool" where "u64_range i \<longleftrightarrow> 0 \<le> i \<and> i < 2 ^ 64"

definition integer_range :: "bool \<Rightarrow> message" where
  "integer_range under_service =
     (if under_service then Msg ''the service integer range [{}, {}]'' [ArgText (show_int (- (2 ^ 63))), ArgText (show_int (2 ^ 63 - 1))]
      else Msg ''the kernel/1 integer range [{}, {}]'' [ArgText (show_int (- (2 ^ 63))), ArgText (show_int (2 ^ 64 - 1))])"

definition written_sum :: "bool \<Rightarrow> int \<Rightarrow> number option" where
  "written_sum under_service i =
     (if i64_range i \<or> \<not> under_service \<and> u64_range i then Some (number_of_int i) else None)"

definition add_amount :: "string \<Rightarrow> string \<Rightarrow> template_context \<Rightarrow> number \<Rightarrow> number \<Rightarrow> core_error \<Rightarrow> json core_result" where
  "add_amount operation_name field ctx held by not_an_amount =
     (let overflow = IncrementOverflow operation_name field held by in
      if map_option fd_kind (bt_get (os_fields (def_schema (tc_definition ctx))) field) = Some KInteger then
        rbind (ok_or (integer_of held) (Validation [ve_new (''fields.'' @ field)
          (Msg ''an integer increment adds to an integer, and the instance holds {}'' [ArgText held])])) (\<lambda>left.
        rbind (ok_or (integer_of by) not_an_amount) (\<lambda>right.
        rbind (ok_or (written_sum (service ctx) (left + right)) (overflow (integer_range (service ctx)))) (\<lambda>n.
        Ok (JNumber n))))
      else
        rbind (ok_or (number_add held by) (overflow
          (Msg ''an exact sum whose operands span at most {} decimal places'' [ArgNat (nat max_sum_places)]))) (\<lambda>sum.
        if service ctx \<and> of_number sum = None
        then Err (overflow (plain ''the source observation domain, a finite binary64''))
        else Ok (JNumber sum)))"

definition incremented_value :: "string \<Rightarrow> string \<Rightarrow> json \<Rightarrow> template_context \<Rightarrow> json core_result" where
  "incremented_value operation_name field amount ctx =
     (case bt_get (tc_old_fields ctx) field of
        Some (JNumber held) \<Rightarrow>
          rbind (resolve_template amount ctx) (\<lambda>resolved.
            let not_an_amount = Template
                (case amount of JString s \<Rightarrow> plain s | _ \<Rightarrow> Msg ''{}'' [ArgJson amount])
                (Msg ''an increment of {} adds a number of the field's kind, and this is {}'' [ArgText field, ArgJson resolved])
            in case resolved of
                 JNumber by \<Rightarrow> add_amount operation_name field ctx held by not_an_amount
               | _ \<Rightarrow> Err not_an_amount)
      | _ \<Rightarrow> Err (Validation [ve_new (''fields.'' @ field)
          (plain ''an increment adds to the number the instance holds, and it holds none'')]))"

definition assigned_value :: "string \<Rightarrow> string \<Rightarrow> json \<Rightarrow> template_context \<Rightarrow> json option core_result" where
  "assigned_value operation_name field v ctx =
     (let refused = Err (Template (Msg ''{}'' [ArgJson v])
            (Msg ''the set value of {} is no single assignment registration admits'' [ArgText field]))
      in case set_assignment_of v of
        AssignTemplate template \<Rightarrow> rbind (resolve_template template ctx) (\<lambda>w. Ok (Some w))
      | AssignIncrement amount \<Rightarrow> rbind (incremented_value operation_name field amount ctx) (\<lambda>w. Ok (Some w))
      | AssignCleared (JBool True) \<Rightarrow> Ok None
      | AssignCleared _ \<Rightarrow> refused
      | AssignConflicting _ \<Rightarrow> refused)"

definition changed_fields :: "template_context \<Rightarrow> jmap" where
  "changed_fields ctx = filter (\<lambda>(name, v). bt_get (tc_old_fields ctx) name \<noteq> Some v) (tc_new_fields ctx)"

section \<open>Events and responses\<close>

definition materialize_event :: "event_definition \<Rightarrow> template_context \<Rightarrow> 64 word \<Rightarrow> jmap \<Rightarrow> string list
    \<Rightarrow> domain_event core_result" where
  "materialize_event e ctx revision args removed =
     rbind (resolve_template (ed_payload e) ctx) (\<lambda>resolved.
     let payload = canonicalize resolved in
     rbind (if ed_payload_if_present e = [] then Ok payload
            else (case payload of
                JObject m \<Rightarrow> Ok (JObject (insert_present_arguments m (ed_payload_if_present e) (tc_args ctx)))
              | _ \<Rightarrow> Err (template_error ''payload_if_present''
                  (plain ''conditional event members require an object payload'')))) (\<lambda>payload.
     rbind (ok_or (tc_id ctx) pre_address_identity_error) (\<lambda>i.
     Ok \<lparr>ev_entity = def_entity (tc_definition ctx), ev_version = def_version (tc_definition ctx), ev_id = i,
         ev_revision = revision, ev_type = ed_event_type e, ev_from_state = tc_from_state ctx,
         ev_to_state = tc_to_state ctx, ev_changed = changed_fields ctx, ev_removed = removed, ev_args = args,
         ev_payload = payload\<rparr>)))"

definition materialize_response :: "json smap \<Rightarrow> present_argument smap \<Rightarrow> object_schema \<Rightarrow> response_check
    \<Rightarrow> template_context \<Rightarrow> jmap core_result" where
  "materialize_response responds responds_if_present schema check ctx =
     rbind (rfold (\<lambda>(field, template) response.
         rbind (resolve_template template ctx) (\<lambda>v. Ok (bt_insert field (canonicalize v) response))) responds [])
       (\<lambda>response.
     let response = insert_present_arguments response responds_if_present (tc_args ctx) in
     rbind (if check = Checked
            then require_valid (validate_object_under schema response ''response'' (def_semantics (tc_definition ctx)))
            else Ok ()) (\<lambda>_.
     Ok response))"

section \<open>Branches\<close>

record branch =
  br_name :: "string option"
  br_to_state :: string
  br_set :: "json smap"
  br_set_if_present :: "present_argument smap"
  br_fulfills :: "operation_field_requirement smap option"
  br_emits :: "event_definition list"
  br_responds :: "(json smap \<times> present_argument smap) option"
  br_effect :: "decision_effect option"
  br_refuses :: "refusal_definition option"

definition branch_implicit :: "operation_definition \<Rightarrow> string \<Rightarrow> branch" where
  "branch_implicit op to_state =
     \<lparr>br_name = None, br_to_state = to_state, br_set = op_set op, br_set_if_present = [], br_fulfills = None,
      br_emits = op_emits op, br_responds = None, br_effect = None, br_refuses = None\<rparr>"

definition branch_outcome :: "outcome_definition \<Rightarrow> string \<Rightarrow> branch" where
  "branch_outcome o' from_state =
     (let (to_state, effect) = (case od_effect o' of
            Moves to from \<Rightarrow> (to, Moved)
          | Updates \<Rightarrow> (from_state, Updated)
          | EffectNone \<Rightarrow> (from_state, Unchanged)
          | Creates \<Rightarrow> (from_state, Created))
      in \<lparr>br_name = Some (od_name o'), br_to_state = to_state, br_set = od_set o',
          br_set_if_present = od_set_if_present o', br_fulfills = Some (od_fulfills o'), br_emits = od_emits o',
          br_responds = Some (od_responds o', od_responds_if_present o'), br_effect = Some effect,
          br_refuses = od_refuses o'\<rparr>)"

definition branch_refusal :: "branch \<Rightarrow> (string \<times> refusal_definition) option" where
  "branch_refusal b = do { name \<leftarrow> br_name b; refusal \<leftarrow> br_refuses b; Some (name, refusal) }"

definition refusal_of :: "string \<Rightarrow> refusal_definition \<Rightarrow> refusal" where
  "refusal_of name r = \<lparr>rf_outcome = name, rf_error = rd_error r, rf_message = rd_message r\<rparr>"

text \<open>Step 4. \<open>wrong_state\<close> branches are filtered out before the loop.\<close>

definition guarded_out :: "outcome_definition \<Rightarrow> string option \<Rightarrow> bool" where
  "guarded_out o' state = (case (od_in_state o', state) of (Some guarded, Some s) \<Rightarrow> guarded \<noteq> s | _ \<Rightarrow> False)"

fun select_first :: "string \<Rightarrow> outcome_definition list \<Rightarrow> string option \<Rightarrow> template_context
    \<Rightarrow> outcome_definition core_result" where
  "select_first command [] state ctx = Err (NoOutcomeSelected command)"
| "select_first command (o' # outcomes) state ctx =
     (if guarded_out o' state then select_first command outcomes state ctx
      else (case od_when o' of
          None \<Rightarrow> Ok o'
        | Some condition \<Rightarrow>
            rbind (evaluate_condition condition ctx [] []) (\<lambda>(t, unobserved).
              case t of
                True3 \<Rightarrow> Ok o'
              | False3 \<Rightarrow> select_first command outcomes state ctx
              | Unknown \<Rightarrow> Err (OutcomeUnobservable command (od_name o') unobserved))))"

definition select_outcome :: "string \<Rightarrow> outcome_definition list \<Rightarrow> string option \<Rightarrow> template_context
    \<Rightarrow> outcome_definition core_result" where
  "select_outcome command outcomes state ctx =
     select_first command (filter (\<lambda>o'. \<not> od_wrong_state o') outcomes) state ctx"

definition move_sources :: "operation_definition \<Rightarrow> string list" where
  "move_sources op = bs_collect (concat (List.map_filter (\<lambda>o'. effect_move_sources (od_effect o')) (op_outcomes op)))"

definition wrong_states :: "entity_definition \<Rightarrow> operation_definition \<Rightarrow> string list" where
  "wrong_states d op = bs_collect (filter (\<lambda>s. s \<notin> set (move_sources op)) (lc_states (def_lifecycle d)))"

text \<open>Step 5.\<close>

definition admit_state :: "entity_definition \<Rightarrow> operation_definition \<Rightarrow> string \<Rightarrow> outcome_definition \<Rightarrow> string
    \<Rightarrow> outcome_definition core_result" where
  "admit_state d op operation_name o' state =
     (case effect_move_sources (od_effect o') of
        None \<Rightarrow> Ok o'
      | Some from \<Rightarrow>
          if state \<in> set from then Ok o'
          else if state \<in> set (wrong_states d op)
          then ok_or (List.find od_wrong_state (op_outcomes op)) (InvalidTransition operation_name state)
          else Err (UnspecifiedMoveSource operation_name (od_name o') state from))"

end
