(* ===== verification/Decide.thy ===== *)
theory Decide
  imports Kernel
begin

text \<open>
  Creation, decision and the prepared decision of \<open>entity-core/src/runtime.rs\<close>, composed from the steps of
  \<open>Kernel\<close> in the order of the numbered step list. A refusal at any step returns before the next one.
\<close>

section \<open>Creation\<close>

definition create_command :: string where
  "create_command = ''create''"

definition blank_identity :: core_error where
  "blank_identity = Validation [ve_new ''id''
     (plain ''identity cannot be empty; the kernel generates none, so the caller supplies one'')]"

definition create_context :: "entity_definition \<Rightarrow> string option \<Rightarrow> jmap \<Rightarrow> object_schema option \<Rightarrow> jmap \<Rightarrow> template_context" where
  "create_context d i args schema new_fields =
     \<lparr>tc_definition = d, tc_id = i, tc_args = args, tc_arguments_schema = schema, tc_old_fields = [],
      tc_new_fields = new_fields, tc_from_state = None, tc_to_state = lc_initial (def_lifecycle d)\<rparr>"

definition initial_instance :: "entity_definition \<Rightarrow> string \<Rightarrow> jmap \<Rightarrow> entity_instance" where
  "initial_instance d i object =
     \<lparr>in_entity = def_entity d, in_version = def_version d, in_id = i, in_state = lc_initial (def_lifecycle d),
      in_revision = 1, in_fields = object\<rparr>"

definition created_decision :: "entity_definition \<Rightarrow> entity_instance \<Rightarrow> jmap \<Rightarrow> domain_event list \<Rightarrow> string option
    \<Rightarrow> decision_effect option \<Rightarrow> jmap option \<Rightarrow> decision" where
  "created_decision snapshot i arguments events outcome effect response =
     \<lparr>dn_instance = i,
      dn_record = \<lparr>dr_definition = Some snapshot, dr_command = CommandCreate (in_fields i) arguments,
        dr_entity = in_entity i, dr_id = in_id i, dr_revision = in_revision i, dr_from_state = None,
        dr_to_state = in_state i, dr_result = i, dr_changed = in_fields i, dr_removed = [], dr_events = events,
        dr_outcome = outcome, dr_effect = effect, dr_response = response\<rparr>,
      dn_events = events\<rparr>"

text \<open>Steps 8 and 9 of a creation: the selected branch's fields, defaulted, canonical and checked.\<close>

definition created_branch_fields :: "entity_definition \<Rightarrow> outcome_definition \<Rightarrow> template_context \<Rightarrow> jmap \<Rightarrow> jmap core_result" where
  "created_branch_fields d outcome set_context args =
     rbind (rfold (\<lambda>(field, template) object.
         rbind (resolve_template template set_context) (\<lambda>v. Ok (bt_insert field v object))) (od_set outcome) [])
       (\<lambda>object.
     let object = insert_present_arguments object (od_set_if_present outcome) args;
         object = canonical_object (apply_defaults (def_schema d) object) in
     rbind (require_valid (validate_object_under (def_schema d) object ''fields'' (def_semantics d))) (\<lambda>_.
     Ok object))"

text \<open>Steps 10 to 15 of a creation.\<close>

definition finish_service_create :: "serde \<Rightarrow> entity_definition \<Rightarrow> string option \<Rightarrow> jmap \<Rightarrow> outcome_definition
    \<Rightarrow> jmap \<Rightarrow> response_check \<Rightarrow> kernel_answer core_result" where
  "finish_service_create S d supplied_id args outcome object check =
     rbind (case supplied_id of Some i \<Rightarrow> Ok i | None \<Rightarrow> derive_creation_identity S d object) (\<lambda>i.
     let created = initial_instance d i object;
         ctx = create_context d (Some i) args (Some (cd_arguments (def_create d))) object in
     rbind (check_identity_mirror S d created) (\<lambda>_.
     rbind (check_invariants d ctx) (\<lambda>_.
     rbind (rmap (\<lambda>e. materialize_event e ctx 1 args []) (od_emits outcome)) (\<lambda>events.
     rbind (materialize_response (od_responds outcome) (od_responds_if_present outcome)
         (cd_response (def_create d)) check ctx) (\<lambda>response.
     rbind (definition_snapshot S d) (\<lambda>snapshot.
     Ok (Accepted (created_decision snapshot created args events (Some (od_name outcome))
       (Some (if od_effect outcome = Creates then Created else Unchanged)) (Some response)))))))))"

definition service_create :: "serde \<Rightarrow> entity_definition \<Rightarrow> string option \<Rightarrow> json \<Rightarrow> response_check \<Rightarrow> kernel_answer core_result" where
  "service_create S d supplied_id input check =
     (let schema = cd_arguments (def_create d) in
      rbind (into_object input ''arguments'') (\<lambda>object.
      let args = apply_defaults schema object in
      rbind (require_valid (validate_object_under schema args ''arguments'' (def_semantics d))) (\<lambda>_.
      let ctx = create_context d supplied_id args (Some schema) [] in
      rbind (select_outcome create_command (cd_outcomes (def_create d)) (Some (lc_initial (def_lifecycle d))) ctx) (\<lambda>outcome.
      case od_refuses outcome of
        Some r \<Rightarrow> Ok (RefusedBranch (refusal_of (od_name outcome) r))
      | None \<Rightarrow>
          rbind (created_branch_fields d outcome ctx args) (\<lambda>fields'.
          finish_service_create S d supplied_id args outcome fields' check)))))"

definition takes_branches :: "entity_definition \<Rightarrow> outcome_definition list \<Rightarrow> bool" where
  "takes_branches d outcomes \<longleftrightarrow> has_service_semantics (def_semantics d) \<and> outcomes \<noteq> []"

definition create_from_fields :: "serde \<Rightarrow> entity_definition \<Rightarrow> string \<Rightarrow> json \<Rightarrow> kernel_answer core_result" where
  "create_from_fields S d i input =
     rbind (into_object input ''fields'') (\<lambda>object.
     let object = apply_defaults (def_schema d) object in
     rbind (require_valid (validate_object_under (def_schema d) object ''fields'' (def_semantics d))) (\<lambda>_.
     let created = initial_instance d i object;
         ctx = create_context d (Some i) [] None object in
     rbind (check_identity_mirror S d created) (\<lambda>_.
     rbind (check_invariants d ctx) (\<lambda>_.
     rbind (case cd_emit (def_create d) of
         Some e \<Rightarrow> rbind (materialize_event e ctx 1 object []) (\<lambda>ev. Ok [ev])
       | None \<Rightarrow> Ok []) (\<lambda>events.
     rbind (definition_snapshot S d) (\<lambda>snapshot.
     Ok (Accepted (created_decision snapshot created
       (if has_service_semantics (def_semantics d) then object else []) events None None None))))))))"

definition decide_create_as :: "serde \<Rightarrow> entity_definition \<Rightarrow> string \<Rightarrow> json \<Rightarrow> response_check \<Rightarrow> kernel_answer core_result" where
  "decide_create_as S d i input check =
     (if is_blank i then Err blank_identity
      else if takes_branches d (cd_outcomes (def_create d)) then service_create S d (Some i) input check
      else create_from_fields S d i input)"

definition decide_create :: "serde \<Rightarrow> entity_definition \<Rightarrow> string \<Rightarrow> json \<Rightarrow> kernel_answer core_result" where
  "decide_create S d i input = decide_create_as S d i input Checked"

definition create :: "serde \<Rightarrow> entity_definition \<Rightarrow> string \<Rightarrow> json \<Rightarrow> decision core_result" where
  "create S d i input = rbind (decide_create S d i input) into_decision"

definition recompute_create :: "serde \<Rightarrow> entity_definition \<Rightarrow> string \<Rightarrow> json \<Rightarrow> decision core_result" where
  "recompute_create S d i input = rbind (decide_create_as S d i input Recorded) into_decision"

definition decide_create_derived :: "serde \<Rightarrow> entity_definition \<Rightarrow> json \<Rightarrow> kernel_answer core_result" where
  "decide_create_derived S d input =
     (if takes_branches d (cd_outcomes (def_create d)) then service_create S d None input Checked
      else rbind (into_object input ''fields'') (\<lambda>object.
        let object = apply_defaults (def_schema d) object in
        rbind (require_valid (validate_object_under (def_schema d) object ''fields'' (def_semantics d))) (\<lambda>_.
        let object = canonical_object object in
        rbind (derive_creation_identity S d object) (\<lambda>i.
        decide_create S d i (JObject object)))))"

definition create_derived :: "serde \<Rightarrow> entity_definition \<Rightarrow> json \<Rightarrow> decision core_result" where
  "create_derived S d input = rbind (decide_create_derived S d input) into_decision"

section \<open>Decision\<close>

definition operation_context :: "entity_definition \<Rightarrow> entity_instance \<Rightarrow> operation_definition \<Rightarrow> jmap \<Rightarrow> jmap \<Rightarrow> string
    \<Rightarrow> template_context" where
  "operation_context d i op args new_fields to_state =
     \<lparr>tc_definition = d, tc_id = Some (in_id i), tc_args = args, tc_arguments_schema = Some (op_arguments op),
      tc_old_fields = in_fields i, tc_new_fields = new_fields, tc_from_state = Some (in_state i), tc_to_state = to_state\<rparr>"

text \<open>Steps 4 and 5.\<close>

definition select_branch :: "entity_definition \<Rightarrow> entity_instance \<Rightarrow> operation_definition \<Rightarrow> string \<Rightarrow> jmap \<Rightarrow> branch core_result" where
  "select_branch d i op operation_name args =
     (if takes_branches d (op_outcomes op) then
        rbind (select_outcome operation_name (op_outcomes op) (Some (in_state i))
          (operation_context d i op args (in_fields i) (in_state i))) (\<lambda>outcome.
        rbind (admit_state d op operation_name outcome (in_state i)) (\<lambda>outcome.
        Ok (branch_outcome outcome (in_state i))))
      else
        rbind (ok_or (List.find (\<lambda>t. in_state i \<in> set (as_slice (td_from t))) (op_transitions op))
          (InvalidTransition operation_name (in_state i))) (\<lambda>transition.
        Ok (branch_implicit op (td_to transition))))"

text \<open>Step 8: the branch's assignments, then its conditional ones.\<close>

definition assign_fields :: "string \<Rightarrow> branch \<Rightarrow> template_context \<Rightarrow> jmap \<Rightarrow> (jmap \<times> string list) core_result" where
  "assign_fields operation_name selected ctx args =
     rbind (rfold (\<lambda>(field, v) (object, removed).
         rbind (assigned_value operation_name field v ctx) (\<lambda>assigned.
           case assigned of
             Some w \<Rightarrow> Ok (bt_insert field w object, removed)
           | None \<Rightarrow> Ok (bt_remove field object, bs_insert field removed)))
       (br_set selected) (canonical_object (tc_old_fields ctx), []))
       (\<lambda>(object, removed). Ok (insert_present_arguments object (br_set_if_present selected) args, removed))"

text \<open>Step 8, continued: the host's actions on the fields the branch leaves open.\<close>

definition fulfil_field :: "entity_definition \<Rightarrow> string \<Rightarrow> string \<Rightarrow> operation_field_requirement smap
    \<Rightarrow> string \<times> operation_field_action \<Rightarrow> jmap \<times> string list \<Rightarrow> (jmap \<times> string list) core_result" where
  "fulfil_field d operation_name outcome requirements entry state =
     (let (field, action) = entry; (object, removed) = state in
      rbind (ok_or (bt_get requirements field) (Panicked ''no entry found for key'')) (\<lambda>requirement.
      case action of
        Preserve \<Rightarrow> Ok (object, removed)
      | SetValue v \<Rightarrow>
          rbind (ok_or (bt_get (os_fields (def_schema d)) field) (Panicked ''no entry found for key'')) (\<lambda>target.
          rbind (require_valid (validate_field_value target v (''fulfillments.'' @ field @ ''.value'') (def_semantics d))) (\<lambda>_.
          Ok (bt_insert field (canonicalize v) object, removed)))
      | Remove \<Rightarrow>
          if ofr_actions requirement = ActionsRequired
          then Err (RequiredFieldRemoval operation_name outcome field)
          else Ok (bt_remove field object, bs_insert field removed)))"

definition difference :: "string list \<Rightarrow> string list \<Rightarrow> string list" where
  "difference xs ys = filter (\<lambda>x. x \<notin> set ys) xs"

definition fulfil_fields :: "entity_definition \<Rightarrow> string \<Rightarrow> branch \<Rightarrow> actions option \<Rightarrow> jmap \<times> string list
    \<Rightarrow> (jmap \<times> string list) core_result" where
  "fulfil_fields d operation_name selected fulfillments state =
     (let requirements = (case br_fulfills selected of Some r \<Rightarrow> r | None \<Rightarrow> []);
          outcome = (case br_name selected of Some n \<Rightarrow> n | None \<Rightarrow> []) in
      if requirements \<noteq> [] then
        (case fulfillments of
           None \<Rightarrow> Err (FulfillmentRequired operation_name outcome (bt_keys requirements))
         | Some actions \<Rightarrow>
             let missing = difference (bt_keys requirements) (bt_keys actions);
                 extra = difference (bt_keys actions) (bt_keys requirements) in
             if missing \<noteq> [] \<or> extra \<noteq> [] then Err (FulfillmentKeysMismatch operation_name outcome missing extra)
             else rfold (fulfil_field d operation_name outcome requirements) actions state)
      else
        (case fulfillments of
           Some actions \<Rightarrow>
             if actions \<noteq> [] then Err (FulfillmentKeysMismatch operation_name outcome [] (bt_keys actions)) else Ok state
         | None \<Rightarrow> Ok state))"

text \<open>Step 10: \<open>checked_add(1)\<close>, held to the range a store can keep.\<close>

definition next_revision :: "entity_instance \<Rightarrow> 64 word core_result" where
  "next_revision i =
     ok_or (if unat (in_revision i) = 2 ^ 64 - 1 then None
            else if unat (in_revision i + 1) \<le> 2 ^ 63 - 1 then Some (in_revision i + 1) else None)
       (RevisionExhausted (in_entity i) (in_id i) (in_revision i))"

text \<open>Steps 7 to 15: what accepting the selected branch writes.\<close>

definition accept_branch :: "serde \<Rightarrow> entity_definition \<Rightarrow> entity_instance \<Rightarrow> operation_definition \<Rightarrow> string \<Rightarrow> jmap
    \<Rightarrow> actions option \<Rightarrow> response_check \<Rightarrow> branch \<Rightarrow> decision core_result" where
  "accept_branch S d i op operation_name args fulfillments check selected =
     (let ctx = operation_context d i op args (in_fields i) (br_to_state selected) in
      rbind (check_preconditions operation_name (op_preconditions op) ctx) (\<lambda>_.
      rbind (assign_fields operation_name selected ctx args) (\<lambda>state.
      rbind (fulfil_fields d operation_name selected fulfillments state) (\<lambda>(new_fields, removed).
      rbind (require_valid (validate_object_under (def_schema d) new_fields ''fields'' (def_semantics d))) (\<lambda>_.
      rbind (next_revision i) (\<lambda>revision.
      let result = i\<lparr>in_state := br_to_state selected, in_revision := revision, in_fields := new_fields\<rparr>;
          ctx = operation_context d i op args new_fields (br_to_state selected) in
      rbind (check_identity_mirror S d result) (\<lambda>_.
      rbind (check_invariants d ctx) (\<lambda>_.
      rbind (rmap (\<lambda>e. materialize_event e ctx revision args removed) (br_emits selected)) (\<lambda>events.
      rbind (case br_responds selected of
          Some (responds, conditional) \<Rightarrow>
            rbind (materialize_response responds conditional (op_response op) check ctx) (\<lambda>r. Ok (Some r))
        | None \<Rightarrow> Ok None) (\<lambda>response.
      rbind (definition_snapshot S d) (\<lambda>snapshot.
      Ok \<lparr>dn_instance = result,
          dn_record = \<lparr>dr_definition = Some snapshot,
            dr_command = CommandExecute operation_name args (case fulfillments of Some a \<Rightarrow> a | None \<Rightarrow> []),
            dr_entity = in_entity result, dr_id = in_id result, dr_revision = in_revision result,
            dr_from_state = Some (in_state i), dr_to_state = in_state result, dr_result = result,
            dr_changed = changed_fields ctx, dr_removed = removed, dr_events = events,
            dr_outcome = br_name selected, dr_effect = br_effect selected, dr_response = response\<rparr>,
          dn_events = events\<rparr>)))))))))))"

definition decide_with_fulfillments :: "serde \<Rightarrow> entity_definition \<Rightarrow> entity_instance \<Rightarrow> string \<Rightarrow> json \<Rightarrow> actions option
    \<Rightarrow> response_check \<Rightarrow> kernel_answer core_result" where
  "decide_with_fulfillments S d i operation_name arguments fulfillments check =
     rbind (ensure_instance_matches d i) (\<lambda>_.
     rbind (ok_or (bt_get (def_operations d) operation_name) (OperationNotFound operation_name)) (\<lambda>op.
     rbind (normalize_arguments d operation_name arguments) (\<lambda>args.
     rbind (select_branch d i op operation_name args) (\<lambda>selected.
     case branch_refusal selected of
       Some (name, r) \<Rightarrow> Ok (RefusedBranch (refusal_of name r))
     | None \<Rightarrow>
         rbind (accept_branch S d i op operation_name args fulfillments check selected) (\<lambda>decision.
         Ok (Accepted decision))))))"

definition decide :: "serde \<Rightarrow> entity_definition \<Rightarrow> entity_instance \<Rightarrow> string \<Rightarrow> json \<Rightarrow> kernel_answer core_result" where
  "decide S d i operation_name arguments = decide_with_fulfillments S d i operation_name arguments None Checked"

definition execute :: "serde \<Rightarrow> entity_definition \<Rightarrow> entity_instance \<Rightarrow> string \<Rightarrow> json \<Rightarrow> decision core_result" where
  "execute S d i operation_name arguments = rbind (decide S d i operation_name arguments) into_decision"

section \<open>Before and after the load\<close>

record prepared_operation =
  po_definition :: entity_definition
  po_operation :: string
  po_expected_id :: string
  po_arguments :: jmap
  po_response_check :: response_check

datatype preload_decision = RefusedUnloaded refusal | Load prepared_operation

record prepared_subject =
  ps_entity :: string
  ps_version :: "32 word"
  ps_id :: string

definition subject :: "prepared_operation \<Rightarrow> prepared_subject" where
  "subject p = \<lparr>ps_entity = def_entity (po_definition p), ps_version = def_version (po_definition p), ps_id = po_expected_id p\<rparr>"

record prepared_outcome =
  pc_definition :: entity_definition
  pc_operation :: string
  pc_instance :: entity_instance
  pc_arguments :: jmap
  pc_outcome :: string
  pc_response_check :: response_check

datatype loaded_decision = Complete kernel_answer | NeedsFulfillment prepared_outcome

definition unloaded_context :: "entity_definition \<Rightarrow> operation_definition \<Rightarrow> string \<Rightarrow> jmap \<Rightarrow> template_context" where
  "unloaded_context d op expected_id args =
     \<lparr>tc_definition = d, tc_id = Some expected_id, tc_args = args, tc_arguments_schema = Some (op_arguments op),
      tc_old_fields = [], tc_new_fields = [], tc_from_state = None, tc_to_state = lc_initial (def_lifecycle d)\<rparr>"

fun select_unloaded :: "string \<Rightarrow> outcome_definition list \<Rightarrow> template_context \<Rightarrow> prepared_operation \<Rightarrow> preload_decision core_result" where
  "select_unloaded operation_name [] ctx p = Err (NoOutcomeSelected operation_name)"
| "select_unloaded operation_name (outcome # outcomes) ctx p =
     (let answered = (case od_refuses outcome of
            Some r \<Rightarrow> Ok (RefusedUnloaded (refusal_of (od_name outcome) r))
          | None \<Rightarrow> Ok (Load p)) in
      if od_in_state outcome \<noteq> None then Ok (Load p)
      else (case od_when outcome of
          None \<Rightarrow> answered
        | Some condition \<Rightarrow>
            rbind (evaluate_condition_before_load condition ctx [] []) (\<lambda>(t, unobserved).
              case t of
                NeedsSubject \<Rightarrow> Ok (Load p)
              | Known False3 \<Rightarrow> select_unloaded operation_name outcomes ctx p
              | Known True3 \<Rightarrow> answered
              | Known Unknown \<Rightarrow> Err (OutcomeUnobservable operation_name (od_name outcome) unobserved))))"

definition decide_before_load_as :: "entity_definition \<Rightarrow> string \<Rightarrow> string \<Rightarrow> json \<Rightarrow> response_check \<Rightarrow> preload_decision core_result" where
  "decide_before_load_as d expected_id operation_name arguments check =
     (if is_blank expected_id then Err blank_identity
      else rbind (ok_or (bt_get (def_operations d) operation_name) (OperationNotFound operation_name)) (\<lambda>op.
        rbind (normalize_arguments d operation_name arguments) (\<lambda>args.
        let p = \<lparr>po_definition = d, po_operation = operation_name, po_expected_id = expected_id,
                 po_arguments = args, po_response_check = check\<rparr> in
        if \<not> takes_branches d (op_outcomes op) then Ok (Load p)
        else select_unloaded operation_name (filter (\<lambda>o'. \<not> od_wrong_state o') (op_outcomes op))
          (unloaded_context d op expected_id args) p)))"

definition decide_before_load :: "entity_definition \<Rightarrow> string \<Rightarrow> string \<Rightarrow> json \<Rightarrow> preload_decision core_result" where
  "decide_before_load d expected_id operation_name arguments =
     decide_before_load_as d expected_id operation_name arguments Checked"

definition recompute_before_load :: "entity_definition \<Rightarrow> string \<Rightarrow> string \<Rightarrow> json \<Rightarrow> preload_decision core_result" where
  "recompute_before_load d expected_id operation_name arguments =
     decide_before_load_as d expected_id operation_name arguments Recorded"

definition requirements :: "prepared_outcome \<Rightarrow> operation_field_requirement smap core_result" where
  "requirements p =
     rbind (ok_or (bt_get (def_operations (pc_definition p)) (pc_operation p))
       (Panicked ''prepared operation remains in its validated definition'')) (\<lambda>op.
     rbind (ok_or (List.find (\<lambda>o'. od_name o' = pc_outcome p) (op_outcomes op))
       (Panicked ''prepared outcome remains in its validated operation'')) (\<lambda>o'. Ok (od_fulfills o')))"

definition select_with :: "serde \<Rightarrow> prepared_operation \<Rightarrow> entity_instance \<Rightarrow> loaded_decision core_result" where
  "select_with S p i =
     rbind (ensure_entity_matches (po_definition p) i) (\<lambda>_.
     rbind (ensure (in_id i = po_expected_id p)
       (SubjectMismatch (def_entity (po_definition p)) (po_expected_id p) (in_id i))) (\<lambda>_.
     rbind (ensure_state_known (po_definition p) i) (\<lambda>_.
     case decide_with_fulfillments S (po_definition p) i (po_operation p) (JObject (po_arguments p)) None (po_response_check p) of
       Err (FulfillmentRequired operation_name outcome names) \<Rightarrow>
         Ok (NeedsFulfillment \<lparr>pc_definition = po_definition p, pc_operation = po_operation p, pc_instance = i,
           pc_arguments = po_arguments p, pc_outcome = outcome, pc_response_check = po_response_check p\<rparr>)
     | Err e \<Rightarrow> Err e
     | Ok answer \<Rightarrow> Ok (Complete answer))))"

definition complete :: "serde \<Rightarrow> prepared_outcome \<Rightarrow> actions \<Rightarrow> kernel_answer core_result" where
  "complete S p actions = decide_with_fulfillments S (pc_definition p) (pc_instance p) (pc_operation p)
     (JObject (pc_arguments p)) (Some actions) (pc_response_check p)"

definition continue_with :: "serde \<Rightarrow> prepared_operation \<Rightarrow> entity_instance \<Rightarrow> kernel_answer core_result" where
  "continue_with S p i =
     rbind (select_with S p i) (\<lambda>loaded. case loaded of
         Complete answer \<Rightarrow> Ok answer
       | NeedsFulfillment prepared \<Rightarrow>
           rbind (requirements prepared) (\<lambda>r.
             Err (FulfillmentRequired (pc_operation prepared) (pc_outcome prepared) (bt_keys r))))"

end
