(* ===== verification/DecideFacts.thy ===== *)
theory DecideFacts
  imports Decide
begin

text \<open>
  What an accepted decision is: the steps it went through, the revision it produced, the state it
  moved to, and how its record rebuilds the fields. The last part is the state machine over instances
  and its invariant.
\<close>

section \<open>The steps of an acceptance\<close>

lemma require_valid_Ok [simp]: "require_valid errors = Ok u \<longleftrightarrow> errors = []"
  by (simp add: require_valid_def)

text \<open>Every step that an accepted branch passed, in order.\<close>

lemma accept_branch_steps:
  assumes "accept_branch S d i op name args fulfillments check selected = Ok dn"
  obtains state new_fields removed revision result events response snapshot ctx where
    "check_preconditions name (op_preconditions op) (operation_context d i op args (in_fields i) (br_to_state selected)) = Ok ()"
    "assign_fields name selected (operation_context d i op args (in_fields i) (br_to_state selected)) args = Ok state"
    "fulfil_fields d name selected fulfillments state = Ok (new_fields, removed)"
    "validate_object_under (def_schema d) new_fields ''fields'' (def_semantics d) = []"
    "next_revision i = Ok revision"
    "result = i\<lparr>in_state := br_to_state selected, in_revision := revision, in_fields := new_fields\<rparr>"
    "ctx = operation_context d i op args new_fields (br_to_state selected)"
    "check_identity_mirror S d result = Ok ()"
    "check_invariants d ctx = Ok ()"
    "rmap (\<lambda>e. materialize_event e ctx revision args removed) (br_emits selected) = Ok events"
    "(case br_responds selected of
        Some (responds, conditional) \<Rightarrow> rbind (materialize_response responds conditional (op_response op) check ctx) (\<lambda>r. Ok (Some r))
      | None \<Rightarrow> Ok None) = Ok response"
    "definition_snapshot S d = Ok snapshot"
    "dn = \<lparr>dn_instance = result,
          dn_record = \<lparr>dr_definition = Some snapshot,
            dr_command = CommandExecute name args (case fulfillments of Some a \<Rightarrow> a | None \<Rightarrow> []),
            dr_entity = in_entity result, dr_id = in_id result, dr_revision = in_revision result,
            dr_from_state = Some (in_state i), dr_to_state = in_state result, dr_result = result,
            dr_changed = changed_fields ctx, dr_removed = removed, dr_events = events,
            dr_outcome = br_name selected, dr_effect = br_effect selected, dr_response = response\<rparr>,
          dn_events = events\<rparr>"
  using assms unfolding accept_branch_def Let_def
  by (auto simp: res_simps simp del: sum.case split: prod.splits)

lemma decide_accepted_steps:
  assumes "decide_with_fulfillments S d i name arguments fulfillments check = Ok (Accepted dn)"
  obtains op args selected where
    "ensure_instance_matches d i = Ok ()" "map_of (def_operations d) name = Some op"
    "normalize_arguments d name arguments = Ok args" "select_branch d i op name args = Ok selected"
    "branch_refusal selected = None" "accept_branch S d i op name args fulfillments check selected = Ok dn"
proof -
  from assms obtain op args selected where steps:
    "ensure_instance_matches d i = Ok ()" "map_of (def_operations d) name = Some op"
    "normalize_arguments d name arguments = Ok args" "select_branch d i op name args = Ok selected"
    and last: "(case branch_refusal selected of Some (n, r) \<Rightarrow> Ok (RefusedBranch (refusal_of n r))
      | None \<Rightarrow> rbind (accept_branch S d i op name args fulfillments check selected) (\<lambda>dn. Ok (Accepted dn))) = Ok (Accepted dn)"
    by (auto simp: decide_with_fulfillments_def res_simps)
  then have "branch_refusal selected = None" by (cases "branch_refusal selected") auto
  with steps last show thesis using that by (auto simp: res_simps)
qed

lemma next_revision_Ok:
  assumes "next_revision i = Ok r"
  shows "r = in_revision i + 1" "unat r = unat (in_revision i) + 1" "unat r \<le> 2 ^ 63 - 1"
proof -
  from assms have ne: "unat (in_revision i) \<noteq> 2 ^ 64 - 1" and r: "r = in_revision i + 1" and le: "unat r \<le> 2 ^ 63 - 1"
    by (auto simp: next_revision_def res_simps split: if_splits)
  have "unat (in_revision i) < 2 ^ 64" using unsigned_less [of "in_revision i"] by simp
  with ne have "unat (in_revision i) + 1 < 2 ^ 64" by simp
  then have "unat r = unat (in_revision i) + 1"
    using unat_add_lem [of "in_revision i" 1] by (simp add: r)
  with r le show "r = in_revision i + 1" "unat r = unat (in_revision i) + 1" "unat r \<le> 2 ^ 63 - 1" by blast+
qed

lemma next_revision_cases:
  "next_revision i = (if unat (in_revision i) + 1 \<le> 2 ^ 63 - 1 then Ok (in_revision i + 1)
     else Err (RevisionExhausted (in_entity i) (in_id i) (in_revision i)))"
proof (cases "unat (in_revision i) = 2 ^ 64 - 1")
  case False
  have "unat (in_revision i) < 2 ^ 64" using unsigned_less [of "in_revision i"] by simp
  with False have "unat (in_revision i) + 1 < 2 ^ 64" by simp
  then have "unat (in_revision i + 1) = unat (in_revision i) + 1"
    using unat_add_lem [of "in_revision i" 1] by simp
  with False show ?thesis by (simp add: next_revision_def)
qed (simp add: next_revision_def)

section \<open>Selection\<close>

lemma first_split_Cons:
  "(\<exists>before after. b # xs = before @ x # after \<and> (\<forall>y \<in> set before. P y) \<and> Q x) \<longleftrightarrow>
     b = x \<and> Q x \<or> P b \<and> (\<exists>before after. xs = before @ x # after \<and> (\<forall>y \<in> set before. P y) \<and> Q x)"
  (is "?l \<longleftrightarrow> ?r")
proof
  assume ?l
  then obtain before after where ba: "b # xs = before @ x # after" "\<forall>y \<in> set before. P y" "Q x" by blast
  then show ?r by (cases before) auto
next
  assume ?r
  then consider "b = x" "Q x" | before after where "P b" "xs = before @ x # after" "\<forall>y \<in> set before. P y" "Q x" by blast
  then show ?l
  proof cases
    case 1
    then show ?thesis by (intro exI [of _ "[]"] exI [of _ xs]) simp
  next
    case (2 before after)
    then show ?thesis by (intro exI [of _ "b # before"] exI [of _ after]) simp
  qed
qed

definition passed_over :: "template_context \<Rightarrow> string option \<Rightarrow> outcome_definition \<Rightarrow> bool" where
  "passed_over ctx state b \<longleftrightarrow> guarded_out b state
     \<or> (\<exists>c u. od_when b = Some c \<and> evaluate_condition c ctx [] [] = Ok (False3, u))"

definition taken :: "template_context \<Rightarrow> string option \<Rightarrow> outcome_definition \<Rightarrow> bool" where
  "taken ctx state b \<longleftrightarrow> \<not> guarded_out b state
     \<and> (od_when b = None \<or> (\<exists>c u. od_when b = Some c \<and> evaluate_condition c ctx [] [] = Ok (True3, u)))"

lemma select_first_step:
  "select_first command (b # outcomes) state ctx = Ok o' \<longleftrightarrow>
     b = o' \<and> taken ctx state o' \<or> passed_over ctx state b \<and> select_first command outcomes state ctx = Ok o'"
proof (cases "guarded_out b state")
  case True
  then show ?thesis by (auto simp: taken_def passed_over_def)
next
  case False
  note unguarded = this
  show ?thesis
  proof (cases "od_when b")
    case None
    with unguarded show ?thesis by (auto simp: taken_def passed_over_def)
  next
    case (Some c)
    show ?thesis
    proof (cases "evaluate_condition c ctx [] []")
      case (Inl e)
      with unguarded Some show ?thesis by (auto simp: taken_def passed_over_def)
    next
      case (Inr tu)
      obtain t u where "tu = (t, u)" by force
      with unguarded Some Inr show ?thesis by (cases t) (auto simp: taken_def passed_over_def)
    qed
  qed
qed

text \<open>Selection takes the first branch, in declared order, that neither its state nor its guard passes over.\<close>

lemma select_first_Ok:
  "select_first command outcomes state ctx = Ok o' \<longleftrightarrow>
     (\<exists>before after. outcomes = before @ o' # after \<and> (\<forall>b \<in> set before. passed_over ctx state b) \<and> taken ctx state o')"
proof (induction outcomes)
  case (Cons b outcomes)
  then show ?case unfolding select_first_step first_split_Cons by simp
qed simp

section \<open>Moves\<close>

text \<open>The moves a definition permits an operation to make from a state.\<close>

definition permitted :: "entity_definition \<Rightarrow> operation_definition \<Rightarrow> string \<Rightarrow> string \<Rightarrow> bool" where
  "permitted d op from to \<longleftrightarrow>
     (if takes_branches d (op_outcomes op) then
        to = from \<and> (\<exists>o' \<in> set (op_outcomes op). effect_move_sources (od_effect o') = None)
        \<or> (\<exists>o' \<in> set (op_outcomes op). \<exists>sources. od_effect o' = Moves to sources
             \<and> (from \<in> set (as_slice sources) \<or> od_wrong_state o' \<and> from \<in> set (wrong_states d op)))
      else (\<exists>t \<in> set (op_transitions op). from \<in> set (as_slice (td_from t)) \<and> to = td_to t))"

lemma find_SomeD: "List.find P xs = Some x \<Longrightarrow> x \<in> set xs \<and> P x"
  by (induction xs) (auto split: if_splits)

lemma select_first_mem: "select_first command outcomes state ctx = Ok o' \<Longrightarrow> o' \<in> set outcomes"
  by (auto simp: select_first_Ok)

lemma select_outcome_mem: "select_outcome command outcomes state ctx = Ok o' \<Longrightarrow> o' \<in> set outcomes \<and> \<not> od_wrong_state o'"
  unfolding select_outcome_def by (drule select_first_mem) simp

lemma admit_state_Ok:
  assumes "admit_state d op name o' state = Ok p"
  obtains (stays) "p = o'" "effect_move_sources (od_effect o') = None"
    | (moves) to sources where "p = o'" "od_effect o' = Moves to sources" "state \<in> set (as_slice sources)"
    | (wrong) "od_wrong_state p" "p \<in> set (op_outcomes op)" "state \<in> set (wrong_states d op)"
proof (cases "od_effect o'")
  case (Moves to sources)
  show thesis
  proof (cases "state \<in> set (as_slice sources)")
    case True
    with assms Moves show thesis by (intro moves) (auto simp: admit_state_def)
  next
    case False
    with assms Moves have "state \<in> set (wrong_states d op)" "List.find od_wrong_state (op_outcomes op) = Some p"
      by (auto simp: admit_state_def res_simps split: if_splits)
    then show thesis by (intro wrong) (auto simp: find_Some_iff)
  qed
qed (use assms in \<open>auto simp: admit_state_def intro: stays\<close>)

lemma branch_outcome_simps [simp]:
  "br_name (branch_outcome p s) = Some (od_name p)" "br_set (branch_outcome p s) = od_set p"
  "br_set_if_present (branch_outcome p s) = od_set_if_present p" "br_fulfills (branch_outcome p s) = Some (od_fulfills p)"
  "br_refuses (branch_outcome p s) = od_refuses p" "br_emits (branch_outcome p s) = od_emits p"
  "br_responds (branch_outcome p s) = Some (od_responds p, od_responds_if_present p)"
  by (cases "od_effect p"; simp add: branch_outcome_def)+

lemma branch_outcome_state:
  "br_to_state (branch_outcome p s) = (case od_effect p of Moves to sources \<Rightarrow> to | _ \<Rightarrow> s)"
  by (cases "od_effect p") (simp_all add: branch_outcome_def)

lemma branch_implicit_simps [simp]:
  "br_name (branch_implicit op s) = None" "br_to_state (branch_implicit op s) = s" "br_set (branch_implicit op s) = op_set op"
  "br_set_if_present (branch_implicit op s) = []" "br_fulfills (branch_implicit op s) = None"
  "br_refuses (branch_implicit op s) = None" "br_emits (branch_implicit op s) = op_emits op"
  "br_responds (branch_implicit op s) = None"
  by (simp_all add: branch_implicit_def)

text \<open>The branch that was selected is one of the operation's own.\<close>

lemma select_branch_cases:
  assumes "select_branch d i op name args = Ok selected"
  obtains (outcome) o' p where "takes_branches d (op_outcomes op)" "selected = branch_outcome p (in_state i)"
      "select_outcome name (op_outcomes op) (Some (in_state i)) (operation_context d i op args (in_fields i) (in_state i)) = Ok o'"
      "admit_state d op name o' (in_state i) = Ok p" "p \<in> set (op_outcomes op)"
    | (transition) t where "\<not> takes_branches d (op_outcomes op)" "t \<in> set (op_transitions op)"
      "in_state i \<in> set (as_slice (td_from t))" "selected = branch_implicit op (td_to t)"
proof (cases "takes_branches d (op_outcomes op)")
  case True
  with assms obtain o' p where sel: "select_outcome name (op_outcomes op) (Some (in_state i)) (operation_context d i op args (in_fields i) (in_state i)) = Ok o'"
      and adm: "admit_state d op name o' (in_state i) = Ok p" and "selected = branch_outcome p (in_state i)"
    by (auto simp: select_branch_def res_simps)
  moreover from adm have "p \<in> set (op_outcomes op)"
    using select_outcome_mem [OF sel] by (cases rule: admit_state_Ok) auto
  ultimately show thesis using True outcome by blast
next
  case False
  with assms obtain t where "List.find (\<lambda>t. in_state i \<in> set (as_slice (td_from t))) (op_transitions op) = Some t"
      "selected = branch_implicit op (td_to t)"
    by (auto simp: select_branch_def res_simps)
  with False show thesis using transition find_SomeD by fast
qed

lemma permitted_stays:
  assumes "takes_branches d (op_outcomes op)" "p \<in> set (op_outcomes op)" "effect_move_sources (od_effect p) = None"
  shows "permitted d op s (br_to_state (branch_outcome p s))"
proof -
  have "br_to_state (branch_outcome p s) = s"
    using assms(3) by (cases "od_effect p") (auto simp: branch_outcome_state)
  with assms show ?thesis unfolding permitted_def by auto
qed

lemma select_branch_permitted:
  assumes "select_branch d i op name args = Ok selected"
  shows "permitted d op (in_state i) (br_to_state selected)"
  using assms
proof (cases rule: select_branch_cases)
  case (outcome o' p)
  show ?thesis
  proof (cases "effect_move_sources (od_effect p)")
    case None
    then show ?thesis using permitted_stays outcome by simp
  next
    case (Some sources)
    then obtain to src where move: "od_effect p = Moves to src" by (cases "od_effect p") auto
    from outcome(4) have "in_state i \<in> set (as_slice src) \<or> od_wrong_state p \<and> in_state i \<in> set (wrong_states d op)"
      using move by (cases rule: admit_state_Ok) auto
    then show ?thesis using outcome move by (auto simp: permitted_def branch_outcome_state)
  qed
next
  case (transition t)
  then show ?thesis by (auto simp: permitted_def)
qed

section \<open>What the record rebuilds\<close>

text \<open>\<open>apply_event_changes\<close> of \<open>replay.rs\<close>: what a fold over records does with the fields it carries.\<close>

definition apply_event_changes :: "jmap \<Rightarrow> string list \<Rightarrow> jmap \<Rightarrow> jmap" where
  "apply_event_changes object removed changed =
     fold (\<lambda>(name, v). bt_insert name v) changed (fold bt_remove removed object)"

text \<open>
  What step 8 keeps of the fields it starts from: a field that is gone is in \<open>removed\<close>, and a field in
  \<open>removed\<close> is gone.
\<close>

definition accounts :: "jmap \<Rightarrow> jmap \<times> string list \<Rightarrow> bool" where
  "accounts old state \<longleftrightarrow> (case state of (object, removed) \<Rightarrow> sorted_keys object
     \<and> (\<forall>k. map_of object k = None \<longrightarrow> map_of old k = None \<or> k \<in> set removed)
     \<and> (\<forall>k \<in> set removed. map_of object k = None))"

lemma accounts_insert: "accounts old (object, removed) \<Longrightarrow> k \<notin> set removed \<Longrightarrow> accounts old (bt_insert k v object, removed)"
  by (auto simp: accounts_def)

lemma accounts_remove: "accounts old (object, removed) \<Longrightarrow> accounts old (bt_remove k object, bs_insert k removed)"
  by (auto simp: accounts_def)

lemma accounts_present:
  assumes "accounts old (object, removed)" "fst ` set conditional \<inter> set removed = {}"
  shows "accounts old (insert_present_arguments object conditional args, removed)"
  using assms
proof (induction conditional arbitrary: object)
  case (Cons entry conditional)
  obtain field source where entry: "entry = (field, source)" by force
  have "accounts old (case argument_presence args source of Some v \<Rightarrow> bt_insert field (canonicalize v) object | None \<Rightarrow> object, removed)"
    using Cons.prems accounts_insert by (auto simp: entry split: option.split)
  then show ?case
    using Cons.IH Cons.prems(2) by (simp add: insert_present_arguments_def entry)
qed (simp add: insert_present_arguments_def)

definition writes :: "string \<Rightarrow> jmap \<times> string list \<Rightarrow> jmap \<times> string list \<Rightarrow> bool" where
  "writes k state state' \<longleftrightarrow> (case state of (object, removed) \<Rightarrow> state' = (object, removed)
     \<or> (\<exists>v. state' = (bt_insert k v object, removed)) \<or> state' = (bt_remove k object, bs_insert k removed))"

lemma writes_accounts:
  assumes "writes k (object, removed) (object', removed')" "accounts old (object, removed)" "k \<notin> set removed"
  shows "accounts old (object', removed')" "set removed' \<subseteq> insert k (set removed)"
  using assms accounts_insert [of old object removed k] accounts_remove [of old object removed k]
  by (auto simp: writes_def)

text \<open>A loop that writes each of its keys at most once.\<close>

lemma accounts_loop:
  assumes step: "\<And>k x state state'. (k, x) \<in> set xs \<Longrightarrow> f (k, x) state = Ok state' \<Longrightarrow> writes k state state'"
    and "rfold f xs (object, removed) = Ok (object', removed')"
    and "accounts old (object, removed)" "distinct (map fst xs)" "fst ` set xs \<inter> set removed = {}"
  shows "accounts old (object', removed') \<and> set removed' \<subseteq> set removed \<union> fst ` set xs"
  using assms
proof (induction xs arbitrary: object removed)
  case (Cons x xs)
  obtain k v where x: "x = (k, v)" by force
  from Cons.prems(2) obtain object1 removed1 where
    first: "f (k, v) (object, removed) = Ok (object1, removed1)" and rest: "rfold f xs (object1, removed1) = Ok (object', removed')"
    by (auto simp: res_simps x)
  have k: "k \<notin> set removed" "k \<notin> fst ` set xs" using Cons.prems(4,5) x by auto
  note one = writes_accounts [OF Cons.prems(1) [OF _ first] Cons.prems(3) k(1)]
  have acc: "accounts old (object1, removed1)" and sub: "set removed1 \<subseteq> insert k (set removed)"
    using one x by simp_all
  have "accounts old (object', removed') \<and> set removed' \<subseteq> set removed1 \<union> fst ` set xs"
  proof (rule Cons.IH [OF _ rest acc])
    show "writes k' state state'" if "(k', y) \<in> set xs" "f (k', y) state = Ok state'" for k' y state state'
      using Cons.prems(1) [of k' y state state'] that by simp
    show "distinct (map fst xs)" using Cons.prems(4) by simp
    show "fst ` set xs \<inter> set removed1 = {}" using Cons.prems(5) sub k x by auto
  qed
  with sub show ?case by (auto simp: x)
qed simp

lemma assign_fields_accounts:
  assumes "assign_fields name selected ctx args = Ok (object, removed)" "jmap_ok (tc_old_fields ctx)"
    and "distinct (map fst (br_set selected))" "fst ` set (br_set selected) \<inter> fst ` set (br_set_if_present selected) = {}"
  shows "accounts (tc_old_fields ctx) (object, removed) \<and> set removed \<subseteq> fst ` set (br_set selected)"
proof -
  let ?f = "\<lambda>(field, v) (object, removed). rbind (assigned_value name field v ctx) (\<lambda>assigned.
           case assigned of
             Some w \<Rightarrow> Ok (bt_insert field w object, removed)
           | None \<Rightarrow> Ok (bt_remove field object, bs_insert field removed))"
  from assms(1) obtain object1 where
    loop: "rfold ?f (br_set selected) (tc_old_fields ctx, []) = Ok (object1, removed)"
    and object: "object = insert_present_arguments object1 (br_set_if_present selected) args"
    using assms(2) by (auto simp: assign_fields_def res_simps)
  have "accounts (tc_old_fields ctx) (tc_old_fields ctx, [])"
    using jmap_ok_sorted [OF assms(2)] by (simp add: accounts_def)
  note start = this
  have "writes k state state'" if "?f (k, x) state = Ok state'" for k x state state'
    using that by (cases state; cases "assigned_value name k x ctx") (auto simp: writes_def split: option.splits)
  from accounts_loop [OF this loop start assms(3)]
  have "accounts (tc_old_fields ctx) (object1, removed)" "set removed \<subseteq> fst ` set (br_set selected)"
    by simp_all
  then show ?thesis
    using accounts_present [of "tc_old_fields ctx" object1 removed "br_set_if_present selected" args] assms(4) object by auto
qed

lemma disjoint_within: "A \<inter> B = {} \<Longrightarrow> C \<subseteq> B \<Longrightarrow> C \<inter> A = {}"
  by blast

lemma fulfil_fields_accounts:
  assumes "fulfil_fields d name selected fulfillments (object, removed) = Ok (object', removed')"
    and "accounts old (object, removed)" "set removed \<inter> fst ` set (case br_fulfills selected of Some r \<Rightarrow> r | None \<Rightarrow> []) = {}"
    and "\<And>actions. fulfillments = Some actions \<Longrightarrow> distinct (map fst actions)"
  shows "accounts old (object', removed')"
proof (cases "\<exists>r actions. br_fulfills selected = Some r \<and> r \<noteq> [] \<and> fulfillments = Some actions")
  case False
  with assms(1,2) show ?thesis by (auto simp: fulfil_fields_def Let_def split: option.splits if_splits)
next
  case True
  then obtain r actions where r: "br_fulfills selected = Some r" "r \<noteq> []" "fulfillments = Some actions" by blast
  let ?n = "case br_name selected of None \<Rightarrow> [] | Some n \<Rightarrow> n"
  have loop: "rfold (fulfil_field d name ?n r) actions (object, removed) = Ok (object', removed')"
    and same: "difference (bt_keys actions) (bt_keys r) = []"
    using assms(1) r by (auto simp: fulfil_fields_def Let_def split: if_splits)
  from same have keys: "fst ` set actions \<subseteq> fst ` set r" by (auto simp: difference_def filter_empty_conv bt_keys_def)
  have "writes k state state'" if "fulfil_field d name ?n r (k, x) state = Ok state'" for k x state state'
    using that by (cases state; cases x) (auto simp: fulfil_field_def writes_def res_simps split: if_splits)
  moreover have "fst ` set actions \<inter> set removed = {}"
  proof (rule disjoint_within [OF _ keys])
    show "set removed \<inter> fst ` set r = {}" using assms(3) by (simp add: r(1))
  qed
  ultimately have "accounts old (object', removed') \<and> set removed' \<subseteq> set removed \<union> fst ` set actions"
    by (intro accounts_loop [OF _ loop assms(2) assms(4) [OF r(3)]]) auto
  then show ?thesis by simp
qed

lemma apply_event_changes_rebuilds:
  assumes "accounts old (new, removed)" "sorted_keys old"
  shows "apply_event_changes old removed (filter (\<lambda>(name, v). map_of old name \<noteq> Some v) new) = new"
proof (rule bt.extensionality)
  let ?changed = "filter (\<lambda>(name, v). map_of old name \<noteq> Some v) new"
  have new: "sorted_keys new" using assms(1) by (simp add: accounts_def)
  have as_locale: "apply_event_changes old removed ?changed = bt.insert_all ?changed (bt.remove_all removed old)"
    by (simp add: apply_event_changes_def bt.insert_all_def bt.remove_all_def)
  have changed: "map_of (rev ?changed) k = (case map_of new k of Some v \<Rightarrow> if map_of old k = Some v then None else Some v | None \<Rightarrow> None)" for k
  proof -
    have "map_of (rev ?changed) k = map_of ?changed k"
      using sorted_keys_filter [OF new] by (simp add: map_of_rev_distinct sorted_keys_distinct)
    also have "\<dots> = (case map_of new k of Some v \<Rightarrow> if map_of old k = Some v then None else Some v | None \<Rightarrow> None)"
      using sorted_keys_distinct [OF new]
      by (induction new) (auto simp: map_of_eq_None_iff split: option.splits)
    finally show ?thesis .
  qed
  show "sorted_keys (apply_event_changes old removed ?changed)"
    unfolding as_locale using assms(2) by (intro bt.inv_insert_all bt.inv_remove_all)
  show "sorted_keys new" by (rule new)
  show "map_of (apply_event_changes old removed ?changed) k = map_of new k" for k
    using assms unfolding as_locale
    by (auto simp: bt.get_insert_all bt.get_remove_all bt.inv_remove_all changed accounts_def split: option.split)
qed

text \<open>No field is written by two of the three parts of a branch, as registration requires.\<close>

definition outcome_writes_once :: "outcome_definition \<Rightarrow> bool" where
  "outcome_writes_once o' \<longleftrightarrow> distinct (map fst (od_set o'))
     \<and> list_all (\<lambda>k. k \<notin> set (bt_keys (od_set_if_present o')) \<and> k \<notin> set (bt_keys (od_fulfills o'))) (bt_keys (od_set o'))"

definition writes_once :: "entity_definition \<Rightarrow> bool" where
  "writes_once d \<longleftrightarrow> list_all (\<lambda>(name, op). distinct (map fst (op_set op)) \<and> list_all outcome_writes_once (op_outcomes op))
     (def_operations d)"

lemma outcome_writes_once_disjoint:
  assumes "outcome_writes_once p"
  shows "distinct (map fst (od_set p))" "fst ` set (od_set p) \<inter> fst ` set (od_set_if_present p) = {}"
    "fst ` set (od_set p) \<inter> fst ` set (od_fulfills p) = {}"
proof -
  show "distinct (map fst (od_set p))" using assms by (simp add: outcome_writes_once_def)
  have "\<forall>k \<in> fst ` set (od_set p). k \<notin> fst ` set (od_set_if_present p) \<and> k \<notin> fst ` set (od_fulfills p)"
    using assms by (simp add: outcome_writes_once_def bt_keys_def list_all_iff)
  then show "fst ` set (od_set p) \<inter> fst ` set (od_set_if_present p) = {}"
    "fst ` set (od_set p) \<inter> fst ` set (od_fulfills p) = {}"
    unfolding disjoint_iff by blast+
qed

lemma writes_once_branch:
  assumes "writes_once d" "map_of (def_operations d) name = Some op" "select_branch d i op name args = Ok selected"
  shows "distinct (map fst (br_set selected))" "fst ` set (br_set selected) \<inter> fst ` set (br_set_if_present selected) = {}"
    "fst ` set (br_set selected) \<inter> fst ` set (case br_fulfills selected of Some r \<Rightarrow> r | None \<Rightarrow> []) = {}"
proof -
  have op: "distinct (map fst (op_set op))" and out: "\<And>p. p \<in> set (op_outcomes op) \<Longrightarrow> outcome_writes_once p"
    using assms(1) map_of_SomeD [OF assms(2)] by (auto simp: writes_once_def list_all_iff)
  from assms(3) have "distinct (map fst (br_set selected)) \<and> fst ` set (br_set selected) \<inter> fst ` set (br_set_if_present selected) = {}
    \<and> fst ` set (br_set selected) \<inter> fst ` set (case br_fulfills selected of Some r \<Rightarrow> r | None \<Rightarrow> []) = {}"
  proof (cases rule: select_branch_cases)
    case (outcome o' p)
    then show ?thesis using outcome_writes_once_disjoint [OF out [OF outcome(5)]] by simp
  qed (simp add: op)
  then show "distinct (map fst (br_set selected))" "fst ` set (br_set selected) \<inter> fst ` set (br_set_if_present selected) = {}"
    "fst ` set (br_set selected) \<inter> fst ` set (case br_fulfills selected of Some r \<Rightarrow> r | None \<Rightarrow> []) = {}"
    by blast+
qed

lemma rmap_source: "rmap f xs = Ok ys \<Longrightarrow> y \<in> set ys \<Longrightarrow> \<exists>x \<in> set xs. f x = Ok y"
  by (induction xs arbitrary: ys) (auto simp: res_simps)

lemma decide_accounts:
  assumes decided: "decide_with_fulfillments S d i name arguments fulfillments check = Ok (Accepted dn)"
    and old: "jmap_ok (in_fields i)" and once: "writes_once d"
    and actions: "\<And>a. fulfillments = Some a \<Longrightarrow> distinct (map fst a)"
  shows "accounts (in_fields i) (in_fields (dn_instance dn), dr_removed (dn_record dn))"
    and "dr_changed (dn_record dn) = filter (\<lambda>(name, v). map_of (in_fields i) name \<noteq> Some v) (in_fields (dn_instance dn))"
    and "\<forall>e \<in> set (dr_events (dn_record dn)). ev_removed e = dr_removed (dn_record dn) \<and> ev_changed e = dr_changed (dn_record dn)"
proof -
  obtain op args selected where op: "map_of (def_operations d) name = Some op" "select_branch d i op name args = Ok selected"
    and acc: "accept_branch S d i op name args fulfillments check selected = Ok dn"
    using decided by (rule decide_accepted_steps)
  note once = writes_once_branch [OF once op]
  from acc have "accounts (in_fields i) (in_fields (dn_instance dn), dr_removed (dn_record dn))
    \<and> dr_changed (dn_record dn) = filter (\<lambda>(name, v). map_of (in_fields i) name \<noteq> Some v) (in_fields (dn_instance dn))
    \<and> (\<forall>e \<in> set (dr_events (dn_record dn)). ev_removed e = dr_removed (dn_record dn) \<and> ev_changed e = dr_changed (dn_record dn))"
  proof (cases rule: accept_branch_steps)
    case (1 state new_fields removed revision result events response snapshot ctx)
    obtain object removed0 where state: "state = (object, removed0)" by force
    let ?ctx = "operation_context d i op args (in_fields i) (br_to_state selected)"
    have old': "tc_old_fields ?ctx = in_fields i" "tc_old_fields ctx = in_fields i" "tc_new_fields ctx = new_fields"
      by (simp_all add: operation_context_def 1(7))
    have "accounts (in_fields i) (object, removed0)" and sub: "set removed0 \<subseteq> fst ` set (br_set selected)"
      using assign_fields_accounts [OF 1(2) [unfolded state]] old once(1,2) old' by auto
    moreover have "set removed0 \<inter> fst ` set (case br_fulfills selected of Some r \<Rightarrow> r | None \<Rightarrow> []) = {}"
      by (rule disjoint_within [OF _ sub]) (use once(3) in \<open>simp only: Int_commute\<close>)
    ultimately have "accounts (in_fields i) (new_fields, removed)"
      using fulfil_fields_accounts [OF 1(3) [unfolded state]] actions by blast
    moreover have "ev_removed e = removed \<and> ev_changed e = changed_fields ctx" if e: "e \<in> set events" for e
    proof -
      obtain m where "materialize_event m ctx revision args removed = Ok e"
        using rmap_source [OF 1(10) e] by blast
      then show ?thesis by (auto simp: materialize_event_def Let_def res_simps)
    qed
    ultimately show ?thesis by (simp add: 1(6,13)) (simp add: changed_fields_def old')
  qed
  then show "accounts (in_fields i) (in_fields (dn_instance dn), dr_removed (dn_record dn))"
    "dr_changed (dn_record dn) = filter (\<lambda>(name, v). map_of (in_fields i) name \<noteq> Some v) (in_fields (dn_instance dn))"
    "\<forall>e \<in> set (dr_events (dn_record dn)). ev_removed e = dr_removed (dn_record dn) \<and> ev_changed e = dr_changed (dn_record dn)"
    by blast+
qed

lemma decide_rebuilds:
  assumes "decide_with_fulfillments S d i name arguments fulfillments check = Ok (Accepted dn)"
    and "jmap_ok (in_fields i)" and "writes_once d"
    and "\<And>a. fulfillments = Some a \<Longrightarrow> distinct (map fst a)"
  shows "apply_event_changes (in_fields i) (dr_removed (dn_record dn)) (dr_changed (dn_record dn)) = in_fields (dn_instance dn)"
  using apply_event_changes_rebuilds [OF decide_accounts(1) [OF assms]] decide_accounts(2) [OF assms] jmap_ok_sorted [OF assms(2)] by simp

end
