(* ===== verification/Prepared.thy ===== *)
theory Prepared
  imports DecideFacts
begin

text \<open>
  Deciding in two steps: what \<open>decide_before_load\<close> answers without a subject, and what its continuation
  answers with one, against the decision taken in a single step.
\<close>

section \<open>Normalized arguments\<close>

definition arguments_ok :: "entity_definition \<Rightarrow> string \<Rightarrow> bool" where
  "arguments_ok d name = (case bt_get (def_operations d) name of Some op \<Rightarrow> schema_ok (op_arguments op) | None \<Rightarrow> True)"

lemma canonical_object_JObject: "json_ok (JObject m) \<Longrightarrow> canonical_object m = m"
  by (simp add: jmap_ok_def [symmetric] del: json_ok_object)

lemma into_object_ok: "into_object v path = Ok m \<Longrightarrow> json_ok v \<Longrightarrow> jmap_ok m \<and> v = JObject m"
  by (cases v) (auto simp: into_object_def jmap_ok_def canonical_object_JObject simp del: json_ok_object)

lemma require_valid_Nil [simp]: "require_valid [] = Ok ()"
  by (simp add: require_valid_def)

lemma normalize_arguments_ok:
  assumes "normalize_arguments d name arguments = Ok args" "arguments_ok d name" "json_ok arguments"
  shows "jmap_ok args" "normalize_arguments d name (JObject args) = Ok args"
proof -
  obtain op object where op: "map_of (def_operations d) name = Some op" and object: "into_object arguments ''arguments'' = Ok object"
    and args: "args = apply_defaults (op_arguments op) object"
    and valid: "validate_object_under (op_arguments op) args ''arguments'' (def_semantics d) = []"
    using assms(1) by (auto simp: normalize_arguments_def Let_def res_simps)
  have schema: "schema_ok (op_arguments op)" using assms(2) by (simp add: arguments_ok_def op)
  have object_ok: "jmap_ok object" using into_object_ok [OF object assms(3)] by simp
  show args_ok: "jmap_ok args" unfolding args by (rule apply_defaults_ok [OF schema object_ok])
  have "apply_defaults (op_arguments op) args = args"
    unfolding args by (rule apply_defaults_idem [OF schema object_ok])
  then show "normalize_arguments d name (JObject args) = Ok args"
    using valid by (simp add: normalize_arguments_def op into_object_def args_ok Let_def)
qed

lemma normalize_arguments_error:
  "normalize_arguments d name arguments = Err e \<Longrightarrow> e = OperationNotFound name \<or> (\<exists>errors. e = Validation errors)"
  by (auto simp: normalize_arguments_def Let_def res_simps into_object_def require_valid_def split: json.splits)

section \<open>Continuing with the loaded subject\<close>

lemma decide_normalized:
  assumes "normalize_arguments d name arguments = Ok args" "arguments_ok d name" "json_ok arguments"
  shows "decide_with_fulfillments S d i name (JObject args) fulfillments check
    = decide_with_fulfillments S d i name arguments fulfillments check"
  using assms normalize_arguments_ok(2) [OF assms] by (simp add: decide_with_fulfillments_def)

lemma select_unloaded_Load: "select_unloaded name outcomes ctx p = Ok (Load q) \<Longrightarrow> q = p"
proof (induction outcomes)
  case (Cons o' outcomes)
  have answered: "q = p" if "(case od_refuses o' of Some r \<Rightarrow> Ok (RefusedUnloaded (refusal_of (od_name o') r)) | None \<Rightarrow> Ok (Load p)) = Ok (Load q)"
    using that by (simp split: option.splits)
  show ?case
  proof (cases "od_in_state o'")
    case None
    show ?thesis
    proof (cases "od_when o'")
      case None
      with Cons.prems \<open>od_in_state o' = None\<close> show ?thesis by (auto dest: answered)
    next
      case (Some c)
      with Cons.prems \<open>od_in_state o' = None\<close> obtain t u where
        "evaluate_condition_before_load c ctx [] [] = Ok (t, u)"
        and "(case t of NeedsSubject \<Rightarrow> Ok (Load p) | Known False3 \<Rightarrow> select_unloaded name outcomes ctx p
          | Known True3 \<Rightarrow> (case od_refuses o' of Some r \<Rightarrow> Ok (RefusedUnloaded (refusal_of (od_name o') r)) | None \<Rightarrow> Ok (Load p))
          | Known Unknown \<Rightarrow> Err (OutcomeUnobservable name (od_name o') u)) = Ok (Load q)"
        by (auto simp: Let_def res_simps)
      then show ?thesis
        using answered Cons.IH by (cases t rule: partial_truth.exhaust) (auto split: truth.splits)
    qed
  qed (use Cons.prems in simp)
qed simp

lemma before_load_Load:
  assumes "decide_before_load_as d expected_id name arguments check = Ok (Load p)"
  obtains args where "normalize_arguments d name arguments = Ok args"
    "p = \<lparr>po_definition = d, po_operation = name, po_expected_id = expected_id, po_arguments = args, po_response_check = check\<rparr>"
    "\<not> is_blank expected_id"
proof -
  have "\<not> is_blank expected_id" using assms by (auto simp: decide_before_load_as_def)
  moreover obtain args where "normalize_arguments d name arguments = Ok args"
    "p = \<lparr>po_definition = d, po_operation = name, po_expected_id = expected_id, po_arguments = args, po_response_check = check\<rparr>"
    using assms select_unloaded_Load unfolding decide_before_load_as_def
    by (auto simp: Let_def res_simps split: if_splits)
  ultimately show thesis using that by blast
qed

definition subject_of :: "entity_definition \<Rightarrow> string \<Rightarrow> entity_instance \<Rightarrow> bool" where
  "subject_of d expected_id i \<longleftrightarrow> ensure_instance_matches d i = Ok () \<and> in_id i = expected_id"

lemma select_with_decides:
  assumes load: "decide_before_load_as d expected_id name arguments check = Ok (Load p)"
    and ok: "arguments_ok d name" "json_ok arguments" and i: "subject_of d expected_id i"
  shows "select_with S p i = (case decide_with_fulfillments S d i name arguments None check of
       Err (FulfillmentRequired operation_name outcome names) \<Rightarrow>
         Ok (NeedsFulfillment \<lparr>pc_definition = d, pc_operation = name, pc_instance = i,
           pc_arguments = po_arguments p, pc_outcome = outcome, pc_response_check = check\<rparr>)
     | Err e \<Rightarrow> Err e
     | Ok answer \<Rightarrow> Ok (Complete answer))"
proof -
  obtain args where args: "normalize_arguments d name arguments = Ok args"
    and p: "p = \<lparr>po_definition = d, po_operation = name, po_expected_id = expected_id, po_arguments = args, po_response_check = check\<rparr>"
    using load by (rule before_load_Load)
  from i have "ensure_entity_matches d i = Ok ()" "ensure_state_known d i = Ok ()" "in_id i = expected_id"
    by (auto simp: subject_of_def ensure_instance_matches_def res_simps)
  then show ?thesis
    unfolding select_with_def p prepared_operation.simps decide_normalized [OF args ok]
    by (simp add: ensure_def cong: core_error.case_cong sum.case_cong)
qed

section \<open>Answers given before the load\<close>

text \<open>What registration guarantees of the branches of an operation that is asked before its load.\<close>

definition selectors_ok :: "operation_definition \<Rightarrow> bool" where
  "selectors_ok op \<longleftrightarrow> list_all (\<lambda>o'. (case od_when o' of Some c \<Rightarrow> condition_ok False [] c | None \<Rightarrow> True)
     \<and> (od_refuses o' \<noteq> None \<longrightarrow> effect_move_sources (od_effect o') = None)) (op_outcomes op)"

text \<open>The answer before the load stands: the loaded subject gets it too.\<close>

fun stands :: "preload_decision core_result \<Rightarrow> kernel_answer core_result \<Rightarrow> bool" where
  "stands (Ok (RefusedUnloaded r)) answer \<longleftrightarrow> answer = Ok (RefusedBranch r)"
| "stands (Ok (Load p)) answer \<longleftrightarrow> True"
| "stands (Err (OutcomeUnobservable operation_name outcome unobserved)) answer \<longleftrightarrow>
     (\<exists>unobserved'. answer = Err (OutcomeUnobservable operation_name outcome unobserved'))"
| "stands (Err e) answer \<longleftrightarrow> answer = Err e"

text \<open>The same for the selection alone.\<close>

fun selects :: "preload_decision core_result \<Rightarrow> outcome_definition core_result \<Rightarrow> bool" where
  "selects (Ok (RefusedUnloaded r)) s \<longleftrightarrow> (\<exists>o' rd. s = Ok o' \<and> od_refuses o' = Some rd \<and> r = refusal_of (od_name o') rd)"
| "selects (Ok (Load p)) s \<longleftrightarrow> True"
| "selects (Err (OutcomeUnobservable operation_name outcome unobserved)) s \<longleftrightarrow>
     (\<exists>unobserved'. s = Err (OutcomeUnobservable operation_name outcome unobserved'))"
| "selects (Err e) s \<longleftrightarrow> s = Err e"

lemma select_unloaded_selects:
  assumes same: "same_input ctx ctx'" and i: "tc_id ctx \<noteq> None"
    and guards: "\<And>o' c. o' \<in> set outcomes \<Longrightarrow> od_when o' = Some c \<Longrightarrow> condition_ok False [] c"
  shows "selects (select_unloaded name outcomes ctx p) (select_first name outcomes state ctx')"
  using guards
proof (induction outcomes)
  case (Cons o' outcomes)
  have IH: "selects (select_unloaded name outcomes ctx p) (select_first name outcomes state ctx')"
    by (rule Cons.IH) (use Cons.prems in auto)
  have i': "tc_id ctx' \<noteq> None" using same i by (simp add: same_input_def)
  show ?case
  proof (cases "od_in_state o'")
    case None
    then have unguarded: "\<not> guarded_out o' state" by (simp add: guarded_out_def)
    show ?thesis
    proof (cases "od_when o'")
      case None
      with unguarded \<open>od_in_state o' = None\<close> show ?thesis by (simp split: option.split)
    next
      case (Some c)
      then have c: "condition_ok False [] c" by (intro Cons.prems [of o']) simp_all
      obtain pt where pt: "answers (evaluate_condition_before_load c ctx []) pt" "sound_for pt (meaning c ctx' [])"
        using before_load_sound [OF same i, of "[]" c] c by (auto simp: answers_soundly_def)
      obtain u where u: "evaluate_condition_before_load c ctx [] [] = Ok (pt, u)" using answersD [OF pt(1)] by blast
      obtain w where w: "evaluate_condition c ctx' [] [] = Ok (meaning c ctx' [], w)"
        using answersD [OF evaluate_means [of False "[]" c ctx'], of "[]"] c i' by auto
      show ?thesis
        using pt(2) IH unguarded \<open>od_in_state o' = None\<close> Some
        by (cases pt; cases "meaning c ctx' []") (auto simp: u w split: option.split)
    qed
  qed simp
qed simp

lemma selects_decides:
  assumes sel: "selects x (select_outcome name (op_outcomes op) (Some (in_state i)) (operation_context d i op args (in_fields i) (in_state i)))"
    and match: "ensure_instance_matches d i = Ok ()" and op: "map_of (def_operations d) name = Some op"
    and args: "normalize_arguments d name arguments = Ok args"
    and branches: "takes_branches d (op_outcomes op)" and ok: "selectors_ok op"
  shows "stands x (decide_with_fulfillments S d i name arguments fulfillments check)"
proof -
  let ?s = "select_outcome name (op_outcomes op) (Some (in_state i)) (operation_context d i op args (in_fields i) (in_state i))"
  have error: "decide_with_fulfillments S d i name arguments fulfillments check = Err e" if "?s = Err e" for e
    using that by (simp add: decide_with_fulfillments_def match op args select_branch_def branches)
  have refused: "decide_with_fulfillments S d i name arguments fulfillments check = Ok (RefusedBranch (refusal_of (od_name o') rd))"
    if s: "?s = Ok o'" and r: "od_refuses o' = Some rd" for o' rd
  proof -
    have "effect_move_sources (od_effect o') = None"
      using select_outcome_mem [OF s] ok r by (auto simp: selectors_ok_def list_all_iff)
    then have "select_branch d i op name args = Ok (branch_outcome o' (in_state i))"
      by (simp add: select_branch_def branches s admit_state_def)
    then show ?thesis
      by (simp add: decide_with_fulfillments_def match op args branch_refusal_def r)
  qed
  from sel show ?thesis
    by (cases rule: stands.cases [of "(x, decide_with_fulfillments S d i name arguments fulfillments check)"])
      (auto simp: error refused)
qed

lemma before_load_stands:
  assumes ok: "\<And>op. map_of (def_operations d) name = Some op \<Longrightarrow> selectors_ok op"
    and i: "subject_of d expected_id i" and id: "\<not> is_blank expected_id"
  shows "stands (decide_before_load_as d expected_id name arguments check)
    (decide_with_fulfillments S d i name arguments fulfillments check)"
proof (cases "map_of (def_operations d) name")
  case None
  then show ?thesis
    using i by (simp add: decide_before_load_as_def id decide_with_fulfillments_def subject_of_def)
next
  case (Some op)
  have match: "ensure_instance_matches d i = Ok ()" using i by (simp add: subject_of_def)
  show ?thesis
  proof (cases "normalize_arguments d name arguments")
    case (Inl e)
    show ?thesis
      using Inl normalize_arguments_error [OF Inl]
      by (auto simp: decide_before_load_as_def id decide_with_fulfillments_def match Some)
  next
    case (Inr args)
    define p where "p = \<lparr>po_definition = d, po_operation = name, po_expected_id = expected_id, po_arguments = args, po_response_check = check\<rparr>"
    let ?ctx = "unloaded_context d op expected_id args"
    let ?outcomes = "filter (\<lambda>o'. \<not> od_wrong_state o') (op_outcomes op)"
    show ?thesis
    proof (cases "takes_branches d (op_outcomes op)")
      case True
      have "selects (select_unloaded name ?outcomes ?ctx p)
          (select_outcome name (op_outcomes op) (Some (in_state i)) (operation_context d i op args (in_fields i) (in_state i)))"
        unfolding select_outcome_def
      proof (rule select_unloaded_selects)
        show "same_input ?ctx (operation_context d i op args (in_fields i) (in_state i))"
          using i by (simp add: same_input_def unloaded_context_def operation_context_def subject_of_def)
        show "tc_id ?ctx \<noteq> None" by (simp add: unloaded_context_def)
        show "condition_ok False [] c" if "o' \<in> set ?outcomes" "od_when o' = Some c" for o' c
          using ok [OF Some] that by (auto simp: selectors_ok_def list_all_iff)
      qed
      from selects_decides [OF this match Some Inr True ok [OF Some]] show ?thesis
        by (simp add: decide_before_load_as_def id Some Inr True p_def Let_def)
    next
      case False
      then show ?thesis by (simp add: decide_before_load_as_def id Some Inr Let_def)
    qed
  qed
qed

end
