(* ===== verification/Lifecycle.thy ===== *)
theory Lifecycle
  imports Prepared
begin

text \<open>
  The life of an instance: what holds of an instance that creations and decisions made, and the abstract
  lifecycle machine that its states and revisions follow. First, that every step writes well-formed
  documents: objects with ascending keys and numbers of the JSON grammar.
\<close>

section \<open>Well-formed documents\<close>

definition context_ok :: "template_context \<Rightarrow> bool" where
  "context_ok ctx \<longleftrightarrow> jmap_ok (tc_args ctx) \<and> jmap_ok (tc_old_fields ctx) \<and> jmap_ok (tc_new_fields ctx)"

lemma number_ok_show_int [simp]: "number_ok (show_int i)"
proof (cases "i < 0")
  case True
  have u: "unsigned_text (CHR ''-'' # s) = (True, s)" for s by (simp add: unsigned_text_def)
  have v: "unsigned_text (show_nat n) = (False, show_nat n)" for n
    by (auto simp: unsigned_text_def split: list.split dest: show_nat_head)
  have "number_ok (CHR ''-'' # show_nat n)" for n
    using number_ok_show_nat [of n] unfolding number_ok_def u v by simp
  with True show ?thesis by (simp add: show_int_def)
qed (simp add: show_int_def)

lemma number_ok_of_int [simp]: "number_ok (number_of_int i)"
  by (simp add: number_of_int_def)

lemma resolve_root_ok: "resolve_root ctx e = Ok (Some w) \<Longrightarrow> context_ok ctx \<Longrightarrow> json_ok w"
  by (auto simp: resolve_root_def context_ok_def split: option.splits dest: lookup_ok)

lemma either_branch: "(if b then x else y) = z \<Longrightarrow> (x = z \<Longrightarrow> R) \<Longrightarrow> (y = z \<Longrightarrow> R) \<Longrightarrow> R"
  by (cases b) simp_all

lemma resolve_named_ok:
  assumes "resolve_named ctx e = Ok (Some w)" "context_ok ctx"
  shows "json_ok w"
proof -
  have objects: "json_ok (JObject (tc_args ctx))" "json_ok (JObject (tc_new_fields ctx))" "json_ok (JObject (tc_old_fields ctx))"
    using assms(2) by (simp_all add: context_ok_def jmap_ok_def)
  from assms(1) show ?thesis
    unfolding resolve_named_def
    by (elim either_branch) (use objects resolve_root_ok [OF _ assms(2)] in \<open>auto simp del: json_ok_object split: option.splits\<close>)
qed

lemma resolve_expression_ok:
  "resolve_expression_optional e ctx [] = Ok (Some w) \<Longrightarrow> context_ok ctx \<Longrightarrow> json_ok w"
  by (auto simp: resolve_expression_optional_def dest: resolve_named_ok split: prod.splits)

lemma rmap_pairs_ok:
  assumes "rmap (\<lambda>(k, w). rbind (f w) (\<lambda>x. Ok (k, x))) m = Ok kvs"
    and "\<And>k v w. (k, v) \<in> set m \<Longrightarrow> f v = Ok w \<Longrightarrow> json_ok w"
  shows "\<forall>v \<in> snd ` set kvs. json_ok v"
  using assms
proof (induction m arbitrary: kvs)
  case (Cons kv m)
  obtain k v where kv: "kv = (k, v)" by force
  from Cons.prems(1) obtain w rest where "f v = Ok w" "rmap (\<lambda>(k, w). rbind (f w) (\<lambda>x. Ok (k, x))) m = Ok rest" "kvs = (k, w) # rest"
    by (auto simp: kv res_simps)
  moreover from this(2) have "\<forall>v \<in> snd ` set rest. json_ok v"
    by (rule Cons.IH) (use Cons.prems(2) in auto)
  ultimately show ?case using Cons.prems(2) [of k v w] kv by simp
qed simp

lemma resolve_template_ok:
  "resolve_template v ctx = Ok w \<Longrightarrow> json_ok v \<Longrightarrow> context_ok ctx \<Longrightarrow> json_ok w"
proof (induction v arbitrary: w)
  case (JString s)
  then show ?case
    by (auto simp: resolve_template.simps res_simps split: if_splits dest: resolve_expression_ok)
next
  case (JArray vs)
  from JArray.prems(1) obtain ws where w: "w = JArray ws" and ws: "list_all2 (\<lambda>v w. resolve_template v ctx = Ok w) vs ws"
    by (auto simp: resolve_template.simps [of "JArray vs"] res_simps rmap_Ok_iff)
  from ws have "\<forall>x \<in> set ws. \<exists>v \<in> set vs. resolve_template v ctx = Ok x"
    by (induction rule: list_all2_induct) auto
  with JArray w show ?case by fastforce
next
  case (JObject m)
  from JObject.prems(1) obtain kvs where w: "w = JObject (bt_collect kvs)"
    and kvs: "rmap (\<lambda>(k, w). rbind (resolve_template w ctx) (\<lambda>x. Ok (k, x))) m = Ok kvs"
    by (auto simp: resolve_template.simps [of "JObject m"] res_simps)
  have "\<forall>v \<in> snd ` set kvs. json_ok v"
    using kvs by (rule rmap_pairs_ok) (use JObject in fastforce)
  then show ?case using jmap_ok_collect [of kvs] by (simp add: w jmap_ok_def del: json_ok_object)
qed (simp_all add: resolve_template.simps)

lemma object_path_ok: "object_path v segments = Some w \<Longrightarrow> json_ok v \<Longrightarrow> json_ok w"
  by (induction v segments rule: object_path.induct)
    (auto split: option.splits dest: json_ok_member)

lemma argument_presence_ok: "argument_presence args source = Some w \<Longrightarrow> jmap_ok args \<Longrightarrow> json_ok w"
  by (auto simp: argument_presence_def split: list.splits option.splits dest: object_path_ok jmap_ok_get)

lemma insert_present_ok:
  "jmap_ok object \<Longrightarrow> jmap_ok args \<Longrightarrow> jmap_ok (insert_present_arguments object conditional args)"
  unfolding insert_present_arguments_def
proof (induction conditional arbitrary: object)
  case (Cons entry conditional)
  then show ?case
    by (cases entry; cases "argument_presence args (snd entry)")
      (auto simp: canonicalize_ok dest: argument_presence_ok)
qed simp

lemma add_amount_ok:
  assumes "add_amount name field ctx held by e = Ok w" "number_ok held" "number_ok by"
  shows "json_ok w"
  using assms number_add_exact [OF assms(2,3)]
  by (auto simp: add_amount_def Let_def res_simps written_sum_def split: if_splits)

lemma incremented_value_ok:
  assumes "incremented_value name field amount ctx = Ok w" "json_ok amount" "context_ok ctx"
  shows "json_ok w"
proof -
  from assms(1) obtain held where held: "map_of (tc_old_fields ctx) field = Some (JNumber held)"
    by (auto simp: incremented_value_def split: option.splits json.splits)
  with assms(1) obtain resolved e where amount: "resolve_template amount ctx = Ok resolved"
    and sum: "(case resolved of JNumber a \<Rightarrow> add_amount name field ctx held a e | _ \<Rightarrow> Err e) = Ok w"
    by (auto simp: incremented_value_def Let_def res_simps)
  then obtain a where a: "resolved = JNumber a" "add_amount name field ctx held a e = Ok w" by (cases resolved) auto
  have "number_ok held" "number_ok a"
    using jmap_ok_get [OF _ held] resolve_template_ok [OF amount assms(2,3)] assms(3) a(1) by (simp_all add: context_ok_def)
  with a(2) show ?thesis by (rule add_amount_ok)
qed

lemma set_assignment_ok:
  assumes "json_ok v"
  shows "set_assignment_of v = AssignTemplate t \<Longrightarrow> json_ok t" "set_assignment_of v = AssignIncrement t \<Longrightarrow> json_ok t"
  using assms by (cases v; auto simp: set_assignment_of_def split: if_splits list.splits)+

lemma assigned_value_ok:
  assumes "assigned_value name field v ctx = Ok (Some w)" "json_ok v" "context_ok ctx"
  shows "json_ok w"
  using assms set_assignment_ok [OF assms(2)]
  by (cases "set_assignment_of v")
    (auto simp: assigned_value_def Let_def res_simps split: json.splits bool.splits
      dest: resolve_template_ok incremented_value_ok)

lemma assign_fields_ok:
  assumes "assign_fields name selected ctx args = Ok (object, removed)" "context_ok ctx" "jmap_ok args"
    and "\<And>f v. (f, v) \<in> set (br_set selected) \<Longrightarrow> json_ok v"
  shows "jmap_ok object"
proof -
  let ?f = "\<lambda>(field, v) (object, removed). rbind (assigned_value name field v ctx) (\<lambda>assigned.
           case assigned of
             Some w \<Rightarrow> Ok (bt_insert field w object, removed)
           | None \<Rightarrow> Ok (bt_remove field object, bs_insert field removed))"
  from assms(1) obtain object1 where
    loop: "rfold ?f (br_set selected) (canonical_object (tc_old_fields ctx), []) = Ok (object1, removed)"
    and object: "object = insert_present_arguments object1 (br_set_if_present selected) args"
    by (auto simp: assign_fields_def res_simps)
  have "jmap_ok (fst (object1, removed))"
    using loop
  proof (rule rfold_invariant [where P = "\<lambda>s. jmap_ok (fst s)"])
    show "jmap_ok (fst (canonical_object (tc_old_fields ctx), []))" using assms(2) by (simp add: context_ok_def)
    fix x s s' assume x: "x \<in> set (br_set selected)" and step: "?f x s = Ok s'" and s: "jmap_ok (fst s)"
    obtain k v where kv: "x = (k, v)" by force
    have "json_ok v" using assms(4) x kv by simp
    with step s assigned_value_ok [of name k v ctx] assms(2) show "jmap_ok (fst s')"
      by (cases s) (auto simp: kv res_simps split: option.splits)
  qed
  then show ?thesis using assms(3) by (simp add: object insert_present_ok)
qed

definition actions_ok :: "actions \<Rightarrow> bool" where
  "actions_ok actions \<longleftrightarrow> sorted_keys actions \<and> (\<forall>(f, a) \<in> set actions. case a of SetValue v \<Rightarrow> json_ok v | _ \<Rightarrow> True)"

lemma fulfil_fields_ok:
  assumes "fulfil_fields d name selected fulfillments (object, removed) = Ok (object', removed')" "jmap_ok object"
    and "\<And>actions. fulfillments = Some actions \<Longrightarrow> actions_ok actions"
  shows "jmap_ok object'"
proof (cases "\<exists>r actions. br_fulfills selected = Some r \<and> r \<noteq> [] \<and> fulfillments = Some actions")
  case False
  with assms show ?thesis by (auto simp: fulfil_fields_def Let_def split: option.splits if_splits)
next
  case True
  then obtain r actions where r: "br_fulfills selected = Some r" "r \<noteq> []" "fulfillments = Some actions" by blast
  let ?n = "case br_name selected of None \<Rightarrow> [] | Some n \<Rightarrow> n"
  have loop: "rfold (fulfil_field d name ?n r) actions (object, removed) = Ok (object', removed')"
    using assms(1) r by (auto simp: fulfil_fields_def Let_def split: if_splits)
  then have "jmap_ok (fst (object', removed'))"
  proof (rule rfold_invariant [where P = "\<lambda>s. jmap_ok (fst s)"])
    show "jmap_ok (fst (object, removed))" using assms(2) by simp
    fix x s s' assume x: "x \<in> set actions" and step: "fulfil_field d name ?n r x s = Ok s'" and s: "jmap_ok (fst s)"
    obtain f a where fa: "x = (f, a)" by force
    from assms(3) [OF r(3)] x have "case a of SetValue v \<Rightarrow> json_ok v | _ \<Rightarrow> True" by (auto simp: actions_ok_def fa)
    with step s show "jmap_ok (fst s')"
      by (cases s; cases a) (auto simp: fa fulfil_field_def res_simps canonicalize_ok split: if_splits)
  qed
  then show ?thesis by simp
qed

section \<open>What registration guarantees\<close>

definition outcome_ok :: "string list \<Rightarrow> outcome_definition \<Rightarrow> bool" where
  "outcome_ok states o' \<longleftrightarrow> (case od_effect o' of Moves to sources \<Rightarrow> to \<in> set states | _ \<Rightarrow> True)
     \<and> list_all (\<lambda>(f, v). json_ok v) (od_set o')"

definition operation_ok :: "string list \<Rightarrow> operation_definition \<Rightarrow> bool" where
  "operation_ok states op \<longleftrightarrow> schema_ok (op_arguments op) \<and> list_all (\<lambda>t. td_to t \<in> set states) (op_transitions op)
     \<and> list_all (\<lambda>(f, v). json_ok v) (op_set op) \<and> list_all (outcome_ok states) (op_outcomes op)"

definition definition_ok :: "entity_definition \<Rightarrow> bool" where
  "definition_ok d \<longleftrightarrow> schema_ok (def_schema d) \<and> schema_ok (cd_arguments (def_create d))
     \<and> lc_initial (def_lifecycle d) \<in> set (lc_states (def_lifecycle d))
     \<and> list_all (outcome_ok (lc_states (def_lifecycle d))) (cd_outcomes (def_create d))
     \<and> list_all (\<lambda>(name, op). operation_ok (lc_states (def_lifecycle d)) op) (def_operations d)"

lemma operation_okD: "definition_ok d \<Longrightarrow> map_of (def_operations d) name = Some op \<Longrightarrow> operation_ok (lc_states (def_lifecycle d)) op"
  by (auto simp: definition_ok_def list_all_iff dest: map_of_SomeD)

lemma outcome_okD: "outcome_ok states o' \<Longrightarrow> (f, v) \<in> set (od_set o') \<Longrightarrow> json_ok v"
  by (auto simp: outcome_ok_def list_all_iff)

section \<open>The instance invariant\<close>

text \<open>
  An instance of a definition: of its entity and version, in one of its states, at a revision a store can
  keep, with fields that the schema validates, and at the address its identity field derives.
\<close>

definition instance_ok :: "serde \<Rightarrow> entity_definition \<Rightarrow> entity_instance \<Rightarrow> bool" where
  "instance_ok S d i \<longleftrightarrow> ensure_instance_matches d i = Ok () \<and> 1 \<le> unat (in_revision i) \<and> unat (in_revision i) \<le> 2 ^ 63 - 1
     \<and> jmap_ok (in_fields i) \<and> validate_object_under (def_schema d) (in_fields i) ''fields'' (def_semantics d) = []
     \<and> check_identity_mirror S d i = Ok ()"

lemma decided_instance_ok:
  assumes decided: "decide_with_fulfillments S d i name arguments fulfillments check = Ok (Accepted dn)"
    and d: "definition_ok d" and i: "jmap_ok (in_fields i)" and arguments: "json_ok arguments"
    and actions: "\<And>a. fulfillments = Some a \<Longrightarrow> actions_ok a"
  shows "instance_ok S d (dn_instance dn)"
proof -
  obtain op args selected where match: "ensure_instance_matches d i = Ok ()" and op: "map_of (def_operations d) name = Some op"
    and norm: "normalize_arguments d name arguments = Ok args" and sel: "select_branch d i op name args = Ok selected"
    and acc: "accept_branch S d i op name args fulfillments check selected = Ok dn"
    using decided by (rule decide_accepted_steps)
  have op_ok: "operation_ok (lc_states (def_lifecycle d)) op" by (rule operation_okD [OF d op])
  have args: "jmap_ok args"
    by (rule normalize_arguments_ok(1) [OF norm _ arguments]) (use op_ok op in \<open>simp add: arguments_ok_def operation_ok_def\<close>)
  have state: "br_to_state selected \<in> set (lc_states (def_lifecycle d))" and sets: "\<And>f v. (f, v) \<in> set (br_set selected) \<Longrightarrow> json_ok v"
  proof -
    have known: "in_state i \<in> set (lc_states (def_lifecycle d))"
      using match by (auto simp: ensure_instance_matches_def ensure_state_known_def res_simps ensure_def split: if_splits)
    from sel have "br_to_state selected \<in> set (lc_states (def_lifecycle d)) \<and> (\<forall>(f, v) \<in> set (br_set selected). json_ok v)"
    proof (cases rule: select_branch_cases)
      case (outcome o' p)
      then have "outcome_ok (lc_states (def_lifecycle d)) p" using op_ok by (auto simp: operation_ok_def list_all_iff)
      then show ?thesis using outcome(2) known
        by (cases "od_effect p") (auto simp: branch_outcome_state outcome_ok_def list_all_iff)
    qed (use op_ok in \<open>auto simp: operation_ok_def list_all_iff\<close>)
    then show "br_to_state selected \<in> set (lc_states (def_lifecycle d))" "\<And>f v. (f, v) \<in> set (br_set selected) \<Longrightarrow> json_ok v"
      by auto
  qed
  from acc show ?thesis
  proof (cases rule: accept_branch_steps)
    case (1 fields0 new_fields removed revision result events response snapshot ctx)
    obtain object removed0 where f0: "fields0 = (object, removed0)" by force
    have "jmap_ok object"
      by (rule assign_fields_ok [OF 1(2) [unfolded f0]]) (use args i sets in \<open>auto simp: context_ok_def operation_context_def\<close>)
    then have "jmap_ok new_fields" using 1(3) [unfolded f0] actions fulfil_fields_ok by blast
    moreover have "ensure_instance_matches d result = Ok ()"
      using match state by (auto simp: 1(6) ensure_instance_matches_def ensure_entity_matches_def ensure_state_known_def res_simps split: if_splits)
    ultimately show ?thesis
      using 1(4,8) next_revision_Ok [OF 1(5)] by (simp add: instance_ok_def 1(6,13))
  qed
qed

section \<open>Creation\<close>

lemma finish_service_create_steps:
  assumes "finish_service_create S d supplied args outcome object check = Ok (Accepted dn)"
  obtains i events response snapshot where
    "(case supplied of Some i \<Rightarrow> Ok i | None \<Rightarrow> derive_creation_identity S d object) = Ok i"
    "check_identity_mirror S d (initial_instance d i object) = Ok ()"
    "check_invariants d (create_context d (Some i) args (Some (cd_arguments (def_create d))) object) = Ok ()"
    "rmap (\<lambda>e. materialize_event e (create_context d (Some i) args (Some (cd_arguments (def_create d))) object) 1 args [])
       (od_emits outcome) = Ok events"
    "materialize_response (od_responds outcome) (od_responds_if_present outcome) (cd_response (def_create d)) check
       (create_context d (Some i) args (Some (cd_arguments (def_create d))) object) = Ok response"
    "dn = created_decision snapshot (initial_instance d i object) args events (Some (od_name outcome))
       (Some (if od_effect outcome = Creates then Created else Unchanged)) (Some response)"
  using assms unfolding finish_service_create_def Let_def
  by (auto simp: res_simps simp del: option.case)

lemma created_branch_fields_ok:
  assumes "created_branch_fields d outcome ctx args = Ok object" "definition_ok d" "outcome \<in> set (cd_outcomes (def_create d))"
    and "context_ok ctx" "jmap_ok args"
  shows "jmap_ok object \<and> validate_object_under (def_schema d) object ''fields'' (def_semantics d) = []"
proof -
  let ?f = "\<lambda>(field, template) object. rbind (resolve_template template ctx) (\<lambda>v. Ok (bt_insert field v object))"
  from assms(1) obtain object1 where loop: "rfold ?f (od_set outcome) [] = Ok object1"
    and object: "object = canonical_object (apply_defaults (def_schema d) (insert_present_arguments object1 (od_set_if_present outcome) args))"
    and valid: "validate_object_under (def_schema d) object ''fields'' (def_semantics d) = []"
    by (auto simp: created_branch_fields_def Let_def res_simps)
  have sets: "json_ok v" if "(f, v) \<in> set (od_set outcome)" for f v
    using assms(2,3) that outcome_okD by (fastforce simp: definition_ok_def list_all_iff)
  have "jmap_ok object1"
    using loop
  proof (rule rfold_invariant [where P = jmap_ok])
    fix x s s' assume x: "x \<in> set (od_set outcome)" and step: "?f x s = Ok s'" and s: "jmap_ok s"
    obtain k v where kv: "x = (k, v)" by force
    have "json_ok v" using sets x kv by simp
    with step s resolve_template_ok [of v ctx] assms(4) show "jmap_ok s'" by (auto simp: kv res_simps)
  qed simp
  then have ok: "jmap_ok (apply_defaults (def_schema d) (insert_present_arguments object1 (od_set_if_present outcome) args))"
    using assms(2,5) by (intro apply_defaults_ok insert_present_ok) (auto simp: definition_ok_def)
  with object have "object = apply_defaults (def_schema d) (insert_present_arguments object1 (od_set_if_present outcome) args)" by simp
  with ok valid show ?thesis by simp
qed

text \<open>The address of a created instance: the one supplied, or the one its fields derive.\<close>

definition created_address :: "serde \<Rightarrow> entity_definition \<Rightarrow> string option \<Rightarrow> jmap \<Rightarrow> string \<Rightarrow> bool" where
  "created_address S d supplied object i \<longleftrightarrow>
     (case supplied of Some i' \<Rightarrow> i = i' | None \<Rightarrow> derive_creation_identity S d object = Ok i)"

definition created_from :: "serde \<Rightarrow> entity_definition \<Rightarrow> string option \<Rightarrow> decision \<Rightarrow> bool" where
  "created_from S d supplied dn \<longleftrightarrow> (\<exists>i object. dn_instance dn = initial_instance d i object
     \<and> created_address S d supplied object i \<and> jmap_ok object
     \<and> validate_object_under (def_schema d) object ''fields'' (def_semantics d) = []
     \<and> check_identity_mirror S d (initial_instance d i object) = Ok ())"

lemma service_create_from:
  assumes "service_create S d supplied input check = Ok (Accepted dn)" "definition_ok d" "json_ok input"
  shows "created_from S d supplied dn"
proof -
  let ?schema = "cd_arguments (def_create d)"
  from assms(1) obtain object0 outcome where o0: "into_object input ''arguments'' = Ok object0"
    and sel: "select_outcome create_command (cd_outcomes (def_create d)) (Some (lc_initial (def_lifecycle d)))
      (create_context d supplied (apply_defaults ?schema object0) (Some ?schema) []) = Ok outcome"
    and last: "(case od_refuses outcome of Some r \<Rightarrow> Ok (RefusedBranch (refusal_of (od_name outcome) r))
      | None \<Rightarrow> rbind (created_branch_fields d outcome (create_context d supplied (apply_defaults ?schema object0) (Some ?schema) []) (apply_defaults ?schema object0))
          (\<lambda>fields'. finish_service_create S d supplied (apply_defaults ?schema object0) outcome fields' check)) = Ok (Accepted dn)"
    by (auto simp: service_create_def Let_def res_simps)
  then obtain object where fields': "created_branch_fields d outcome (create_context d supplied (apply_defaults ?schema object0) (Some ?schema) []) (apply_defaults ?schema object0) = Ok object"
    and finish: "finish_service_create S d supplied (apply_defaults ?schema object0) outcome object check = Ok (Accepted dn)"
    by (cases "od_refuses outcome") (auto simp: res_simps)
  have args: "jmap_ok (apply_defaults ?schema object0)"
    using assms(2) into_object_ok [OF o0 assms(3)] by (intro apply_defaults_ok) (auto simp: definition_ok_def)
  have object: "jmap_ok object \<and> validate_object_under (def_schema d) object ''fields'' (def_semantics d) = []"
    using fields' assms(2) select_outcome_mem [OF sel] args
    by (intro created_branch_fields_ok) (auto simp: context_ok_def create_context_def)
  from finish show ?thesis
  proof (cases rule: finish_service_create_steps)
    case (1 i events response snapshot)
    then show ?thesis
      using object unfolding created_from_def
      by (intro exI [of _ i] exI [of _ object]) (auto simp: created_address_def created_decision_def split: option.splits)
  qed
qed

lemma create_from_fields_from:
  assumes "create_from_fields S d i input = Ok (Accepted dn)" "definition_ok d" "json_ok input"
  shows "created_from S d (Some i) dn"
proof -
  from assms(1) obtain object0 where o0: "into_object input ''fields'' = Ok object0"
    and steps: "validate_object_under (def_schema d) (apply_defaults (def_schema d) object0) ''fields'' (def_semantics d) = []"
      "check_identity_mirror S d (initial_instance d i (apply_defaults (def_schema d) object0)) = Ok ()"
      "dn_instance dn = initial_instance d i (apply_defaults (def_schema d) object0)"
    by (auto simp: create_from_fields_def Let_def res_simps created_decision_def)
  have "jmap_ok (apply_defaults (def_schema d) object0)"
    using assms(2) into_object_ok [OF o0 assms(3)] by (intro apply_defaults_ok) (auto simp: definition_ok_def)
  with steps show ?thesis unfolding created_from_def created_address_def by auto
qed

lemma decide_create_from:
  "decide_create_as S d i input check = Ok (Accepted dn) \<Longrightarrow> definition_ok d \<Longrightarrow> json_ok input \<Longrightarrow>
     \<not> is_blank i \<and> created_from S d (Some i) dn"
  by (auto simp: decide_create_as_def split: if_splits dest: service_create_from create_from_fields_from)

lemma created_instance_ok:
  assumes "created_from S d supplied dn" "definition_ok d"
  shows "instance_ok S d (dn_instance dn)"
proof -
  obtain i object where dn: "dn_instance dn = initial_instance d i object"
    and "jmap_ok object" "validate_object_under (def_schema d) object ''fields'' (def_semantics d) = []"
      "check_identity_mirror S d (initial_instance d i object) = Ok ()"
    using assms(1) by (auto simp: created_from_def)
  with assms(2) show ?thesis unfolding dn
    by (simp add: instance_ok_def initial_instance_def ensure_instance_matches_def
        ensure_entity_matches_def ensure_state_known_def definition_ok_def)
qed

text \<open>An identity derived from the fields is never blank and always mirrors them.\<close>

lemma derived_mirrors:
  assumes "derive_creation_identity S d object = Ok i"
  shows "check_identity_mirror S d (initial_instance d i object) = Ok ()" "\<not> is_blank i"
proof -
  from assms obtain identity f v where "def_identity d = Some identity"
    "map_of (os_fields (def_schema d)) (id_field identity) = Some f" "map_of object (id_field identity) = Some v"
    and answer: "(case address (sd_quote S) (fd_kind f) v of Ok a \<Rightarrow> Ok a
      | Err e \<Rightarrow> Err (CreationIdentityUnavailable (def_entity d)
         (case address_error_message e of Msg t args \<Rightarrow>
            Msg (''identity field {}: '' @ t) (ArgText (id_field identity) # args)))) = Ok i"
    by (auto simp: derive_creation_identity_def res_simps)
  moreover from answer have a: "address (sd_quote S) (fd_kind f) v = Ok i"
    by (cases "address (sd_quote S) (fd_kind f) v") auto
  ultimately  show "check_identity_mirror S d (initial_instance d i object) = Ok ()"
    by (simp add: check_identity_mirror_def initial_instance_def)
  show "\<not> is_blank i" using address_visible [OF a] not_blank_ascii by blast
qed

lemma create_from_fields_instance:
  assumes "create_from_fields S d i (JObject object) = Ok (Accepted dn)" "schema_ok (def_schema d)"
    and "object = apply_defaults (def_schema d) object0" "jmap_ok object0"
  shows "dn_instance dn = initial_instance d i object"
proof -
  have "jmap_ok object" using assms(2-4) by (simp add: apply_defaults_ok)
  moreover have "apply_defaults (def_schema d) object = object"
    using assms(3) apply_defaults_idem [OF assms(2,4)] by simp
  ultimately show ?thesis
    using assms(1) by (auto simp: create_from_fields_def into_object_def Let_def res_simps created_decision_def)
qed

lemma decide_create_derived_from:
  assumes "decide_create_derived S d input = Ok (Accepted dn)" "definition_ok d" "json_ok input"
  shows "created_from S d None dn"
proof (cases "takes_branches d (cd_outcomes (def_create d))")
  case True
  with assms show ?thesis by (auto simp: decide_create_derived_def intro: service_create_from)
next
  case False
  from False assms(1) obtain object0 i where o0: "into_object input ''fields'' = Ok object0"
    and i: "derive_creation_identity S d (canonical_object (apply_defaults (def_schema d) object0)) = Ok i"
    and c: "decide_create S d i (JObject (canonical_object (apply_defaults (def_schema d) object0))) = Ok (Accepted dn)"
    by (auto simp: decide_create_derived_def Let_def res_simps)
  have s: "schema_ok (def_schema d)" and o0_ok: "jmap_ok object0"
    using assms(2) into_object_ok [OF o0 assms(3)] by (auto simp: definition_ok_def)
  let ?object = "apply_defaults (def_schema d) object0"
  have canon: "canonical_object ?object = ?object" and ok: "jmap_ok ?object" using s o0_ok by (simp_all add: apply_defaults_ok)
  have from_fields: "create_from_fields S d i (JObject ?object) = Ok (Accepted dn)"
    using c False by (auto simp: decide_create_def decide_create_as_def canon split: if_splits)
  have "dn_instance dn = initial_instance d i ?object"
    by (rule create_from_fields_instance [OF from_fields s refl o0_ok])
  moreover have "created_from S d (Some i) dn"
    by (rule create_from_fields_from [OF from_fields assms(2)]) (use ok in \<open>simp add: jmap_ok_def\<close>)
  ultimately show ?thesis
    using i by (auto simp: created_from_def created_address_def canon initial_instance_def)
qed

section \<open>The instances a host can hold\<close>

inductive reachable :: "serde \<Rightarrow> entity_definition \<Rightarrow> entity_instance \<Rightarrow> bool" for S d where
  created: "decide_create_as S d i input check = Ok (Accepted dn) \<Longrightarrow> json_ok input \<Longrightarrow> reachable S d (dn_instance dn)"
| derived: "decide_create_derived S d input = Ok (Accepted dn) \<Longrightarrow> json_ok input \<Longrightarrow> reachable S d (dn_instance dn)"
| decided: "reachable S d i \<Longrightarrow> decide_with_fulfillments S d i name arguments fulfillments check = Ok (Accepted dn) \<Longrightarrow>
    json_ok arguments \<Longrightarrow> list_all actions_ok (case fulfillments of Some a \<Rightarrow> [a] | None \<Rightarrow> []) \<Longrightarrow>
    reachable S d (dn_instance dn)"

lemma reachable_instance_ok:
  assumes "reachable S d i" "definition_ok d"
  shows "instance_ok S d i"
  using assms(1)
proof induction
  case (created i input check dn)
  then show ?case using decide_create_from created_instance_ok assms(2) by blast
next
  case (derived input dn)
  then show ?case using decide_create_derived_from created_instance_ok assms(2) by blast
next
  case (decided i name arguments fulfillments check dn)
  show ?case
  proof (rule decided_instance_ok [OF decided.hyps(2) assms(2) _ decided.hyps(3)])
    show "jmap_ok (in_fields i)" using decided.IH by (simp add: instance_ok_def)
    show "actions_ok a" if "fulfillments = Some a" for a using decided.hyps(4) that by simp
  qed
qed

section \<open>The abstract lifecycle\<close>

text \<open>
  What a definition promises of an identity's history, with the fields forgotten: it starts in the initial
  state at revision 1, keeps its address, and each decision takes one permitted move and one revision.
\<close>

type_synonym position = "string \<times> string \<times> nat"

definition position_of :: "entity_instance \<Rightarrow> position" where
  "position_of i = (in_id i, in_state i, unat (in_revision i))"

inductive moves :: "entity_definition \<Rightarrow> position \<Rightarrow> position \<Rightarrow> bool" for d where
  move: "map_of (def_operations d) name = Some op \<Longrightarrow> permitted d op s t \<Longrightarrow> n + 1 \<le> 2 ^ 63 - 1 \<Longrightarrow>
    moves d (i, s, n) (i, t, n + 1)"

inductive_cases movesE: "moves d (i, s, n) p"

inductive_simps moves_iff: "moves d (i, s, n) (i', t, m)"

inductive history :: "entity_definition \<Rightarrow> position \<Rightarrow> bool" for d where
  start: "history d (i, lc_initial (def_lifecycle d), 1)"
| step: "history d p \<Longrightarrow> moves d p q \<Longrightarrow> history d q"

lemma accepted_moves:
  assumes "decide_with_fulfillments S d i name arguments fulfillments check = Ok (Accepted dn)"
  shows "moves d (position_of i) (position_of (dn_instance dn))"
proof -
  obtain op args selected where op: "map_of (def_operations d) name = Some op" and sel: "select_branch d i op name args = Ok selected"
    and acc: "accept_branch S d i op name args fulfillments check selected = Ok dn"
    using assms by (rule decide_accepted_steps)
  from acc show ?thesis
  proof (cases rule: accept_branch_steps)
    case (1 state new_fields removed revision result events response snapshot ctx)
    then show ?thesis
      using next_revision_Ok [OF 1(5)] moves.move [OF op select_branch_permitted [OF sel]]
      by (simp add: position_of_def)
  qed
qed

lemma created_starts: "created_from S d supplied dn \<Longrightarrow> history d (position_of (dn_instance dn))"
  using history.start [of d] by (auto simp: created_from_def position_of_def initial_instance_def)

lemma reachable_history:
  assumes "reachable S d i" "definition_ok d"
  shows "history d (position_of i)"
  using assms(1)
proof induction
  case (created i input check dn)
  then show ?case using decide_create_from created_starts assms(2) by blast
next
  case (derived input dn)
  then show ?case using decide_create_derived_from created_starts assms(2) by blast
next
  case (decided i name arguments fulfillments check dn)
  then show ?case using accepted_moves history.step by blast
qed

end
