(* ===== verification/Example.thy ===== *)
theory Example
  imports Lifecycle
begin

text \<open>
  One small definition, created and decided once: the concrete run on which the hypotheses of the properties
  are seen to hold. Every answer is computed by the definitions of the model.
\<close>

section \<open>A ticket\<close>

definition plain_serde :: serde where
  "plain_serde = \<lparr>sd_quote = (\<lambda>s. CHR 0x22 # s @ [CHR 0x22]), sd_to_value = (\<lambda>_. Some JNull), sd_from_value = (\<lambda>_. None)\<rparr>"

definition required_of_kind :: "field_kind \<Rightarrow> field_definition" where
  "required_of_kind k = FieldDefinition k True DefaultAbsent None None None None None [] None [] False
     None None None None None []"

definition ticket_schema :: object_schema where
  "ticket_schema = \<lparr>os_fields = [(''count'', required_of_kind KInteger), (''label'', field_of_kind KString),
     (''title'', required_of_kind KString)], os_additional_fields = False\<rparr>"

definition ticket_arguments :: object_schema where
  "ticket_arguments = \<lparr>os_fields = [(''note'', field_of_kind KString), (''title'', field_of_kind KString)], os_additional_fields = False\<rparr>"

definition plain_outcome :: "string \<Rightarrow> outcome_effect \<Rightarrow> outcome_definition" where
  "plain_outcome name effect = \<lparr>od_name = name, od_when = None, od_in_state = None, od_wrong_state = False, od_effect = effect,
     od_set = [], od_fulfills = [], od_set_if_present = [], od_emits = [], od_responds = [], od_responds_if_present = [],
     od_refuses = None\<rparr>"

definition refused_outcome :: outcome_definition where
  "refused_outcome = (plain_outcome ''refused'' EffectNone)
     \<lparr>od_when := Some (CEq (JString ''$args.note'') (JString ''no'')),
      od_refuses := Some \<lparr>rd_error = ''TicketRefused'', rd_message = None\<rparr>\<rparr>"

definition closed_outcome :: outcome_definition where
  "closed_outcome = (plain_outcome ''closed'' (Moves ''done'' (One ''ready'')))
     \<lparr>od_set := [(''count'', JObject [(''increment'', JNumber ''1'')])]\<rparr>"

definition ticket_operation :: operation_definition where
  "ticket_operation = \<lparr>op_arguments = ticket_arguments, op_transitions = [], op_preconditions = [], op_set = [], op_emits = [],
     op_response = empty_schema, op_outcomes = [refused_outcome, closed_outcome]\<rparr>"

definition created_outcome :: outcome_definition where
  "created_outcome = (plain_outcome ''created'' Creates)
     \<lparr>od_set := [(''count'', JNumber ''0''), (''title'', JString ''$args.title'')]\<rparr>"

definition ticket :: entity_definition where
  "ticket = \<lparr>def_entity = ''ticket'', def_version = 1, def_schema = ticket_schema,
     def_lifecycle = \<lparr>lc_initial = ''ready'', lc_states = [''done'', ''ready'']\<rparr>,
     def_invariants = [\<lparr>rule_name = None, rule_condition = CExists (JString ''$fields.title''), rule_message = None\<rparr>],
     def_create = \<lparr>cd_emit = None, cd_arguments = ticket_arguments, cd_response = empty_schema, cd_outcomes = [created_outcome]\<rparr>,
     def_operations = [(''close'', ticket_operation)],
     def_projections = [(''closed_by_count'', \<lparr>pd_key = ''$fields.count'', pd_in_state = Some ''done''\<rparr>)], def_semantics = Service1,
     def_identity = Some \<lparr>id_field = ''title''\<rparr>, def_relations = [], def_scales = [],
     def_number_observation = SourceNumber1\<rparr>"

definition ticket_serde :: serde where
  "ticket_serde = plain_serde\<lparr>sd_from_value := (\<lambda>_. Some ticket)\<rparr>"

definition ticket_instance :: entity_instance where
  "ticket_instance = \<lparr>in_entity = ''ticket'', in_version = 1, in_id = ''s:a'', in_state = ''ready'', in_revision = 1,
     in_fields = [(''count'', JNumber ''0''), (''title'', JString ''a'')]\<rparr>"

definition closed_instance :: entity_instance where
  "closed_instance = ticket_instance\<lparr>in_state := ''done'', in_revision := 2,
     in_fields := [(''count'', JNumber ''1''), (''title'', JString ''a'')]\<rparr>"

definition ticket_created :: decision where
  "ticket_created = created_decision ticket ticket_instance [(''title'', JString ''a'')] [] (Some ''created'') (Some Created) (Some [])"

definition ticket_closed :: decision where
  "ticket_closed = \<lparr>dn_instance = closed_instance,
     dn_record = \<lparr>dr_definition = Some ticket, dr_command = CommandExecute ''close'' [(''note'', JString ''yes'')] [],
       dr_entity = ''ticket'', dr_id = ''s:a'', dr_revision = 2, dr_from_state = Some ''ready'', dr_to_state = ''done'',
       dr_result = closed_instance, dr_changed = [(''count'', JNumber ''1'')], dr_removed = [], dr_events = [],
       dr_outcome = Some ''closed'', dr_effect = Some Moved, dr_response = Some []\<rparr>,
     dn_events = []\<rparr>"

section \<open>Its run\<close>

text \<open>The equations at a constructor, so that evaluation never unfolds a recursive definition under a binder.\<close>

lemmas at_constructor =
  resolve_template.simps [of "JString s" for s] resolve_template.simps [of "JNumber n" for n]
  resolve_operand.simps [of "JString s" for s] resolve_operand.simps [of "JNumber n" for n]
  observed_values_equal.simps [of "JString s" _ "JString t" for s t]
  evaluate_condition.simps [of "CEq a b" for a b] evaluate_condition.simps [of "CExists a" for a]
  walk.simps [of "JString s" for s]

lemmas reference_eval = resolve_expression_optional_def resolve_named_def resolve_root_def next_segment_def
  starts_with_def lookup_def

lemmas condition_eval = compare_values_def value_test_def resolve_pair_def equal_under_def

lemmas ticket_defs = ticket_def ticket_operation_def refused_outcome_def closed_outcome_def plain_outcome_def ticket_instance_def
  ticket_schema_def ticket_arguments_def created_outcome_def

lemma ticket_arguments_normal: "normalize_arguments ticket ''close'' (JObject [(''note'', JString ''yes'')]) = Ok [(''note'', JString ''yes'')]"
  by code_simp

lemma note_lookup: "lookup [(''note'', JString t)] ''note'' (Some ticket_arguments) s = Some (JString t)"
  by (simp add: lookup_def next_segment_def ticket_defs field_of_kind_def)


lemma service_ticket [simp]: "has_service_semantics Service1" "has_service_semantics (def_semantics ticket)"
  by (simp_all add: ticket_def has_service_semantics_def)

abbreviation "close_context fs to t \<equiv> operation_context ticket ticket_instance ticket_operation [(''note'', JString t)] fs to"

lemma close_service: "service (close_context fs to t)"
  by (simp add: service_def operation_context_def)

lemma note_condition: "evaluate_condition (CEq (JString ''$args.note'') (JString ''no'')) (close_context fs to t) [] [] = Ok (from_bool (t = ''no''), [])"
proof -
  have "resolve_expression_optional ''$args.note'' (close_context fs to t) [] = Ok (Some (JString t))"
    using note_lookup by (simp add: reference_eval operation_context_def ticket_operation_def)
  then show ?thesis
    by (simp add: at_constructor condition_eval close_service starts_with_def)
qed

lemma ticket_select: "select_branch ticket ticket_instance ticket_operation ''close'' [(''note'', JString t)]
    = Ok (branch_outcome (if t = ''no'' then refused_outcome else closed_outcome) ''ready'')"
proof -
  have "in_state ticket_instance = ''ready''" "op_outcomes ticket_operation = [refused_outcome, closed_outcome]"
    by (simp_all add: ticket_defs)
  moreover have "select_outcome ''close'' [refused_outcome, closed_outcome] (Some ''ready'') (close_context (in_fields ticket_instance) ''ready'' t)
    = Ok (if t = ''no'' then refused_outcome else closed_outcome)"
    using note_condition [of t "in_fields ticket_instance" "''ready''"]
    by (simp add: from_bool_def select_outcome_def guarded_out_def refused_outcome_def closed_outcome_def plain_outcome_def)
  moreover have "admit_state ticket ticket_operation ''close'' (if t = ''no'' then refused_outcome else closed_outcome) ''ready''
    = Ok (if t = ''no'' then refused_outcome else closed_outcome)"
    by (simp add: admit_state_def refused_outcome_def closed_outcome_def plain_outcome_def)
  ultimately show ?thesis
    by (simp add: select_branch_def takes_branches_def)
qed

lemma count_incremented: "assigned_value ''close'' ''count'' (JObject [(''increment'', JNumber ''1'')]) (close_context fs to t) = Ok (Some (JNumber ''1''))"
proof -
  have "add_amount ''close'' ''count'' (close_context fs to t) ''0'' ''1'' e = Ok (JNumber ''1'')" for e
  proof -
   have "integer_of ''0'' = Some 0" "integer_of ''1'' = Some 1" "written_sum True 1 = Some ''1''" by code_simp+
   then show ?thesis
    by (simp add: add_amount_def close_service Let_def) (simp add: operation_context_def ticket_defs required_of_kind_def)
  qed
  then show ?thesis
    by (simp add: assigned_value_def set_assignment_of_def incremented_value_def at_constructor bt_keys_def operation_context_def ticket_instance_def)
qed

lemma ticket_assigned: "assign_fields ''close'' (branch_outcome closed_outcome ''ready'') (close_context (in_fields ticket_instance) to t) args
   = Ok ([(''count'', JNumber ''1''), (''title'', JString ''a'')], [])"
  using count_incremented [of t "in_fields ticket_instance" to]
  by (simp add: assign_fields_def closed_outcome_def plain_outcome_def insert_present_arguments_def)
     (simp add: operation_context_def ticket_instance_def canonical_object_def bt_collect_def)

lemma of_kind_simps:
  "fd_kind (field_of_kind k) = k" "fd_kind (required_of_kind k) = k" "\<not> fd_required (field_of_kind k)" "fd_required (required_of_kind k)"
  "fd_default (field_of_kind k) = DefaultAbsent" "fd_default (required_of_kind k) = DefaultAbsent"
  by (simp_all add: field_of_kind_def required_of_kind_def)

lemma validate_text [simp]:
  "validate_value s (field_of_kind KString) (JString t) p = []" "validate_value s (required_of_kind KString) (JString t) p = []"
  by (simp_all add: validate_value.simps field_of_kind_def required_of_kind_def validate_string_def)

lemma validate_integer: "as_i64 n = Some i \<Longrightarrow> validate_value s (required_of_kind KInteger) (JNumber n) p = []"
  by (simp add: validate_value.simps required_of_kind_def validate_number_def of_number_def validate_bound_def)

lemma ticket_fields_valid:
  "as_i64 n = Some i \<Longrightarrow> validate_object_under ticket_schema [(''count'', JNumber n), (''title'', JString t)] base s = []"
  by (simp add: validate_object_under_def validate_members_def check_members_def ticket_schema_def validate_integer of_kind_simps bt_contains_iff bt_keys_def)

lemma ticket_schema_facts [simp]: "def_schema ticket = ticket_schema" "def_semantics ticket = Service1"
  by (simp_all add: ticket_def)

lemma no_response: "validate_object_under empty_schema [] base s = []"
  by (simp add: validate_object_under_def validate_members_def check_members_def empty_schema_def bt_keys_def)

lemma ticket_mirror: "check_identity_mirror ticket_serde ticket (ticket_instance\<lparr>in_fields := [(''count'', n), (''title'', JString ''a'')], in_state := s, in_revision := r\<rparr>) = Ok ()"
  by (simp add: check_identity_mirror_def ticket_defs address_def of_kind_simps)

lemma ticket_invariants: "check_invariants ticket (close_context [(''count'', n), (''title'', JString ''a'')] to t) = Ok ()"
  by (simp add: check_invariants_def ticket_def from_bool_def at_constructor reference_eval operation_context_def)


lemma ticket_refused: "decide ticket_serde ticket ticket_instance ''close'' (JObject [(''note'', JString ''no'')])
    = Ok (RefusedBranch \<lparr>rf_outcome = ''refused'', rf_error = ''TicketRefused'', rf_message = None\<rparr>)"
proof -
  have "normalize_arguments ticket ''close'' (JObject [(''note'', JString ''no'')]) = Ok [(''note'', JString ''no'')]" by code_simp
  moreover have "ensure_instance_matches ticket ticket_instance = Ok ()" by code_simp
  moreover have "map_of (def_operations ticket) ''close'' = Some ticket_operation" by (simp add: ticket_def)
  ultimately show ?thesis using ticket_select [of "''no''"]
    by (simp add: decide_def decide_with_fulfillments_def)
     (simp add: branch_refusal_def refused_outcome_def plain_outcome_def refusal_of_def)
qed

lemma ticket_close: "decide ticket_serde ticket ticket_instance ''close'' (JObject [(''note'', JString ''yes'')]) = Ok (Accepted ticket_closed)"
proof -
  have "normalize_arguments ticket ''close'' (JObject [(''note'', JString ''yes'')]) = Ok [(''note'', JString ''yes'')]" by code_simp
  moreover have "ensure_instance_matches ticket ticket_instance = Ok ()" by code_simp
  moreover have "map_of (def_operations ticket) ''close'' = Some ticket_operation" by (simp add: ticket_def)
  moreover have "accept_branch ticket_serde ticket ticket_instance ticket_operation ''close'' [(''note'', JString ''yes'')] None Checked
     (branch_outcome closed_outcome ''ready'') = Ok ticket_closed"
  proof -
    have one: "as_i64 ''1'' = Some 1" by code_simp
    have pre: "op_preconditions ticket_operation = []" by (simp add: ticket_operation_def)
    have rev: "next_revision ticket_instance = Ok 2" by (simp add: next_revision_def ticket_instance_def)
    have snap: "definition_snapshot ticket_serde ticket = Ok ticket"
      by (simp add: definition_snapshot_def ticket_serde_def plain_serde_def)
    have resp: "materialize_response [] [] (op_response ticket_operation) Checked ctx = Ok []" for ctx
      by (simp add: materialize_response_def insert_present_arguments_def ticket_operation_def no_response)
    have closed: "od_fulfills closed_outcome = []" "od_refuses closed_outcome = None" "od_emits closed_outcome = []" "od_responds closed_outcome = []"
      "od_responds_if_present closed_outcome = []" "od_name closed_outcome = ''closed''"
      "br_to_state (branch_outcome closed_outcome ''ready'') = ''done''" "br_effect (branch_outcome closed_outcome ''ready'') = Some Moved"
      by (simp_all add: closed_outcome_def plain_outcome_def branch_outcome_def)
    have result: "ticket_instance\<lparr>in_state := ''done'', in_revision := 2, in_fields := [(''count'', JNumber ''1''), (''title'', JString ''a'')]\<rparr> = closed_instance"
      by (simp add: closed_instance_def)
    have mirror: "check_identity_mirror ticket_serde ticket closed_instance = Ok ()"
      by (simp add: check_identity_mirror_def closed_instance_def ticket_defs address_def of_kind_simps)
    show ?thesis
      unfolding accept_branch_def Let_def pre check_preconditions.simps
      by (simp add: ticket_assigned fulfil_fields_def ticket_fields_valid [of _ 1] one rev closed result mirror ticket_invariants resp snap)
        (simp add: ticket_closed_def changed_fields_def operation_context_def closed_instance_def ticket_instance_def)
  qed
  ultimately show ?thesis using ticket_select [of "''yes''"]
    by (simp add: decide_def decide_with_fulfillments_def)
     (simp add: branch_refusal_def closed_outcome_def plain_outcome_def)
qed

section \<open>Its creation\<close>

abbreviation "new_ticket i fs \<equiv> create_context ticket i [(''title'', JString ''a'')] (Some ticket_arguments) fs"

lemma new_ticket_arguments:
  "canonical_object [(''title'', JString ''a'')] = [(''title'', JString ''a'')]" "apply_defaults ticket_arguments [(''title'', JString ''a'')] = [(''title'', JString ''a'')]"
  "validate_object_under ticket_arguments [(''title'', JString ''a'')] ''arguments'' Service1 = []"
  by code_simp (code_simp, simp add: validate_object_under_def validate_members_def check_members_def ticket_arguments_def bt_keys_def
    bt_contains_iff, simp add: field_of_kind_def)

lemma new_ticket_fields:
  "created_branch_fields ticket created_outcome (new_ticket i []) [(''title'', JString ''a'')]
     = Ok [(''count'', JNumber ''0''), (''title'', JString ''a'')]"
proof -
  have title: "resolve_template (JString ''$args.title'') (new_ticket i []) = Ok (JString ''a'')"
    by (simp add: at_constructor reference_eval create_context_def)
  have zero: "as_i64 ''0'' = Some 0" by code_simp
  have same: "canonical_object (apply_defaults ticket_schema [(''count'', JNumber ''0''), (''title'', JString ''a'')])
      = [(''count'', JNumber ''0''), (''title'', JString ''a'')]"
    by code_simp
  have count: "resolve_template (JNumber ''0'') ctx = Ok (JNumber ''0'')" for ctx by (simp add: at_constructor)
  show ?thesis
    by (simp add: created_branch_fields_def created_outcome_def plain_outcome_def title count insert_present_arguments_def
        same ticket_fields_valid [OF zero])
qed

lemma new_ticket_select:
  "select_outcome create_command [created_outcome] state ctx = Ok created_outcome" "od_refuses created_outcome = None"
  by (simp_all add: select_outcome_def guarded_out_def created_outcome_def plain_outcome_def)

lemma ticket_finish:
  assumes "supplied = Some ''s:a'' \<or> supplied = None"
  shows "finish_service_create ticket_serde ticket supplied [(''title'', JString ''a'')] created_outcome
    [(''count'', JNumber ''0''), (''title'', JString ''a'')] Checked = Ok (Accepted ticket_created)"
proof -
  let ?object = "[(''count'', JNumber ''0''), (''title'', JString ''a'')]"
  have derived: "derive_creation_identity ticket_serde ticket ?object = Ok ''s:a''"
    by (simp add: derive_creation_identity_def ticket_def ticket_schema_def address_def of_kind_simps)
  have start: "initial_instance ticket ''s:a'' ?object = ticket_instance"
    by (simp add: initial_instance_def ticket_instance_def ticket_def)
  have mirror: "check_identity_mirror ticket_serde ticket ticket_instance = Ok ()"
    by (simp add: check_identity_mirror_def ticket_defs address_def of_kind_simps)
  have invariants: "check_invariants ticket (new_ticket (Some ''s:a'') ?object) = Ok ()"
    by (simp add: check_invariants_def ticket_def from_bool_def at_constructor reference_eval create_context_def)
  have response: "materialize_response [] [] empty_schema Checked ctx = Ok []" for ctx
    by (simp add: materialize_response_def insert_present_arguments_def no_response)
  have snapshot: "definition_snapshot ticket_serde ticket = Ok ticket"
    by (simp add: definition_snapshot_def ticket_serde_def plain_serde_def)
  have create: "cd_arguments (def_create ticket) = ticket_arguments" "cd_response (def_create ticket) = empty_schema"
    by (simp_all add: ticket_def)
  have created: "od_emits created_outcome = []" "od_responds created_outcome = []" "od_responds_if_present created_outcome = []"
      "od_name created_outcome = ''created''" "od_effect created_outcome = Creates"
    by (simp_all add: created_outcome_def plain_outcome_def)
  from assms show ?thesis
    by (auto simp: finish_service_create_def derived start mirror invariants response snapshot create created ticket_created_def)
qed

lemma ticket_service_create:
  assumes "supplied = Some ''s:a'' \<or> supplied = None"
  shows "service_create ticket_serde ticket supplied (JObject [(''title'', JString ''a'')]) Checked = Ok (Accepted ticket_created)"
proof -
  have create: "cd_arguments (def_create ticket) = ticket_arguments" "cd_outcomes (def_create ticket) = [created_outcome]"
    by (simp_all add: ticket_def)
  show ?thesis
    unfolding service_create_def create Let_def
    by (simp add: into_object_def new_ticket_arguments new_ticket_select new_ticket_fields ticket_finish [OF assms])
qed

lemma ticket_takes_branches: "takes_branches ticket (cd_outcomes (def_create ticket))"
  by (simp add: takes_branches_def) (simp add: ticket_def)

lemma ticket_create: "decide_create ticket_serde ticket ''s:a'' (JObject [(''title'', JString ''a'')]) = Ok (Accepted ticket_created)"
  by (simp add: decide_create_def decide_create_as_def ticket_takes_branches ticket_service_create not_blank_ascii visible_ascii_def)

lemma ticket_create_derived: "decide_create_derived ticket_serde ticket (JObject [(''title'', JString ''a'')]) = Ok (Accepted ticket_created)"
  by (simp add: decide_create_derived_def ticket_takes_branches ticket_service_create)

section \<open>What the properties assume of it\<close>

lemma ticket_definition_ok: "definition_ok ticket"
proof -
  have kinds: "field_ok (field_of_kind k)" "field_ok (required_of_kind k)" for k
    by (simp_all add: field_ok.simps field_of_kind_def required_of_kind_def)
  have zero: "json_ok (JNumber ''0'')" "json_ok (JNumber ''1'')" by code_simp+
  have schemas: "schema_ok ticket_schema" "schema_ok ticket_arguments"
    by (simp_all add: schema_ok_def ticket_schema_def ticket_arguments_def kinds)
  have outcomes: "outcome_ok [''done'', ''ready''] created_outcome" "outcome_ok [''done'', ''ready''] refused_outcome"
      "outcome_ok [''done'', ''ready''] closed_outcome"
    using zero by (simp_all add: outcome_ok_def created_outcome_def refused_outcome_def closed_outcome_def plain_outcome_def)
  show ?thesis
    using schemas outcomes by (simp add: definition_ok_def) (simp add: ticket_def operation_ok_def ticket_operation_def)
qed

lemma ticket_reachable: "reachable ticket_serde ticket (dn_instance ticket_closed)"
proof -
  have "reachable ticket_serde ticket (dn_instance ticket_created)"
    using ticket_create by (intro reachable.created) (auto simp: decide_create_def)
  then have "reachable ticket_serde ticket ticket_instance" by (simp add: ticket_created_def created_decision_def)
  then show ?thesis
    by (rule reachable.decided) (use ticket_close in \<open>auto simp: decide_def\<close>)
qed

lemma ticket_subject: "subject_of ticket ''s:a'' ticket_instance"
proof -
  have "ensure_instance_matches ticket ticket_instance = Ok ()" by code_simp
  then show ?thesis by (simp add: subject_of_def ticket_instance_def)
qed

lemma ticket_selectors_ok: "map_of (def_operations ticket) name = Some op \<Longrightarrow> selectors_ok op"
  by (auto simp: ticket_def ticket_operation_def selectors_ok_def refused_outcome_def closed_outcome_def plain_outcome_def
      condition_ok_leaf is_leaf_def leaf_operands_def starts_with_def reference_ok_def split: if_splits)

lemma ticket_arguments_ok: "arguments_ok ticket name"
  using ticket_definition_ok
  by (auto simp: arguments_ok_def definition_ok_def operation_ok_def list_all_iff dest: map_of_SomeD split: option.split)

definition ticket_loaded :: prepared_operation where
  "ticket_loaded = \<lparr>po_definition = ticket, po_operation = ''close'', po_expected_id = ''s:a'',
     po_arguments = [(''note'', JString ''yes'')], po_response_check = Checked\<rparr>"

lemma ticket_before_load: "decide_before_load ticket ''s:a'' ''close'' (JObject [(''note'', JString ''yes'')]) = Ok (Load ticket_loaded)"
proof -
  let ?ctx = "unloaded_context ticket ticket_operation ''s:a'' [(''note'', JString ''yes'')]"
  have "resolve_expression_optional ''$args.note'' ?ctx [] = Ok (Some (JString ''yes''))"
    using note_lookup by (simp add: reference_eval unloaded_context_def ticket_operation_def)
  then have "evaluate_condition_before_load (CEq (JString ''$args.note'') (JString ''no'')) ?ctx [] [] = Ok (Known False3, [])"
    by (simp add: before_load_leaf is_leaf_def at_constructor condition_eval starts_with_def)
      (simp add: evaluate_condition_before_load.simps condition_needs_subject_def value_needs_subject.simps starts_with_def
        next_segment_def at_constructor condition_eval service_def unloaded_context_def from_bool_def)
  moreover have "normalize_arguments ticket ''close'' (JObject [(''note'', JString ''yes'')]) = Ok [(''note'', JString ''yes'')]"
    by code_simp
  moreover have "map_of (def_operations ticket) ''close'' = Some ticket_operation" by (simp add: ticket_def)
  moreover have "op_outcomes ticket_operation = [refused_outcome, closed_outcome]" by (simp add: ticket_operation_def)
  moreover have "od_wrong_state refused_outcome = False" "od_wrong_state closed_outcome = False"
    "od_in_state refused_outcome = None" "od_in_state closed_outcome = None" "od_refuses closed_outcome = None"
    "od_when closed_outcome = None" "od_when refused_outcome = Some (CEq (JString ''$args.note'') (JString ''no''))"
    by (simp_all add: refused_outcome_def closed_outcome_def plain_outcome_def)
  ultimately show ?thesis
    by (simp add: decide_before_load_def decide_before_load_as_def not_blank_ascii visible_ascii_def takes_branches_def Let_def ticket_loaded_def)
qed

section \<open>An operation that leaves a field to the host\<close>

definition fill_outcome :: outcome_definition where
  "fill_outcome = (plain_outcome ''filled'' Updates)\<lparr>od_fulfills := [(''label'', \<lparr>ofr_actions = ActionsOptional\<rparr>)]\<rparr>"

definition fill_operation :: operation_definition where
  "fill_operation = \<lparr>op_arguments = empty_schema, op_transitions = [], op_preconditions = [], op_set = [], op_emits = [],
     op_response = empty_schema, op_outcomes = [fill_outcome]\<rparr>"

definition fillable :: entity_definition where
  "fillable = ticket\<lparr>def_operations := [(''fill'', fill_operation)], def_semantics := Service3\<rparr>"

definition fill_loaded :: prepared_operation where
  "fill_loaded = \<lparr>po_definition = fillable, po_operation = ''fill'', po_expected_id = ''s:a'', po_arguments = [], po_response_check = Checked\<rparr>"

definition fill_prepared :: prepared_outcome where
  "fill_prepared = \<lparr>pc_definition = fillable, pc_operation = ''fill'', pc_instance = ticket_instance, pc_arguments = [],
     pc_outcome = ''filled'', pc_response_check = Checked\<rparr>"

lemma fillable_facts:
  "map_of (def_operations fillable) ''fill'' = Some fill_operation" "op_outcomes fill_operation = [fill_outcome]"
  "takes_branches fillable [fill_outcome]" "normalize_arguments fillable ''fill'' (JObject []) = Ok []"
  "ensure_entity_matches fillable ticket_instance = Ok ()" "ensure_state_known fillable ticket_instance = Ok ()"
  by (simp_all add: fillable_def fill_operation_def takes_branches_def has_service_semantics_def normalize_arguments_def
      into_object_def canonical_object_def bt_collect_def Let_def apply_defaults_def apply_member_defaults_def
      ensure_entity_matches_def ensure_state_known_def empty_schema_def validate_object_under_def validate_members_def
      check_members_def bt_keys_def member_defaults_def ticket_def ticket_instance_def)

lemma fill_select: "select_first ''fill'' [fill_outcome] state ctx = Ok fill_outcome" "\<not> od_wrong_state fill_outcome"
  by (simp_all add: guarded_out_def fill_outcome_def plain_outcome_def)

lemma fill_before_load: "decide_before_load fillable ''s:a'' ''fill'' (JObject []) = Ok (Load fill_loaded)"
  by (simp add: decide_before_load_def decide_before_load_as_def not_blank_ascii visible_ascii_def fillable_facts fill_loaded_def Let_def)
    (simp add: fill_outcome_def plain_outcome_def)

lemma fill_needs: "decide_with_fulfillments ticket_serde fillable ticket_instance ''fill'' (JObject []) None Checked
    = Err (FulfillmentRequired ''fill'' ''filled'' [''label''])"
proof -
  have sel: "select_branch fillable ticket_instance fill_operation ''fill'' [] = Ok (branch_outcome fill_outcome (in_state ticket_instance))"
    by (simp add: select_branch_def fillable_facts select_outcome_def fill_select admit_state_def)
      (simp add: fill_outcome_def plain_outcome_def guarded_out_def)
  have "accept_branch ticket_serde fillable ticket_instance fill_operation ''fill'' [] None Checked
      (branch_outcome fill_outcome (in_state ticket_instance)) = Err (FulfillmentRequired ''fill'' ''filled'' [''label''])"
    unfolding accept_branch_def Let_def
    by (simp add: fill_operation_def assign_fields_def fill_outcome_def plain_outcome_def fulfil_fields_def bt_keys_def)
  with sel show ?thesis
    by (simp add: decide_with_fulfillments_def ensure_instance_matches_def fillable_facts branch_refusal_def)
      (simp add: fill_outcome_def plain_outcome_def)
qed

lemma fill_select_with: "select_with ticket_serde fill_loaded ticket_instance = Ok (NeedsFulfillment fill_prepared)"
  by (simp add: select_with_def fill_loaded_def fillable_facts fill_needs fill_prepared_def ensure_def)
    (simp add: ticket_instance_def)

lemma fill_subject: "subject_of fillable ''s:a'' ticket_instance" "arguments_ok fillable name"
  by (simp_all add: subject_of_def ensure_instance_matches_def fillable_facts)
    (simp_all add: ticket_instance_def arguments_ok_def fillable_def fill_operation_def empty_schema_def schema_ok_def)

end
