(* ===== verification/Scopes.thy ===== *)
theory Scopes
  imports Validation Addressing Evaluation
begin

text \<open>
  Registration, first part: the defects of \<open>entity-core/src/error.rs\<close>, and of \<open>validation.rs\<close> the scopes a
  reference is written in, the check of one reference, of the operands and templates that carry references,
  and of a condition. A check that stops at its first defect is a result; one that reports every defect is a
  list.
\<close>

section \<open>Defects\<close>

datatype (plugins only: size) definition_error =
    EmptyEntityName
  | ZeroVersion
  | EmptyLifecycle
  | EmptyLifecycleState
  | UnknownInitialState string
  | DuplicateLifecycleState string
  | EmptyOperationName
  | NoTransitions string
  | EmptyFromStates string
  | UnknownFromState string string
  | UnknownToState string string
  | AmbiguousTransition string string
  | UnknownSetField string string
  | EmptyEventType "string option"
  | InvalidField string message
  | ConstraintNotApplicable string string string string
  | InvalidRule string message
  | UnknownRelationTarget string string string
  | InvalidTemplate string message
  | DuplicateDefinition string "32 word"
  | SemanticsKeyNotAvailable string string
  | ConditionalArgumentInvalid string string message
  | ConditionalTargetInvalid string string message
  | ConditionalTargetConflict string string
  | FulfillmentOnCreate string string
  | FulfillmentFieldUnknown string string string
  | FulfillmentIdentityField string string string
  | FulfillmentSetConflict string string string
  | FulfillmentConditionalSetConflict string string string
  | FulfillmentPresenceMismatch string string string string
  | EmptyOutcomeName string
  | DuplicateOutcome string string
  | AmbiguousDefaultOutcome string
  | DuplicateWrongStateOutcome string
  | WrongStateOnCreate string
  | WrongStateWithSelector string string
  | WrongStateWithStateGuard string
  | WrongStateUnreachable string
  | GuardStateOutsideMove string string string
  | CreatesEffectOnOperation string string
  | MissingCreatesEffect string string
  | RefusalMutatesState string string
  | UnobservableOutcome string string
  | UnknownOutcomeState string string string
  | ResponseFieldUnknown string string string
  | OutcomeResponseIncomplete string string string
  | IdentityFieldUnknown string
  | IdentityFieldNotAddressable string string
  | RelationViaUnknown string string
  | RelationViaWrongShape string string string message
  | RelationCarrierOptionality string string
  | RelationTargetMissing string string string
  | RelationSecondOwner string string string
  | RelationCarrierWrong string string string message
  | RelationFieldClaimedTwice string string string string
  | MapKeyNotText string
  | MapValueMissing string
  | UnionTagCollides string string
  | UnionVariantMissing string
  | QuantifierBindInvalid string string
  | QuantifierOverNotCollection string message message
  | QuantifierBodyScope string message message
  | ConditionTooDeep string nat nat
  | CompareOperandNotAddressable string string
  | ScaleUnnamed
  | ScaleEmpty string
  | IncrementTargetInvalid string string message
  | IncrementAmountInvalid string message
  | IncrementOnCreate string string
  | ClearTargetInvalid string string message
  | ClearFlagInvalid string string json
  | ClearOnCreate string string
  | SetAssignmentConflict string string "string list"

type_synonym check = "(definition_error, unit) result"

definition map_err :: "('e \<Rightarrow> 'f) \<Rightarrow> ('e, 'a) result \<Rightarrow> ('f, 'a) result" where
  "map_err f r = (case r of Err e \<Rightarrow> Err (f e) | Ok x \<Rightarrow> Ok x)"

lemma map_err_simps [simp]: "map_err f (Err e) = Err (f e)" "map_err f (Ok x) = Ok x"
  by (simp_all add: map_err_def)

lemma map_err_Ok_iff [res_simps]: "map_err f r = Ok x \<longleftrightarrow> r = Ok x"
  by (cases r) auto

text \<open>\<open>Defects::check\<close>: what a check found.\<close>

definition defect :: "check \<Rightarrow> definition_error list" where
  "defect r = (case r of Err e \<Rightarrow> [e] | Ok _ \<Rightarrow> [])"

lemma defect_Nil [simp]: "defect r = [] \<longleftrightarrow> r = Ok ()"
  by (cases r) (auto simp: defect_def)

text \<open>A loop whose body may return a defect.\<close>

fun reach :: "('a \<Rightarrow> ('e, unit) result) \<Rightarrow> 'a list \<Rightarrow> ('e, unit) result" where
  "reach f [] = Ok ()"
| "reach f (x # xs) = rbind (f x) (\<lambda>_. reach f xs)"

lemma reach_cong [fundef_cong]: "xs = ys \<Longrightarrow> (\<And>x. x \<in> set ys \<Longrightarrow> f x = g x) \<Longrightarrow> reach f xs = reach g ys"
proof (induction ys arbitrary: xs)
  case (Cons y ys)
  then show ?case by (cases "g y") simp_all
qed simp

lemma reach_Ok_iff [simp]: "reach f xs = Ok () \<longleftrightarrow> (\<forall>x \<in> set xs. f x = Ok ())"
  by (induction xs) (auto simp: res_simps)

section \<open>Scopes\<close>

datatype scope_kind =
    ScopeInvariant | ScopePrecondition | ScopeCreateTemplate | ScopeOperationTemplate | ScopeOutcomeSelector
  | ScopeCreateSelector | ScopeCreateSet | ScopeCreateOutcomeTemplate

definition scope_allowed :: "scope_kind \<Rightarrow> string" where
  "scope_allowed k = (case k of
     ScopeInvariant \<Rightarrow> ''$id, $entity, $version, $state, $fields, $fields.<path>''
   | ScopePrecondition \<Rightarrow> ''$id, $entity, $version, $from_state, $to_state, $args, $args.<path>, $fields, $fields.<path>, $old_fields, $old_fields.<path>''
   | ScopeCreateTemplate \<Rightarrow> ''$id, $entity, $version, $state, $to_state, $fields, $fields.<path>''
   | ScopeOperationTemplate \<Rightarrow> ''$id, $entity, $version, $state, $from_state, $to_state, $args, $args.<path>, $fields, $fields.<path>, $old_fields, $old_fields.<path>''
   | ScopeOutcomeSelector \<Rightarrow> ''$id, $entity, $version, $from_state, $args, $args.<path>, $fields, $fields.<path>''
   | ScopeCreateSelector \<Rightarrow> ''$id, $entity, $version, $args, $args.<path>''
   | ScopeCreateSet \<Rightarrow> ''$id, $entity, $version, $state, $to_state, $args, $args.<path>''
   | ScopeCreateOutcomeTemplate \<Rightarrow> ''$id, $entity, $version, $state, $to_state, $args, $args.<path>, $fields, $fields.<path>'')"

definition scope_is_rule :: "scope_kind \<Rightarrow> bool" where
  "scope_is_rule k \<longleftrightarrow> k \<in> {ScopeInvariant, ScopePrecondition, ScopeOutcomeSelector, ScopeCreateSelector}"

definition scope_what :: "scope_kind \<Rightarrow> string" where
  "scope_what k = (case k of
     ScopeInvariant \<Rightarrow> ''an entity invariant''
   | ScopePrecondition \<Rightarrow> ''an operation precondition''
   | ScopeCreateTemplate \<Rightarrow> ''a creation event payload''
   | ScopeOperationTemplate \<Rightarrow> ''an operation template''
   | ScopeOutcomeSelector \<Rightarrow> ''an outcome selector''
   | ScopeCreateSelector \<Rightarrow> ''a creation outcome selector''
   | ScopeCreateSet \<Rightarrow> ''a creation outcome assignment''
   | ScopeCreateOutcomeTemplate \<Rightarrow> ''a creation outcome template'')"

text \<open>The chain of \<open>BinderScope\<close>s is the list of the binders, innermost first; its \<open>get\<close> is \<open>map_of\<close>.\<close>

record scope =
  sc_kind :: scope_kind
  sc_schema :: object_schema
  sc_args :: "object_schema option"
  sc_binders :: "(string \<times> field_definition option) list"
  sc_semantics :: semantics

definition scope_allows :: "scope \<Rightarrow> string \<Rightarrow> bool" where
  "scope_allows s expression \<longleftrightarrow>
     (if expression \<in> set [''$id'', ''$entity'', ''$version''] then True
      else if expression = ''$fields'' then sc_kind s \<notin> {ScopeCreateSelector, ScopeCreateSet}
      else if expression = ''$state'' then sc_kind s \<notin> {ScopePrecondition, ScopeOutcomeSelector, ScopeCreateSelector}
      else if expression = ''$to_state'' then sc_kind s \<notin> {ScopeInvariant, ScopeOutcomeSelector, ScopeCreateSelector}
      else if expression = ''$from_state'' then sc_kind s \<in> {ScopePrecondition, ScopeOperationTemplate, ScopeOutcomeSelector}
      else if expression = ''$args'' then sc_kind s \<in> {ScopePrecondition, ScopeOperationTemplate, ScopeOutcomeSelector,
        ScopeCreateSelector, ScopeCreateSet, ScopeCreateOutcomeTemplate}
      else if expression = ''$old_fields'' then sc_kind s \<in> {ScopePrecondition, ScopeOperationTemplate}
      else False)"

definition scope_service :: "scope \<Rightarrow> bool" where
  "scope_service s \<longleftrightarrow> has_service_semantics (sc_semantics s)"

section \<open>References\<close>

fun refused_here :: "scope \<Rightarrow> message \<Rightarrow> (message, unit) result" where
  "refused_here s (Msg t args) = Err (Msg (t @ ''; {} may read {}'')
     (args @ [ArgText (scope_what (sc_kind s)), ArgText (scope_allowed (sc_kind s))]))"

fun cannot_resolve :: "string \<Rightarrow> message \<Rightarrow> message" where
  "cannot_resolve expression (Msg t args) = Msg (''{} cannot resolve: '' @ t) (ArgText expression # args)"

text \<open>The loop over the three roots that carry a path: the first whose prefix the expression has decides.\<close>

fun rooted_reference :: "(string \<times> string \<times> object_schema option \<times> string) list \<Rightarrow> string \<Rightarrow> scope \<Rightarrow> reader
    \<Rightarrow> (message, unit) result option" where
  "rooted_reference [] expression s rd = None"
| "rooted_reference ((prefix, root_name, schema, noun) # roots) expression s rd =
     (case strip_prefix prefix expression of
        None \<Rightarrow> rooted_reference roots expression s rd
      | Some path \<Rightarrow> Some (
          if \<not> scope_allows s root_name then refused_here s (Msg ''{} is not available here'' [ArgText expression])
          else (case schema of
              None \<Rightarrow> refused_here s (Msg ''{} is not available here'' [ArgText expression])
            | Some sch \<Rightarrow> map_err (cannot_resolve expression) (validate_schema_path sch path noun rd (scope_service s)))))"

definition reference_roots :: "scope \<Rightarrow> (string \<times> string \<times> object_schema option \<times> string) list" where
  "reference_roots s =
     [(''$fields.'', ''$fields'', Some (sc_schema s), ''field''),
      (''$old_fields.'', ''$old_fields'', Some (sc_schema s), ''field''),
      (''$args.'', ''$args'', sc_args s, ''argument'')]"

definition validate_reference :: "string \<Rightarrow> scope \<Rightarrow> reader \<Rightarrow> (message, unit) result" where
  "validate_reference expression s rd =
     (case next_segment (tl expression) of (name, path) \<Rightarrow>
      case map_of (sc_binders s) name of
        Some element \<Rightarrow>
          (case (element, path) of
             (Some f, Some p) \<Rightarrow>
               map_err (cannot_resolve expression) (walk_field_path f (CHR ''$'' # name) p KernelReader (scope_service s))
           | _ \<Rightarrow> Ok ())
      | None \<Rightarrow>
          if scope_allows s expression then Ok ()
          else (case rooted_reference (reference_roots s) expression s rd of
              Some answer \<Rightarrow> answer
            | None \<Rightarrow>
                if starts_with expression ''$''
                then refused_here s (Msg ''{} is not a reference available here'' [ArgText expression])
                else Ok ()))"

function walk_references :: "(string \<Rightarrow> string \<Rightarrow> ('e, unit) result) \<Rightarrow> json \<Rightarrow> string \<Rightarrow> ('e, unit) result" where
  "walk_references f v path = (case v of
     JString s \<Rightarrow>
       if starts_with s ''$$'' then Ok ()
       else if starts_with s ''$'' then f s path
       else Ok ()
   | JArray vs \<Rightarrow> reach (\<lambda>(i, w). walk_references f w (index_path path i)) (enumerate 0 vs)
   | JObject m \<Rightarrow> reach (\<lambda>(k, w). walk_references f w (path @ ''.'' @ k)) m
   | _ \<Rightarrow> Ok ())"
  by pat_completeness auto
termination
  by (relation "measure (\<lambda>(_, v, _). size v)") (auto simp: size_json dest!: enumerate_member)

declare walk_references.simps [simp del]

definition validate_operand :: "json \<Rightarrow> string \<Rightarrow> scope \<Rightarrow> check" where
  "validate_operand v path s =
     walk_references (\<lambda>expression path. map_err
         (\<lambda>m. if scope_is_rule (sc_kind s) then InvalidRule path m else InvalidTemplate path m)
         (validate_reference expression s KernelReader)) v path"

definition validate_template :: "json \<Rightarrow> string \<Rightarrow> scope \<Rightarrow> check" where
  "validate_template v path s = validate_operand v path s"

definition validate_event_definition :: "event_definition \<Rightarrow> string \<Rightarrow> string option \<Rightarrow> scope \<Rightarrow> check" where
  "validate_event_definition e path operation s =
     (if is_blank (ed_event_type e) then Err (EmptyEventType operation)
      else validate_template (ed_payload e) (path @ ''.payload'') s)"

section \<open>Conditions\<close>

definition invalid_rule :: "string \<Rightarrow> message \<Rightarrow> check" where
  "invalid_rule path m = Err (InvalidRule path m)"

definition validate_pair :: "json \<Rightarrow> json \<Rightarrow> string \<Rightarrow> scope \<Rightarrow> check" where
  "validate_pair a b path s =
     rbind (validate_operand a (index_path path 0) s) (\<lambda>_. validate_operand b (index_path path 1) s)"

definition validate_affix_pair :: "json \<Rightarrow> json \<Rightarrow> string \<Rightarrow> scope \<Rightarrow> check" where
  "validate_affix_pair a b path s =
     reach (\<lambda>(i, operand).
       rbind (validate_operand operand (index_path path i) s) (\<lambda>_.
       if as_str operand = None
       then invalid_rule (index_path path i)
         (Msg ''{} is not a string, so the rule would be false at every evaluation; quote it if it is meant as text'' [ArgJson operand])
       else Ok ())) (enumerate 0 [a, b])"

fun unreadable_instant :: "string \<Rightarrow> message \<Rightarrow> check" where
  "unreadable_instant path (Msg t args) = invalid_rule path
     (Msg (t @ '', so the comparison would be unobservable at every evaluation; an operand of before/after is either a $ reference or a literal instant written {}'')
       (args @ [ArgText instant_forms]))"

definition validate_instant_operand :: "json \<Rightarrow> string \<Rightarrow> scope \<Rightarrow> check" where
  "validate_instant_operand v path s =
     rbind (validate_operand v path s) (\<lambda>_.
     let unreadable = unreadable_instant path (Msg ''{} is not an instant this kernel reads'' [ArgJson v]) in
     case v of
       JString t \<Rightarrow>
         if starts_with t ''$$''
         then unreadable_instant path (Msg ''{} escapes to the literal {}, which is not an instant this kernel reads'' [ArgJson v, ArgText (tl t)])
         else if starts_with t ''$'' then Ok ()
         else if timestamp_parse t \<noteq> None then Ok ()
         else unreadable
     | _ \<Rightarrow> unreadable)"

definition validate_instant_pair :: "json \<Rightarrow> json \<Rightarrow> string \<Rightarrow> scope \<Rightarrow> check" where
  "validate_instant_pair a b path s =
     rbind (validate_instant_operand a (index_path path 0) s) (\<lambda>_. validate_instant_operand b (index_path path 1) s)"

definition describe_operand :: "json \<Rightarrow> message" where
  "describe_operand v = (case v of JString t \<Rightarrow> plain t | other \<Rightarrow> Msg ''{}'' [ArgJson other])"

text \<open>The closed quantifier; \<open>check_body\<close> is the check of its body.\<close>

definition validate_quantifier :: "(string \<Rightarrow> scope \<Rightarrow> check) \<Rightarrow> quantifier \<Rightarrow> string \<Rightarrow> string \<Rightarrow> scope \<Rightarrow> check" where
  "validate_quantifier check_body q path operator_name s =
     (let path = path @ ''.'' @ operator_name in
      if is_blank (bind_name q) \<or> CHR ''.'' \<in> set (bind_name q) then Err (QuantifierBindInvalid path (bind_name q))
      else rbind (validate_operand (over q) (path @ ''.in'') s) (\<lambda>_.
      case collection_element (over q) (sc_schema s) (sc_args s) (map_of (sc_binders s)) of
        Err detail \<Rightarrow> Err (QuantifierOverNotCollection path (describe_operand (over q)) detail)
      | Ok element \<Rightarrow>
          map_err (\<lambda>e. case e of
              InvalidRule p m \<Rightarrow> QuantifierBodyScope p (describe_operand (over q)) m
            | other \<Rightarrow> other)
            (check_body (path @ ''.that'') (s\<lparr>sc_binders := (bind_name q, element) # sc_binders s\<rparr>))))"

function validate_condition_body :: "condition \<Rightarrow> string \<Rightarrow> scope \<Rightarrow> check" where
  "validate_condition_body c path s =
     (if \<not> scope_service s \<and> operator c \<in> set service_condition_operators
      then Err (SemanticsKeyNotAvailable path (operator c))
      else case c of
        CLiteral _ \<Rightarrow> Ok ()
      | CCompare k \<Rightarrow>
          reach (\<lambda>(side, operand).
            case operand of
              JArray _ \<Rightarrow> Err (CompareOperandNotAddressable path side)
            | JObject _ \<Rightarrow> Err (CompareOperandNotAddressable path side)
            | _ \<Rightarrow> validate_operand operand (path @ ''.compare.'' @ side) s)
            [(''left'', left_operand k), (''right'', right_operand k)]
      | CTruthy v \<Rightarrow> validate_operand v (path @ ''.truthy'') s
      | CForAll q \<Rightarrow> validate_quantifier (\<lambda>p s. validate_condition_body (body q) p s) q path ''for_all'' s
      | CForAny q \<Rightarrow> validate_quantifier (\<lambda>p s. validate_condition_body (body q) p s) q path ''for_any'' s
      | CAll cs \<Rightarrow>
          if cs = [] then invalid_rule path (plain ''all must contain at least one condition'')
          else reach (\<lambda>(i, d). validate_condition_body d (index_path (path @ ''.all'') i) s) (enumerate 0 cs)
      | CAny cs \<Rightarrow>
          if cs = [] then invalid_rule path (plain ''any must contain at least one condition'')
          else reach (\<lambda>(i, d). validate_condition_body d (index_path (path @ ''.any'') i) s) (enumerate 0 cs)
      | CNot d \<Rightarrow> validate_condition_body d (path @ ''.not'') s
      | CExists v \<Rightarrow> validate_operand v (path @ ''.exists'') s
      | CBefore a b \<Rightarrow> validate_instant_pair a b (path @ ''.before'') s
      | CAfter a b \<Rightarrow> validate_instant_pair a b (path @ ''.after'') s
      | CEq a b \<Rightarrow> validate_pair a b (path @ ''.eq'') s
      | CNe a b \<Rightarrow> validate_pair a b (path @ ''.ne'') s
      | CGt a b \<Rightarrow> validate_pair a b (path @ ''.gt'') s
      | CGte a b \<Rightarrow> validate_pair a b (path @ ''.gte'') s
      | CLt a b \<Rightarrow> validate_pair a b (path @ ''.lt'') s
      | CLte a b \<Rightarrow> validate_pair a b (path @ ''.lte'') s
      | CIn a b \<Rightarrow> validate_pair a b (path @ ''.in'') s
      | CContains a b \<Rightarrow> validate_pair a b (path @ ''.contains'') s
      | CStartsWith a b \<Rightarrow> validate_affix_pair a b (path @ ''.starts_with'') s
      | CEndsWith a b \<Rightarrow> validate_affix_pair a b (path @ ''.ends_with'') s)"
  by pat_completeness auto
termination
  by (relation "measure (\<lambda>(c, _). size c)")
    (auto simp: size_quantifier_body less_SucI size_condition_member dest!: enumerate_member)

declare validate_condition_body.simps [simp del]

subsection \<open>Authored numbers\<close>

definition unobservable_literal :: "number \<Rightarrow> string \<Rightarrow> check" where
  "unobservable_literal n path =
     (if of_literal n \<noteq> None then Ok ()
      else invalid_rule path (Msg ''{} is outside the source observation domain, so the comparison would be unevaluable at every evaluation'' [ArgText n]))"

function unobservable_literals :: "json \<Rightarrow> string \<Rightarrow> check" where
  "unobservable_literals v path = (case v of
     JNumber n \<Rightarrow> unobservable_literal n path
   | JArray vs \<Rightarrow> reach (\<lambda>(i, w). unobservable_literals w (index_path path i)) (enumerate 0 vs)
   | JObject m \<Rightarrow> reach (\<lambda>(k, w). unobservable_literals w (path @ ''.'' @ k)) m
   | _ \<Rightarrow> Ok ())"
  by pat_completeness auto
termination
  by (relation "measure (\<lambda>(v, _). size v)") (auto simp: size_json dest!: enumerate_member)

declare unobservable_literals.simps [simp del]

definition unobservable_pair :: "json \<Rightarrow> json \<Rightarrow> string \<Rightarrow> check" where
  "unobservable_pair a b path =
     rbind (unobservable_literals a (index_path path 0)) (\<lambda>_. unobservable_literals b (index_path path 1))"

function unobservable_condition_literals :: "condition \<Rightarrow> string \<Rightarrow> check" where
  "unobservable_condition_literals c path = (case c of
     CLiteral _ \<Rightarrow> Ok ()
   | CCompare k \<Rightarrow> rbind (unobservable_literals (left_operand k) (path @ ''.compare.left'')) (\<lambda>_.
       unobservable_literals (right_operand k) (path @ ''.compare.right''))
   | CTruthy v \<Rightarrow> unobservable_literals v (path @ ''.truthy'')
   | CForAll q \<Rightarrow> unobservable_condition_literals (body q) (path @ ''.for_all.that'')
   | CForAny q \<Rightarrow> unobservable_condition_literals (body q) (path @ ''.for_any.that'')
   | CAll cs \<Rightarrow> reach (\<lambda>(i, d). unobservable_condition_literals d (index_path (path @ ''.all'') i)) (enumerate 0 cs)
   | CAny cs \<Rightarrow> reach (\<lambda>(i, d). unobservable_condition_literals d (index_path (path @ ''.any'') i)) (enumerate 0 cs)
   | CNot d \<Rightarrow> unobservable_condition_literals d (path @ ''.not'')
   | CExists _ \<Rightarrow> Ok ()
   | CBefore _ _ \<Rightarrow> Ok ()
   | CAfter _ _ \<Rightarrow> Ok ()
   | CStartsWith _ _ \<Rightarrow> Ok ()
   | CEndsWith _ _ \<Rightarrow> Ok ()
   | CEq a b \<Rightarrow> unobservable_pair a b (path @ ''.eq'')
   | CNe a b \<Rightarrow> unobservable_pair a b (path @ ''.ne'')
   | CGt a b \<Rightarrow> unobservable_pair a b (path @ ''.gt'')
   | CGte a b \<Rightarrow> unobservable_pair a b (path @ ''.gte'')
   | CLt a b \<Rightarrow> unobservable_pair a b (path @ ''.lt'')
   | CLte a b \<Rightarrow> unobservable_pair a b (path @ ''.lte'')
   | CIn a b \<Rightarrow> unobservable_pair a b (path @ ''.in'')
   | CContains a b \<Rightarrow> unobservable_pair a b (path @ ''.contains''))"
  by pat_completeness auto
termination
  by (relation "measure (\<lambda>(c, _). size c)")
    (auto simp: size_quantifier_body less_SucI size_condition_member dest!: enumerate_member)

declare unobservable_condition_literals.simps [simp del]

definition validate_condition_definition :: "condition \<Rightarrow> string \<Rightarrow> scope \<Rightarrow> check" where
  "validate_condition_definition c path s =
     (if condition_depth c > max_condition_depth
      then Err (ConditionTooDeep path (condition_depth c) max_condition_depth)
      else rbind (if scope_service s then unobservable_condition_literals c path else Ok ()) (\<lambda>_.
        validate_condition_body c path s))"

definition validate_rule_definition :: "rule_definition \<Rightarrow> string \<Rightarrow> scope \<Rightarrow> check" where
  "validate_rule_definition rule path s =
     (if (case rule_name rule of Some n \<Rightarrow> is_blank n | None \<Rightarrow> False)
      then invalid_rule path (plain ''rule name cannot be empty'')
      else if (case rule_message rule of Some m \<Rightarrow> is_blank m | None \<Rightarrow> False)
      then invalid_rule path (plain ''rule message cannot be empty'')
      else validate_condition_definition (rule_condition rule) (path @ ''.assert'') s)"

end
