(* ===== verification/Registration.thy ===== *)
theory Registration
  imports Scopes Kernel
begin

text \<open>
  Registration, second part: \<open>validate_definition\<close> of \<open>entity-core/src/validation.rs\<close> and every check it
  composes, in the order they report. A definition is registered when the list of its defects is empty.
\<close>

section \<open>Fields\<close>

definition validate_constraint_applicability :: "field_definition \<Rightarrow> string \<Rightarrow> check" where
  "validate_constraint_applicability f path =
     (let refuse = (\<lambda>constraint applies_to. Err (ConstraintNotApplicable path constraint (kind_as_str (fd_kind f)) applies_to)) in
      if (fd_min_length f \<noteq> None \<or> fd_max_length f \<noteq> None) \<and> fd_kind f \<noteq> KString
      then refuse ''min_length/max_length'' ''a string field''
      else if fd_alphabet f \<noteq> None \<and> fd_kind f \<noteq> KString then refuse ''alphabet'' ''a string field''
      else if (fd_min f \<noteq> None \<or> fd_max f \<noteq> None) \<and> fd_kind f \<notin> {KInteger, KNumber, KBinary64}
      then refuse ''min/max'' ''an integer, number or binary64 field''
      else if fd_values f \<noteq> [] \<and> fd_kind f \<noteq> KEnum then refuse ''values'' ''an enum field''
      else if fd_items f \<noteq> None \<and> fd_kind f \<notin> {KArray, KMap} then refuse ''items'' ''an array or map field''
      else if (fd_properties f \<noteq> [] \<or> fd_additional_properties f) \<and> fd_kind f \<noteq> KObject
      then refuse ''properties/additional_properties'' ''an object field''
      else if (fd_entity f \<noteq> None \<or> fd_inverse f \<noteq> None \<or> fd_acyclic f \<noteq> None) \<and> fd_kind f \<noteq> KRef
      then refuse ''entity/inverse/acyclic'' ''a ref field''
      else if fd_key f \<noteq> None \<and> fd_kind f \<noteq> KMap then refuse ''key'' ''a map field''
      else if (fd_tag f \<noteq> None \<or> fd_variants f \<noteq> []) \<and> fd_kind f \<noteq> KUnion then refuse ''tag/variants'' ''a union field''
      else Ok ())"

text \<open>The loop over an alphabet: \<open>first\<close> maps a character to the position it was first written at.\<close>

fun alphabet_repeats :: "string \<Rightarrow> nat \<Rightarrow> (string \<times> nat) list \<Rightarrow> string list \<Rightarrow> definition_error list" where
  "alphabet_repeats path i first [] = []"
| "alphabet_repeats path i first (c # cs) =
     (case map_of first c of
        Some earlier \<Rightarrow>
          InvalidField path (Msg ''alphabet writes {} twice, at positions {} and {}'' [ArgText c, ArgNat earlier, ArgNat (i + 1)])
          # alphabet_repeats path (i + 1) first cs
      | None \<Rightarrow> alphabet_repeats path (i + 1) ((c, i + 1) # first) cs)"

definition validate_alphabet :: "string \<Rightarrow> string \<Rightarrow> definition_error list" where
  "validate_alphabet alphabet path =
     (if alphabet = [] then [InvalidField path (plain ''alphabet must declare at least one character'')] else [])
     @ alphabet_repeats path 0 [] (utf8_chars alphabet)"

definition blank_option :: "string option \<Rightarrow> bool" where
  "blank_option s \<longleftrightarrow> (case s of None \<Rightarrow> True | Some t \<Rightarrow> is_blank t)"

text \<open>What the kind itself requires to be declared.\<close>

definition validate_kind :: "field_definition \<Rightarrow> string \<Rightarrow> definition_error list" where
  "validate_kind f path = (case fd_kind f of
     KEnum \<Rightarrow> if fd_values f = [] then [InvalidField path (plain ''enum must declare at least one value'')] else []
   | KArray \<Rightarrow> if fd_items f = None then [InvalidField path (plain ''array must declare items'')] else []
   | KRef \<Rightarrow>
       if blank_option (fd_entity f)
       then [InvalidField path (plain ''ref must declare entity, the type it points at'')]
       else if fd_inverse f \<noteq> None \<and> blank_option (fd_inverse f)
       then [InvalidField path (plain ''inverse is a label and cannot be blank; leave it out instead'')]
       else []
   | KMap \<Rightarrow> (if fd_key f = None then [MapKeyNotText path] else [])
       @ (if fd_items f = None then [MapValueMissing path] else [])
   | KUnion \<Rightarrow> if blank_option (fd_tag f) \<or> fd_variants f = [] then [UnionVariantMissing path] else []
   | _ \<Rightarrow> [])"

definition validate_bounds :: "field_definition \<Rightarrow> string \<Rightarrow> semantics \<Rightarrow> definition_error list" where
  "validate_bounds f path semantics =
     (case (fd_min_length f, fd_max_length f) of
        (Some lo, Some hi) \<Rightarrow> if hi < lo then [InvalidField path (plain ''min_length cannot exceed max_length'')] else []
      | _ \<Rightarrow> [])
     @ (case fd_alphabet f of Some alphabet \<Rightarrow> validate_alphabet alphabet path | None \<Rightarrow> [])
     @ (case (fd_min f, fd_max f) of
          (Some lo, Some hi) \<Rightarrow> if is_gt (number_compare lo hi) then [InvalidField path (plain ''min cannot exceed max'')] else []
        | _ \<Rightarrow> [])
     @ (if has_service_semantics semantics \<and> fd_kind f \<in> {KInteger, KNumber, KBinary64}
        then concat (map (\<lambda>(name, bound). case bound of
            Some b \<Rightarrow> if of_literal b = None
              then [InvalidField path (Msg ''{} {} is outside the source observation domain, so the bound would be unevaluable at every evaluation''
                [ArgText name, ArgText b])] else []
          | None \<Rightarrow> []) [(''min'', fd_min f), (''max'', fd_max f)])
        else [])"

definition validate_default :: "field_definition \<Rightarrow> string \<Rightarrow> semantics \<Rightarrow> definition_error list" where
  "validate_default f path semantics = (case default_as_value (fd_default f) of
     Some v \<Rightarrow> map (\<lambda>e. InvalidField (ve_path e)
         (case ve_message e of Msg t args \<Rightarrow> Msg (''invalid default: '' @ t) args))
       (validate_value semantics f (apply_nested_defaults f v) path)
   | None \<Rightarrow> [])"

function validate_field_definition :: "field_definition \<Rightarrow> string \<Rightarrow> semantics \<Rightarrow> definition_error list" where
  "validate_field_definition f path semantics =
     defect (validate_constraint_applicability f path)
     @ (if is_service_only (fd_kind f) \<and> \<not> has_service_semantics semantics
        then [SemanticsKeyNotAvailable path (kind_as_str (fd_kind f))] else [])
     @ (if fd_alphabet f \<noteq> None \<and> \<not> has_service_semantics semantics
        then [SemanticsKeyNotAvailable (path @ ''.alphabet'') ''alphabet''] else [])
     @ validate_bounds f path semantics
     @ validate_kind f path
     @ (case fd_items f of Some items \<Rightarrow> validate_field_definition items (path @ ''[]'') semantics | None \<Rightarrow> [])
     @ concat (map (\<lambda>(name, g). validate_field_definition g (path @ ''.'' @ name) semantics) (fd_properties f))
     @ concat (map (\<lambda>(name, g). validate_field_definition g (path @ ''|'' @ name) semantics) (fd_variants f))
     @ validate_default f path semantics"
  by pat_completeness auto
termination
  by (relation "measure (\<lambda>(f, _, _). size f)") (auto simp: size_fd_items size_fd_properties size_fd_variants)

declare validate_field_definition.simps [simp del]

definition validate_schema_definition :: "object_schema \<Rightarrow> string \<Rightarrow> semantics \<Rightarrow> definition_error list" where
  "validate_schema_definition schema path semantics =
     concat (map (\<lambda>(name, f). validate_field_definition f (path @ ''.'' @ name) semantics) (os_fields schema))"

section \<open>Scales, identity and relations\<close>

definition validate_scales :: "entity_definition \<Rightarrow> definition_error list" where
  "validate_scales d = concat (map (\<lambda>(name, values).
     (if is_blank name then [ScaleUnnamed] else []) @ (if values = [] then [ScaleEmpty name] else [])) (def_scales d))"

function carries_json :: "field_definition \<Rightarrow> bool" where
  "carries_json f \<longleftrightarrow> (case fd_kind f of
     KJson \<Rightarrow> True
   | KObject \<Rightarrow> fd_additional_properties f \<or> list_ex (\<lambda>(n, g). carries_json g) (fd_properties f)
   | KArray \<Rightarrow> (case fd_items f of Some g \<Rightarrow> carries_json g | None \<Rightarrow> False)
   | KMap \<Rightarrow> (case fd_items f of Some g \<Rightarrow> carries_json g | None \<Rightarrow> False)
   | KUnion \<Rightarrow> list_ex (\<lambda>(n, g). carries_json g) (fd_variants f)
   | _ \<Rightarrow> False)"
  by pat_completeness auto
termination
  by (relation "measure size") (auto simp: size_fd_items size_fd_properties size_fd_variants)

declare carries_json.simps [simp del]

definition validate_identity :: "entity_definition \<Rightarrow> definition_error list" where
  "validate_identity d = (case def_identity d of
     None \<Rightarrow> []
   | Some identity \<Rightarrow> (case bt_get (os_fields (def_schema d)) (id_field identity) of
         None \<Rightarrow> [IdentityFieldUnknown (id_field identity)]
       | Some f \<Rightarrow>
           if \<not> fd_required f then [IdentityFieldUnknown (id_field identity)]
           else if carries_json f then [IdentityFieldNotAddressable (id_field identity) (kind_as_str KJson)]
           else []))"

definition validate_relations :: "entity_definition \<Rightarrow> definition_error list" where
  "validate_relations d = concat (map (\<lambda>(name, relation).
     if rel_kind relation \<noteq> References then []
     else (case bt_get (os_fields (def_schema d)) (rel_via relation) of
         None \<Rightarrow> [RelationViaUnknown name (rel_via relation)]
       | Some f \<Rightarrow>
           if rel_cardinality relation = CardinalityOne then []
           else if fd_kind f = KArray
           then (if \<not> fd_required f then [RelationCarrierOptionality name (rel_via relation)] else [])
           else [RelationViaWrongShape name (rel_via relation) ''an array of the target's identity kind''
             (Msg ''a {} field'' [ArgText (kind_as_str (fd_kind f))])])) (def_relations d))"

section \<open>Conditional presence\<close>

text \<open>The loop of \<open>present_argument_leaf\<close>; a path has at least one segment, so the first equation stands for
  the source's \<open>unreachable!\<close>.\<close>

fun leaf_under :: "field_definition smap \<Rightarrow> string list \<Rightarrow> (message, field_definition) result" where
  "leaf_under fields' [] = Err (plain ''a nonempty path has a leaf'')"
| "leaf_under fields' (segment # segments) =
     (case bt_get fields' segment of
        None \<Rightarrow> Err (Msg ''unknown argument segment {}'' [ArgText segment])
      | Some f \<Rightarrow>
          if segments = [] then
            (if fd_required f then Err (plain ''the leaf is required; ordinary templates carry required values'')
             else if fd_default f \<noteq> DefaultAbsent
             then Err (plain ''the leaf has a default and is always materialized during normalization'')
             else Ok f)
          else if \<not> fd_required f then Err (Msg ''parent {} is optional; exactly the leaf controls presence'' [ArgText segment])
          else if fd_kind f \<noteq> KObject \<or> fd_additional_properties f
          then Err (Msg ''parent {} is not a declared closed object'' [ArgText segment])
          else if fd_default f \<noteq> DefaultAbsent
          then Err (Msg ''parent {} declares a default, which normalization materializes for a caller who omits it; its conditional output leaf would then be present although the caller sent none'' [ArgText segment])
          else leaf_under (fd_properties f) segments)"

definition present_argument_leaf :: "object_schema \<Rightarrow> string \<Rightarrow> (message, field_definition) result" where
  "present_argument_leaf schema argument =
     (if argument = [] \<or> CHR ''$'' \<in> set argument
      then Err (plain ''the path is nonempty and is written below `$args`, without `$`'')
      else if list_ex (\<lambda>s. s = []) (split_all is_dot argument) then Err (plain ''the path contains an empty segment'')
      else if os_additional_fields schema
      then Err (plain ''the argument schema is open, so the path is not a declared closed field path'')
      else leaf_under (os_fields schema) (split_all is_dot argument))"

definition validate_present_argument :: "object_schema \<Rightarrow> string \<Rightarrow> present_argument \<Rightarrow> field_definition option \<times> definition_error list" where
  "validate_present_argument schema path source = (case present_argument_leaf schema (pa_argument source) of
     Ok leaf \<Rightarrow> (Some leaf, [])
   | Err m \<Rightarrow> (None, [ConditionalArgumentInvalid path (pa_argument source) m]))"

definition validate_conditional_target :: "field_definition option \<Rightarrow> field_definition option \<Rightarrow> string \<Rightarrow> string \<Rightarrow> string
    \<Rightarrow> definition_error list" where
  "validate_conditional_target target source path field noun = (case target of
     None \<Rightarrow> [ConditionalTargetInvalid path field (Msg ''the destination is not a declared {}'' [ArgText noun])]
   | Some t \<Rightarrow>
       (if fd_required t \<or> fd_default t \<noteq> DefaultAbsent
        then [ConditionalTargetInvalid path field (Msg ''the destination {} must be optional and have no default'' [ArgText noun])]
        else [])
       @ (if (case source of Some s \<Rightarrow> s \<noteq> t | None \<Rightarrow> False)
          then [ConditionalTargetInvalid path field (Msg ''the destination {} must have the complete source leaf definition'' [ArgText noun])]
          else []))"

definition validate_conditional_event :: "event_definition \<Rightarrow> string \<Rightarrow> object_schema option \<Rightarrow> semantics \<Rightarrow> definition_error list" where
  "validate_conditional_event e path arguments semantics =
     (let event_path = path @ ''.payload_if_present'';
          schema = (case arguments of Some a \<Rightarrow> a | None \<Rightarrow> empty_schema) in
      if ed_payload_if_present e = [] then []
      else if \<not> has_conditional_presence semantics then [SemanticsKeyNotAvailable event_path ''payload_if_present'']
      else concat (map (\<lambda>(field, source).
          snd (validate_present_argument schema (event_path @ ''.'' @ field) source)
          @ (if is_blank field
             then [ConditionalTargetInvalid event_path field (plain ''an event payload member cannot be blank'')] else [])
          @ (case as_object (ed_payload e) of
               None \<Rightarrow> [ConditionalTargetInvalid event_path field (plain ''the ordinary event payload must be an object'')]
             | Some payload \<Rightarrow> if bt_contains payload field then [ConditionalTargetConflict event_path field] else []))
        (ed_payload_if_present e)))"

text \<open>One conditional map of a branch, \<open>set_if_present\<close> or \<open>responds_if_present\<close>.\<close>

definition validate_conditional_members :: "object_schema \<Rightarrow> string \<Rightarrow> present_argument smap \<Rightarrow> json smap \<Rightarrow> field_definition smap
    \<Rightarrow> string \<Rightarrow> definition_error list" where
  "validate_conditional_members arguments path conditional ordinary targets noun =
     concat (map (\<lambda>(field, source).
       (case validate_present_argument arguments (path @ ''.'' @ field) source of (leaf, defects) \<Rightarrow>
          defects
          @ (if bt_contains ordinary field then [ConditionalTargetConflict path field] else [])
          @ validate_conditional_target (bt_get targets field) leaf path field noun)) conditional)"

definition validate_conditional_outcome :: "entity_definition \<Rightarrow> outcome_definition \<Rightarrow> string \<Rightarrow> object_schema \<Rightarrow> object_schema
    \<Rightarrow> definition_error list" where
  "validate_conditional_outcome d o' path arguments response =
     (if \<not> has_conditional_presence (def_semantics d) then
        concat (map (\<lambda>(key, present). if present then [SemanticsKeyNotAvailable (path @ ''.'' @ key) key] else [])
          [(''set_if_present'', od_set_if_present o' \<noteq> []), (''responds_if_present'', od_responds_if_present o' \<noteq> [])])
        @ concat (map (\<lambda>(i, e). if ed_payload_if_present e \<noteq> []
            then [SemanticsKeyNotAvailable (index_path (path @ ''.emits'') i @ ''.payload_if_present'') ''payload_if_present''] else [])
          (enumerate 0 (od_emits o')))
      else
        validate_conditional_members arguments (path @ ''.set_if_present'') (od_set_if_present o') (od_set o')
          (os_fields (def_schema d)) ''entity field''
        @ validate_conditional_members arguments (path @ ''.responds_if_present'') (od_responds_if_present o') (od_responds o')
          (os_fields response) ''response field''
        @ concat (map (\<lambda>(i, e). validate_conditional_event e (index_path (path @ ''.emits'') i) (Some arguments) (def_semantics d))
          (enumerate 0 (od_emits o'))))"

section \<open>Fulfilments\<close>

definition validate_fulfillment_outcome :: "entity_definition \<Rightarrow> string \<Rightarrow> outcome_definition \<Rightarrow> string \<Rightarrow> definition_error list" where
  "validate_fulfillment_outcome d operation o' path =
     (if od_fulfills o' = [] then []
      else (if \<not> has_operation_fulfillment (def_semantics d)
            then [SemanticsKeyNotAvailable (path @ ''.fulfills'') ''fulfills''] else [])
        @ concat (map (\<lambda>(field, requirement).
            case bt_get (os_fields (def_schema d)) field of
              None \<Rightarrow> [FulfillmentFieldUnknown operation (od_name o') field]
            | Some target \<Rightarrow>
                (if map_option id_field (def_identity d) = Some field
                 then [FulfillmentIdentityField operation (od_name o') field] else [])
                @ (if bt_contains (od_set o') field then [FulfillmentSetConflict operation (od_name o') field] else [])
                @ (if bt_contains (od_set_if_present o') field
                   then [FulfillmentConditionalSetConflict operation (od_name o') field] else [])
                @ (if (fd_required target \<and> ofr_actions requirement = ActionsRequired)
                      \<or> (\<not> fd_required target \<and> ofr_actions requirement = ActionsOptional)
                   then []
                   else [FulfillmentPresenceMismatch operation (od_name o') field
                     (if fd_required target then ''required'' else ''optional'')]))
          (od_fulfills o')))"

end
