(* ===== verification/Registered.thy ===== *)
theory Registered
  imports Registration
begin

text \<open>
  Registration, third part: the \<open>set\<close> entries, the branches of a command, and \<open>validate_definition\<close> of
  \<open>entity-core/src/validation.rs\<close>, which composes every check in the order it reports.
\<close>

section \<open>Assignments\<close>

definition semantics_as_str :: "semantics \<Rightarrow> string" where
  "semantics_as_str s = (case s of
     Kernel1 \<Rightarrow> ''kernel/1'' | Service1 \<Rightarrow> ''service/1'' | Service2 \<Rightarrow> ''service/2'' | Service3 \<Rightarrow> ''service/3'')"

text \<open>The loop of \<open>present_numeric_kind\<close> over the segments of a path.\<close>

fun numeric_under :: "bool \<Rightarrow> bool \<Rightarrow> field_definition smap \<Rightarrow> string list \<Rightarrow> (message, field_kind) result" where
  "numeric_under defaults_fill under_service members [] = Err (plain ''has no declared numeric type'')"
| "numeric_under defaults_fill under_service members (segment # rest) =
     (case bt_get members segment of
        None \<Rightarrow> Err (Msg ''reaches {}, which no schema declares with a type'' [ArgText segment])
      | Some declared \<Rightarrow>
          if \<not> (fd_required declared \<or> defaults_fill \<and> default_as_value (fd_default declared) \<noteq> None)
          then Err (Msg ''reaches {}, which is not required{}, so it may be absent''
            [ArgText segment, ArgText (if defaults_fill then '' and declares no default'' else '''')])
          else if rest = [] then Ok (fd_kind declared)
          else if rest = [''count''] \<and> under_service \<and> fd_kind declared \<in> {KArray, KMap, KString} then Ok KInteger
          else if fd_kind declared = KObject then numeric_under defaults_fill under_service (fd_properties declared) rest
          else Err (Msg ''walks past {}, a {} member with no declared numeric member''
            [ArgText segment, ArgText (kind_as_str (fd_kind declared))]))"

definition present_numeric_kind :: "string \<Rightarrow> scope \<Rightarrow> (message, field_kind) result" where
  "present_numeric_kind expression s =
     (if expression = ''$version'' then Ok KInteger
      else (case strip_prefix ''$args.'' expression of
          Some path \<Rightarrow> (case sc_args s of
              Some args \<Rightarrow> numeric_under True (scope_service s) (os_fields args) (split_all is_dot path)
            | None \<Rightarrow> Err (plain ''has no declared numeric type''))
        | None \<Rightarrow> (case (case strip_prefix ''$fields.'' expression of
              Some path \<Rightarrow> Some path | None \<Rightarrow> strip_prefix ''$old_fields.'' expression) of
              Some path \<Rightarrow> numeric_under False (scope_service s) (os_fields (sc_schema s)) (split_all is_dot path)
            | None \<Rightarrow> Err (plain ''has no declared numeric type''))))"

definition increment_adds :: "field_kind \<Rightarrow> field_kind \<Rightarrow> bool" where
  "increment_adds kind amount_kind \<longleftrightarrow>
     (if kind = KInteger then amount_kind = KInteger else amount_kind \<in> {KInteger, KNumber})"

definition literal_amount_fits :: "field_kind \<Rightarrow> bool \<Rightarrow> number \<Rightarrow> bool" where
  "literal_amount_fits kind under_service n \<longleftrightarrow>
     (if kind = KInteger then (if under_service then as_i64 n \<noteq> None else as_i64 n \<noteq> None \<or> as_u64 n \<noteq> None)
      else \<not> under_service \<or> of_number n \<noteq> None)"

definition validate_increment_amount :: "json \<Rightarrow> field_kind \<Rightarrow> string \<Rightarrow> scope \<Rightarrow> check" where
  "validate_increment_amount amount kind path s =
     (let invalid = (\<lambda>m. Err (IncrementAmountInvalid path m));
          wanted = ArgText (if kind = KInteger then ''an integer'' else ''an integer or a number'');
          not_an_amount = invalid (Msg ''{} is neither a number nor a reference; an increment adds {}'' [ArgJson amount, wanted])
      in case amount of
        JNumber n \<Rightarrow>
          if literal_amount_fits kind (scope_service s) n then Ok ()
          else invalid (Msg ''{} is not {} a {} {} field holds''
            [ArgText n, wanted, ArgText (semantics_as_str (sc_semantics s)), ArgText (kind_as_str kind)])
      | JString expression \<Rightarrow>
          if starts_with expression ''$'' \<and> \<not> starts_with expression ''$$'' then
            rbind (validate_template amount path s) (\<lambda>_.
            case present_numeric_kind expression s of
              Ok found \<Rightarrow>
                if increment_adds kind found then Ok ()
                else invalid (Msg ''{} is declared {}, and a {} field adds {}''
                  [ArgText expression, ArgText (kind_as_str found), ArgText (kind_as_str kind), wanted])
            | Err (Msg t args) \<Rightarrow> invalid (Msg (''{} '' @ t) (ArgText expression # args)))
          else not_an_amount
      | _ \<Rightarrow> not_an_amount)"

definition validate_clear :: "entity_definition \<Rightarrow> string \<Rightarrow> json \<Rightarrow> string \<Rightarrow> scope \<Rightarrow> definition_error list" where
  "validate_clear d field flag path s =
     (if sc_kind s = ScopeCreateSet then [ClearOnCreate path field]
      else (case bt_get (os_fields (def_schema d)) field of
             None \<Rightarrow>
               if \<not> os_additional_fields (def_schema d) then []
               else [ClearTargetInvalid path field (plain ''the schema does not declare it, so it is no declared optional field to clear'')]
           | Some declared \<Rightarrow>
               if fd_required declared
               then [ClearTargetInvalid path field (plain ''it is required, so it is always present and a clear would leave an invalid instance'')]
               else [])
         @ (if flag \<noteq> JBool True then [ClearFlagInvalid (path @ ''.cleared'') field flag] else []))"

definition increment_target :: "entity_definition \<Rightarrow> string \<Rightarrow> (message, field_kind option) result" where
  "increment_target d field = (case bt_get (os_fields (def_schema d)) field of
     None \<Rightarrow>
       if \<not> os_additional_fields (def_schema d) then Ok None
       else Err (plain ''the schema does not declare it, so it has no kind to add to'')
   | Some declared \<Rightarrow>
       if fd_kind declared \<notin> {KInteger, KNumber}
       then Err (Msg ''it is a {} field; an increment adds to an integer or a number'' [ArgText (kind_as_str (fd_kind declared))])
       else if \<not> fd_required declared
       then Err (plain ''it is not required, so it may be absent, and absent plus an amount has no value'')
       else Ok (Some (fd_kind declared)))"

definition validate_set_entry :: "entity_definition \<Rightarrow> string \<Rightarrow> json \<Rightarrow> string \<Rightarrow> scope \<Rightarrow> definition_error list" where
  "validate_set_entry d field v path s = (case set_assignment_of v of
     AssignTemplate template \<Rightarrow> defect (validate_template template path s)
   | AssignCleared flag \<Rightarrow> validate_clear d field flag path s
   | AssignConflicting members \<Rightarrow> [SetAssignmentConflict path field (bt_keys members)]
   | AssignIncrement amount \<Rightarrow>
       if sc_kind s = ScopeCreateSet then [IncrementOnCreate path field]
       else (case increment_target d field of
           Err m \<Rightarrow> [IncrementTargetInvalid path field m]
         | Ok None \<Rightarrow> []
         | Ok (Some kind) \<Rightarrow> defect (validate_increment_amount amount kind (path @ ''.increment'') s)))"

text \<open>The loop over a \<open>set\<close> map, written the same way at each of its three places.\<close>

definition validate_assignments :: "entity_definition \<Rightarrow> string \<Rightarrow> json smap \<Rightarrow> string \<Rightarrow> scope \<Rightarrow> definition_error list" where
  "validate_assignments d command assignments path s = concat (map (\<lambda>(field, v).
     (if \<not> os_additional_fields (def_schema d) \<and> \<not> bt_contains (os_fields (def_schema d)) field
      then [UnknownSetField command field] else [])
     @ validate_set_entry d field v (path @ ''.'' @ field) s) assignments)"

section \<open>Branches\<close>

text \<open>\<open>responds\<close>, and that an accepting branch determines every required response field.\<close>

definition validate_responds :: "outcome_definition \<Rightarrow> string \<Rightarrow> string \<Rightarrow> scope \<Rightarrow> object_schema \<Rightarrow> definition_error list" where
  "validate_responds o' path command s response =
     concat (map (\<lambda>(field, v).
       (if \<not> bt_contains (os_fields response) field \<and> \<not> os_additional_fields response
        then [ResponseFieldUnknown command (od_name o') field] else [])
       @ defect (validate_template v (path @ ''.responds.'' @ field) s)) (od_responds o'))
     @ (if od_refuses o' = None
        then concat (map (\<lambda>(field, declared).
          if fd_required declared \<and> \<not> bt_contains (od_responds o') field
          then [OutcomeResponseIncomplete command (od_name o') field] else []) (os_fields response))
        else [])"

definition validate_emits :: "event_definition list \<Rightarrow> string \<Rightarrow> string option \<Rightarrow> scope \<Rightarrow> definition_error list" where
  "validate_emits events path operation s = concat (map (\<lambda>(i, e).
     defect (validate_event_definition e (index_path path i) operation s)) (enumerate 0 events))"

definition validate_selector :: "condition option \<Rightarrow> string \<Rightarrow> scope \<Rightarrow> definition_error list" where
  "validate_selector w path s = (case w of
     Some c \<Rightarrow> defect (validate_condition_definition c (path @ ''.when'') s) | None \<Rightarrow> [])"

definition validate_outcome_expressions :: "entity_definition \<Rightarrow> outcome_definition \<Rightarrow> string \<Rightarrow> string \<Rightarrow> scope \<Rightarrow> scope
    \<Rightarrow> object_schema \<Rightarrow> definition_error list" where
  "validate_outcome_expressions d o' path command selector template response =
     validate_selector (od_when o') path selector
     @ validate_assignments d command (od_set o') (path @ ''.set'') template
     @ validate_emits (od_emits o') (path @ ''.emits'') (Some command) template
     @ validate_responds o' path command template response"

text \<open>One pass of the loop of \<open>validate_outcomes\<close>, given what the passes before it have counted.\<close>

record outcome_tally =
  ot_seen :: "string list"
  ot_defaults :: nat
  ot_wrong_states :: nat

definition tally_outcome :: "outcome_definition \<Rightarrow> outcome_tally \<Rightarrow> outcome_tally" where
  "tally_outcome o' t =
     \<lparr>ot_seen = (if is_blank (od_name o') then ot_seen t else od_name o' # ot_seen t),
      ot_defaults = ot_defaults t + (if is_default_branch o' then 1 else 0),
      ot_wrong_states = ot_wrong_states t + (if od_wrong_state o' then 1 else 0)\<rparr>"

definition outcome_name_defects :: "string \<Rightarrow> outcome_tally \<Rightarrow> outcome_definition \<Rightarrow> definition_error list" where
  "outcome_name_defects command t o' =
     (if is_blank (od_name o') then [EmptyOutcomeName command]
      else if od_name o' \<in> set (ot_seen t) then [DuplicateOutcome command (od_name o')] else [])"

definition wrong_state_defects :: "bool \<Rightarrow> string \<Rightarrow> outcome_tally \<Rightarrow> outcome_definition \<Rightarrow> definition_error list" where
  "wrong_state_defects creation command t o' =
     (if \<not> od_wrong_state o' then []
      else if creation then [WrongStateOnCreate (od_name o')]
      else (if ot_wrong_states t > 0 then [DuplicateWrongStateOutcome command] else [])
        @ (if od_when o' \<noteq> None \<or> od_in_state o' \<noteq> None then [WrongStateWithSelector command (od_name o')] else []))"

definition effect_defects :: "bool \<Rightarrow> string \<Rightarrow> outcome_definition \<Rightarrow> definition_error list" where
  "effect_defects creation command o' =
     (if \<not> creation then (if od_effect o' = Creates then [CreatesEffectOnOperation command (od_name o')] else [])
      else if od_effect o' = Creates \<or> od_effect o' = EffectNone then []
      else [MissingCreatesEffect (od_name o') (effect_as_str (od_effect o'))])"

definition named_states :: "outcome_definition \<Rightarrow> string list" where
  "named_states o' = (case od_in_state o' of Some s \<Rightarrow> [s] | None \<Rightarrow> [])
     @ (case od_effect o' of Moves to from \<Rightarrow> to # as_slice from | _ \<Rightarrow> [])"

definition unknown_state_defects :: "entity_definition \<Rightarrow> string \<Rightarrow> outcome_definition \<Rightarrow> definition_error list" where
  "unknown_state_defects d command o' = concat (map (\<lambda>state. if state \<notin> set (lc_states (def_lifecycle d))
     then [UnknownOutcomeState command (od_name o') state] else []) (named_states o'))"

definition guard_state_defects :: "string \<Rightarrow> outcome_definition \<Rightarrow> definition_error list" where
  "guard_state_defects command o' = (case (od_in_state o', od_effect o') of
     (Some guarded, Moves to from) \<Rightarrow>
       if guarded \<notin> set (as_slice from) then [GuardStateOutsideMove command (od_name o') guarded] else []
   | _ \<Rightarrow> [])"

definition mutates :: "outcome_definition \<Rightarrow> bool" where
  "mutates o' \<longleftrightarrow> \<not> effect_is_none (od_effect o') \<or> od_set o' \<noteq> [] \<or> od_fulfills o' \<noteq> [] \<or> od_set_if_present o' \<noteq> []
     \<or> od_emits o' \<noteq> [] \<or> od_responds o' \<noteq> [] \<or> od_responds_if_present o' \<noteq> []"

definition outcome_defects :: "entity_definition \<Rightarrow> bool \<Rightarrow> string \<Rightarrow> nat \<Rightarrow> outcome_tally \<Rightarrow> nat \<Rightarrow> outcome_definition
    \<Rightarrow> definition_error list" where
  "outcome_defects d creation command last_selecting t i o' =
     outcome_name_defects command t o'
     @ (if is_default_branch o' \<and> (ot_defaults t > 0 \<or> i \<noteq> last_selecting) then [AmbiguousDefaultOutcome command] else [])
     @ wrong_state_defects creation command t o'
     @ effect_defects creation command o'
     @ unknown_state_defects d command o'
     @ guard_state_defects command o'
     @ (if od_refuses o' \<noteq> None \<and> mutates o' then [RefusalMutatesState command (od_name o')] else [])
     @ (if \<not> is_observable o' \<and> \<not> od_wrong_state o' then [UnobservableOutcome command (od_name o')] else [])"

fun outcomes_loop :: "entity_definition \<Rightarrow> bool \<Rightarrow> string \<Rightarrow> nat \<Rightarrow> outcome_tally \<Rightarrow> nat \<Rightarrow> outcome_definition list
    \<Rightarrow> definition_error list" where
  "outcomes_loop d creation command last_selecting t i [] = []"
| "outcomes_loop d creation command last_selecting t i (o' # outcomes) =
     outcome_defects d creation command last_selecting t i o'
     @ outcomes_loop d creation command last_selecting (tally_outcome o' t) (i + 1) outcomes"

text \<open>\<open>rposition\<close>: the last index whose element satisfies the test.\<close>

fun rposition :: "('a \<Rightarrow> bool) \<Rightarrow> 'a list \<Rightarrow> nat option" where
  "rposition p [] = None"
| "rposition p (x # xs) = (case rposition p xs of Some i \<Rightarrow> Some (i + 1) | None \<Rightarrow> if p x then Some 0 else None)"

definition validate_outcomes :: "entity_definition \<Rightarrow> operation_definition option \<Rightarrow> string \<Rightarrow> definition_error list" where
  "validate_outcomes d operation command =
     (let outcomes = (case operation of Some op \<Rightarrow> op_outcomes op | None \<Rightarrow> cd_outcomes (def_create d));
          last_selecting = (case rposition (\<lambda>o'. \<not> od_wrong_state o') outcomes of Some i \<Rightarrow> i | None \<Rightarrow> 0) in
      outcomes_loop d (operation = None) command last_selecting \<lparr>ot_seen = [], ot_defaults = 0, ot_wrong_states = 0\<rparr> 0 outcomes
      @ (case operation of
           Some op \<Rightarrow>
             if list_ex od_wrong_state outcomes
             then (if list_ex (\<lambda>o'. od_in_state o' \<noteq> None) outcomes then [WrongStateWithStateGuard command] else [])
               @ (if wrong_states d op = [] then [WrongStateUnreachable command] else [])
             else []
         | None \<Rightarrow> []))"

section \<open>The lifecycle\<close>

text \<open>The loop over the states; the set of states seen comes with whether the ladder is still sound.\<close>

fun ladder_loop :: "string list \<Rightarrow> string list \<Rightarrow> definition_error list" where
  "ladder_loop seen [] = []"
| "ladder_loop seen (state # states) =
     (if is_blank state then EmptyLifecycleState # ladder_loop seen states
      else if state \<in> set seen then DuplicateLifecycleState state # ladder_loop seen states
      else ladder_loop (state # seen) states)"

definition ladder_defects :: "lifecycle_definition \<Rightarrow> definition_error list" where
  "ladder_defects l = (if lc_states l = [] then [EmptyLifecycle] else []) @ ladder_loop [] (lc_states l)"

definition ladder_is_sound :: "lifecycle_definition \<Rightarrow> bool" where
  "ladder_is_sound l \<longleftrightarrow> ladder_defects l = []"

definition validate_lifecycle :: "lifecycle_definition \<Rightarrow> definition_error list" where
  "validate_lifecycle l = ladder_defects l
     @ (if ladder_is_sound l \<and> lc_initial l \<notin> set (lc_states l) then [UnknownInitialState (lc_initial l)] else [])"

text \<open>The states of a transition's \<open>from\<close>, with the source states of the operation seen so far.\<close>

fun sources_loop :: "entity_definition \<Rightarrow> string \<Rightarrow> string list \<Rightarrow> string list \<Rightarrow> definition_error list \<times> string list" where
  "sources_loop d operation seen [] = ([], seen)"
| "sources_loop d operation seen (state # states) =
     (if ladder_is_sound (def_lifecycle d) \<and> state \<notin> set (lc_states (def_lifecycle d))
      then (case sources_loop d operation seen states of (defects, seen') \<Rightarrow>
          (UnknownFromState operation state # defects, seen'))
      else if state \<in> set seen
      then (case sources_loop d operation seen states of (defects, seen') \<Rightarrow>
          (AmbiguousTransition operation state # defects, seen'))
      else sources_loop d operation (state # seen) states)"

fun transitions_loop :: "entity_definition \<Rightarrow> string \<Rightarrow> string list \<Rightarrow> transition_definition list \<Rightarrow> definition_error list" where
  "transitions_loop d operation seen [] = []"
| "transitions_loop d operation seen (t # ts) =
     (if one_or_many_is_empty (td_from t) then [EmptyFromStates operation] else [])
     @ (case sources_loop d operation seen (as_slice (td_from t)) of (defects, seen') \<Rightarrow>
          defects
          @ (if ladder_is_sound (def_lifecycle d) \<and> td_to t \<notin> set (lc_states (def_lifecycle d))
             then [UnknownToState operation (td_to t)] else [])
          @ transitions_loop d operation seen' ts)"

section \<open>The definition\<close>

definition key_not_available :: "(string \<times> string \<times> bool) list \<Rightarrow> definition_error list" where
  "key_not_available keys = concat (map (\<lambda>(path, key, present).
     if present then [SemanticsKeyNotAvailable path key] else []) keys)"

definition validate_semantics_keys :: "entity_definition \<Rightarrow> definition_error list" where
  "validate_semantics_keys d =
     (if has_service_semantics (def_semantics d) then []
      else key_not_available
          [(''identity'', ''identity'', def_identity d \<noteq> None),
           (''relations'', ''relations'', def_relations d \<noteq> []),
           (''scales'', ''scales'', def_scales d \<noteq> []),
           (''create.arguments'', ''arguments'', \<not> schema_is_empty (cd_arguments (def_create d))),
           (''create.response'', ''response'', \<not> schema_is_empty (cd_response (def_create d))),
           (''create.outcomes'', ''outcomes'', cd_outcomes (def_create d) \<noteq> [])]
        @ concat (map (\<lambda>(name, op). key_not_available
          [(''operations.'' @ name @ ''.response'', ''response'', \<not> schema_is_empty (op_response op)),
           (''operations.'' @ name @ ''.outcomes'', ''outcomes'', op_outcomes op \<noteq> [])]) (def_operations d)))"

definition entity_scope :: "entity_definition \<Rightarrow> scope_kind \<Rightarrow> object_schema option \<Rightarrow> scope" where
  "entity_scope d kind args = \<lparr>sc_kind = kind, sc_schema = def_schema d, sc_args = args, sc_binders = [],
     sc_semantics = def_semantics d\<rparr>"

definition validate_rules :: "rule_definition list \<Rightarrow> string \<Rightarrow> scope \<Rightarrow> definition_error list" where
  "validate_rules rules path s = concat (map (\<lambda>(i, rule).
     defect (validate_rule_definition rule (index_path path i) s)) (enumerate 0 rules))"

definition validate_projections :: "entity_definition \<Rightarrow> definition_error list" where
  "validate_projections d = concat (map (\<lambda>(name, p).
     let path = ''projections.'' @ name in
     defect (map_err (\<lambda>m. case m of Msg t args \<Rightarrow> InvalidTemplate path (Msg (''`key`: '' @ t) args))
       (validate_reference (pd_key p) (entity_scope d ScopeInvariant None) ProjectionReader))
     @ (case pd_in_state p of
          Some state \<Rightarrow> if state \<notin> set (lc_states (def_lifecycle d))
            then [InvalidRule path (Msg ''`in_state` names {}, which the lifecycle does not declare'' [ArgText state])] else []
        | None \<Rightarrow> [])) (def_projections d))"

definition validate_create_emit :: "entity_definition \<Rightarrow> definition_error list" where
  "validate_create_emit d = (case cd_emit (def_create d) of
     Some e \<Rightarrow> defect (validate_event_definition e ''create.emit'' None (entity_scope d ScopeCreateTemplate None))
       @ validate_conditional_event e ''create.emit'' None (def_semantics d)
   | None \<Rightarrow> [])"

definition validate_create_outcome :: "entity_definition \<Rightarrow> outcome_definition \<Rightarrow> definition_error list" where
  "validate_create_outcome d o' =
     (let create = def_create d; path = ''create.outcomes.'' @ od_name o';
          scope_of = (\<lambda>kind. entity_scope d kind (Some (cd_arguments create))) in
      map (\<lambda>(field, _). FulfillmentOnCreate (od_name o') field) (od_fulfills o')
      @ validate_selector (od_when o') path (scope_of ScopeCreateSelector)
      @ validate_assignments d ''create'' (od_set o') (path @ ''.set'') (scope_of ScopeCreateSet)
      @ validate_emits (od_emits o') (path @ ''.emits'') None (scope_of ScopeCreateOutcomeTemplate)
      @ validate_responds o' path ''create'' (scope_of ScopeCreateOutcomeTemplate) (cd_response create)
      @ validate_conditional_outcome d o' path (cd_arguments create) (cd_response create))"

definition validate_create :: "entity_definition \<Rightarrow> definition_error list" where
  "validate_create d =
     (if has_service_semantics (def_semantics d) then
        validate_schema_definition (cd_arguments (def_create d)) ''create.arguments'' (def_semantics d)
        @ validate_schema_definition (cd_response (def_create d)) ''create.response'' (def_semantics d)
        @ validate_outcomes d None ''create''
        @ concat (map (validate_create_outcome d) (cd_outcomes (def_create d)))
      else [])"

definition validate_operation_outcome :: "entity_definition \<Rightarrow> string \<Rightarrow> operation_definition \<Rightarrow> outcome_definition
    \<Rightarrow> definition_error list" where
  "validate_operation_outcome d name op o' =
     (let path = ''operations.'' @ name @ ''.outcomes.'' @ od_name o' in
      validate_outcome_expressions d o' path name (entity_scope d ScopeOutcomeSelector (Some (op_arguments op)))
        (entity_scope d ScopeOperationTemplate (Some (op_arguments op))) (op_response op)
      @ validate_conditional_outcome d o' path (op_arguments op) (op_response op)
      @ validate_fulfillment_outcome d name o' path)"

definition validate_operation :: "entity_definition \<Rightarrow> string \<Rightarrow> operation_definition \<Rightarrow> definition_error list" where
  "validate_operation d name op =
     (let under_service = has_service_semantics (def_semantics d); path = ''operations.'' @ name;
          template_scope = entity_scope d ScopeOperationTemplate (Some (op_arguments op)) in
      (if is_blank name then [EmptyOperationName] else [])
      @ (if op_transitions op = [] \<and> (\<not> under_service \<or> op_outcomes op = []) then [NoTransitions name] else [])
      @ validate_schema_definition (op_arguments op) (path @ ''.arguments'') (def_semantics d)
      @ (if under_service
         then validate_schema_definition (op_response op) (path @ ''.response'') (def_semantics d)
           @ validate_outcomes d (Some op) name
         else [])
      @ transitions_loop d name [] (op_transitions op)
      @ validate_rules (op_preconditions op) (path @ ''.preconditions'')
          (entity_scope d ScopePrecondition (Some (op_arguments op)))
      @ validate_assignments d name (op_set op) (path @ ''.set'') template_scope
      @ concat (map (\<lambda>(i, e).
          defect (validate_event_definition e (index_path (path @ ''.emits'') i) (Some name) template_scope)
          @ validate_conditional_event e (index_path (path @ ''.emits'') i) (Some (op_arguments op)) (def_semantics d))
          (enumerate 0 (op_emits op)))
      @ concat (map (validate_operation_outcome d name op) (op_outcomes op)))"

definition validate_definition :: "entity_definition \<Rightarrow> definition_error list" where
  "validate_definition d =
     (if is_blank (def_entity d) then [EmptyEntityName] else [])
     @ (if def_version d = 0 then [ZeroVersion] else [])
     @ validate_lifecycle (def_lifecycle d)
     @ validate_semantics_keys d
     @ validate_schema_definition (def_schema d) ''schema'' (def_semantics d)
     @ validate_scales d
     @ validate_identity d
     @ validate_relations d
     @ validate_rules (def_invariants d) ''invariants'' (entity_scope d ScopeInvariant None)
     @ validate_projections d
     @ validate_create_emit d
     @ validate_create d
     @ concat (map (\<lambda>(name, op). validate_operation d name op) (def_operations d))"

end
