(* ===== verification/Acceptance.thy ===== *)
theory Acceptance
  imports Lifecycle
begin

text \<open>
  What the answer of one decision says of the rules, the events and the response it was taken under, and
  that its requirements can be asked without a panic.
\<close>

section \<open>Rules\<close>

definition holds_at :: "template_context \<Rightarrow> rule_definition \<Rightarrow> bool" where
  "holds_at ctx rule \<longleftrightarrow> (\<exists>u. evaluate_condition (rule_condition rule) ctx [] [] = Ok (True3, u))"

lemma check_preconditions_Ok: "check_preconditions name rules ctx = Ok () \<longleftrightarrow> list_all (holds_at ctx) rules"
proof (induction rules)
  case (Cons rule rules)
  show ?case
  proof (cases "evaluate_condition (rule_condition rule) ctx [] []")
    case (Inr tu)
    then show ?thesis using Cons.IH by (cases tu; cases "fst tu") (auto simp: holds_at_def)
  qed (simp add: holds_at_def)
qed simp

lemma invariants_hold_Ok: "invariants_hold rules ctx = Ok () \<longleftrightarrow> list_all (holds_at ctx) rules"
proof (induction rules)
  case (Cons rule rules)
  show ?case
  proof (cases "evaluate_condition (rule_condition rule) ctx [] []")
    case (Inr tu)
    then show ?thesis using Cons.IH by (cases tu; cases "fst tu") (auto simp: holds_at_def)
  qed (simp add: holds_at_def)
qed simp

lemma accepted_rules_hold:
  assumes "decide_with_fulfillments S d i name arguments fulfillments check = Ok (Accepted dn)"
  shows "\<exists>op args. map_of (def_operations d) name = Some op \<and> normalize_arguments d name arguments = Ok args
    \<and> list_all (holds_at (operation_context d i op args (in_fields i) (in_state (dn_instance dn)))) (op_preconditions op)
    \<and> list_all (holds_at (operation_context d i op args (in_fields (dn_instance dn)) (in_state (dn_instance dn)))) (def_invariants d)"
proof -
  obtain op args selected where op: "map_of (def_operations d) name = Some op" "normalize_arguments d name arguments = Ok args"
    and acc: "accept_branch S d i op name args fulfillments check selected = Ok dn"
    using assms by (rule decide_accepted_steps)
  from acc show ?thesis
  proof (cases rule: accept_branch_steps)
    case (1 state new_fields removed revision result events response snapshot ctx)
    then show ?thesis
      using op by (auto simp: check_preconditions_Ok check_invariants_def invariants_hold_Ok)
  qed
qed

section \<open>Events\<close>

lemma materialize_event_coordinates:
  assumes "materialize_event e ctx revision args removed = Ok ev"
  shows "ev_entity ev = def_entity (tc_definition ctx)" "ev_version ev = def_version (tc_definition ctx)"
    "tc_id ctx = Some (ev_id ev)" "ev_revision ev = revision" "ev_type ev = ed_event_type e"
    "ev_from_state ev = tc_from_state ctx" "ev_to_state ev = tc_to_state ctx"
    "ev_changed ev = changed_fields ctx" "ev_removed ev = removed" "ev_args ev = args"
  using assms by (auto simp: materialize_event_def Let_def res_simps)

lemma materialized_events:
  "rmap (\<lambda>e. materialize_event e ctx revision args removed) emits = Ok events \<Longrightarrow> ev \<in> set events \<Longrightarrow>
     \<exists>e. materialize_event e ctx revision args removed = Ok ev"
  by (induction emits arbitrary: events) (auto simp: res_simps)

text \<open>What a record says agrees with the instance and the events it was made with.\<close>

definition mirrors :: "decision \<Rightarrow> bool" where
  "mirrors dn \<longleftrightarrow> (let r = dn_record dn; i = dn_instance dn in
     dr_result r = i \<and> dr_entity r = in_entity i \<and> dr_id r = in_id i \<and> dr_revision r = in_revision i
     \<and> dr_to_state r = in_state i \<and> dr_events r = dn_events dn
     \<and> list_all (\<lambda>e. ev_entity e = in_entity i \<and> ev_version e = in_version i \<and> ev_id e = in_id i
         \<and> ev_revision e = in_revision i \<and> ev_from_state e = dr_from_state r \<and> ev_to_state e = in_state i
         \<and> ev_changed e = dr_changed r \<and> ev_removed e = dr_removed r) (dn_events dn))"

lemma decided_mirrors:
  assumes "decide_with_fulfillments S d i name arguments fulfillments check = Ok (Accepted dn)"
  shows "mirrors dn" "dr_from_state (dn_record dn) = Some (in_state i)" "in_id (dn_instance dn) = in_id i"
    "in_entity (dn_instance dn) = in_entity i" "in_version (dn_instance dn) = in_version i"
    "unat (in_revision (dn_instance dn)) = unat (in_revision i) + 1" "unat (in_revision (dn_instance dn)) \<le> 2 ^ 63 - 1"
proof -
  obtain op args selected where match: "ensure_instance_matches d i = Ok ()"
    and acc: "accept_branch S d i op name args fulfillments check selected = Ok dn"
    using assms by (rule decide_accepted_steps)
  have i: "in_entity i = def_entity d" "in_version i = def_version d"
    using match by (auto simp: ensure_instance_matches_def ensure_entity_matches_def res_simps split: if_splits)
  from acc have "mirrors dn \<and> dr_from_state (dn_record dn) = Some (in_state i) \<and> in_id (dn_instance dn) = in_id i
    \<and> in_entity (dn_instance dn) = in_entity i \<and> in_version (dn_instance dn) = in_version i
    \<and> unat (in_revision (dn_instance dn)) = unat (in_revision i) + 1 \<and> unat (in_revision (dn_instance dn)) \<le> 2 ^ 63 - 1"
  proof (cases rule: accept_branch_steps)
    case (1 state new_fields removed revision result events response snapshot ctx)
    have "list_all (\<lambda>e. ev_entity e = in_entity result \<and> ev_version e = in_version result \<and> ev_id e = in_id result
         \<and> ev_revision e = in_revision result \<and> ev_from_state e = Some (in_state i) \<and> ev_to_state e = in_state result
         \<and> ev_changed e = changed_fields ctx \<and> ev_removed e = removed) events"
      unfolding list_all_iff
    proof
      fix ev assume "ev \<in> set events"
      then obtain e where "materialize_event e ctx revision args removed = Ok ev" using materialized_events [OF 1(10)] by blast
      note coordinates = materialize_event_coordinates [OF this]
      have ctx: "tc_definition ctx = d" "tc_id ctx = Some (in_id i)" "tc_from_state ctx = Some (in_state i)"
        "tc_to_state ctx = br_to_state selected" by (simp_all add: 1(7) operation_context_def)
      show "ev_entity ev = in_entity result \<and> ev_version ev = in_version result \<and> ev_id ev = in_id result
         \<and> ev_revision ev = in_revision result \<and> ev_from_state ev = Some (in_state i) \<and> ev_to_state ev = in_state result
         \<and> ev_changed ev = changed_fields ctx \<and> ev_removed ev = removed"
        using coordinates i by (simp add: ctx) (simp add: 1(6))
    qed
    then show ?thesis
      using next_revision_Ok [OF 1(5)] by (simp add: mirrors_def Let_def 1(13)) (simp add: 1(6))
  qed
  then show "mirrors dn" "dr_from_state (dn_record dn) = Some (in_state i)" "in_id (dn_instance dn) = in_id i"
    "in_entity (dn_instance dn) = in_entity i" "in_version (dn_instance dn) = in_version i"
    "unat (in_revision (dn_instance dn)) = unat (in_revision i) + 1" "unat (in_revision (dn_instance dn)) \<le> 2 ^ 63 - 1"
    by blast+
qed

section \<open>Responses\<close>

lemma materialize_response_valid:
  "materialize_response responds conditional schema Checked ctx = Ok r \<Longrightarrow>
     validate_object_under schema r ''response'' (def_semantics (tc_definition ctx)) = []"
  by (auto simp: materialize_response_def Let_def res_simps)

lemma decided_response_valid:
  assumes "decide_with_fulfillments S d i name arguments fulfillments Checked = Ok (Accepted dn)"
    and "dr_response (dn_record dn) = Some r"
  shows "\<exists>op. map_of (def_operations d) name = Some op \<and> validate_object_under (op_response op) r ''response'' (def_semantics d) = []"
proof -
  obtain op args selected where op: "map_of (def_operations d) name = Some op"
    and acc: "accept_branch S d i op name args fulfillments Checked selected = Ok dn"
    using assms(1) by (rule decide_accepted_steps)
  from acc show ?thesis
  proof (cases rule: accept_branch_steps)
    case (1 state new_fields removed revision result events response snapshot ctx)
    with assms(2) obtain responds conditional where
      "materialize_response responds conditional (op_response op) Checked ctx = Ok r"
      by (auto simp: res_simps split: option.splits)
    from materialize_response_valid [OF this] op show ?thesis by (simp add: 1(7) operation_context_def)
  qed
qed

section \<open>Two steps\<close>

text \<open>After the load, the host's actions are applied as if they had been given at once.\<close>

lemma complete_decides:
  assumes load: "decide_before_load_as d expected_id name arguments check = Ok (Load p)"
    and ok: "arguments_ok d name" "json_ok arguments" and i: "subject_of d expected_id i"
    and needs: "select_with S p i = Ok (NeedsFulfillment q)"
  shows "complete S q actions = decide_with_fulfillments S d i name arguments (Some actions) check"
proof -
  obtain args where args: "normalize_arguments d name arguments = Ok args"
    and p: "p = \<lparr>po_definition = d, po_operation = name, po_expected_id = expected_id, po_arguments = args, po_response_check = check\<rparr>"
    using load by (rule before_load_Load)
  let ?answer = "decide_with_fulfillments S d i name arguments None check"
  have "(case ?answer of
       Err (FulfillmentRequired operation_name outcome names) \<Rightarrow>
         Ok (NeedsFulfillment \<lparr>pc_definition = d, pc_operation = name, pc_instance = i,
           pc_arguments = po_arguments p, pc_outcome = outcome, pc_response_check = check\<rparr>)
     | Err e \<Rightarrow> Err e
     | Ok answer \<Rightarrow> Ok (Complete answer)) = Ok (NeedsFulfillment q)"
    using needs select_with_decides [OF load ok i] by simp
  then obtain outcome where "\<lparr>pc_definition = d, pc_operation = name, pc_instance = i,
           pc_arguments = args, pc_outcome = outcome, pc_response_check = check\<rparr> = q"
    by (auto simp: p split: sum.splits core_error.splits)
  then have "q = \<lparr>pc_definition = d, pc_operation = name, pc_instance = i,
           pc_arguments = args, pc_outcome = outcome, pc_response_check = check\<rparr>" by simp
  then show ?thesis by (simp add: complete_def decide_normalized [OF args ok])
qed

section \<open>Connectives\<close>

lemma all_of_priority:
  "truth.all_of ts = (if False3 \<in> set ts then False3 else if Unknown \<in> set ts then Unknown else True3)"
proof (induction ts)
  case (Cons t ts)
  then show ?case by (cases t) (auto simp: truth.all_of_simps)
qed (simp add: truth.all_of_simps)

lemma any_of_priority:
  "truth.any_of ts = (if True3 \<in> set ts then True3 else if Unknown \<in> set ts then Unknown else False3)"
proof -
  have "truth.any_of ts = truth_not (truth.all_of (map truth_not ts))"
    by (simp add: truth.neg_all_of comp_def)
  moreover have "t \<in> truth_not ` set ts \<longleftrightarrow> truth_not t \<in> set ts" for t
    by (metis image_iff truth_not_involutive)
  ultimately show ?thesis by (simp add: all_of_priority)
qed

lemma all_children:
  assumes "condition_ok target (map fst bs) (CAll cs)" "tc_id ctx \<noteq> None"
  shows "answers (evaluate_condition (CAll cs) ctx bs) (truth.all_of (map (\<lambda>c. meaning c ctx bs) cs))"
  using evaluate_means [OF assms] by (simp add: meaning_simps)

lemma any_children:
  assumes "condition_ok target (map fst bs) (CAny cs)" "tc_id ctx \<noteq> None"
  shows "answers (evaluate_condition (CAny cs) ctx bs) (truth.any_of (map (\<lambda>c. meaning c ctx bs) cs))"
  using evaluate_means [OF assms] by (simp add: meaning_simps)

section \<open>Increments\<close>

definition increments_integer :: "template_context \<Rightarrow> string \<Rightarrow> bool" where
  "increments_integer ctx field \<longleftrightarrow> map_option fd_kind (map_of (os_fields (def_schema (tc_definition ctx))) field) = Some KInteger"

lemma number_ok_unsigned: "number_ok (c # r) \<Longrightarrow> c \<noteq> CHR ''+''"
  by (auto simp: number_ok_def unsigned_text_def is_digits_def is_exponent_mark_def is_point_def
      split: prod.splits if_splits)

lemma as_u64_value:
  assumes ok: "number_ok n" and i: "as_u64 n = Some i"
  shows "number_value n = of_nat i"
proof -
  have "is_digits n" "i = nat_of_text n"
    using i number_ok_unsigned ok by (cases n; force simp: as_u64_def parse_unsigned_def Let_def split: if_splits)+
  then show ?thesis
    using spelled_whole(2) [of n False] by (simp add: is_digits_def sign_rat_def)
qed

lemma number_value_of_int: "number_value (number_of_int i) = of_int i"
  using spelled_whole(2) [of "show_nat (nat \<bar>i\<bar>)" "i < 0"] is_digits_show_nat [of "nat \<bar>i\<bar>"]
  by (auto simp: number_of_int_def show_int_def is_digits_def sign_rat_def nat_of_text_show)

lemma integer_of_value: "number_ok n \<Longrightarrow> integer_of n = Some i \<Longrightarrow> number_value n = of_int i"
  by (auto simp: integer_of_def as_i64_value as_u64_value split: option.splits)

lemma add_amount_exact:
  assumes "add_amount name field ctx held by e = Ok (JNumber n)" "number_ok held" "number_ok by"
  shows "number_value n = number_value held + number_value by"
    and "increments_integer ctx field \<Longrightarrow> \<exists>i. n = number_of_int i \<and> (i64_range i \<or> \<not> service ctx \<and> u64_range i)"
  using assms number_add_exact [OF assms(2,3)]
  by (auto simp: add_amount_def increments_integer_def Let_def res_simps written_sum_def number_value_of_int integer_of_value
      split: if_splits)

lemma add_amount_JNumber: "add_amount name field ctx held by e = Ok w \<Longrightarrow> \<exists>n. w = JNumber n"
  by (auto simp: add_amount_def Let_def res_simps split: if_splits)

lemma incremented_exact:
  assumes "incremented_value name field (JNumber by) ctx = Ok w" "context_ok ctx" "number_ok by"
  shows "\<exists>held n. map_of (tc_old_fields ctx) field = Some (JNumber held) \<and> w = JNumber n
    \<and> number_value n = number_value held + number_value by
    \<and> (increments_integer ctx field \<longrightarrow> (\<exists>i. n = number_of_int i \<and> (i64_range i \<or> \<not> service ctx \<and> u64_range i)))"
proof -
  from assms(1) obtain held where held: "map_of (tc_old_fields ctx) field = Some (JNumber held)"
    by (auto simp: incremented_value_def split: option.splits json.splits)
  with assms(1) obtain e where sum: "add_amount name field ctx held by e = Ok w"
    by (auto simp: incremented_value_def Let_def resolve_template.simps)
  then obtain n where n: "w = JNumber n" using add_amount_JNumber by blast
  have "number_ok held" using assms(2) jmap_ok_get [OF _ held] by (simp add: context_ok_def)
  from add_amount_exact [OF sum [unfolded n] this assms(3)] held n show ?thesis by blast
qed

end
