(* ===== verification/Soundness.thy ===== *)
theory Soundness
  imports Registered Acceptance
begin

text \<open>
  What registration gives the kernel. A definition without defects, read from a document whose maps are
  ordered, is well formed in the sense the kernel's invariants need (\<open>definition_ok\<close>, \<open>writes_once\<close>,
  \<open>selectors_ok\<close>), every reference its conditions make is one the evaluation resolves without error, and no
  decision about it reaches an \<open>expect\<close> or an index that panics.
\<close>

section \<open>References\<close>

definition reads_target :: "scope_kind \<Rightarrow> bool" where
  "reads_target k \<longleftrightarrow> k \<notin> {ScopeOutcomeSelector, ScopeCreateSelector}"

lemma bool_branch: "(if b then x else y) \<Longrightarrow> (b \<Longrightarrow> x \<Longrightarrow> R) \<Longrightarrow> (\<not> b \<Longrightarrow> y \<Longrightarrow> R) \<Longrightarrow> R"
  by (cases b) simp_all

lemma scope_allows_named:
  assumes "scope_allows s e"
  shows "e \<in> set [''$id'', ''$entity'', ''$version'', ''$from_state'', ''$args'', ''$fields'', ''$old_fields'']
    \<or> reads_target (sc_kind s) \<and> (e = ''$to_state'' \<or> e = ''$state'')"
  using assms unfolding scope_allows_def reads_target_def
  by (elim bool_branch) auto

lemma rooted_reference_Some:
  "rooted_reference roots e s rd = Some a \<Longrightarrow> \<exists>p \<in> fst ` set roots. starts_with e p"
proof (induction roots)
  case (Cons root roots)
  then show ?case by (cases root) (auto simp: starts_with_iff split: option.splits)
qed simp

lemma validate_reference_ok:
  assumes "validate_reference e s rd = Ok ()" "starts_with e ''$''"
  shows "reference_ok (reads_target (sc_kind s)) (map fst (sc_binders s)) e"
proof (cases "map_of (sc_binders s) (fst (next_segment (tl e)))")
  case (Some element)
  then have "fst (next_segment (tl e)) \<in> set (map fst (sc_binders s))"
    by (metis Some map_of_SomeD fst_conv image_eqI list.set_map)
  then show ?thesis by (simp add: reference_ok_def)
next
  case None
  show ?thesis
  proof (cases "scope_allows s e")
    case True
    from scope_allows_named [OF this] show ?thesis unfolding reference_ok_def by blast
  next
    case False
    obtain name path where seg: "next_segment (tl e) = (name, path)" by force
    from assms None False seg obtain a where "rooted_reference (reference_roots s) e s rd = Some a"
      by (auto simp: validate_reference_def split: option.splits elim: refused_here.elims)
    from rooted_reference_Some [OF this] show ?thesis
      by (auto simp: reference_roots_def reference_ok_def)
  qed
qed

lemma enumerate_has: "x \<in> set xs \<Longrightarrow> \<exists>i. (i, x) \<in> set (enumerate n xs)"
proof -
  assume "x \<in> set xs"
  then obtain i where "i < length xs" "xs ! i = x" by (auto simp: in_set_conv_nth)
  then have "(n + i, x) \<in> set (enumerate n xs)" by (simp add: in_set_enumerate_eq)
  then show ?thesis ..
qed

lemma walk_references_value_ok:
  assumes "walk_references f v path = Ok ()"
    and "\<And>s p. starts_with s ''$'' \<Longrightarrow> f s p = Ok () \<Longrightarrow> reference_ok target names s"
  shows "value_ok target names v"
  using assms(1)
proof (induction v arbitrary: path rule: measure_induct_rule [where f = size])
  case (less v)
  show ?case
  proof (cases v)
    case (JString s)
    with less.prems show ?thesis by (auto simp: walk_references.simps assms(2) split: if_splits)
  next
    case (JArray vs)
    have "value_ok target names w" if "w \<in> set vs" for w
    proof -
      from enumerate_has [OF that] obtain i where "(i, w) \<in> set (enumerate 0 vs)" by blast
      with less.prems have "walk_references f w (index_path path i) = Ok ()"
        by (auto simp: walk_references.simps [of f "JArray vs"] JArray)
      with that show ?thesis by (intro less.IH) (auto simp: JArray size_json)
    qed
    then show ?thesis by (simp add: JArray)
  next
    case (JObject m)
    have "value_ok target names w" if "(k, w) \<in> set m" for k w
    proof -
      from that less.prems have "walk_references f w (path @ ''.'' @ k) = Ok ()"
        by (auto simp: walk_references.simps [of f "JObject m"] JObject)
      with that show ?thesis by (intro less.IH) (auto simp: JObject size_json)
    qed
    then show ?thesis by (auto simp: JObject)
  qed (simp_all add: value_ok.simps)
qed

lemma validate_operand_value_ok:
  "validate_operand v path s = Ok () \<Longrightarrow> value_ok (reads_target (sc_kind s)) (map fst (sc_binders s)) v"
  unfolding validate_operand_def
  by (rule walk_references_value_ok) (auto simp: res_simps intro: validate_reference_ok)

section \<open>Conditions\<close>

abbreviation admits :: "scope \<Rightarrow> condition \<Rightarrow> bool" where
  "admits s c \<equiv> condition_ok (reads_target (sc_kind s)) (map fst (sc_binders s)) c"

lemma validate_instant_operand_Ok: "validate_instant_operand v path s = Ok () \<Longrightarrow> validate_operand v path s = Ok ()"
  by (auto simp: validate_instant_operand_def res_simps)

abbreviation carries :: "scope \<Rightarrow> json \<Rightarrow> bool" where
  "carries s v \<equiv> value_ok (reads_target (sc_kind s)) (map fst (sc_binders s)) v"

text \<open>An operand the scope was asked about.\<close>

definition checked_operand :: "scope \<Rightarrow> json \<Rightarrow> bool" where
  "checked_operand s v \<longleftrightarrow> (\<exists>path. validate_operand v path s = Ok ())"

lemma checked_operandI: "validate_operand v path s = Ok () \<Longrightarrow> checked_operand s v"
  by (auto simp: checked_operand_def)

lemma checked_carries: "checked_operand s v \<Longrightarrow> carries s v"
  by (auto simp: checked_operand_def intro: validate_operand_value_ok)

lemma pair_checked:
  "validate_pair a b path s = Ok () \<Longrightarrow> checked_operand s a \<and> checked_operand s b"
  "validate_affix_pair a b path s = Ok () \<Longrightarrow> checked_operand s a \<and> checked_operand s b"
  "validate_instant_pair a b path s = Ok () \<Longrightarrow> checked_operand s a \<and> checked_operand s b"
  by (auto simp: validate_pair_def validate_affix_pair_def validate_instant_pair_def res_simps
      intro: checked_operandI dest!: validate_instant_operand_Ok)

lemma validate_quantifier_ok:
  assumes "validate_quantifier check_body q path operator_name s = Ok ()"
  obtains "validate_operand (over q) (path @ ''.'' @ operator_name @ ''.in'') s = Ok ()"
    "\<exists>element p. check_body p (s\<lparr>sc_binders := (bind_name q, element) # sc_binders s\<rparr>) = Ok ()"
  using assms
  by (auto simp: validate_quantifier_def Let_def res_simps split: if_splits sum.splits)

lemma not_service_operator: "(if b then Err e else x) = Ok y \<Longrightarrow> x = Ok y"
  by (cases b) simp_all

lemma scalar_checked:
  assumes "(case v of JArray vs \<Rightarrow> Err e | JObject m \<Rightarrow> Err e | _ \<Rightarrow> validate_operand v path s) = Ok ()"
  shows "checked_operand s v"
  by (rule checked_operandI [of v path]) (use assms in \<open>simp split: json.splits\<close>)

lemma leaf_checked:
  assumes "validate_condition_body c path s = Ok ()" "is_leaf c"
  shows "\<forall>v \<in> set (leaf_operands c). checked_operand s v"
proof -
  note body = not_service_operator [OF assms(1) [unfolded validate_condition_body.simps [of c]]]
  show ?thesis
  proof (cases c)
    case (CCompare k)
    then show ?thesis
      using body by (auto simp: leaf_operands_def res_simps intro: scalar_checked)
  next
    case (CTruthy v)
    then show ?thesis using body by (auto simp: leaf_operands_def intro: checked_operandI)
  next
    case (CExists v)
    then show ?thesis using body by (auto simp: leaf_operands_def intro: checked_operandI)
  next
    case (CBefore a b)
    then show ?thesis using body by (simp add: leaf_operands_def pair_checked(3))
  next
    case (CAfter a b)
    then show ?thesis using body by (simp add: leaf_operands_def pair_checked(3))
  next
    case (CEq a b)
    then show ?thesis using body by (simp add: leaf_operands_def pair_checked(1))
  next
    case (CNe a b)
    then show ?thesis using body by (simp add: leaf_operands_def pair_checked(1))
  next
    case (CGt a b)
    then show ?thesis using body by (simp add: leaf_operands_def pair_checked(1))
  next
    case (CGte a b)
    then show ?thesis using body by (simp add: leaf_operands_def pair_checked(1))
  next
    case (CLt a b)
    then show ?thesis using body by (simp add: leaf_operands_def pair_checked(1))
  next
    case (CLte a b)
    then show ?thesis using body by (simp add: leaf_operands_def pair_checked(1))
  next
    case (CIn a b)
    then show ?thesis using body by (simp add: leaf_operands_def pair_checked(1))
  next
    case (CContains a b)
    then show ?thesis using body by (simp add: leaf_operands_def pair_checked(1))
  next
    case (CStartsWith a b)
    then show ?thesis using body by (simp add: leaf_operands_def pair_checked(2))
  next
    case (CEndsWith a b)
    then show ?thesis using body by (simp add: leaf_operands_def pair_checked(2))
  qed (use assms(2) in \<open>simp_all add: is_leaf_def leaf_operands_def\<close>)
qed

lemma leaf_body:
  "validate_condition_body c path s = Ok () \<Longrightarrow> is_leaf c \<Longrightarrow> \<forall>v \<in> set (leaf_operands c). carries s v"
  using leaf_checked checked_carries by blast

lemma validate_condition_body_ok:
  "validate_condition_body c path s = Ok () \<Longrightarrow> admits s c"
proof (induction c arbitrary: path s rule: measure_induct_rule [where f = size])
  case (less c)
  from less.prems have body: "validate_condition_body c path s = Ok ()" .
  show ?case
  proof (cases c rule: condition_cases_leaf)
    case (all cs)
    from body have "\<forall>(i, d) \<in> set (enumerate 0 cs). validate_condition_body d (index_path (path @ ''.all'') i) s = Ok ()"
      by (subst (asm) validate_condition_body.simps) (auto simp: all split: if_splits)
    then have "admits s d" if "d \<in> set cs" for d
      using enumerate_has [OF that, of 0] that by (auto intro!: less.IH simp: all size_condition_member)
    then show ?thesis by (simp add: all condition_ok.simps [of _ _ "CAll cs"] list_all_iff)
  next
    case (any cs)
    from body have "\<forall>(i, d) \<in> set (enumerate 0 cs). validate_condition_body d (index_path (path @ ''.any'') i) s = Ok ()"
      by (subst (asm) validate_condition_body.simps) (auto simp: any split: if_splits)
    then have "admits s d" if "d \<in> set cs" for d
      using enumerate_has [OF that, of 0] that by (auto intro!: less.IH simp: any size_condition_member)
    then show ?thesis by (simp add: any condition_ok.simps [of _ _ "CAny cs"] list_all_iff)
  next
    case (neg d)
    from body have "validate_condition_body d (path @ ''.not'') s = Ok ()"
      by (subst (asm) validate_condition_body.simps) (auto simp: neg split: if_splits)
    then have "admits s d" by (rule less.IH [rotated]) (simp add: neg)
    then show ?thesis by (simp add: neg condition_ok.simps [of _ _ "CNot d"])
  next
    case (for_all q)
    from body have "validate_quantifier (\<lambda>p s. validate_condition_body (body q) p s) q path ''for_all'' s = Ok ()"
      by (subst (asm) validate_condition_body.simps) (auto simp: for_all split: if_splits)
    then show ?thesis
      by (rule validate_quantifier_ok)
        (use less.IH [of "body q"] in \<open>fastforce simp: for_all condition_ok.simps [of _ _ "CForAll q"] size_quantifier_body less_SucI
          intro: validate_operand_value_ok\<close>)
  next
    case (for_any q)
    from body have "validate_quantifier (\<lambda>p s. validate_condition_body (body q) p s) q path ''for_any'' s = Ok ()"
      by (subst (asm) validate_condition_body.simps) (auto simp: for_any split: if_splits)
    then show ?thesis
      by (rule validate_quantifier_ok)
        (use less.IH [of "body q"] in \<open>fastforce simp: for_any condition_ok.simps [of _ _ "CForAny q"] size_quantifier_body less_SucI
          intro: validate_operand_value_ok\<close>)
  next
    case leaf
    from leaf_body [OF body this] leaf show ?thesis by (simp add: condition_ok_leaf)
  qed
qed

lemma validate_condition_definition_ok:
  "validate_condition_definition c path s = Ok () \<Longrightarrow> admits s c \<and> condition_depth c \<le> max_condition_depth"
  by (auto simp: validate_condition_definition_def res_simps split: if_splits intro: validate_condition_body_ok)

lemma validate_rule_definition_ok:
  "validate_rule_definition r path s = Ok () \<Longrightarrow> admits s (rule_condition r)"
  by (auto simp: validate_rule_definition_def invalid_rule_def split: if_splits dest: validate_condition_definition_ok)

lemma validate_rules_member:
  assumes "validate_rules rules path s = []" "r \<in> set rules"
  shows "\<exists>path. validate_rule_definition r path s = Ok ()"
  using enumerate_has [OF assms(2), of 0] assms(1)
  by (fastforce simp: validate_rules_def)

lemma validate_rules_ok:
  assumes "validate_rules rules path s = []" "r \<in> set rules"
  shows "admits s (rule_condition r)"
  using validate_rules_member [OF assms] validate_rule_definition_ok by blast

section \<open>The lifecycle and the transitions\<close>

lemma ladder_loop_Nil:
  "ladder_loop seen xs = [] \<longleftrightarrow> (\<forall>x \<in> set xs. \<not> is_blank x \<and> x \<notin> set seen) \<and> distinct xs"
  by (induction xs arbitrary: seen) auto

lemma ladder_sound:
  "ladder_is_sound l \<longleftrightarrow> lc_states l \<noteq> [] \<and> list_all (\<lambda>s. \<not> is_blank s) (lc_states l) \<and> distinct (lc_states l)"
  by (auto simp: ladder_is_sound_def ladder_defects_def ladder_loop_Nil list_all_iff)

lemma validate_lifecycle_Nil:
  "validate_lifecycle l = [] \<longleftrightarrow> ladder_is_sound l \<and> lc_initial l \<in> set (lc_states l)"
  by (auto simp: validate_lifecycle_def ladder_is_sound_def)

lemma sources_loop_Nil:
  assumes "sources_loop d name seen xs = ([], seen')" "ladder_is_sound (def_lifecycle d)"
  shows "set xs \<subseteq> set (lc_states (def_lifecycle d)) \<and> distinct xs \<and> set xs \<inter> set seen = {} \<and> set seen' = set xs \<union> set seen"
  using assms(1)
proof (induction xs arbitrary: seen)
  case (Cons x xs)
  then show ?case using assms(2) by (fastforce split: if_splits prod.splits)
qed simp

abbreviation sources :: "transition_definition list \<Rightarrow> string list" where
  "sources ts \<equiv> concat (map (\<lambda>t. as_slice (td_from t)) ts)"

lemma transitions_loop_Nil:
  assumes "transitions_loop d name seen ts = []" "ladder_is_sound (def_lifecycle d)"
  shows "list_all (\<lambda>t. td_to t \<in> set (lc_states (def_lifecycle d)) \<and> as_slice (td_from t) \<noteq> []) ts
    \<and> set (sources ts) \<subseteq> set (lc_states (def_lifecycle d)) \<and> distinct (sources ts) \<and> set (sources ts) \<inter> set seen = {}"
  using assms(1)
proof (induction ts arbitrary: seen)
  case (Cons t ts)
  obtain defects seen' where loop: "sources_loop d name seen (as_slice (td_from t)) = (defects, seen')" by force
  with Cons.prems assms(2) have rest: "defects = []" "transitions_loop d name seen' ts = []"
    "td_to t \<in> set (lc_states (def_lifecycle d))" "as_slice (td_from t) \<noteq> []"
    by (auto simp: one_or_many_is_empty_def split: if_splits)
  from sources_loop_Nil [OF loop [unfolded rest(1)] assms(2)] Cons.IH [OF rest(2)] rest(3,4)
  show ?case by auto
qed simp

section \<open>Branches\<close>

lemma outcomes_loop_member:
  assumes "outcomes_loop d creation command z t i os = []" "o' \<in> set os"
  shows "\<exists>t j. outcome_defects d creation command z t j o' = []"
  using assms by (induction os arbitrary: t i) auto

lemma no_defect: "(if b then [e] else []) = [] \<longleftrightarrow> \<not> b"
  by simp

lemmas outcome_defects_parts = outcome_defects_def append_is_Nil_conv no_defect

lemma unknown_state_defects_Nil:
  "unknown_state_defects d command o' = [] \<Longrightarrow> set (named_states o') \<subseteq> set (lc_states (def_lifecycle d))"
  unfolding unknown_state_defects_def by (induction "named_states o'") (auto split: if_split_asm)

lemma outcome_defects_Nil:
  assumes "outcome_defects d creation command z t j o' = []"
  shows "\<not> is_blank (od_name o')" "od_name o' \<notin> set (ot_seen t)"
    and "is_default_branch o' \<Longrightarrow> j = z"
    and "set (named_states o') \<subseteq> set (lc_states (def_lifecycle d))"
    and "od_refuses o' \<noteq> None \<Longrightarrow> \<not> mutates o'"
    and "is_observable o' \<or> od_wrong_state o'"
proof -
  note parts = assms [unfolded outcome_defects_parts]
  from parts have "outcome_name_defects command t o' = []" by blast
  then show "\<not> is_blank (od_name o')" "od_name o' \<notin> set (ot_seen t)"
    by (simp_all add: outcome_name_defects_def split: if_split_asm)
  from parts have "unknown_state_defects d command o' = []" by blast
  then show "set (named_states o') \<subseteq> set (lc_states (def_lifecycle d))" by (rule unknown_state_defects_Nil)
  show "is_default_branch o' \<Longrightarrow> j = z" "od_refuses o' \<noteq> None \<Longrightarrow> \<not> mutates o'" "is_observable o' \<or> od_wrong_state o'"
    using parts by blast+
qed

lemma outcomes_loop_names:
  assumes "outcomes_loop d creation command z t i os = []"
  shows "distinct (map od_name os) \<and> (\<forall>o' \<in> set os. \<not> is_blank (od_name o') \<and> od_name o' \<notin> set (ot_seen t))"
  using assms
proof (induction os arbitrary: t i)
  case (Cons o' os)
  from Cons.prems have "outcome_defects d creation command z t i o' = []"
    "outcomes_loop d creation command z (tally_outcome o' t) (i + 1) os = []" by simp_all
  with outcome_defects_Nil(1,2) [OF this(1)] Cons.IH [OF this(2)] show ?case
    by (auto simp: tally_outcome_def)
qed simp

lemma outcomes_loop_default:
  assumes "outcomes_loop d creation command z t i os = []" "j < length os" "is_default_branch (os ! j)"
  shows "i + j = z"
  using assms
proof (induction os arbitrary: t i j)
  case (Cons o' os)
  show ?case
  proof (cases j)
    case 0
    with Cons.prems have "outcome_defects d creation command z t i o' = []" "is_default_branch o'" by simp_all
    with 0 show ?thesis using outcome_defects_Nil(3) by simp
  next
    case (Suc k)
    with Cons.prems Cons.IH [of "tally_outcome o' t" "i + 1" k] show ?thesis by simp
  qed
qed simp

section \<open>Registered definitions\<close>

text \<open>What a definition has by being read from a document, before any check: ordered maps, and JSON values.\<close>

definition branch_document_ok :: "outcome_definition \<Rightarrow> bool" where
  "branch_document_ok o' \<longleftrightarrow> jmap_ok (od_set o') \<and> sorted_keys (od_fulfills o') \<and> sorted_keys (od_set_if_present o')"

definition operation_document_ok :: "operation_definition \<Rightarrow> bool" where
  "operation_document_ok op \<longleftrightarrow> schema_ok (op_arguments op) \<and> jmap_ok (op_set op) \<and> list_all branch_document_ok (op_outcomes op)"

definition document_ok :: "entity_definition \<Rightarrow> bool" where
  "document_ok d \<longleftrightarrow> schema_ok (def_schema d) \<and> schema_ok (cd_arguments (def_create d))
     \<and> list_all branch_document_ok (cd_outcomes (def_create d))
     \<and> list_all (\<lambda>(name, op). operation_document_ok op) (def_operations d)"

definition registered :: "entity_definition \<Rightarrow> bool" where
  "registered d \<longleftrightarrow> document_ok d \<and> validate_definition d = []"

lemma jmap_ok_values: "jmap_ok m \<Longrightarrow> list_all (\<lambda>(f, v). json_ok v) m"
  by (induction m) auto

lemma validate_definition_Nil:
  assumes "validate_definition d = []"
  shows "def_version d \<noteq> 0" "ladder_is_sound (def_lifecycle d)" "lc_initial (def_lifecycle d) \<in> set (lc_states (def_lifecycle d))"
    and "validate_semantics_keys d = []" "validate_identity d = []" "validate_relations d = []"
    and "validate_rules (def_invariants d) ''invariants'' (entity_scope d ScopeInvariant None) = []"
    and "validate_projections d = []" "validate_create d = []"
    and "(name, op) \<in> set (def_operations d) \<Longrightarrow> validate_operation d name op = []"
proof -
  note parts = assms [unfolded validate_definition_def append_is_Nil_conv no_defect]
  then have lifecycle: "validate_lifecycle (def_lifecycle d) = []" by blast
  then show "ladder_is_sound (def_lifecycle d)" "lc_initial (def_lifecycle d) \<in> set (lc_states (def_lifecycle d))"
    by (simp_all add: validate_lifecycle_Nil)
  show "def_version d \<noteq> 0" "validate_semantics_keys d = []" "validate_identity d = []" "validate_relations d = []"
    "validate_rules (def_invariants d) ''invariants'' (entity_scope d ScopeInvariant None) = []"
    "validate_projections d = []" "validate_create d = []" using parts by blast+
  from parts have "concat (map (\<lambda>(name, op). validate_operation d name op) (def_operations d)) = []" by blast
  then show "(name, op) \<in> set (def_operations d) \<Longrightarrow> validate_operation d name op = []" by auto
qed

lemma validate_operation_Nil:
  assumes "validate_operation d name op = []"
  shows "transitions_loop d name [] (op_transitions op) = []"
    and "has_service_semantics (def_semantics d) \<Longrightarrow> validate_outcomes d (Some op) name = []"
    and "validate_rules (op_preconditions op) (''operations.'' @ name @ ''.preconditions'')
           (entity_scope d ScopePrecondition (Some (op_arguments op))) = []"
    and "validate_assignments d name (op_set op) (''operations.'' @ name @ ''.set'')
           (entity_scope d ScopeOperationTemplate (Some (op_arguments op))) = []"
    and "o' \<in> set (op_outcomes op) \<Longrightarrow> validate_operation_outcome d name op o' = []"
  using assms by (simp_all add: validate_operation_def Let_def)

lemma validate_operation_outcome_Nil:
  assumes "validate_operation_outcome d name op o' = []"
  defines "path \<equiv> ''operations.'' @ name @ ''.outcomes.'' @ od_name o'"
  shows "validate_selector (od_when o') path (entity_scope d ScopeOutcomeSelector (Some (op_arguments op))) = []"
    and "validate_assignments d name (od_set o') (path @ ''.set'') (entity_scope d ScopeOperationTemplate (Some (op_arguments op))) = []"
    and "validate_conditional_outcome d o' path (op_arguments op) (op_response op) = []"
    and "validate_fulfillment_outcome d name o' path = []"
  using assms(1) unfolding path_def by (simp_all add: validate_operation_outcome_def validate_outcome_expressions_def Let_def)

lemma validate_create_outcome_Nil:
  assumes "validate_create_outcome d o' = []"
  defines "path \<equiv> ''create.outcomes.'' @ od_name o'"
  shows "od_fulfills o' = []"
    and "validate_selector (od_when o') path (entity_scope d ScopeCreateSelector (Some (cd_arguments (def_create d)))) = []"
  using assms(1) unfolding path_def by (simp_all add: validate_create_outcome_def Let_def)

lemma no_branches_without_service:
  assumes "validate_semantics_keys d = []" "\<not> has_service_semantics (def_semantics d)"
  shows "cd_outcomes (def_create d) = []" "(name, op) \<in> set (def_operations d) \<Longrightarrow> op_outcomes op = []"
  using assms by (auto simp: validate_semantics_keys_def key_not_available_def split: if_splits)

lemma service_branches:
  assumes "validate_definition d = []"
  shows "o' \<in> set (cd_outcomes (def_create d)) \<Longrightarrow> has_service_semantics (def_semantics d)"
    and "(name, op) \<in> set (def_operations d) \<Longrightarrow> o' \<in> set (op_outcomes op) \<Longrightarrow> has_service_semantics (def_semantics d)"
  using no_branches_without_service [OF validate_definition_Nil(4) [OF assms]] by fastforce+

text \<open>The branches of one command, whichever it is.\<close>

lemma validate_outcomes_member:
  assumes "validate_outcomes d operation command = []"
    and "o' \<in> set (case operation of Some op \<Rightarrow> op_outcomes op | None \<Rightarrow> cd_outcomes (def_create d))"
  shows "set (named_states o') \<subseteq> set (lc_states (def_lifecycle d))" "od_refuses o' \<noteq> None \<Longrightarrow> \<not> mutates o'"
  using assms outcomes_loop_member outcome_defects_Nil(4,5) unfolding validate_outcomes_def Let_def append_is_Nil_conv by metis+

lemma registered_create_branch:
  assumes "validate_definition d = []" "o' \<in> set (cd_outcomes (def_create d))"
  shows "set (named_states o') \<subseteq> set (lc_states (def_lifecycle d))" "od_refuses o' \<noteq> None \<Longrightarrow> \<not> mutates o'"
    "validate_create_outcome d o' = []"
proof -
  from service_branches(1) [OF assms]
  have "validate_outcomes d None ''create'' = []" "validate_create_outcome d o' = []"
    using validate_definition_Nil(9) [OF assms(1)] assms(2) by (simp_all add: validate_create_def)
  then show "set (named_states o') \<subseteq> set (lc_states (def_lifecycle d))" "od_refuses o' \<noteq> None \<Longrightarrow> \<not> mutates o'"
    "validate_create_outcome d o' = []"
    using validate_outcomes_member [of d None "''create''" o'] assms(2) by simp_all
qed

lemma registered_branch:
  assumes "validate_definition d = []" "(name, op) \<in> set (def_operations d)" "o' \<in> set (op_outcomes op)"
  shows "set (named_states o') \<subseteq> set (lc_states (def_lifecycle d))" "od_refuses o' \<noteq> None \<Longrightarrow> \<not> mutates o'"
    "validate_operation_outcome d name op o' = []"
proof -
  note checked = validate_definition_Nil(10) [OF assms(1,2)]
  from validate_operation_Nil(2) [OF checked service_branches(2) [OF assms]] assms(3)
  show "set (named_states o') \<subseteq> set (lc_states (def_lifecycle d))" "od_refuses o' \<noteq> None \<Longrightarrow> \<not> mutates o'"
    using validate_outcomes_member [of d "Some op" name o'] by simp_all
  show "validate_operation_outcome d name op o' = []" by (rule validate_operation_Nil(5) [OF checked assms(3)])
qed

lemma named_states_move: "od_effect o' = Moves to from \<Longrightarrow> to \<in> set (named_states o')"
  by (simp add: named_states_def)

lemma branch_outcome_ok:
  assumes "set (named_states o') \<subseteq> set states" "branch_document_ok o'"
  shows "outcome_ok states o'"
  using assms named_states_move
  by (auto simp: outcome_ok_def branch_document_ok_def jmap_ok_values split: outcome_effect.split)

lemma registered_definition_ok:
  assumes "registered d"
  shows "definition_ok d"
proof -
  have d: "validate_definition d = []" "document_ok d" using assms by (simp_all add: registered_def)
  let ?states = "lc_states (def_lifecycle d)"
  have "outcome_ok ?states o'" if "o' \<in> set (cd_outcomes (def_create d))" for o'
    using registered_create_branch(1) [OF d(1) that] d(2) that
    by (intro branch_outcome_ok) (auto simp: document_ok_def list_all_iff)
  moreover have "operation_ok ?states op" if op: "(name, op) \<in> set (def_operations d)" for name op
  proof -
    have doc: "operation_document_ok op" using d(2) op by (auto simp: document_ok_def list_all_iff)
    have "outcome_ok ?states o'" if "o' \<in> set (op_outcomes op)" for o'
      using registered_branch(1) [OF d(1) op that] doc that
      by (intro branch_outcome_ok) (auto simp: operation_document_ok_def list_all_iff)
    moreover have "list_all (\<lambda>t. td_to t \<in> set ?states) (op_transitions op)"
      using transitions_loop_Nil [OF validate_operation_Nil(1) [OF validate_definition_Nil(10) [OF d(1) op]]
          validate_definition_Nil(2) [OF d(1)]] by (simp add: list_all_iff)
    ultimately show ?thesis
      using doc jmap_ok_values [of "op_set op"] by (simp add: operation_ok_def operation_document_ok_def list_all_iff)
  qed
  ultimately show ?thesis
    using d(2) validate_definition_Nil(3) [OF d(1)]
    by (auto simp: definition_ok_def document_ok_def list_all_iff)
qed

lemma validate_selector_ok:
  assumes "validate_selector w path s = []" "w = Some c"
  shows "admits s c \<and> condition_depth c \<le> max_condition_depth"
  using assms by (auto simp: validate_selector_def dest: validate_condition_definition_ok)

lemma entity_scope_simps [simp]:
  "sc_kind (entity_scope d k a) = k" "sc_binders (entity_scope d k a) = []" "sc_schema (entity_scope d k a) = def_schema d"
  "sc_args (entity_scope d k a) = a" "sc_semantics (entity_scope d k a) = def_semantics d"
  by (simp_all add: entity_scope_def)

lemma registered_selectors_ok:
  assumes "registered d" "(name, op) \<in> set (def_operations d)"
  shows "selectors_ok op"
proof -
  have d: "validate_definition d = []" using assms(1) by (simp add: registered_def)
  have "(case od_when o' of Some c \<Rightarrow> condition_ok False [] c | None \<Rightarrow> True)
      \<and> (od_refuses o' \<noteq> None \<longrightarrow> effect_move_sources (od_effect o') = None)" if o: "o' \<in> set (op_outcomes op)" for o'
  proof -
    note branch = registered_branch [OF d assms(2) o]
    from validate_selector_ok [OF validate_operation_outcome_Nil(1) [OF branch(3)]]
    have "od_when o' = Some c \<Longrightarrow> condition_ok False [] c" for c by (simp add: reads_target_def)
    moreover from branch(2) have "od_refuses o' \<noteq> None \<Longrightarrow> effect_move_sources (od_effect o') = None"
      by (simp add: mutates_def effect_is_none_def)
    ultimately show ?thesis by (auto split: option.split)
  qed
  then show ?thesis unfolding selectors_ok_def list_all_iff by blast
qed

text \<open>A branch writes a field in one of its three ways only.\<close>

lemma validate_fulfillment_disjoint:
  assumes "validate_fulfillment_outcome d name o' path = []"
  shows "fst ` set (od_set o') \<inter> fst ` set (od_fulfills o') = {}"
    and "fst ` set (od_set_if_present o') \<inter> fst ` set (od_fulfills o') = {}"
    and "fst ` set (od_fulfills o') \<subseteq> fst ` set (os_fields (def_schema d))"
proof -
  have field: "bt_contains (os_fields (def_schema d)) f \<and> \<not> bt_contains (od_set o') f \<and> \<not> bt_contains (od_set_if_present o') f"
    if "(f, r) \<in> set (od_fulfills o')" for f r
    using that assms unfolding validate_fulfillment_outcome_def
    by (auto split: if_split_asm option.split_asm simp: bt_contains_def)
  then show "fst ` set (od_set o') \<inter> fst ` set (od_fulfills o') = {}"
    "fst ` set (od_set_if_present o') \<inter> fst ` set (od_fulfills o') = {}"
    "fst ` set (od_fulfills o') \<subseteq> fst ` set (os_fields (def_schema d))"
    by (auto simp: bt_contains_iff) force+
qed

lemma validate_conditional_members_disjoint:
  assumes "validate_conditional_members arguments path conditional ordinary targets noun = []"
  shows "fst ` set conditional \<inter> fst ` set ordinary = {}"
proof -
  have "\<not> bt_contains ordinary f" if "(f, r) \<in> set conditional" for f r
    using that assms unfolding validate_conditional_members_def
    by (force split: if_split_asm prod.split_asm)
  then show ?thesis by (auto simp: bt_contains_iff) force
qed

lemma validate_conditional_disjoint:
  assumes "validate_conditional_outcome d o' path arguments response = []"
  shows "fst ` set (od_set o') \<inter> fst ` set (od_set_if_present o') = {}"
proof (cases "has_conditional_presence (def_semantics d)")
  case True
  with assms have "validate_conditional_members arguments (path @ ''.set_if_present'') (od_set_if_present o') (od_set o')
      (os_fields (def_schema d)) ''entity field'' = []" by (simp add: validate_conditional_outcome_def)
  from validate_conditional_members_disjoint [OF this] show ?thesis by blast
next
  case False
  with assms have "od_set_if_present o' = []" by (auto simp: validate_conditional_outcome_def split: if_split_asm)
  then show ?thesis by simp
qed

lemma registered_writes_once:
  assumes "registered d"
  shows "writes_once d"
proof -
  have d: "validate_definition d = []" "document_ok d" using assms by (simp_all add: registered_def)
  have "distinct (map fst (op_set op)) \<and> list_all outcome_writes_once (op_outcomes op)"
    if op: "(name, op) \<in> set (def_operations d)" for name op
  proof -
    have doc: "operation_document_ok op" using d(2) op by (auto simp: document_ok_def list_all_iff)
    have "outcome_writes_once o'" if o: "o' \<in> set (op_outcomes op)" for o'
    proof -
      note branch = registered_branch(3) [OF d(1) op o]
      have "branch_document_ok o'" using doc o by (simp add: operation_document_ok_def list_all_iff)
      then have "distinct (map fst (od_set o'))"
        by (simp add: branch_document_ok_def jmap_ok_sorted sorted_keys_distinct)
      moreover note validate_fulfillment_disjoint(1) [OF validate_operation_outcome_Nil(4) [OF branch]]
        validate_conditional_disjoint [OF validate_operation_outcome_Nil(3) [OF branch]]
      ultimately show ?thesis by (auto simp: outcome_writes_once_def bt_keys_def list_all_iff)
    qed
    with doc show ?thesis
      by (simp add: operation_document_ok_def list_all_iff jmap_ok_sorted sorted_keys_distinct)
  qed
  then show ?thesis by (auto simp: writes_once_def list_all_iff)
qed

text \<open>The rules of a registered definition make only references that are resolved without error.\<close>

lemma registered_rules_ok:
  assumes "registered d"
  shows "r \<in> set (def_invariants d) \<Longrightarrow> condition_ok True [] (rule_condition r)"
    and "(name, op) \<in> set (def_operations d) \<Longrightarrow> r \<in> set (op_preconditions op) \<Longrightarrow> condition_ok True [] (rule_condition r)"
proof -
  have d: "validate_definition d = []" using assms by (simp add: registered_def)
  show "r \<in> set (def_invariants d) \<Longrightarrow> condition_ok True [] (rule_condition r)"
    using validate_rules_ok [OF validate_definition_Nil(7) [OF d]] by (simp add: reads_target_def)
  show "(name, op) \<in> set (def_operations d) \<Longrightarrow> r \<in> set (op_preconditions op) \<Longrightarrow> condition_ok True [] (rule_condition r)"
    using validate_rules_ok [OF validate_operation_Nil(3) [OF validate_definition_Nil(10) [OF d]]] by (simp add: reads_target_def)
qed

text \<open>At most one transition of an operation leaves a state, so the first found is the only one.\<close>

lemma registered_sources_distinct:
  assumes "registered d" "(name, op) \<in> set (def_operations d)"
  shows "distinct (sources (op_transitions op))"
proof -
  have d: "validate_definition d = []" using assms(1) by (simp add: registered_def)
  from transitions_loop_Nil [OF validate_operation_Nil(1) [OF validate_definition_Nil(10) [OF d assms(2)]]
      validate_definition_Nil(2) [OF d]] show ?thesis by blast
qed

lemma find_sole_source:
  assumes "distinct (sources ts)" "t \<in> set ts" "s \<in> set (as_slice (td_from t))"
  shows "List.find (\<lambda>t. s \<in> set (as_slice (td_from t))) ts = Some t"
  using assms by (induction ts) force+

end
