(* ===== verification/Panics.thy ===== *)
theory Panics
  imports Soundness
begin

text \<open>
  The \<open>expect\<close>s and indexings of \<open>runtime.rs\<close> are values of the model (\<open>Panicked\<close>). No decision about a
  registered definition reaches one, whatever the instance, the arguments and the host's actions are: each step
  of the kernel is shown to answer calmly, and the steps compose.
\<close>

section \<open>Calm answers\<close>

text \<open>A calm answer neither panics nor asks the host for actions.\<close>

fun special :: "core_error \<Rightarrow> bool" where
  "special (Panicked m) = True"
| "special (FulfillmentRequired name outcome keys) = True"
| "special e = False"

definition calm :: "'a core_result \<Rightarrow> bool" where
  "calm r \<longleftrightarrow> (\<forall>e. r = Err e \<longrightarrow> \<not> special e)"

lemma calm_values [simp]: "calm (Ok x)" "calm (Err e) \<longleftrightarrow> \<not> special e"
  by (simp_all add: calm_def)

lemma calmD: "calm r \<Longrightarrow> r = Err e \<Longrightarrow> \<not> special e"
  by (simp add: calm_def)

lemma calm_bind [intro]: "calm m \<Longrightarrow> (\<And>x. m = Ok x \<Longrightarrow> calm (f x)) \<Longrightarrow> calm (rbind m f)"
  by (cases m) auto

lemma calm_ok_or [simp]: "calm (ok_or m e) \<longleftrightarrow> m \<noteq> None \<or> \<not> special e"
  by (cases m) auto

lemma calm_ensure [simp]: "calm (ensure c e) \<longleftrightarrow> c \<or> \<not> special e"
  by (auto simp: ensure_def)

lemma calm_option [intro]:
  "(x = None \<Longrightarrow> calm a) \<Longrightarrow> (\<And>y. x = Some y \<Longrightarrow> calm (f y)) \<Longrightarrow> calm (case x of None \<Rightarrow> a | Some y \<Rightarrow> f y)"
  by (cases x) auto

lemma calm_rmap [intro]: "(\<And>x. x \<in> set xs \<Longrightarrow> calm (f x)) \<Longrightarrow> calm (rmap f xs)"
  by (induction xs) (auto intro!: calm_bind)

lemma calm_rfold [intro]: "(\<And>x s. x \<in> set xs \<Longrightarrow> calm (f x s)) \<Longrightarrow> calm (rfold f xs s)"
  by (induction xs arbitrary: s) (auto intro!: calm_bind)

text \<open>The error of an answer is the error of one of its steps.\<close>

definition spared :: "core_error \<Rightarrow> 'a core_result \<Rightarrow> bool" where
  "spared e r \<longleftrightarrow> r \<noteq> Err e"

lemma spared_Ok: "spared e (Ok x)"
  by (simp add: spared_def)

lemma spared_calm: "special e \<Longrightarrow> calm r \<Longrightarrow> spared e r"
  by (auto simp: spared_def calm_def)

lemma spared_bind: "spared e m \<Longrightarrow> (\<And>x. m = Ok x \<Longrightarrow> spared e (f x)) \<Longrightarrow> spared e (rbind m f)"
  by (cases m) (auto simp: spared_def)

lemma spared_option:
  "(x = None \<Longrightarrow> spared e a) \<Longrightarrow> (\<And>y. x = Some y \<Longrightarrow> spared e (f y)) \<Longrightarrow> spared e (case x of None \<Rightarrow> a | Some y \<Rightarrow> f y)"
  by (cases x) auto

section \<open>The steps\<close>

lemma calm_validated [simp]: "calm (require_valid errors)"
  by (simp add: require_valid_def)

lemma calm_into_object [simp]: "calm (into_object v path)"
  by (cases v) (simp_all add: into_object_def)

lemma calm_normalize [simp]: "calm (normalize_arguments d name arguments)"
  unfolding normalize_arguments_def Let_def by (intro calm_bind) simp_all

lemma calm_match [simp]: "calm (ensure_instance_matches d i)"
  unfolding ensure_instance_matches_def ensure_entity_matches_def ensure_state_known_def by (intro calm_bind) simp_all

lemma calm_reference [simp]: "calm (resolve_expression_optional e ctx bs)"
proof -
  have root: "calm (resolve_root ctx e)"
    unfolding resolve_root_def by (simp split: option.split add: template_error_def)
  have "calm (resolve_named ctx e)"
    unfolding resolve_named_def using root
    by (simp split: option.split add: pre_address_identity_error_def template_error_def)
  then show ?thesis by (simp add: resolve_expression_optional_def split: prod.split option.split)
qed

lemma calm_template [simp]: "calm (resolve_template v ctx)"
proof (induction v rule: measure_induct_rule [where f = size])
  case (less v)
  show ?case
    by (subst resolve_template.simps)
      (cases v; auto intro!: calm_bind calm_rmap less.IH simp: template_error_def size_json)
qed

lemma calm_amount: "\<not> special e \<Longrightarrow> calm (add_amount name field ctx held by' e)"
  unfolding add_amount_def Let_def by (auto intro!: calm_bind)

lemma calm_assigned [simp]: "calm (assigned_value name field v ctx)"
proof -
  have "calm (incremented_value name field amount ctx)" for amount
    unfolding incremented_value_def Let_def
    by (auto intro!: calm_bind calm_amount split: option.split json.split)
  then show ?thesis
    unfolding assigned_value_def Let_def
    by (auto intro!: calm_bind split: set_assignment.split json.split bool.split)
qed

lemma calm_assign_fields [simp]: "calm (assign_fields name selected ctx args)"
  unfolding assign_fields_def
  by (auto intro!: calm_bind calm_rfold split: option.split)

lemma calm_event [simp]: "calm (materialize_event e ctx revision args removed)"
  unfolding materialize_event_def Let_def
  by (intro calm_bind) (auto simp: template_error_def pre_address_identity_error_def split: json.split)

lemma calm_response [simp]: "calm (materialize_response responds conditional schema check ctx)"
  unfolding materialize_response_def Let_def by (auto intro!: calm_bind calm_rfold)

lemma calm_mirror [simp]: "calm (check_identity_mirror S d i)"
  unfolding check_identity_mirror_def Let_def by (auto split: option.split sum.split)

lemma calm_derived [simp]: "calm (derive_creation_identity S d object)"
  unfolding derive_creation_identity_def
  by (auto intro!: calm_bind split: sum.split message.split)

lemma calm_revision [simp]: "calm (next_revision i)"
  by (simp add: next_revision_cases)

text \<open>Rules and guards: the references registration admits are resolved without any error.\<close>

lemma evaluated:
  assumes "condition_ok target [] c" "tc_id ctx \<noteq> None"
  obtains t u where "evaluate_condition c ctx [] [] = Ok (t, u)"
proof -
  have "answers (evaluate_condition c ctx []) (meaning c ctx [])"
    using evaluate_means [of target "[]" c ctx] assms by simp
  from answersD [OF this, of "[]"] show thesis using that by blast
qed

lemma calm_preconditions:
  assumes "tc_id ctx \<noteq> None" "\<And>r. r \<in> set rules \<Longrightarrow> condition_ok True [] (rule_condition r)"
  shows "calm (check_preconditions name rules ctx)"
  using assms(2)
proof (induction rules)
  case (Cons r rules)
  obtain t u where "evaluate_condition (rule_condition r) ctx [] [] = Ok (t, u)"
    using evaluated [OF Cons.prems assms(1)] by auto
  with Cons show ?case by (cases t) auto
qed simp

lemma calm_invariants:
  assumes "tc_id ctx \<noteq> None" "\<And>r. r \<in> set rules \<Longrightarrow> condition_ok True [] (rule_condition r)"
  shows "calm (invariants_hold rules ctx)"
  using assms(2)
proof (induction rules)
  case (Cons r rules)
  obtain t u where "evaluate_condition (rule_condition r) ctx [] [] = Ok (t, u)"
    using evaluated [OF Cons.prems assms(1)] by auto
  with Cons show ?case by (cases t) auto
qed simp

lemma calm_select_first:
  assumes "tc_id ctx \<noteq> None" "\<And>o' c. o' \<in> set outcomes \<Longrightarrow> od_when o' = Some c \<Longrightarrow> condition_ok False [] c"
  shows "calm (select_first command outcomes state ctx)"
  using assms(2)
proof (induction outcomes)
  case (Cons o' outcomes)
  show ?case
  proof (cases "od_when o'")
    case None
    with Cons show ?thesis by auto
  next
    case (Some c)
    then obtain t u where "evaluate_condition c ctx [] [] = Ok (t, u)"
      using evaluated [of False c ctx] Cons.prems [of o' c] assms(1) by auto
    with Some Cons show ?thesis by (cases t) auto
  qed
qed simp

lemma calm_admit [simp]: "calm (admit_state d op name o' state)"
  unfolding admit_state_def by (auto split: option.split)

section \<open>Fulfilments\<close>

definition asks :: "string \<Rightarrow> branch \<Rightarrow> core_error \<Rightarrow> bool" where
  "asks name selected e \<longleftrightarrow> (\<exists>r. br_fulfills selected = Some r \<and> r \<noteq> []
     \<and> e = FulfillmentRequired name (case br_name selected of Some n \<Rightarrow> n | None \<Rightarrow> []) (bt_keys r))"

text \<open>The one special answer of the fulfilment step asks for actions on the fields the branch leaves open.\<close>

lemma fulfil_special:
  assumes fields: "\<And>r. br_fulfills selected = Some r \<Longrightarrow> fst ` set r \<subseteq> fst ` set (os_fields (def_schema d))"
    and answer: "fulfil_fields d name selected fulfillments state = Err e" "special e"
  shows "asks name selected e \<and> fulfillments = None"
proof (cases "\<exists>r actions. br_fulfills selected = Some r \<and> r \<noteq> [] \<and> fulfillments = Some actions")
  case False
  with answer show ?thesis by (auto simp: fulfil_fields_def asks_def Let_def split: option.splits if_splits)
next
  case True
  then obtain r actions where r: "br_fulfills selected = Some r" "r \<noteq> []" "fulfillments = Some actions" by blast
  have step: "calm (fulfil_field d name outcome r entry st)"
    if keys: "set (bt_keys actions) \<subseteq> set (bt_keys r)" and entry: "entry \<in> set actions" for outcome entry st
  proof -
    obtain f a where fa: "entry = (f, a)" by force
    with entry keys have "f \<in> fst ` set r" by (force simp: bt_keys_def)
    moreover from this have "f \<in> fst ` set (os_fields (def_schema d))" using fields [OF r(1)] by blast
    ultimately obtain requirement target where "map_of r f = Some requirement" "map_of (os_fields (def_schema d)) f = Some target"
      by (metis map_of_eq_None_iff not_Some_eq)
    then show ?thesis
      by (cases st; cases a) (auto simp: fulfil_field_def fa intro!: calm_bind)
  qed
  have "set (bt_keys actions) \<subseteq> set (bt_keys r) \<or> difference (bt_keys actions) (bt_keys r) \<noteq> []"
    by (auto simp: difference_def filter_empty_conv)
  with r step have "calm (fulfil_fields d name selected fulfillments state)"
    by (auto simp: fulfil_fields_def Let_def intro!: calm_rfold)
  with answer show ?thesis by (simp add: calm_def)
qed

section \<open>Decisions and creations\<close>

text \<open>What the kernel needs of \<open>serde_json\<close>: a definition serializes, and reads back with its keys sorted.\<close>

definition snapshots :: "serde \<Rightarrow> entity_definition \<Rightarrow> bool" where
  "snapshots S d \<longleftrightarrow> (\<exists>v. sd_to_value S d = Some v \<and> sd_from_value S (canonicalize v) \<noteq> None)"

lemma calm_snapshot: "snapshots S d \<Longrightarrow> calm (definition_snapshot S d)"
  by (auto simp: snapshots_def definition_snapshot_def)

lemma operation_context_id [simp]: "tc_id (operation_context d i op args m state) = Some (in_id i)"
  by (simp add: operation_context_def)

lemma registered_guard:
  assumes "registered d" "(name, op) \<in> set (def_operations d)" "o' \<in> set (op_outcomes op)" "od_when o' = Some c"
  shows "condition_ok False [] c"
  using registered_selectors_ok [OF assms(1,2)] assms(3,4) by (force simp: selectors_ok_def list_all_iff)

lemma calm_select_branch:
  assumes "registered d" "(name, op) \<in> set (def_operations d)"
  shows "calm (select_branch d i op name args)"
  unfolding select_branch_def select_outcome_def
  by (auto intro!: calm_bind calm_select_first registered_guard [OF assms])

lemma registered_fulfils:
  assumes "registered d" "(name, op) \<in> set (def_operations d)" "select_branch d i op name args = Ok selected"
    and "br_fulfills selected = Some r"
  shows "fst ` set r \<subseteq> fst ` set (os_fields (def_schema d))"
  using assms(3)
proof (cases rule: select_branch_cases)
  case (outcome o' p)
  have d: "validate_definition d = []" using assms(1) by (simp add: registered_def)
  show ?thesis
    using validate_fulfillment_disjoint(3) [OF validate_operation_outcome_Nil(4) [OF registered_branch(3) [OF d assms(2) outcome(5)]]]
      assms(4) outcome(2) by simp
qed (use assms(4) in simp)

lemma accept_special:
  assumes "registered d" "(name, op) \<in> set (def_operations d)" "snapshots S d"
    and "select_branch d i op name args = Ok selected"
    and answer: "accept_branch S d i op name args fulfillments check selected = Err e" "special e"
  shows "asks name selected e \<and> fulfillments = None"
proof (rule ccontr)
  assume contrary: "\<not> (asks name selected e \<and> fulfillments = None)"
  have fulfil: "spared e (fulfil_fields d name selected fulfillments state)" for state
    unfolding spared_def using fulfil_special [OF registered_fulfils [OF assms(1,2,4)] _ answer(2)] contrary by blast
  note calm = spared_calm [OF answer(2)]
  have rules: "calm (check_preconditions name (op_preconditions op) (operation_context d i op args fs st))"
    "calm (invariants_hold (def_invariants d) (operation_context d i op args fs st))" for fs st
    by (rule calm_preconditions calm_invariants; simp add: registered_rules_ok [OF assms(1)] registered_rules_ok(2) [OF assms(1,2)])+
  have "spared e (accept_branch S d i op name args fulfillments check selected)"
    unfolding accept_branch_def Let_def check_invariants_def split_beta
    by (intro spared_bind spared_option fulfil calm [OF rules(1)] calm [OF rules(2)] calm [OF calm_snapshot]
        calm [OF calm_rmap] assms(3) calm [OF calm_assign_fields]
        calm [OF calm_validated] calm [OF calm_revision] calm [OF calm_mirror] calm [OF calm_event] calm [OF calm_response]
        calm_event spared_Ok)
  with answer show False by (simp add: spared_def)
qed

text \<open>Every special answer of a decision asks for the actions the selected branch leaves to the host.\<close>

lemma decide_special:
  assumes "registered d" "snapshots S d"
    and answer: "decide_with_fulfillments S d i name arguments fulfillments check = Err e" "special e"
  obtains op args selected where "map_of (def_operations d) name = Some op" "normalize_arguments d name arguments = Ok args"
    "select_branch d i op name args = Ok selected" "asks name selected e" "fulfillments = None"
proof -
  have calm: "r = Err e \<Longrightarrow> calm r \<Longrightarrow> False" for r :: "'a core_result"
    using answer(2) by (simp add: calm_def)
  obtain op where op: "map_of (def_operations d) name = Some op"
    using answer by (auto simp: decide_with_fulfillments_def res_simps dest: calmD [OF calm_match])
  then have mem: "(name, op) \<in> set (def_operations d)" by (rule map_of_SomeD)
  obtain args where args: "normalize_arguments d name arguments = Ok args"
    using answer op by (auto simp: decide_with_fulfillments_def res_simps dest: calmD [OF calm_match] calmD [OF calm_normalize])
  obtain selected where sel: "select_branch d i op name args = Ok selected"
    using answer op args calmD [OF calm_select_branch [OF assms(1) mem]]
    by (auto simp: decide_with_fulfillments_def res_simps dest: calmD [OF calm_match])
  have "accept_branch S d i op name args fulfillments check selected = Err e"
    using answer op args sel
    by (auto simp: decide_with_fulfillments_def res_simps dest: calmD [OF calm_match] split: option.splits)
  from accept_special [OF assms(1) mem assms(2) sel this answer(2)] that [OF op args sel] show thesis by blast
qed

lemma selected_of_name:
  assumes "distinct (map od_name os)" "p \<in> set os"
  shows "List.find (\<lambda>o'. od_name o' = od_name p) os = Some p"
  using assms by (induction os) force+

lemma registered_names_distinct:
  assumes "registered d" "(name, op) \<in> set (def_operations d)"
  shows "distinct (map od_name (op_outcomes op))"
proof (cases "op_outcomes op")
  case (Cons o' os)
  have d: "validate_definition d = []" using assms(1) by (simp add: registered_def)
  have "has_service_semantics (def_semantics d)" using service_branches(2) [OF d assms(2)] Cons by auto
  from validate_operation_Nil(2) [OF validate_definition_Nil(10) [OF d assms(2)] this]
  show ?thesis unfolding validate_outcomes_def Let_def append_is_Nil_conv by (auto dest: outcomes_loop_names)
qed simp

text \<open>The requirements the continuation offers are those of the branch that was selected.\<close>

lemma selection_requirements:
  assumes "registered d" "snapshots S d" "po_definition p = d"
    and select: "select_with S p i = Ok (NeedsFulfillment prepared)"
  obtains op args o' where "(po_operation p, op) \<in> set (def_operations d)"
    "normalize_arguments d (po_operation p) (JObject (po_arguments p)) = Ok args"
    "select_branch d i op (po_operation p) args = Ok (branch_outcome o' (in_state i))" "o' \<in> set (op_outcomes op)"
    "od_fulfills o' \<noteq> []" "requirements prepared = Ok (od_fulfills o')"
proof -
  from select obtain n outcome keys where
    e: "decide_with_fulfillments S d i (po_operation p) (JObject (po_arguments p)) None (po_response_check p)
        = Err (FulfillmentRequired n outcome keys)"
    and prepared: "pc_definition prepared = d" "pc_operation prepared = po_operation p" "pc_outcome prepared = outcome"
    by (auto simp: select_with_def assms(3) res_simps split: sum.splits core_error.splits)
  from decide_special [OF assms(1,2) e] obtain op args selected where
    op: "map_of (def_operations d) (po_operation p) = Some op" and args: "normalize_arguments d (po_operation p) (JObject (po_arguments p)) = Ok args"
    and sel: "select_branch d i op (po_operation p) args = Ok selected"
    and asks: "asks (po_operation p) selected (FulfillmentRequired n outcome keys)" by auto
  from sel show thesis
  proof (cases rule: select_branch_cases)
    case (outcome o' q)
    from asks outcome(2) have q: "od_fulfills q \<noteq> []" "pc_outcome prepared = od_name q"
      by (auto simp: asks_def prepared)
    from op have "requirements prepared = Ok (od_fulfills q)"
      using selected_of_name [OF registered_names_distinct [OF assms(1) map_of_SomeD [OF op]] outcome(5)]
      by (simp add: requirements_def prepared(1,2) q(2))
    then show thesis using that [OF map_of_SomeD [OF op] args] sel outcome(2,5) q(1) by blast
  next
    case (transition t)
    with asks show thesis by (simp add: asks_def)
  qed
qed

text \<open>A creation at a supplied address never panics and never asks for actions.\<close>

lemma create_context_id [simp]: "tc_id (create_context d (Some i) args schema m) = Some i"
  by (simp add: create_context_def)

lemma registered_create_guard:
  assumes "registered d" "o' \<in> set (cd_outcomes (def_create d))" "od_when o' = Some c"
  shows "condition_ok False [] c"
proof -
  have d: "validate_definition d = []" using assms(1) by (simp add: registered_def)
  from validate_selector_ok [OF validate_create_outcome_Nil(2) [OF registered_create_branch(3) [OF d assms(2)]] assms(3)]
  show ?thesis by (simp add: reads_target_def)
qed

lemma calm_create:
  assumes "registered d" "snapshots S d"
  shows "calm (decide_create_as S d i input check)"
proof -
  have rules: "calm (invariants_hold (def_invariants d) (create_context d (Some j) args schema m))" for j args schema m
    by (rule calm_invariants) (simp_all add: registered_rules_ok(1) [OF assms(1)])
  have guards: "calm (select_outcome name (cd_outcomes (def_create d)) state (create_context d (Some i) args schema m))"
    for name state args schema m
    unfolding select_outcome_def by (rule calm_select_first) (auto intro: registered_create_guard [OF assms(1)])
  have branch: "calm (created_branch_fields d o' ctx args)" for o' ctx args
    unfolding created_branch_fields_def Let_def split_beta by (intro calm_bind calm_rfold) simp_all
  have "calm (finish_service_create S d (Some i) args o' object check)" for args o' object
    unfolding finish_service_create_def Let_def check_invariants_def
    by (intro calm_bind calm_rmap calm_event) (simp_all add: rules calm_snapshot [OF assms(2)])
  note finish = this
  have "calm (service_create S d (Some i) input check)"
    unfolding service_create_def Let_def
    by (intro calm_bind calm_option guards branch finish) simp_all
  moreover have "calm (create_from_fields S d i input)"
    unfolding create_from_fields_def Let_def check_invariants_def
    by (intro calm_bind calm_option) (simp_all add: rules calm_snapshot [OF assms(2)])
  ultimately show ?thesis by (simp add: decide_create_as_def blank_identity_def)
qed

end
