(* ===== verification/Registry.thy ===== *)
theory Registry
  imports Panics
begin

text \<open>
  The registry of \<open>entity-core/src/registry.rs\<close>: validated definitions by entity and version, the questions
  only the whole set answers, and the kernel over a registry (\<open>Runtime\<close> of \<open>runtime.rs\<close>). A
  \<open>ValidatedDefinition\<close> is a definition that \<open>validate_new\<close> let through.
\<close>

section \<open>Validated definitions by entity and version\<close>

type_synonym registry = "((32 word, entity_definition) btree) smap"

definition validate_new :: "entity_definition \<Rightarrow> (definition_error list, entity_definition) result" where
  "validate_new d = (if validate_definition d = [] then Ok d else Err (validate_definition d))"

definition registry_get :: "registry \<Rightarrow> string \<Rightarrow> 32 word \<Rightarrow> entity_definition option" where
  "registry_get R entity version = Option.bind (bt_get R entity) (\<lambda>vs. bt_get vs version)"

definition registry_replace :: "entity_definition \<Rightarrow> registry \<Rightarrow> (definition_error list, registry) result" where
  "registry_replace definition R =
     rbind (validate_new definition) (\<lambda>d.
     let versions = (case bt_get R (def_entity d) of Some vs \<Rightarrow> vs | None \<Rightarrow> []) in
     Ok (bt_insert (def_entity d) (bt_insert (def_version d) d versions) R))"

definition registry_register :: "entity_definition \<Rightarrow> registry \<Rightarrow> (definition_error list, registry) result" where
  "registry_register d R =
     (if registry_get R (def_entity d) (def_version d) \<noteq> None
      then Err [DuplicateDefinition (def_entity d) (def_version d)]
      else registry_replace d R)"

definition registry_versions :: "registry \<Rightarrow> string \<Rightarrow> entity_definition list" where
  "registry_versions R entity = (case bt_get R entity of Some vs \<Rightarrow> bt_values vs | None \<Rightarrow> [])"

definition registry_iter :: "registry \<Rightarrow> entity_definition list" where
  "registry_iter R = concat (map bt_values (bt_values R))"

definition registry_len :: "registry \<Rightarrow> nat" where
  "registry_len R = sum_list (map length (bt_values R))"

definition registry_is_empty :: "registry \<Rightarrow> bool" where
  "registry_is_empty R \<longleftrightarrow> list_all (\<lambda>vs. vs = []) (bt_values R)"

text \<open>\<open>values().next_back()\<close>.\<close>

definition registry_latest :: "registry \<Rightarrow> string \<Rightarrow> entity_definition option" where
  "registry_latest R entity = Option.bind (bt_get R entity) (\<lambda>vs. if vs = [] then None else Some (last (bt_values vs)))"

section \<open>References between entity types\<close>

function collect_field_targets :: "field_definition \<Rightarrow> string \<Rightarrow> (string \<times> string) list" where
  "collect_field_targets f path =
     (if fd_kind f = KRef then (case fd_entity f of Some target \<Rightarrow> [(path, target)] | None \<Rightarrow> []) else [])
     @ (case fd_items f of Some items \<Rightarrow> collect_field_targets items (path @ ''[]'') | None \<Rightarrow> [])
     @ concat (map (\<lambda>(name, g). collect_field_targets g (path @ ''.'' @ name)) (fd_properties f))"
  by pat_completeness auto
termination
  by (relation "measure (\<lambda>(f, _). size f)") (auto simp: size_fd_items size_fd_properties)

declare collect_field_targets.simps [simp del]

definition collect_targets :: "object_schema \<Rightarrow> string \<Rightarrow> (string \<times> string) list" where
  "collect_targets schema path = concat (map (\<lambda>(name, f). collect_field_targets f (path @ ''.'' @ name)) (os_fields schema))"

definition relation_targets :: "entity_definition \<Rightarrow> (string \<times> string) list" where
  "relation_targets d = collect_targets (def_schema d) ''schema''
     @ concat (map (\<lambda>(name, op). collect_targets (op_arguments op) (''operations.'' @ name @ ''.arguments'')) (def_operations d))"

function same_carried_kind :: "field_definition \<Rightarrow> field_definition \<Rightarrow> bool" where
  "same_carried_kind carrier identity \<longleftrightarrow>
     (if fd_kind carrier \<noteq> fd_kind identity then False
      else if fd_kind carrier \<noteq> KArray then True
      else (case (fd_items carrier, fd_items identity) of
          (Some carried_items, Some declared) \<Rightarrow> same_carried_kind carried_items declared
        | _ \<Rightarrow> False))"
  by pat_completeness auto
termination
  by (relation "measure (\<lambda>(f, _). size f)") (auto simp: size_fd_items)

declare same_carried_kind.simps [simp del]

function describe_carried_kind :: "field_definition \<Rightarrow> string" where
  "describe_carried_kind f =
     (if fd_kind f \<noteq> KArray then kind_as_str (fd_kind f)
      else (case fd_items f of
          Some items \<Rightarrow> ''array of '' @ describe_carried_kind items
        | None \<Rightarrow> ''array with no declared element kind''))"
  by pat_completeness auto
termination
  by (relation "measure size") (auto simp: size_fd_items)

declare describe_carried_kind.simps [simp del]

definition owns_carrier_is_one_value :: message where
  "owns_carrier_is_one_value = plain ''it is an array field, and an owner's identity is one value whether the owner has one of these or a thousand''"

definition owns_carrier_detail :: "field_definition \<Rightarrow> field_definition \<Rightarrow> message" where
  "owns_carrier_detail f declared =
     (if fd_kind f = KArray \<and> fd_kind declared \<noteq> KArray then owns_carrier_is_one_value
      else Msg ''it carries {}, and the owner's identity is {}''
        [ArgText (describe_carried_kind f), ArgText (describe_carried_kind declared)])"

definition identity_declared :: "entity_definition \<Rightarrow> field_definition option" where
  "identity_declared d = Option.bind (def_identity d) (\<lambda>identity. bt_get (os_fields (def_schema d)) (id_field identity))"

definition references_carrier_defects :: "entity_definition \<Rightarrow> entity_definition \<Rightarrow> string \<Rightarrow> relation_definition
    \<Rightarrow> definition_error list" where
  "references_carrier_defects d target name relation =
     (case (def_identity target, identity_declared target, bt_get (os_fields (def_schema d)) (rel_via relation)) of
        (Some identity, Some expected, Some f) \<Rightarrow>
          let wrong = (\<lambda>expected_detail. [RelationViaWrongShape name (rel_via relation)
                (''a carrier of '' @ expected_detail @ '', derived from the target's identity field '' @ def_entity target @ ''.'' @ id_field identity)
                (Msg ''a carrier of {}'' [ArgText (describe_carried_kind f)])])
          in (case rel_cardinality relation of
              CardinalityOne \<Rightarrow>
                if same_carried_kind f expected then [] else wrong (describe_carried_kind expected)
            | CardinalityMany \<Rightarrow>
                if fd_kind f \<noteq> KArray then []
                else if (case fd_items f of Some items \<Rightarrow> same_carried_kind items expected | None \<Rightarrow> False) then []
                else wrong (''array of '' @ describe_carried_kind expected))
      | _ \<Rightarrow> [])"

section \<open>Declared relations\<close>

record relation_claims =
  rc_owners :: "(string \<times> string) smap"
  rc_carriers :: "(string \<times> string, string \<times> string) btree"

definition claim :: "string \<Rightarrow> string \<Rightarrow> string \<Rightarrow> relation_claims \<Rightarrow> definition_error list \<times> relation_claims" where
  "claim entity field relation claims = (case bt_get (rc_carriers claims) (entity, field) of
     Some (_, first) \<Rightarrow> ([RelationFieldClaimedTwice entity field first relation], claims)
   | None \<Rightarrow> ([], claims\<lparr>rc_carriers := bt_insert (entity, field) (entity, relation) (rc_carriers claims)\<rparr>))"

definition claim_owner :: "string \<Rightarrow> string \<Rightarrow> string \<Rightarrow> relation_claims \<Rightarrow> definition_error list \<times> relation_claims" where
  "claim_owner target owner name claims = (case bt_get (rc_owners claims) target of
     Some (first, _) \<Rightarrow> ([RelationSecondOwner target first owner], claims)
   | None \<Rightarrow> ([], claims\<lparr>rc_owners := bt_insert target (owner, name) (rc_owners claims)\<rparr>))"

text \<open>The carrier of an \<open>owns\<close> relation: a required field of the target, of the owner's identity kind.\<close>

definition owns_carrier_defects :: "entity_definition \<Rightarrow> entity_definition \<Rightarrow> string \<Rightarrow> relation_definition
    \<Rightarrow> definition_error list" where
  "owns_carrier_defects d target name relation =
     (let wrong = RelationCarrierWrong (def_entity d) name (rel_via relation) in
      case bt_get (os_fields (def_schema target)) (rel_via relation) of
        None \<Rightarrow> [wrong (Msg ''{} declares no such field'' [ArgText (def_entity target)])]
      | Some f \<Rightarrow>
          (if \<not> fd_required f then [RelationCarrierOptionality name (rel_via relation)] else [])
          @ (case identity_declared d of
              Some declared \<Rightarrow> if \<not> same_carried_kind f declared then [wrong (owns_carrier_detail f declared)] else []
            | None \<Rightarrow> if fd_kind f = KArray then [wrong owns_carrier_is_one_value] else []))"

definition relation_step :: "registry \<Rightarrow> entity_definition \<times> string \<times> relation_definition \<Rightarrow> relation_claims
    \<Rightarrow> definition_error list \<times> relation_claims" where
  "relation_step R declared claims = (case declared of (d, name, relation) \<Rightarrow>
     (case registry_latest R (rel_target relation) of
        None \<Rightarrow> ([RelationTargetMissing (def_entity d) name (rel_target relation)], claims)
      | Some target \<Rightarrow>
          if rel_kind relation = References then
            (case claim (def_entity d) (rel_via relation) name claims of (defects, claims) \<Rightarrow>
               (defects @ references_carrier_defects d target name relation, claims))
          else
            (case claim_owner (def_entity target) (def_entity d) name claims of (owned, claims) \<Rightarrow>
            (case claim (def_entity target) (rel_via relation) name claims of (claimed, claims) \<Rightarrow>
               (owned @ claimed @ owns_carrier_defects d target name relation, claims)))))"

fun relation_loop :: "registry \<Rightarrow> (entity_definition \<times> string \<times> relation_definition) list \<Rightarrow> relation_claims
    \<Rightarrow> definition_error list" where
  "relation_loop R [] claims = []"
| "relation_loop R (declared # rest) claims =
     (case relation_step R declared claims of (defects, claims) \<Rightarrow> defects @ relation_loop R rest claims)"

definition declared_relations :: "registry \<Rightarrow> (entity_definition \<times> string \<times> relation_definition) list" where
  "declared_relations R = concat (map (\<lambda>d. map (\<lambda>(name, relation). (d, name, relation)) (def_relations d)) (registry_iter R))"

definition declared_relation_defects :: "registry \<Rightarrow> definition_error list" where
  "declared_relation_defects R = relation_loop R (declared_relations R) \<lparr>rc_owners = [], rc_carriers = []\<rparr>"

definition validate_all :: "registry \<Rightarrow> definition_error list" where
  "validate_all R =
     concat (map (\<lambda>d. concat (map (\<lambda>(path, target).
         if \<not> bt_contains R target then [UnknownRelationTarget (def_entity d) path target] else []) (relation_targets d)))
       (registry_iter R))
     @ declared_relation_defects R"

section \<open>The kernel over a registry\<close>

definition runtime_definition :: "registry \<Rightarrow> string \<Rightarrow> 32 word \<Rightarrow> entity_definition core_result" where
  "runtime_definition R entity version = ok_or (registry_get R entity version) (EntityNotRegistered entity version)"

definition runtime_create :: "serde \<Rightarrow> registry \<Rightarrow> string \<Rightarrow> 32 word \<Rightarrow> string \<Rightarrow> json \<Rightarrow> decision core_result" where
  "runtime_create S R entity version i fields' =
     rbind (runtime_definition R entity version) (\<lambda>d. create S d i fields')"

definition runtime_create_derived :: "serde \<Rightarrow> registry \<Rightarrow> string \<Rightarrow> 32 word \<Rightarrow> json \<Rightarrow> decision core_result" where
  "runtime_create_derived S R entity version input =
     rbind (runtime_definition R entity version) (\<lambda>d. create_derived S d input)"

definition runtime_execute :: "serde \<Rightarrow> registry \<Rightarrow> entity_instance \<Rightarrow> string \<Rightarrow> json \<Rightarrow> decision core_result" where
  "runtime_execute S R i operation_name arguments =
     rbind (runtime_definition R (in_entity i) (in_version i)) (\<lambda>d. execute S d i operation_name arguments)"

definition runtime_decide_create :: "serde \<Rightarrow> registry \<Rightarrow> string \<Rightarrow> 32 word \<Rightarrow> string \<Rightarrow> json \<Rightarrow> kernel_answer core_result" where
  "runtime_decide_create S R entity version i input =
     rbind (runtime_definition R entity version) (\<lambda>d. decide_create S d i input)"

definition runtime_decide_create_derived :: "serde \<Rightarrow> registry \<Rightarrow> string \<Rightarrow> 32 word \<Rightarrow> json \<Rightarrow> kernel_answer core_result" where
  "runtime_decide_create_derived S R entity version input =
     rbind (runtime_definition R entity version) (\<lambda>d. decide_create_derived S d input)"

definition runtime_decide :: "serde \<Rightarrow> registry \<Rightarrow> entity_instance \<Rightarrow> string \<Rightarrow> json \<Rightarrow> kernel_answer core_result" where
  "runtime_decide S R i operation_name arguments =
     rbind (runtime_definition R (in_entity i) (in_version i)) (\<lambda>d. decide S d i operation_name arguments)"

definition runtime_decide_before_load :: "registry \<Rightarrow> string \<Rightarrow> 32 word \<Rightarrow> string \<Rightarrow> string \<Rightarrow> json \<Rightarrow> preload_decision core_result" where
  "runtime_decide_before_load R entity version expected_id operation_name arguments =
     rbind (runtime_definition R entity version) (\<lambda>d. decide_before_load d expected_id operation_name arguments)"

end
