(* ===== verification/Keyed.thy ===== *)
theory Keyed
  imports Registry
begin

text \<open>
  The contract two components keep: what was put last under a key is what is found there. The registry keeps
  it for definitions by entity and version, the memory store for instances by entity and identity. The laws
  of a sequence of writes are proved once, in the locale.
\<close>

locale keyed_store =
  fixes get :: "'s \<Rightarrow> 'k \<Rightarrow> 'v option"
    and put :: "'c \<Rightarrow> 's \<Rightarrow> ('e, 's) result"
    and key :: "'c \<Rightarrow> 'k"
    and stored :: "'c \<Rightarrow> 'v"
    and inv :: "'s \<Rightarrow> bool"
  assumes inv_put: "inv s \<Longrightarrow> put c s = Ok s' \<Longrightarrow> inv s'"
    and get_put: "inv s \<Longrightarrow> put c s = Ok s' \<Longrightarrow> get s' k = (if k = key c then Some (stored c) else get s k)"
begin

lemma inv_puts: "rfold put cs s = Ok s' \<Longrightarrow> inv s \<Longrightarrow> inv s'"
  by (rule rfold_invariant [where P = inv]) (auto intro: inv_put)

definition last_put :: "'c list \<Rightarrow> 'k \<Rightarrow> 'v option" where
  "last_put cs k = map_option stored (List.find (\<lambda>c. key c = k) (rev cs))"

lemma find_append: "List.find P (xs @ ys) = (case List.find P xs of Some x \<Rightarrow> Some x | None \<Rightarrow> List.find P ys)"
  by (induction xs) simp_all

lemma get_puts:
  "rfold put cs s = Ok s' \<Longrightarrow> inv s \<Longrightarrow> get s' k = (case last_put cs k of Some v \<Rightarrow> Some v | None \<Rightarrow> get s k)"
proof (induction cs arbitrary: s)
  case (Cons c cs)
  then obtain t where t: "put c s = Ok t" "rfold put cs t = Ok s'" by (auto simp: res_simps)
  from Cons.IH [OF t(2) inv_put [OF Cons.prems(2) t(1)]] get_put [OF Cons.prems(2) t(1)]
  show ?case by (auto simp: last_put_def find_append split: option.split)
qed (simp add: last_put_def)

text \<open>A key nothing was put under keeps what it had.\<close>

lemma get_puts_frame:
  assumes "rfold put cs s = Ok s'" "inv s" "k \<notin> key ` set cs"
  shows "get s' k = get s k"
proof -
  have "List.find (\<lambda>c. key c = k) (rev cs) = None" using assms(3) by (auto simp: find_None_iff)
  with get_puts [OF assms(1,2), of k] show ?thesis by (simp add: last_put_def)
qed

text \<open>Everything found was put or was there before.\<close>

lemma get_puts_source:
  assumes "rfold put cs s = Ok s'" "inv s" "get s' k = Some v"
  shows "v \<in> stored ` set cs \<or> get s k = Some v"
proof (cases "List.find (\<lambda>c. key c = k) (rev cs)")
  case None
  with get_puts [OF assms(1,2), of k] assms(3) show ?thesis by (simp add: last_put_def)
next
  case (Some c)
  then have "c \<in> set cs" by (metis find_Some_iff nth_mem set_rev)
  with Some get_puts [OF assms(1,2), of k] assms(3) show ?thesis by (auto simp: last_put_def)
qed

end

section \<open>The registry keeps it\<close>

text \<open>What every registry built by \<open>register\<close> and \<open>replace\<close> is: ordered, each definition under its own entity and
  version, each of them without defects, and no entity without a version.\<close>

definition registry_ok :: "registry \<Rightarrow> bool" where
  "registry_ok R \<longleftrightarrow> sorted_keys R \<and> list_all (\<lambda>(entity, vs). sorted_keys vs \<and> vs \<noteq> []
     \<and> list_all (\<lambda>(version, d). def_entity d = entity \<and> def_version d = version \<and> validate_definition d = []) vs) R"

definition registry_key :: "entity_definition \<Rightarrow> string \<times> 32 word" where
  "registry_key d = (def_entity d, def_version d)"

abbreviation registry_lookup :: "registry \<Rightarrow> string \<times> 32 word \<Rightarrow> entity_definition option" where
  "registry_lookup R k \<equiv> registry_get R (fst k) (snd k)"

lemma bt_insert_members: "set (bt_insert k v m) \<subseteq> insert (k, v) (set m)"
  by (induction k v m rule: bt_insert.induct) auto

lemma registry_replace_Ok:
  "registry_replace d R = Ok R' \<longleftrightarrow> validate_definition d = [] \<and>
     R' = bt_insert (def_entity d) (bt_insert (def_version d) d (case bt_get R (def_entity d) of Some vs \<Rightarrow> vs | None \<Rightarrow> [])) R"
  by (auto simp: registry_replace_def validate_new_def Let_def)

definition versions_ok :: "string \<Rightarrow> (32 word, entity_definition) btree \<Rightarrow> bool" where
  "versions_ok entity vs \<longleftrightarrow> sorted_keys vs \<and> (\<forall>version d. (version, d) \<in> set vs \<longrightarrow>
     def_entity d = entity \<and> def_version d = version \<and> validate_definition d = [])"

lemma registry_ok_alt:
  "registry_ok R \<longleftrightarrow> sorted_keys R \<and> (\<forall>entity vs. (entity, vs) \<in> set R \<longrightarrow> versions_ok entity vs \<and> vs \<noteq> [])"
  by (auto simp: registry_ok_def versions_ok_def list_all_iff)

lemma registry_ok_entity:
  assumes "registry_ok R" "bt_get R entity = Some vs"
  shows "sorted_keys vs" "vs \<noteq> []" "(version, d) \<in> set vs \<Longrightarrow> def_entity d = entity \<and> def_version d = version \<and> validate_definition d = []"
  using assms by (auto simp: registry_ok_alt versions_ok_def dest: map_of_SomeD)

lemma versions_ok_insert:
  "versions_ok (def_entity d) vs \<Longrightarrow> validate_definition d = [] \<Longrightarrow> versions_ok (def_entity d) (bt_insert (def_version d) d vs)"
  using bt_insert_members [of "def_version d" d vs] by (auto simp: versions_ok_def)

lemma registry_ok_replace:
  assumes "registry_ok R" "registry_replace d R = Ok R'"
  shows "registry_ok R'"
proof -
  let ?old = "case bt_get R (def_entity d) of Some vs \<Rightarrow> vs | None \<Rightarrow> []"
  let ?new = "bt_insert (def_version d) d ?old"
  have d: "validate_definition d = []" and R': "R' = bt_insert (def_entity d) ?new R"
    using assms(2) by (simp_all add: registry_replace_Ok)
  have "versions_ok (def_entity d) ?old"
    using registry_ok_entity [OF assms(1)] by (auto simp: versions_ok_def split: option.split)
  then have new: "versions_ok (def_entity d) ?new" using d by (rule versions_ok_insert)
  have "versions_ok entity vs \<and> vs \<noteq> []" if "(entity, vs) \<in> set R'" for entity vs
  proof (cases "(entity, vs) = (def_entity d, ?new)")
    case True
    then show ?thesis using new by simp
  next
    case False
    then have "(entity, vs) \<in> set R" using that bt_insert_members [of "def_entity d" ?new R] unfolding R' by blast
    with assms(1) show ?thesis unfolding registry_ok_alt by blast
  qed
  moreover have "sorted_keys R'" using assms(1) by (simp add: R' registry_ok_alt)
  ultimately show ?thesis by (simp add: registry_ok_alt)
qed

lemma registry_get_replace:
  assumes "registry_replace d R = Ok R'"
  shows "registry_get R' entity version = (if (entity, version) = registry_key d then Some d else registry_get R entity version)"
  using assms by (auto simp: registry_replace_Ok registry_get_def registry_key_def split: option.split)

interpretation reg: keyed_store registry_lookup registry_replace registry_key "\<lambda>d. d" registry_ok
  by unfold_locales (auto intro: registry_ok_replace simp: registry_get_replace)

lemma registry_register_Ok:
  "registry_register d R = Ok R' \<longleftrightarrow> registry_lookup R (registry_key d) = None \<and> registry_replace d R = Ok R'"
  by (auto simp: registry_register_def registry_key_def)

interpretation fresh: keyed_store registry_lookup registry_register registry_key "\<lambda>d. d" registry_ok
  by unfold_locales (auto simp: registry_register_Ok intro: reg.inv_put simp: registry_get_replace)

text \<open>Registering a list of definitions keeps every one of them, and every one registered before: none is ever
  replaced.\<close>

lemma registered_kept:
  "rfold registry_register ds R = Ok R' \<Longrightarrow> registry_ok R \<Longrightarrow> registry_lookup R k = Some d \<Longrightarrow> registry_lookup R' k = Some d"
proof (induction ds arbitrary: R)
  case (Cons e ds)
  then obtain Q where Q: "registry_register e R = Ok Q" "rfold registry_register ds Q = Ok R'" by (auto simp: res_simps)
  have "registry_lookup Q k = Some d"
    using Cons.prems(3) Q(1) fresh.get_put [OF Cons.prems(2) Q(1), of k] by (auto simp: registry_register_Ok)
  with Cons.IH Q fresh.inv_put [OF Cons.prems(2) Q(1)] show ?case by blast
qed simp

lemma registered_all:
  "rfold registry_register ds R = Ok R' \<Longrightarrow> registry_ok R \<Longrightarrow> d \<in> set ds \<Longrightarrow> registry_lookup R' (registry_key d) = Some d"
proof (induction ds arbitrary: R)
  case (Cons e ds)
  then obtain Q where Q: "registry_register e R = Ok Q" "rfold registry_register ds Q = Ok R'" by (auto simp: res_simps)
  have ok: "registry_ok Q" by (rule fresh.inv_put [OF Cons.prems(2) Q(1)])
  show ?case
  proof (cases "d = e")
    case True
    then show ?thesis using registered_kept [OF Q(2) ok] fresh.get_put [OF Cons.prems(2) Q(1)] by auto
  next
    case False
    with Cons.IH [OF Q(2) ok] Cons.prems(3) show ?thesis by simp
  qed
qed simp

lemma registry_get_ok:
  assumes "registry_ok R" "registry_get R entity version = Some d"
  shows "def_entity d = entity" "def_version d = version" "validate_definition d = []"
proof -
  obtain vs where vs: "bt_get R entity = Some vs" "bt_get vs version = Some d"
    using assms(2) by (auto simp: registry_get_def bind_eq_Some_conv)
  from registry_ok_entity(3) [OF assms(1) vs(1) map_of_SomeD [OF vs(2)]]
  show "def_entity d = entity" "def_version d = version" "validate_definition d = []" by simp_all
qed

text \<open>Iteration lists each registered definition once.\<close>

lemma registry_iter_iff:
  assumes "registry_ok R"
  shows "d \<in> set (registry_iter R) \<longleftrightarrow> registry_lookup R (registry_key d) = Some d"
proof
  assume "d \<in> set (registry_iter R)"
  then obtain entity vs version where m: "(entity, vs) \<in> set R" "(version, d) \<in> set vs"
    by (auto simp: registry_iter_def bt_values_def)
  have "bt_get R entity = Some vs"
    using m(1) assms by (simp add: registry_ok_def sorted_keys_distinct)
  moreover from registry_ok_entity [OF assms this] m(2) have "bt_get vs version = Some d" "def_entity d = entity" "def_version d = version"
    by (simp_all add: sorted_keys_distinct)
  ultimately show "registry_lookup R (registry_key d) = Some d" by (simp add: registry_get_def registry_key_def)
next
  assume "registry_lookup R (registry_key d) = Some d"
  then show "d \<in> set (registry_iter R)"
    by (force simp: registry_get_def registry_iter_def bt_values_def dest!: map_of_SomeD split: bind_splits)
qed

end
