(* ===== verification/Relations.thy ===== *)
theory Relations
  imports Keyed
begin

text \<open>
  What \<open>Registry::validate_all\<close> decides: it reports nothing exactly for a registry that is coherent as a set,
  every reference and every relation with a registered target, every carrier of the kind it stands for, no
  carrier claimed twice and no entity owned twice.
\<close>

section \<open>The coherent registries\<close>

definition registered_entity :: "registry \<Rightarrow> string \<Rightarrow> bool" where
  "registered_entity R entity \<longleftrightarrow> (\<exists>version. registry_get R entity version \<noteq> None)"

text \<open>The document a relation's target names: the highest registered version.\<close>

definition newest :: "registry \<Rightarrow> string \<Rightarrow> entity_definition \<Rightarrow> bool" where
  "newest R entity d \<longleftrightarrow> registry_get R entity (def_version d) = Some d
     \<and> (\<forall>version e. registry_get R entity version = Some e \<longrightarrow> version \<le> def_version d)"

text \<open>A carrier is the entity and the field that carries the relation.\<close>

fun carrier_of :: "entity_definition \<times> string \<times> relation_definition \<Rightarrow> string \<times> string" where
  "carrier_of (d, name, r) = (if rel_kind r = References then def_entity d else rel_target r, rel_via r)"

fun owning :: "entity_definition \<times> string \<times> relation_definition \<Rightarrow> bool" where
  "owning (d, name, r) \<longleftrightarrow> rel_kind r \<noteq> References"

fun owned_entity :: "entity_definition \<times> string \<times> relation_definition \<Rightarrow> string" where
  "owned_entity (d, name, r) = rel_target r"

definition carrier_fits :: "entity_definition \<Rightarrow> entity_definition \<Rightarrow> relation_definition \<Rightarrow> bool" where
  "carrier_fits d target r \<longleftrightarrow>
     (if rel_kind r = References then
        (\<forall>expected f. identity_declared target = Some expected \<longrightarrow> bt_get (os_fields (def_schema d)) (rel_via r) = Some f \<longrightarrow>
           (case rel_cardinality r of
              CardinalityOne \<Rightarrow> same_carried_kind f expected
            | CardinalityMany \<Rightarrow> fd_kind f = KArray \<longrightarrow> (\<exists>items. fd_items f = Some items \<and> same_carried_kind items expected)))
      else
        (\<exists>f. bt_get (os_fields (def_schema target)) (rel_via r) = Some f \<and> fd_required f \<and>
           (case identity_declared d of Some expected \<Rightarrow> same_carried_kind f expected | None \<Rightarrow> fd_kind f \<noteq> KArray)))"

fun relation_fits :: "registry \<Rightarrow> entity_definition \<times> string \<times> relation_definition \<Rightarrow> bool" where
  "relation_fits R (d, name, r) \<longleftrightarrow> (\<exists>target. newest R (rel_target r) target \<and> carrier_fits d target r)"

definition coherent :: "registry \<Rightarrow> bool" where
  "coherent R \<longleftrightarrow>
     (\<forall>d \<in> set (registry_iter R). \<forall>(path, target) \<in> set (relation_targets d). registered_entity R target)
   \<and> (\<forall>r \<in> set (declared_relations R). relation_fits R r)
   \<and> distinct (map carrier_of (declared_relations R))
   \<and> distinct (map owned_entity (filter owning (declared_relations R)))"

section \<open>The highest version\<close>

lemma sorted_last: "sorted_wrt (<) ks \<Longrightarrow> k \<in> set ks \<Longrightarrow> k \<le> last ks" for k :: "'k::linorder"
  by (induction ks) (auto simp: less_imp_le)

lemma bt_contains_registered: "registry_ok R \<Longrightarrow> bt_contains R entity \<longleftrightarrow> registered_entity R entity"
proof
  assume ok: "registry_ok R" and "bt_contains R entity"
  then obtain vs where vs: "bt_get R entity = Some vs" by (auto simp: bt_contains_def)
  from registry_ok_entity(2) [OF ok vs] obtain version d rest where "vs = (version, d) # rest" by (cases vs) auto
  then have "registry_get R entity version = Some d" by (simp add: registry_get_def vs)
  then show "registered_entity R entity" by (auto simp: registered_entity_def)
next
  assume "registered_entity R entity"
  then show "bt_contains R entity"
    by (auto simp: registered_entity_def registry_get_def bt_contains_def bind_eq_Some_conv)
qed

lemma registry_latest_iff:
  assumes "registry_ok R"
  shows "registry_latest R entity = Some d \<longleftrightarrow> newest R entity d"
proof (cases "bt_get R entity")
  case None
  then show ?thesis by (simp add: registry_latest_def newest_def registry_get_def)
next
  case (Some vs)
  note vs = registry_ok_entity [OF assms Some]
  have get: "registry_get R entity version = bt_get vs version" for version by (simp add: registry_get_def Some)
  have member: "bt_get vs version = Some e \<longleftrightarrow> (version, e) \<in> set vs" for version e
    using vs(1) by (simp add: sorted_keys_distinct)
  have "(fst (last vs), snd (last vs)) \<in> set vs" using vs(2) by simp
  then have top: "bt_get vs (fst (last vs)) = Some (snd (last vs))" "def_version (snd (last vs)) = fst (last vs)"
    using vs(3) member by blast+
  have highest: "version \<le> fst (last vs)" if "bt_get vs version = Some e" for version e
  proof -
    have "version \<in> set (map fst vs)" using that member by (force simp: image_iff)
    moreover have "sorted_wrt (<) (map fst vs)" using vs(1) by (simp add: sorted_keys_def)
    ultimately have "version \<le> last (map fst vs)" by (rule sorted_last [rotated])
    then show ?thesis using vs(2) by (simp add: last_map)
  qed
  have "newest R entity (snd (last vs))"
    using top highest by (auto simp: newest_def get)
  moreover have "d = snd (last vs)" if d: "newest R entity d"
  proof -
    have "fst (last vs) \<le> def_version d" using d top(1) by (auto simp: newest_def get)
    moreover have "def_version d \<le> fst (last vs)" using d highest by (auto simp: newest_def get)
    ultimately have "def_version d = fst (last vs)" by simp
    then show ?thesis using d top(1) by (simp add: newest_def get)
  qed
  ultimately show ?thesis
    using vs(2) by (auto simp: registry_latest_def Some bt_values_def last_map)
qed

lemma newest_entity: "registry_ok R \<Longrightarrow> newest R entity d \<Longrightarrow> def_entity d = entity"
  unfolding newest_def using registry_get_ok(1) by blast

section \<open>Carriers\<close>

lemma references_carrier_Nil:
  assumes "validate_identity target = []" "rel_kind r = References"
  shows "references_carrier_defects d target name r = [] \<longleftrightarrow> carrier_fits d target r"
  using assms
  by (auto simp: references_carrier_defects_def carrier_fits_def identity_declared_def Let_def
      split: option.splits cardinality.splits if_splits)

lemma owns_carrier_Nil:
  assumes "rel_kind r \<noteq> References"
  shows "owns_carrier_defects d target name r = [] \<longleftrightarrow> carrier_fits d target r"
  using assms by (auto simp: owns_carrier_defects_def carrier_fits_def Let_def split: option.splits if_splits)

section \<open>The claims\<close>

abbreviation claimed :: "relation_claims \<Rightarrow> (string \<times> string) set" where
  "claimed claims \<equiv> fst ` set (rc_carriers claims)"

abbreviation owned :: "relation_claims \<Rightarrow> string set" where
  "owned claims \<equiv> fst ` set (rc_owners claims)"

lemma key_none: "k \<notin> fst ` set m \<longleftrightarrow> bt_get m k = None"
  by (simp add: map_of_eq_None_iff)

lemma claim_Nil:
  "fst (claim entity field relation claims) = [] \<longleftrightarrow> (entity, field) \<notin> claimed claims"
  "rc_owners (snd (claim entity field relation claims)) = rc_owners claims"
  "(entity, field) \<notin> claimed claims \<Longrightarrow> claimed (snd (claim entity field relation claims)) = insert (entity, field) (claimed claims)"
  by (auto simp: claim_def key_none simp del: bt_contains_iff split: option.split)

lemma claim_owner_Nil:
  "fst (claim_owner target owner name claims) = [] \<longleftrightarrow> target \<notin> owned claims"
  "rc_carriers (snd (claim_owner target owner name claims)) = rc_carriers claims"
  "target \<notin> owned claims \<Longrightarrow> owned (snd (claim_owner target owner name claims)) = insert target (owned claims)"
  by (auto simp: claim_owner_def key_none split: option.split)

text \<open>One relation: it reports nothing exactly when it fits and claims what nobody claimed, and then its claims
  are the only ones it adds.\<close>

lemma relation_step_Nil:
  assumes ok: "registry_ok R"
  shows "fst (relation_step R r claims) = [] \<longleftrightarrow>
      relation_fits R r \<and> carrier_of r \<notin> claimed claims \<and> (owning r \<longrightarrow> owned_entity r \<notin> owned claims)"
    and "fst (relation_step R r claims) = [] \<Longrightarrow> claimed (snd (relation_step R r claims)) = insert (carrier_of r) (claimed claims)
      \<and> owned (snd (relation_step R r claims)) = (if owning r then insert (owned_entity r) (owned claims) else owned claims)"
proof -
  obtain d name rel where r: "r = (d, name, rel)" by (cases r) auto
  have both: "(fst (relation_step R r claims) = [] \<longleftrightarrow>
      relation_fits R r \<and> carrier_of r \<notin> claimed claims \<and> (owning r \<longrightarrow> owned_entity r \<notin> owned claims))
    \<and> (fst (relation_step R r claims) = [] \<longrightarrow> claimed (snd (relation_step R r claims)) = insert (carrier_of r) (claimed claims)
      \<and> owned (snd (relation_step R r claims)) = (if owning r then insert (owned_entity r) (owned claims) else owned claims))"
  proof (cases "registry_latest R (rel_target rel)")
    case None
    then have "\<not> relation_fits R r" by (auto simp: r registry_latest_iff [OF ok, symmetric])
    with None show ?thesis by (simp add: r relation_step_def)
  next
    case (Some target)
    then have new: "newest R (rel_target rel) target" by (simp add: registry_latest_iff [OF ok])
    have entity: "def_entity target = rel_target rel" by (rule newest_entity [OF ok new])
    have fits: "relation_fits R r \<longleftrightarrow> carrier_fits d target rel"
      using Some new by (auto simp: r registry_latest_iff [OF ok, symmetric])
    have valid: "validate_identity target = []"
      using registry_get_ok(3) [OF ok] new unfolding newest_def validate_definition_def by fastforce
    show ?thesis
    proof (cases "rel_kind rel = References")
      case True
      obtain defects after' where c: "claim (def_entity d) (rel_via rel) name claims = (defects, after')" by fastforce
      have step: "relation_step R r claims = (defects @ references_carrier_defects d target name rel, after')"
        by (simp add: r relation_step_def Some True c)
      have names: "carrier_of r = (def_entity d, rel_via rel)" "owning r = False" by (simp_all add: r True)
      from claim_Nil [where entity = "def_entity d" and field = "rel_via rel" and relation = name and claims = claims]
      show ?thesis unfolding step names fits c by (simp add: references_carrier_Nil [OF valid True]) blast
    next
      case False
      obtain o1 mid where c1: "claim_owner (def_entity target) (def_entity d) name claims = (o1, mid)" by fastforce
      obtain o2 after' where c2: "claim (def_entity target) (rel_via rel) name mid = (o2, after')" by fastforce
      have step: "relation_step R r claims = (o1 @ o2 @ owns_carrier_defects d target name rel, after')"
        by (simp add: r relation_step_def Some False c1 c2)
      have names: "carrier_of r = (def_entity target, rel_via rel)" "owning r = True" "owned_entity r = def_entity target"
        by (simp_all add: r False entity)
      from claim_owner_Nil [where target = "def_entity target" and owner = "def_entity d" and name = name and claims = claims]
        claim_Nil [where entity = "def_entity target" and field = "rel_via rel" and relation = name and claims = mid]
      show ?thesis unfolding step names fits c1 c2 by (simp add: owns_carrier_Nil [OF False]) blast
    qed
  qed
  then show "fst (relation_step R r claims) = [] \<longleftrightarrow>
      relation_fits R r \<and> carrier_of r \<notin> claimed claims \<and> (owning r \<longrightarrow> owned_entity r \<notin> owned claims)"
    and "fst (relation_step R r claims) = [] \<Longrightarrow> claimed (snd (relation_step R r claims)) = insert (carrier_of r) (claimed claims)
      \<and> owned (snd (relation_step R r claims)) = (if owning r then insert (owned_entity r) (owned claims) else owned claims)"
    by blast+
qed

lemma relation_loop_Nil:
  assumes ok: "registry_ok R"
  shows "relation_loop R rs claims = [] \<longleftrightarrow> (\<forall>r \<in> set rs. relation_fits R r)
     \<and> distinct (map carrier_of rs) \<and> set (map carrier_of rs) \<inter> claimed claims = {}
     \<and> distinct (map owned_entity (filter owning rs)) \<and> set (map owned_entity (filter owning rs)) \<inter> owned claims = {}"
proof (induction rs arbitrary: claims)
  case (Cons r rs)
  note step = relation_step_Nil [OF ok, of r claims]
  have "relation_loop R (r # rs) claims = [] \<longleftrightarrow>
      fst (relation_step R r claims) = [] \<and> relation_loop R rs (snd (relation_step R r claims)) = []"
    by (simp split: prod.split)
  also have "\<dots> \<longleftrightarrow> (\<forall>r \<in> set (r # rs). relation_fits R r)
     \<and> distinct (map carrier_of (r # rs)) \<and> set (map carrier_of (r # rs)) \<inter> claimed claims = {}
     \<and> distinct (map owned_entity (filter owning (r # rs))) \<and> set (map owned_entity (filter owning (r # rs))) \<inter> owned claims = {}"
  proof (cases "fst (relation_step R r claims) = []")
    case True
    with step have c: "claimed (snd (relation_step R r claims)) = insert (carrier_of r) (claimed claims)"
      "owned (snd (relation_step R r claims)) = (if owning r then insert (owned_entity r) (owned claims) else owned claims)" by blast+
    show ?thesis unfolding Cons.IH c using True step(1) by (cases "owning r") auto
  next
    case False
    with step(1) show ?thesis by auto
  qed
  finally show ?case .
qed simp

lemma targets_Nil:
  "(\<forall>x \<in> X. (case x of (path, target) \<Rightarrow> if \<not> P target then [f path target] else []) = []) \<longleftrightarrow> (\<forall>(path, target) \<in> X. P target)"
  by (auto split: if_splits)

theorem coherent_decided: "registry_ok R \<Longrightarrow> validate_all R = [] \<longleftrightarrow> coherent R"
  by (simp add: validate_all_def coherent_def declared_relation_defects_def relation_loop_Nil bt_contains_registered targets_Nil
      del: not_not split del: if_split) 

text \<open>Two registered versions of an entity that both declare a relation carried by one of its own fields claim that
  field twice, whatever else the registry holds: a registry in which versions coexist does not pass.\<close>

lemma coexisting_versions_clash:
  assumes ok: "registry_ok R"
    and first: "registry_get R entity v = Some d" "(name, r) \<in> set (def_relations d)" "rel_kind r = References"
    and second: "registry_get R entity w = Some e" "(name', r') \<in> set (def_relations e)" "rel_kind r' = References"
    and shared: "rel_via r = rel_via r'" "v \<noteq> w"
  shows "validate_all R \<noteq> []"
proof
  assume "validate_all R = []"
  then have once: "distinct (map carrier_of (declared_relations R))" using coherent_decided [OF ok] by (simp add: coherent_def)
  note d = registry_get_ok [OF ok first(1)] and e = registry_get_ok [OF ok second(1)]
  have listed: "d \<in> set (registry_iter R)" "e \<in> set (registry_iter R)"
    using first(1) second(1) d e by (simp_all add: registry_iter_iff [OF ok] registry_key_def)
  have "(d, name, r) \<in> set (declared_relations R)" "(e, name', r') \<in> set (declared_relations R)"
    using listed first(2) second(2) by (force simp: declared_relations_def)+
  moreover have "carrier_of (d, name, r) = carrier_of (e, name', r')"
    using first(3) second(3) shared(1) d(1) e(1) by simp
  ultimately have "(d, name, r) = (e, name', r')"
    using once by (metis distinct_map inj_on_def)
  then show False using d(2) e(2) shared(2) by simp
qed

end
