(* ===== verification/Admitted.thy ===== *)
theory Admitted
  imports Example Relations
begin

text \<open>The definitions of \<open>Example\<close> pass registration, so the properties of registered definitions apply to them;
  a registry of two of them passes as a set.\<close>

lemmas reference_checks = validate_reference_def next_segment_def scope_allows_def reference_roots_def starts_with_def
  entity_scope_def validate_schema_path_def

lemma plain_field_valid:
  "validate_field_definition (field_of_kind KString) path s = []" "validate_field_definition (required_of_kind KString) path s = []"
  "validate_field_definition (required_of_kind KInteger) path s = []"
  by (subst validate_field_definition.simps, simp add: field_of_kind_def required_of_kind_def validate_constraint_applicability_def
      is_service_only_def validate_bounds_def validate_kind_def validate_default_def)+

lemma ticket_schema_valid:
  "validate_schema_definition ticket_schema path s = []" "validate_schema_definition ticket_arguments path s = []"
  "validate_schema_definition empty_schema path s = []"
  by (simp_all add: validate_schema_definition_def ticket_schema_def ticket_arguments_def empty_schema_def plain_field_valid)

lemma ascii_not_blank [simp]: "\<not> is_blank ''ticket''" "\<not> is_blank ''close''" "\<not> is_blank ''fill''" "\<not> is_blank ''done''" "\<not> is_blank ''ready''"
  "\<not> is_blank ''created''" "\<not> is_blank ''refused''" "\<not> is_blank ''closed''" "\<not> is_blank ''filled''"
  by (simp_all add: not_blank_ascii visible_ascii_def)

lemma ticket_lifecycle_valid: "validate_lifecycle (def_lifecycle ticket) = []"
  by (simp add: validate_lifecycle_Nil ladder_sound) (simp add: ticket_def)


lemmas branch_defs = plain_outcome_def refused_outcome_def closed_outcome_def created_outcome_def fill_outcome_def

lemma title_reference:
  "validate_operand (JString ''$args.title'') path (entity_scope d ScopeCreateSet (Some ticket_arguments)) = Ok ()"
  "validate_operand (JString ''$args.note'') path (entity_scope d ScopeOutcomeSelector (Some ticket_arguments)) = Ok ()"
  by (simp_all add: validate_operand_def walk_references.simps [of _ "JString s" for s] reference_checks ticket_arguments_def
      is_ordinal_def field_of_kind_def)

lemma literal_operand:
  "validate_operand (JString ''no'') path s = Ok ()" "validate_operand (JNumber n) path s = Ok ()"
  by (simp_all add: validate_operand_def walk_references.simps [of _ "JString s" for s] walk_references.simps [of _ "JNumber s" for s] starts_with_def)

lemma ticket_guard_valid:
  "validate_condition_definition (CEq (JString ''$args.note'') (JString ''no'')) path
     (entity_scope ticket ScopeOutcomeSelector (Some ticket_arguments)) = Ok ()"
proof -
  have body: "validate_condition_body (CEq (JString ''$args.note'') (JString ''no'')) path
      (entity_scope ticket ScopeOutcomeSelector (Some ticket_arguments)) = Ok ()"
    by (subst validate_condition_body.simps)
      (simp add: validate_pair_def title_reference literal_operand operator_def service_condition_operators_def)
  have "unobservable_condition_literals (CEq (JString ''$args.note'') (JString ''no'')) path = Ok ()"
    by (subst unobservable_condition_literals.simps)
      (simp add: unobservable_pair_def unobservable_literals.simps [of "JString s" for s])
  with body show ?thesis by (simp add: validate_condition_definition_def max_condition_depth_def)
qed

lemma ticket_invariant_valid:
  assumes "def_schema d = ticket_schema"
  shows "validate_rules [\<lparr>rule_name = None, rule_condition = CExists (JString ''$fields.title''), rule_message = None\<rparr>] path
     (entity_scope d ScopeInvariant None) = []"
proof -
  have "validate_operand (JString ''$fields.title'') path (entity_scope d ScopeInvariant None) = Ok ()" for path
    by (simp add: validate_operand_def walk_references.simps [of _ "JString s" for s] reference_checks assms ticket_schema_def is_ordinal_def)
  then have "validate_condition_body (CExists (JString ''$fields.title'')) path (entity_scope d ScopeInvariant None) = Ok ()" for path
    by (subst validate_condition_body.simps) (simp add: operator_def service_condition_operators_def)
  moreover have "unobservable_condition_literals (CExists (JString ''$fields.title'')) path = Ok ()" for path
    by (subst unobservable_condition_literals.simps) simp
  ultimately show ?thesis
    by (simp add: validate_rules_def validate_rule_definition_def validate_condition_definition_def max_condition_depth_def)
qed

lemma ticket_close_valid: "validate_operation ticket ''close'' ticket_operation = []"
proof -
  have "validate_outcomes ticket (Some ticket_operation) ''close'' = []"
    by (simp add: validate_outcomes_def ticket_operation_def branch_defs outcome_defects_def outcome_name_defects_def
        is_default_branch_def wrong_state_defects_def effect_defects_def unknown_state_defects_def named_states_def
        guard_state_defects_def mutates_def effect_is_none_def is_observable_def tally_outcome_def Let_def)
      (simp add: ticket_def)
  moreover have "validate_operation_outcome ticket ''close'' ticket_operation refused_outcome = []"
    by (simp add: validate_operation_outcome_def validate_outcome_expressions_def validate_selector_def ticket_operation_def branch_defs
        ticket_guard_valid validate_assignments_def validate_emits_def validate_responds_def validate_conditional_outcome_def
        validate_fulfillment_outcome_def has_conditional_presence_def empty_schema_def Let_def)
  moreover have "validate_operation_outcome ticket ''close'' ticket_operation closed_outcome = []"
  proof -
    have "validate_set_entry ticket ''count'' (JObject [(''increment'', JNumber ''1'')]) path (entity_scope ticket ScopeOperationTemplate args) = []" for path args
    proof -
      have "as_i64 ''1'' = Some 1" by code_simp
      then show ?thesis
        by (simp add: validate_set_entry_def set_assignment_of_def bt_keys_def increment_target_def ticket_schema_def of_kind_simps
            validate_increment_amount_def literal_amount_fits_def scope_service_def)
    qed
    then show ?thesis
      by (simp add: validate_operation_outcome_def validate_outcome_expressions_def validate_selector_def ticket_operation_def branch_defs
        validate_assignments_def validate_emits_def validate_responds_def validate_conditional_outcome_def
        validate_fulfillment_outcome_def has_conditional_presence_def empty_schema_def Let_def bt_contains_def ticket_schema_def)
  qed
  ultimately show ?thesis
    by (simp add: validate_operation_def Let_def ticket_operation_def ticket_schema_valid validate_rules_def validate_assignments_def)
qed

lemma ticket_create_valid:
  "validate_outcomes d None ''create'' = []" "validate_create_outcome d created_outcome = []"
  if "d = ticket \<or> d = fillable"
proof -
  have create: "def_create d = \<lparr>cd_emit = None, cd_arguments = ticket_arguments, cd_response = empty_schema, cd_outcomes = [created_outcome]\<rparr>"
    "def_schema d = ticket_schema"
    using that by (auto simp: ticket_def fillable_def)
  show "validate_outcomes d None ''create'' = []"
    by (simp add: validate_outcomes_def create branch_defs outcome_defects_def outcome_name_defects_def
        is_default_branch_def wrong_state_defects_def effect_defects_def unknown_state_defects_def named_states_def
        guard_state_defects_def mutates_def effect_is_none_def is_observable_def tally_outcome_def Let_def)
  show "validate_create_outcome d created_outcome = []"
    by (simp add: validate_create_outcome_def create branch_defs validate_selector_def validate_assignments_def
        validate_set_entry_def set_assignment_of_def validate_template_def title_reference literal_operand validate_emits_def
        validate_responds_def validate_conditional_outcome_def validate_conditional_members_def empty_schema_def bt_contains_def
        ticket_schema_def Let_def)
qed

lemma ticket_document_ok: "document_ok ticket" "document_ok fillable"
proof -
  have schemas: "schema_ok ticket_schema" "schema_ok ticket_arguments" "schema_ok empty_schema"
    using ticket_definition_ok by (simp_all add: definition_ok_def ticket_def schema_ok_def empty_schema_def)
  have numbers: "json_ok (JNumber ''0'')" "json_ok (JNumber ''1'')" by code_simp+
  then have branches: "branch_document_ok created_outcome" "branch_document_ok refused_outcome" "branch_document_ok closed_outcome"
      "branch_document_ok fill_outcome"
    by (simp_all add: branch_document_ok_def branch_defs)
  show "document_ok ticket" "document_ok fillable"
    by (simp_all add: document_ok_def fillable_def ticket_def operation_document_ok_def ticket_operation_def fill_operation_def
        schemas branches)
qed

lemma ticket_service_keys:
  assumes "d = ticket \<or> d = fillable"
  shows "has_service_semantics (def_semantics d)" "validate_identity d = []" "validate_lifecycle (def_lifecycle d) = []"
    "validate_rules (def_invariants d) ''invariants'' (entity_scope d ScopeInvariant None) = []"
    "validate_create d = []" "validate_projections d = []" "validate_create_emit d = []" "validate_scales d = []" "validate_relations d = []"
proof -
  have d: "def_schema d = ticket_schema" "def_lifecycle d = def_lifecycle ticket" "def_identity d = def_identity ticket"
    "def_invariants d = def_invariants ticket" "def_create d = def_create ticket" "def_relations d = []" "def_scales d = []"
    and projections: "def_projections d = [(''closed_by_count'', \<lparr>pd_key = ''$fields.count'', pd_in_state = Some ''done''\<rparr>)]"
    using assms by (auto simp: fillable_def ticket_def)
  show service: "has_service_semantics (def_semantics d)"
    using assms by (auto simp: fillable_def ticket_def has_service_semantics_def)
  show "validate_identity d = []"
    by (simp add: validate_identity_def d ticket_schema_def ticket_def of_kind_simps carries_json.simps [of "required_of_kind KString"])
  show "validate_lifecycle (def_lifecycle d) = []" by (simp add: d ticket_lifecycle_valid)
  have "validate_reference ''$fields.count'' (entity_scope d ScopeInvariant None) ProjectionReader = Ok ()"
    by (simp add: validate_reference_def entity_scope_def scope_allows_def reference_roots_def validate_schema_path_def next_segment_def d
        ticket_schema_def split: prod.split)
  then show "validate_projections d = []"
    by (simp add: validate_projections_def projections d Let_def) (simp add: ticket_def)
  show "validate_create_emit d = []" "validate_scales d = []" "validate_relations d = []"
    by (simp_all add: d validate_create_emit_def validate_scales_def validate_relations_def) (simp add: ticket_def)
  show "validate_create d = []"
    using ticket_create_valid [OF assms] service
    by (simp add: validate_create_def d) (simp add: ticket_def ticket_schema_valid)
  show "validate_rules (def_invariants d) ''invariants'' (entity_scope d ScopeInvariant None) = []"
    unfolding d using ticket_invariant_valid [OF d(1)] by (simp add: ticket_def)
qed

lemma fill_valid: "validate_operation fillable ''fill'' fill_operation = []"
proof -
  have schema: "def_schema fillable = ticket_schema" "def_semantics fillable = Service3" "def_identity fillable = Some \<lparr>id_field = ''title''\<rparr>"
    by (simp_all add: fillable_def ticket_def)
  have "validate_outcomes fillable (Some fill_operation) ''fill'' = []"
    by (simp add: validate_outcomes_def fill_operation_def branch_defs outcome_defects_def outcome_name_defects_def
        is_default_branch_def wrong_state_defects_def effect_defects_def unknown_state_defects_def named_states_def
        guard_state_defects_def mutates_def effect_is_none_def is_observable_def tally_outcome_def Let_def)
  moreover have "validate_operation_outcome fillable ''fill'' fill_operation fill_outcome = []"
    by (simp add: validate_operation_outcome_def validate_outcome_expressions_def validate_selector_def fill_operation_def branch_defs
        validate_assignments_def validate_emits_def validate_responds_def validate_conditional_outcome_def validate_conditional_members_def
        validate_fulfillment_outcome_def has_operation_fulfillment_def schema ticket_schema_def of_kind_simps empty_schema_def
        bt_contains_def Let_def)
  ultimately show ?thesis
    by (simp add: validate_operation_def Let_def fill_operation_def ticket_schema_valid validate_rules_def validate_assignments_def
        schema has_service_semantics_def)
qed

lemma ticket_registered: "registered ticket"
proof -
  have "def_entity ticket = ''ticket''" "def_version ticket = 1" "def_operations ticket = [(''close'', ticket_operation)]"
    by (simp_all add: ticket_def)
  then have "validate_definition ticket = []"
    using ticket_service_keys [of ticket]
    by (simp add: validate_definition_def ticket_schema_valid validate_semantics_keys_def ticket_close_valid)
  then show ?thesis by (simp add: registered_def ticket_document_ok)
qed

lemma fillable_registered: "registered fillable"
proof -
  have "def_entity fillable = ''ticket''" "def_version fillable = 1" "def_operations fillable = [(''fill'', fill_operation)]"
    "def_schema fillable = ticket_schema"
    by (simp_all add: fillable_def ticket_def)
  then have "validate_definition fillable = []"
    using ticket_service_keys [of fillable]
    by (simp add: validate_definition_def ticket_schema_valid validate_semantics_keys_def fill_valid)
  then show ?thesis by (simp add: registered_def ticket_document_ok)
qed

lemma ticket_snapshots: "snapshots ticket_serde d"
  by (simp add: snapshots_def ticket_serde_def plain_serde_def)

section \<open>An operation with transitions\<close>

definition lamp_transition :: transition_definition where
  "lamp_transition = \<lparr>td_from = One ''off'', td_to = ''on''\<rparr>"

definition light_operation :: operation_definition where
  "light_operation = \<lparr>op_arguments = empty_schema, op_transitions = [lamp_transition], op_preconditions = [], op_set = [],
     op_emits = [], op_response = empty_schema, op_outcomes = []\<rparr>"

definition lamp :: entity_definition where
  "lamp = \<lparr>def_entity = ''lamp'', def_version = 1, def_schema = empty_schema,
     def_lifecycle = \<lparr>lc_initial = ''off'', lc_states = [''off'', ''on'']\<rparr>, def_invariants = [],
     def_create = \<lparr>cd_emit = None, cd_arguments = empty_schema, cd_response = empty_schema, cd_outcomes = []\<rparr>,
     def_operations = [(''light'', light_operation)], def_projections = [], def_semantics = Kernel1, def_identity = None,
     def_relations = [], def_scales = [], def_number_observation = SourceNumber1\<rparr>"

lemma lamp_registered: "registered lamp"
proof -
  have names: "\<not> is_blank ''lamp''" "\<not> is_blank ''light''" "\<not> is_blank ''off''" "\<not> is_blank ''on''"
    by (simp_all add: not_blank_ascii visible_ascii_def)
  have ladder: "ladder_is_sound (def_lifecycle lamp)" by (simp add: ladder_sound lamp_def names)
  have "validate_operation lamp ''light'' light_operation = []"
    by (simp add: validate_operation_def light_operation_def ticket_schema_valid names lamp_transition_def one_or_many_is_empty_def
        validate_rules_def validate_assignments_def ladder Let_def)
      (simp add: lamp_def has_service_semantics_def)
  moreover have "validate_lifecycle (def_lifecycle lamp) = []" by (simp add: validate_lifecycle_Nil ladder) (simp add: lamp_def)
  moreover have "def_operations lamp = [(''light'', light_operation)]" "def_entity lamp = ''lamp''" "def_version lamp = 1"
    "def_schema lamp = empty_schema" "def_invariants lamp = []" by (simp_all add: lamp_def)
  moreover have "validate_semantics_keys lamp = []" "validate_scales lamp = []" "validate_identity lamp = []"
    "validate_relations lamp = []" "validate_projections lamp = []" "validate_create_emit lamp = []" "validate_create lamp = []"
    by (simp_all add: lamp_def light_operation_def validate_semantics_keys_def key_not_available_def has_service_semantics_def
        schema_is_empty_def empty_schema_def validate_scales_def validate_identity_def validate_relations_def
        validate_projections_def validate_create_emit_def validate_create_def)
  ultimately have "validate_definition lamp = []"
    by (simp add: validate_definition_def names ticket_schema_valid validate_rules_def)
  moreover have "schema_ok empty_schema" by (simp add: schema_ok_def empty_schema_def)
  then have "document_ok lamp" by (simp add: document_ok_def lamp_def operation_document_ok_def light_operation_def)
  ultimately show ?thesis by (simp add: registered_def)
qed

section \<open>A registry of two definitions\<close>

definition workshop :: registry where
  "workshop = [(''lamp'', [(1, lamp)]), (''ticket'', [(1, ticket)])]"

lemma workshop_registered: "rfold registry_register [ticket, lamp] [] = Ok workshop"
proof -
  have names: "def_entity ticket = ''ticket''" "def_version ticket = 1" "def_entity lamp = ''lamp''" "def_version lamp = 1"
    by (simp_all add: ticket_def lamp_def)
  have order: "''lamp'' < ''ticket''" by code_simp
  from ticket_registered lamp_registered show ?thesis
    by (simp add: registry_register_def registry_get_def registry_replace_def validate_new_def names registered_def workshop_def order
        Let_def bt_contains_def)
qed

lemma empty_registry_ok: "registry_ok []"
  by (simp add: registry_ok_def sorted_keys_def)

lemma workshop_ok: "registry_ok workshop"
  using reg.inv_puts fresh.inv_puts [OF workshop_registered empty_registry_ok] by simp

lemma workshop_passes: "validate_all workshop = []"
proof -
  have none: "collect_field_targets (required_of_kind KString) path = []" "collect_field_targets (required_of_kind KInteger) path = []"
    "collect_field_targets (field_of_kind KString) path = []" for path
    by (subst collect_field_targets.simps, simp add: required_of_kind_def field_of_kind_def)+
  then have "relation_targets ticket = []" "relation_targets lamp = []"
    by (simp_all add: relation_targets_def collect_targets_def ticket_def ticket_operation_def ticket_schema_def ticket_arguments_def
        lamp_def light_operation_def empty_schema_def)
  moreover have "def_relations ticket = []" "def_relations lamp = []" by (simp_all add: ticket_def lamp_def)
  ultimately show ?thesis
    by (simp add: validate_all_def workshop_def registry_iter_def bt_values_def declared_relation_defects_def declared_relations_def)
qed

end
