(* ===== verification/Replay.thy ===== *)
theory Replay
  imports Panics Acceptance
begin

text \<open>
  \<open>replay\<close> of \<open>entity-core/src/replay.rs\<close>: the fold over complete decision records. Each record is recomputed from
  the definition it carries and the command it records, and refused when it differs. \<open>Undefinable\<close> is
  \<open>CoreError::Definition\<close>, raised when the definition of a record does not validate.
\<close>

datatype replay_error = Raised core_error | Undefinable "definition_error list"

type_synonym 'a replay_result = "(replay_error, 'a) result"

definition raise :: "'a core_result \<Rightarrow> 'a replay_result" where
  "raise r = (case r of Ok x \<Rightarrow> Ok x | Err e \<Rightarrow> Err (Raised e))"

definition replay_refuse :: "nat \<Rightarrow> string \<Rightarrow> replay_error" where
  "replay_refuse index detail = Raised (Validation [ve_new (''records['' @ show_nat index @ '']'') (plain detail)])"

definition record_definition :: "nat \<Rightarrow> decision_record \<Rightarrow> entity_definition replay_result" where
  "record_definition index r =
     rbind (ok_or (dr_definition r) (replay_refuse index
       ''legacy import has no definition snapshot and cannot be replayed from genesis'')) (\<lambda>d.
     if validate_definition d = [] then Ok d else Err (Undefinable (validate_definition d)))"

definition replay_creation :: "serde \<Rightarrow> entity_definition \<Rightarrow> string \<Rightarrow> jmap \<Rightarrow> jmap \<Rightarrow> decision core_result" where
  "replay_creation S d i created arguments =
     rbind (decide_create_as S d i (JObject (if has_service_semantics (def_semantics d) then arguments else created)) Recorded)
       into_decision"

definition replay_operation :: "serde \<Rightarrow> entity_definition \<Rightarrow> string \<Rightarrow> string \<Rightarrow> jmap \<Rightarrow> actions \<Rightarrow> entity_instance
    \<Rightarrow> decision core_result" where
  "replay_operation S d i operation_name arguments fulfillments before =
     rbind (decide_before_load_as d i operation_name (JObject arguments) Recorded) (\<lambda>preload.
     case preload of
       RefusedUnloaded r \<Rightarrow> Err (Refused (rf_outcome r) (rf_error r) (rf_message r))
     | Load p \<Rightarrow>
         rbind (select_with S p before) (\<lambda>loaded.
         case loaded of
           Complete answer \<Rightarrow> into_decision answer
         | NeedsFulfillment q \<Rightarrow> rbind (complete S q fulfillments) into_decision))"

definition replay_decision :: "serde \<Rightarrow> nat \<Rightarrow> entity_instance option \<Rightarrow> entity_definition \<Rightarrow> decision_record
    \<Rightarrow> decision replay_result" where
  "replay_decision S index instance d r = (case dr_command r of
     CommandCreate created arguments \<Rightarrow>
       (case instance of
          None \<Rightarrow> raise (replay_creation S d (dr_id r) created arguments)
        | Some _ \<Rightarrow> Err (replay_refuse index ''creation may only be the first record''))
   | CommandExecute operation_name arguments fulfillments \<Rightarrow>
       rbind (ok_or instance (replay_refuse index ''history begins with an operation, not creation'')) (\<lambda>before.
       raise (replay_operation S d (dr_id r) operation_name arguments fulfillments before))
   | LegacyImport \<Rightarrow> Err (replay_refuse index
       ''legacy import marks a snapshot boundary and cannot be replayed from genesis''))"

fun replay_loop :: "serde \<Rightarrow> nat \<Rightarrow> entity_instance option \<Rightarrow> decision_record list \<Rightarrow> entity_instance option replay_result" where
  "replay_loop S index instance [] = Ok instance"
| "replay_loop S index instance (r # records) =
     rbind (record_definition index r) (\<lambda>d.
     rbind (replay_decision S index instance d r) (\<lambda>decision.
     if dn_record decision \<noteq> r
     then Err (replay_refuse index ''record differs from the decision recomputed from its definition and command'')
     else replay_loop S (Suc index) (Some (dn_instance decision)) records))"

definition replay :: "serde \<Rightarrow> decision_record list \<Rightarrow> entity_instance replay_result" where
  "replay S records =
     rbind (replay_loop S 0 None records) (\<lambda>instance.
     ok_or instance (replay_refuse 0 ''an instance cannot be replayed from no decision records''))"

section \<open>A recorded answer is the checked one\<close>

lemma response_recorded:
  "materialize_response responds conditional schema Checked ctx = Ok r \<Longrightarrow> materialize_response responds conditional schema Recorded ctx = Ok r"
  by (auto simp: materialize_response_def Let_def res_simps)

lemma branch_response_recorded:
  "(case b of Some (responds, conditional) \<Rightarrow> rbind (materialize_response responds conditional schema check ctx) (\<lambda>r. Ok (Some r))
      | None \<Rightarrow> Ok None) = Ok response \<Longrightarrow>
   (case b of Some (responds, conditional) \<Rightarrow> rbind (materialize_response responds conditional schema Recorded ctx) (\<lambda>r. Ok (Some r))
      | None \<Rightarrow> Ok None) = Ok response"
  using response_recorded by (cases check) (auto simp: res_simps split: option.splits prod.splits)

lemma accept_recorded:
  assumes "accept_branch S d i op name args fulfillments check selected = Ok dn"
  shows "accept_branch S d i op name args fulfillments Recorded selected = Ok dn"
  using assms
proof (cases rule: accept_branch_steps)
  case (1 state new_fields removed revision result events response snapshot ctx)
  show ?thesis
    using 1(1-5,8-10,12,13) branch_response_recorded [OF 1(11)] unfolding 1(6,7) by (simp add: accept_branch_def Let_def)
qed

lemma decide_recorded:
  assumes "decide_with_fulfillments S d i name arguments fulfillments check = Ok (Accepted dn)"
  shows "decide_with_fulfillments S d i name arguments fulfillments Recorded = Ok (Accepted dn)"
  using assms
  by (cases rule: decide_accepted_steps) (simp add: decide_with_fulfillments_def accept_recorded)

text \<open>An accepted answer to a host's actions: without them it is asked for, or there was nothing to ask.\<close>

lemma accept_without_actions:
  assumes "accept_branch S d i op name args (Some actions) check selected = Ok dn"
  shows "(\<exists>outcome names. accept_branch S d i op name args None check selected = Err (FulfillmentRequired name outcome names))
    \<or> accept_branch S d i op name args None check selected = Ok dn"
  using assms
proof (cases rule: accept_branch_steps)
  case (1 state new_fields removed revision result events response snapshot ctx)
  show ?thesis
  proof (cases "\<exists>r. br_fulfills selected = Some r \<and> r \<noteq> []")
    case True
    then obtain r where "br_fulfills selected = Some r" "r \<noteq> []" by blast
    with 1(1,2) show ?thesis by (simp add: accept_branch_def Let_def fulfil_fields_def)
  next
    case False
    with 1(3) have "actions = []" "fulfil_fields d name selected None state = Ok (new_fields, removed)"
      by (auto simp: fulfil_fields_def Let_def split: option.splits if_splits)
    with 1(1,2,4,5,8-13) show ?thesis unfolding 1(6,7) by (simp add: accept_branch_def Let_def)
  qed
qed

lemma decide_without_actions:
  assumes "decide_with_fulfillments S d i name arguments (Some actions) check = Ok (Accepted dn)"
  shows "(\<exists>outcome names. decide_with_fulfillments S d i name arguments None check = Err (FulfillmentRequired name outcome names))
    \<or> decide_with_fulfillments S d i name arguments None check = Ok (Accepted dn)"
  using assms
proof (cases rule: decide_accepted_steps)
  case (1 op args selected)
  from accept_without_actions [OF 1(6)] 1(1-5) show ?thesis by (auto simp: decide_with_fulfillments_def)
qed

section \<open>A recorded operation replays\<close>

text \<open>The snapshot of a definition is that definition: it serializes, and reads back unchanged.\<close>

definition faithful :: "serde \<Rightarrow> entity_definition \<Rightarrow> bool" where
  "faithful S d \<longleftrightarrow> definition_snapshot S d = Ok d"

lemma decided_record:
  assumes "decide_with_fulfillments S d i name arguments fulfillments check = Ok (Accepted dn)" "faithful S d"
  obtains args where "normalize_arguments d name arguments = Ok args" "ensure_instance_matches d i = Ok ()"
    "dr_definition (dn_record dn) = Some d" "dr_id (dn_record dn) = in_id i"
    "dr_command (dn_record dn) = CommandExecute name args (case fulfillments of Some a \<Rightarrow> a | None \<Rightarrow> [])"
  using assms(1)
proof (cases rule: decide_accepted_steps)
  case (1 op args selected)
  from 1(6) show ?thesis
  proof (cases rule: accept_branch_steps)
    case accepted: (1 state new_fields removed revision result events response snapshot ctx)
    have "snapshot = d" using accepted(12) assms(2) by (simp add: faithful_def)
    with accepted(6,13) 1(1,3) that show ?thesis by simp
  qed
qed

lemma registered_arguments_ok: "registered d \<Longrightarrow> arguments_ok d name"
  using registered_definition_ok [of d]
  by (auto simp: arguments_ok_def definition_ok_def operation_ok_def list_all_iff dest: map_of_SomeD split: option.split)

lemma replay_operation_decided:
  assumes d: "registered d" and faithful: "faithful S d" and arguments: "json_ok arguments"
    and id: "\<not> is_blank (in_id i)"
    and dn: "decide_with_fulfillments S d i name arguments fulfillments check = Ok (Accepted dn)"
  shows "replay_decision S index (Some i) d (dn_record dn) = Ok dn"
proof -
  obtain args where args: "normalize_arguments d name arguments = Ok args" and match: "ensure_instance_matches d i = Ok ()"
    and r: "dr_definition (dn_record dn) = Some d" "dr_id (dn_record dn) = in_id i"
      "dr_command (dn_record dn) = CommandExecute name args (case fulfillments of Some a \<Rightarrow> a | None \<Rightarrow> [])"
    using dn faithful by (rule decided_record)
  have ok: "arguments_ok d name" using registered_arguments_ok [OF d] .
  have args_ok: "json_ok (JObject args)" using normalize_arguments_ok(1) [OF args ok arguments] by (simp add: jmap_ok_def)
  have subject: "subject_of d (in_id i) i" using match by (simp add: subject_of_def)
  have selectors: "selectors_ok op" if "map_of (def_operations d) name = Some op" for op
    using registered_selectors_ok [OF d map_of_SomeD [OF that]] .
  have now: "decide_with_fulfillments S d i name (JObject args) fulfillments Recorded = Ok (Accepted dn)"
    using decide_recorded [OF dn] decide_normalized [OF args ok arguments] by simp
  have "stands (decide_before_load_as d (in_id i) name (JObject args) Recorded) (Ok (Accepted dn))"
    using before_load_stands [OF selectors subject id, of name "JObject args" Recorded S fulfillments] now by simp
  then obtain p where p: "decide_before_load_as d (in_id i) name (JObject args) Recorded = Ok (Load p)"
    by (cases rule: stands.cases [of "(decide_before_load_as d (in_id i) name (JObject args) Recorded, Ok (Accepted dn))"]) auto
  note loaded = select_with_decides [OF p ok args_ok subject, of S]
  have "replay_operation S d (in_id i) name args (case fulfillments of Some a \<Rightarrow> a | None \<Rightarrow> []) i = Ok dn"
  proof (cases fulfillments)
    case None
    with loaded now have "select_with S p i = Ok (Complete (Accepted dn))" by simp
    with p show ?thesis by (simp add: replay_operation_def into_decision_def)
  next
    case (Some actions)
    from decide_without_actions [OF now [unfolded Some]]
    consider outcome names where "decide_with_fulfillments S d i name (JObject args) None Recorded = Err (FulfillmentRequired name outcome names)"
      | "decide_with_fulfillments S d i name (JObject args) None Recorded = Ok (Accepted dn)" by blast
    then show ?thesis
    proof cases
      case 1
      with loaded obtain q where q: "select_with S p i = Ok (NeedsFulfillment q)" by simp
      have "complete S q actions = Ok (Accepted dn)"
        using complete_decides [OF p ok args_ok subject q] now Some by simp
      with p q Some show ?thesis by (simp add: replay_operation_def into_decision_def)
    next
      case 2
      with loaded have "select_with S p i = Ok (Complete (Accepted dn))" by simp
      with p show ?thesis by (simp add: replay_operation_def into_decision_def)
    qed
  qed
  with r show ?thesis by (simp add: replay_decision_def raise_def)
qed

section \<open>A recorded creation replays\<close>

lemma finish_recorded:
  assumes "finish_service_create S d supplied args outcome object check = Ok (Accepted dn)"
  shows "finish_service_create S d supplied args outcome object Recorded = Ok (Accepted dn)"
proof -
  have "materialize_response responds conditional schema check ctx = Ok r \<Longrightarrow> materialize_response responds conditional schema Recorded ctx = Ok r"
    for responds conditional schema ctx r
    using response_recorded by (cases check) auto
  with assms show ?thesis unfolding finish_service_create_def Let_def by (auto simp: res_simps simp del: option.case)
qed

lemma normal_object:
  assumes "into_object input path = Ok object" "schema_ok schema" "json_ok input"
  shows "jmap_ok (apply_defaults schema object)"
    and "into_object (JObject (apply_defaults schema object)) path' = Ok (apply_defaults schema object)"
    and "apply_defaults schema (apply_defaults schema object) = apply_defaults schema object"
proof -
  have object: "jmap_ok object" using into_object_ok [OF assms(1,3)] by simp
  show ok: "jmap_ok (apply_defaults schema object)" by (rule apply_defaults_ok [OF assms(2) object])
  then show "into_object (JObject (apply_defaults schema object)) path' = Ok (apply_defaults schema object)"
    by (simp add: into_object_def)
  show "apply_defaults schema (apply_defaults schema object) = apply_defaults schema object"
    by (rule apply_defaults_idem [OF assms(2) object])
qed

text \<open>What a creation records: the definition, its address, and the normal form of what it was given.\<close>

lemma service_create_recorded:
  assumes "service_create S d (Some i) input check = Ok (Accepted dn)" "faithful S d" "schema_ok (cd_arguments (def_create d))" "json_ok input"
  obtains object args where "dr_definition (dn_record dn) = Some d" "dr_id (dn_record dn) = i"
    "dr_command (dn_record dn) = CommandCreate object args" "service_create S d (Some i) (JObject args) Recorded = Ok (Accepted dn)"
proof -
  let ?schema = "cd_arguments (def_create d)"
  from assms(1) obtain object0 outcome where o0: "into_object input ''arguments'' = Ok object0"
    and valid: "validate_object_under ?schema (apply_defaults ?schema object0) ''arguments'' (def_semantics d) = []"
    and sel: "select_outcome create_command (cd_outcomes (def_create d)) (Some (lc_initial (def_lifecycle d)))
      (create_context d (Some i) (apply_defaults ?schema object0) (Some ?schema) []) = Ok outcome"
    and last: "(case od_refuses outcome of Some r \<Rightarrow> Ok (RefusedBranch (refusal_of (od_name outcome) r))
      | None \<Rightarrow> rbind (created_branch_fields d outcome (create_context d (Some i) (apply_defaults ?schema object0) (Some ?schema) []) (apply_defaults ?schema object0))
          (\<lambda>fields'. finish_service_create S d (Some i) (apply_defaults ?schema object0) outcome fields' check)) = Ok (Accepted dn)"
    by (auto simp: service_create_def Let_def res_simps)
  define args where "args = apply_defaults ?schema object0"
  note normal = normal_object [OF o0 assms(3,4), folded args_def]
  from last obtain object where plain: "od_refuses outcome = None"
    and fields': "created_branch_fields d outcome (create_context d (Some i) args (Some ?schema) []) args = Ok object"
    and finish: "finish_service_create S d (Some i) args outcome object check = Ok (Accepted dn)"
    by (cases "od_refuses outcome") (auto simp: res_simps args_def)
  have again: "service_create S d (Some i) (JObject args) Recorded = Ok (Accepted dn)"
    using normal valid sel plain fields' finish_recorded [OF finish]
    by (simp add: service_create_def Let_def args_def [symmetric])
  from finish obtain events response where dn: "dn = created_decision d (initial_instance d i object) args events (Some (od_name outcome))
       (Some (if od_effect outcome = Creates then Created else Unchanged)) (Some response)"
    using assms(2) unfolding finish_service_create_def Let_def faithful_def by (auto simp: res_simps)
  show thesis
    by (rule that [OF _ _ _ again]) (simp_all add: dn created_decision_def initial_instance_def)
qed

lemma fields_create_recorded:
  assumes "create_from_fields S d i input = Ok (Accepted dn)" "faithful S d" "schema_ok (def_schema d)" "json_ok input"
  obtains object where "dr_definition (dn_record dn) = Some d" "dr_id (dn_record dn) = i"
    "dr_command (dn_record dn) = CommandCreate object (if has_service_semantics (def_semantics d) then object else [])"
    "create_from_fields S d i (JObject object) = Ok (Accepted dn)"
proof -
  from assms(1) obtain object0 where o0: "into_object input ''fields'' = Ok object0"
    by (auto simp: create_from_fields_def res_simps)
  define object where "object = apply_defaults (def_schema d) object0"
  note normal = normal_object [OF o0 assms(3,4), folded object_def]
  have again: "create_from_fields S d i (JObject object) = Ok (Accepted dn)"
    using assms(1) unfolding create_from_fields_def o0 normal(2) Let_def rbind_simps normal(3) object_def [symmetric] .
  have "\<exists>events. dn = created_decision d (initial_instance d i object)
       (if has_service_semantics (def_semantics d) then object else []) events None None None"
    using again assms(2) unfolding create_from_fields_def normal(2) Let_def rbind_simps normal(3) faithful_def
    by (auto simp: res_simps simp del: option.case)
  then obtain events where dn: "dn = created_decision d (initial_instance d i object)
       (if has_service_semantics (def_semantics d) then object else []) events None None None" by blast
  show thesis
    by (rule that [OF _ _ _ again]) (simp_all add: dn created_decision_def initial_instance_def)
qed

lemma replay_creation_decided:
  assumes d: "registered d" and faithful: "faithful S d" and input: "json_ok input"
    and dn: "decide_create_as S d i input check = Ok (Accepted dn)"
  shows "replay_decision S index None d (dn_record dn) = Ok dn"
    and "dr_definition (dn_record dn) = Some d"
proof -
  have schemas: "schema_ok (def_schema d)" "schema_ok (cd_arguments (def_create d))"
    using registered_definition_ok [OF d] by (simp_all add: definition_ok_def)
  have id: "\<not> is_blank i" using dn by (auto simp: decide_create_as_def)
  have "replay_decision S index None d (dn_record dn) = Ok dn \<and> dr_definition (dn_record dn) = Some d"
  proof (cases "takes_branches d (cd_outcomes (def_create d))")
    case True
    with dn id have "service_create S d (Some i) input check = Ok (Accepted dn)" by (simp add: decide_create_as_def)
    then show ?thesis
    proof (rule service_create_recorded [OF _ faithful schemas(2) input])
      fix object args
      assume r: "dr_definition (dn_record dn) = Some d" "dr_id (dn_record dn) = i"
        "dr_command (dn_record dn) = CommandCreate object args" "service_create S d (Some i) (JObject args) Recorded = Ok (Accepted dn)"
      have "has_service_semantics (def_semantics d)" using True by (simp add: takes_branches_def)
      with True r id show ?thesis
        by (simp add: replay_decision_def replay_creation_def decide_create_as_def into_decision_def raise_def)
    qed
  next
    case False
    with dn id have "create_from_fields S d i input = Ok (Accepted dn)" by (simp add: decide_create_as_def)
    then show ?thesis
    proof (rule fields_create_recorded [OF _ faithful schemas(1) input])
      fix object
      assume r: "dr_definition (dn_record dn) = Some d" "dr_id (dn_record dn) = i"
        "dr_command (dn_record dn) = CommandCreate object (if has_service_semantics (def_semantics d) then object else [])"
        "create_from_fields S d i (JObject object) = Ok (Accepted dn)"
      with False id show ?thesis
        by (simp add: replay_decision_def replay_creation_def decide_create_as_def into_decision_def raise_def)
    qed
  qed
  then show "replay_decision S index None d (dn_record dn) = Ok dn" "dr_definition (dn_record dn) = Some d" by blast+
qed

section \<open>Histories\<close>

text \<open>The records of one instance, in order, as the kernel made them: created once, then decided on, each time
  under a definition that passed registration (not always the same one), until \<open>i\<close> was reached.\<close>

inductive kernel_history :: "serde \<Rightarrow> decision_record list \<Rightarrow> entity_instance \<Rightarrow> bool" for S where
  kernel_created: "registered d \<Longrightarrow> faithful S d \<Longrightarrow> json_ok input \<Longrightarrow> decide_create_as S d i input check = Ok (Accepted dn) \<Longrightarrow>
    kernel_history S [dn_record dn] (dn_instance dn)"
| kernel_decided: "kernel_history S records i \<Longrightarrow> registered d \<Longrightarrow> faithful S d \<Longrightarrow> json_ok arguments \<Longrightarrow>
    (\<And>a. fulfillments = Some a \<Longrightarrow> actions_ok a) \<Longrightarrow>
    decide_with_fulfillments S d i name arguments fulfillments check = Ok (Accepted dn) \<Longrightarrow>
    kernel_history S (records @ [dn_record dn]) (dn_instance dn)"

lemma kernel_history_fields: "kernel_history S records i \<Longrightarrow> jmap_ok (in_fields i)"
proof (induction rule: kernel_history.induct)
  case (kernel_created d input i check dn)
  then show ?case
    using decide_create_from [OF kernel_created(4) registered_definition_ok kernel_created(3)] created_instance_ok registered_definition_ok
    by (auto simp: instance_ok_def)
next
  case (kernel_decided records i d arguments fulfillments name check dn)
  show ?case
    using decided_instance_ok [OF kernel_decided.hyps(6) registered_definition_ok [OF kernel_decided.hyps(2)] kernel_decided.IH
        kernel_decided.hyps(4,5)] by (simp add: instance_ok_def)
qed

lemma replay_loop_append:
  "replay_loop S index start (records @ records') =
     rbind (replay_loop S index start records) (\<lambda>start. replay_loop S (index + length records) start records')"
  by (induction records arbitrary: index start) (auto simp: rbind_assoc intro!: rbind_cong)

lemma decided_id: "decide_with_fulfillments S d i name arguments fulfillments check = Ok (Accepted dn) \<Longrightarrow> in_id (dn_instance dn) = in_id i"
  by (erule decide_accepted_steps, erule accept_branch_steps) simp

lemma kernel_history_id: "kernel_history S records i \<Longrightarrow> \<not> is_blank (in_id i)"
proof (induction rule: kernel_history.induct)
  case (kernel_created d input i check dn)
  then show ?case
    using decide_create_from [OF kernel_created(4) registered_definition_ok kernel_created(3)]
    by (auto simp: created_from_def created_address_def initial_instance_def)
next
  case (kernel_decided records i d arguments fulfillments name check dn)
  then show ?case using decided_id by metis
qed

lemma replays_history: "kernel_history S records i \<Longrightarrow> replay_loop S 0 None records = Ok (Some i)"
proof (induction rule: kernel_history.induct)
  case (kernel_created d input i check dn)
  note r = replay_creation_decided [OF kernel_created]
  have "validate_definition d = []" using kernel_created(1) by (simp add: registered_def)
  with r show ?case by (simp add: record_definition_def)
next
  case (kernel_decided records i d arguments fulfillments name check dn)
  have r: "replay_decision S (length records) (Some i) d (dn_record dn) = Ok dn"
    using kernel_history_id kernel_decided by (intro replay_operation_decided) auto
  have "dr_definition (dn_record dn) = Some d" using kernel_decided(3,6) by (elim decided_record) 
  moreover have "validate_definition d = []" using kernel_decided(2) by (simp add: registered_def)
  ultimately show ?case
    using kernel_decided.IH r by (simp add: replay_loop_append record_definition_def)
qed

section \<open>What a replayed history is\<close>

text \<open>A record as it is read from a document.\<close>

definition record_ok :: "decision_record \<Rightarrow> bool" where
  "record_ok r \<longleftrightarrow> (case dr_definition r of Some d \<Rightarrow> document_ok d | None \<Rightarrow> True)
     \<and> (case dr_command r of
          CommandCreate created arguments \<Rightarrow> jmap_ok created \<and> jmap_ok arguments
        | CommandExecute name arguments fulfillments \<Rightarrow> jmap_ok arguments \<and> actions_ok fulfillments
        | LegacyImport \<Rightarrow> True)"

text \<open>What a record says of the instance it leaves.\<close>

definition describes :: "decision_record \<Rightarrow> entity_instance \<Rightarrow> bool" where
  "describes r i \<longleftrightarrow> dr_result r = i \<and> dr_entity r = in_entity i \<and> dr_id r = in_id i \<and> dr_revision r = in_revision i
     \<and> dr_to_state r = in_state i"

lemma decided_describes:
  assumes "decide_with_fulfillments S d i name arguments fulfillments check = Ok (Accepted dn)"
  shows "describes (dn_record dn) (dn_instance dn)" "dr_from_state (dn_record dn) = Some (in_state i)"
    "in_id (dn_instance dn) = in_id i" "in_entity (dn_instance dn) = in_entity i" "in_version (dn_instance dn) = in_version i"
    "unat (in_revision (dn_instance dn)) = unat (in_revision i) + 1"
    "dn_events dn = dr_events (dn_record dn)"
proof -
  from assms obtain op args selected where acc: "accept_branch S d i op name args fulfillments check selected = Ok dn"
    by (rule decide_accepted_steps)
  then show "describes (dn_record dn) (dn_instance dn)" "dr_from_state (dn_record dn) = Some (in_state i)"
    "in_id (dn_instance dn) = in_id i" "in_entity (dn_instance dn) = in_entity i" "in_version (dn_instance dn) = in_version i"
    "unat (in_revision (dn_instance dn)) = unat (in_revision i) + 1" "dn_events dn = dr_events (dn_record dn)"
    by (auto elim!: accept_branch_steps simp: describes_def dest: next_revision_Ok(2))
qed

lemma created_describes:
  assumes "decide_create_as S d i input check = Ok (Accepted dn)"
  shows "describes (dn_record dn) (dn_instance dn)" "dr_from_state (dn_record dn) = None" "in_revision (dn_instance dn) = 1"
    "in_entity (dn_instance dn) = def_entity d" "in_version (dn_instance dn) = def_version d" "in_id (dn_instance dn) = i"
    "dn_events dn = dr_events (dn_record dn)"
proof -
  obtain snapshot object args events outcome effect response where
    "dn = created_decision snapshot (initial_instance d i object) args events outcome effect response"
  proof (cases "takes_branches d (cd_outcomes (def_create d))")
    case True
    with assms have "service_create S d (Some i) input check = Ok (Accepted dn)" by (simp add: decide_create_as_def split: if_splits)
    with that show thesis
      by (auto simp: service_create_def finish_service_create_def Let_def res_simps split: option.splits)
  next
    case False
    with assms have "create_from_fields S d i input = Ok (Accepted dn)" by (simp add: decide_create_as_def split: if_splits)
    with that show thesis by (auto simp: create_from_fields_def Let_def res_simps)
  qed
  then show "describes (dn_record dn) (dn_instance dn)" "dr_from_state (dn_record dn) = None" "in_revision (dn_instance dn) = 1"
    "in_entity (dn_instance dn) = def_entity d" "in_version (dn_instance dn) = def_version d" "in_id (dn_instance dn) = i"
    "dn_events dn = dr_events (dn_record dn)"
    by (simp_all add: created_decision_def describes_def initial_instance_def)
qed

lemma into_decision_Ok: "into_decision answer = Ok dn \<longleftrightarrow> answer = Accepted dn"
  by (simp add: into_decision_def split: kernel_answer.split)

lemma raise_Ok [simp]: "raise r = Ok x \<longleftrightarrow> r = Ok x"
  by (auto simp: raise_def split: sum.split)

text \<open>A recomputed operation is a decision of the kernel on the instance reached so far.\<close>

lemma replay_operation_Ok:
  assumes "replay_operation S d i name arguments actions before = Ok dn" "document_ok d" "definition_ok d" "jmap_ok arguments"
  obtains args fulfillments where
    "decide_with_fulfillments S d before name (JObject args) fulfillments Recorded = Ok (Accepted dn)"
    "jmap_ok args" "fulfillments = None \<or> fulfillments = Some actions" "in_id before = i"
proof -
  obtain preload where preload: "decide_before_load_as d i name (JObject arguments) Recorded = Ok preload"
    and answered: "(case preload of RefusedUnloaded r \<Rightarrow> Err (Refused (rf_outcome r) (rf_error r) (rf_message r))
     | Load p \<Rightarrow> rbind (select_with S p before) (\<lambda>loaded. case loaded of
           Complete answer \<Rightarrow> into_decision answer
         | NeedsFulfillment q \<Rightarrow> rbind (complete S q actions) into_decision)) = Ok dn"
    using assms(1) unfolding replay_operation_def rbind_Ok_iff by blast
  then obtain p where p: "decide_before_load_as d i name (JObject arguments) Recorded = Ok (Load p)"
    and rest: "rbind (select_with S p before) (\<lambda>loaded. case loaded of
           Complete answer \<Rightarrow> into_decision answer
         | NeedsFulfillment q \<Rightarrow> rbind (complete S q actions) into_decision) = Ok dn"
    by (cases preload) auto
  obtain args where args: "normalize_arguments d name (JObject arguments) = Ok args"
    and eq: "p = \<lparr>po_definition = d, po_operation = name, po_expected_id = i, po_arguments = args, po_response_check = Recorded\<rparr>"
    using p by (rule before_load_Load)
  have "arguments_ok d name"
    using assms(3) by (auto simp: arguments_ok_def definition_ok_def operation_ok_def list_all_iff dest: map_of_SomeD split: option.split)
  then have args_ok: "jmap_ok args" using normalize_arguments_ok(1) [OF args] assms(4) by (simp add: jmap_ok_def)
  obtain loaded where loaded: "select_with S p before = Ok loaded"
    and answer: "(case loaded of Complete answer \<Rightarrow> into_decision answer
         | NeedsFulfillment q \<Rightarrow> rbind (complete S q actions) into_decision) = Ok dn"
    using rest by (auto simp: res_simps)
  have id: "in_id before = i" using loaded by (auto simp: select_with_def eq res_simps ensure_def split: if_splits)
  show thesis
  proof (cases loaded)
    case (Complete answer)
    with answer have "loaded = Complete (Accepted dn)" by (simp add: into_decision_Ok)
    with loaded have "decide_with_fulfillments S d before name (JObject args) None Recorded = Ok (Accepted dn)"
      by (auto simp: select_with_def eq res_simps split: sum.splits core_error.splits)
    with that args_ok id show thesis by blast
  next
    case (NeedsFulfillment q)
    with answer have "complete S q actions = Ok (Accepted dn)" by (auto simp: res_simps into_decision_Ok)
    moreover have "pc_definition q = d" "pc_operation q = name" "pc_instance q = before" "pc_arguments q = args" "pc_response_check q = Recorded"
      using loaded NeedsFulfillment by (auto simp: select_with_def eq res_simps split: sum.splits core_error.splits)
    ultimately have "decide_with_fulfillments S d before name (JObject args) (Some actions) Recorded = Ok (Accepted dn)"
      by (simp add: complete_def)
    with that args_ok id show thesis by blast
  qed
qed

definition one_history :: "serde \<Rightarrow> decision_record list \<Rightarrow> entity_instance \<Rightarrow> bool" where
  "one_history S records i \<longleftrightarrow> records \<noteq> [] \<and> describes (last records) i
     \<and> (\<exists>d. dr_definition (last records) = Some d \<and> validate_definition d = [] \<and> instance_ok S d i)
     \<and> map (\<lambda>r. unat (dr_revision r)) records = [1..<Suc (length records)]
     \<and> (\<forall>r \<in> set records. dr_entity r = in_entity i \<and> dr_id r = in_id i \<and> in_version (dr_result r) = in_version i)
     \<and> successively (\<lambda>r r'. dr_from_state r' = Some (dr_to_state r)) records"

lemma replayed_step:
  assumes step: "replay_loop S index start [r] = Ok (Some i)" and ok: "record_ok r"
    and before: "\<And>x. start = Some x \<Longrightarrow> jmap_ok (in_fields x)"
  obtains d where "dr_definition r = Some d" "validate_definition d = []" "instance_ok S d i" "describes r i"
    "case start of None \<Rightarrow> in_revision i = 1
      | Some x \<Rightarrow> dr_from_state r = Some (in_state x) \<and> in_id i = in_id x \<and> in_entity i = in_entity x \<and> in_version i = in_version x
          \<and> unat (in_revision i) = unat (in_revision x) + 1"
proof -
  obtain d dn where d: "dr_definition r = Some d" "validate_definition d = []" and dn: "replay_decision S index start d r = Ok dn"
    and r: "dn_record dn = r" "dn_instance dn = i"
    using step by (auto simp: res_simps record_definition_def split: if_splits)
  have doc: "document_ok d" using ok d(1) by (simp add: record_ok_def)
  then have d_ok: "definition_ok d" using d(2) registered_definition_ok [of d] by (simp add: registered_def)
  show thesis
  proof (cases "dr_command r")
    case (CommandCreate created arguments)
    with dn have start: "start = None" and made: "replay_creation S d (dr_id r) created arguments = Ok dn"
      by (auto simp: replay_decision_def split: option.splits)
    then obtain object where object: "object = created \<or> object = arguments"
      and c: "decide_create_as S d (dr_id r) (JObject object) Recorded = Ok (Accepted dn)"
      unfolding replay_creation_def by (auto simp: res_simps into_decision_Ok split: if_splits)
    have "json_ok (JObject object)" using object ok CommandCreate by (auto simp: record_ok_def jmap_ok_def)
    then have "instance_ok S d i"
      using decide_create_from [OF c d_ok] created_instance_ok d_ok r(2) by blast
    with that d start created_describes [OF c] r show thesis by simp
  next
    case (CommandExecute name arguments actions)
    with dn obtain x where start: "start = Some x" and made: "replay_operation S d (dr_id r) name arguments actions x = Ok dn"
      by (auto simp: replay_decision_def res_simps)
    have ok': "jmap_ok arguments" "actions_ok actions" using ok CommandExecute by (simp_all add: record_ok_def)
    from made doc d_ok ok'(1) show thesis
    proof (rule replay_operation_Ok)
      fix args fulfillments
      assume c: "decide_with_fulfillments S d x name (JObject args) fulfillments Recorded = Ok (Accepted dn)"
        "jmap_ok args" "fulfillments = None \<or> fulfillments = Some actions"
      have "instance_ok S d i"
        using decided_instance_ok [OF c(1) d_ok before [OF start]] c(2,3) ok'(2) r(2) by (auto simp: jmap_ok_def)
      with that d start decided_describes [OF c(1)] r show thesis by simp
    qed
  next
    case LegacyImport
    with dn show thesis by (simp add: replay_decision_def)
  qed
qed

lemma replay_loop_Some: "replay_loop S index (Some x) records = Ok y \<Longrightarrow> y \<noteq> None"
  by (induction records arbitrary: index x) (auto simp: res_simps split: if_splits)

lemma replay_loop_None: "replay_loop S index None records = Ok None \<Longrightarrow> records = []"
  by (cases records) (auto simp: res_simps split: if_splits dest: replay_loop_Some)

lemma replayed_history:
  "replay_loop S 0 None records = Ok (Some i) \<Longrightarrow> list_all record_ok records \<Longrightarrow> one_history S records i"
proof (induction records arbitrary: i rule: rev_induct)
  case (snoc r records)
  obtain start where start: "replay_loop S 0 None records = Ok start" "replay_loop S (length records) start [r] = Ok (Some i)"
    using snoc.prems(1) by (auto simp: replay_loop_append rbind_Ok_iff simp del: replay_loop.simps(2))
  have ok: "record_ok r" "list_all record_ok records" using snoc.prems(2) by simp_all
  have before: "one_history S records x" if "start = Some x" for x using snoc.IH start(1) ok(2) that by simp
  then have fields': "jmap_ok (in_fields x)" if "start = Some x" for x using that by (auto simp: one_history_def instance_ok_def)
  obtain d where d: "dr_definition r = Some d" "validate_definition d = []" "instance_ok S d i" and r: "describes r i"
    and step: "case start of None \<Rightarrow> in_revision i = 1
      | Some x \<Rightarrow> dr_from_state r = Some (in_state x) \<and> in_id i = in_id x \<and> in_entity i = in_entity x \<and> in_version i = in_version x
          \<and> unat (in_revision i) = unat (in_revision x) + 1"
    using replayed_step [OF start(2) ok(1) fields'] by blast
  show ?case
  proof (cases start)
    case None
    with start(1) replay_loop_None have "records = []" by blast
    with d r step None show ?thesis by (simp add: one_history_def describes_def)
  next
    case (Some x)
    note x = before [OF Some]
    from x have "last (map (\<lambda>r. unat (dr_revision r)) records) = last [1..<Suc (length records)]" "records \<noteq> []"
      by (simp_all add: one_history_def del: upt_Suc)
    then have "unat (dr_revision (last records)) = length records" by (simp add: last_map last_upt Suc_le_eq del: upt_Suc)
    then have rev: "unat (in_revision x) = length records" using x by (simp add: one_history_def describes_def)
    show ?thesis
      using d r step Some x rev
      by (auto simp: one_history_def describes_def successively_append_iff)
  qed
qed simp

lemma replay_Ok: "replay S records = Ok i \<longleftrightarrow> replay_loop S 0 None records = Ok (Some i)"
  by (auto simp: replay_def res_simps)

end
