(* ===== verification/Store.thy ===== *)
theory Store
  imports Kernel Timestamp
begin

text \<open>
  The store contract of \<open>entity-store\<close> and its reference provider: envelopes and recordings
  (\<open>envelope.rs\<close>), recorded commits and observations, expectations and store errors (\<open>lib.rs\<close>), and
  \<open>MemoryStore\<close> (\<open>memory.rs\<close>). A method that takes \<open>&mut self\<close> is a function from the store to an error or
  the store afterwards; one that answers an error leaves the store it was given. What \<open>serde_json::to_value\<close>
  makes of a commit or an observation is not under \<open>src\<close>: it is the record \<open>store_codec\<close>, an argument.
\<close>

section \<open>Envelopes\<close>

record 'r envelope =
  env_record_id :: string
  env_recorded_at :: string
  env_correlation :: "string option"
  env_causation :: "string option"
  env_actor :: "string option"
  env_record :: 'r

definition envelope_validate :: "'r envelope \<Rightarrow> (message, unit) result" where
  "envelope_validate e =
     rbind (ensure (\<not> is_blank (env_record_id e)) (plain ''record_id cannot be empty'')) (\<lambda>_.
     rbind (ensure (is_valid_timestamp (env_recorded_at e))
       (Msg ''recorded_at {:?} is not a valid runtime timestamp'' [ArgText (env_recorded_at e)])) (\<lambda>_.
     rfold (\<lambda>(name, v) _. ensure (\<not> (case v of Some text \<Rightarrow> is_blank text | None \<Rightarrow> False))
         (Msg ''{} cannot be empty; use null when it is absent'' [ArgText name]))
       [(''correlation'', env_correlation e), (''causation'', env_causation e), (''actor'', env_actor e)] ()))"

definition envelope_new :: "'r \<Rightarrow> string \<Rightarrow> string \<Rightarrow> string option \<Rightarrow> string option \<Rightarrow> string option
    \<Rightarrow> (message, 'r envelope) result" where
  "envelope_new content record_id recorded_at correlation causation actor =
     (let e = \<lparr>env_record_id = record_id, env_recorded_at = recorded_at, env_correlation = correlation,
        env_causation = causation, env_actor = actor, env_record = content\<rparr> in
      rbind (envelope_validate e) (\<lambda>_. Ok e))"

definition starts_its_flow :: "'r envelope \<Rightarrow> bool" where
  "starts_its_flow e = (case (env_correlation e, env_causation e) of
     (Some correlation, Some causation) \<Rightarrow> correlation = causation
   | _ \<Rightarrow> False)"

record recording =
  rg_record_id :: string
  rg_recorded_at :: string
  rg_correlation :: "string option"
  rg_causation :: "string option"
  rg_actor :: "string option"

definition seal :: "recording \<Rightarrow> 'r \<Rightarrow> (message, 'r envelope) result" where
  "seal g content = envelope_new content (rg_record_id g) (rg_recorded_at g) (rg_correlation g) (rg_causation g) (rg_actor g)"

section \<open>Expectations and errors\<close>

datatype expect = Absent | ExpectRevision "64 word"

datatype store_error =
    RevisionConflict string string expect "64 word option"
  | Unreachable string string
  | Backend message
  | RecordConflict string

type_synonym 'a store_result = "(store_error, 'a) result"

definition is_unreachable :: "store_error \<Rightarrow> bool" where
  "is_unreachable e = (case e of Unreachable _ _ \<Rightarrow> True | _ \<Rightarrow> False)"

definition check_expect :: "string \<Rightarrow> string \<Rightarrow> expect \<Rightarrow> 64 word option \<Rightarrow> unit store_result" where
  "check_expect entity i expected found =
     ensure (case (expected, found) of
         (Absent, None) \<Rightarrow> True
       | (ExpectRevision want, Some have) \<Rightarrow> want = have
       | _ \<Rightarrow> False)
       (RevisionConflict entity i expected found)"

section \<open>Recorded commits and observations\<close>

record recorded_commit =
  rm_instance :: entity_instance
  rm_envelope :: "decision_record envelope"

definition backend :: "(message, 'a) result \<Rightarrow> 'a store_result" where
  "backend r = (case r of Ok x \<Rightarrow> Ok x | Err m \<Rightarrow> Err (Backend m))"

definition recorded_commit_new :: "decision \<Rightarrow> recording \<Rightarrow> (message, recorded_commit) result" where
  "recorded_commit_new d g =
     rbind (seal g (dn_record d)) (\<lambda>e. Ok \<lparr>rm_instance = dn_instance d, rm_envelope = e\<rparr>)"

definition recorded_commit_validate :: "recorded_commit \<Rightarrow> unit store_result" where
  "recorded_commit_validate c =
     rbind (backend (envelope_validate (rm_envelope c))) (\<lambda>_.
     let r = env_record (rm_envelope c); i = rm_instance c in
     rbind (ensure (\<not> (dr_entity r \<noteq> in_entity i \<or> dr_id r \<noteq> in_id i \<or> dr_revision r \<noteq> in_revision i
         \<or> dr_to_state r \<noteq> in_state i \<or> dr_result r \<noteq> i))
       (Backend (plain ''recorded decision does not describe its resulting instance''))) (\<lambda>_.
     rbind (ensure (\<not> list_ex (bt_contains (dr_changed r)) (dr_removed r))
       (Backend (plain ''recorded decision names one field in both changed and removed''))) (\<lambda>_.
     ensure (\<not> (dr_definition r \<noteq> None \<and> list_ex (\<lambda>e. ev_removed e \<noteq> dr_removed r
         \<or> list_ex (bt_contains (ev_changed e)) (ev_removed e)) (dr_events r)))
       (Backend (plain ''recorded decision event removal evidence disagrees with its decision'')))))"

definition as_decision :: "recorded_commit \<Rightarrow> decision" where
  "as_decision c = \<lparr>dn_instance = rm_instance c, dn_record = env_record (rm_envelope c),
     dn_events = dr_events (env_record (rm_envelope c))\<rparr>"

record recorded_observation =
  ro_entity :: string
  ro_id :: string
  ro_revision :: "64 word"
  ro_envelope :: "json envelope"

definition max_revision :: "64 word" where
  "max_revision = 2 ^ 63 - 1"

definition observation_validate :: "recorded_observation \<Rightarrow> unit store_result" where
  "observation_validate b =
     rbind (backend (envelope_validate (ro_envelope b))) (\<lambda>_.
     rbind (ensure (\<not> (is_blank (ro_entity b) \<or> is_blank (ro_id b)))
       (Backend (plain ''a recorded observation requires a non-empty entity and id''))) (\<lambda>_.
     ensure (\<not> (ro_revision b = 0 \<or> ro_revision b > max_revision))
       (Backend (Msg ''observation revision {} is outside the supported 1..={} range''
         [ArgNat (unat (ro_revision b)), ArgNat (unat max_revision)]))))"

record atomic_commit =
  ac_decision :: decision
  ac_expect :: expect

text \<open>The default methods of the trait \<open>Store\<close>, over the provider's \<open>commit\<close>.\<close>

definition default_commit_recorded :: "(decision \<Rightarrow> expect \<Rightarrow> 's \<Rightarrow> 's store_result) \<Rightarrow> recorded_commit \<Rightarrow> expect \<Rightarrow> 's
    \<Rightarrow> 's store_result" where
  "default_commit_recorded commit c expected M =
     rbind (recorded_commit_validate c) (\<lambda>_. commit (as_decision c) expected M)"

definition default_observe :: "recorded_observation \<Rightarrow> 's \<Rightarrow> 's store_result" where
  "default_observe b M = Err (Backend (plain ''this provider does not support recorded observations''))"

definition default_revision_of :: "(string \<Rightarrow> string \<Rightarrow> entity_instance option store_result) \<Rightarrow> string \<Rightarrow> string
    \<Rightarrow> 64 word option store_result" where
  "default_revision_of load entity i = rbind (load entity i) (\<lambda>found. Ok (map_option in_revision found))"

section \<open>The memory store\<close>

type_synonym store_key = "string \<times> string"

record memory_store =
  ms_instances :: "(store_key, entity_instance) btree"
  ms_events :: "(store_key, domain_event list) btree"
  ms_records :: "(store_key, decision_record envelope list) btree"
  ms_observations :: "(store_key, recorded_observation list) btree"
  ms_record_ids :: "json smap"

record store_codec =
  sc_commit :: "recorded_commit \<Rightarrow> (message, json) result"
  sc_observation :: "recorded_observation \<Rightarrow> (message, json) result"

definition memory_new :: memory_store where
  "memory_new = \<lparr>ms_instances = [], ms_events = [], ms_records = [], ms_observations = [], ms_record_ids = []\<rparr>"

definition memory_len :: "memory_store \<Rightarrow> nat" where
  "memory_len M = length (ms_instances M)"

definition memory_is_empty :: "memory_store \<Rightarrow> bool" where
  "memory_is_empty M \<longleftrightarrow> ms_instances M = []"

definition memory_instances :: "memory_store \<Rightarrow> entity_instance list" where
  "memory_instances M = bt_values (ms_instances M)"

text \<open>\<open>get(&key).cloned().unwrap_or_default()\<close> and \<open>entry(key).or_default()\<close> followed by \<open>push\<close> or \<open>extend\<close>.\<close>

definition listed :: "('k, 'a list) btree \<Rightarrow> 'k \<Rightarrow> 'a list" where
  "listed m k = (case bt_get m k of Some xs \<Rightarrow> xs | None \<Rightarrow> [])"

definition bt_extend :: "'k::linorder \<Rightarrow> 'a list \<Rightarrow> ('k, 'a list) btree \<Rightarrow> ('k, 'a list) btree" where
  "bt_extend k xs m = bt_insert k (listed m k @ xs) m"

definition memory_load :: "string \<Rightarrow> string \<Rightarrow> memory_store \<Rightarrow> entity_instance option" where
  "memory_load entity i M = bt_get (ms_instances M) (entity, i)"

definition memory_ids :: "string \<Rightarrow> memory_store \<Rightarrow> string list" where
  "memory_ids entity M = map snd (filter (\<lambda>(held, _). held = entity) (bt_keys (ms_instances M)))"

definition memory_events :: "string \<Rightarrow> string \<Rightarrow> memory_store \<Rightarrow> domain_event list" where
  "memory_events entity i M = sort_key ev_revision
     (listed (ms_events M) (entity, i) @ concat (map (\<lambda>e. dr_events (env_record e)) (listed (ms_records M) (entity, i))))"

definition memory_records :: "string \<Rightarrow> string \<Rightarrow> memory_store \<Rightarrow> decision_record envelope list" where
  "memory_records entity i M = listed (ms_records M) (entity, i)"

definition memory_observations :: "string \<Rightarrow> string \<Rightarrow> memory_store \<Rightarrow> recorded_observation list" where
  "memory_observations entity i M = listed (ms_observations M) (entity, i)"

definition instance_key :: "entity_instance \<Rightarrow> store_key" where
  "instance_key i = (in_entity i, in_id i)"

definition held_revision :: "store_key \<Rightarrow> memory_store \<Rightarrow> 64 word option" where
  "held_revision k M = map_option in_revision (bt_get (ms_instances M) k)"

definition memory_commit :: "decision \<Rightarrow> expect \<Rightarrow> memory_store \<Rightarrow> memory_store store_result" where
  "memory_commit d expected M =
     (let i = dn_instance d; k = instance_key i in
     rbind (check_expect (in_entity i) (in_id i) expected (held_revision k M)) (\<lambda>_.
     let M = M\<lparr>ms_instances := bt_insert k i (ms_instances M)\<rparr> in
     Ok (if dr_events (dn_record d) \<noteq> [] then M\<lparr>ms_events := bt_extend k (dr_events (dn_record d)) (ms_events M)\<rparr> else M)))"

definition memory_commit_recorded :: "store_codec \<Rightarrow> recorded_commit \<Rightarrow> expect \<Rightarrow> memory_store \<Rightarrow> memory_store store_result" where
  "memory_commit_recorded C c expected M =
     rbind (recorded_commit_validate c) (\<lambda>_.
     let i = rm_instance c; k = instance_key i; rid = env_record_id (rm_envelope c) in
     rbind (backend (sc_commit C c)) (\<lambda>document.
     case bt_get (ms_record_ids M) rid of
       Some existing \<Rightarrow> if existing = document then Ok M else Err (RecordConflict rid)
     | None \<Rightarrow>
         (case List.find (\<lambda>existing. env_record_id existing = rid) (listed (ms_records M) k) of
            Some existing \<Rightarrow>
              if existing = rm_envelope c \<and> bt_get (ms_instances M) k = Some i then Ok M else Err (RecordConflict rid)
          | None \<Rightarrow>
              rbind (check_expect (in_entity i) (in_id i) expected (held_revision k M)) (\<lambda>_.
              Ok (M\<lparr>ms_instances := bt_insert k i (ms_instances M),
                ms_records := bt_extend k [rm_envelope c] (ms_records M),
                ms_record_ids := bt_insert rid document (ms_record_ids M)\<rparr>)))))"

definition memory_observe :: "store_codec \<Rightarrow> recorded_observation \<Rightarrow> memory_store \<Rightarrow> memory_store store_result" where
  "memory_observe C b M =
     rbind (observation_validate b) (\<lambda>_.
     let k = (ro_entity b, ro_id b); rid = env_record_id (ro_envelope b) in
     rbind (backend (sc_observation C b)) (\<lambda>document.
     case bt_get (ms_record_ids M) rid of
       Some existing \<Rightarrow> if existing = document then Ok M else Err (RecordConflict rid)
     | None \<Rightarrow>
         (case List.find (\<lambda>existing. env_record_id (ro_envelope existing) = rid) (listed (ms_observations M) k) of
            Some existing \<Rightarrow> if existing = b then Ok M else Err (RecordConflict rid)
          | None \<Rightarrow>
              rbind (check_expect (ro_entity b) (ro_id b) (ExpectRevision (ro_revision b)) (held_revision k M)) (\<lambda>_.
              Ok (M\<lparr>ms_observations := bt_extend k [b] (ms_observations M),
                ms_record_ids := bt_insert rid document (ms_record_ids M)\<rparr>)))))"

definition memory_commit_batch :: "atomic_commit list \<Rightarrow> memory_store \<Rightarrow> memory_store store_result" where
  "memory_commit_batch commits M =
     rbind (rfold (\<lambda>c candidate. memory_commit (ac_decision c) (ac_expect c) candidate) commits M) (\<lambda>candidate. Ok candidate)"

end
