(* ===== verification/StoreFacts.thy ===== *)
theory StoreFacts
  imports Store Keyed "HOL-Library.Sublist"
begin

text \<open>
  What the memory store keeps. Its instances satisfy the laws of a keyed store, its histories only grow, an
  identity of a record names one document for ever, and the second search of a record by its identity, after
  the index of identities, never finds anything.
\<close>

section \<open>Lists under keys\<close>

lemma listed_extend [simp]: "listed (bt_extend k xs m) k' = (if k' = k then listed m k @ xs else listed m k')"
  by (auto simp: listed_def bt_extend_def)

lemma sorted_keys_extend [simp]: "sorted_keys m \<Longrightarrow> sorted_keys (bt_extend k xs m)"
  by (simp add: bt_extend_def)

lemma listed_Nil [simp]: "listed [] k = []"
  by (simp add: listed_def)

lemma check_expect_Ok [simp]:
  "check_expect entity i expected found = Ok () \<longleftrightarrow> (expected = Absent \<and> found = None \<or> (\<exists>r. expected = ExpectRevision r \<and> found = Some r))"
  by (auto simp: check_expect_def ensure_def split: expect.splits option.splits)

section \<open>Commands and what is kept\<close>

datatype store_command =
    DoCommit decision expect
  | DoCommitRecorded recorded_commit expect
  | DoObserve recorded_observation
  | DoBatch "atomic_commit list"

fun perform :: "store_codec \<Rightarrow> store_command \<Rightarrow> memory_store \<Rightarrow> memory_store store_result" where
  "perform C (DoCommit d expected) M = memory_commit d expected M"
| "perform C (DoCommitRecorded c expected) M = memory_commit_recorded C c expected M"
| "perform C (DoObserve b) M = memory_observe C b M"
| "perform C (DoBatch cs) M = memory_commit_batch cs M"

text \<open>Every instance is held under its own entity and identity, and every record and observation of a history has
  its identity in the index.\<close>

definition memory_ok :: "memory_store \<Rightarrow> bool" where
  "memory_ok M \<longleftrightarrow> sorted_keys (ms_instances M) \<and> sorted_keys (ms_events M) \<and> sorted_keys (ms_records M)
     \<and> sorted_keys (ms_observations M) \<and> sorted_keys (ms_record_ids M)
     \<and> (\<forall>k i. bt_get (ms_instances M) k = Some i \<longrightarrow> instance_key i = k)
     \<and> (\<forall>k. \<forall>e \<in> set (listed (ms_records M) k). bt_contains (ms_record_ids M) (env_record_id e))
     \<and> (\<forall>k. \<forall>b \<in> set (listed (ms_observations M) k). bt_contains (ms_record_ids M) (env_record_id (ro_envelope b)))"

lemma memory_new_ok: "memory_ok memory_new"
  by (simp add: memory_ok_def memory_new_def sorted_keys_def)

lemma contains_insert [simp]: "bt_contains (bt_insert k v m) k' \<longleftrightarrow> k' = k \<or> bt_contains m k'"
  by (simp add: bt_contains_iff)

lemma memory_commit_Ok:
  "memory_commit d expected M = Ok M' \<longleftrightarrow>
     (let i = dn_instance d; k = instance_key i in
      check_expect (in_entity i) (in_id i) expected (held_revision k M) = Ok ()
      \<and> M' = M\<lparr>ms_instances := bt_insert k i (ms_instances M),
          ms_events := (if dr_events (dn_record d) \<noteq> [] then bt_extend k (dr_events (dn_record d)) (ms_events M) else ms_events M)\<rparr>)"
  by (auto simp: memory_commit_def Let_def res_simps simp del: check_expect_Ok)

lemma memory_commit_ok: "memory_ok M \<Longrightarrow> memory_commit d expected M = Ok M' \<Longrightarrow> memory_ok M'"
  by (auto simp: memory_commit_Ok memory_ok_def Let_def)

text \<open>The index answers first: in a store that keeps it, the second search of a record by its identity finds
  nothing.\<close>

definition appended :: "recorded_commit \<Rightarrow> json \<Rightarrow> memory_store \<Rightarrow> memory_store" where
  "appended c document M = (let k = instance_key (rm_instance c) in
     M\<lparr>ms_instances := bt_insert k (rm_instance c) (ms_instances M), ms_records := bt_extend k [rm_envelope c] (ms_records M),
       ms_record_ids := bt_insert (env_record_id (rm_envelope c)) document (ms_record_ids M)\<rparr>)"

definition observed_in :: "recorded_observation \<Rightarrow> json \<Rightarrow> memory_store \<Rightarrow> memory_store" where
  "observed_in b document M =
     M\<lparr>ms_observations := bt_extend (ro_entity b, ro_id b) [b] (ms_observations M),
       ms_record_ids := bt_insert (env_record_id (ro_envelope b)) document (ms_record_ids M)\<rparr>"

lemma memory_okD:
  assumes "memory_ok M"
  shows "e \<in> set (listed (ms_records M) k) \<Longrightarrow> bt_get (ms_record_ids M) (env_record_id e) \<noteq> None"
    and "b \<in> set (listed (ms_observations M) k) \<Longrightarrow> bt_get (ms_record_ids M) (env_record_id (ro_envelope b)) \<noteq> None"
    and "bt_get (ms_instances M) k = Some i \<Longrightarrow> instance_key i = k"
  using assms unfolding memory_ok_def bt_contains_def by blast+

lemma records_indexed:
  assumes "memory_ok M" "bt_get (ms_record_ids M) rid = None"
  shows "List.find (\<lambda>e. env_record_id e = rid) (listed (ms_records M) k) = None"
    and "List.find (\<lambda>b. env_record_id (ro_envelope b) = rid) (listed (ms_observations M) k) = None"
  unfolding find_None_iff using memory_okD(1,2) [OF assms(1)] assms(2) by blast+

lemma commit_recorded_direct:
  assumes "memory_ok M"
  shows "memory_commit_recorded C c expected M =
     rbind (recorded_commit_validate c) (\<lambda>_.
     let i = rm_instance c; k = instance_key i; rid = env_record_id (rm_envelope c) in
     rbind (backend (sc_commit C c)) (\<lambda>document.
     case bt_get (ms_record_ids M) rid of
       Some existing \<Rightarrow> if existing = document then Ok M else Err (RecordConflict rid)
     | None \<Rightarrow> rbind (check_expect (in_entity i) (in_id i) expected (held_revision k M)) (\<lambda>_. Ok (appended c document M))))"
proof -
  let ?rid = "env_record_id (rm_envelope c)"
  show ?thesis
  proof (cases "bt_get (ms_record_ids M) ?rid")
    case None
    with records_indexed(1) [OF assms None] show ?thesis
      by (simp add: memory_commit_recorded_def appended_def Let_def cong: rbind_cong)
  next
    case (Some existing)
    then show ?thesis by (simp add: memory_commit_recorded_def Let_def cong: rbind_cong)
  qed
qed

lemma observe_direct:
  assumes "memory_ok M"
  shows "memory_observe C b M =
     rbind (observation_validate b) (\<lambda>_.
     let rid = env_record_id (ro_envelope b) in
     rbind (backend (sc_observation C b)) (\<lambda>document.
     case bt_get (ms_record_ids M) rid of
       Some existing \<Rightarrow> if existing = document then Ok M else Err (RecordConflict rid)
     | None \<Rightarrow> rbind (check_expect (ro_entity b) (ro_id b) (ExpectRevision (ro_revision b)) (held_revision (ro_entity b, ro_id b) M))
         (\<lambda>_. Ok (observed_in b document M))))"
proof -
  let ?rid = "env_record_id (ro_envelope b)"
  show ?thesis
  proof (cases "bt_get (ms_record_ids M) ?rid")
    case None
    with records_indexed(2) [OF assms None] show ?thesis
      by (simp add: memory_observe_def observed_in_def Let_def cong: rbind_cong)
  next
    case (Some existing)
    then show ?thesis by (simp add: memory_observe_def Let_def cong: rbind_cong)
  qed
qed

lemma backend_Ok [simp]: "backend r = Ok x \<longleftrightarrow> r = Ok x"
  by (auto simp: backend_def split: sum.split)

lemma commit_recorded_Ok:
  assumes "memory_ok M"
  shows "memory_commit_recorded C c expected M = Ok M' \<longleftrightarrow> (\<exists>document. recorded_commit_validate c = Ok () \<and> sc_commit C c = Ok document
     \<and> (bt_get (ms_record_ids M) (env_record_id (rm_envelope c)) = Some document \<and> M' = M
       \<or> bt_get (ms_record_ids M) (env_record_id (rm_envelope c)) = None
         \<and> check_expect (in_entity (rm_instance c)) (in_id (rm_instance c)) expected (held_revision (instance_key (rm_instance c)) M) = Ok ()
         \<and> M' = appended c document M))"
  unfolding commit_recorded_direct [OF assms]
  by (cases "bt_get (ms_record_ids M) (env_record_id (rm_envelope c))") (auto simp: res_simps Let_def simp del: check_expect_Ok split: if_splits)

lemma observe_Ok:
  assumes "memory_ok M"
  shows "memory_observe C b M = Ok M' \<longleftrightarrow> (\<exists>document. observation_validate b = Ok () \<and> sc_observation C b = Ok document
     \<and> (bt_get (ms_record_ids M) (env_record_id (ro_envelope b)) = Some document \<and> M' = M
       \<or> bt_get (ms_record_ids M) (env_record_id (ro_envelope b)) = None
         \<and> held_revision (ro_entity b, ro_id b) M = Some (ro_revision b)
         \<and> M' = observed_in b document M))"
  unfolding observe_direct [OF assms]
  by (cases "bt_get (ms_record_ids M) (env_record_id (ro_envelope b))") (auto simp: res_simps Let_def split: if_splits)

lemma appended_ok: "memory_ok M \<Longrightarrow> memory_ok (appended c document M)"
  by (auto simp: memory_ok_def appended_def Let_def simp del: split_paired_All split: if_splits)

lemma observed_ok: "memory_ok M \<Longrightarrow> memory_ok (observed_in b document M)"
  by (auto simp: memory_ok_def observed_in_def simp del: split_paired_All split: if_splits)

section \<open>The laws of a keyed store\<close>

abbreviation held :: "memory_store \<Rightarrow> store_key \<Rightarrow> entity_instance option" where
  "held M k \<equiv> bt_get (ms_instances M) k"

interpretation mem: keyed_store held "\<lambda>c. memory_commit (ac_decision c) (ac_expect c)" "\<lambda>c. instance_key (dn_instance (ac_decision c))"
    "\<lambda>c. dn_instance (ac_decision c)" memory_ok
  by unfold_locales (blast intro: memory_commit_ok, auto simp: memory_commit_Ok Let_def)

lemma memory_commit_batch_fold: "memory_commit_batch cs M = rfold (\<lambda>c. memory_commit (ac_decision c) (ac_expect c)) cs M"
  by (simp add: memory_commit_batch_def)

section \<open>Only growing\<close>

text \<open>Later stores: what a history or the index says now, it says then.\<close>

definition extends :: "memory_store \<Rightarrow> memory_store \<Rightarrow> bool" where
  "extends M M' \<longleftrightarrow> (\<forall>k. prefix (listed (ms_records M) k) (listed (ms_records M') k))
     \<and> (\<forall>k. prefix (listed (ms_observations M) k) (listed (ms_observations M') k))
     \<and> (\<forall>k. prefix (listed (ms_events M) k) (listed (ms_events M') k))
     \<and> (\<forall>k. held M k \<noteq> None \<longrightarrow> held M' k \<noteq> None)
     \<and> (\<forall>rid document. bt_get (ms_record_ids M) rid = Some document \<longrightarrow> bt_get (ms_record_ids M') rid = Some document)"

lemma extends_refl [simp]: "extends M M"
  by (simp add: extends_def)

lemma extends_trans: "extends M M' \<Longrightarrow> extends M' M'' \<Longrightarrow> extends M M''"
  unfolding extends_def by (meson prefix_order.trans)

lemma extends_commit: "memory_commit d expected M = Ok M' \<Longrightarrow> extends M M'"
  by (auto simp: memory_commit_Ok Let_def extends_def)

lemma extends_appended: "bt_get (ms_record_ids M) (env_record_id (rm_envelope c)) = None \<Longrightarrow> extends M (appended c document M)"
  by (auto simp: extends_def appended_def Let_def)

lemma extends_observed: "bt_get (ms_record_ids M) (env_record_id (ro_envelope b)) = None \<Longrightarrow> extends M (observed_in b document M)"
  by (auto simp: extends_def observed_in_def)

lemma batch_extends: "rfold (\<lambda>c. memory_commit (ac_decision c) (ac_expect c)) cs M = Ok M' \<Longrightarrow> extends M M'"
  by (induction cs arbitrary: M) (auto simp: res_simps intro: extends_trans extends_commit)

lemma perform_keeps:
  assumes "memory_ok M" "perform C cmd M = Ok M'"
  shows "memory_ok M' \<and> extends M M'"
proof (cases cmd)
  case (DoCommit d expected)
  with assms show ?thesis using memory_commit_ok extends_commit by auto
next
  case (DoCommitRecorded c expected)
  with assms show ?thesis
    using appended_ok [OF assms(1)] extends_appended by (auto simp: commit_recorded_Ok simp del: check_expect_Ok)
next
  case (DoObserve b)
  with assms show ?thesis using observed_ok [OF assms(1)] extends_observed by (auto simp: observe_Ok)
next
  case (DoBatch cs)
  with assms show ?thesis using mem.inv_puts batch_extends by (auto simp: memory_commit_batch_fold)
qed

lemma performed_keeps: "rfold (perform C) cmds M = Ok M' \<Longrightarrow> memory_ok M \<Longrightarrow> memory_ok M' \<and> extends M M'"
proof (induction cmds arbitrary: M)
  case (Cons cmd cmds)
  then obtain N where N: "perform C cmd M = Ok N" "rfold (perform C) cmds N = Ok M'" by (auto simp: res_simps)
  with perform_keeps [OF Cons.prems(2) N(1)] Cons.IH extends_trans show ?case by blast
qed simp

lemma memory_retry_idempotent:
  assumes ok: "memory_ok M" and first: "memory_commit_recorded C c expected M = Ok N"
    and between: "rfold (perform C) cmds N = Ok M'"
  shows "memory_commit_recorded C c retried M' = Ok M'"
    and "env_record_id (rm_envelope c') = env_record_id (rm_envelope c) \<Longrightarrow> recorded_commit_validate c' = Ok () \<Longrightarrow>
      sc_commit C c' = Ok document \<Longrightarrow> sc_commit C c \<noteq> Ok document \<Longrightarrow>
      memory_commit_recorded C c' retried M' = Err (RecordConflict (env_record_id (rm_envelope c)))"
proof -
  have N: "memory_ok N" using perform_keeps [OF ok, of C "DoCommitRecorded c expected"] first by simp
  have M': "memory_ok M'" "extends N M'" using performed_keeps [OF between N] by auto
  obtain doc where doc: "recorded_commit_validate c = Ok ()" "sc_commit C c = Ok doc"
    "bt_get (ms_record_ids N) (env_record_id (rm_envelope c)) = Some doc"
    using first by (auto simp: commit_recorded_Ok [OF ok] appended_def Let_def simp del: check_expect_Ok)
  then have id: "bt_get (ms_record_ids M') (env_record_id (rm_envelope c)) = Some doc"
    using M'(2) by (simp add: extends_def)
  with doc show "memory_commit_recorded C c retried M' = Ok M'" by (simp add: commit_recorded_Ok [OF M'(1)])
  show "memory_commit_recorded C c' retried M' = Err (RecordConflict (env_record_id (rm_envelope c)))"
    if "env_record_id (rm_envelope c') = env_record_id (rm_envelope c)" "recorded_commit_validate c' = Ok ()"
      "sc_commit C c' = Ok document" "sc_commit C c \<noteq> Ok document"
    using that id doc by (simp add: commit_recorded_direct [OF M'(1)] backend_def Let_def)
qed

end
