(* ===== verification/Driven.thy ===== *)
theory Driven
  imports Replay StoreFacts
begin

text \<open>
  A memory store driven by the kernel. Any number of clients create instances, load them, decide on what they
  loaded (however long ago) and commit the recorded decision, in any order; a refused commit changes nothing. The
  store's records of an identity are then the history that led to the instance it holds: replaying them gives it
  back, and no decision taken on a stale instance is ever kept.
\<close>

text \<open>What a host may decide with: definitions that passed registration and that serialize faithfully.\<close>

definition usable :: "serde \<Rightarrow> entity_definition \<Rightarrow> bool" where
  "usable S d \<longleftrightarrow> registered d \<and> faithful S d"

text \<open>A system is the store and the instances clients have loaded from it so far.\<close>

inductive driven :: "serde \<Rightarrow> store_codec \<Rightarrow> memory_store \<Rightarrow> entity_instance set \<Rightarrow> bool" for S C where
  driven_new: "driven S C memory_new {}"
| driven_load: "driven S C M L \<Longrightarrow> memory_load entity i M = Some x \<Longrightarrow> driven S C M (insert x L)"
| driven_create: "driven S C M L \<Longrightarrow> usable S d \<Longrightarrow> json_ok input \<Longrightarrow> decide_create S d i input = Ok (Accepted dn) \<Longrightarrow>
    recorded_commit_new dn g = Ok c \<Longrightarrow> memory_commit_recorded C c Absent M = Ok M' \<Longrightarrow> driven S C M' L"
| driven_decide: "driven S C M L \<Longrightarrow> x \<in> L \<Longrightarrow> usable S d \<Longrightarrow> json_ok arguments \<Longrightarrow>
    (\<And>a. fulfillments = Some a \<Longrightarrow> actions_ok a) \<Longrightarrow> decide_with_fulfillments S d x name arguments fulfillments check = Ok (Accepted dn) \<Longrightarrow>
    recorded_commit_new dn g = Ok c \<Longrightarrow> memory_commit_recorded C c (ExpectRevision (in_revision x)) M = Ok M' \<Longrightarrow> driven S C M' L"
| driven_observe: "driven S C M L \<Longrightarrow> memory_observe C b M = Ok M' \<Longrightarrow> driven S C M' L"

lemma kernel_history_facts:
  "kernel_history S records x \<Longrightarrow> records \<noteq> [] \<and> dr_result (last records) = x \<and> unat (in_revision x) = length records"
proof (induction rule: kernel_history.induct)
  case (kernel_created d input i check dn)
  then show ?case using created_describes(1,3) by (fastforce simp: describes_def)
next
  case (kernel_decided records i d arguments fulfillments name check dn)
  then show ?case using decided_describes(1,6) [OF kernel_decided(6)] by (simp add: describes_def)
qed

text \<open>Under each key, the records are a history the kernel made, and the instance held is the one it reached;
  every prefix of it reached the instance its last record describes.\<close>

definition lined_up :: "serde \<Rightarrow> memory_store \<Rightarrow> bool" where
  "lined_up S M \<longleftrightarrow> (\<forall>k. held M k = None \<longrightarrow> listed (ms_records M) k = [])
     \<and> (\<forall>k x. held M k = Some x \<longrightarrow> kernel_history S (map env_record (listed (ms_records M) k)) x)"

lemma lined_up_none: "lined_up S M \<Longrightarrow> held M k = None \<Longrightarrow> listed (ms_records M) k = []"
  unfolding lined_up_def by blast

lemma lined_up_some: "lined_up S M \<Longrightarrow> held M k = Some x \<Longrightarrow> kernel_history S (map env_record (listed (ms_records M) k)) x"
  unfolding lined_up_def by blast

lemma lined_up_last:
  assumes "lined_up S M" "held M k = Some x"
  shows "listed (ms_records M) k \<noteq> []" "dr_result (env_record (last (listed (ms_records M) k))) = x"
    "unat (in_revision x) = length (listed (ms_records M) k)"
  using kernel_history_facts [OF lined_up_some [OF assms]] by (auto simp: last_map)

text \<open>An instance someone loaded is the result of the record at its revision, which stays where it is.\<close>

definition remembered :: "memory_store \<Rightarrow> entity_instance \<Rightarrow> bool" where
  "remembered M x \<longleftrightarrow> jmap_ok (in_fields x) \<and> (\<exists>n < length (listed (ms_records M) (instance_key x)).
     dr_result (env_record (listed (ms_records M) (instance_key x) ! n)) = x \<and> unat (in_revision x) = Suc n)"

lemma seal_record: "recorded_commit_new dn g = Ok c \<Longrightarrow> rm_instance c = dn_instance dn \<and> env_record (rm_envelope c) = dn_record dn"
  by (auto simp: recorded_commit_new_def seal_def envelope_new_def Let_def res_simps)

lemma appended_at:
  "held (appended c document M) k = (if k = instance_key (rm_instance c) then Some (rm_instance c) else held M k)"
  "listed (ms_records (appended c document M)) k =
     (if k = instance_key (rm_instance c) then listed (ms_records M) k @ [rm_envelope c] else listed (ms_records M) k)"
  by (simp_all add: appended_def Let_def)

lemma remembered_extends: "remembered M x \<Longrightarrow> extends M M' \<Longrightarrow> remembered M' x"
proof -
  assume "remembered M x" "extends M M'"
  then obtain n rs where "jmap_ok (in_fields x)" "n < length (listed (ms_records M) (instance_key x))"
    "dr_result (env_record (listed (ms_records M) (instance_key x) ! n)) = x" "unat (in_revision x) = Suc n"
    "listed (ms_records M') (instance_key x) = listed (ms_records M) (instance_key x) @ rs"
    unfolding remembered_def extends_def prefix_def by blast
  then show ?thesis unfolding remembered_def by (intro conjI exI [of _ n]) (simp_all add: nth_append)
qed

text \<open>The one instance a decision can be committed on is the one the store holds.\<close>

lemma remembered_current:
  assumes "lined_up S M" "remembered M x" "held_revision (instance_key x) M = Some (in_revision x)"
  shows "held M (instance_key x) = Some x"
proof -
  let ?rs = "listed (ms_records M) (instance_key x)"
  obtain y where y: "held M (instance_key x) = Some y" "in_revision y = in_revision x"
    using assms(3) by (auto simp: held_revision_def)
  note facts = lined_up_last [OF assms(1) y(1)]
  obtain n where n: "n < length ?rs" "dr_result (env_record (?rs ! n)) = x" "unat (in_revision x) = Suc n"
    using assms(2) by (auto simp: remembered_def)
  have "n = length ?rs - 1" using n(3) facts(3) y(2) by simp
  with n(2) facts(1,2) have "y = x" by (simp add: last_conv_nth)
  with y(1) show ?thesis by simp
qed

lemma lined_up_append:
  assumes "lined_up S M" "kernel_history S (map env_record (listed (ms_records M) (instance_key (rm_instance c))) @ [env_record (rm_envelope c)]) (rm_instance c)"
  shows "lined_up S (appended c document M)"
  unfolding lined_up_def appended_at using assms by (auto simp: lined_up_def simp del: split_paired_All)

text \<open>A commit under the identity of an earlier record changes nothing; any other is checked and appended.\<close>

lemma commit_appends:
  assumes "memory_ok M" "memory_commit_recorded C c expected M = Ok M'"
  obtains "M' = M" | document where "M' = appended c document M"
    "check_expect (in_entity (rm_instance c)) (in_id (rm_instance c)) expected (held_revision (instance_key (rm_instance c)) M) = Ok ()"
    "extends M M'"
  using assms extends_appended by (auto simp: commit_recorded_Ok [OF assms(1)] simp del: check_expect_Ok)

lemma decided_key:
  "decide_with_fulfillments S d x name arguments fulfillments check = Ok (Accepted dn) \<Longrightarrow> instance_key (dn_instance dn) = instance_key x"
  by (simp add: instance_key_def decided_describes)

lemma driven_lined_up: "driven S C M L \<Longrightarrow> memory_ok M \<and> lined_up S M \<and> (\<forall>x \<in> L. remembered M x)"
proof (induction rule: driven.induct)
  case driven_new
  then show ?case using memory_new_ok by (simp add: lined_up_def memory_new_def)
next
  case (driven_load M L entity i x)
  then have held: "held M (entity, i) = Some x" and key: "instance_key x = (entity, i)"
    using memory_okD(3) by (auto simp: memory_load_def)
  have "lined_up S M" using driven_load.IH by blast
  from lined_up_last [OF this held] key kernel_history_fields [OF lined_up_some [OF this held]] have "remembered M x"
    unfolding remembered_def by (intro conjI exI [of _ "length (listed (ms_records M) (instance_key x)) - 1"]) (simp_all add: last_conv_nth)
  with driven_load.IH show ?case by simp
next
  case (driven_create M L d input i dn g c M')
  have M: "memory_ok M" "lined_up S M" using driven_create.IH by blast+
  note c = seal_record [OF driven_create(5)]
  have M': "memory_ok M'" "extends M M'" using perform_keeps [OF M(1), of C "DoCommitRecorded c Absent"] driven_create(6) by auto
  from M(1) driven_create(6) have "lined_up S M'"
  proof (cases rule: commit_appends)
    case (2 document)
    then have "held M (instance_key (dn_instance dn)) = None" using c by (simp add: held_revision_def)
    then have "listed (ms_records M) (instance_key (dn_instance dn)) = []" by (rule lined_up_none [OF M(2)])
    moreover have "kernel_history S [dn_record dn] (dn_instance dn)"
      using driven_create(2,3,4) by (auto simp: usable_def decide_create_def intro: kernel_created)
    ultimately show ?thesis using lined_up_append [OF M(2)] c 2(1) by simp
  qed (use M in simp)
  with M' driven_create.IH remembered_extends show ?case by blast
next
  case (driven_decide M L x d arguments fulfillments name check dn g c M')
  have M: "memory_ok M" "lined_up S M" "remembered M x" using driven_decide.IH driven_decide(2) by blast+
  note c = seal_record [OF driven_decide(7)] and key = decided_key [OF driven_decide(6)]
  have M': "memory_ok M'" "extends M M'"
    using perform_keeps [OF M(1), of C "DoCommitRecorded c (ExpectRevision (in_revision x))"] driven_decide(8) by auto
  from M(1) driven_decide(8) have "lined_up S M'"
  proof (cases rule: commit_appends)
    case (2 document)
    then have "held_revision (instance_key x) M = Some (in_revision x)" using c key by simp
    then have "held M (instance_key x) = Some x" by (rule remembered_current [OF M(2,3)])
    then have "kernel_history S (map env_record (listed (ms_records M) (instance_key x))) x" by (rule lined_up_some [OF M(2)])
    then have "kernel_history S (map env_record (listed (ms_records M) (instance_key x)) @ [dn_record dn]) (dn_instance dn)"
      by (rule kernel_decided) (use driven_decide(3-6) in \<open>auto simp: usable_def\<close>)
    then show ?thesis using lined_up_append [OF M(2)] c key 2(1) by simp
  qed (use M in simp)
  with M' driven_decide.IH remembered_extends show ?case by blast
next
  case (driven_observe M L b M')
  have M: "memory_ok M" "lined_up S M" using driven_observe.IH by blast+
  have M': "memory_ok M'" "extends M M'" using perform_keeps [OF M(1), of C "DoObserve b"] driven_observe(2) by auto
  have "ms_instances M' = ms_instances M" "ms_records M' = ms_records M"
    using driven_observe(2) by (auto simp: observe_Ok [OF M(1)] observed_in_def)
  then have "lined_up S M'" using M(2) by (simp add: lined_up_def)
  with M' driven_observe.IH remembered_extends show ?case by blast
qed

section \<open>No update is lost\<close>

text \<open>What the kernel decides, sealed, is a commit the store does not refuse to read.\<close>

lemma sealed_envelope: "recorded_commit_new dn g = Ok c \<Longrightarrow> envelope_validate (rm_envelope c) = Ok ()"
  by (auto simp: recorded_commit_new_def seal_def envelope_new_def Let_def res_simps)

lemma sealed_validates:
  assumes "recorded_commit_new dn g = Ok c" "describes (dn_record dn) (dn_instance dn)"
    and "\<forall>k \<in> set (dr_removed (dn_record dn)). \<not> bt_contains (dr_changed (dn_record dn)) k"
    and "\<forall>e \<in> set (dr_events (dn_record dn)). ev_removed e = dr_removed (dn_record dn) \<and> ev_changed e = dr_changed (dn_record dn)"
  shows "recorded_commit_validate c = Ok ()"
proof -
  note c = seal_record [OF assms(1)] sealed_envelope [OF assms(1)]
  have removed: "\<not> list_ex (bt_contains (dr_changed (dn_record dn))) (dr_removed (dn_record dn))"
    using assms(3) by (auto simp: list_ex_iff)
  moreover have "\<not> list_ex (\<lambda>e. ev_removed e \<noteq> dr_removed (dn_record dn) \<or> list_ex (bt_contains (ev_changed e)) (ev_removed e)) (dr_events (dn_record dn))"
    using removed assms(4) by (auto simp: list_ex_iff)
  ultimately show ?thesis
    using assms(2) c by (simp add: recorded_commit_validate_def backend_def describes_def ensure_def Let_def)
qed

lemma decided_validates:
  assumes d: "registered d" and x: "jmap_ok (in_fields x)" and actions: "\<And>a. fulfillments = Some a \<Longrightarrow> actions_ok a"
    and dn: "decide_with_fulfillments S d x name arguments fulfillments check = Ok (Accepted dn)"
    and c: "recorded_commit_new dn g = Ok c"
  shows "recorded_commit_validate c = Ok ()"
proof (rule sealed_validates [OF c decided_describes(1) [OF dn]])
  note kept = decide_accounts [OF dn x registered_writes_once [OF d]]
  have distinct: "distinct (map fst a)" if "fulfillments = Some a" for a
    using actions [OF that] by (simp add: actions_ok_def sorted_keys_distinct)
  show "\<forall>e \<in> set (dr_events (dn_record dn)). ev_removed e = dr_removed (dn_record dn) \<and> ev_changed e = dr_changed (dn_record dn)"
    using kept(3) distinct by blast
  have "\<forall>k \<in> set (dr_removed (dn_record dn)). map_of (in_fields (dn_instance dn)) k = None"
    using kept(1) distinct by (simp add: accounts_def)
  moreover have "set (dr_changed (dn_record dn)) \<subseteq> set (in_fields (dn_instance dn))"
    using kept(2) distinct by simp
  ultimately show "\<forall>k \<in> set (dr_removed (dn_record dn)). \<not> bt_contains (dr_changed (dn_record dn)) k"
    by (auto simp: bt_contains_iff map_of_eq_None_iff image_iff)
qed

text \<open>A decision taken on a loaded instance, under a record identity not used before: it is kept exactly when the
  store still holds that instance, and refused as a conflict otherwise.\<close>

lemma decision_kept_or_refused:
  assumes driven: "driven S C M L" and x: "x \<in> L" and d: "usable S d"
    and actions: "\<And>a. fulfillments = Some a \<Longrightarrow> actions_ok a"
    and dn: "decide_with_fulfillments S d x name arguments fulfillments check = Ok (Accepted dn)"
    and c: "recorded_commit_new dn g = Ok c" and document: "sc_commit C c = Ok document"
    and fresh: "bt_get (ms_record_ids M) (rg_record_id g) = None"
  shows "memory_commit_recorded C c (ExpectRevision (in_revision x)) M =
     (if held M (instance_key x) = Some x then Ok (appended c document M)
      else Err (RevisionConflict (in_entity x) (in_id x) (ExpectRevision (in_revision x)) (held_revision (instance_key x) M)))"
proof -
  have M: "memory_ok M" "lined_up S M" "remembered M x" using driven_lined_up [OF driven] x by blast+
  obtain n where n: "n < length (listed (ms_records M) (instance_key x))"
    "dr_result (env_record (listed (ms_records M) (instance_key x) ! n)) = x" using M(3) by (auto simp: remembered_def)
  then have "held M (instance_key x) \<noteq> None" using lined_up_none [OF M(2), of "instance_key x"] by force
  then obtain y where y: "held M (instance_key x) = Some y" by blast
  have "jmap_ok (in_fields x)" using M(3) by (simp add: remembered_def)
  then have valid: "recorded_commit_validate c = Ok ()" using decided_validates [OF _ _ actions dn c] d by (simp add: usable_def)
  have id: "env_record_id (rm_envelope c) = rg_record_id g"
    using c by (auto simp: recorded_commit_new_def seal_def envelope_new_def Let_def res_simps)
  note made = seal_record [OF c] decided_key [OF dn] decided_describes(3,4) [OF dn]
  have "memory_commit_recorded C c (ExpectRevision (in_revision x)) M =
      rbind (check_expect (in_entity x) (in_id x) (ExpectRevision (in_revision x)) (held_revision (instance_key x) M))
        (\<lambda>_. Ok (appended c document M))"
    using fresh id made by (simp add: commit_recorded_direct [OF M(1)] valid document backend_def Let_def)
  moreover have "held_revision (instance_key x) M = Some (in_revision x) \<longleftrightarrow> held M (instance_key x) = Some x"
    using remembered_current [OF M(2,3)] by (auto simp: held_revision_def)
  ultimately show ?thesis by (auto simp: check_expect_def ensure_def held_revision_def y)
qed

end
