(* ===== verification/Stored.thy ===== *)
theory Stored
  imports Admitted Driven
begin

text \<open>The run of \<open>Example\<close> in a store: the ticket is created, loaded and closed, and its two records replay.\<close>

definition shop_codec :: store_codec where
  "shop_codec = \<lparr>sc_commit = (\<lambda>c. Ok (JString (env_record_id (rm_envelope c)))), sc_observation = (\<lambda>_. Ok JNull)\<rparr>"

definition stamp :: "string \<Rightarrow> recording" where
  "stamp rid = \<lparr>rg_record_id = rid, rg_recorded_at = ''2024-02-29'', rg_correlation = None, rg_causation = None, rg_actor = None\<rparr>"

definition sealed :: "string \<Rightarrow> decision \<Rightarrow> recorded_commit" where
  "sealed rid dn = \<lparr>rm_instance = dn_instance dn, rm_envelope = \<lparr>env_record_id = rid, env_recorded_at = ''2024-02-29'',
     env_correlation = None, env_causation = None, env_actor = None, env_record = dn_record dn\<rparr>\<rparr>"

lemma stamped: "recorded_commit_new dn (stamp ''a'') = Ok (sealed ''a'' dn)" "recorded_commit_new dn (stamp ''b'') = Ok (sealed ''b'' dn)"
proof -
  have "is_valid_timestamp ''2024-02-29''" "\<not> is_blank ''a''" "\<not> is_blank ''b''" by code_simp+
  then show "recorded_commit_new dn (stamp ''a'') = Ok (sealed ''a'' dn)" "recorded_commit_new dn (stamp ''b'') = Ok (sealed ''b'' dn)"
    by (simp_all add: recorded_commit_new_def seal_def envelope_new_def envelope_validate_def ensure_def sealed_def stamp_def)
qed

lemma ticket_faithful: "faithful ticket_serde ticket"
  by (simp add: faithful_def definition_snapshot_def ticket_serde_def plain_serde_def)

lemma ticket_usable: "usable ticket_serde ticket"
  by (simp add: usable_def ticket_registered ticket_faithful)

lemma ticket_closes: "decide_with_fulfillments ticket_serde ticket ticket_instance ''close'' (JObject [(''note'', JString ''yes'')]) None Checked
    = Ok (Accepted ticket_closed)"
  using ticket_close by (simp add: decide_def)

lemma ticket_input_ok: "json_ok (JObject [(''title'', JString ''a'')])" "json_ok (JObject [(''note'', JString ''yes'')])"
  by code_simp+

lemma ticket_instances: "dn_instance ticket_created = ticket_instance" "dn_instance ticket_closed = closed_instance"
  by (simp_all add: ticket_created_def created_decision_def ticket_closed_def)

lemma ticket_history: "kernel_history ticket_serde [dn_record ticket_created, dn_record ticket_closed] closed_instance"
proof -
  have "kernel_history ticket_serde [dn_record ticket_created] ticket_instance"
    using kernel_created [OF ticket_registered ticket_faithful ticket_input_ok(1) ticket_create [unfolded decide_create_def]]
    by (simp add: ticket_instances)
  from kernel_decided [OF this ticket_registered ticket_faithful ticket_input_ok(2) _ ticket_closes]
  show ?thesis by (simp add: ticket_instances)
qed

lemma ticket_records_ok: "list_all record_ok [dn_record ticket_created, dn_record ticket_closed]"
proof -
  have "jmap_ok [(''title'', JString ''a'')]" "jmap_ok [(''note'', JString ''yes'')]" "jmap_ok (in_fields ticket_instance)"
    by code_simp+
  then show ?thesis
    by (simp add: record_ok_def ticket_created_def created_decision_def ticket_closed_def ticket_document_ok actions_ok_def sorted_keys_def)
qed

definition opened_shop :: memory_store where
  "opened_shop = appended (sealed ''a'' ticket_created) (JString ''a'') memory_new"

lemma shop_opened: "memory_commit_recorded shop_codec (sealed ''a'' ticket_created) Absent memory_new = Ok opened_shop"
proof -
  have valid: "recorded_commit_validate (sealed ''a'' ticket_created) = Ok ()"
    using created_describes [OF ticket_create [unfolded decide_create_def]]
    by (intro sealed_validates [OF stamped(1)]) (simp_all add: ticket_created_def created_decision_def describes_def)
  then show ?thesis
    by (simp add: commit_recorded_direct [OF memory_new_ok] shop_codec_def sealed_def backend_def opened_shop_def Let_def)
      (simp add: memory_new_def check_expect_def held_revision_def ensure_def)
qed

lemma shop_driven: "driven ticket_serde shop_codec opened_shop {ticket_instance}"
proof -
  have "driven ticket_serde shop_codec opened_shop {}"
    by (rule driven_create [OF driven_new ticket_usable ticket_input_ok(1) ticket_create stamped(1) shop_opened])
  moreover have "memory_load ''ticket'' ''s:a'' opened_shop = Some ticket_instance"
    by (simp add: memory_load_def opened_shop_def appended_at sealed_def ticket_instances instance_key_def ticket_instance_def)
  ultimately show ?thesis by (rule driven_load)
qed

lemma shop_fresh: "bt_get (ms_record_ids opened_shop) (rg_record_id (stamp ''b'')) = None"
  by (simp add: opened_shop_def appended_def memory_new_def stamp_def sealed_def Let_def)

lemma shop_holds: "held opened_shop (instance_key ticket_instance) = Some ticket_instance"
  by (simp add: opened_shop_def appended_at sealed_def ticket_instances)

end
