(* ===== verification/Rehydrate.thy ===== *)
theory Rehydrate
  imports Replay
begin

text \<open>
  \<open>rehydrate\<close> of \<open>entity-core/src/replay.rs\<close>: the fold over events alone, for \<open>kernel/1\<close> definitions. Every text
  \<open>refuse\<close> formats is a constructor of \<open>fold_reason\<close>, with the values the text names; the texts of the errors
  nested in them are not rendered.
\<close>

section \<open>Why a fold is refused\<close>

type_synonym disagreement = "(string \<times> json option \<times> json option) list"

datatype candidate_refusal =
    EmitsOther string "string list" "string list"
  | ArgumentsRefused string findings
  | PreconditionsRefuse string core_error
  | SetUnresolved string string core_error
  | WouldWrite string disagreement
  | WouldClear string "string list" "string list"

datatype payload_refusal = ResolvesTo json json | DoesNotResolve core_error

datatype fold_reason =
    ServiceHistory string semantics
  | NoEvents
  | FirstMoved string string
  | OtherInstance nat string string string
  | CreationRemoves nat string string
  | NothingClears nat string string string string
  | RevisionGap nat string "64 word" "64 word"
  | TwoDecisions nat string nat string "64 word"
  | CreationElsewhere string string string
  | CreationSilent string
  | CreationOfType string string
  | CreationMany nat
  | CreationDisagrees string disagreement
  | LateCreation nat string
  | MovesFrom nat string string string
  | NotPermitted nat string string string
  | NotEmitted nat string string string
  | NotProduced nat string string string "candidate_refusal list"
  | RemovedAndChanged nat string
  | SchemaRefuses nat string findings
  | InvariantRefuses nat string core_error
  | PayloadsDisagree "(nat \<times> string \<times> string \<times> payload_refusal) list"

datatype fold_error = FoldRefused fold_reason | FoldCore core_error

type_synonym 'a fold_result = "(fold_error, 'a) result"

section \<open>What an operation would have done\<close>

definition declares :: "operation_definition \<Rightarrow> string \<Rightarrow> string \<Rightarrow> bool" where
  "declares op from to \<longleftrightarrow> list_ex (\<lambda>t. from \<in> set (as_slice (td_from t)) \<and> td_to t = to) (op_transitions op)"

definition emits_type :: "operation_definition \<Rightarrow> string \<Rightarrow> bool" where
  "emits_type op event_type \<longleftrightarrow> list_ex (\<lambda>m. ed_event_type m = event_type) (op_emits op)"

definition permits :: "entity_definition \<Rightarrow> string \<Rightarrow> string \<Rightarrow> bool" where
  "permits d from to \<longleftrightarrow> list_ex (\<lambda>op. declares op from to) (bt_values (def_operations d))"

definition emits_on :: "entity_definition \<Rightarrow> string \<Rightarrow> string \<Rightarrow> string \<Rightarrow> bool" where
  "emits_on d from to event_type \<longleftrightarrow> list_ex (\<lambda>op. declares op from to \<and> emits_type op event_type) (bt_values (def_operations d))"

definition clears_on :: "entity_definition \<Rightarrow> string \<Rightarrow> string \<Rightarrow> string \<Rightarrow> string \<Rightarrow> bool" where
  "clears_on d from to event_type field \<longleftrightarrow>
     list_ex (\<lambda>op. declares op from to \<and> emits_type op event_type
       \<and> (case bt_get (op_set op) field of
            Some v \<Rightarrow> (case set_assignment_of v of AssignCleared _ \<Rightarrow> True | _ \<Rightarrow> False)
          | None \<Rightarrow> False)) (bt_values (def_operations d))"

text \<open>The names are sorted and each is listed once.\<close>

definition disagreeing_fields :: "jmap \<Rightarrow> jmap \<Rightarrow> disagreement" where
  "disagreeing_fields expected recorded =
     map (\<lambda>name. (name, bt_get recorded name, bt_get expected name))
       (filter (\<lambda>name. bt_get expected name \<noteq> bt_get recorded name) (bs_collect (bt_keys expected @ bt_keys recorded)))"

definition payload_disagrees :: "json \<Rightarrow> template_context \<Rightarrow> json \<Rightarrow> payload_refusal option" where
  "payload_disagrees template ctx recorded = (case resolve_template template ctx of
     Ok resolved \<Rightarrow> if canonicalize resolved \<noteq> recorded then Some (ResolvesTo (canonicalize resolved) recorded) else None
   | Err e \<Rightarrow> Some (DoesNotResolve e))"

definition fold_context :: "entity_definition \<Rightarrow> domain_event \<Rightarrow> jmap \<Rightarrow> object_schema option \<Rightarrow> jmap \<Rightarrow> jmap \<Rightarrow> string option
    \<Rightarrow> template_context" where
  "fold_context d first args schema old_fields new_fields from =
     \<lparr>tc_definition = d, tc_id = Some (ev_id first), tc_args = args, tc_arguments_schema = schema, tc_old_fields = old_fields,
      tc_new_fields = new_fields, tc_from_state = from, tc_to_state = ev_to_state first\<rparr>"

text \<open>The loop over \<open>operation.set\<close>: the fields written and the names cleared.\<close>

definition would_write :: "string \<Rightarrow> operation_definition \<Rightarrow> template_context \<Rightarrow> jmap \<Rightarrow> (candidate_refusal, jmap \<times> string list) result" where
  "would_write name op ctx before =
     rfold (\<lambda>(field, assignment) (written, cleared).
       case assigned_value name field assignment ctx of
         Ok (Some v) \<Rightarrow> Ok (bt_insert field v written, cleared)
       | Ok None \<Rightarrow> Ok (bt_remove field written, bs_insert field cleared)
       | Err e \<Rightarrow> Err (SetUnresolved name field e))
       (op_set op) (canonical_object before, [])"

definition candidate :: "entity_definition \<Rightarrow> entity_instance \<Rightarrow> domain_event list \<Rightarrow> string \<Rightarrow> string \<times> operation_definition
    \<Rightarrow> (candidate_refusal, unit) result" where
  "candidate d before batch from entry =
     (let (name, op) = entry; first = hd batch;
          emitted = map ed_event_type (op_emits op); carried = map ev_type batch in
      rbind (ensure (emitted = carried) (EmitsOther name emitted carried)) (\<lambda>_.
      let defects = validate_object (op_arguments op) (ev_args first) ''arguments'' in
      rbind (ensure (defects = []) (ArgumentsRefused name defects)) (\<lambda>_.
      let ctx = fold_context d first (ev_args first) (Some (op_arguments op)) (in_fields before) (in_fields before) (Some from) in
      rbind (case check_preconditions name (op_preconditions op) ctx of
          Ok _ \<Rightarrow> Ok ()
        | Err e \<Rightarrow> Err (PreconditionsRefuse name e)) (\<lambda>_.
      rbind (would_write name op ctx (in_fields before)) (\<lambda>(written, cleared).
      let would = changed_fields (fold_context d first (ev_args first) (Some (op_arguments op)) (in_fields before) written (Some from)) in
      if would \<noteq> ev_changed first then Err (WouldWrite name (disagreeing_fields would (ev_changed first)))
      else if cleared \<noteq> ev_removed first then Err (WouldClear name cleared (ev_removed first))
      else Ok ())))))"

definition asked :: "domain_event list \<Rightarrow> string \<Rightarrow> string \<times> operation_definition \<Rightarrow> bool" where
  "asked batch from entry \<longleftrightarrow> (case entry of (name, op) \<Rightarrow>
     declares op from (ev_to_state (hd batch)) \<and> list_ex (\<lambda>m. list_ex (\<lambda>e. ev_type e = ed_event_type m) batch) (op_emits op))"

fun refusals_of :: "('a \<Rightarrow> ('e, unit) result) \<Rightarrow> 'a list \<Rightarrow> 'e list \<times> 'a list" where
  "refusals_of f [] = ([], [])"
| "refusals_of f (x # xs) = (case refusals_of f xs of (refusals, candidates) \<Rightarrow>
     (case f x of Ok _ \<Rightarrow> (refusals, x # candidates) | Err e \<Rightarrow> (e # refusals, candidates)))"

definition operations_that_would_have_produced :: "entity_definition \<Rightarrow> entity_instance \<Rightarrow> domain_event list \<Rightarrow> string
    \<Rightarrow> (candidate_refusal list, (string \<times> operation_definition) list) result" where
  "operations_that_would_have_produced d before batch from =
     (case refusals_of (candidate d before batch from) (filter (asked batch from) (def_operations d)) of
        (refusals, candidates) \<Rightarrow> if candidates = [] then Err refusals else Ok candidates)"

section \<open>One revision\<close>

definition fold_refuse :: "fold_reason \<Rightarrow> 'a fold_result" where
  "fold_refuse r = Err (FoldRefused r)"

text \<open>The checks of one event, \<open>n\<close> its position in the history.\<close>

definition check_event :: "entity_definition \<Rightarrow> entity_instance \<Rightarrow> nat \<times> domain_event \<Rightarrow> unit fold_result" where
  "check_event d i entry =
     (let (n, e) = entry in
      if ev_entity e \<noteq> def_entity d \<or> ev_version e \<noteq> def_version d then
        Err (FoldCore (EntityMismatch (def_entity d) (def_version d) (ev_entity e) (ev_version e)))
      else if ev_id e \<noteq> in_id i then fold_refuse (OtherInstance n (ev_type e) (ev_id e) (in_id i))
      else if ev_to_state e \<notin> set (lc_states (def_lifecycle d)) then
        Err (FoldCore (UnknownState (def_entity d) (ev_to_state e)))
      else (case List.find (\<lambda>field. case ev_from_state e of
                None \<Rightarrow> True
              | Some from \<Rightarrow> \<not> clears_on d from (ev_to_state e) (ev_type e) field) (ev_removed e) of
          None \<Rightarrow> Ok ()
        | Some field \<Rightarrow> (case ev_from_state e of
              None \<Rightarrow> fold_refuse (CreationRemoves n (ev_type e) field)
            | Some from \<Rightarrow> fold_refuse (NothingClears n (ev_type e) field from (ev_to_state e)))))"

definition one_decision :: "nat \<Rightarrow> domain_event list \<Rightarrow> unit fold_result" where
  "one_decision index batch =
     (let first = hd batch in
      case List.find (\<lambda>(n, e). ev_from_state e \<noteq> ev_from_state first \<or> ev_to_state e \<noteq> ev_to_state first
          \<or> ev_args e \<noteq> ev_args first \<or> ev_changed e \<noteq> ev_changed first \<or> ev_removed e \<noteq> ev_removed first)
        (tl (enumerate index batch)) of
        None \<Rightarrow> Ok ()
      | Some (n, e) \<Rightarrow> fold_refuse (TwoDecisions index (ev_type first) n (ev_type e) (ev_revision first)))"

definition creation_writers :: "entity_definition \<Rightarrow> domain_event list \<Rightarrow> (string \<times> event_definition list) list fold_result" where
  "creation_writers d batch =
     (let first = hd batch in
      if ev_to_state first \<noteq> lc_initial (def_lifecycle d) then
        fold_refuse (CreationElsewhere (ev_type first) (ev_to_state first) (lc_initial (def_lifecycle d)))
      else (case cd_emit (def_create d) of
          None \<Rightarrow> fold_refuse (CreationSilent (ev_type first))
        | Some emit \<Rightarrow>
            if ev_type first \<noteq> ed_event_type emit then fold_refuse (CreationOfType (ev_type first) (ed_event_type emit))
            else if length batch > 1 then fold_refuse (CreationMany (length batch - 1))
            else if ev_changed first \<noteq> ev_args first then
              fold_refuse (CreationDisagrees (ev_type first) (disagreeing_fields (ev_args first) (ev_changed first)))
            else Ok [(''create'', [emit])]))"

definition operation_writers :: "entity_definition \<Rightarrow> entity_instance \<Rightarrow> nat \<Rightarrow> domain_event list \<Rightarrow> string
    \<Rightarrow> (string \<times> event_definition list) list fold_result" where
  "operation_writers d i index batch from =
     (let first = hd batch in
      if from \<noteq> in_state i then fold_refuse (MovesFrom index (ev_type first) from (in_state i))
      else if \<not> permits d from (ev_to_state first) then fold_refuse (NotPermitted index (ev_type first) from (ev_to_state first))
      else (case List.find (\<lambda>(n, e). \<not> emits_on d from (ev_to_state e) (ev_type e)) (enumerate index batch) of
          Some (n, e) \<Rightarrow> fold_refuse (NotEmitted n (ev_type e) from (ev_to_state e))
        | None \<Rightarrow> (case operations_that_would_have_produced d i batch from of
              Ok candidates \<Rightarrow> Ok (map (\<lambda>(name, op). (name, op_emits op)) candidates)
            | Err refusals \<Rightarrow> fold_refuse (NotProduced index (ev_type first) from (ev_to_state first) refusals))))"

definition writers_of :: "entity_definition \<Rightarrow> entity_instance \<Rightarrow> nat \<Rightarrow> domain_event list
    \<Rightarrow> (string \<times> event_definition list) list fold_result" where
  "writers_of d i index batch = (case ev_from_state (hd batch) of
     None \<Rightarrow> if index = 0 then creation_writers d batch else fold_refuse (LateCreation index (ev_type (hd batch)))
   | Some from \<Rightarrow> operation_writers d i index batch from)"

text \<open>A writer answers for the payloads when every one of its templates resolves to the event's.\<close>

definition payload_refused :: "nat \<Rightarrow> domain_event list \<Rightarrow> template_context \<Rightarrow> string \<times> event_definition list
    \<Rightarrow> (nat \<times> string \<times> string \<times> payload_refusal) option" where
  "payload_refused index batch ctx writer = (case writer of (name, templates) \<Rightarrow>
     (case [(n, ev_type e, name, r). (n, (template, e)) \<leftarrow> enumerate index (zip templates batch),
          r \<leftarrow> (case payload_disagrees (ed_payload template) ctx (ev_payload e) of Some r \<Rightarrow> [r] | None \<Rightarrow> [])] of
        [] \<Rightarrow> None
      | r # _ \<Rightarrow> Some r))"

definition check_payloads :: "nat \<Rightarrow> domain_event list \<Rightarrow> template_context \<Rightarrow> (string \<times> event_definition list) list \<Rightarrow> unit fold_result" where
  "check_payloads index batch ctx writers =
     (let refusals = map (payload_refused index batch ctx) writers in
      if None \<in> set refusals then Ok () else fold_refuse (PayloadsDisagree (map the refusals)))"

definition fold_revision :: "entity_definition \<Rightarrow> entity_instance \<Rightarrow> nat \<Rightarrow> domain_event list \<Rightarrow> entity_instance fold_result" where
  "fold_revision d i index batch =
     (let first = hd batch in
      rbind (rfold (\<lambda>entry _. check_event d i entry) (enumerate index batch) ()) (\<lambda>_.
      rbind (case next_revision i of Ok r \<Rightarrow> Ok r | Err e \<Rightarrow> Err (FoldCore e)) (\<lambda>expected.
      rbind (if ev_revision first \<noteq> expected
             then fold_refuse (RevisionGap index (ev_type first) (ev_revision first) (in_revision i)) else Ok ()) (\<lambda>_.
      rbind (one_decision index batch) (\<lambda>_.
      rbind (writers_of d i index batch) (\<lambda>writers.
      if list_ex (bt_contains (ev_changed first)) (ev_removed first) then fold_refuse (RemovedAndChanged index (ev_type first))
      else
      let object = apply_event_changes (in_fields i) (ev_removed first) (ev_changed first);
          j = i\<lparr>in_state := ev_to_state first, in_revision := ev_revision first, in_fields := object\<rparr>;
          defects = validate_object (def_schema d) object ''$fields'' in
      if defects \<noteq> [] then fold_refuse (SchemaRefuses index (ev_type first) defects)
      else (case check_invariants d (fold_context d first [] None [] object (ev_from_state first)) of
          Err e \<Rightarrow> fold_refuse (InvariantRefuses index (ev_type first) e)
        | Ok _ \<Rightarrow>
            let (args, old) = (case ev_from_state first of None \<Rightarrow> ([], []) | Some _ \<Rightarrow> (ev_args first, in_fields i)) in
            rbind (check_payloads index batch (fold_context d first args None old object (ev_from_state first)) writers)
              (\<lambda>_. Ok j))))))))"

function fold_revisions :: "entity_definition \<Rightarrow> entity_instance \<Rightarrow> nat \<Rightarrow> domain_event list \<Rightarrow> entity_instance fold_result" where
  "fold_revisions d i index [] = Ok i"
| "fold_revisions d i index (first # rest) =
     (let batch = first # takeWhile (\<lambda>e. ev_revision e = ev_revision first) rest in
      rbind (fold_revision d i index batch) (\<lambda>j.
      fold_revisions d j (index + length batch) (dropWhile (\<lambda>e. ev_revision e = ev_revision first) rest)))"
  by pat_completeness auto
termination
  by (relation "measure (\<lambda>(d, i, index, events). length events)") (simp_all add: le_imp_less_Suc length_dropWhile_le)


definition rehydrate :: "entity_definition \<Rightarrow> domain_event list \<Rightarrow> entity_instance fold_result" where
  "rehydrate d events =
     (if has_service_semantics (def_semantics d) then fold_refuse (ServiceHistory (def_entity d) (def_semantics d))
      else (case events of
          [] \<Rightarrow> fold_refuse NoEvents
        | first # _ \<Rightarrow> (case ev_from_state first of
              Some from \<Rightarrow> fold_refuse (FirstMoved (ev_type first) from)
            | None \<Rightarrow> fold_revisions d \<lparr>in_entity = def_entity d, in_version = def_version d, in_id = ev_id first,
                in_state = lc_initial (def_lifecycle d), in_revision = 0, in_fields = []\<rparr> 0 events)))"

section \<open>What a folded instance is\<close>

lemma fold_refuse_not_Ok [simp]: "fold_refuse r \<noteq> Ok x" "\<not> (fold_refuse r = Ok x)"
  by (simp_all add: fold_refuse_def)

lemma rfold_unit: "rfold (\<lambda>x _. f x) xs () = Ok () \<Longrightarrow> x \<in> set xs \<Longrightarrow> f x = Ok ()"
  by (induction xs) (auto simp: res_simps)

lemma enumerate_source: "e \<in> set xs \<Longrightarrow> \<exists>n. (n, e) \<in> set (enumerate k xs)"
proof -
  assume "e \<in> set xs"
  then have "e \<in> snd ` set (enumerate k xs)" by (metis list.set_map map_snd_enumerate)
  then show ?thesis by force
qed

lemma check_event_Ok:
  "check_event d i (n, e) = Ok u \<Longrightarrow> ev_entity e = def_entity d \<and> ev_version e = def_version d \<and> ev_id e = in_id i
     \<and> ev_to_state e \<in> set (lc_states (def_lifecycle d))"
  by (auto simp: check_event_def split: if_splits option.splits)

lemma one_decision_Ok:
  assumes "one_decision index batch = Ok u" "e \<in> set batch" "batch \<noteq> []"
  shows "ev_from_state e = ev_from_state (hd batch) \<and> ev_to_state e = ev_to_state (hd batch) \<and> ev_args e = ev_args (hd batch)
    \<and> ev_changed e = ev_changed (hd batch) \<and> ev_removed e = ev_removed (hd batch)"
proof (cases "e = hd batch")
  case False
  then have "e \<in> set (tl batch)" using assms(2,3) by (cases batch) auto
  then obtain n where "(n, e) \<in> set (tl (enumerate index batch))"
    using assms(3) enumerate_source [of e "tl batch" "Suc index"] by (cases batch) auto
  with assms(1) show ?thesis by (auto simp: one_decision_def Let_def find_None_iff split: option.splits)
qed simp

lemma writers_move:
  assumes "writers_of d i index batch = Ok writers" "sorted_keys (def_operations d)" "\<not> has_service_semantics (def_semantics d)"
  shows "case ev_from_state (hd batch) of
      None \<Rightarrow> index = 0 \<and> ev_to_state (hd batch) = lc_initial (def_lifecycle d)
    | Some from \<Rightarrow> from = in_state i
        \<and> (\<exists>name op. map_of (def_operations d) name = Some op \<and> permitted d op from (ev_to_state (hd batch)))"
proof (cases "ev_from_state (hd batch)")
  case None
  with assms(1) show ?thesis by (auto simp: writers_of_def creation_writers_def Let_def split: if_splits)
next
  case (Some s)
  with assms(1) have "s = in_state i" "permits d s (ev_to_state (hd batch))"
    by (auto simp: writers_of_def operation_writers_def Let_def split: if_splits)
  moreover from this obtain name op where "(name, op) \<in> set (def_operations d)" "declares op s (ev_to_state (hd batch))"
    by (auto simp: permits_def list_ex_iff bt_values_def)
  moreover from this have "map_of (def_operations d) name = Some op" "permitted d op s (ev_to_state (hd batch))"
    using assms(2,3) by (auto simp: sorted_keys_distinct permitted_def takes_branches_def declares_def list_ex_iff)
  ultimately show ?thesis using Some by auto
qed

lemma apply_event_changes_ok:
  assumes "jmap_ok object" "jmap_ok changed"
  shows "jmap_ok (apply_event_changes object removed changed)"
proof -
  have "jmap_ok (fold bt_remove removed object)" using assms(1) by (induction removed arbitrary: object) auto
  moreover have "jmap_ok (fold (\<lambda>(name, v). bt_insert name v) changed object)" if "jmap_ok object" "list_all (\<lambda>(f, v). json_ok v) changed" for object
    using that by (induction changed arbitrary: object) auto
  ultimately show ?thesis using jmap_ok_values [OF assms(2)] by (simp add: apply_event_changes_def)
qed

text \<open>One revision of the fold: where it starts and ends, and what holds of the fields it leaves.\<close>

lemma fold_revision_Ok:
  assumes "fold_revision d i index batch = Ok j" "batch \<noteq> []" "sorted_keys (def_operations d)" "\<not> has_service_semantics (def_semantics d)"
    and "jmap_ok (in_fields i)" "\<And>e. e \<in> set batch \<Longrightarrow> jmap_ok (ev_changed e)"
  shows "in_entity j = in_entity i" "in_version j = in_version i" "in_id j = in_id i"
    and "unat (in_revision j) = unat (in_revision i) + 1" "unat (in_revision j) \<le> 2 ^ 63 - 1"
    and "in_state j = ev_to_state (hd batch)" "in_revision j = ev_revision (hd batch)"
    and "\<And>e. e \<in> set batch \<Longrightarrow> ev_id e = in_id i \<and> ev_to_state e = in_state j \<and> ev_entity e = def_entity d \<and> ev_version e = def_version d"
    and "jmap_ok (in_fields j)" "validate_object (def_schema d) (in_fields j) ''$fields'' = []"
    and "in_state j \<in> set (lc_states (def_lifecycle d))"
    and "check_invariants d (fold_context d (hd batch) [] None [] (in_fields j) (ev_from_state (hd batch))) = Ok ()"
    and "case ev_from_state (hd batch) of
      None \<Rightarrow> index = 0 \<and> in_state j = lc_initial (def_lifecycle d)
    | Some from \<Rightarrow> from = in_state i \<and> (\<exists>name op. map_of (def_operations d) name = Some op \<and> permitted d op from (in_state j))"
proof -
  let ?first = "hd batch" and ?object = "apply_event_changes (in_fields i) (ev_removed (hd batch)) (ev_changed (hd batch))"
  obtain expected writers where checked: "rfold (\<lambda>entry _. check_event d i entry) (enumerate index batch) () = Ok ()"
    and expected: "next_revision i = Ok expected" "ev_revision ?first = expected"
    and agree: "one_decision index batch = Ok ()" and writers: "writers_of d i index batch = Ok writers"
    and fields': "validate_object (def_schema d) ?object ''$fields'' = []"
    and invariants: "check_invariants d (fold_context d ?first [] None [] ?object (ev_from_state ?first)) = Ok ()"
    and j: "j = i\<lparr>in_state := ev_to_state ?first, in_revision := ev_revision ?first, in_fields := ?object\<rparr>"
    using assms(1) unfolding fold_revision_def Let_def
    by (auto simp: res_simps split: if_splits sum.splits option.splits)
  have first: "?first \<in> set batch" using assms(2) by simp
  have each: "ev_entity e = def_entity d \<and> ev_version e = def_version d \<and> ev_id e = in_id i
     \<and> ev_to_state e \<in> set (lc_states (def_lifecycle d))" if "e \<in> set batch" for e
  proof -
    from that obtain n where "(n, e) \<in> set (enumerate index batch)"
      using enumerate_source [of e batch index] by blast
    with rfold_unit [OF checked] check_event_Ok show ?thesis by blast
  qed
  show "in_entity j = in_entity i" "in_version j = in_version i" "in_id j = in_id i"
    "in_state j = ev_to_state ?first" "in_revision j = ev_revision ?first" by (simp_all add: j)
  show "unat (in_revision j) = unat (in_revision i) + 1" "unat (in_revision j) \<le> 2 ^ 63 - 1"
    using next_revision_Ok [OF expected(1)] expected(2) by (simp_all add: j)
  show "ev_id e = in_id i \<and> ev_to_state e = in_state j \<and> ev_entity e = def_entity d \<and> ev_version e = def_version d" if "e \<in> set batch" for e
    using each [OF that] one_decision_Ok [OF agree that assms(2)] by (simp add: j)
  show "jmap_ok (in_fields j)" using apply_event_changes_ok [OF assms(5) assms(6) [OF first]] by (simp add: j)
  show "validate_object (def_schema d) (in_fields j) ''$fields'' = []" using fields' by (simp add: j)
  show "in_state j \<in> set (lc_states (def_lifecycle d))" using each [OF first] by (simp add: j)
  show "check_invariants d (fold_context d ?first [] None [] (in_fields j) (ev_from_state ?first)) = Ok ()"
    using invariants by (simp add: j)
  show "case ev_from_state ?first of None \<Rightarrow> index = 0 \<and> in_state j = lc_initial (def_lifecycle d)
    | Some from \<Rightarrow> from = in_state i \<and> (\<exists>name op. map_of (def_operations d) name = Some op \<and> permitted d op from (in_state j))"
    using writers_move [OF writers assms(3,4)] by (auto simp: j split: option.splits)
qed

lemma kernel_semantics: "\<not> has_service_semantics (def_semantics d) \<Longrightarrow> def_semantics d = Kernel1"
  by (cases "def_semantics d") (simp_all add: has_service_semantics_def)

lemma kernel_identity: "validate_definition d = [] \<Longrightarrow> \<not> has_service_semantics (def_semantics d) \<Longrightarrow> def_identity d = None"
proof -
  assume "validate_definition d = []" and kernel: "\<not> has_service_semantics (def_semantics d)"
  then have "validate_semantics_keys d = []" by (simp add: validate_definition_def)
  with kernel show ?thesis by (cases "def_identity d") (simp_all add: validate_semantics_keys_def key_not_available_def)
qed

text \<open>What the fold has reached after each revision: a valid instance the lifecycle can reach, on which the invariants
  hold, as the event \<open>e\<close> left it.\<close>

definition reached_by :: "entity_definition \<Rightarrow> domain_event \<Rightarrow> entity_instance \<Rightarrow> bool" where
  "reached_by d e i \<longleftrightarrow> in_entity i = def_entity d \<and> in_version i = def_version d \<and> in_id i = ev_id e \<and> in_state i = ev_to_state e
     \<and> in_revision i = ev_revision e \<and> unat (in_revision i) \<le> 2 ^ 63 - 1
     \<and> history d (position_of i) \<and> in_state i \<in> set (lc_states (def_lifecycle d)) \<and> jmap_ok (in_fields i)
     \<and> validate_object (def_schema d) (in_fields i) ''$fields'' = []
     \<and> check_invariants d (fold_context d e [] None [] (in_fields i) (ev_from_state e)) = Ok ()"

lemma history_revision: "history d p \<Longrightarrow> 1 \<le> snd (snd p)"
  by (induction rule: history.induct) (auto elim!: moves.cases)

lemma reached_by_ok:
  assumes "reached_by d e i" "registered d" "\<not> has_service_semantics (def_semantics d)"
  shows "instance_ok S d i"
proof -
  have d: "schema_ok (def_schema d)" using registered_definition_ok [OF assms(2)] by (simp add: definition_ok_def)
  have mirror: "check_identity_mirror S d i = Ok ()"
    using kernel_identity [OF _ assms(3)] assms(2) by (simp add: check_identity_mirror_def registered_def)
  have "validate_object_under (def_schema d) (in_fields i) ''fields'' (def_semantics d) = []"
    using assms(1) validate_object_Nil [OF d, of "in_fields i"]
    by (simp add: reached_by_def validate_object_def kernel_semantics [OF assms(3)])
  moreover have "1 \<le> unat (in_revision i)"
    using history_revision [of d "position_of i"] assms(1) unfolding reached_by_def position_of_def by auto
  moreover have "ensure_instance_matches d i = Ok ()"
    using assms(1) by (auto simp: reached_by_def ensure_instance_matches_def ensure_entity_matches_def ensure_state_known_def ensure_def)
  ultimately show ?thesis using assms(1) mirror by (auto simp: instance_ok_def reached_by_def)
qed

text \<open>The first revision is a creation; each later one a permitted move from where the fold had got to.\<close>

lemma fold_first:
  assumes "fold_revision d i 0 batch = Ok j" "batch \<noteq> []" "sorted_keys (def_operations d)" "\<not> has_service_semantics (def_semantics d)"
    and "jmap_ok (in_fields i)" "\<And>e. e \<in> set batch \<Longrightarrow> jmap_ok (ev_changed e)"
    and "ev_from_state (hd batch) = None" "in_entity i = def_entity d" "in_version i = def_version d" "in_revision i = 0"
  shows "reached_by d (hd batch) j"
proof -
  note folded = fold_revision_Ok [OF assms(1-6)]
  have "unat (in_revision j) = 1" using folded(4) assms(10) by simp
  then have "position_of j = (in_id j, lc_initial (def_lifecycle d), 1)" using folded(13) assms(7) by (simp add: position_of_def)
  then have "history d (position_of j)" using history.start [of d "in_id j"] by simp
  with folded(1-7,9-12) folded(8) [of "hd batch"] assms(2,8,9) show ?thesis by (simp add: reached_by_def)
qed

lemma fold_next:
  assumes "fold_revision d i index batch = Ok j" "batch \<noteq> []" "sorted_keys (def_operations d)" "\<not> has_service_semantics (def_semantics d)"
    and "\<And>e. e \<in> set batch \<Longrightarrow> jmap_ok (ev_changed e)" "reached_by d e i" "0 < index"
  shows "reached_by d (hd batch) j"
proof -
  have i: "jmap_ok (in_fields i)" "history d (position_of i)" using assms(6) by (simp_all add: reached_by_def)
  note folded = fold_revision_Ok [OF assms(1-4) i(1) assms(5)]
  obtain name op where "map_of (def_operations d) name = Some op" "permitted d op (in_state i) (in_state j)"
    using folded(13) assms(7) by (auto split: option.splits)
  from moves.move [OF this, of "unat (in_revision i)" "in_id i"] folded(3-5)
  have "moves d (position_of i) (position_of j)" by (simp add: position_of_def)
  then have "history d (position_of j)" by (rule history.step [OF i(2)])
  with folded(1-7,9-12) folded(8) [of "hd batch"] assms(2,6) show ?thesis by (simp add: reached_by_def)
qed

lemma takeWhile_batch: "\<forall>e \<in> set (first # takeWhile P rest). e = first \<or> e \<in> set rest"
  by (auto dest: set_takeWhileD)

lemma fold_rest:
  "fold_revisions d i index events = Ok j \<Longrightarrow> reached_by d e i \<Longrightarrow> 0 < index \<Longrightarrow> \<forall>e \<in> set events. jmap_ok (ev_changed e) \<Longrightarrow>
   sorted_keys (def_operations d) \<Longrightarrow> \<not> has_service_semantics (def_semantics d) \<Longrightarrow> \<exists>e' \<in> insert e (set events). reached_by d e' j"
proof (induction d i index events arbitrary: e rule: fold_revisions.induct)
  case (2 d i index first rest)
  let ?batch = "first # takeWhile (\<lambda>e. ev_revision e = ev_revision first) rest"
    and ?rest = "dropWhile (\<lambda>e. ev_revision e = ev_revision first) rest"
  obtain k where k: "fold_revision d i index ?batch = Ok k" "fold_revisions d k (index + length ?batch) ?rest = Ok j"
    using 2(2) by (auto simp: Let_def res_simps)
  have "reached_by d first k"
    using fold_next [OF k(1) _ 2(6,7) _ 2(3,4)] 2(5) takeWhile_batch [of first] by fastforce
  moreover have "\<forall>e \<in> set ?rest. jmap_ok (ev_changed e)" using 2(5) set_dropWhileD by fastforce
  ultimately have "\<exists>e' \<in> insert first (set ?rest). reached_by d e' j"
    using 2(1) [OF refl k(1,2)] 2(6,7) by simp
  then show ?case using set_dropWhileD by fastforce
qed auto

lemma rehydrated_reached:
  assumes "rehydrate d events = Ok i" "sorted_keys (def_operations d)" "\<forall>e \<in> set events. jmap_ok (ev_changed e)"
  shows "\<not> has_service_semantics (def_semantics d)" "\<exists>e \<in> set events. reached_by d e i"
proof -
  show kernel: "\<not> has_service_semantics (def_semantics d)" using assms(1) by (auto simp: rehydrate_def)
  obtain first rest where events: "events = first # rest" "ev_from_state first = None"
    and folded: "fold_revisions d \<lparr>in_entity = def_entity d, in_version = def_version d, in_id = ev_id first,
                in_state = lc_initial (def_lifecycle d), in_revision = 0, in_fields = []\<rparr> 0 events = Ok i"
    using assms(1) by (auto simp: rehydrate_def split: if_splits list.splits option.splits)
  let ?batch = "first # takeWhile (\<lambda>e. ev_revision e = ev_revision first) rest"
    and ?rest = "dropWhile (\<lambda>e. ev_revision e = ev_revision first) rest"
  obtain k where k: "fold_revision d \<lparr>in_entity = def_entity d, in_version = def_version d, in_id = ev_id first,
                in_state = lc_initial (def_lifecycle d), in_revision = 0, in_fields = []\<rparr> 0 ?batch = Ok k"
    "fold_revisions d k (length ?batch) ?rest = Ok i"
    using folded unfolding events(1) by (auto simp: Let_def res_simps)
  have "reached_by d first k"
    using fold_first [OF k(1) _ assms(2) kernel] events(2) assms(3) takeWhile_batch [of first] unfolding events(1) by fastforce
  from fold_rest [OF k(2) this] assms(2,3) kernel have "\<exists>e \<in> insert first (set ?rest). reached_by d e i"
    using set_dropWhileD unfolding events(1) by fastforce
  then show "\<exists>e \<in> set events. reached_by d e i" unfolding events(1) using set_dropWhileD by fastforce
qed

end
