(* ===== verification/Locality.thy ===== *)
theory Locality
  imports Soundness
begin

text \<open>
  What a \<open>kernel/1\<close> definition's rules and templates read. An invariant that passed registration reads the
  identity, the entity, the version, the state and the fields, and nothing else, so its answer is the same
  wherever those are; and no answer depends on the schema of the arguments.
\<close>

section \<open>The references of a value\<close>

function all_references :: "(string \<Rightarrow> bool) \<Rightarrow> json \<Rightarrow> bool" where
  "all_references P v = (case v of
     JString s \<Rightarrow> is_reference s \<longrightarrow> P s
   | JArray vs \<Rightarrow> list_all (all_references P) vs
   | JObject m \<Rightarrow> list_all (\<lambda>(k, w). all_references P w) m
   | _ \<Rightarrow> True)"
  by pat_completeness auto
termination
  by (relation "measure (size \<circ> snd)") (auto simp: size_json)

declare all_references.simps [simp del]

lemma all_references_simps [simp]:
  "all_references P (JString s) \<longleftrightarrow> (is_reference s \<longrightarrow> P s)"
  "all_references P (JArray vs) \<longleftrightarrow> (\<forall>w \<in> set vs. all_references P w)"
  "all_references P (JObject m) \<longleftrightarrow> (\<forall>(k, w) \<in> set m. all_references P w)"
  by (subst all_references.simps, simp add: list_all_iff)+

lemma walk_references_all:
  assumes "walk_references f v path = Ok ()" "\<And>s p. is_reference s \<Longrightarrow> f s p = Ok () \<Longrightarrow> P s"
  shows "all_references P v"
  using assms(1)
proof (induction v arbitrary: path rule: measure_induct_rule [where f = size])
  case (less v)
  show ?case
  proof (cases v)
    case (JString s)
    with less.prems show ?thesis by (auto simp: walk_references.simps is_reference_def assms(2) split: if_splits)
  next
    case (JArray vs)
    have "all_references P w" if w: "w \<in> set vs" for w
    proof -
      from enumerate_has [OF w] obtain i where "(i, w) \<in> set (enumerate 0 vs)" by blast
      with less.prems have "walk_references f w (index_path path i) = Ok ()"
        by (auto simp: walk_references.simps [of f "JArray vs"] JArray)
      with w show ?thesis by (intro less.IH) (auto simp: JArray size_json)
    qed
    then show ?thesis by (simp add: JArray)
  next
    case (JObject m)
    have "all_references P w" if w: "(k, w) \<in> set m" for k w
    proof -
      from w less.prems have "walk_references f w (path @ ''.'' @ k) = Ok ()"
        by (auto simp: walk_references.simps [of f "JObject m"] JObject)
      with w show ?thesis by (intro less.IH) (auto simp: JObject size_json)
    qed
    then show ?thesis by (auto simp: JObject)
  qed (simp_all add: all_references.simps)
qed

lemma operand_cong:
  "all_references (\<lambda>s. resolve_expression_optional s ctx bs = resolve_expression_optional s ctx' bs) v \<Longrightarrow>
     resolve_operand v ctx bs = resolve_operand v ctx' bs"
proof (induction v rule: measure_induct_rule [where f = size])
  case (less v)
  show ?case
  proof (cases v)
    case (JString s)
    with less.prems show ?thesis
      by (cases "is_reference s") (simp_all add: fun_eq_iff resolve_operand_simps(1,2))
  next
    case (JArray vs)
    have "resolve_operand w ctx bs = resolve_operand w ctx' bs" if "w \<in> set vs" for w
      using less.prems that by (intro less.IH) (auto simp: JArray size_json)
    then have "ev_map (\<lambda>w u. resolve_operand w ctx bs u) vs u = ev_map (\<lambda>w u. resolve_operand w ctx' bs u) vs u" for u
      by (intro ev_map_cong) auto
    then show ?thesis
      unfolding JArray fun_eq_iff resolve_operand_simps by simp
  next
    case (JObject m)
    have "resolve_operand w ctx bs = resolve_operand w ctx' bs" if "(k, w) \<in> set m" for k w
      using less.prems that by (intro less.IH) (auto simp: JObject size_json)
    then have "ev_map (\<lambda>(k, w) u. resolve_operand w ctx bs u) m u = ev_map (\<lambda>(k, w) u. resolve_operand w ctx' bs u) m u" for u
      by (intro ev_map_cong) auto
    then show ?thesis
      unfolding JObject fun_eq_iff resolve_operand_simps by simp
  qed (simp_all add: fun_eq_iff resolve_operand_simps)
qed

section \<open>Invariants\<close>

definition invariant_reference :: "string \<Rightarrow> bool" where
  "invariant_reference s \<longleftrightarrow> s \<in> set [''$id'', ''$entity'', ''$version'', ''$fields'', ''$state''] \<or> starts_with s ''$fields.''"

lemma invariant_scope_allows: "scope_allows s e \<Longrightarrow> sc_kind s = ScopeInvariant \<Longrightarrow> invariant_reference e"
  by (auto simp: scope_allows_def invariant_reference_def split: if_splits)

lemma refused_here_not_Ok [simp]: "refused_here s m \<noteq> Ok x" "\<not> (refused_here s m = Ok x)"
  by (cases m; simp)+

lemma validate_reference_invariant:
  assumes "validate_reference e s rd = Ok ()" "sc_kind s = ScopeInvariant" "sc_binders s = []" "starts_with e ''$''"
  shows "invariant_reference e"
proof (cases "scope_allows s e")
  case True
  then show ?thesis using invariant_scope_allows assms(2) by blast
next
  case False
  have others: "\<not> scope_allows s ''$old_fields''" "\<not> scope_allows s ''$args''" using assms(2) by (simp_all add: scope_allows_def)
  obtain answer where answer: "rooted_reference (reference_roots s) e s rd = Some answer" "answer = Ok ()"
    using assms False by (auto simp: validate_reference_def split: prod.splits option.splits)
  then have "strip_prefix ''$fields.'' e \<noteq> None"
    using others by (auto simp: reference_roots_def split: option.splits if_splits)
  then show ?thesis by (simp add: invariant_reference_def starts_with_def)
qed

lemma checked_invariant_operand:
  assumes "checked_operand s v" "sc_kind s = ScopeInvariant" "sc_binders s = []"
  shows "all_references invariant_reference v"
proof -
  obtain path where walked: "validate_operand v path s = Ok ()" using assms(1) by (auto simp: checked_operand_def)
  show ?thesis
    by (rule walk_references_all [OF walked [unfolded validate_operand_def]])
      (use assms(2,3) in \<open>auto simp: res_simps is_reference_def intro: validate_reference_invariant\<close>)
qed

text \<open>Two contexts with the same instance afterwards.\<close>

definition same_after :: "template_context \<Rightarrow> template_context \<Rightarrow> bool" where
  "same_after ctx ctx' \<longleftrightarrow> tc_definition ctx = tc_definition ctx' \<and> tc_id ctx = tc_id ctx'
     \<and> tc_new_fields ctx = tc_new_fields ctx' \<and> tc_to_state ctx = tc_to_state ctx'"

lemma resolve_named_fields:
  "resolve_named ctx (''$fields.'' @ r) = Ok (lookup (tc_new_fields ctx) r (Some (def_schema (tc_definition ctx))) (service ctx))"
  by (simp add: resolve_named_def resolve_root_def)

lemma same_after_expression:
  assumes "same_after ctx ctx'" "invariant_reference s"
  shows "resolve_expression_optional s ctx [] = resolve_expression_optional s ctx' []"
proof -
  have same: "tc_definition ctx' = tc_definition ctx" "tc_id ctx' = tc_id ctx" "tc_new_fields ctx' = tc_new_fields ctx"
    "tc_to_state ctx' = tc_to_state ctx" using assms(1) by (simp_all add: same_after_def)
  have "resolve_named ctx s = resolve_named ctx' s"
  proof (cases "starts_with s ''$fields.''")
    case True
    then obtain r where "s = ''$fields.'' @ r" by (auto simp: starts_with_iff)
    then show ?thesis by (simp only: resolve_named_fields same service_def)
  next
    case False
    then have "s = ''$id'' \<or> s = ''$entity'' \<or> s = ''$version'' \<or> s = ''$fields'' \<or> s = ''$state''"
      using assms(2) by (simp add: invariant_reference_def)
    then show ?thesis by (elim disjE) (simp_all add: resolve_named_def same)
  qed
  then show ?thesis by (simp add: resolve_expression_optional_def split_beta)
qed

lemma all_references_mono: "all_references P v \<Longrightarrow> (\<And>s. P s \<Longrightarrow> Q s) \<Longrightarrow> all_references Q v"
proof (induction v rule: measure_induct_rule [where f = size])
  case (less v)
  show ?case
  proof (cases v)
    case (JArray vs)
    then show ?thesis using less by (auto simp: size_json)
  next
    case (JObject m)
    then show ?thesis using less by (fastforce simp: size_json)
  qed (use less.prems in \<open>auto simp: all_references.simps\<close>)
qed

lemma join_cong:
  assumes "\<And>x. x \<in> set xs \<Longrightarrow> f x = g x"
  shows "rfold (join_step join f) xs s = rfold (join_step join g) xs s"
  by (rule rfold_cong) (auto simp: join_step_def assms split: prod.split)

lemma invariant_condition_cong:
  assumes "same_after ctx ctx'"
  shows "validate_condition_body c path s = Ok () \<Longrightarrow> sc_kind s = ScopeInvariant \<Longrightarrow> sc_binders s = [] \<Longrightarrow> \<not> scope_service s \<Longrightarrow>
    evaluate_condition c ctx [] = evaluate_condition c ctx' []"
proof (induction c arbitrary: path rule: measure_induct_rule [where f = size])
  case (less c)
  note body = less.prems(1)
  show ?case
  proof (cases c rule: condition_cases_leaf)
    case (all cs)
    from body have each: "\<forall>(i, d) \<in> set (enumerate 0 cs). validate_condition_body d (index_path (path @ ''.all'') i) s = Ok ()"
      by (subst (asm) validate_condition_body.simps) (auto simp: all split: if_splits)
    have "evaluate_condition d ctx [] = evaluate_condition d ctx' []" if "d \<in> set cs" for d
      using enumerate_has [OF that, of 0] each that less.prems(2-4) by (auto intro!: less.IH simp: all size_condition_member)
    then show ?thesis unfolding all by (intro ext) (simp add: evaluate_condition.simps [of "CAll cs"] cong: join_cong)
  next
    case (any cs)
    from body have each: "\<forall>(i, d) \<in> set (enumerate 0 cs). validate_condition_body d (index_path (path @ ''.any'') i) s = Ok ()"
      by (subst (asm) validate_condition_body.simps) (auto simp: any split: if_splits)
    have "evaluate_condition d ctx [] = evaluate_condition d ctx' []" if "d \<in> set cs" for d
      using enumerate_has [OF that, of 0] each that less.prems(2-4) by (auto intro!: less.IH simp: any size_condition_member)
    then show ?thesis unfolding any by (intro ext) (simp add: evaluate_condition.simps [of "CAny cs"] cong: join_cong)
  next
    case (neg d)
    from body have "validate_condition_body d (path @ ''.not'') s = Ok ()"
      by (subst (asm) validate_condition_body.simps) (auto simp: neg split: if_splits)
    then have "evaluate_condition d ctx [] = evaluate_condition d ctx' []"
      using less.prems(2-4) by (intro less.IH) (simp_all add: neg)
    then show ?thesis by (intro ext) (simp add: neg evaluate_condition.simps [of "CNot d"])
  next
    case (for_all q)
    with body less.prems(4) show ?thesis
      by (subst (asm) validate_condition_body.simps) (simp add: operator_def service_condition_operators_def)
  next
    case (for_any q)
    with body less.prems(4) show ?thesis
      by (subst (asm) validate_condition_body.simps) (simp add: operator_def service_condition_operators_def)
  next
    case leaf
    show ?thesis
    proof (rule leaf_cong [OF _ leaf])
      show "tc_definition ctx = tc_definition ctx'" using assms by (simp add: same_after_def)
      show "resolve_operand v ctx [] = resolve_operand v ctx' []" if "v \<in> set (leaf_operands c)" for v
      proof (rule operand_cong, rule all_references_mono)
        show "all_references invariant_reference v"
          using leaf_checked [OF body leaf] that less.prems(2,3) checked_invariant_operand by blast
      qed (rule same_after_expression [OF assms])
    qed
  qed
qed

lemma invariants_hold_cong:
  "(\<And>r. r \<in> set rules \<Longrightarrow> evaluate_condition (rule_condition r) ctx [] = evaluate_condition (rule_condition r) ctx' []) \<Longrightarrow>
     invariants_hold rules ctx = invariants_hold rules ctx'"
proof (induction rules)
  case (Cons r rules)
  have "invariants_hold rules ctx = invariants_hold rules ctx'" using Cons by simp
  moreover have "evaluate_condition (rule_condition r) ctx [] = evaluate_condition (rule_condition r) ctx' []"
    using Cons.prems by simp
  ultimately show ?case by (simp cong: truth.case_cong)
qed simp

lemma check_invariants_local:
  assumes "validate_definition d = []" "\<not> has_service_semantics (def_semantics d)" "same_after ctx ctx'"
  shows "check_invariants d ctx = check_invariants d ctx'"
  unfolding check_invariants_def
proof (rule invariants_hold_cong)
  fix r assume r: "r \<in> set (def_invariants d)"
  let ?s = "entity_scope d ScopeInvariant None"
  have "validate_rules (def_invariants d) ''invariants'' ?s = []" using assms(1) by (simp add: validate_definition_def)
  from validate_rules_member [OF this r] obtain path where "validate_rule_definition r path ?s = Ok ()" by blast
  then have "validate_condition_body (rule_condition r) (path @ ''.assert'') ?s = Ok ()"
    by (auto simp: validate_rule_definition_def validate_condition_definition_def invalid_rule_def res_simps split: if_splits)
  then show "evaluate_condition (rule_condition r) ctx [] = evaluate_condition (rule_condition r) ctx' []"
    by (rule invariant_condition_cong [OF assms(3)]) (use assms(2) in \<open>simp_all add: entity_scope_def scope_service_def\<close>)
qed

section \<open>Templates under \<open>kernel/1\<close>\<close>

lemma walk_kernel: "walk v path f c False start = walk v path g b False start"
proof (induction path arbitrary: v f c g b rule: length_induct)
  case (1 path)
  obtain segment rest where seg: "next_segment path = (segment, rest)" by force
  have kernel: "walk v path h e False start = (case Option.bind (as_object v) (\<lambda>m. bt_get m segment) of
      None \<Rightarrow> None
    | Some child \<Rightarrow> (case rest of
        None \<Rightarrow> Some child
      | Some rest \<Rightarrow> walk child rest (member_field (declared_at start h) v segment)
          (e \<and> map_option fd_kind (declared_at start h) \<noteq> Some KUnion) False start))" for h e
    by (subst walk.simps) (simp add: seg Let_def)
  show ?case
  proof (cases "Option.bind (as_object v) (\<lambda>m. bt_get m segment)")
    case None
    then show ?thesis by (simp only: kernel option.case)
  next
    case (Some child)
    show ?thesis
    proof (cases rest)
      case None
      then show ?thesis by (simp only: kernel Some option.case)
    next
      case (Some rest')
      then have "length rest' < length path" using seg next_segment_smaller by blast
      then have "walk w rest' h e False start = walk w rest' h' e' False start" for w h e h' e' using 1 by blast
      then show ?thesis by (simp only: kernel \<open>_ = Some child\<close> Some option.case)
    qed
  qed
qed

lemma lookup_kernel: "lookup m path f False = lookup m path g False"
proof (cases "next_segment path")
  case (Pair segment rest)
  show ?thesis
  proof (cases "bt_get m segment")
    case None
    then show ?thesis by (simp add: lookup_def Pair)
  next
    case (Some v)
    show ?thesis
    proof (cases rest)
      case None
      then show ?thesis by (simp add: lookup_def Pair Some)
    next
      case (Some rest')
      have "walk v rest' h b False Root = walk v rest' h' b' False Root" for h b h' b' by (rule walk_kernel)
      then show ?thesis by (simp add: lookup_def Pair \<open>bt_get m segment = Some v\<close> Some Let_def)
    qed
  qed
qed

definition same_but_schema :: "template_context \<Rightarrow> template_context \<Rightarrow> bool" where
  "same_but_schema ctx ctx' \<longleftrightarrow> (\<exists>schema. ctx' = ctx\<lparr>tc_arguments_schema := schema\<rparr>) \<and> \<not> service ctx"

lemma same_but_schema_expression:
  assumes "same_but_schema ctx ctx'"
  shows "resolve_expression_optional s ctx bs = resolve_expression_optional s ctx' bs"
proof -
  obtain schema where ctx': "ctx' = ctx\<lparr>tc_arguments_schema := schema\<rparr>" and kernel: "\<not> service ctx"
    using assms by (auto simp: same_but_schema_def)
  have service: "service ctx' = service ctx" by (simp add: ctx' service_def)
  have "resolve_root ctx s = resolve_root ctx' s"
    using kernel service lookup_kernel [of "tc_args ctx" _ "tc_arguments_schema ctx" schema]
    by (simp add: resolve_root_def ctx' split: option.split)
  then have "resolve_named ctx s = resolve_named ctx' s" by (simp add: resolve_named_def ctx')
  then show ?thesis by (simp add: resolve_expression_optional_def service split: prod.split option.split)
qed

lemma template_cong:
  "(\<And>s. resolve_expression_optional s ctx [] = resolve_expression_optional s ctx' []) \<Longrightarrow> resolve_template v ctx = resolve_template v ctx'"
proof (induction v rule: measure_induct_rule [where f = size])
  case (less v)
  show ?case
  proof (cases v)
    case (JString s)
    then show ?thesis by (simp add: resolve_template.simps [of "JString s"] less.prems)
  next
    case (JArray vs)
    have "resolve_template w ctx = resolve_template w ctx'" if "w \<in> set vs" for w
      using that less.prems by (intro less.IH) (auto simp: JArray size_json)
    then have "rmap (\<lambda>w. resolve_template w ctx) vs = rmap (\<lambda>w. resolve_template w ctx') vs" by (intro rmap_cong) auto
    then show ?thesis by (simp add: JArray resolve_template.simps [of "JArray vs"])
  next
    case (JObject m)
    have "resolve_template w ctx = resolve_template w ctx'" if "(k, w) \<in> set m" for k w
      using that less.prems by (intro less.IH) (auto simp: JObject size_json)
    then have "rmap (\<lambda>(k, w). rbind (resolve_template w ctx) (\<lambda>x. Ok (k, x))) m
        = rmap (\<lambda>(k, w). rbind (resolve_template w ctx') (\<lambda>x. Ok (k, x))) m" by (intro rmap_cong) auto
    then show ?thesis by (simp add: JObject resolve_template.simps [of "JObject m"])
  qed (simp_all add: resolve_template.simps)
qed

end
