(* ===== verification/Sourced.thy ===== *)
theory Sourced
  imports Rehydrate Locality
begin

text \<open>
  The fold over events is complete for what the kernel emits: the events of a \<open>kernel/1\<close> instance, each decision's
  under its revision, fold back to the instance that emitted them.
\<close>

section \<open>One decision's events\<close>

lemma rfold_weaken:
  "rfold f xs s = Ok t \<Longrightarrow> (\<And>x s t. f x s = Ok t \<Longrightarrow> g x s = Ok t) \<Longrightarrow> rfold g xs s = Ok t"
  by (induction xs arbitrary: s) (auto simp: res_simps)

lemma enumerated: "(n, e) \<in> set (enumerate k xs) \<Longrightarrow> e \<in> set xs"
  by (metis image_eqI list.set_map map_snd_enumerate snd_conv)

lemma rfold_units: "(\<And>x. x \<in> set xs \<Longrightarrow> f x = Ok ()) \<Longrightarrow> rfold (\<lambda>x _. f x) xs () = Ok ()"
  by (induction xs) auto

lemma validate_object_elsewhere:
  "validate_object_under s m p Kernel1 = [] \<Longrightarrow> schema_ok s \<Longrightarrow> jmap_ok m \<Longrightarrow> validate_object s m q = []"
  by (simp add: validate_object_def validate_object_Nil)

lemma would_write_assigned:
  assumes "assign_fields name (branch_implicit op t) ctx args = Ok (object, removed)"
  shows "would_write name op ctx (tc_old_fields ctx) = Ok (object, removed)"
proof -
  have "rfold (\<lambda>(field, v) (object, removed).
         rbind (assigned_value name field v ctx) (\<lambda>assigned.
           case assigned of
             Some w \<Rightarrow> Ok (bt_insert field w object, removed)
           | None \<Rightarrow> Ok (bt_remove field object, bs_insert field removed)))
       (op_set op) (canonical_object (tc_old_fields ctx), []) = Ok (object, removed)"
    using assms by (auto simp: assign_fields_def res_simps insert_present_arguments_def)
  then show ?thesis
    unfolding would_write_def
  proof (rule rfold_weaken)
    fix x s t
    assume step: "(case x of (field, v) \<Rightarrow> \<lambda>(object, removed). rbind (assigned_value name field v ctx) (\<lambda>assigned.
           case assigned of Some w \<Rightarrow> Ok (bt_insert field w object, removed)
           | None \<Rightarrow> Ok (bt_remove field object, bs_insert field removed))) s = Ok t"
    obtain field v where x: "x = (field, v)" by force
    obtain assigned where assigned: "assigned_value name field v ctx = Ok assigned"
      using step by (cases s) (auto simp: x res_simps)
    show "(case x of (field, assignment) \<Rightarrow> \<lambda>(written, cleared).
       case assigned_value name field assignment ctx of
         Ok (Some v) \<Rightarrow> Ok (bt_insert field v written, cleared)
       | Ok None \<Rightarrow> Ok (bt_remove field written, bs_insert field cleared)
       | Err e \<Rightarrow> Err (SetUnresolved name field e)) s = Ok t"
      using step by (cases s; cases assigned) (simp_all add: x assigned)
  qed
qed

definition clears :: "json smap \<Rightarrow> string \<Rightarrow> bool" where
  "clears assignments field \<longleftrightarrow> (\<exists>v w. (field, v) \<in> set assignments \<and> set_assignment_of v = AssignCleared w)"

lemma assigned_None: "assigned_value name field v ctx = Ok None \<Longrightarrow> \<exists>w. set_assignment_of v = AssignCleared w"
  by (cases "set_assignment_of v") (auto simp: assigned_value_def res_simps Let_def)

lemma loop_clears:
  assumes "rfold (\<lambda>(field, assignment) (written, cleared).
       case assigned_value name field assignment ctx of
         Ok (Some v) \<Rightarrow> Ok (bt_insert field v written, cleared)
       | Ok None \<Rightarrow> Ok (bt_remove field written, bs_insert field cleared)
       | Err e \<Rightarrow> Err (SetUnresolved name field e)) assignments (object, removed0) = Ok (written, removed)"
    and "k \<in> set removed"
  shows "k \<in> set removed0 \<or> clears assignments k"
  using assms(1)
proof (induction assignments arbitrary: object removed0)
  case Nil
  then show ?case using assms(2) by simp
next
  case (Cons entry assignments)
  obtain field v where entry: "entry = (field, v)" by force
  have weaken: "clears assignments k \<Longrightarrow> clears (entry # assignments) k" by (auto simp: clears_def)
  show ?case
  proof (cases "assigned_value name field v ctx")
    case (Inl e)
    with Cons.prems show ?thesis by (simp add: entry)
  next
    case (Inr assigned)
    show ?thesis
    proof (cases assigned)
      case None
      with Cons.prems Inr have "k \<in> set (bs_insert field removed0) \<or> clears assignments k"
        by (intro Cons.IH [of "bt_remove field object"]) (simp add: entry)
      moreover have "clears (entry # assignments) field"
        using assigned_None [of name field v ctx] Inr None by (auto simp: clears_def entry)
      ultimately show ?thesis using weaken by auto
    next
      case (Some w)
      with Cons.prems Inr have "k \<in> set removed0 \<or> clears assignments k"
        by (intro Cons.IH [of "bt_insert field w object"]) (simp add: entry)
      then show ?thesis using weaken by auto
    qed
  qed
qed

section \<open>Payloads\<close>

lemma payload_agrees:
  assumes "materialize_event m ctx revision args removed = Ok e" "ed_payload_if_present m = []"
    and "resolve_template (ed_payload m) ctx' = resolve_template (ed_payload m) ctx"
  shows "payload_disagrees (ed_payload m) ctx' (ev_payload e) = None"
  using assms by (auto simp: materialize_event_def payload_disagrees_def Let_def res_simps)

lemma payloads_agree:
  assumes "\<And>m. m \<in> set templates \<Longrightarrow> ed_payload_if_present m = []"
    and "\<And>v. resolve_template v ctx' = resolve_template v ctx"
  shows "rmap (\<lambda>m. materialize_event m ctx revision args removed) templates = Ok batch \<Longrightarrow>
    payload_refused index batch ctx' (name, templates) = None"
  using assms(1)
proof (induction templates arbitrary: batch index)
  case (Cons m templates)
  obtain e rest where batch: "batch = e # rest" and e: "materialize_event m ctx revision args removed = Ok e"
    and rest: "rmap (\<lambda>m. materialize_event m ctx revision args removed) templates = Ok rest"
    using Cons.prems(1) by (auto simp: res_simps)
  have "payload_refused (Suc index) rest ctx' (name, templates) = None" using Cons.IH [OF rest] Cons.prems(2) by simp
  moreover have "payload_disagrees (ed_payload m) ctx' (ev_payload e) = None"
    using payload_agrees [OF e] Cons.prems(2) assms(2) by simp
  ultimately show ?case by (simp add: payload_refused_def batch split: list.splits)
qed (simp add: payload_refused_def)

lemma check_payloads_agree:
  "payload_refused index batch ctx writer = None \<Longrightarrow> writer \<in> set writers \<Longrightarrow> check_payloads index batch ctx writers = Ok ()"
  by (force simp: check_payloads_def Let_def)

lemma refusals_of_candidates: "x \<in> set xs \<Longrightarrow> f x = Ok () \<Longrightarrow> x \<in> set (snd (refusals_of f xs))"
  by (induction xs) (auto split: sum.split prod.split)

section \<open>A decision folds\<close>

lemma registered_payloads:
  assumes "registered d" "\<not> has_service_semantics (def_semantics d)"
  shows "cd_emit (def_create d) = Some m \<Longrightarrow> ed_payload_if_present m = []"
    and "(name, op) \<in> set (def_operations d) \<Longrightarrow> m \<in> set (op_emits op) \<Longrightarrow> ed_payload_if_present m = []"
proof -
  have valid: "validate_definition d = []" using assms(1) by (simp add: registered_def)
  have none: "ed_payload_if_present m = []" if "validate_conditional_event m path arguments (def_semantics d) = []" for m path arguments
    using that assms(2) kernel_semantics [OF assms(2)]
    by (auto simp: validate_conditional_event_def has_conditional_presence_def Let_def split: if_splits)
  show "ed_payload_if_present m = []" if "cd_emit (def_create d) = Some m"
  proof -
    have "validate_create_emit d = []" using valid by (simp add: validate_definition_def)
    with that show ?thesis by (intro none) (auto simp: validate_create_emit_def)
  qed
  show "ed_payload_if_present m = []" if op: "(name, op) \<in> set (def_operations d)" and m: "m \<in> set (op_emits op)"
  proof -
    have "validate_operation d name op = []" using validate_definition_Nil(10) [OF valid] op by blast
    moreover obtain n where "(n, m) \<in> set (enumerate 0 (op_emits op))" using enumerate_has [OF m, of 0] by blast
    ultimately show ?thesis using none by (fastforce simp: validate_operation_def Let_def)
  qed
qed

text \<open>What the events of a decision say, taken together.\<close>

definition emitted_by :: "entity_definition \<Rightarrow> entity_instance \<Rightarrow> entity_instance \<Rightarrow> domain_event list \<Rightarrow> string option \<Rightarrow> jmap \<Rightarrow> jmap
    \<Rightarrow> string list \<Rightarrow> bool" where
  "emitted_by d i j batch from args changed removed \<longleftrightarrow> (\<forall>e \<in> set batch. ev_entity e = def_entity d \<and> ev_version e = def_version d
     \<and> ev_id e = in_id i \<and> ev_revision e = in_revision j \<and> ev_from_state e = from \<and> ev_to_state e = in_state j \<and> ev_args e = args
     \<and> ev_changed e = changed \<and> ev_removed e = removed)"

lemma emitted_hd: "emitted_by d i j batch from args changed removed \<Longrightarrow> batch \<noteq> [] \<Longrightarrow>
    ev_entity (hd batch) = def_entity d \<and> ev_version (hd batch) = def_version d \<and> ev_id (hd batch) = in_id i
    \<and> ev_revision (hd batch) = in_revision j \<and> ev_from_state (hd batch) = from \<and> ev_to_state (hd batch) = in_state j
    \<and> ev_args (hd batch) = args \<and> ev_changed (hd batch) = changed \<and> ev_removed (hd batch) = removed"
  by (simp add: emitted_by_def)

lemma emitted_one_decision:
  assumes "emitted_by d i j batch from args changed removed" "batch \<noteq> []"
  shows "one_decision index batch = Ok ()"
proof -
  obtain first rest where batch: "batch = first # rest" using assms(2) by (cases batch) auto
  have "List.find (\<lambda>(n, e). ev_from_state e \<noteq> ev_from_state first \<or> ev_to_state e \<noteq> ev_to_state first
          \<or> ev_args e \<noteq> ev_args first \<or> ev_changed e \<noteq> ev_changed first \<or> ev_removed e \<noteq> ev_removed first)
        (enumerate (Suc index) rest) = None"
    using assms(1) enumerated by (fastforce simp: find_None_iff emitted_by_def batch)
  then show ?thesis by (simp add: one_decision_def Let_def batch)
qed

lemma emitted_checked:
  assumes "emitted_by d i j batch from args changed removed" "in_state j \<in> set (lc_states (def_lifecycle d))"
    and "\<And>e field. e \<in> set batch \<Longrightarrow> field \<in> set removed \<Longrightarrow> \<exists>s. from = Some s \<and> clears_on d s (in_state j) (ev_type e) field"
  shows "rfold (\<lambda>entry _. check_event d i entry) (enumerate index batch) () = Ok ()"
proof (rule rfold_units)
  fix x assume "x \<in> set (enumerate index batch)"
  then obtain n e where x: "x = (n, e)" and e: "e \<in> set batch" using enumerated by (metis surj_pair)
  have said: "ev_entity e = def_entity d" "ev_version e = def_version d" "ev_id e = in_id i" "ev_to_state e = in_state j"
    "ev_from_state e = from" "ev_removed e = removed" using assms(1) e by (simp_all add: emitted_by_def)
  have "List.find (\<lambda>field. case ev_from_state e of None \<Rightarrow> True
      | Some s \<Rightarrow> \<not> clears_on d s (ev_to_state e) (ev_type e) field) (ev_removed e) = None"
    using assms(3) [OF e] by (force simp: find_None_iff said)
  then show "check_event d i x = Ok ()"
    using assms(2) said(1-4) by (simp add: x check_event_def)
qed

text \<open>What is left to show of a batch once its events agree with a decision.\<close>

lemma fold_revision_emitted:
  assumes emitted: "emitted_by d i j batch from args changed removed" and batch: "batch \<noteq> []"
    and removal: "\<And>e field. e \<in> set batch \<Longrightarrow> field \<in> set removed \<Longrightarrow> \<exists>s. from = Some s \<and> clears_on d s (in_state j) (ev_type e) field"
    and state: "in_state j \<in> set (lc_states (def_lifecycle d))"
    and revision: "next_revision i = Ok (in_revision j)"
    and writers: "writers_of d i index batch = Ok writers" "writer \<in> set writers"
    and disjoint: "set removed \<inter> fst ` set changed = {}"
    and rebuilt: "apply_event_changes (in_fields i) removed changed = in_fields j"
    and j: "j = i\<lparr>in_state := in_state j, in_revision := in_revision j, in_fields := in_fields j\<rparr>"
    and valid: "validate_object (def_schema d) (in_fields j) ''$fields'' = []"
    and invariants: "check_invariants d (fold_context d (hd batch) [] None [] (in_fields j) from) = Ok ()"
    and payloads: "payload_refused index batch (case from of
          None \<Rightarrow> fold_context d (hd batch) [] None [] (in_fields j) None
        | Some s \<Rightarrow> fold_context d (hd batch) args None (in_fields i) (in_fields j) (Some s)) writer = None"
  shows "fold_revision d i index batch = Ok j"
proof -
  note first = emitted_hd [OF emitted batch]
  have clean: "\<not> list_ex (bt_contains changed) removed"
    using disjoint by (auto simp: list_ex_iff bt_contains_def map_of_eq_None_iff)
  have checked: "rfold (\<lambda>entry _. check_event d i entry) (enumerate index batch) () = Ok ()"
    by (rule emitted_checked [OF emitted state removal])
  have agree: "one_decision index batch = Ok ()" by (rule emitted_one_decision [OF emitted batch])
  have answered: "check_payloads index batch (case from of
          None \<Rightarrow> fold_context d (hd batch) [] None [] (in_fields j) None
        | Some s \<Rightarrow> fold_context d (hd batch) args None (in_fields i) (in_fields j) (Some s)) writers = Ok ()"
    by (rule check_payloads_agree [OF payloads writers(2)])
  show ?thesis
    using answered clean invariants j [symmetric] unfolding fold_revision_def Let_def
    by (cases "from") (simp_all add: checked revision agree writers(1) first rebuilt valid)
qed

section \<open>An operation's decision folds\<close>

lemma materialized_types:
  "rmap (\<lambda>m. materialize_event m ctx revision args removed) templates = Ok batch \<Longrightarrow> map ev_type batch = map ed_event_type templates"
  by (induction templates arbitrary: batch) (auto simp: res_simps materialize_event_coordinates(5))

lemma kernel_branch:
  assumes "select_branch d i op name args = Ok selected" "\<not> has_service_semantics (def_semantics d)"
  obtains t where "t \<in> set (op_transitions op)" "in_state i \<in> set (as_slice (td_from t))" "selected = branch_implicit op (td_to t)"
  using assms(1)
proof (cases rule: select_branch_cases)
  case (outcome o' p)
  then show thesis using assms(2) by (simp add: takes_branches_def)
next
  case (transition t)
  then show thesis using that by blast
qed

lemma fulfil_nothing:
  "fulfil_fields d name (branch_implicit op t) fulfillments state = Ok state' \<Longrightarrow> state' = state"
  by (auto simp: fulfil_fields_def split: option.splits if_splits)

lemma decided_candidate:
  assumes same_context: "fold_context d (hd batch) args (Some (op_arguments op)) (in_fields i) (in_fields i) (Some (in_state i))
      = operation_context d i op args (in_fields i) t"
    and types: "map ev_type batch = map ed_event_type (op_emits op)"
    and arguments: "validate_object (op_arguments op) args ''arguments'' = []" "ev_args (hd batch) = args"
    and preconditions: "check_preconditions name (op_preconditions op) (operation_context d i op args (in_fields i) t) = Ok ()"
    and assigned: "assign_fields name (branch_implicit op t) (operation_context d i op args (in_fields i) t) args = Ok (new_fields, removed)"
    and said: "ev_changed (hd batch) = changed_fields (operation_context d i op args new_fields t)" "ev_removed (hd batch) = removed"
  shows "candidate d i batch (in_state i) (name, op) = Ok ()"
proof -
  have written: "would_write name op (operation_context d i op args (in_fields i) t) (in_fields i) = Ok (new_fields, removed)"
    using would_write_assigned [OF assigned] by (simp add: operation_context_def)
  have "changed_fields (fold_context d (hd batch) args (Some (op_arguments op)) (in_fields i) new_fields (Some (in_state i)))
      = changed_fields (operation_context d i op args new_fields t)"
    by (simp add: changed_fields_def fold_context_def operation_context_def)
  then show ?thesis
    by (simp add: candidate_def Let_def ensure_def arguments same_context types [symmetric] preconditions written said)
qed

lemma decided_writers:
  assumes op: "(name, op) \<in> set (def_operations d)"
    and declared: "declares op (in_state i) (ev_to_state (hd batch))"
    and types: "map ev_type batch = map ed_event_type (op_emits op)" and batch: "batch \<noteq> []"
    and state: "ev_from_state (hd batch) = Some (in_state i)" "\<And>e. e \<in> set batch \<Longrightarrow> ev_to_state e = ev_to_state (hd batch)"
    and candidate: "candidate d i batch (in_state i) (name, op) = Ok ()"
  obtains writers where "writers_of d i index batch = Ok writers" "(name, op_emits op) \<in> set writers"
proof -
  have emits: "emits_type op (ev_type e)" if "e \<in> set batch" for e
  proof -
    have "ev_type e \<in> set (map ed_event_type (op_emits op))" using that types [symmetric] by simp
    then show ?thesis by (auto simp: emits_type_def list_ex_iff)
  qed
  have member: "op \<in> set (bt_values (def_operations d))" using op by (force simp: bt_values_def)
  have permitted: "permits d (in_state i) (ev_to_state (hd batch))"
    using member declared by (auto simp: permits_def list_ex_iff)
  have emitting: "List.find (\<lambda>(n, e). \<not> emits_on d (in_state i) (ev_to_state e) (ev_type e)) (enumerate index batch) = None"
    using member declared emits state(2) enumerated by (fastforce simp: find_None_iff emits_on_def list_ex_iff)
  have "asked batch (in_state i) (name, op)"
    using declared emits [of "hd batch"] batch by (force simp: asked_def emits_type_def list_ex_iff)
  then have asked: "(name, op) \<in> set (filter (asked batch (in_state i)) (def_operations d))" using op by simp
  obtain refusals candidates where split: "refusals_of (candidate d i batch (in_state i)) (filter (asked batch (in_state i)) (def_operations d))
      = (refusals, candidates)" by force
  have found: "(name, op) \<in> set candidates" using refusals_of_candidates [where f = "candidate d i batch (in_state i)", OF asked candidate] by (simp add: split)
  then have "operations_that_would_have_produced d i batch (in_state i) = Ok candidates"
    by (auto simp: operations_that_would_have_produced_def split)
  then have "writers_of d i index batch = Ok (map (\<lambda>(name, op). (name, op_emits op)) candidates)"
    by (simp add: writers_of_def state(1) operation_writers_def permitted emitting)
  with found show thesis by (intro that) force+
qed

lemma decided_clears:
  assumes op: "(name, op) \<in> set (def_operations d)" and declared: "declares op s t" and emits: "emits_type op event_type"
    and sorted: "sorted_keys (op_set op)"
    and assigned: "assign_fields name (branch_implicit op t) ctx args = Ok (new_fields, removed)" and field: "field \<in> set removed"
  shows "clears_on d s t event_type field"
proof -
  have "clears (op_set op) field"
    using loop_clears [OF would_write_assigned [OF assigned, unfolded would_write_def] field] by simp
  then obtain v w where "map_of (op_set op) field = Some v" "set_assignment_of v = AssignCleared w"
    using sorted by (auto simp: clears_def sorted_keys_distinct)
  moreover have "op \<in> set (bt_values (def_operations d))" using op by (force simp: bt_values_def)
  ultimately show ?thesis using declared emits by (auto simp: clears_on_def list_ex_iff)
qed

lemma decided_folds:
  assumes decided: "decide_with_fulfillments S d i name arguments fulfillments check = Ok (Accepted dn)"
    and reg: "registered d" and kernel: "\<not> has_service_semantics (def_semantics d)" and old: "jmap_ok (in_fields i)"
    and json: "json_ok arguments" and actions: "\<And>a. fulfillments = Some a \<Longrightarrow> actions_ok a" and some: "dn_events dn \<noteq> []"
  shows "fold_revision d i index (dn_events dn) = Ok (dn_instance dn)"
proof -
  have d: "definition_ok d" by (rule registered_definition_ok [OF reg])
  have sem: "def_semantics d = Kernel1" by (rule kernel_semantics [OF kernel])
  obtain op args selected where match: "ensure_instance_matches d i = Ok ()" and op: "map_of (def_operations d) name = Some op"
    and norm: "normalize_arguments d name arguments = Ok args" and sel: "select_branch d i op name args = Ok selected"
    and acc: "accept_branch S d i op name args fulfillments check selected = Ok dn"
    using decided by (rule decide_accepted_steps)
  have member: "(name, op) \<in> set (def_operations d)" using op by (rule map_of_SomeD)
  have sorted: "sorted_keys (op_set op)"
    using reg member by (fastforce simp: registered_def document_ok_def operation_document_ok_def list_all_iff intro: jmap_ok_sorted)
  have valid_args: "validate_object (op_arguments op) args ''arguments'' = []"
    using norm by (auto simp: normalize_arguments_def op res_simps Let_def validate_object_def sem)
  obtain t where t: "t \<in> set (op_transitions op)" "in_state i \<in> set (as_slice (td_from t))" "selected = branch_implicit op (td_to t)"
    using sel kernel by (rule kernel_branch)
  have declared: "declares op (in_state i) (td_to t)" using t by (auto simp: declares_def list_ex_iff)
  from acc show ?thesis
  proof (cases rule: accept_branch_steps)
    case (1 fields0 new_fields removed revision result events response snapshot ctx)
    have fields0: "fields0 = (new_fields, removed)" using fulfil_nothing [OF 1(3) [unfolded t(3)]] by simp
    note steps = 1(1,2,9,10) [unfolded t(3) branch_implicit_simps fields0]
    let ?j = "dn_instance dn" and ?batch = "dn_events dn"
    have dn: "?j = i\<lparr>in_state := td_to t, in_revision := revision, in_fields := new_fields\<rparr>" "?batch = events"
      by (simp_all add: 1(6,13) t(3))
    have ctx: "ctx = operation_context d i op args new_fields (td_to t)" by (simp add: 1(7) t(3))
    have entity: "in_entity i = def_entity d" "in_version i = def_version d"
      using match by (auto simp: ensure_instance_matches_def ensure_entity_matches_def res_simps split: if_splits)
    have emitted: "emitted_by d i ?j ?batch (Some (in_state i)) args (changed_fields ctx) removed"
      unfolding emitted_by_def
    proof
      fix e assume "e \<in> set ?batch"
      then obtain m where "materialize_event m ctx revision args removed = Ok e"
        using rmap_source [OF steps(4)] by (auto simp: dn)
      note said = materialize_event_coordinates [OF this]
      then show "ev_entity e = def_entity d \<and> ev_version e = def_version d \<and> ev_id e = in_id i \<and> ev_revision e = in_revision ?j
        \<and> ev_from_state e = Some (in_state i) \<and> ev_to_state e = in_state ?j \<and> ev_args e = args
        \<and> ev_changed e = changed_fields ctx \<and> ev_removed e = removed"
        by (simp add: ctx operation_context_def dn)
    qed
    note first = emitted_hd [OF emitted some]
    have moved: "ev_to_state (hd ?batch) = td_to t" using first by (simp add: dn)
    have types: "map ev_type ?batch = map ed_event_type (op_emits op)"
      using materialized_types [OF steps(4)] by (simp add: dn)
    have same_context: "fold_context d (hd ?batch) args (Some (op_arguments op)) (in_fields i) object (Some (in_state i))
        = operation_context d i op args object (td_to t)" for object
      using first moved by (simp add: fold_context_def operation_context_def)
    have candidate: "candidate d i ?batch (in_state i) (name, op) = Ok ()"
      by (rule decided_candidate [OF same_context types valid_args _ steps(1,2)]) (use first ctx in simp_all)
    obtain writers where writers: "writers_of d i index ?batch = Ok writers" "(name, op_emits op) \<in> set writers"
    proof (rule decided_writers [OF member _ types some _ _ candidate])
      show "declares op (in_state i) (ev_to_state (hd ?batch))" using declared moved by simp
      show "ev_from_state (hd ?batch) = Some (in_state i)" using first by simp
      show "ev_to_state e = ev_to_state (hd ?batch)" if "e \<in> set ?batch" for e using emitted that first by (simp add: emitted_by_def)
    qed
    have ok: "instance_ok S d ?j" by (rule decided_instance_ok [OF decided d old json actions])
    have distinct: "distinct (map fst a)" if "fulfillments = Some a" for a
      using actions [OF that] by (auto simp: actions_ok_def intro: sorted_keys_distinct)
    have accounted: "accounts (in_fields i) (in_fields ?j, removed)" "changed_fields ctx = filter (\<lambda>(name, v). map_of (in_fields i) name \<noteq> Some v) (in_fields ?j)"
      using decide_accounts(1) [OF decided old registered_writes_once [OF reg] distinct]
      by (simp_all add: 1(13) changed_fields_def ctx operation_context_def) (simp_all add: dn 1(6))
    have valid: "validate_definition d = []" using reg by (simp add: registered_def)
    have schema: "same_but_schema ctx (fold_context d (hd ?batch) args None (in_fields i) (in_fields ?j) (Some (in_state i)))"
      using first by (auto simp: same_but_schema_def ctx fold_context_def operation_context_def dn service_def kernel intro: exI [of _ None])
    show ?thesis
    proof (rule fold_revision_emitted [OF emitted some _ _ _ writers])
      show "\<exists>s. Some (in_state i) = Some s \<and> clears_on d s (in_state ?j) (ev_type e) field"
        if e: "e \<in> set ?batch" and field: "field \<in> set removed" for e field
      proof -
        have "ev_type e \<in> set (map ed_event_type (op_emits op))" using e types [symmetric] by simp
        then have "emits_type op (ev_type e)" by (auto simp: emits_type_def list_ex_iff)
        then show ?thesis using decided_clears [OF member declared _ sorted steps(2) field] by (simp add: dn)
      qed
      show "in_state ?j \<in> set (lc_states (def_lifecycle d))"
        using ok by (auto simp: instance_ok_def ensure_instance_matches_def ensure_state_known_def res_simps ensure_def split: if_splits)
      show "next_revision i = Ok (in_revision ?j)" using 1(5) by (simp add: dn)
      show "set removed \<inter> fst ` set (changed_fields ctx) = {}"
        using accounted by (force simp: accounts_def map_of_eq_None_iff)
      show "apply_event_changes (in_fields i) removed (changed_fields ctx) = in_fields ?j"
        using apply_event_changes_rebuilds [OF accounted(1) jmap_ok_sorted [OF old]] accounted(2) by simp
      show "?j = i\<lparr>in_state := in_state ?j, in_revision := in_revision ?j, in_fields := in_fields ?j\<rparr>" by (simp add: dn)
      show "validate_object (def_schema d) (in_fields ?j) ''$fields'' = []"
        using ok d by (intro validate_object_elsewhere) (auto simp: instance_ok_def sem definition_ok_def)
      show "check_invariants d (fold_context d (hd ?batch) [] None [] (in_fields ?j) (Some (in_state i))) = Ok ()"
        using check_invariants_local [OF valid kernel, of "fold_context d (hd ?batch) [] None [] (in_fields ?j) (Some (in_state i))" ctx] steps(3) first
        by (simp add: same_after_def fold_context_def ctx operation_context_def dn)
      show "payload_refused index ?batch (case Some (in_state i) of
          None \<Rightarrow> fold_context d (hd ?batch) [] None [] (in_fields ?j) None
        | Some s \<Rightarrow> fold_context d (hd ?batch) args None (in_fields i) (in_fields ?j) (Some s)) (name, op_emits op) = None"
        unfolding option.case
        by (rule payloads_agree [OF _ template_cong [OF same_but_schema_expression [OF schema], symmetric] steps(4) [folded dn(2)]])
          (rule registered_payloads(2) [OF reg kernel member])
    qed
  qed
qed

section \<open>A creation folds\<close>

lemma apply_event_changes_blank: "sorted_keys object \<Longrightarrow> apply_event_changes [] [] object = object"
  by (simp add: apply_event_changes_def bt_collect_def [symmetric] bt_collect_id)

definition blank_instance :: "entity_definition \<Rightarrow> string \<Rightarrow> entity_instance" where
  "blank_instance d i = \<lparr>in_entity = def_entity d, in_version = def_version d, in_id = i, in_state = lc_initial (def_lifecycle d),
     in_revision = 0, in_fields = []\<rparr>"

lemma created_folds:
  assumes created: "decide_create_as S d i input check = Ok (Accepted dn)"
    and reg: "registered d" and kernel: "\<not> has_service_semantics (def_semantics d)" and json: "json_ok input"
    and some: "dn_events dn \<noteq> []"
  shows "fold_revision d (blank_instance d i) 0 (dn_events dn) = Ok (dn_instance dn)"
    and "\<forall>e \<in> set (dn_events dn). ev_id e = i \<and> ev_from_state e = None \<and> ev_revision e = in_revision (dn_instance dn)"
proof -
  have d: "definition_ok d" by (rule registered_definition_ok [OF reg])
  have sem: "def_semantics d = Kernel1" by (rule kernel_semantics [OF kernel])
  have ok: "instance_ok S d (dn_instance dn)"
    using decide_create_from [OF created d json] created_instance_ok [OF _ d] by blast
  obtain object events where j: "dn_instance dn = initial_instance d i object"
    and invariants: "check_invariants d (create_context d (Some i) [] None object) = Ok ()"
    and emits: "(case cd_emit (def_create d) of
         Some e \<Rightarrow> rbind (materialize_event e (create_context d (Some i) [] None object) 1 object []) (\<lambda>ev. Ok [ev])
       | None \<Rightarrow> Ok []) = Ok events" and events: "dn_events dn = events"
    using created kernel
    by (auto simp: decide_create_as_def create_from_fields_def takes_branches_def res_simps Let_def created_decision_def
        split: if_splits)
  obtain m where emit: "cd_emit (def_create d) = Some m" using emits events some by (cases "cd_emit (def_create d)") auto
  obtain e where made: "materialize_event m (create_context d (Some i) [] None object) 1 object [] = Ok e" and "[e] = dn_events dn"
    using emits events by (auto simp: emit res_simps)
  then have batch: "dn_events dn = [e]" by simp
  have fields: "jmap_ok object" using ok by (simp add: instance_ok_def j initial_instance_def)
  have changed: "changed_fields (create_context d (Some i) [] None object) = object"
    by (simp add: changed_fields_def create_context_def)
  note said = materialize_event_coordinates [OF made, unfolded changed]
  have emitted: "emitted_by d (blank_instance d i) (dn_instance dn) (dn_events dn) None object object []"
    using said by (simp add: emitted_by_def batch j initial_instance_def blank_instance_def create_context_def)
  note first = emitted_hd [OF emitted some]
  have same_context: "fold_context d (hd (dn_events dn)) [] None [] object None = create_context d (Some i) [] None object"
    using first by (simp add: fold_context_def create_context_def j initial_instance_def blank_instance_def)
  have writers: "writers_of d (blank_instance d i) 0 (dn_events dn) = Ok [(''create'', [m])]"
    using said by (simp add: writers_of_def creation_writers_def batch emit create_context_def)
  show "fold_revision d (blank_instance d i) 0 (dn_events dn) = Ok (dn_instance dn)"
  proof (rule fold_revision_emitted [OF emitted some _ _ _ writers])
    show "in_state (dn_instance dn) \<in> set (lc_states (def_lifecycle d))"
      using d by (simp add: j initial_instance_def definition_ok_def)
    show "next_revision (blank_instance d i) = Ok (in_revision (dn_instance dn))"
      by (simp add: next_revision_def blank_instance_def j initial_instance_def)
    show "apply_event_changes (in_fields (blank_instance d i)) [] object = in_fields (dn_instance dn)"
      using apply_event_changes_blank [OF jmap_ok_sorted [OF fields]] by (simp add: j initial_instance_def blank_instance_def)
    show "dn_instance dn = blank_instance d i\<lparr>in_state := in_state (dn_instance dn), in_revision := in_revision (dn_instance dn),
        in_fields := in_fields (dn_instance dn)\<rparr>" by (simp add: j initial_instance_def blank_instance_def)
    show "validate_object (def_schema d) (in_fields (dn_instance dn)) ''$fields'' = []"
      using ok d by (intro validate_object_elsewhere) (auto simp: instance_ok_def sem definition_ok_def)
    show "check_invariants d (fold_context d (hd (dn_events dn)) [] None [] (in_fields (dn_instance dn)) None) = Ok ()"
      using invariants same_context by (simp add: j initial_instance_def)
    have "rmap (\<lambda>m. materialize_event m (create_context d (Some i) [] None object) 1 object []) [m] = Ok (dn_events dn)"
      using made by (simp add: batch)
    then show "payload_refused 0 (dn_events dn) (case None of
          None \<Rightarrow> fold_context d (hd (dn_events dn)) [] None [] (in_fields (dn_instance dn)) None
        | Some s \<Rightarrow> fold_context d (hd (dn_events dn)) object None (in_fields (blank_instance d i)) (in_fields (dn_instance dn)) (Some s))
        (''create'', [m]) = None"
      using registered_payloads(1) [OF reg kernel emit] same_context
      by (intro payloads_agree) (auto simp: j initial_instance_def)
  qed simp_all
  show "\<forall>e \<in> set (dn_events dn). ev_id e = i \<and> ev_from_state e = None \<and> ev_revision e = in_revision (dn_instance dn)"
    using emitted by (auto simp: emitted_by_def blank_instance_def)
qed

section \<open>Histories fold\<close>

text \<open>The events of an instance that was created and decided on under one definition, every decision emitting.\<close>

inductive event_history :: "serde \<Rightarrow> entity_definition \<Rightarrow> domain_event list \<Rightarrow> entity_instance \<Rightarrow> bool" for S d where
  event_created: "decide_create_as S d i input check = Ok (Accepted dn) \<Longrightarrow> json_ok input \<Longrightarrow> dn_events dn \<noteq> [] \<Longrightarrow>
    event_history S d (dn_events dn) (dn_instance dn)"
| event_decided: "event_history S d events i \<Longrightarrow>
    decide_with_fulfillments S d i name arguments fulfillments check = Ok (Accepted dn) \<Longrightarrow> json_ok arguments \<Longrightarrow>
    (\<And>a. fulfillments = Some a \<Longrightarrow> actions_ok a) \<Longrightarrow> dn_events dn \<noteq> [] \<Longrightarrow>
    event_history S d (events @ dn_events dn) (dn_instance dn)"

lemma event_history_fields: "event_history S d events i \<Longrightarrow> registered d \<Longrightarrow> jmap_ok (in_fields i)"
proof (induction rule: event_history.induct)
  case (event_created i input check dn)
  then show ?case
    using decide_create_from [OF event_created(1) registered_definition_ok event_created(2)] created_instance_ok registered_definition_ok
    by (auto simp: instance_ok_def)
next
  case (event_decided events i name arguments fulfillments check dn)
  have "jmap_ok (in_fields i)" using event_decided by blast
  from decided_instance_ok [OF event_decided.hyps(2) registered_definition_ok [OF event_decided.prems] this event_decided.hyps(3,4)]
  show ?case by (simp add: instance_ok_def)
qed

lemma event_history_revisions:
  "event_history S d events i \<Longrightarrow> e \<in> set events \<Longrightarrow> registered d \<Longrightarrow> \<not> has_service_semantics (def_semantics d) \<Longrightarrow>
     unat (ev_revision e) \<le> unat (in_revision i)"
proof (induction rule: event_history.induct)
  case (event_created i input check dn)
  then show ?case using created_folds(2) by fastforce
next
  case (event_decided events i name arguments fulfillments check dn)
  note mirror = decided_mirrors [OF event_decided.hyps(2)]
  show ?case
  proof (cases "e \<in> set events")
    case True
    with event_decided mirror(6) show ?thesis by fastforce
  next
    case False
    then have "e \<in> set (dn_events dn)" using event_decided.prems(1) by simp
    then have "ev_revision e = in_revision (dn_instance dn)" using mirror(1) by (auto simp: mirrors_def Let_def list_all_iff)
    then show ?thesis by simp
  qed
qed

text \<open>A batch of a revision that no event before it has is folded last.\<close>

lemma fold_revisions_append:
  assumes "batch \<noteq> []" "\<And>e. e \<in> set batch \<Longrightarrow> ev_revision e = r"
  shows "fold_revisions d i index events = Ok j \<Longrightarrow> (\<And>e. e \<in> set events \<Longrightarrow> ev_revision e \<noteq> r) \<Longrightarrow>
    fold_revisions d i index (events @ batch) = fold_revision d j (index + length events) batch"
proof (induction d i index events rule: fold_revisions.induct)
  case (1 d i index)
  obtain first rest where batch: "batch = first # rest" using assms(1) by (cases batch) auto
  let ?P = "\<lambda>e. ev_revision e = ev_revision first"
  have "\<forall>e \<in> set rest. ?P e" using assms(2) by (simp add: batch)
  then have whole: "takeWhile ?P rest = rest" "dropWhile ?P rest = []" by (simp_all only: takeWhile_eq_all_conv dropWhile_eq_Nil_conv)
  have "fold_revisions d i index batch = rbind (fold_revision d i index batch) Ok" by (simp add: batch whole)
  then show ?case using 1(1) by (cases "fold_revision d i index batch") simp_all
next
  case (2 d i index first rest)
  let ?P = "\<lambda>e. ev_revision e = ev_revision first"
  have other: "\<not> ?P e" if "e \<in> set batch" for e using that assms(2) 2(3) [of first] by auto
  have split: "takeWhile ?P (rest @ batch) = takeWhile ?P rest" "dropWhile ?P (rest @ batch) = dropWhile ?P rest @ batch"
    using other assms(1) by (induction rest) (cases batch; auto)+
  obtain k where k: "fold_revision d i index (first # takeWhile ?P rest) = Ok k"
    "fold_revisions d k (index + length (first # takeWhile ?P rest)) (dropWhile ?P rest) = Ok j"
    using 2(2) by (auto simp: Let_def res_simps)
  have "length rest = length (takeWhile ?P rest) + length (dropWhile ?P rest)"
    by (metis length_append takeWhile_dropWhile_id)
  moreover have "fold_revisions d k (index + length (first # takeWhile ?P rest)) (dropWhile ?P rest @ batch)
      = fold_revision d j (index + length (first # takeWhile ?P rest) + length (dropWhile ?P rest)) batch"
    using 2(3) by (intro 2(1) [OF refl k]) (auto dest: set_dropWhileD)
  ultimately show ?case by (simp add: Let_def split k(1) ac_simps)
qed

lemma event_history_folds:
  assumes "event_history S d events i" "registered d" "\<not> has_service_semantics (def_semantics d)"
  shows "events \<noteq> [] \<and> ev_from_state (hd events) = None \<and> fold_revisions d (blank_instance d (ev_id (hd events))) 0 events = Ok i"
  using assms
proof (induction rule: event_history.induct)
  case (event_created i input check dn)
  note folds = created_folds [OF event_created(1,4,5,2,3)]
  have "hd (dn_events dn) \<in> set (dn_events dn)" using event_created(3) by simp
  with folds(2) have first: "ev_id (hd (dn_events dn)) = i" "ev_from_state (hd (dn_events dn)) = None" by blast+
  have "fold_revisions d (blank_instance d i) 0 ([] @ dn_events dn) = fold_revision d (blank_instance d i) (0 + length ([] :: domain_event list)) (dn_events dn)"
    by (rule fold_revisions_append [OF event_created(3)]) (use folds(2) in auto)
  then show ?case using folds(1) event_created(3) first by simp
next
  case (event_decided events i name arguments fulfillments check dn)
  have IH: "events \<noteq> []" "ev_from_state (hd events) = None" "fold_revisions d (blank_instance d (ev_id (hd events))) 0 events = Ok i"
    using event_decided by blast+
  note mirror = decided_mirrors [OF event_decided.hyps(2)]
  have rev: "ev_revision e = in_revision (dn_instance dn)" if "e \<in> set (dn_events dn)" for e
    using mirror(1) that by (auto simp: mirrors_def Let_def list_all_iff)
  have older: "ev_revision e \<noteq> in_revision (dn_instance dn)" if "e \<in> set events" for e
    using event_history_revisions [OF event_decided.hyps(1) that event_decided.prems] mirror(6) by auto
  have "fold_revisions d (blank_instance d (ev_id (hd events))) 0 (events @ dn_events dn) = fold_revision d i (0 + length events) (dn_events dn)"
    by (rule fold_revisions_append [OF event_decided.hyps(5) rev IH(3) older])
  also have "\<dots> = Ok (dn_instance dn)"
    by (rule decided_folds [OF event_decided.hyps(2) event_decided.prems event_history_fields [OF event_decided.hyps(1) event_decided.prems(1)]
        event_decided.hyps(3,4,5)])
  finally show ?case using IH by simp
qed

lemma events_rehydrate:
  assumes "event_history S d events i" "registered d" "\<not> has_service_semantics (def_semantics d)"
  shows "rehydrate d events = Ok i"
  using event_history_folds [OF assms] assms(3)
  by (cases events) (auto simp: rehydrate_def blank_instance_def simp del: fold_revisions.simps)

end
