(* ===== verification/Folded.thy ===== *)
theory Folded
  imports Sourced Admitted
begin

text \<open>
  A definition whose decisions emit events: an instance created and decided once, for the fold over its events; and
  a creation event that records no fields although the definition declares a default for one, so that no creation
  of the kernel left it, and that the fold accepts.
\<close>

definition memo_field :: field_definition where
  "memo_field = FieldDefinition KString False (DefaultValue (JString ''x'')) None None None None None [] None [] False
     None None None None None []"

definition memo_schema :: object_schema where
  "memo_schema = \<lparr>os_fields = [(''text'', memo_field)], os_additional_fields = False\<rparr>"

definition memo_emit :: event_definition where
  "memo_emit = \<lparr>ed_event_type = ''Noted'', ed_payload = JObject [], ed_payload_if_present = []\<rparr>"

definition filed_emit :: event_definition where
  "filed_emit = \<lparr>ed_event_type = ''Filed'', ed_payload = JObject [], ed_payload_if_present = []\<rparr>"

definition memo_operation :: operation_definition where
  "memo_operation = \<lparr>op_arguments = empty_schema, op_transitions = [\<lparr>td_from = One ''kept'', td_to = ''filed''\<rparr>],
     op_preconditions = [], op_set = [(''text'', JObject [(''cleared'', JBool True)])], op_emits = [filed_emit],
     op_response = empty_schema, op_outcomes = []\<rparr>"

definition memo :: entity_definition where
  "memo = \<lparr>def_entity = ''memo'', def_version = 1, def_schema = memo_schema,
     def_lifecycle = \<lparr>lc_initial = ''kept'', lc_states = [''kept'', ''filed'']\<rparr>, def_invariants = [],
     def_create = \<lparr>cd_emit = Some memo_emit, cd_arguments = empty_schema, cd_response = empty_schema, cd_outcomes = []\<rparr>,
     def_operations = [(''file'', memo_operation)], def_projections = [], def_semantics = Kernel1, def_identity = None,
     def_relations = [], def_scales = [], def_number_observation = SourceNumber1\<rparr>"

definition noted :: domain_event where
  "noted = \<lparr>ev_entity = ''memo'', ev_version = 1, ev_id = ''m'', ev_revision = 1, ev_type = ''Noted'', ev_from_state = None,
     ev_to_state = ''kept'', ev_changed = [], ev_removed = [], ev_args = [], ev_payload = JObject []\<rparr>"

definition empty_memo :: entity_instance where
  "empty_memo = \<lparr>in_entity = ''memo'', in_version = 1, in_id = ''m'', in_state = ''kept'', in_revision = 1, in_fields = []\<rparr>"

lemma memo_folds: "rehydrate memo [noted] = Ok empty_memo"
proof -
  have "validate_object memo_schema [] ''$fields'' = []"
    by (simp add: validate_object_def validate_object_under_def validate_members_def check_members_def memo_schema_def memo_field_def bt_keys_def)
  moreover have "resolve_template (JObject []) ctx = Ok (JObject [])" for ctx
    by (simp add: resolve_template.simps [of "JObject []"] bt_collect_def)
  ultimately show ?thesis
    by (simp add: rehydrate_def memo_def noted_def has_service_semantics_def Let_def fold_revision_def check_event_def next_revision_def
        one_decision_def writers_of_def creation_writers_def memo_emit_def apply_event_changes_def check_invariants_def
        check_payloads_def payload_refused_def payload_disagrees_def empty_memo_def bt_collect_def)
qed

lemma memo_defaults: "map_of (apply_defaults memo_schema m) ''text'' \<noteq> None"
  by (auto simp: apply_defaults_def apply_member_defaults_def member_defaults_def memo_schema_def memo_field_def default_step_def Let_def bt_contains_def
      split: option.split)

lemma memo_not_created:
  assumes "decide_create_as S memo i input check = Ok (Accepted dn)"
  shows "dn_instance dn \<noteq> empty_memo"
proof -
  have kernel: "\<not> takes_branches memo (cd_outcomes (def_create memo))" "def_schema memo = memo_schema"
    by (simp_all add: takes_branches_def memo_def)
  with assms have "create_from_fields S memo i input = Ok (Accepted dn)" by (simp add: decide_create_as_def split: if_splits)
  then obtain object0 where "dn_instance dn = initial_instance memo i (apply_defaults memo_schema object0)"
    by (auto simp: create_from_fields_def kernel(2) Let_def res_simps created_decision_def)
  then have "in_fields (dn_instance dn) = apply_defaults memo_schema object0" by (simp add: initial_instance_def)
  moreover have "apply_defaults memo_schema object0 \<noteq> []" using memo_defaults [of object0] by force
  ultimately show ?thesis by (auto simp: empty_memo_def)
qed

lemma memo_unreachable: "\<not> reachable S memo empty_memo"
proof
  assume "reachable S memo empty_memo"
  then show False
  proof cases
    case (created i input check dn)
    then show ?thesis using memo_not_created by metis
  next
    case (derived input dn)
    have "\<not> takes_branches memo (cd_outcomes (def_create memo))" "def_identity memo = None"
      by (simp_all add: takes_branches_def memo_def)
    with derived show ?thesis by (auto simp: decide_create_derived_def derive_creation_identity_def Let_def res_simps)
  next
    case (decided i name arguments fulfillments check dn)
    obtain op args selected where op: "map_of (def_operations memo) name = Some op"
      and selected: "select_branch memo i op name args = Ok selected"
      and accepted: "accept_branch S memo i op name args fulfillments check selected = Ok dn"
      using decided(3) by (rule decide_accepted_steps)
    have "in_state (dn_instance dn) = br_to_state selected"
      using accepted by (cases rule: accept_branch_steps) simp
    moreover have "op = memo_operation" using op by (simp add: memo_def split: if_splits)
    then have "br_to_state selected = ''filed''"
      using selected by (auto simp: select_branch_def takes_branches_def memo_operation_def res_simps split: if_splits)
    ultimately show ?thesis using decided(1) by (simp add: empty_memo_def)
  qed
qed

lemma memo_registered: "registered memo"
proof -
  have names: "\<not> is_blank ''memo''" "\<not> is_blank ''kept''" "\<not> is_blank ''Noted''" "\<not> is_blank ''filed''"
      "\<not> is_blank ''file''" "\<not> is_blank ''Filed''"
    by (simp_all add: not_blank_ascii visible_ascii_def)
  have schema: "validate_schema_definition memo_schema path s = []" for path s
    by (simp add: validate_schema_definition_def memo_schema_def) (subst validate_field_definition.simps,
      simp add: memo_field_def validate_constraint_applicability_def is_service_only_def validate_bounds_def validate_kind_def
        validate_default_def apply_nested_defaults.simps [of "FieldDefinition a b c d e f g h i j k l m n p q r t" for a b c d e f g h i j k l m n p q r t]
        validate_value.simps [of _ "FieldDefinition a b c d e f g h i j k l m n p q r t" for a b c d e f g h i j k l m n p q r t] validate_string_def)
  have ladder: "ladder_is_sound (def_lifecycle memo)" by (simp add: ladder_sound memo_def names)
  have literal: "validate_template (JObject []) path s = Ok ()" for path s
    by (simp add: validate_template_def validate_operand_def walk_references.simps [of _ "JObject []"])
  have empty: "validate_schema_definition empty_schema path s = []" for path s
    by (simp add: validate_schema_definition_def empty_schema_def)
  have cleared: "validate_assignments memo name [(''text'', JObject [(''cleared'', JBool True)])] path (entity_scope memo ScopeOperationTemplate a) = []"
    for name path a
    by (simp add: validate_assignments_def validate_set_entry_def set_assignment_of_def bt_keys_def validate_clear_def entity_scope_def)
      (simp add: memo_def memo_schema_def memo_field_def bt_contains_def)
  have operation: "validate_operation memo ''file'' memo_operation = []"
    by (simp add: validate_operation_def Let_def memo_operation_def empty validate_rules_def cleared names filed_emit_def
        validate_event_definition_def validate_conditional_event_def literal one_or_many_is_empty_def)
      (simp add: memo_def has_service_semantics_def names)
  from literal have "validate_create_emit memo = []"
    by (simp add: validate_create_emit_def memo_def memo_emit_def validate_event_definition_def names validate_conditional_event_def)
  moreover have "validate_lifecycle (def_lifecycle memo) = []" by (simp add: validate_lifecycle_Nil ladder) (simp add: memo_def)
  moreover have "validate_semantics_keys memo = []" "validate_scales memo = []" "validate_identity memo = []"
    "validate_relations memo = []" "validate_projections memo = []" "validate_create memo = []"
    by (simp_all add: memo_def memo_operation_def validate_semantics_keys_def key_not_available_def has_service_semantics_def
        schema_is_empty_def empty_schema_def validate_scales_def validate_identity_def validate_relations_def
        validate_projections_def validate_create_def)
  moreover have "def_entity memo = ''memo''" "def_version memo = 1" "def_schema memo = memo_schema" "def_invariants memo = []"
    "def_operations memo = [(''file'', memo_operation)]" by (simp_all add: memo_def)
  ultimately have "validate_definition memo = []"
    by (simp add: validate_definition_def names schema validate_rules_def operation)
  moreover have "document_ok memo"
    by (simp add: document_ok_def memo_def schema_ok_def memo_schema_def empty_schema_def memo_field_def field_ok.simps
        operation_document_ok_def memo_operation_def)
  ultimately show ?thesis by (simp add: registered_def)
qed

section \<open>Its history\<close>

definition memo_created :: decision where
  "memo_created = created_decision memo
     \<lparr>in_entity = ''memo'', in_version = 1, in_id = ''m'', in_state = ''kept'', in_revision = 1, in_fields = [(''text'', JString ''x'')]\<rparr> []
     [noted\<lparr>ev_changed := [(''text'', JString ''x'')], ev_args := [(''text'', JString ''x'')]\<rparr>] None None None"

definition filed_event :: domain_event where
  "filed_event = \<lparr>ev_entity = ''memo'', ev_version = 1, ev_id = ''m'', ev_revision = 2, ev_type = ''Filed'', ev_from_state = Some ''kept'',
     ev_to_state = ''filed'', ev_changed = [], ev_removed = [''text''], ev_args = [], ev_payload = JObject []\<rparr>"

definition filed_memo :: entity_instance where
  "filed_memo = \<lparr>in_entity = ''memo'', in_version = 1, in_id = ''m'', in_state = ''filed'', in_revision = 2, in_fields = []\<rparr>"

definition memo_filed :: decision where
  "memo_filed = \<lparr>dn_instance = filed_memo,
     dn_record = \<lparr>dr_definition = Some memo, dr_command = CommandExecute ''file'' [] [], dr_entity = ''memo'', dr_id = ''m'',
       dr_revision = 2, dr_from_state = Some ''kept'', dr_to_state = ''filed'', dr_result = filed_memo, dr_changed = [],
       dr_removed = [''text''], dr_events = [filed_event], dr_outcome = None, dr_effect = None, dr_response = None\<rparr>,
     dn_events = [filed_event]\<rparr>"

definition memo_serde :: serde where
  "memo_serde = plain_serde\<lparr>sd_from_value := (\<lambda>_. Some memo)\<rparr>"

lemma blank_payload: "resolve_template (JObject []) ctx = Ok (JObject [])"
  by (simp add: resolve_template.simps [of "JObject []"] bt_collect_def)

lemma memo_fields_valid: "validate_object_under memo_schema fs base k = []" if "fs = [] \<or> fs = [(''text'', JString ''x'')]"
  using that
  by (auto simp: validate_object_under_def validate_members_def check_members_def memo_schema_def memo_field_def bt_keys_def bt_contains_def
      validate_value.simps [of _ "FieldDefinition a b c d e f g h i j k l m n p q r t" for a b c d e f g h i j k l m n p q r t]
      validate_string_def)

lemma memo_snapshot: "definition_snapshot memo_serde memo = Ok memo"
  by (simp add: definition_snapshot_def memo_serde_def plain_serde_def)

lemma memo_parts: "def_schema memo = memo_schema" "def_semantics memo = Kernel1" "def_invariants memo = []" "def_identity memo = None"
  "def_entity memo = ''memo''" "def_version memo = 1" "lc_initial (def_lifecycle memo) = ''kept''"
  "lc_states (def_lifecycle memo) = [''kept'', ''filed'']" "cd_emit (def_create memo) = Some memo_emit"
  "def_operations memo = [(''file'', memo_operation)]" "has_service_semantics Kernel1 = False"
  by (simp_all add: memo_def has_service_semantics_def)

lemma memo_create: "decide_create_as memo_serde memo ''m'' (JObject []) Checked = Ok (Accepted memo_created)"
proof -
  have defaulted: "apply_defaults memo_schema [] = [(''text'', JString ''x'')]"
    by (simp add: apply_defaults_def apply_member_defaults_def member_defaults_def memo_schema_def memo_field_def default_step_def Let_def
        bt_contains_def apply_nested_defaults.simps [of "FieldDefinition a b c d e f g h i j k l m n p q r t" for a b c d e f g h i j k l m n p q r t])
  have "\<not> is_blank ''m''" by (simp add: not_blank_ascii visible_ascii_def)
  then show ?thesis
    by (simp add: decide_create_as_def takes_branches_def memo_parts create_from_fields_def into_object_def defaulted memo_fields_valid
        check_identity_mirror_def check_invariants_def materialize_event_def memo_emit_def blank_payload create_context_def changed_fields_def
        memo_snapshot memo_created_def initial_instance_def noted_def Let_def bt_collect_def)
qed

lemma memo_file: "decide_with_fulfillments memo_serde memo (dn_instance memo_created) ''file'' (JObject []) None Checked = Ok (Accepted memo_filed)"
proof -
  have kept: "dn_instance memo_created = \<lparr>in_entity = ''memo'', in_version = 1, in_id = ''m'', in_state = ''kept'', in_revision = 1,
      in_fields = [(''text'', JString ''x'')]\<rparr>" by (simp add: memo_created_def created_decision_def)
  have arguments: "normalize_arguments memo ''file'' (JObject []) = Ok []"
    by (simp add: normalize_arguments_def memo_parts into_object_def memo_operation_def apply_defaults_def apply_member_defaults_def
        member_defaults_def empty_schema_def validate_object_under_def validate_members_def check_members_def bt_keys_def)
  have selected: "select_branch memo (dn_instance memo_created) memo_operation ''file'' [] = Ok (branch_implicit memo_operation ''filed'')"
    by (simp add: select_branch_def takes_branches_def memo_parts kept memo_operation_def)
  have assigned: "assign_fields ''file'' (branch_implicit memo_operation ''filed'') ctx [] = Ok ([], [''text''])"
    if "tc_old_fields ctx = [(''text'', JString ''x'')]" for ctx
    by (simp add: assign_fields_def memo_operation_def that assigned_value_def set_assignment_of_def bt_keys_def insert_present_arguments_def
        canonical_object_def bt_collect_def bt_remove_def bs_insert_def)
  have "accept_branch memo_serde memo (dn_instance memo_created) memo_operation ''file'' [] None Checked (branch_implicit memo_operation ''filed'')
      = Ok memo_filed"
    by (simp add: accept_branch_def kept operation_context_def assigned fulfil_fields_def memo_parts memo_fields_valid next_revision_def
        check_identity_mirror_def check_invariants_def memo_snapshot Let_def)
      (simp add: memo_operation_def filed_emit_def materialize_event_def blank_payload changed_fields_def memo_filed_def filed_memo_def
        filed_event_def memo_parts bt_collect_def branch_implicit_def)
  moreover have "ensure_instance_matches memo (dn_instance memo_created) = Ok ()"
    by (simp add: ensure_instance_matches_def ensure_entity_matches_def ensure_state_known_def kept memo_parts)
  moreover have "branch_refusal (branch_implicit memo_operation ''filed'') = None" by (simp add: branch_refusal_def)
  ultimately show ?thesis by (simp add: decide_with_fulfillments_def memo_parts arguments selected)
qed

lemma memo_history: "event_history memo_serde memo (dn_events memo_created @ [filed_event]) filed_memo"
proof -
  have "event_history memo_serde memo (dn_events memo_created) (dn_instance memo_created)"
    by (rule event_history.event_created [OF memo_create]) (simp_all add: memo_created_def created_decision_def)
  from event_history.event_decided [OF this memo_file] show ?thesis by (simp add: memo_filed_def)
qed

end
