(* ===== verification/Recorded.thy ===== *)
theory Recorded
  imports Store Replay
begin

text \<open>
  The data of the asynchronous recorded store of \<open>entity-store\<close> (\<open>asynchronous/types.rs\<close>): subjects and batch
  keys, complete records and their coordinates, receipts, append requests, histories with their origin, and the
  typed refusals. Futures are values: a port answers with its result, or not at all. The text of an error nested
  in a message is not rendered: \<open>detail\<close> keeps the nested error.
\<close>

section \<open>Subjects and batch keys\<close>

datatype subject = Subject (su_entity: string) (su_id: string)

instantiation subject :: linorder
begin

definition less_eq_subject :: "subject \<Rightarrow> subject \<Rightarrow> bool" where
  "s \<le> t \<longleftrightarrow> (su_entity s, su_id s) \<le> (su_entity t, su_id t)"

definition less_subject :: "subject \<Rightarrow> subject \<Rightarrow> bool" where
  "s < t \<longleftrightarrow> (su_entity s, su_id s) < (su_entity t, su_id t)"

instance
proof
  fix s t u :: subject
  show "s < t \<longleftrightarrow> s \<le> t \<and> \<not> t \<le> s" by (simp only: less_eq_subject_def less_subject_def less_le_not_le)
  show "s \<le> s" by (simp add: less_eq_subject_def)
  show "s \<le> u" if "s \<le> t" "t \<le> u" using that unfolding less_eq_subject_def by (rule order_trans)
  show "s = t" if "s \<le> t" "t \<le> s"
    using antisym [OF that [unfolded less_eq_subject_def]] by (simp add: subject.expand)
  show "s \<le> t \<or> t \<le> s" unfolding less_eq_subject_def by (rule linear)
qed

end

datatype batch_key = SingleRecord string | Named string

definition key_value :: "batch_key \<Rightarrow> string" where
  "key_value k = (case k of SingleRecord v \<Rightarrow> v | Named v \<Rightarrow> v)"

definition key_rank :: "batch_key \<Rightarrow> nat \<times> string" where
  "key_rank k = (case k of SingleRecord v \<Rightarrow> (0, v) | Named v \<Rightarrow> (1, v))"

lemma key_rank_inject: "key_rank k = key_rank l \<Longrightarrow> k = l"
  by (auto simp: key_rank_def split: batch_key.splits)

instantiation batch_key :: linorder
begin

definition less_eq_batch_key :: "batch_key \<Rightarrow> batch_key \<Rightarrow> bool" where
  "k \<le> l \<longleftrightarrow> key_rank k \<le> key_rank l"

definition less_batch_key :: "batch_key \<Rightarrow> batch_key \<Rightarrow> bool" where
  "k < l \<longleftrightarrow> key_rank k < key_rank l"

instance
proof
  fix k l m :: batch_key
  show "k < l \<longleftrightarrow> k \<le> l \<and> \<not> l \<le> k" by (simp only: less_eq_batch_key_def less_batch_key_def less_le_not_le)
  show "k \<le> k" by (simp add: less_eq_batch_key_def)
  show "k \<le> m" if "k \<le> l" "l \<le> m" using that unfolding less_eq_batch_key_def by (rule order_trans)
  show "k = l" if "k \<le> l" "l \<le> k" using antisym [OF that [unfolded less_eq_batch_key_def]] by (rule key_rank_inject)
  show "k \<le> l \<or> l \<le> k" unfolding less_eq_batch_key_def by (rule linear)
qed

end

section \<open>Errors\<close>

text \<open>
  The variants whose names the synchronous \<open>StoreError\<close> has too carry the prefix \<open>Async\<close>. \<open>AsyncPanicked\<close> is not a
  variant of the source: it is the outcome of an \<open>expect\<close>.
\<close>

datatype async_store_error =
    InvalidInput detail
  | EncodingRefused message
  | AsyncRevisionConflict subject expect "64 word option"
  | AsyncRecordConflict string
  | DuplicateRecordId string
  | BatchConflict batch_key
  | PreviouslyRecordedBatchEntries "64 word list"
  | CorruptHistory subject detail
  | Forked subject "string list"
  | ProviderIntegrity string message
  | HistoricalRetryUnverifiable string message
  | PositionExhausted string
  | BatchExceedsReadBounds string "64 word" "64 word"
  | AsyncUnreachable string message
  | AsyncBackend message
  | AsyncPanicked string
and detail =
    Said message
  | SaidStore string store_error
  | SaidCore string core_error
  | SaidDefects string "definition_error list"
  | SaidAsync string async_store_error

type_synonym 'a async_result = "(async_store_error, 'a) result"

abbreviation invalid_input :: "string \<Rightarrow> async_store_error" where
  "invalid_input s \<equiv> InvalidInput (Said (plain s))"

abbreviation corrupt :: "subject \<Rightarrow> string \<Rightarrow> async_store_error" where
  "corrupt s m \<equiv> CorruptHistory s (Said (plain m))"

datatype write_failure = NotCommitted async_store_error | Uncertain batch_key message

definition validate_subject :: "subject \<Rightarrow> unit async_result" where
  "validate_subject s = ensure (\<not> (is_blank (su_entity s) \<or> is_blank (su_id s)))
     (invalid_input ''a subject requires nonblank entity and instance identities'')"

definition subject_new :: "string \<Rightarrow> string \<Rightarrow> subject async_result" where
  "subject_new entity i = rbind (validate_subject (Subject entity i)) (\<lambda>_. Ok (Subject entity i))"

text \<open>\<open>serde_json::to_string\<close> of an array of strings, with the library's quoting of a string.\<close>

definition subject_coordinate_id :: "serde \<Rightarrow> subject \<Rightarrow> string" where
  "subject_coordinate_id S s = ''['' @ sd_quote S (su_entity s) @ '','' @ sd_quote S (su_id s) @ '']''"

definition validate_key :: "batch_key \<Rightarrow> unit async_result" where
  "validate_key k = ensure (\<not> is_blank (key_value k))
     (invalid_input ''a nonempty recorded request requires a nonblank batch key'')"

definition key_coordinate_id :: "serde \<Rightarrow> batch_key \<Rightarrow> string async_result" where
  "key_coordinate_id S k = rbind (validate_key k) (\<lambda>_.
     let kind = (case k of SingleRecord _ \<Rightarrow> ''single_record'' | Named _ \<Rightarrow> ''named'') in
     Ok (''['' @ sd_quote S kind @ '','' @ sd_quote S (key_value k) @ '']''))"

section \<open>Records\<close>

datatype record_kind = KindDecision | KindObservation

datatype recorded_entry = EntryDecision recorded_commit | EntryObservation recorded_observation

definition entry_subject :: "recorded_entry \<Rightarrow> subject" where
  "entry_subject e = (case e of
     EntryDecision c \<Rightarrow> Subject (in_entity (rm_instance c)) (in_id (rm_instance c))
   | EntryObservation b \<Rightarrow> Subject (ro_entity b) (ro_id b))"

definition entry_record_id :: "recorded_entry \<Rightarrow> string" where
  "entry_record_id e = (case e of
     EntryDecision c \<Rightarrow> env_record_id (rm_envelope c)
   | EntryObservation b \<Rightarrow> env_record_id (ro_envelope b))"

definition entry_revision :: "recorded_entry \<Rightarrow> 64 word" where
  "entry_revision e = (case e of EntryDecision c \<Rightarrow> in_revision (rm_instance c) | EntryObservation b \<Rightarrow> ro_revision b)"

definition entry_kind :: "recorded_entry \<Rightarrow> record_kind" where
  "entry_kind e = (case e of EntryDecision _ \<Rightarrow> KindDecision | EntryObservation _ \<Rightarrow> KindObservation)"

definition entry_events :: "recorded_entry \<Rightarrow> domain_event list" where
  "entry_events e = (case e of EntryDecision c \<Rightarrow> dr_events (env_record (rm_envelope c)) | EntryObservation _ \<Rightarrow> [])"

definition said_store :: "'a store_result \<Rightarrow> 'a async_result" where
  "said_store r = (case r of Ok x \<Rightarrow> Ok x | Err e \<Rightarrow> Err (InvalidInput (SaidStore ''{}'' e)))"

definition entry_validate :: "recorded_entry \<Rightarrow> unit async_result" where
  "entry_validate e = rbind (validate_subject (entry_subject e)) (\<lambda>_. said_store (case e of
     EntryDecision c \<Rightarrow> recorded_commit_validate c
   | EntryObservation b \<Rightarrow> observation_validate b))"

definition entry_command :: "recorded_entry \<Rightarrow> decision_command option" where
  "entry_command e = (case e of EntryDecision c \<Rightarrow> Some (dr_command (env_record (rm_envelope c))) | EntryObservation _ \<Rightarrow> None)"

section \<open>Coordinates and receipts\<close>

record record_position =
  rp_subject :: "64 word"
  rp_store :: "64 word"

record record_receipt =
  rr_record_id :: string
  rr_subject :: subject
  rr_kind :: record_kind
  rr_revision :: "64 word"
  rr_position :: record_position
  rr_batch_key :: batch_key
  rr_member_index :: "64 word"

record batch_receipt =
  bc_key :: batch_key
  bc_members :: "record_receipt list"

datatype commit_receipt = SingleReceipt record_receipt | BatchOf batch_receipt

definition receipt_members :: "commit_receipt \<Rightarrow> record_receipt list" where
  "receipt_members r = (case r of SingleReceipt m \<Rightarrow> [m] | BatchOf b \<Rightarrow> bc_members b)"

record lineage =
  ln_digest :: string
  ln_parents :: "string list"

record stored_record =
  sr_entry :: recorded_entry
  sr_position :: record_position
  sr_receipt :: record_receipt
  sr_expect :: expect
  sr_request_bytes :: string
  sr_lineage :: "lineage option"
  sr_record_bytes :: string

record stored_batch =
  sb_key :: batch_key
  sb_records :: "stored_record list"
  sb_comparison_bytes :: string
  sb_receipt :: commit_receipt

section \<open>Imported evidence\<close>

datatype known_legacy_order = OrderPerKind "64 word" | OrderSubject "64 word"

record imported_evidence =
  ie_entry :: recorded_entry
  ie_source_id :: string
  ie_source_locator :: string
  ie_known_order :: known_legacy_order

definition imported_new :: "recorded_entry \<Rightarrow> string \<Rightarrow> string \<Rightarrow> known_legacy_order \<Rightarrow> imported_evidence async_result" where
  "imported_new e source_id locator order =
     rbind (entry_validate e) (\<lambda>_.
     rbind (ensure (\<not> (is_blank source_id \<or> is_blank locator))
       (invalid_input ''imported evidence requires nonblank source identity and locator'')) (\<lambda>_.
     Ok \<lparr>ie_entry = e, ie_source_id = source_id, ie_source_locator = locator, ie_known_order = order\<rparr>))"

datatype legacy_evidence =
    LegacyEnvelope imported_evidence
  | LegacyDecision decision_record
  | LegacyEvent domain_event

datatype legacy_completeness = AvailableEvidenceOnly | CompleteSubject

datatype legacy_order_declaration = PerKindOnly | SubjectOrder

record legacy_anchor =
  la_instance :: entity_instance
  la_completeness :: legacy_completeness
  la_order :: legacy_order_declaration
  la_evidence :: "legacy_evidence list"

datatype history_origin = Genesis | ImportedFrom legacy_anchor

record subject_history =
  sh_subject :: subject
  sh_origin :: history_origin
  sh_records :: "stored_record list"

datatype record_lookup = LookupCommitted stored_record | LookupImported imported_evidence

section \<open>Assurance and appends\<close>

datatype subject_assurance =
    VerifiedFromGenesis subject
  | VerifiedAfterBoundary subject "64 word"

datatype store_coverage = ExplicitSet | CompleteSnapshot

record subject_snapshot =
  ss_history :: subject_history
  ss_terminal :: entity_instance

record complete_store_snapshot =
  cs_scope :: string
  cs_coverage :: store_coverage
  cs_histories :: "subject_snapshot list"

record store_assurance =
  sa_scope :: string
  sa_coverage :: store_coverage
  sa_subjects :: "subject_assurance list"

datatype append_outcome =
    AppendEmpty
  | AppendCommitted commit_receipt bool
  | AppendHistorical imported_evidence subject_assurance

definition outcome_receipt :: "append_outcome \<Rightarrow> commit_receipt option" where
  "outcome_receipt a = (case a of AppendCommitted r _ \<Rightarrow> Some r | _ \<Rightarrow> None)"

definition outcome_replayed :: "append_outcome \<Rightarrow> bool" where
  "outcome_replayed a \<longleftrightarrow> (case a of AppendCommitted _ replayed \<Rightarrow> replayed | _ \<Rightarrow> False)"

record merge_base =
  mb_heads :: "string list"
  mb_base :: entity_instance

record append_member =
  am_expect :: expect
  am_entry :: recorded_entry
  am_request_bytes :: string
  am_merge :: "merge_base option"

definition member_new :: "expect \<Rightarrow> recorded_entry \<Rightarrow> string \<Rightarrow> append_member" where
  "member_new expected e bytes = \<lparr>am_expect = expected, am_entry = e, am_request_bytes = bytes, am_merge = None\<rparr>"

definition merging :: "append_member \<Rightarrow> merge_base \<Rightarrow> append_member" where
  "merging m b = m\<lparr>am_merge := Some b\<rparr>"

record append_request =
  aq_key :: "batch_key option"
  aq_members :: "append_member list"

definition empty_request :: append_request where
  "empty_request = \<lparr>aq_key = None, aq_members = []\<rparr>"

section \<open>Refusals\<close>

datatype refusal_reason =
    ReasonKernel core_error
  | ReasonConflict subject "64 word option" "64 word option"
  | ReasonForked subject "string list"

record recorded_refusal =
  rx_key :: batch_key
  rx_subjects :: "subject list"
  rx_request :: json
  rx_recording :: recording
  rx_reason :: refusal_reason

end
