(* ===== verification/Encoding.thy ===== *)
theory Encoding
  imports Recorded
begin

text \<open>
  The comparison documents of \<open>asynchronous/encoding.rs\<close>: what a record, an original request and a batch are spelled
  as, and under which framing. \<open>serde_json::to_value\<close> of a commit and of an observation, and \<open>serde_json::to_vec\<close>, are
  the fields of \<open>codec\<close>; \<open>json!\<close> is written out. Maps are ordered, so the pass that orders them is skipped, as
  in the build the workspace makes.
\<close>

record codec =
  cx_serde :: serde
  cx_commit :: "recorded_commit \<Rightarrow> (message, json) result"
  cx_observation :: "recorded_observation \<Rightarrow> (message, json) result"
  cx_write :: "json \<Rightarrow> (message, string) result"

definition encoding :: "(message, 'a) result \<Rightarrow> 'a async_result" where
  "encoding r = (case r of Ok x \<Rightarrow> Ok x | Err m \<Rightarrow> Err (EncodingRefused m))"

definition json_object :: "(string \<times> json) list \<Rightarrow> json" where
  "json_object kvs = JObject (bt_collect kvs)"

definition json_text :: "string option \<Rightarrow> json" where
  "json_text v = (case v of None \<Rightarrow> JNull | Some s \<Rightarrow> JString s)"

definition json_word :: "'a::len word \<Rightarrow> json" where
  "json_word n = JNumber (number_of_nat (unat n))"

definition canonical_domain_bytes :: "codec \<Rightarrow> string \<Rightarrow> json \<Rightarrow> string async_result" where
  "canonical_domain_bytes C domain v = encoding (cx_write C (JArray [JString domain, v]))"

definition tagged_record :: "codec \<Rightarrow> recorded_entry \<Rightarrow> json async_result" where
  "tagged_record C e = (case e of
     EntryDecision c \<Rightarrow> rbind (encoding (cx_commit C c)) (\<lambda>v.
       Ok (json_object [(''kind'', JString ''decision''), (''commit'', v)]))
   | EntryObservation b \<Rightarrow> rbind (encoding (cx_observation C b)) (\<lambda>v.
       Ok (json_object [(''kind'', JString ''observation''), (''observation'', v)])))"

definition record_domain :: "recorded_entry \<Rightarrow> string" where
  "record_domain e = (case e of
     EntryDecision c \<Rightarrow> (case dr_definition (env_record (rm_envelope c)) of
         Some d \<Rightarrow>
           if has_operation_fulfillment (def_semantics d) then ''er.record/4''
           else if has_conditional_presence (def_semantics d) then ''er.record/3''
           else if is_service_1 (def_semantics d) then ''er.record/2''
           else ''er.record/1''
       | None \<Rightarrow> ''er.record/1'')
   | EntryObservation _ \<Rightarrow> ''er.record/1'')"

definition request_domain :: "recorded_entry \<Rightarrow> string" where
  "request_domain e =
     (if record_domain e = ''er.record/2'' then ''er.request/2''
      else if record_domain e = ''er.record/3'' then ''er.request/3''
      else if record_domain e = ''er.record/4'' then ''er.request/4''
      else ''er.request/1'')"

definition service_request :: "string \<Rightarrow> bool" where
  "service_request domain \<longleftrightarrow> domain \<in> set [''er.request/2'', ''er.request/3'', ''er.request/4'']"

definition record_comparison_bytes :: "codec \<Rightarrow> recorded_entry \<Rightarrow> string async_result" where
  "record_comparison_bytes C e = rbind (tagged_record C e) (canonical_domain_bytes C (record_domain e))"

definition recording_value :: "recording \<Rightarrow> json" where
  "recording_value g = json_object [(''record_id'', JString (rg_record_id g)), (''recorded_at'', JString (rg_recorded_at g)),
     (''actor'', json_text (rg_actor g)), (''correlation'', json_text (rg_correlation g)), (''causation'', json_text (rg_causation g))]"

text \<open>\<open>OperationFieldAction\<close> as serde derives it: a unit variant is its name, \<open>Set\<close> an object with one member.\<close>

definition action_json :: "operation_field_action \<Rightarrow> json" where
  "action_json a = (case a of
     Preserve \<Rightarrow> JString ''preserve''
   | SetValue v \<Rightarrow> json_object [(''set'', json_object [(''value'', v)])]
   | Remove \<Rightarrow> JString ''remove'')"

definition actions_json :: "actions \<Rightarrow> json" where
  "actions_json actions = JObject (map (map_prod id action_json) actions)"

text \<open>The documents of a request, as \<open>encoding.rs\<close> and the executor both spell them.\<close>

definition create_document :: "string \<Rightarrow> string \<Rightarrow> string \<Rightarrow> 32 word \<Rightarrow> json \<Rightarrow> recording \<Rightarrow> json" where
  "create_document member entity i version input g =
     json_object [(''kind'', JString ''create''), (''subject'', JArray [JString entity, JString i]),
       (''definition_version'', json_word version), (member, input), (''recording'', recording_value g)]"

definition execute_document :: "string \<Rightarrow> string \<Rightarrow> 64 word \<Rightarrow> string \<Rightarrow> jmap \<Rightarrow> actions option \<Rightarrow> recording \<Rightarrow> json" where
  "execute_document entity i expected operation args fulfillments g =
     json_object ([(''kind'', JString ''execute''), (''subject'', JArray [JString entity, JString i]),
       (''expected_revision'', json_word expected), (''operation'', JString operation), (''arguments'', JObject args)]
       @ (case fulfillments of Some a \<Rightarrow> [(''fulfillments'', actions_json a)] | None \<Rightarrow> [])
       @ [(''recording'', recording_value g)])"

definition observation_document :: "codec \<Rightarrow> recorded_observation \<Rightarrow> json async_result" where
  "observation_document C b = (case cx_observation C b of
     Ok v \<Rightarrow> Ok (json_object [(''kind'', JString ''observation''), (''observation'', v)])
   | Err _ \<Rightarrow> Err (AsyncPanicked ''json!''))"

definition envelope_recording :: "'r envelope \<Rightarrow> recording" where
  "envelope_recording e = \<lparr>rg_record_id = env_record_id e, rg_recorded_at = env_recorded_at e, rg_correlation = env_correlation e,
     rg_causation = env_causation e, rg_actor = env_actor e\<rparr>"

definition positive_predecessor :: "string \<Rightarrow> 64 word \<Rightarrow> 64 word async_result" where
  "positive_predecessor record_id revision = ok_or (if revision = 0 then None else Some (revision - 1))
     (HistoricalRetryUnverifiable record_id (plain ''execute record has no positive predecessor''))"

definition original_request_comparison_bytes :: "codec \<Rightarrow> recorded_entry \<Rightarrow> string async_result" where
  "original_request_comparison_bytes C e = (case e of
     EntryDecision c \<Rightarrow>
       (let r = env_record (rm_envelope c); g = envelope_recording (rm_envelope c); domain = request_domain e in
        (case dr_command r of
           CommandCreate fs arguments \<Rightarrow>
             canonical_domain_bytes C domain (if service_request domain
               then create_document ''arguments'' (dr_entity r) (dr_id r) (in_version (dr_result r)) (JObject arguments) g
               else create_document ''fields'' (dr_entity r) (dr_id r) (in_version (dr_result r)) (JObject fs) g)
         | CommandExecute operation arguments fulfillments \<Rightarrow>
             rbind (positive_predecessor (entry_record_id e) (dr_revision r)) (\<lambda>expected.
             canonical_domain_bytes C domain (execute_document (dr_entity r) (dr_id r) expected operation arguments
               (if domain = ''er.request/4'' then Some fulfillments else None) g))
         | LegacyImport \<Rightarrow> Err (HistoricalRetryUnverifiable (entry_record_id e) (plain ''legacy import has no original command''))))
   | EntryObservation b \<Rightarrow> rbind (observation_document C b) (canonical_domain_bytes C (request_domain e)))"

definition key_json :: "batch_key \<Rightarrow> json" where
  "key_json k = (case k of
     SingleRecord record_id \<Rightarrow> JArray [JString ''single_record'', JString record_id]
   | Named batch_id \<Rightarrow> JArray [JString ''named'', JString batch_id])"

definition expect_json :: "expect \<Rightarrow> json" where
  "expect_json e = (case e of
     Absent \<Rightarrow> json_object [(''kind'', JString ''absent'')]
   | ExpectRevision revision \<Rightarrow> json_object [(''kind'', JString ''revision''), (''revision'', json_word revision)])"

definition member_json :: "codec \<Rightarrow> append_member \<Rightarrow> json async_result" where
  "member_json C m = rbind (tagged_record C (am_entry m)) (\<lambda>v.
     Ok (json_object [(''expect'', expect_json (am_expect m)), (''record'', JArray [JString (record_domain (am_entry m)), v])]))"

definition batch_comparison_bytes :: "codec \<Rightarrow> batch_key \<Rightarrow> append_member list \<Rightarrow> string async_result" where
  "batch_comparison_bytes C k members =
     rbind (validate_key k) (\<lambda>_.
     rbind (rmap (member_json C) members) (\<lambda>encoded.
     encoding (cx_write C (JArray [JString ''er.batch/1'', key_json k, JArray encoded]))))"

definition member_id :: "codec \<Rightarrow> batch_key \<Rightarrow> 64 word \<Rightarrow> string async_result" where
  "member_id C k index = rbind (validate_key k) (\<lambda>_. encoding (cx_write C (JArray [key_json k, json_word index])))"

section \<open>An append request\<close>

definition validate_single :: "batch_key \<Rightarrow> string list \<Rightarrow> string \<Rightarrow> unit async_result" where
  "validate_single k ids message = (case k of
     SingleRecord record_id \<Rightarrow> ensure (ids = [record_id]) (invalid_input message)
   | Named _ \<Rightarrow> Ok ())"

fun validate_distinct :: "string list \<Rightarrow> string list \<Rightarrow> unit async_result" where
  "validate_distinct seen [] = Ok ()"
| "validate_distinct seen (i # ids) = (if i \<in> set seen then Err (DuplicateRecordId i) else validate_distinct (i # seen) ids)"

definition member_validate :: "codec \<Rightarrow> append_member \<Rightarrow> unit async_result" where
  "member_validate C m =
     rbind (entry_validate (am_entry m)) (\<lambda>_.
     rbind (original_request_comparison_bytes C (am_entry m)) (\<lambda>bytes.
     ensure (bytes = am_request_bytes m) (InvalidInput (Said (Msg ''request bytes do not reproduce complete record {:?}''
       [ArgText (entry_record_id (am_entry m))])))))"

definition member_ids :: "append_member list \<Rightarrow> string list" where
  "member_ids members = map (\<lambda>m. entry_record_id (am_entry m)) members"

definition request_validate :: "codec \<Rightarrow> append_request \<Rightarrow> unit async_result" where
  "request_validate C q = (case (aq_key q, aq_members q) of
     (None, []) \<Rightarrow> Ok ()
   | (None, _) \<Rightarrow> Err (invalid_input ''nonempty append has no batch key'')
   | (Some _, []) \<Rightarrow> Err (invalid_input ''use AppendRequest::empty for an inert empty batch'')
   | (Some k, members) \<Rightarrow>
       rbind (validate_key k) (\<lambda>_.
       rbind (validate_single k (member_ids members) ''SingleRecord requires exactly one member with the same record id'') (\<lambda>_.
       rbind (validate_distinct [] (member_ids members)) (\<lambda>_.
       rfold (\<lambda>m _. member_validate C m) members ()))))"

definition request_new :: "codec \<Rightarrow> batch_key \<Rightarrow> append_member list \<Rightarrow> append_request async_result" where
  "request_new C k members =
     (let q = \<lparr>aq_key = Some k, aq_members = members\<rparr> in rbind (request_validate C q) (\<lambda>_. Ok q))"

end
