(* ===== verification/Verify.thy ===== *)
theory Verify
  imports Encoding
begin

text \<open>
  The verifiers of \<open>asynchronous/verify.rs\<close>: admission of one entry on the state before it, the boundary of an imported
  history, a linear history and an extension of a verified one, a branched history whose records name the records
  they follow, a prefix, and the histories of a whole store. A verifier reads a history through a view of its
  subject, origin and records; here the view is the history.
\<close>

section \<open>One entry on the state before it\<close>

definition origin_state :: "history_origin \<Rightarrow> entity_instance option" where
  "origin_state origin = (case origin of Genesis \<Rightarrow> None | ImportedFrom anchor \<Rightarrow> Some (la_instance anchor))"

definition check_revision :: "subject \<Rightarrow> 64 word \<Rightarrow> unit async_result" where
  "check_revision s revision = ensure (\<not> (revision = 0 \<or> revision > max_revision))
     (CorruptHistory s (Said (Msg ''revision {} is outside 1..={}'' [ArgNat (unat revision), ArgNat (unat max_revision)])))"

definition check_predecessor :: "subject \<Rightarrow> expect \<Rightarrow> entity_instance option \<Rightarrow> unit async_result" where
  "check_predecessor s expected current =
     (let found = map_option in_revision current in
      ensure (case (expected, found) of
          (Absent, None) \<Rightarrow> True
        | (ExpectRevision want, Some have) \<Rightarrow> want = have
        | _ \<Rightarrow> False)
        (AsyncRevisionConflict s expected found))"

text \<open>The rerun of the saved command is written as in \<open>replay.rs\<close>, whose definitions are used here.\<close>

definition recompute_saved :: "serde \<Rightarrow> subject \<Rightarrow> entity_definition \<Rightarrow> decision_record \<Rightarrow> entity_instance option
    \<Rightarrow> decision async_result" where
  "recompute_saved S s d r current =
     (let refuses = (\<lambda>answer. case answer of
          Ok dn \<Rightarrow> Ok dn
        | Err e \<Rightarrow> Err (CorruptHistory s (SaidCore ''saved command refuses: {}'' e))) in
      case (dr_command r, current) of
        (CommandCreate created arguments, None) \<Rightarrow> refuses (replay_creation S d (dr_id r) created arguments)
      | (CommandExecute operation arguments fulfillments, Some i) \<Rightarrow>
          refuses (replay_operation S d (dr_id r) operation arguments fulfillments i)
      | (CommandCreate _ _, Some _) \<Rightarrow> Err (corrupt s ''creation appears after a predecessor'')
      | (CommandExecute _ _ _, None) \<Rightarrow> Err (corrupt s ''history begins with execution, not creation'')
      | (LegacyImport, _) \<Rightarrow> Err (corrupt s ''legacy import may only establish an explicit anchor''))"

definition validate_entry_against_state :: "codec \<Rightarrow> recorded_entry \<Rightarrow> expect \<Rightarrow> entity_instance option
    \<Rightarrow> entity_instance option async_result" where
  "validate_entry_against_state C e expected current =
     (let s = entry_subject e in
      rbind (entry_validate e) (\<lambda>_.
      rbind (check_revision s (entry_revision e)) (\<lambda>_.
      rbind (check_predecessor s expected current) (\<lambda>_.
      case e of
        EntryObservation b \<Rightarrow> (case current of
            None \<Rightarrow> Err (AsyncRevisionConflict s expected None)
          | Some i \<Rightarrow>
              if ro_revision b \<noteq> in_revision i
              then Err (AsyncRevisionConflict s (ExpectRevision (ro_revision b)) (Some (in_revision i)))
              else Ok (Some i))
      | EntryDecision c \<Rightarrow>
          (let r = env_record (rm_envelope c) in
           rbind (ok_or (dr_definition r) (corrupt s ''a newly committed decision requires its saved definition'')) (\<lambda>d.
           rbind (ensure (validate_definition d = [])
             (CorruptHistory s (SaidDefects ''saved definition is invalid: {}'' (validate_definition d)))) (\<lambda>_.
           rbind (recompute_saved (cx_serde C) s d r current) (\<lambda>recomputed.
           if dn_record recomputed \<noteq> r \<or> dn_instance recomputed \<noteq> rm_instance c
           then Err (corrupt s ''stored decision differs from recomputation of its saved definition and command'')
           else Ok (Some (dn_instance recomputed))))))))))"

section \<open>The imported boundary\<close>

definition check_evidence_revision :: "subject \<Rightarrow> 64 word \<Rightarrow> 64 word \<Rightarrow> string \<Rightarrow> unit async_result" where
  "check_evidence_revision s revision anchor kind =
     rbind (check_revision s revision) (\<lambda>_.
     ensure (\<not> revision > anchor) (CorruptHistory s (Said (Msg ''{} revision {} is later than anchor revision {}''
       [ArgText kind, ArgNat (unat revision), ArgNat (unat anchor)]))))"

definition check_legacy_event :: "subject \<Rightarrow> domain_event \<Rightarrow> 64 word \<Rightarrow> unit async_result" where
  "check_legacy_event s e anchor =
     rbind (check_evidence_revision s (ev_revision e) anchor ''imported event'') (\<lambda>_.
     ensure (\<not> (ev_entity e \<noteq> su_entity s \<or> ev_id e \<noteq> su_id s)) (corrupt s ''imported event names another subject''))"

definition check_bare_decision :: "subject \<Rightarrow> decision_record \<Rightarrow> 64 word \<Rightarrow> unit async_result" where
  "check_bare_decision s r anchor =
     rbind (check_evidence_revision s (dr_revision r) anchor ''imported decision'') (\<lambda>_.
     rbind (ensure (\<not> (dr_entity r \<noteq> su_entity s \<or> dr_id r \<noteq> su_id s \<or> in_entity (dr_result r) \<noteq> su_entity s
         \<or> in_id (dr_result r) \<noteq> su_id s \<or> in_revision (dr_result r) \<noteq> dr_revision r \<or> in_state (dr_result r) \<noteq> dr_to_state r))
       (corrupt s ''imported decision components do not reproduce its subject, revision, and result'')) (\<lambda>_.
     rfold (\<lambda>e _.
       rbind (check_legacy_event s e anchor) (\<lambda>_.
       ensure (ev_revision e = dr_revision r) (corrupt s ''imported decision event names another decision revision'')))
       (dr_events r) ()))"

definition check_anchor_result :: "subject \<Rightarrow> entity_instance \<Rightarrow> decision_record \<Rightarrow> unit async_result" where
  "check_anchor_result s anchor r = ensure (\<not> (dr_revision r = in_revision anchor \<and> dr_result r \<noteq> anchor))
     (corrupt s ''the latest available imported decision differs from the terminal anchor'')"

definition check_envelope :: "subject \<Rightarrow> legacy_anchor \<Rightarrow> imported_evidence \<Rightarrow> unit async_result" where
  "check_envelope s anchor v =
     (let e = ie_entry v; i = la_instance anchor in
      rbind (case entry_validate e of
          Ok _ \<Rightarrow> Ok ()
        | Err m \<Rightarrow> Err (CorruptHistory s (SaidAsync ''imported envelope is invalid: {}'' m))) (\<lambda>_.
      rbind (check_evidence_revision s (entry_revision e) (in_revision i) ''imported envelope'') (\<lambda>_.
      rbind (ensure (entry_subject e = s) (corrupt s ''imported envelope names another subject'')) (\<lambda>_.
      rbind (case e of
          EntryDecision c \<Rightarrow> rbind (check_bare_decision s (env_record (rm_envelope c)) (in_revision i)) (\<lambda>_.
            check_anchor_result s i (env_record (rm_envelope c)))
        | EntryObservation _ \<Rightarrow> Ok ()) (\<lambda>_.
      rbind (ensure (\<not> (is_blank (ie_source_id v) \<or> is_blank (ie_source_locator v)))
        (corrupt s ''imported envelope has blank source coordinates'')) (\<lambda>_.
      ensure (case (la_order anchor, ie_known_order v) of
          (PerKindOnly, OrderPerKind _) \<Rightarrow> True
        | (SubjectOrder, OrderSubject _) \<Rightarrow> True
        | _ \<Rightarrow> False)
        (corrupt s ''imported envelope order contradicts the anchor declaration'')))))))"

definition check_evidence :: "subject \<Rightarrow> legacy_anchor \<Rightarrow> legacy_evidence \<Rightarrow> string list \<Rightarrow> string list async_result" where
  "check_evidence s anchor evidence ids = (case evidence of
     LegacyEnvelope v \<Rightarrow>
       rbind (check_envelope s anchor v) (\<lambda>_.
       let record_id = entry_record_id (ie_entry v) in
       rbind (ensure (record_id \<notin> set ids) (corrupt s ''an imported record identity appears more than once'')) (\<lambda>_.
       Ok (record_id # ids)))
   | LegacyDecision r \<Rightarrow>
       rbind (check_bare_decision s r (in_revision (la_instance anchor))) (\<lambda>_.
       rbind (check_anchor_result s (la_instance anchor) r) (\<lambda>_. Ok ids))
   | LegacyEvent e \<Rightarrow> rbind (check_legacy_event s e (in_revision (la_instance anchor))) (\<lambda>_. Ok ids))"

definition validate_imported_boundary :: "subject \<Rightarrow> history_origin \<Rightarrow> unit async_result" where
  "validate_imported_boundary s origin = (case origin of
     Genesis \<Rightarrow> Ok ()
   | ImportedFrom anchor \<Rightarrow>
       rbind (ensure (\<not> (in_entity (la_instance anchor) \<noteq> su_entity s \<or> in_id (la_instance anchor) \<noteq> su_id s))
         (corrupt s ''anchor instance belongs to another subject'')) (\<lambda>_.
       rbind (check_revision s (in_revision (la_instance anchor))) (\<lambda>_.
       rbind (rfold (check_evidence s anchor) (la_evidence anchor) []) (\<lambda>_. Ok ()))))"

definition verify_imported_record :: "subject_history \<Rightarrow> imported_evidence \<Rightarrow> subject_assurance async_result" where
  "verify_imported_record h evidence =
     (let s = sh_subject h in
      rbind (validate_imported_boundary s (sh_origin h)) (\<lambda>_.
      case sh_origin h of
        Genesis \<Rightarrow> Err (corrupt s ''imported lookup has no imported subject boundary'')
      | ImportedFrom anchor \<Rightarrow>
          rbind (ensure (entry_subject (ie_entry evidence) = s) (corrupt s ''imported lookup names another subject'')) (\<lambda>_.
          rbind (ensure (LegacyEnvelope evidence \<in> set (la_evidence anchor))
            (corrupt s ''imported lookup is absent from its claimed boundary'')) (\<lambda>_.
          Ok (VerifiedAfterBoundary s (in_revision (la_instance anchor)))))))"

section \<open>A linear history\<close>

definition receipt_agrees :: "subject \<Rightarrow> stored_record \<Rightarrow> bool" where
  "receipt_agrees s r \<longleftrightarrow> rr_record_id (sr_receipt r) = entry_record_id (sr_entry r) \<and> rr_subject (sr_receipt r) = s
     \<and> rr_kind (sr_receipt r) = entry_kind (sr_entry r) \<and> rr_revision (sr_receipt r) = entry_revision (sr_entry r)
     \<and> rr_position (sr_receipt r) = sr_position r"

definition said_corrupt :: "subject \<Rightarrow> string \<Rightarrow> 'a async_result \<Rightarrow> 'a async_result" where
  "said_corrupt s m r = (case r of Ok x \<Rightarrow> Ok x | Err e \<Rightarrow> Err (CorruptHistory s (SaidAsync m e)))"

definition check_bytes :: "codec \<Rightarrow> subject \<Rightarrow> stored_record \<Rightarrow> unit async_result" where
  "check_bytes C s r =
     rbind (said_corrupt s ''complete record cannot be encoded for comparison: {}'' (record_comparison_bytes C (sr_entry r))) (\<lambda>encoded.
     rbind (ensure (encoded = sr_record_bytes r)
       (corrupt s ''stored er.record/1 comparison bytes differ from the complete record'')) (\<lambda>_.
     rbind (said_corrupt s ''complete record cannot reproduce its request bytes: {}'' (original_request_comparison_bytes C (sr_entry r)))
       (\<lambda>request.
     ensure (request = sr_request_bytes r)
       (corrupt s ''stored er.request/1 comparison bytes differ from the complete record''))))"

definition validate_stored_coordinates :: "codec \<Rightarrow> subject \<Rightarrow> stored_record \<Rightarrow> record_position option \<Rightarrow> bool \<Rightarrow> unit async_result" where
  "validate_stored_coordinates C s r previous bytes_held =
     rbind (ensure (entry_subject (sr_entry r) = s) (corrupt s ''stored record names another subject'')) (\<lambda>_.
     rbind (ensure (\<not> (case previous of Some p \<Rightarrow> rp_subject (sr_position r) \<le> rp_subject p | None \<Rightarrow> False))
       (corrupt s ''subject physical positions are not strictly increasing'')) (\<lambda>_.
     rbind (ensure (\<not> (case previous of Some p \<Rightarrow> rp_store (sr_position r) \<le> rp_store p | None \<Rightarrow> False))
       (corrupt s ''store physical positions do not follow subject history order'')) (\<lambda>_.
     rbind (ensure (receipt_agrees s r) (corrupt s ''record receipt components do not reproduce the stored record'')) (\<lambda>_.
     rbind (said_corrupt s ''record receipt carries an invalid key: {}'' (validate_key (rr_batch_key (sr_receipt r)))) (\<lambda>_.
     rbind (case rr_batch_key (sr_receipt r) of
         SingleRecord record_id \<Rightarrow> ensure (\<not> (record_id \<noteq> rr_record_id (sr_receipt r) \<or> rr_member_index (sr_receipt r) \<noteq> 0))
           (corrupt s ''single-record receipt does not reproduce its record identity and zero index'')
       | Named _ \<Rightarrow> Ok ()) (\<lambda>_.
     if bytes_held then Ok () else check_bytes C s r))))))"

text \<open>An error of the admission that is not already a corruption becomes one.\<close>

definition follows :: "subject \<Rightarrow> string \<Rightarrow> 'a async_result \<Rightarrow> 'a async_result" where
  "follows s m r = (case r of
     Ok x \<Rightarrow> Ok x
   | Err e \<Rightarrow> (case e of CorruptHistory _ _ \<Rightarrow> Err e | _ \<Rightarrow> Err (CorruptHistory s (SaidAsync m e))))"

definition verify_record :: "codec \<Rightarrow> subject \<Rightarrow> bool \<Rightarrow> stored_record
    \<Rightarrow> entity_instance option \<times> record_position option \<times> string list
    \<Rightarrow> (entity_instance option \<times> record_position option \<times> string list) async_result" where
  "verify_record C s bytes_held r state = (case state of (current, previous, ids) \<Rightarrow>
     rbind (validate_stored_coordinates C s r previous bytes_held) (\<lambda>_.
     rbind (ensure (entry_record_id (sr_entry r) \<notin> set ids)
       (corrupt s ''one global record identity repeats within the subject history'')) (\<lambda>_.
     rbind (follows s ''stored entry does not follow its verified predecessor: {}''
         (validate_entry_against_state C (sr_entry r) (sr_expect r) current)) (\<lambda>next.
     Ok (next, Some (sr_position r), entry_record_id (sr_entry r) # ids)))))"

definition assured :: "subject_history \<Rightarrow> subject_assurance" where
  "assured h = (case sh_origin h of
     Genesis \<Rightarrow> VerifiedFromGenesis (sh_subject h)
   | ImportedFrom anchor \<Rightarrow> VerifiedAfterBoundary (sh_subject h) (in_revision (la_instance anchor)))"

definition reaches :: "subject_history \<Rightarrow> entity_instance option \<Rightarrow> entity_instance \<Rightarrow> subject_assurance async_result" where
  "reaches h current terminal =
     rbind (ok_or current (corrupt (sh_subject h) ''genesis history contains no creation decision'')) (\<lambda>i.
     rbind (ensure (i = terminal) (corrupt (sh_subject h) ''supplied terminal state differs from verified history'')) (\<lambda>_.
     Ok (assured h)))"

definition verify_records_from :: "codec \<Rightarrow> subject_history \<Rightarrow> nat \<Rightarrow> entity_instance option \<Rightarrow> entity_instance \<Rightarrow> bool
    \<Rightarrow> subject_assurance async_result" where
  "verify_records_from C h start current terminal bytes_held =
     (let s = sh_subject h; before = take start (sh_records h) in
      rbind (validate_subject s) (\<lambda>_.
      rbind (validate_imported_boundary s (sh_origin h)) (\<lambda>_.
      rbind (rfold (verify_record C s bytes_held) (drop start (sh_records h))
          (current, if before = [] then None else Some (sr_position (last before)),
           rev (map (\<lambda>r. entry_record_id (sr_entry r)) before))) (\<lambda>(current, _, _).
      reaches h current terminal))))"

section \<open>A branched history\<close>

definition branched :: "subject_history \<Rightarrow> bool" where
  "branched h \<longleftrightarrow> list_ex (\<lambda>r. sr_lineage r \<noteq> None) (sh_records h)"

record branch_walk =
  bw_states :: "entity_instance option smap"
  bw_sits_on :: "string list smap"
  bw_ancestors :: "string list smap"
  bw_decisions :: "string list"
  bw_ids :: "string list"
  bw_anchor :: "string option"
  bw_previous :: "record_position option"

definition walk_start :: branch_walk where
  "walk_start = \<lparr>bw_states = [], bw_sits_on = [], bw_ancestors = [], bw_decisions = [], bw_ids = [], bw_anchor = None, bw_previous = None\<rparr>"

text \<open>The decisions one parent sits on; a digest no record carries is the imported anchor's, once.\<close>

definition parent_sits :: "subject \<Rightarrow> history_origin \<Rightarrow> string \<Rightarrow> branch_walk \<Rightarrow> (string list \<times> branch_walk) async_result" where
  "parent_sits s origin parent w = (case bt_get (bw_sits_on w) parent of
     Some sits \<Rightarrow> Ok (sits, w)
   | None \<Rightarrow>
       (let anchor = (case bw_anchor w of Some a \<Rightarrow> a | None \<Rightarrow> parent) in
        if origin \<noteq> Genesis \<and> anchor = parent
        then Ok ([parent], w\<lparr>bw_anchor := Some anchor, bw_decisions := bs_insert parent (bw_decisions w),
               bw_ancestors := (if bt_contains (bw_ancestors w) parent then bw_ancestors w
                 else bt_insert parent [] (bw_ancestors w))\<rparr>)
        else Err (corrupt s ''a record follows one that is not an earlier record of its subject'')))"

definition gather :: "string list \<Rightarrow> string list \<Rightarrow> string list" where
  "gather on sits = fold (\<lambda>decision on. if decision \<in> set on then on else on @ [decision]) sits on"

definition parents_sit :: "subject \<Rightarrow> history_origin \<Rightarrow> string list \<Rightarrow> branch_walk \<Rightarrow> (string list \<times> branch_walk) async_result" where
  "parents_sit s origin parents w =
     rfold (\<lambda>parent (on, w). rbind (parent_sits s origin parent w) (\<lambda>(sits, w). Ok (gather on sits, w))) parents ([], w)"

definition joined_heads :: "branch_walk \<Rightarrow> string list \<Rightarrow> string list" where
  "joined_heads w on = filter (\<lambda>decision. \<not> list_ex (\<lambda>other. other \<noteq> decision
     \<and> (case bt_get (bw_ancestors w) other of Some descends \<Rightarrow> decision \<in> set descends | None \<Rightarrow> False)) on) on"

definition state_of :: "branch_walk \<Rightarrow> entity_instance option \<Rightarrow> string \<Rightarrow> entity_instance option" where
  "state_of w origin decision = (case bt_get (bw_states w) decision of Some state \<Rightarrow> state | None \<Rightarrow> origin)"

definition highest_revision :: "entity_instance option list \<Rightarrow> 64 word option" where
  "highest_revision bases = fold (\<lambda>base highest. case base of
       None \<Rightarrow> highest
     | Some i \<Rightarrow> Some (case highest of None \<Rightarrow> in_revision i | Some h \<Rightarrow> max h (in_revision i))) bases None"

definition raised :: "64 word option \<Rightarrow> entity_instance option \<Rightarrow> entity_instance option" where
  "raised highest state = map_option (\<lambda>i. case highest of Some revision \<Rightarrow> i\<lparr>in_revision := revision\<rparr> | None \<Rightarrow> i) state"

fun first_ok :: "('a \<Rightarrow> ('e, 'b) result) \<Rightarrow> 'a list \<Rightarrow> 'b option" where
  "first_ok f [] = None"
| "first_ok f (x # xs) = (case f x of Ok y \<Rightarrow> Some y | Err _ \<Rightarrow> first_ok f xs)"

text \<open>The state a record is admitted on, and the state a merge decision reproduces from one of its heads.\<close>

definition branch_base :: "codec \<Rightarrow> subject \<Rightarrow> stored_record \<Rightarrow> branch_walk \<Rightarrow> entity_instance option \<Rightarrow> string list
    \<Rightarrow> (entity_instance option \<times> entity_instance option option) async_result" where
  "branch_base C s r w origin on = (case on of
     [] \<Rightarrow> Ok (origin, None)
   | [decision] \<Rightarrow> Ok (state_of w origin decision, None)
   | first # _ \<Rightarrow>
       if entry_kind (sr_entry r) \<noteq> KindDecision
       then Err (corrupt s ''an observation follows branches only a merge decision may join'')
       else (let bases = map (state_of w origin) on; highest = highest_revision bases in
         Ok (raised highest (state_of w origin first),
             first_ok (\<lambda>base. validate_entry_against_state C (sr_entry r) (sr_expect r) (raised highest base)) bases)))"

definition descends_from :: "branch_walk \<Rightarrow> string list \<Rightarrow> string list" where
  "descends_from w on = bs_collect (concat (map (\<lambda>decision. decision
     # (case bt_get (bw_ancestors w) decision of Some further \<Rightarrow> further | None \<Rightarrow> [])) on))"

definition walk_record :: "codec \<Rightarrow> subject \<Rightarrow> history_origin \<Rightarrow> stored_record \<Rightarrow> branch_walk \<Rightarrow> branch_walk async_result" where
  "walk_record C s origin r w =
     rbind (validate_stored_coordinates C s r (bw_previous w) False) (\<lambda>_.
     rbind (ensure (entry_record_id (sr_entry r) \<notin> set (bw_ids w))
       (corrupt s ''one global record identity repeats within the subject history'')) (\<lambda>_.
     rbind (ok_or (sr_lineage r) (corrupt s ''a branched history holds a record that names no lineage'')) (\<lambda>lineage.
     rbind (parents_sit s origin (ln_parents lineage) w) (\<lambda>(on, w).
     let on = joined_heads w on; start = origin_state origin; digest = ln_digest lineage in
     rbind (branch_base C s r w start on) (\<lambda>(current, merged).
     rbind (case merged of
         Some next \<Rightarrow> Ok next
       | None \<Rightarrow> follows s ''stored entry does not follow its verified parent: {}''
           (validate_entry_against_state C (sr_entry r) (sr_expect r) current)) (\<lambda>next.
     rbind (ensure (\<not> bt_contains (bw_states w) digest) (corrupt s ''one record digest repeats within the subject history'')) (\<lambda>_.
     let w = w\<lparr>bw_states := bt_insert digest next (bw_states w), bw_ids := entry_record_id (sr_entry r) # bw_ids w,
         bw_previous := Some (sr_position r)\<rparr> in
     Ok (if entry_kind (sr_entry r) = KindDecision
         then w\<lparr>bw_ancestors := bt_insert digest (descends_from w on) (bw_ancestors w),
           bw_decisions := bs_insert digest (bw_decisions w), bw_sits_on := bt_insert digest [digest] (bw_sits_on w)\<rparr>
         else w\<lparr>bw_sits_on := bt_insert digest on (bw_sits_on w)\<rparr>))))))))"

definition walk_heads :: "branch_walk \<Rightarrow> string list" where
  "walk_heads w = filter (\<lambda>decision. decision \<notin> set (concat (bt_values (bw_ancestors w)))) (bw_decisions w)"

text \<open>The walk, its states (the anchor's among them) and its heads.\<close>

definition walk_branches :: "codec \<Rightarrow> subject_history \<Rightarrow> (entity_instance option smap \<times> string list) async_result" where
  "walk_branches C h =
     (let s = sh_subject h; origin = origin_state (sh_origin h) in
      rbind (validate_subject s) (\<lambda>_.
      rbind (validate_imported_boundary s (sh_origin h)) (\<lambda>_.
      rbind (rfold (walk_record C s (sh_origin h)) (sh_records h) walk_start) (\<lambda>w.
      Ok (case bw_anchor w of
            Some anchor \<Rightarrow> if bt_contains (bw_states w) anchor then bw_states w else bt_insert anchor origin (bw_states w)
          | None \<Rightarrow> bw_states w,
          walk_heads w)))))"

definition branch_heads :: "codec \<Rightarrow> subject_history \<Rightarrow> (string \<times> entity_instance option) list async_result" where
  "branch_heads C h = rbind (walk_branches C h) (\<lambda>(states, heads).
     Ok (map (\<lambda>head. (head, case bt_get states head of Some state \<Rightarrow> state | None \<Rightarrow> None)) heads))"

definition branch_tips :: "subject_history \<Rightarrow> string list" where
  "branch_tips h =
     (let lineages = List.map_filter sr_lineage (sh_records h); followed = concat (map ln_parents lineages) in
      bs_collect (filter (\<lambda>digest. digest \<notin> set followed) (map ln_digest lineages)))"

definition verify_branched :: "codec \<Rightarrow> subject_history \<Rightarrow> entity_instance \<Rightarrow> subject_assurance async_result" where
  "verify_branched C h terminal =
     rbind (walk_branches C h) (\<lambda>(states, heads).
     rbind (ensure (\<not> length heads > 1) (Forked (sh_subject h) heads)) (\<lambda>_.
     reaches h (case (case heads of head # _ \<Rightarrow> (case bt_get states head of Some state \<Rightarrow> state | None \<Rightarrow> None) | [] \<Rightarrow> None) of
         Some i \<Rightarrow> Some i
       | None \<Rightarrow> origin_state (sh_origin h)) terminal))"

section \<open>Whole histories\<close>

definition verify_subject_history :: "codec \<Rightarrow> subject_history \<Rightarrow> entity_instance \<Rightarrow> subject_assurance async_result" where
  "verify_subject_history C h terminal =
     (if branched h then verify_branched C h terminal
      else verify_records_from C h 0 (origin_state (sh_origin h)) terminal False)"

definition verify_subject_history_extension :: "codec \<Rightarrow> subject_history \<Rightarrow> nat \<Rightarrow> entity_instance \<Rightarrow> entity_instance
    \<Rightarrow> subject_assurance async_result" where
  "verify_subject_history_extension C h verified state terminal =
     (if verified = 0 \<or> verified > length (sh_records h) \<or> branched h then verify_subject_history C h terminal
      else verify_records_from C h verified (Some state) terminal False)"

definition verify_with_checked_bytes :: "codec \<Rightarrow> subject_history \<Rightarrow> (nat \<times> entity_instance) option \<Rightarrow> entity_instance
    \<Rightarrow> subject_assurance async_result" where
  "verify_with_checked_bytes C h verified terminal =
     (if branched h then verify_subject_history C h terminal
      else (case verified of
          Some (records, state) \<Rightarrow>
            if records > 0 \<and> records \<le> length (sh_records h)
            then verify_records_from C h records (Some state) terminal True
            else verify_records_from C h 0 (origin_state (sh_origin h)) terminal True
        | None \<Rightarrow> verify_records_from C h 0 (origin_state (sh_origin h)) terminal True))"

definition decided_instance :: "stored_record \<Rightarrow> entity_instance option" where
  "decided_instance r = (case sr_entry r of EntryDecision c \<Rightarrow> Some (rm_instance c) | EntryObservation _ \<Rightarrow> None)"

fun prefix_through :: "string \<Rightarrow> stored_record list \<Rightarrow> stored_record list option" where
  "prefix_through record_id [] = None"
| "prefix_through record_id (r # rs) =
     (if entry_record_id (sr_entry r) = record_id then Some [r] else map_option (\<lambda>p. r # p) (prefix_through record_id rs))"

definition verify_subject_prefix :: "codec \<Rightarrow> subject_history \<Rightarrow> string \<Rightarrow> subject_assurance async_result" where
  "verify_subject_prefix C h record_id =
     rbind (ok_or (prefix_through record_id (sh_records h)) (CorruptHistory (sh_subject h)
       (Said (Msg ''record {:?} is absent from its claimed history'' [ArgText record_id])))) (\<lambda>records.
     let prefix = h\<lparr>sh_records := records\<rparr> in
     rbind (ok_or (case List.map_filter decided_instance (rev records) of
           i # _ \<Rightarrow> Some i
         | [] \<Rightarrow> origin_state (sh_origin h))
       (corrupt (sh_subject h) ''verified prefix has no state-producing decision'')) (\<lambda>terminal.
     verify_subject_history C prefix terminal))"

section \<open>The histories of a store\<close>

record store_walk =
  sw_assurances :: "subject_assurance list"
  sw_subjects :: "subject list"
  sw_record_ids :: "string list"
  sw_positions :: "64 word list"
  sw_memberships :: "(batch_key \<times> 64 word, string \<times> subject \<times> record_kind) btree"
  sw_orders :: "(batch_key, (64 word \<times> 64 word \<times> subject) list) btree"

definition store_walk_start :: store_walk where
  "store_walk_start = \<lparr>sw_assurances = [], sw_subjects = [], sw_record_ids = [], sw_positions = [], sw_memberships = [], sw_orders = []\<rparr>"

definition claim_record_id :: "subject \<Rightarrow> string \<Rightarrow> store_walk \<Rightarrow> store_walk async_result" where
  "claim_record_id s record_id w =
     rbind (ensure (record_id \<notin> set (sw_record_ids w)) (corrupt s ''global record identity repeats across supplied histories''))
       (\<lambda>_. Ok (w\<lparr>sw_record_ids := record_id # sw_record_ids w\<rparr>))"

definition claim_record :: "subject \<Rightarrow> stored_record \<Rightarrow> store_walk \<Rightarrow> store_walk async_result" where
  "claim_record s r w =
     (let receipt = sr_receipt r; key = rr_batch_key receipt; coordinate = (key, rr_member_index receipt);
          components = (rr_record_id receipt, rr_subject receipt, rr_kind receipt); store = rp_store (sr_position r) in
      rbind (claim_record_id s (entry_record_id (sr_entry r)) w) (\<lambda>w.
      rbind (ensure (store \<notin> set (sw_positions w)) (corrupt s ''store physical position repeats across supplied histories'')) (\<lambda>_.
      rbind (ensure (\<not> (case bt_get (sw_memberships w) coordinate of Some prior \<Rightarrow> prior \<noteq> components | None \<Rightarrow> False))
        (corrupt s ''one batch member coordinate names inconsistent records'')) (\<lambda>_.
      Ok (w\<lparr>sw_positions := store # sw_positions w, sw_memberships := bt_insert coordinate components (sw_memberships w),
        sw_orders := bt_extend key [(rr_member_index receipt, store, s)] (sw_orders w)\<rparr>)))))"

definition anchor_ids :: "history_origin \<Rightarrow> string list" where
  "anchor_ids origin = (case origin of
     Genesis \<Rightarrow> []
   | ImportedFrom anchor \<Rightarrow> concat (map (\<lambda>evidence. case evidence of
         LegacyEnvelope v \<Rightarrow> [entry_record_id (ie_entry v)]
       | _ \<Rightarrow> []) (la_evidence anchor)))"

definition claim_history :: "codec \<Rightarrow> subject_snapshot \<Rightarrow> store_walk \<Rightarrow> store_walk async_result" where
  "claim_history C snapshot w =
     (let h = ss_history snapshot; s = sh_subject h in
      rbind (ensure (s \<notin> set (sw_subjects w)) (corrupt s ''subject appears more than once in the supplied scope'')) (\<lambda>_.
      rbind (verify_subject_history C h (ss_terminal snapshot)) (\<lambda>assurance.
      let w = w\<lparr>sw_subjects := s # sw_subjects w, sw_assurances := sw_assurances w @ [assurance]\<rparr> in
      rbind (rfold (claim_record_id s) (anchor_ids (sh_origin h)) w) (\<lambda>w.
      rfold (claim_record s) (sh_records h) w))))"

definition assurance_subject :: "subject_assurance \<Rightarrow> subject" where
  "assurance_subject a = (case a of VerifiedFromGenesis s \<Rightarrow> s | VerifiedAfterBoundary s _ \<Rightarrow> s)"

fun ascending_members :: "(64 word \<times> 64 word \<times> subject) list \<Rightarrow> unit async_result" where
  "ascending_members ((_, a, _) # (i, b, s) # members) =
     (if a \<ge> b then Err (corrupt s ''batch member order disagrees with store physical order'')
      else ascending_members ((i, b, s) # members))"
| "ascending_members members = Ok ()"

definition verify_histories :: "codec \<Rightarrow> string \<Rightarrow> subject_snapshot list \<Rightarrow> store_coverage \<Rightarrow> store_assurance async_result" where
  "verify_histories C scope histories coverage =
     rbind (ensure (\<not> is_blank scope) (invalid_input ''store verification requires a nonblank logical scope'')) (\<lambda>_.
     rbind (rfold (claim_history C) histories store_walk_start) (\<lambda>w.
     rbind (rfold (\<lambda>members _. ascending_members (sort_key fst members)) (bt_values (sw_orders w)) ()) (\<lambda>_.
     Ok \<lparr>sa_scope = scope, sa_coverage = coverage, sa_subjects = sort_key assurance_subject (sw_assurances w)\<rparr>)))"

definition verify_store_histories :: "codec \<Rightarrow> complete_store_snapshot \<Rightarrow> store_assurance async_result" where
  "verify_store_histories C snapshot =
     rbind (ensure (cs_coverage snapshot = ExplicitSet)
       (invalid_input ''editable transcripts cannot claim provider-complete coverage; use verify_complete_store'')) (\<lambda>_.
     verify_histories C (cs_scope snapshot) (cs_histories snapshot) ExplicitSet)"

text \<open>The reader's port is an argument: what it captured of the scope it was asked for.\<close>

definition verify_complete_store :: "codec \<Rightarrow> (string \<Rightarrow> complete_store_snapshot async_result) \<Rightarrow> string
    \<Rightarrow> store_assurance async_result" where
  "verify_complete_store C complete_snapshot scope =
     rbind (ensure (\<not> is_blank scope) (invalid_input ''store verification requires a nonblank logical scope'')) (\<lambda>_.
     rbind (complete_snapshot scope) (\<lambda>snapshot.
     rbind (ensure (\<not> (cs_scope snapshot \<noteq> scope \<or> cs_coverage snapshot \<noteq> CompleteSnapshot))
       (invalid_input ''provider snapshot did not reproduce the requested scope and complete marker'')) (\<lambda>_.
     verify_histories C (cs_scope snapshot) (cs_histories snapshot) CompleteSnapshot)))"

end
