(* ===== verification/Executor.thy ===== *)
theory Executor
  imports Registry Verify
begin

text \<open>
  The executor of \<open>entity-executor/src/lib.rs\<close>: it orders identity, history, state and append calls of a recorded
  store around the kernel. The store is a record of ports (\<open>asynchronous/ports.rs\<close>), each a function of the
  provider's state; a port may leave its future pending, and then the executor's future is pending too.
\<close>

section \<open>Futures over a provider's state\<close>

type_synonym ('s, 'e, 'a) task = "'s \<Rightarrow> 's \<times> ('e, 'a) result option"

definition ready :: "('e, 'a) result \<Rightarrow> ('s, 'e, 'a) task" where
  "ready r = (\<lambda>s. (s, Some r))"

definition awaited :: "('s, 'e, 'a) task \<Rightarrow> (('e, 'a) result \<Rightarrow> ('s, 'f, 'b) task) \<Rightarrow> ('s, 'f, 'b) task" where
  "awaited m f = (\<lambda>s. case m s of (s, Some r) \<Rightarrow> f r s | (s, None) \<Rightarrow> (s, None))"

definition tbind :: "('s, 'e, 'a) task \<Rightarrow> ('a \<Rightarrow> ('s, 'e, 'b) task) \<Rightarrow> ('s, 'e, 'b) task" where
  "tbind m f = awaited m (\<lambda>r. case r of Ok x \<Rightarrow> f x | Err e \<Rightarrow> ready (Err e))"

lemma map_err_Err_iff [res_simps]: "map_err f r = Err e' \<longleftrightarrow> (\<exists>e. r = Err e \<and> e' = f e)"
  by (auto simp: map_err_def split: sum.splits)

fun tfold :: "('x \<Rightarrow> 'a \<Rightarrow> ('s, 'e, 'a) task) \<Rightarrow> 'x list \<Rightarrow> 'a \<Rightarrow> ('s, 'e, 'a) task" where
  "tfold f [] a = ready (Ok a)"
| "tfold f (x # xs) a = tbind (f x a) (tfold f xs)"

section \<open>The ports of a recorded store\<close>

record 's ports =
  pt_load :: "subject \<Rightarrow> ('s, async_store_error, entity_instance option) task"
  pt_lookup_record :: "string \<Rightarrow> ('s, async_store_error, record_lookup option) task"
  pt_lookup_batch :: "batch_key \<Rightarrow> ('s, async_store_error, stored_batch option) task"
  pt_history :: "subject \<Rightarrow> ('s, async_store_error, subject_history) task"
  pt_append :: "append_request \<Rightarrow> ('s, write_failure, append_outcome) task"

type_synonym 's refusal_recorder = "recorded_refusal \<Rightarrow> ('s, async_store_error, bool) task"

section \<open>Requests\<close>

record create_request =
  xc_subject :: subject
  xc_version :: "32 word"
  xc_fields :: json
  xc_recording :: recording

record execute_request =
  xe_subject :: subject
  xe_expected :: "64 word"
  xe_operation :: string
  xe_arguments :: json
  xe_fulfillments :: actions
  xe_recording :: recording

record merge_request =
  xm_execute :: execute_request
  xm_first :: string

datatype batch_action =
    ActCreate create_request
  | ActExecute execute_request
  | ActObserve recorded_observation
  | ActMerge merge_request

datatype versioned_action =
    VersionedCreate create_request
  | VersionedExecute "32 word" execute_request
  | VersionedObserve recorded_observation
  | VersionedMerge "32 word" merge_request

record bound_action =
  ba_action :: batch_action
  ba_version :: "32 word option"

definition bound :: "batch_action \<Rightarrow> bound_action" where
  "bound action = \<lparr>ba_action = action, ba_version = None\<rparr>"

definition bound_version :: "versioned_action \<Rightarrow> bound_action" where
  "bound_version action = (case action of
     VersionedCreate q \<Rightarrow> bound (ActCreate q)
   | VersionedObserve b \<Rightarrow> bound (ActObserve b)
   | VersionedExecute version q \<Rightarrow> \<lparr>ba_action = ActExecute q, ba_version = Some version\<rparr>
   | VersionedMerge version q \<Rightarrow> \<lparr>ba_action = ActMerge q, ba_version = Some version\<rparr>)"

record prepared_action =
  pp_operation :: "prepared_operation option"
  pp_creation :: "kernel_answer core_result option"

definition nothing_prepared :: prepared_action where
  "nothing_prepared = \<lparr>pp_operation = None, pp_creation = None\<rparr>"

datatype execution_error = ExecCore core_error | ExecStore async_store_error | ExecWrite write_failure

type_synonym 'a exec_result = "(execution_error, 'a) result"

definition execution_store_error :: "execution_error \<Rightarrow> async_store_error option" where
  "execution_store_error e = (case e of
     ExecStore error \<Rightarrow> Some error
   | ExecWrite (NotCommitted error) \<Rightarrow> Some error
   | _ \<Rightarrow> None)"

definition is_revision_conflict :: "execution_error \<Rightarrow> bool" where
  "is_revision_conflict e \<longleftrightarrow> (case execution_store_error e of Some (AsyncRevisionConflict _ _ _) \<Rightarrow> True | _ \<Rightarrow> False)"

abbreviation exec_invalid :: "string \<Rightarrow> execution_error" where
  "exec_invalid m \<equiv> ExecStore (invalid_input m)"

definition action_subject :: "batch_action \<Rightarrow> subject" where
  "action_subject a = (case a of
     ActCreate q \<Rightarrow> xc_subject q
   | ActExecute q \<Rightarrow> xe_subject q
   | ActMerge q \<Rightarrow> xe_subject (xm_execute q)
   | ActObserve b \<Rightarrow> Subject (ro_entity b) (ro_id b))"

definition action_record_id :: "batch_action \<Rightarrow> string" where
  "action_record_id a = (case a of
     ActCreate q \<Rightarrow> rg_record_id (xc_recording q)
   | ActExecute q \<Rightarrow> rg_record_id (xe_recording q)
   | ActMerge q \<Rightarrow> rg_record_id (xe_recording (xm_execute q))
   | ActObserve b \<Rightarrow> env_record_id (ro_envelope b))"

abbreviation bound_record_id :: "bound_action \<Rightarrow> string" where
  "bound_record_id a \<equiv> action_record_id (ba_action a)"

abbreviation bound_subject :: "bound_action \<Rightarrow> subject" where
  "bound_subject a \<equiv> action_subject (ba_action a)"

section \<open>The shape of a request\<close>

definition validate_recording :: "recording \<Rightarrow> unit exec_result" where
  "validate_recording g = (case seal g () of Ok _ \<Rightarrow> Ok () | Err m \<Rightarrow> Err (ExecStore (InvalidInput (Said m))))"

definition validate_revision :: "64 word \<Rightarrow> unit exec_result" where
  "validate_revision revision = ensure (\<not> (revision = 0 \<or> revision > max_revision))
     (ExecStore (InvalidInput (Said (Msg ''revision {} is outside 1..={}'' [ArgNat (unat revision), ArgNat (unat max_revision)]))))"

definition validate_execute_shape :: "execute_request \<Rightarrow> unit exec_result" where
  "validate_execute_shape q =
     rbind (map_err ExecStore (validate_subject (xe_subject q))) (\<lambda>_.
     rbind (validate_recording (xe_recording q)) (\<lambda>_.
     rbind (validate_revision (xe_expected q)) (\<lambda>_.
     ensure (\<not> is_blank (xe_operation q)) (exec_invalid ''execute requires a nonblank operation''))))"

definition validate_shape :: "batch_action \<Rightarrow> unit exec_result" where
  "validate_shape a = rbind (map_err ExecStore (validate_subject (action_subject a))) (\<lambda>_. case a of
     ActCreate q \<Rightarrow> rbind (validate_recording (xc_recording q)) (\<lambda>_.
       ensure (xc_version q \<noteq> 0) (exec_invalid ''create requires a positive definition version''))
   | ActExecute q \<Rightarrow> validate_execute_shape q
   | ActMerge q \<Rightarrow> rbind (validate_execute_shape (xm_execute q)) (\<lambda>_.
       ensure (\<not> is_blank (xm_first q)) (exec_invalid ''merge requires the head it is decided on''))
   | ActObserve b \<Rightarrow> map_err ExecStore (said_store (observation_validate b)))"

definition validate_action :: "bound_action \<Rightarrow> string list \<Rightarrow> string list exec_result" where
  "validate_action a ids =
     rbind (validate_shape (ba_action a)) (\<lambda>_.
     rbind (ensure (ba_version a \<noteq> Some 0) (exec_invalid ''execute requires a positive definition version'')) (\<lambda>_.
     rbind (ensure (bound_record_id a \<notin> set ids) (ExecStore (DuplicateRecordId (bound_record_id a)))) (\<lambda>_.
     Ok (bound_record_id a # ids))))"

definition validate_batch :: "batch_key \<Rightarrow> bound_action list \<Rightarrow> unit exec_result" where
  "validate_batch k actions =
     rbind (map_err ExecStore (validate_key k)) (\<lambda>_.
     rbind (rfold validate_action actions []) (\<lambda>_.
     map_err ExecStore (validate_single k (map bound_record_id actions)
       ''SingleRecord requires exactly one action with the same record id'')))"

section \<open>The bytes a request is recognised by\<close>

definition saved_definition :: "recorded_entry \<Rightarrow> entity_definition async_result" where
  "saved_definition e = (case e of
     EntryObservation _ \<Rightarrow> Err (invalid_input ''a decision request cannot match an observation'')
   | EntryDecision c \<Rightarrow>
       rbind (ok_or (dr_definition (env_record (rm_envelope c)))
         (HistoricalRetryUnverifiable (env_record_id (rm_envelope c)) (plain ''saved definition is unavailable''))) (\<lambda>d.
       map_err (\<lambda>defects. CorruptHistory (entry_subject e) (SaidDefects ''saved definition is invalid: {}'' defects)) (validate_new d)))"

definition names_subject :: "recorded_commit \<Rightarrow> subject \<Rightarrow> bool" where
  "names_subject c s \<longleftrightarrow> dr_entity (env_record (rm_envelope c)) = su_entity s \<and> dr_id (env_record (rm_envelope c)) = su_id s"

definition said_core :: "'a core_result \<Rightarrow> 'a async_result" where
  "said_core r = map_err (\<lambda>e. InvalidInput (SaidCore ''{}'' e)) r"

definition create_bytes :: "codec \<Rightarrow> create_request \<Rightarrow> recorded_commit \<Rightarrow> string async_result" where
  "create_bytes C q c =
     (let original = EntryDecision c; s = xc_subject q; domain = request_domain original in
      rbind (saved_definition original) (\<lambda>d.
      rbind (said_core (create (cx_serde C) d (su_id s) (xc_fields q))) (\<lambda>decision.
      case dr_command (dn_record decision) of
        CommandCreate created arguments \<Rightarrow>
          rbind (ensure (names_subject c s) (AsyncRecordConflict (rg_record_id (xc_recording q)))) (\<lambda>_.
          canonical_domain_bytes C domain (if service_request domain
            then create_document ''arguments'' (su_entity s) (su_id s) (xc_version q) (JObject arguments) (xc_recording q)
            else create_document ''fields'' (su_entity s) (su_id s) (xc_version q) (JObject created) (xc_recording q)))
      | _ \<Rightarrow> Err (AsyncBackend (plain ''create normalization did not produce a create command'')))))"

definition execute_bytes :: "codec \<Rightarrow> execute_request \<Rightarrow> recorded_commit \<Rightarrow> string async_result" where
  "execute_bytes C q c =
     (let original = EntryDecision c; s = xe_subject q; domain = request_domain original; conflict = AsyncRecordConflict (rg_record_id (xe_recording q)) in
      rbind (saved_definition original) (\<lambda>d.
      rbind (said_core (normalize_arguments d (xe_operation q) (xe_arguments q))) (\<lambda>args.
      rbind (ensure (names_subject c s) conflict) (\<lambda>_.
      rbind (ensure (domain = ''er.request/4'' \<or> xe_fulfillments q = []) conflict) (\<lambda>_.
      canonical_domain_bytes C domain (execute_document (su_entity s) (su_id s) (xe_expected q) (xe_operation q) args
        (if domain = ''er.request/4'' then Some (xe_fulfillments q) else None) (xe_recording q)))))))"

definition request_comparison_bytes :: "codec \<Rightarrow> batch_action \<Rightarrow> recorded_entry \<Rightarrow> string async_result" where
  "request_comparison_bytes C a original = (case (a, original) of
     (ActCreate q, EntryDecision c) \<Rightarrow> create_bytes C q c
   | (ActExecute q, EntryDecision c) \<Rightarrow> execute_bytes C q c
   | (ActMerge q, EntryDecision c) \<Rightarrow> execute_bytes C (xm_execute q) c
   | (ActObserve b, EntryObservation held) \<Rightarrow>
       rbind (ensure (ro_entity b = ro_entity held \<and> ro_id b = ro_id held) (AsyncRecordConflict (env_record_id (ro_envelope b)))) (\<lambda>_.
       rbind (observation_document C b) (canonical_domain_bytes C (request_domain original)))
   | _ \<Rightarrow> Err (AsyncRecordConflict (action_record_id a)))"

definition map_retry_error :: "subject \<Rightarrow> string \<Rightarrow> async_store_error \<Rightarrow> bool \<Rightarrow> execution_error" where
  "map_retry_error s record_id e imported = (case e of
     HistoricalRetryUnverifiable _ m \<Rightarrow> if imported then ExecStore e else ExecStore (CorruptHistory s (Said m))
   | InvalidInput _ \<Rightarrow> ExecStore (AsyncRecordConflict record_id)
   | _ \<Rightarrow> ExecStore e)"

section \<open>Recovery of what is already recorded\<close>

definition match_saved_version :: "bound_action \<Rightarrow> recorded_entry \<Rightarrow> unit exec_result" where
  "match_saved_version a e = (case ba_version a of
     None \<Rightarrow> Ok ()
   | Some version \<Rightarrow> ensure (case e of
         EntryDecision c \<Rightarrow> in_version (rm_instance c) = version
           \<and> (case dr_definition (env_record (rm_envelope c)) of Some d \<Rightarrow> def_version d = version | None \<Rightarrow> True)
       | EntryObservation _ \<Rightarrow> False)
       (ExecStore (AsyncRecordConflict (bound_record_id a))))"

definition match_committed :: "codec \<Rightarrow> bound_action \<Rightarrow> stored_record \<Rightarrow> unit exec_result" where
  "match_committed C a stored =
     rbind (match_saved_version a (sr_entry stored)) (\<lambda>_.
     rbind (map_err (\<lambda>e. map_retry_error (bound_subject a) (bound_record_id a) e False)
       (request_comparison_bytes C (ba_action a) (sr_entry stored))) (\<lambda>requested.
     ensure (requested = sr_request_bytes stored) (ExecStore (AsyncRecordConflict (bound_record_id a)))))"

definition match_imported :: "codec \<Rightarrow> bound_action \<Rightarrow> imported_evidence \<Rightarrow> unit exec_result" where
  "match_imported C a evidence =
     (let retry = map_err (\<lambda>e. map_retry_error (bound_subject a) (bound_record_id a) e True) in
      rbind (match_saved_version a (ie_entry evidence)) (\<lambda>_.
      rbind (retry (request_comparison_bytes C (ba_action a) (ie_entry evidence))) (\<lambda>requested.
      rbind (retry (original_request_comparison_bytes C (ie_entry evidence))) (\<lambda>original.
      ensure (requested = original) (ExecStore (AsyncRecordConflict (bound_record_id a)))))))"

definition validate_stored_batch :: "codec \<Rightarrow> batch_key \<Rightarrow> nat \<Rightarrow> stored_batch \<Rightarrow> unit exec_result" where
  "validate_stored_batch C k action_count b =
     (let records = sb_records b;
          corrupted = (\<lambda>m. case records of r # _ \<Rightarrow> ExecStore (corrupt (entry_subject (sr_entry r)) m) | [] \<Rightarrow> ExecStore (BatchConflict k)) in
      rbind (ensure (\<not> (sb_key b \<noteq> k \<or> length records \<noteq> action_count)) (ExecStore (BatchConflict k))) (\<lambda>_.
      rbind (map_err ExecStore (batch_comparison_bytes C k (map (\<lambda>r. member_new (sr_expect r) (sr_entry r) (sr_request_bytes r)) records))) (\<lambda>bytes.
      rbind (ensure (bytes = sb_comparison_bytes b) (corrupted ''stored batch comparison bytes differ from its complete records'')) (\<lambda>_.
      rbind (rfold (\<lambda>(index, r) _. ensure (\<not> (rr_batch_key (sr_receipt r) \<noteq> k \<or> rr_member_index (sr_receipt r) \<noteq> of_nat index))
          (corrupted ''stored batch member receipt disagrees with its key or index'')) (enumerate 0 records) ()) (\<lambda>_.
      ensure (case (k, sb_receipt b) of
          (SingleRecord _, SingleReceipt receipt) \<Rightarrow> (case records of [r] \<Rightarrow> receipt = sr_receipt r | _ \<Rightarrow> False)
        | (Named _, BatchOf receipt) \<Rightarrow> bc_key receipt = k \<and> bc_members receipt = map sr_receipt records
        | _ \<Rightarrow> False)
        (corrupted ''stored batch receipt disagrees with its members''))))))"

definition verify_committed_prefix :: "codec \<Rightarrow> 's ports \<Rightarrow> stored_record \<Rightarrow> ('s, execution_error, unit) task" where
  "verify_committed_prefix C P stored =
     (let s = entry_subject (sr_entry stored); record_id = entry_record_id (sr_entry stored) in
      awaited (pt_history P s) (\<lambda>answer. ready (
        rbind (map_err ExecStore answer) (\<lambda>h.
        rbind (ok_or (find (\<lambda>r. entry_record_id (sr_entry r) = record_id) (sh_records h))
          (ExecStore (corrupt s ''global record is absent from its claimed history''))) (\<lambda>occurrence.
        rbind (ensure (occurrence = stored)
          (ExecStore (corrupt s ''global record disagrees with its immutable history occurrence''))) (\<lambda>_.
        rbind (map_err ExecStore (verify_subject_prefix C h record_id)) (\<lambda>_. Ok ())))))))"

definition verify_imported :: "'s ports \<Rightarrow> imported_evidence \<Rightarrow> ('s, execution_error, subject_assurance) task" where
  "verify_imported P evidence = awaited (pt_history P (entry_subject (ie_entry evidence))) (\<lambda>answer. ready (
     rbind (map_err ExecStore answer) (\<lambda>h. map_err ExecStore (verify_imported_record h evidence))))"

text \<open>One member of a batch found under its key: the global index holds the same record, the request matches it, and its history verifies up to it.\<close>

definition recover_member :: "codec \<Rightarrow> 's ports \<Rightarrow> bound_action \<times> stored_record \<Rightarrow> unit \<Rightarrow> ('s, execution_error, unit) task" where
  "recover_member C P = (\<lambda>(a, stored) _.
     awaited (pt_lookup_record P (entry_record_id (sr_entry stored))) (\<lambda>answer.
     case rbind (map_err ExecStore answer) (\<lambda>found.
         rbind (ensure (found = Some (LookupCommitted stored))
           (ExecStore (corrupt (entry_subject (sr_entry stored)) ''batch member disagrees with the global record index''))) (\<lambda>_.
         match_committed C a stored)) of
       Err e \<Rightarrow> ready (Err e)
     | Ok _ \<Rightarrow> verify_committed_prefix C P stored))"

text \<open>One action whose record is looked up on its own: what is found, with the assurance of an imported record.\<close>

type_synonym prior_record = "64 word \<times> record_lookup \<times> subject_assurance option"

definition recover_record :: "codec \<Rightarrow> 's ports \<Rightarrow> nat \<times> bound_action \<Rightarrow> prior_record list
    \<Rightarrow> ('s, execution_error, prior_record list) task" where
  "recover_record C P = (\<lambda>(index, a) prior.
     awaited (pt_lookup_record P (bound_record_id a)) (\<lambda>answer. case answer of
         Err e \<Rightarrow> ready (Err (ExecStore e))
       | Ok None \<Rightarrow> ready (Ok prior)
       | Ok (Some (LookupCommitted stored)) \<Rightarrow>
           (case match_committed C a stored of
              Err e \<Rightarrow> ready (Err e)
            | Ok _ \<Rightarrow> tbind (verify_committed_prefix C P stored) (\<lambda>_.
                ready (Ok (prior @ [(of_nat index, LookupCommitted stored, None)]))))
       | Ok (Some (LookupImported evidence)) \<Rightarrow>
           (case match_imported C a evidence of
              Err e \<Rightarrow> ready (Err e)
            | Ok _ \<Rightarrow> tbind (verify_imported P evidence) (\<lambda>assurance.
                ready (Ok (prior @ [(of_nat index, LookupImported evidence, Some assurance)]))))))"

definition recovered_records :: "batch_key \<Rightarrow> prior_record list \<Rightarrow> append_outcome option exec_result" where
  "recovered_records k prior =
     (if prior = [] then Ok None
      else (case k of
          Named _ \<Rightarrow> Err (ExecStore (PreviouslyRecordedBatchEntries (map fst prior)))
        | SingleRecord _ \<Rightarrow> (case prior of
              (_, LookupCommitted stored, _) # _ \<Rightarrow> Ok (Some (AppendCommitted (SingleReceipt (sr_receipt stored)) True))
            | (_, LookupImported evidence, Some assurance) # _ \<Rightarrow> Ok (Some (AppendHistorical evidence assurance))
            | _ \<Rightarrow> Ok None)))"

definition recover_existing :: "codec \<Rightarrow> 's ports \<Rightarrow> batch_key \<Rightarrow> bound_action list \<Rightarrow> ('s, execution_error, append_outcome option) task" where
  "recover_existing C P k actions =
     awaited (pt_lookup_batch P k) (\<lambda>answer. case answer of
       Err e \<Rightarrow> ready (Err (ExecStore e))
     | Ok (Some b) \<Rightarrow>
         (case validate_stored_batch C k (length actions) b of
            Err e \<Rightarrow> ready (Err e)
          | Ok _ \<Rightarrow> tbind (tfold (recover_member C P) (zip actions (sb_records b)) ()) (\<lambda>_.
              ready (Ok (Some (AppendCommitted (sb_receipt b) True)))))
     | Ok None \<Rightarrow>
         tbind (tfold (recover_record C P) (enumerate 0 actions) []) (\<lambda>prior. ready (recovered_records k prior)))"

end
