(* ===== verification/Execution.thy ===== *)
theory Execution
  imports Executor
begin

text \<open>
  The executor's decisions and its batches (\<open>entity-executor/src/lib.rs\<close>): what is decided before state is read, the
  state a merge is decided on, one decision per action on the states the batch has reached, the append of them
  all, the recovery of a lost response, and the refusals that are recorded.
\<close>

section \<open>Before state is read\<close>

definition refused :: "refusal \<Rightarrow> execution_error" where
  "refused r = ExecCore (Refused (rf_outcome r) (rf_error r) (rf_message r))"

definition prepare :: "serde \<Rightarrow> registry \<Rightarrow> bound_action \<Rightarrow> prepared_action exec_result" where
  "prepare S R a =
     (let operation = (\<lambda>q. case ba_version a of
          None \<Rightarrow> Ok nothing_prepared
        | Some version \<Rightarrow>
            rbind (ok_or (registry_get R (su_entity (xe_subject q)) version)
              (ExecCore (EntityNotRegistered (su_entity (xe_subject q)) version))) (\<lambda>d.
            rbind (map_err ExecCore (decide_before_load d (su_id (xe_subject q)) (xe_operation q) (xe_arguments q))) (\<lambda>preload.
            case preload of
              Load p \<Rightarrow> Ok \<lparr>pp_operation = Some p, pp_creation = None\<rparr>
            | RefusedUnloaded r \<Rightarrow> Err (refused r)))) in
      case ba_action a of
        ActCreate q \<Rightarrow>
          (let creation = runtime_decide_create S R (su_entity (xc_subject q)) (xc_version q) (su_id (xc_subject q)) (xc_fields q) in
           case creation of
             Ok (RefusedBranch r) \<Rightarrow> Err (refused r)
           | _ \<Rightarrow> Ok \<lparr>pp_operation = None, pp_creation = Some creation\<rparr>)
      | ActExecute q \<Rightarrow> operation q
      | ActMerge q \<Rightarrow> operation (xm_execute q)
      | ActObserve _ \<Rightarrow> Ok nothing_prepared)"

section \<open>The state a merge is decided on\<close>

definition merge_conflict :: "execute_request \<Rightarrow> 64 word option \<Rightarrow> execution_error" where
  "merge_conflict q found = ExecStore (AsyncRevisionConflict (xe_subject q) (ExpectRevision (xe_expected q)) found)"

definition leading :: "string \<Rightarrow> string list \<Rightarrow> string list" where
  "leading first digests = (if first \<in> set digests then first # remove1 first digests else digests)"

definition merge_base_of :: "codec \<Rightarrow> merge_request \<Rightarrow> subject_history \<Rightarrow> merge_base exec_result" where
  "merge_base_of C q h =
     (let e = xm_execute q in
      rbind (map_err ExecStore (branch_heads C h)) (\<lambda>heads.
      rbind (ensure (\<not> length heads < 2) (exec_invalid ''a merge names a subject that has not forked'')) (\<lambda>_.
      let highest = highest_revision (map snd heads) in
      case find (\<lambda>(digest, _). digest = xm_first q) heads of
        Some (_, Some first) \<Rightarrow>
          rbind (ensure (highest = Some (xe_expected e)) (merge_conflict e highest)) (\<lambda>_.
          Ok \<lparr>mb_heads = leading (xm_first q) (branch_tips h), mb_base = first\<lparr>in_revision := xe_expected e\<rparr>\<rparr>)
      | _ \<Rightarrow> Err (exec_invalid ''a merge is decided on a head the subject does not have''))))"

definition merge_base_at :: "codec \<Rightarrow> 's ports \<Rightarrow> merge_request \<Rightarrow> ('s, execution_error, merge_base) task" where
  "merge_base_at C P q = awaited (pt_history P (xe_subject (xm_execute q))) (\<lambda>answer.
     ready (rbind (map_err ExecStore answer) (merge_base_of C q)))"

section \<open>One decision\<close>

definition recorded_decision :: "decision \<Rightarrow> recording \<Rightarrow> recorded_entry exec_result" where
  "recorded_decision dn g = rbind (map_err (\<lambda>m. ExecStore (InvalidInput (Said m))) (recorded_commit_new dn g)) (\<lambda>c. Ok (EntryDecision c))"

definition conflicts :: "subject \<Rightarrow> expect \<Rightarrow> 64 word option \<Rightarrow> execution_error" where
  "conflicts s expected found = ExecStore (AsyncRevisionConflict s expected found)"

definition current_at :: "subject \<Rightarrow> 64 word \<Rightarrow> entity_instance option \<Rightarrow> entity_instance exec_result" where
  "current_at s revision current =
     rbind (ok_or current (conflicts s (ExpectRevision revision) None)) (\<lambda>i.
     rbind (ensure (in_revision i = revision) (conflicts s (ExpectRevision revision) (Some (in_revision i)))) (\<lambda>_. Ok i))"

definition decide_creation :: "create_request \<Rightarrow> entity_instance option \<Rightarrow> prepared_action \<Rightarrow> (expect \<times> recorded_entry) exec_result" where
  "decide_creation q current p = (case current of
     Some i \<Rightarrow> Err (conflicts (xc_subject q) Absent (Some (in_revision i)))
   | None \<Rightarrow>
       rbind (ok_or (pp_creation p) (ExecStore (AsyncPanicked ''create was prepared''))) (\<lambda>creation.
       rbind (map_err ExecCore (rbind creation into_decision)) (\<lambda>dn.
       rbind (recorded_decision dn (xc_recording q)) (\<lambda>e. Ok (Absent, e)))))"

text \<open>The evaluation of an operation on the state it is decided on, fulfilled when it asks for the host's actions.\<close>

definition evaluate_operation :: "serde \<Rightarrow> prepared_operation \<Rightarrow> entity_instance \<Rightarrow> execute_request \<Rightarrow> kernel_answer core_result" where
  "evaluate_operation S p i q =
     rbind (select_with S p i) (\<lambda>loaded. case loaded of
       Complete answer \<Rightarrow>
         (case answer of
            Accepted dn \<Rightarrow>
              rbind (ensure (xe_fulfillments q = []) (FulfillmentKeysMismatch (xe_operation q)
                (case dr_outcome (dn_record dn) of Some outcome \<Rightarrow> outcome | None \<Rightarrow> '''') [] (bt_keys (xe_fulfillments q)))) (\<lambda>_.
              Ok answer)
          | RefusedBranch _ \<Rightarrow> Ok answer)
     | NeedsFulfillment prepared \<Rightarrow> complete S prepared (xe_fulfillments q))"

definition decide_operation :: "serde \<Rightarrow> registry \<Rightarrow> execute_request \<Rightarrow> entity_instance option \<Rightarrow> prepared_action
    \<Rightarrow> (expect \<times> recorded_entry) exec_result" where
  "decide_operation S R q current p =
     (let s = xe_subject q in
      rbind (current_at s (xe_expected q) current) (\<lambda>i.
      rbind (case pp_operation p of
          Some prepared \<Rightarrow> Ok prepared
        | None \<Rightarrow>
            rbind (map_err ExecCore (runtime_decide_before_load R (su_entity s) (in_version i) (su_id s) (xe_operation q) (xe_arguments q)))
              (\<lambda>preload. case preload of
                 Load prepared \<Rightarrow> Ok prepared
               | RefusedUnloaded r \<Rightarrow> Err (refused r))) (\<lambda>prepared.
      rbind (map_err ExecCore (rbind (evaluate_operation S prepared i q) into_decision)) (\<lambda>dn.
      rbind (recorded_decision dn (xe_recording q)) (\<lambda>e.
      Ok (ExpectRevision (xe_expected q), e))))))"

definition decide_action :: "serde \<Rightarrow> registry \<Rightarrow> batch_action \<Rightarrow> entity_instance option \<Rightarrow> prepared_action
    \<Rightarrow> (expect \<times> recorded_entry) exec_result" where
  "decide_action S R a current p = (case a of
     ActCreate q \<Rightarrow> decide_creation q current p
   | ActExecute q \<Rightarrow> decide_operation S R q current p
   | ActMerge q \<Rightarrow> decide_operation S R (xm_execute q) current p
   | ActObserve b \<Rightarrow>
       rbind (current_at (action_subject a) (ro_revision b) current) (\<lambda>_. Ok (ExpectRevision (ro_revision b), EntryObservation b)))"

section \<open>A batch\<close>

type_synonym decided = "(subject, entity_instance option) btree \<times> append_member list"

definition decide_merge :: "codec \<Rightarrow> registry \<Rightarrow> 's ports \<Rightarrow> merge_request \<Rightarrow> prepared_action \<Rightarrow> decided
    \<Rightarrow> ('s, execution_error, decided) task" where
  "decide_merge C R P q p = (\<lambda>(overlay, members).
     tbind (merge_base_at C P q) (\<lambda>merge. ready (
     rbind (decide_action (cx_serde C) R (ActExecute (xm_execute q)) (Some (mb_base merge)) p) (\<lambda>(expected, e).
     rbind (map_err ExecStore (request_comparison_bytes C (ActExecute (xm_execute q)) e)) (\<lambda>bytes.
     Ok (case e of
           EntryDecision c \<Rightarrow> bt_insert (xe_subject (xm_execute q)) (Some (rm_instance c)) overlay
         | EntryObservation _ \<Rightarrow> overlay,
         members @ [merging (member_new expected e bytes) merge]))))))"

definition loaded_overlay :: "'s ports \<Rightarrow> subject \<Rightarrow> (subject, entity_instance option) btree
    \<Rightarrow> ('s, execution_error, (subject, entity_instance option) btree) task" where
  "loaded_overlay P s overlay =
     (if bt_contains overlay s then ready (Ok overlay)
      else awaited (pt_load P s) (\<lambda>answer. ready (rbind (map_err ExecStore answer) (\<lambda>state. Ok (bt_insert s state overlay)))))"

definition decide_on :: "codec \<Rightarrow> registry \<Rightarrow> batch_action \<Rightarrow> prepared_action \<Rightarrow> append_member list
    \<Rightarrow> (subject, entity_instance option) btree \<Rightarrow> decided exec_result" where
  "decide_on C R a p members overlay =
     (let s = action_subject a in
      rbind (ok_or (bt_get overlay s) (ExecStore (AsyncPanicked ''subject was loaded before decision''))) (\<lambda>current.
      rbind (decide_action (cx_serde C) R a current p) (\<lambda>(expected, e).
      rbind (map_err ExecStore (request_comparison_bytes C a e)) (\<lambda>bytes.
      Ok (bt_insert s (case e of EntryDecision c \<Rightarrow> Some (rm_instance c) | EntryObservation _ \<Rightarrow> current) overlay,
          members @ [member_new expected e bytes])))))"

definition decide_member :: "codec \<Rightarrow> registry \<Rightarrow> 's ports \<Rightarrow> bound_action \<Rightarrow> decided \<Rightarrow> ('s, execution_error, decided) task" where
  "decide_member C R P a = (\<lambda>(overlay, members).
     case prepare (cx_serde C) R a of
       Err e \<Rightarrow> ready (Err e)
     | Ok p \<Rightarrow>
         (case ba_action a of
            ActMerge q \<Rightarrow> decide_merge C R P q p (overlay, members)
          | action \<Rightarrow> tbind (loaded_overlay P (action_subject action) overlay) (\<lambda>overlay.
              ready (decide_on C R action p members overlay))))"

definition recovered_or :: "execution_error \<Rightarrow> append_outcome option \<Rightarrow> append_outcome exec_result" where
  "recovered_or e found = ok_or found e"

definition append_decided :: "codec \<Rightarrow> 's ports \<Rightarrow> batch_key \<Rightarrow> bound_action list \<Rightarrow> append_member list
    \<Rightarrow> ('s, execution_error, append_outcome) task" where
  "append_decided C P k actions members = (case request_new C k members of
     Err e \<Rightarrow> ready (Err (ExecStore e))
   | Ok q \<Rightarrow> awaited (pt_append P q) (\<lambda>answer. case answer of
         Ok (AppendCommitted receipt True) \<Rightarrow> tbind (recover_existing C P k actions) (\<lambda>found. ready (recovered_or
           (ExecStore (AsyncBackend (plain ''append reported replay but recovery found no committed identity''))) found))
       | Ok outcome \<Rightarrow> ready (Ok outcome)
       | Err (Uncertain key cause) \<Rightarrow> tbind (recover_existing C P k actions) (\<lambda>found. ready (recovered_or
           (ExecWrite (Uncertain key cause)) found))
       | Err (NotCommitted e) \<Rightarrow> ready (Err (ExecWrite (NotCommitted e)))))"

definition decide_and_append :: "codec \<Rightarrow> registry \<Rightarrow> 's ports \<Rightarrow> batch_key \<Rightarrow> bound_action list
    \<Rightarrow> ('s, execution_error, append_outcome) task" where
  "decide_and_append C R P k actions =
     tbind (tfold (decide_member C R P) actions ([], [])) (\<lambda>(_, members). append_decided C P k actions members)"

section \<open>Recorded refusals\<close>

definition refusal_reason_of :: "execution_error \<Rightarrow> refusal_reason option" where
  "refusal_reason_of e = (case e of
     ExecCore m \<Rightarrow> Some (ReasonKernel m)
   | _ \<Rightarrow> (case execution_store_error e of
         Some (AsyncRevisionConflict s expected found) \<Rightarrow>
           Some (ReasonConflict s (case expected of Absent \<Rightarrow> None | ExpectRevision revision \<Rightarrow> Some revision) found)
       | Some (Forked s heads) \<Rightarrow> Some (ReasonForked s heads)
       | _ \<Rightarrow> None))"

definition execute_value :: "execute_request \<Rightarrow> (string \<times> json) list" where
  "execute_value q = [(''kind'', JString ''execute''), (''subject'', JArray [JString (su_entity (xe_subject q)), JString (su_id (xe_subject q))]),
     (''expected_revision'', json_word (xe_expected q)), (''operation'', JString (xe_operation q)), (''arguments'', xe_arguments q)]"

definition action_value :: "batch_action \<Rightarrow> (string \<times> json) list" where
  "action_value a = (case a of
     ActCreate q \<Rightarrow> [(''kind'', JString ''create''), (''subject'', JArray [JString (su_entity (xc_subject q)), JString (su_id (xc_subject q))]),
       (''definition_version'', json_word (xc_version q)), (''fields'', xc_fields q)]
   | ActExecute q \<Rightarrow> execute_value q
   | ActMerge q \<Rightarrow> [(''kind'', JString ''merge''), (''first'', JString (xm_first q)), (''execute'', json_object (execute_value (xm_execute q)))]
   | ActObserve b \<Rightarrow> [(''kind'', JString ''observe''), (''subject'', JArray [JString (ro_entity b), JString (ro_id b)]),
       (''revision'', json_word (ro_revision b))])"

definition bound_action_value :: "bound_action \<Rightarrow> json" where
  "bound_action_value a = json_object (action_value (ba_action a)
     @ (case ba_version a of Some version \<Rightarrow> [(''definition_version'', json_word version)] | None \<Rightarrow> []))"

definition first_recording :: "batch_action \<Rightarrow> recording" where
  "first_recording a = (case a of
     ActCreate q \<Rightarrow> xc_recording q
   | ActExecute q \<Rightarrow> xe_recording q
   | ActMerge q \<Rightarrow> xe_recording (xm_execute q)
   | ActObserve b \<Rightarrow> envelope_recording (ro_envelope b))"

definition batch_refusal :: "batch_key \<Rightarrow> bound_action list \<Rightarrow> refusal_reason \<Rightarrow> recorded_refusal" where
  "batch_refusal k actions reason = \<lparr>rx_key = k, rx_subjects = map bound_subject actions,
     rx_request = JArray (map bound_action_value actions), rx_recording = first_recording (ba_action (hd actions)), rx_reason = reason\<rparr>"

definition record_refused :: "'s refusal_recorder option \<Rightarrow> batch_key \<Rightarrow> bound_action list
    \<Rightarrow> append_outcome exec_result \<Rightarrow> ('s, execution_error, append_outcome) task" where
  "record_refused recorder k actions decided = (case (decided, recorder) of
     (Err e, Some record_refusal) \<Rightarrow>
       (case refusal_reason_of e of
          Some reason \<Rightarrow> awaited (record_refusal (batch_refusal k actions reason)) (\<lambda>answer. case answer of
              Err m \<Rightarrow> ready (Err (ExecStore m))
            | Ok _ \<Rightarrow> ready decided)
        | None \<Rightarrow> ready decided)
   | _ \<Rightarrow> ready decided)"

section \<open>The executor\<close>

record 's executor =
  ex_registry :: registry
  ex_ports :: "'s ports"
  ex_refusals :: "'s refusal_recorder option"

definition executor_new :: "registry \<Rightarrow> 's ports \<Rightarrow> 's executor" where
  "executor_new R P = \<lparr>ex_registry = R, ex_ports = P, ex_refusals = None\<rparr>"

definition recording_refusals :: "registry \<Rightarrow> 's ports \<Rightarrow> 's refusal_recorder \<Rightarrow> 's executor" where
  "recording_refusals R P recorder = \<lparr>ex_registry = R, ex_ports = P, ex_refusals = Some recorder\<rparr>"

definition batch_bound :: "codec \<Rightarrow> 's executor \<Rightarrow> batch_key \<Rightarrow> bound_action list \<Rightarrow> ('s, execution_error, append_outcome) task" where
  "batch_bound C X k actions =
     (if actions = [] then ready (Ok AppendEmpty)
      else (case validate_batch k actions of
          Err e \<Rightarrow> ready (Err e)
        | Ok _ \<Rightarrow> tbind (recover_existing C (ex_ports X) k actions) (\<lambda>found. case found of
            Some outcome \<Rightarrow> ready (Ok outcome)
          | None \<Rightarrow> awaited (decide_and_append C (ex_registry X) (ex_ports X) k actions) (record_refused (ex_refusals X) k actions))))"

definition exec_batch :: "codec \<Rightarrow> 's executor \<Rightarrow> batch_key \<Rightarrow> batch_action list \<Rightarrow> ('s, execution_error, append_outcome) task" where
  "exec_batch C X k actions = batch_bound C X k (map bound actions)"

definition exec_batch_versioned :: "codec \<Rightarrow> 's executor \<Rightarrow> batch_key \<Rightarrow> versioned_action list
    \<Rightarrow> ('s, execution_error, append_outcome) task" where
  "exec_batch_versioned C X k actions = batch_bound C X k (map bound_version actions)"

definition exec_create :: "codec \<Rightarrow> 's executor \<Rightarrow> create_request \<Rightarrow> ('s, execution_error, append_outcome) task" where
  "exec_create C X q = exec_batch C X (SingleRecord (rg_record_id (xc_recording q))) [ActCreate q]"

definition exec_execute :: "codec \<Rightarrow> 's executor \<Rightarrow> execute_request \<Rightarrow> ('s, execution_error, append_outcome) task" where
  "exec_execute C X q = exec_batch C X (SingleRecord (rg_record_id (xe_recording q))) [ActExecute q]"

definition exec_execute_versioned :: "codec \<Rightarrow> 's executor \<Rightarrow> execute_request \<Rightarrow> 32 word
    \<Rightarrow> ('s, execution_error, append_outcome) task" where
  "exec_execute_versioned C X q version =
     exec_batch_versioned C X (SingleRecord (rg_record_id (xe_recording q))) [VersionedExecute version q]"

definition exec_observe :: "codec \<Rightarrow> 's executor \<Rightarrow> recorded_observation \<Rightarrow> ('s, execution_error, append_outcome) task" where
  "exec_observe C X b = exec_batch C X (SingleRecord (env_record_id (ro_envelope b))) [ActObserve b]"

end
