(* ===== verification/RecordedStore.thy ===== *)
theory RecordedStore
  imports Verify
begin

text \<open>
  \<open>MemoryRecordedStore\<close> of \<open>asynchronous/memory.rs\<close>, the reference implementation of the recorded ports: reads, the
  atomic append with its retries, the scripted loss of a response, and the seed of an imported boundary. A
  port takes the state and gives the next one with its answer; an append whose future stays pending answers
  nothing, the state it leaves being the one every later call finds. The lock is held for one step and never
  poisoned. A member index is a \<open>usize\<close>, whose conversion to 64 bits never fails.
\<close>

datatype append_script = CommitThenUncertain | CommitThenPending

record recorded_memory =
  me_instances :: "(subject, entity_instance) btree"
  me_histories :: "(subject, subject_history) btree"
  me_records :: "record_lookup smap"
  me_batches :: "(batch_key, stored_batch) btree"
  me_next_position :: "64 word option"
  me_next_script :: "append_script option"
  me_trace :: "string list"

definition recorded_new :: recorded_memory where
  "recorded_new = \<lparr>me_instances = [], me_histories = [], me_records = [], me_batches = [], me_next_position = Some 0,
     me_next_script = None, me_trace = []\<rparr>"

definition trace_call :: "string \<Rightarrow> recorded_memory \<Rightarrow> recorded_memory" where
  "trace_call operation m = m\<lparr>me_trace := me_trace m @ [operation]\<rparr>"

definition clear_trace :: "recorded_memory \<Rightarrow> recorded_memory" where
  "clear_trace m = m\<lparr>me_trace := []\<rparr>"

definition script_next_append :: "append_script \<Rightarrow> recorded_memory \<Rightarrow> recorded_memory" where
  "script_next_append script m = m\<lparr>me_next_script := Some script\<rparr>"

definition set_next_position :: "64 word \<Rightarrow> recorded_memory \<Rightarrow> recorded_memory" where
  "set_next_position p m = m\<lparr>me_next_position := Some p\<rparr>"

section \<open>Reads\<close>

definition recorded_load :: "serde \<Rightarrow> subject \<Rightarrow> recorded_memory \<Rightarrow> recorded_memory \<times> entity_instance option async_result" where
  "recorded_load S s m = (trace_call (''load:'' @ subject_coordinate_id S s) m, Ok (bt_get (me_instances m) s))"

definition lookup_record :: "string \<Rightarrow> recorded_memory \<Rightarrow> recorded_memory \<times> record_lookup option async_result" where
  "lookup_record record_id m = (trace_call (''lookup_record:'' @ record_id) m, Ok (bt_get (me_records m) record_id))"

definition lookup_batch :: "batch_key \<Rightarrow> recorded_memory \<Rightarrow> recorded_memory \<times> stored_batch option async_result" where
  "lookup_batch k m = (trace_call ''lookup_batch'' m, Ok (bt_get (me_batches m) k))"

definition history_new :: "subject \<Rightarrow> subject_history" where
  "history_new s = \<lparr>sh_subject = s, sh_origin = Genesis, sh_records = []\<rparr>"

definition history_at :: "(subject, subject_history) btree \<Rightarrow> subject \<Rightarrow> subject_history" where
  "history_at histories s = (case bt_get histories s of Some h \<Rightarrow> h | None \<Rightarrow> history_new s)"

definition recorded_history :: "serde \<Rightarrow> subject \<Rightarrow> recorded_memory \<Rightarrow> recorded_memory \<times> subject_history async_result" where
  "recorded_history S s m = (trace_call (''history:'' @ subject_coordinate_id S s) m, Ok (history_at (me_histories m) s))"

definition snapshot_of :: "recorded_memory \<Rightarrow> subject \<times> subject_history \<Rightarrow> subject_snapshot async_result" where
  "snapshot_of m = (\<lambda>(s, h).
     rbind (ok_or (bt_get (me_instances m) s) (corrupt s ''complete snapshot has history without terminal state'')) (\<lambda>terminal.
     Ok \<lparr>ss_history = h, ss_terminal = terminal\<rparr>))"

definition complete_snapshot :: "string \<Rightarrow> recorded_memory \<Rightarrow> recorded_memory \<times> complete_store_snapshot async_result" where
  "complete_snapshot scope m = (trace_call ''complete_snapshot'' m,
     rbind (rmap (snapshot_of m) (me_histories m)) (\<lambda>histories.
     Ok \<lparr>cs_scope = scope, cs_coverage = CompleteSnapshot, cs_histories = histories\<rparr>))"

section \<open>An imported boundary\<close>

definition seed_evidence :: "legacy_evidence \<Rightarrow> record_lookup smap \<Rightarrow> record_lookup smap async_result" where
  "seed_evidence evidence records = (case evidence of
     LegacyEnvelope v \<Rightarrow>
       rbind (entry_validate (ie_entry v)) (\<lambda>_.
       let record_id = entry_record_id (ie_entry v) in
       if bt_contains records record_id then Err (AsyncRecordConflict record_id)
       else Ok (bt_insert record_id (LookupImported v) records))
   | _ \<Rightarrow> Ok records)"

definition seed_imported :: "subject_history \<Rightarrow> recorded_memory \<Rightarrow> recorded_memory async_result" where
  "seed_imported h m = (case sh_origin h of
     Genesis \<Rightarrow> Err (invalid_input ''seed_imported requires an explicit imported origin'')
   | ImportedFrom anchor \<Rightarrow>
       (let s = sh_subject h; i = la_instance anchor in
        rbind (ensure (sh_records h = []) (invalid_input ''seed_imported accepts a boundary before executor suffix records'')) (\<lambda>_.
        rbind (validate_subject s) (\<lambda>_.
        rbind (validate_imported_boundary s (sh_origin h)) (\<lambda>_.
        rbind (ensure (\<not> (in_entity i \<noteq> su_entity s \<or> in_id i \<noteq> su_id s)) (corrupt s ''anchor instance belongs to another subject'')) (\<lambda>_.
        rbind (ensure (\<not> (in_revision i = 0 \<or> in_revision i > max_revision))
          (corrupt s ''anchor revision is outside the supported domain'')) (\<lambda>_.
        rbind (ensure (\<not> bt_contains (me_histories m) s)
          (invalid_input ''a subject may have only one genesis or imported boundary'')) (\<lambda>_.
        rbind (rfold seed_evidence (la_evidence anchor) (me_records m)) (\<lambda>records.
        Ok (m\<lparr>me_records := records, me_instances := bt_insert s i (me_instances m), me_histories := bt_insert s h (me_histories m)\<rparr>))))))))))"

section \<open>An append\<close>

definition imported_assurance :: "recorded_memory \<Rightarrow> imported_evidence \<Rightarrow> subject_assurance async_result" where
  "imported_assurance m evidence =
     (let s = entry_subject (ie_entry evidence) in
      rbind (ok_or (bt_get (me_histories m) s) (corrupt s ''imported global record has no subject boundary'')) (\<lambda>h.
      verify_imported_record h evidence))"

text \<open>What an append of a known batch key answers.\<close>

definition same_batch :: "stored_batch \<Rightarrow> string \<Rightarrow> append_member list \<Rightarrow> bool" where
  "same_batch existing compared members \<longleftrightarrow> sb_comparison_bytes existing = compared
     \<and> length (sb_records existing) = length members
     \<and> list_all (\<lambda>(stored, requested). sr_request_bytes stored = am_request_bytes requested) (zip (sb_records existing) members)"

text \<open>The prior occurrence of one member's record: none, the same record, or a conflict.\<close>

definition same_record :: "codec \<Rightarrow> record_lookup \<Rightarrow> append_member \<Rightarrow> bool async_result" where
  "same_record C existing member = (case existing of
     LookupCommitted stored \<Rightarrow>
       rbind (record_comparison_bytes C (am_entry member)) (\<lambda>bytes.
       Ok (sr_record_bytes stored = bytes \<and> sr_request_bytes stored = am_request_bytes member))
   | LookupImported evidence \<Rightarrow>
       rbind (record_comparison_bytes C (ie_entry evidence)) (\<lambda>held.
       rbind (record_comparison_bytes C (am_entry member)) (\<lambda>bytes.
       Ok (held = bytes))))"

definition prior_entry :: "codec \<Rightarrow> record_lookup smap \<Rightarrow> nat \<times> append_member \<Rightarrow> (64 word \<times> record_lookup) list async_result" where
  "prior_entry C records = (\<lambda>(index, member).
     case bt_get records (entry_record_id (am_entry member)) of
       None \<Rightarrow> Ok []
     | Some existing \<Rightarrow>
         rbind (same_record C existing member) (\<lambda>same.
         if same then Ok [(of_nat index, existing)] else Err (AsyncRecordConflict (entry_record_id (am_entry member)))))"

definition prior_entries :: "codec \<Rightarrow> record_lookup smap \<Rightarrow> append_member list \<Rightarrow> (64 word \<times> record_lookup) list async_result" where
  "prior_entries C records members = rbind (rmap (prior_entry C records) (enumerate 0 members)) (\<lambda>found. Ok (concat found))"

definition recorded_before :: "recorded_memory \<Rightarrow> record_lookup \<Rightarrow> append_outcome async_result" where
  "recorded_before m existing = (case existing of
     LookupCommitted stored \<Rightarrow> Ok (AppendCommitted (SingleReceipt (sr_receipt stored)) True)
   | LookupImported evidence \<Rightarrow> rbind (imported_assurance m evidence) (\<lambda>assurance. Ok (AppendHistorical evidence assurance)))"

definition checked_next :: "64 word \<Rightarrow> 64 word option" where
  "checked_next n = (if n = - 1 then None else Some (n + 1))"

text \<open>The clone of the state a batch is staged on: its histories and next position, the states its members reach, the records stored.\<close>

record staged =
  sg_histories :: "(subject, subject_history) btree"
  sg_next_position :: "64 word option"
  sg_overlay :: "(subject, entity_instance) btree"
  sg_stored :: "stored_record list"

definition staged_state :: "recorded_memory \<Rightarrow> staged \<Rightarrow> subject \<Rightarrow> entity_instance option" where
  "staged_state m g s = (case bt_get (sg_overlay g) s of Some i \<Rightarrow> Some i | None \<Rightarrow> bt_get (me_instances m) s)"

definition subject_position :: "codec \<Rightarrow> subject \<Rightarrow> subject_history option \<Rightarrow> 64 word async_result" where
  "subject_position C s h = (case h of
     Some h \<Rightarrow> if sh_records h = [] then Ok 0
       else ok_or (checked_next (rp_subject (sr_position (last (sh_records h)))))
         (PositionExhausted (''subject '' @ subject_coordinate_id (cx_serde C) s))
   | None \<Rightarrow> Ok 0)"

definition stored_member :: "batch_key \<Rightarrow> nat \<Rightarrow> append_member \<Rightarrow> record_position \<Rightarrow> string \<Rightarrow> stored_record" where
  "stored_member k index member p bytes =
     (let e = am_entry member in
      \<lparr>sr_entry = e, sr_position = p,
       sr_receipt = \<lparr>rr_record_id = entry_record_id e, rr_subject = entry_subject e, rr_kind = entry_kind e,
         rr_revision = entry_revision e, rr_position = p, rr_batch_key = k, rr_member_index = of_nat index\<rparr>,
       sr_expect = am_expect member, sr_request_bytes = am_request_bytes member, sr_lineage = None, sr_record_bytes = bytes\<rparr>)"

definition stage_member :: "codec \<Rightarrow> recorded_memory \<Rightarrow> batch_key \<Rightarrow> nat \<times> append_member \<Rightarrow> staged \<Rightarrow> staged async_result" where
  "stage_member C m k = (\<lambda>(index, member) g.
     let e = am_entry member; s = entry_subject e in
     rbind (validate_entry_against_state C e (am_expect member) (staged_state m g s)) (\<lambda>resulting.
     rbind (ok_or resulting (AsyncBackend (plain ''validated record produced no materialized state''))) (\<lambda>resulting.
     rbind (subject_position C s (bt_get (sg_histories g) s)) (\<lambda>at_subject.
     rbind (ok_or (sg_next_position g) (PositionExhausted ''store'')) (\<lambda>at_store.
     rbind (record_comparison_bytes C e) (\<lambda>bytes.
     let h = history_at (sg_histories g) s;
         r = stored_member k index member \<lparr>rp_subject = at_subject, rp_store = at_store\<rparr> bytes in
     Ok (g\<lparr>sg_histories := bt_insert s (h\<lparr>sh_records := sh_records h @ [r]\<rparr>) (sg_histories g),
       sg_next_position := checked_next at_store, sg_overlay := bt_insert s resulting (sg_overlay g),
       sg_stored := sg_stored g @ [r]\<rparr>)))))))"

definition stage :: "codec \<Rightarrow> recorded_memory \<Rightarrow> batch_key \<Rightarrow> append_member list \<Rightarrow> staged async_result" where
  "stage C m k members = rfold (stage_member C m k) (enumerate 0 members)
     \<lparr>sg_histories = me_histories m, sg_next_position = me_next_position m, sg_overlay = [], sg_stored = []\<rparr>"

definition receipt_of :: "batch_key \<Rightarrow> stored_record list \<Rightarrow> commit_receipt async_result" where
  "receipt_of k stored = (case k of
     SingleRecord _ \<Rightarrow> (case stored of r # _ \<Rightarrow> Ok (SingleReceipt (sr_receipt r)) | [] \<Rightarrow> Err (AsyncPanicked ''stored[0]''))
   | Named _ \<Rightarrow> Ok (BatchOf \<lparr>bc_key = k, bc_members = map sr_receipt stored\<rparr>))"

text \<open>The swap at the end of a transaction: everything it staged becomes the state at once.\<close>

definition committed :: "staged \<Rightarrow> stored_batch \<Rightarrow> recorded_memory \<Rightarrow> recorded_memory" where
  "committed g b m = m\<lparr>me_histories := sg_histories g, me_next_position := sg_next_position g,
     me_records := fold (\<lambda>r. bt_insert (entry_record_id (sr_entry r)) (LookupCommitted r)) (sg_stored g) (me_records m),
     me_instances := fold (\<lambda>(s, i). bt_insert s i) (sg_overlay g) (me_instances m),
     me_batches := bt_insert (sb_key b) b (me_batches m)\<rparr>"

definition commit_staged :: "codec \<Rightarrow> batch_key \<Rightarrow> append_member list \<Rightarrow> string \<Rightarrow> recorded_memory
    \<Rightarrow> (recorded_memory \<times> append_outcome) async_result" where
  "commit_staged C k members compared m =
     rbind (stage C m k members) (\<lambda>g.
     rbind (receipt_of k (sg_stored g)) (\<lambda>receipt.
     Ok (committed g \<lparr>sb_key = k, sb_records = sg_stored g, sb_comparison_bytes = compared, sb_receipt = receipt\<rparr> m,
       AppendCommitted receipt False)))"

definition transact :: "codec \<Rightarrow> batch_key \<Rightarrow> append_member list \<Rightarrow> recorded_memory \<Rightarrow> (recorded_memory \<times> append_outcome) async_result" where
  "transact C k members m =
     rbind (batch_comparison_bytes C k members) (\<lambda>compared.
     case bt_get (me_batches m) k of
       Some existing \<Rightarrow>
         if same_batch existing compared members then Ok (m, AppendCommitted (sb_receipt existing) True)
         else Err (BatchConflict k)
     | None \<Rightarrow>
         rbind (prior_entries C (me_records m) members) (\<lambda>prior.
         case (k, prior) of
           (_, []) \<Rightarrow> commit_staged C k members compared m
         | (SingleRecord _, (_, existing) # _) \<Rightarrow> rbind (recorded_before m existing) (\<lambda>outcome. Ok (m, outcome))
         | (Named _, _) \<Rightarrow> Err (PreviouslyRecordedBatchEntries (map fst prior))))"

definition append_transaction :: "codec \<Rightarrow> append_request \<Rightarrow> recorded_memory \<Rightarrow> recorded_memory \<times> (write_failure, append_outcome) result" where
  "append_transaction C q m = (case aq_key q of
     None \<Rightarrow> (m, Err (NotCommitted (AsyncPanicked ''the public writer validated a nonempty request key'')))
   | Some k \<Rightarrow>
       (let m = trace_call ''append'' m in
        case transact C k (aq_members q) m of
          Ok (m', outcome) \<Rightarrow> (m', Ok outcome)
        | Err e \<Rightarrow> (m, Err (NotCommitted e))))"

definition consume_script :: "recorded_memory \<Rightarrow> recorded_memory \<times> append_script option" where
  "consume_script m = (m\<lparr>me_next_script := None\<rparr>, me_next_script m)"

definition scripted :: "append_script option \<Rightarrow> batch_key option \<Rightarrow> append_outcome \<Rightarrow> (write_failure, append_outcome) result option" where
  "scripted script k outcome = (case script of
     Some CommitThenUncertain \<Rightarrow> Some (Err (case k of
         Some key \<Rightarrow> Uncertain key (plain ''scripted response loss after atomic commit'')
       | None \<Rightarrow> NotCommitted (AsyncPanicked ''nonempty request has a key'')))
   | Some CommitThenPending \<Rightarrow> None
   | None \<Rightarrow> Some (Ok outcome))"

definition recorded_append :: "codec \<Rightarrow> append_request \<Rightarrow> recorded_memory
    \<Rightarrow> recorded_memory \<times> (write_failure, append_outcome) result option" where
  "recorded_append C q m = (case request_validate C q of
     Err e \<Rightarrow> (m, Some (Err (NotCommitted e)))
   | Ok _ \<Rightarrow>
       if aq_members q = [] then (m, Some (Ok AppendEmpty))
       else (case consume_script m of (m, script) \<Rightarrow>
         (case append_transaction C q m of
            (m, Err failure) \<Rightarrow> (m, Some (Err failure))
          | (m, Ok outcome) \<Rightarrow> (m, scripted script (aq_key q) outcome))))"

section \<open>Altering what is stored\<close>

text \<open>
  The helpers the conformance tests alter a stored record with, wherever it is held: in the global index, in its
  history and in its batch, each time with the comparison bytes made to agree, so that only the verifier's other checks see it.
\<close>

definition refresh_record_bytes :: "codec \<Rightarrow> stored_record \<Rightarrow> stored_record" where
  "refresh_record_bytes C r = (case record_comparison_bytes C (sr_entry r) of Ok bytes \<Rightarrow> r\<lparr>sr_record_bytes := bytes\<rparr> | Err _ \<Rightarrow> r)"

fun tamper_first :: "codec \<Rightarrow> string \<Rightarrow> (stored_record \<Rightarrow> stored_record) \<Rightarrow> stored_record list \<Rightarrow> stored_record list" where
  "tamper_first C record_id mutate [] = []"
| "tamper_first C record_id mutate (r # rs) =
     (if entry_record_id (sr_entry r) = record_id then refresh_record_bytes C (mutate r) # rs
      else r # tamper_first C record_id mutate rs)"

definition stored_members :: "stored_record list \<Rightarrow> append_member list" where
  "stored_members records = map (\<lambda>r. member_new (sr_expect r) (sr_entry r) (sr_request_bytes r)) records"

definition tamper_batch :: "codec \<Rightarrow> string \<Rightarrow> (stored_record \<Rightarrow> stored_record) \<Rightarrow> stored_batch \<Rightarrow> stored_batch" where
  "tamper_batch C record_id mutate b =
     (let b = b\<lparr>sb_records := tamper_first C record_id mutate (sb_records b)\<rparr> in
      case batch_comparison_bytes C (sb_key b) (stored_members (sb_records b)) of
        Ok bytes \<Rightarrow> b\<lparr>sb_comparison_bytes := bytes\<rparr>
      | Err _ \<Rightarrow> b)"

definition tamper_committed :: "codec \<Rightarrow> string \<Rightarrow> (stored_record \<Rightarrow> stored_record) \<Rightarrow> recorded_memory \<Rightarrow> recorded_memory" where
  "tamper_committed C record_id mutate m = m\<lparr>
     me_records := (case bt_get (me_records m) record_id of
         Some (LookupCommitted r) \<Rightarrow> bt_insert record_id (LookupCommitted (refresh_record_bytes C (mutate r))) (me_records m)
       | _ \<Rightarrow> me_records m),
     me_histories := map (map_prod id (\<lambda>h. h\<lparr>sh_records := tamper_first C record_id mutate (sh_records h)\<rparr>)) (me_histories m),
     me_batches := map (map_prod id (tamper_batch C record_id mutate)) (me_batches m)\<rparr>"

definition on_record :: "(decision_record \<Rightarrow> decision_record) \<Rightarrow> recorded_entry \<Rightarrow> recorded_entry" where
  "on_record f e = (case e of
     EntryDecision c \<Rightarrow> EntryDecision (c\<lparr>rm_envelope := (rm_envelope c)\<lparr>env_record := f (env_record (rm_envelope c))\<rparr>\<rparr>)
   | EntryObservation b \<Rightarrow> e)"

definition tampered_result :: "decision_record \<Rightarrow> decision_record" where
  "tampered_result r = r\<lparr>dr_result := (dr_result r)\<lparr>in_state := in_state (dr_result r) @ ''-tampered''\<rparr>\<rparr>"

definition tampered_event :: "decision_record \<Rightarrow> decision_record" where
  "tampered_event r = (case dr_events r of
     e # es \<Rightarrow> r\<lparr>dr_events := e\<lparr>ev_type := ev_type e @ ''Tampered''\<rparr> # es\<rparr>
   | [] \<Rightarrow> r\<lparr>dr_changed := bt_insert ''tampered'' (JBool True) (dr_changed r)\<rparr>)"

definition tamper_decision_result :: "codec \<Rightarrow> string \<Rightarrow> recorded_memory \<Rightarrow> recorded_memory" where
  "tamper_decision_result C record_id = tamper_committed C record_id (\<lambda>r. r\<lparr>sr_entry := on_record tampered_result (sr_entry r)\<rparr>)"

definition tamper_record_event :: "codec \<Rightarrow> string \<Rightarrow> recorded_memory \<Rightarrow> recorded_memory" where
  "tamper_record_event C record_id = tamper_committed C record_id (\<lambda>r. r\<lparr>sr_entry := on_record tampered_event (sr_entry r)\<rparr>)"

definition tamper_receipt_subject :: "codec \<Rightarrow> string \<Rightarrow> string \<Rightarrow> recorded_memory \<Rightarrow> recorded_memory" where
  "tamper_receipt_subject C record_id i = tamper_committed C record_id (\<lambda>r. r\<lparr>sr_receipt := (sr_receipt r)\<lparr>rr_subject :=
     Subject (su_entity (rr_subject (sr_receipt r))) i\<rparr>\<rparr>)"

definition without_definition :: "imported_evidence \<Rightarrow> imported_evidence" where
  "without_definition v = v\<lparr>ie_entry := on_record (\<lambda>r. r\<lparr>dr_definition := None\<rparr>) (ie_entry v)\<rparr>"

definition forget_in_anchor :: "string \<Rightarrow> legacy_anchor \<Rightarrow> legacy_anchor" where
  "forget_in_anchor record_id anchor = anchor\<lparr>la_evidence := map (\<lambda>evidence. case evidence of
       LegacyEnvelope v \<Rightarrow> if entry_record_id (ie_entry v) = record_id then LegacyEnvelope (without_definition v) else evidence
     | _ \<Rightarrow> evidence) (la_evidence anchor)\<rparr>"

definition remove_imported_definition :: "string \<Rightarrow> recorded_memory \<Rightarrow> recorded_memory" where
  "remove_imported_definition record_id m = m\<lparr>
     me_records := (case bt_get (me_records m) record_id of
         Some (LookupImported v) \<Rightarrow> bt_insert record_id (LookupImported (without_definition v)) (me_records m)
       | _ \<Rightarrow> me_records m),
     me_histories := map (map_prod id (\<lambda>h. case sh_origin h of
         ImportedFrom anchor \<Rightarrow> h\<lparr>sh_origin := ImportedFrom (forget_in_anchor record_id anchor)\<rparr>
       | Genesis \<Rightarrow> h)) (me_histories m)\<rparr>"

end
