(* ===== verification/Verified.thy ===== *)
theory Verified
  imports RecordedStore
begin

text \<open>
  What a verification of a linear history gives: resuming it after a verified prefix is verifying it whole, every
  prefix of a verified history verifies, and the decisions a verified history holds replay to its terminal state.
\<close>

section \<open>The walk over a linear history\<close>

definition record_id :: "stored_record \<Rightarrow> string" where
  "record_id r = entry_record_id (sr_entry r)"

lemma rfold_append: "rfold f (xs @ ys) s = rbind (rfold f xs s) (rfold f ys)"
  by (induction xs arbitrary: s) (auto simp: rbind_def split: sum.split)

lemma rfold_snoc: "rfold f (xs @ [x]) s = rbind (rfold f xs s) (f x)"
  by (auto simp: rfold_append rbind_def split: sum.split)

lemma verify_record_Ok:
  "verify_record C s bytes_held r (current, previous, ids) = Ok after \<longleftrightarrow>
     validate_stored_coordinates C s r previous bytes_held = Ok () \<and> record_id r \<notin> set ids
     \<and> (\<exists>next. validate_entry_against_state C (sr_entry r) (sr_expect r) current = Ok next
         \<and> after = (next, Some (sr_position r), record_id r # ids))"
proof -
  have "follows s m x = Ok y \<longleftrightarrow> x = Ok y" for m and x :: "entity_instance option async_result" and y
    by (auto simp: follows_def split: sum.splits async_store_error.splits)
  then show ?thesis by (auto simp: verify_record_def record_id_def res_simps)
qed

definition last_position :: "stored_record list \<Rightarrow> record_position option" where
  "last_position rs = (if rs = [] then None else Some (sr_position (last rs)))"

lemma walk_state:
  assumes "rfold (verify_record C s bytes_held) rs (current, None, []) = Ok (after, previous, ids)"
  shows "previous = last_position rs \<and> ids = rev (map record_id rs)"
  using assms
proof (induction rs arbitrary: after previous ids rule: rev_induct)
  case (snoc r rs)
  then obtain middle where "rfold (verify_record C s bytes_held) rs (current, None, []) = Ok middle"
    and "verify_record C s bytes_held r middle = Ok (after, previous, ids)"
    by (auto simp: rfold_snoc res_simps)
  then show ?case using snoc.IH by (cases middle) (auto simp: verify_record_Ok last_position_def)
qed (simp add: last_position_def)

text \<open>A history verifies up to a state: its boundary is sound, its records follow one another from there.\<close>

definition verifies :: "codec \<Rightarrow> subject_history \<Rightarrow> entity_instance option \<Rightarrow> bool" where
  "verifies C h state \<longleftrightarrow> validate_subject (sh_subject h) = Ok () \<and> validate_imported_boundary (sh_subject h) (sh_origin h) = Ok ()
     \<and> rfold (verify_record C (sh_subject h) False) (sh_records h) (origin_state (sh_origin h), None, [])
       = Ok (state, last_position (sh_records h), rev (map record_id (sh_records h)))"

lemma reaches_Ok: "reaches h current terminal = Ok a \<longleftrightarrow> current = Some terminal \<and> a = assured h"
  by (auto simp: reaches_def res_simps)

lemma verify_linear_Ok:
  assumes "\<not> branched h"
  shows "verify_subject_history C h terminal = Ok a \<longleftrightarrow> verifies C h (Some terminal) \<and> a = assured h"
proof -
  let ?walk = "rfold (verify_record C (sh_subject h) False) (sh_records h) (origin_state (sh_origin h), None, [])"
  have whole: "verify_subject_history C h terminal =
      rbind (validate_subject (sh_subject h)) (\<lambda>_. rbind (validate_imported_boundary (sh_subject h) (sh_origin h)) (\<lambda>_.
      rbind ?walk (\<lambda>(current, _, _). reaches h current terminal)))"
    using assms by (simp add: verify_subject_history_def verify_records_from_def Let_def)
  show ?thesis
  proof (cases ?walk)
    case (Inr reached)
    obtain after previous ids where reached: "reached = (after, previous, ids)" by (cases reached)
    show ?thesis
      using walk_state [OF Inr [unfolded reached]] unfolding whole Inr reached verifies_def
      by (auto simp: reaches_Ok res_simps)
  qed (simp add: whole verifies_def res_simps)
qed

lemma verifies_unique: "verifies C h state \<Longrightarrow> verifies C h other \<Longrightarrow> state = other"
  by (simp add: verifies_def)

lemma branched_prefix: "\<not> branched h \<Longrightarrow> \<not> branched (h\<lparr>sh_records := take n (sh_records h)\<rparr>)"
  by (auto simp: branched_def list_ex_iff dest: in_set_takeD)

section \<open>Extension of a verified prefix\<close>

lemma extension_resumes:
  assumes "verify_subject_history C (h\<lparr>sh_records := take n (sh_records h)\<rparr>) state = Ok a"
  shows "verify_subject_history_extension C h n state terminal = verify_subject_history C h terminal"
proof (cases "n = 0 \<or> n > length (sh_records h) \<or> branched h")
  case False
  then have linear: "\<not> branched h" and n: "0 < n" "n \<le> length (sh_records h)" by auto
  let ?before = "take n (sh_records h)" and ?s = "sh_subject h"
  have nonempty: "?before \<noteq> []" using n by (cases "sh_records h") auto
  have "verifies C (h\<lparr>sh_records := ?before\<rparr>) (Some state)"
    using assms verify_linear_Ok [OF branched_prefix [OF linear]] by blast
  then have walk: "rfold (verify_record C ?s False) ?before (origin_state (sh_origin h), None, [])
      = Ok (Some state, Some (sr_position (last ?before)), rev (map record_id ?before))"
    and "validate_subject ?s = Ok ()" "validate_imported_boundary ?s (sh_origin h) = Ok ()"
    using nonempty by (simp_all add: verifies_def last_position_def)
  have "rfold (verify_record C ?s False) (sh_records h) (origin_state (sh_origin h), None, [])
      = rfold (verify_record C ?s False) (drop n (sh_records h))
          (Some state, Some (sr_position (last ?before)), rev (map record_id ?before))"
    using rfold_append [of "verify_record C ?s False" ?before "drop n (sh_records h)"] by (simp add: walk)
  then show ?thesis
    using linear n nonempty
    by (simp add: verify_subject_history_extension_def verify_subject_history_def verify_records_from_def Let_def record_id_def [abs_def])
qed (auto simp: verify_subject_history_extension_def)

text \<open>Skipping the comparison of the bytes, when the caller holds them, accepts whatever the full check accepts.\<close>

lemma coordinates_held: "validate_stored_coordinates C s r previous False = Ok () \<Longrightarrow> validate_stored_coordinates C s r previous True = Ok ()"
  by (auto simp: validate_stored_coordinates_def res_simps)

section \<open>A verified prefix\<close>

lemma verifies_snoc:
  "verifies C (h\<lparr>sh_records := rs @ [r]\<rparr>) after \<longleftrightarrow> (\<exists>state. verifies C (h\<lparr>sh_records := rs\<rparr>) state
     \<and> validate_stored_coordinates C (sh_subject h) r (last_position rs) False = Ok () \<and> record_id r \<notin> set (map record_id rs)
     \<and> validate_entry_against_state C (sr_entry r) (sr_expect r) state = Ok after)"
proof -
  let ?walk = "\<lambda>rs. rfold (verify_record C (sh_subject h) False) rs (origin_state (sh_origin h), None, [])"
  have "?walk (rs @ [r]) = Ok (after, last_position (rs @ [r]), rev (map record_id (rs @ [r]))) \<longleftrightarrow>
     (\<exists>state. ?walk rs = Ok (state, last_position rs, rev (map record_id rs))
       \<and> verify_record C (sh_subject h) False r (state, last_position rs, rev (map record_id rs))
           = Ok (after, last_position (rs @ [r]), rev (map record_id (rs @ [r]))))" (is "?l = ?r")
  proof
    assume ?l
    then obtain middle where middle: "?walk rs = Ok middle"
      "verify_record C (sh_subject h) False r middle = Ok (after, last_position (rs @ [r]), rev (map record_id (rs @ [r])))"
      by (auto simp: rfold_snoc res_simps)
    then obtain state where "middle = (state, last_position rs, rev (map record_id rs))"
      using walk_state by (metis prod.exhaust)
    with middle show ?r by blast
  qed (auto simp: rfold_snoc)
  then show ?thesis
    by (auto simp: verifies_def verify_record_Ok last_position_def)
qed

lemma verifies_take:
  assumes "verifies C h state"
  obtains before where "verifies C (h\<lparr>sh_records := take n (sh_records h)\<rparr>) before"
proof -
  have "\<exists>before. verifies C (h\<lparr>sh_records := take n rs\<rparr>) before" if "verifies C (h\<lparr>sh_records := rs\<rparr>) state" for rs
    using that
  proof (induction rs arbitrary: state rule: rev_induct)
    case (snoc r rs)
    from snoc.prems obtain earlier where "verifies C (h\<lparr>sh_records := rs\<rparr>) earlier" by (auto simp: verifies_snoc)
    with snoc show ?case by (cases "n \<le> length rs") auto
  qed auto
  from this [of "sh_records h"] assms obtain before where "verifies C (h\<lparr>sh_records := take n (sh_records h)\<rparr>) before" by auto
  then show thesis by (rule that)
qed

text \<open>The state a verified walk has reached is what its last decision decided; before any, the origin's.\<close>

lemma admitted_state:
  assumes "validate_entry_against_state C e expected current = Ok next"
  shows "next = (case e of EntryDecision c \<Rightarrow> Some (rm_instance c) | EntryObservation _ \<Rightarrow> current) \<and> next \<noteq> None"
  using assms by (auto simp: validate_entry_against_state_def Let_def res_simps split: recorded_entry.splits option.splits if_splits)

lemma verifies_decided:
  assumes "verifies C (h\<lparr>sh_records := rs\<rparr>) state"
  shows "state = (case List.map_filter decided_instance (rev rs) of i # _ \<Rightarrow> Some i | [] \<Rightarrow> origin_state (sh_origin h))"
  using assms
proof (induction rs arbitrary: state rule: rev_induct)
  case (snoc r rs)
  then obtain earlier where earlier: "verifies C (h\<lparr>sh_records := rs\<rparr>) earlier"
    and admitted: "validate_entry_against_state C (sr_entry r) (sr_expect r) earlier = Ok state" by (auto simp: verifies_snoc)
  from admitted_state [OF admitted] snoc.IH [OF earlier] show ?case
    by (simp add: decided_instance_def map_filter_simps split: recorded_entry.splits)
qed (simp add: verifies_def map_filter_simps)

lemma prefix_through_take:
  assumes "r \<in> set rs" "record_id r = i"
  shows "\<exists>n. prefix_through i rs = Some (take (Suc n) rs) \<and> n < length rs"
  using assms(1)
proof (induction rs)
  case (Cons x rs)
  show ?case
  proof (cases "record_id x = i")
    case True
    then show ?thesis by (auto simp: record_id_def intro: exI [of _ 0])
  next
    case False
    with Cons assms(2) obtain n where "prefix_through i rs = Some (take (Suc n) rs)" "n < length rs" by auto
    with False show ?thesis by (auto simp: record_id_def intro: exI [of _ "Suc n"])
  qed
qed simp

lemma verified_prefix:
  assumes "\<not> branched h" "verifies C h state" "r \<in> set (sh_records h)"
  shows "verify_subject_prefix C h (record_id r) = Ok (assured h)"
proof -
  obtain n where n: "prefix_through (record_id r) (sh_records h) = Some (take (Suc n) (sh_records h))" "n < length (sh_records h)"
    using prefix_through_take [OF assms(3) refl] by blast
  let ?p = "h\<lparr>sh_records := take (Suc n) (sh_records h)\<rparr>"
  obtain before where before: "verifies C ?p before" using verifies_take [OF assms(2)] .
  have "take (Suc n) (sh_records h) = take n (sh_records h) @ [sh_records h ! n]"
    using n(2) by (simp add: take_Suc_conv_app_nth)
  with before have "before \<noteq> None" using admitted_state by (auto simp: verifies_snoc)
  then obtain i where i: "before = Some i" by blast
  have "(case List.map_filter decided_instance (rev (take (Suc n) (sh_records h))) of i # _ \<Rightarrow> Some i
      | [] \<Rightarrow> origin_state (sh_origin h)) = Some i"
    using verifies_decided [OF before] by (simp add: i)
  moreover have "verify_subject_history C ?p i = Ok (assured h)"
    using before verify_linear_Ok [OF branched_prefix [OF assms(1)]] by (simp add: i assured_def split: history_origin.split)
  ultimately show ?thesis
    using n(1) by (simp add: verify_subject_prefix_def Let_def)
qed

section \<open>The decisions of a verified history replay\<close>

definition entry_record :: "recorded_entry \<Rightarrow> decision_record option" where
  "entry_record e = (case e of EntryDecision c \<Rightarrow> Some (env_record (rm_envelope c)) | EntryObservation _ \<Rightarrow> None)"

definition decisions :: "subject_history \<Rightarrow> decision_record list" where
  "decisions h = List.map_filter (\<lambda>r. entry_record (sr_entry r)) (sh_records h)"

lemma recompute_replays:
  assumes "recompute_saved S s d r current = Ok dn"
  shows "replay_decision S index current d r = Ok dn"
  using assms
  by (cases "dr_command r"; cases current)
    (auto simp: recompute_saved_def replay_decision_def raise_def Let_def split: sum.splits)

lemma admitted_replays:
  assumes "validate_entry_against_state C e expected current = Ok next"
  shows "replay_loop (cx_serde C) index current (List.map_filter entry_record [e]) = Ok next"
proof (cases e)
  case (EntryDecision c)
  let ?r = "env_record (rm_envelope c)"
  from assms EntryDecision obtain d dn where "dr_definition ?r = Some d" "validate_definition d = []"
    and recomputed: "recompute_saved (cx_serde C) (entry_subject e) d ?r current = Ok dn"
    and "dn_record dn = ?r" "next = Some (dn_instance dn)"
    by (auto simp: validate_entry_against_state_def Let_def res_simps split: if_splits)
  with EntryDecision recompute_replays [OF recomputed] show ?thesis
    by (simp add: map_filter_simps entry_record_def record_definition_def)
next
  case (EntryObservation b)
  with admitted_state [OF assms] show ?thesis by (simp add: map_filter_simps entry_record_def)
qed

lemma map_filter_append: "List.map_filter f (xs @ ys) = List.map_filter f xs @ List.map_filter f ys"
  by (induction xs) (simp_all add: map_filter_simps split: option.split)

lemma verifies_replays:
  assumes "verifies C (h\<lparr>sh_records := rs\<rparr>) state" "sh_origin h = Genesis"
  shows "replay_loop (cx_serde C) 0 None (decisions (h\<lparr>sh_records := rs\<rparr>)) = Ok state"
  using assms(1)
proof (induction rs arbitrary: state rule: rev_induct)
  case Nil
  then show ?case using assms(2) by (simp add: verifies_def decisions_def map_filter_simps origin_state_def)
next
  case (snoc r rs)
  then obtain earlier where "verifies C (h\<lparr>sh_records := rs\<rparr>) earlier"
    and admitted: "validate_entry_against_state C (sr_entry r) (sr_expect r) earlier = Ok state" by (auto simp: verifies_snoc)
  moreover have "List.map_filter (\<lambda>r. entry_record (sr_entry r)) [r] = List.map_filter entry_record [sr_entry r]"
    by (simp add: map_filter_simps split: option.split)
  ultimately show ?case
    using snoc.IH admitted_replays [OF admitted] by (simp add: decisions_def map_filter_append replay_loop_append)
qed

lemma verified_history_replays:
  assumes "verify_subject_history C h terminal = Ok a" "sh_origin h = Genesis" "\<not> branched h"
  shows "replay (cx_serde C) (decisions h) = Ok terminal"
proof -
  have "verifies C (h\<lparr>sh_records := sh_records h\<rparr>) (Some terminal)"
    using assms verify_linear_Ok by auto
  from verifies_replays [OF this assms(2)] show ?thesis by (simp add: replay_def)
qed

end
