(* ===== verification/Complete.thy ===== *)
theory Complete
  imports Verified "HOL-Library.Multiset"
begin

text \<open>
  What keeps a whole store verifiable (\<open>histories_ok\<close>), stated of its histories, the state each subject has reached and
  the next physical position; and that the complete verification accepts every store that keeps it.
\<close>

section \<open>The claims of a history\<close>

abbreviation store_position :: "stored_record \<Rightarrow> 64 word" where
  "store_position r \<equiv> rp_store (sr_position r)"

abbreviation member_key :: "stored_record \<Rightarrow> batch_key" where
  "member_key r \<equiv> rr_batch_key (sr_receipt r)"

abbreviation member_index :: "stored_record \<Rightarrow> 64 word" where
  "member_index r \<equiv> rr_member_index (sr_receipt r)"

definition coordinate :: "stored_record \<Rightarrow> batch_key \<times> 64 word" where
  "coordinate r = (member_key r, member_index r)"

definition member_order :: "subject \<times> stored_record \<Rightarrow> 64 word \<times> 64 word \<times> subject" where
  "member_order = (\<lambda>(s, r). (member_index r, store_position r, s))"

text \<open>What a walk has claimed so far: identities, and records with the subjects that hold them.\<close>

definition walk_claimed :: "store_walk \<Rightarrow> string set \<Rightarrow> (subject \<times> stored_record) list \<Rightarrow> bool" where
  "walk_claimed w ids recs \<longleftrightarrow> set (sw_record_ids w) = ids \<and> set (sw_positions w) = store_position ` snd ` set recs
     \<and> fst ` set (sw_memberships w) = coordinate ` snd ` set recs \<and> sorted_keys (sw_orders w)
     \<and> (\<forall>k. listed (sw_orders w) k = map member_order (filter (\<lambda>(_, r). member_key r = k) recs))"

abbreviation same_scope :: "store_walk \<Rightarrow> store_walk \<Rightarrow> bool" where
  "same_scope w w' \<equiv> sw_subjects w' = sw_subjects w \<and> sw_assurances w' = sw_assurances w"

lemma members_extend: "listed (bt_extend k xs m) l = (if l = k then listed m k @ xs else listed m l)"
  by (simp add: listed_def bt_extend_def)

lemma sorted_extend: "sorted_keys m \<Longrightarrow> sorted_keys (bt_extend k xs m)"
  by (simp add: bt_extend_def)

lemma claim_record_Ok:
  assumes "walk_claimed w ids recs" "record_id r \<notin> ids" "store_position r \<notin> store_position ` snd ` set recs"
    "coordinate r \<notin> coordinate ` snd ` set recs"
  shows "\<exists>w'. claim_record s r w = Ok w' \<and> walk_claimed w' (insert (record_id r) ids) (recs @ [(s, r)]) \<and> same_scope w w'"
proof -
  have "bt_get (sw_memberships w) (coordinate r) = None"
    using assms(1,4) by (simp add: walk_claimed_def map_of_eq_None_iff)
  with assms show ?thesis
    by (auto simp: claim_record_def claim_record_id_def Let_def record_id_def walk_claimed_def coordinate_def res_simps
      members_extend sorted_extend member_order_def)
qed

lemma claim_records_Ok:
  assumes "walk_claimed w ids recs" "distinct (map record_id rs)" "record_id ` set rs \<inter> ids = {}"
    "distinct (map store_position (map snd recs @ rs))" "distinct (map coordinate (map snd recs @ rs))"
  shows "\<exists>w'. rfold (claim_record s) rs w = Ok w' \<and> walk_claimed w' (record_id ` set rs \<union> ids) (recs @ map (Pair s) rs) \<and> same_scope w w'"
  using assms
proof (induction rs arbitrary: w ids recs)
  case (Cons r rs)
  have "store_position r \<notin> store_position ` snd ` set recs" "coordinate r \<notin> coordinate ` snd ` set recs"
    using Cons.prems(4,5) by auto
  moreover have "record_id r \<notin> ids" using Cons.prems(3) by auto
  ultimately obtain w1 where w1: "claim_record s r w = Ok w1"
    "walk_claimed w1 (insert (record_id r) ids) (recs @ [(s, r)])" "same_scope w w1"
    using claim_record_Ok [OF Cons.prems(1)] by blast
  have "\<exists>w'. rfold (claim_record s) rs w1 = Ok w' \<and> walk_claimed w' (record_id ` set rs \<union> insert (record_id r) ids)
      ((recs @ [(s, r)]) @ map (Pair s) rs) \<and> same_scope w1 w'"
  proof (rule Cons.IH [OF w1(2)])
    show "distinct (map record_id rs)" using Cons.prems(2) by simp
    show "record_id ` set rs \<inter> insert (record_id r) ids = {}" using Cons.prems(2,3) by auto
    show "distinct (map store_position (map snd (recs @ [(s, r)]) @ rs))" using Cons.prems(4) by simp
    show "distinct (map coordinate (map snd (recs @ [(s, r)]) @ rs))" using Cons.prems(5) by simp
  qed
  with w1 show ?case by auto
qed auto

lemma claim_ids_Ok:
  assumes "walk_claimed w ids recs" "distinct is" "set is \<inter> ids = {}"
  shows "\<exists>w'. rfold (claim_record_id s) is w = Ok w' \<and> walk_claimed w' (set is \<union> ids) recs \<and> same_scope w w'"
  using assms
proof (induction "is" arbitrary: w ids)
  case (Cons i "is")
  let ?w = "w\<lparr>sw_record_ids := i # sw_record_ids w\<rparr>"
  have "claim_record_id s i w = Ok ?w" "walk_claimed ?w (insert i ids) recs"
    using Cons.prems by (auto simp: claim_record_id_def walk_claimed_def res_simps)
  moreover have "\<exists>w'. rfold (claim_record_id s) is ?w = Ok w' \<and> walk_claimed w' (set is \<union> insert i ids) recs \<and> same_scope ?w w'"
    using Cons.prems calculation by (intro Cons.IH) auto
  ultimately show ?case by auto
qed auto

section \<open>The histories of a store\<close>

definition history_ids :: "subject_history \<Rightarrow> string list" where
  "history_ids h = anchor_ids (sh_origin h) @ map record_id (sh_records h)"

definition each_held :: "(subject_history \<Rightarrow> 'a list) \<Rightarrow> (subject, subject_history) btree \<Rightarrow> 'a list" where
  "each_held g histories = concat (map (\<lambda>(_, h). g h) histories)"

definition held_by :: "(subject, subject_history) btree \<Rightarrow> (subject \<times> stored_record) list" where
  "held_by histories = concat (map (\<lambda>(s, h). map (Pair s) (sh_records h)) histories)"

lemma held_simps [simp]: "each_held g [] = []" "each_held g ((s, h) # m) = g h @ each_held g m" "held_by [] = []"
  "held_by ((s, h) # m) = map (Pair s) (sh_records h) @ held_by m"
  by (simp_all add: each_held_def held_by_def)

lemma held_by_records: "map snd (held_by m) = each_held sh_records m"
  by (induction m) (auto simp: comp_def)

definition subject_snapshots :: "(subject \<Rightarrow> entity_instance option) \<Rightarrow> (subject, subject_history) btree \<Rightarrow> subject_snapshot list" where
  "subject_snapshots state histories = map (\<lambda>(s, h). \<lparr>ss_history = h, ss_terminal = the (state s)\<rparr>) histories"

definition each_verifies :: "codec \<Rightarrow> (subject, subject_history) btree \<Rightarrow> (subject \<Rightarrow> entity_instance option) \<Rightarrow> bool" where
  "each_verifies C histories state \<longleftrightarrow> (\<forall>(s, h) \<in> set histories. sh_subject h = s \<and> \<not> branched h \<and> state s \<noteq> None \<and> verifies C h (state s))"

lemma claim_histories_Ok:
  assumes "walk_claimed w ids recs" "each_verifies C histories state" "distinct (map fst histories)"
    "set (sw_subjects w) \<inter> fst ` set histories = {}"
    "distinct (each_held history_ids histories)" "set (each_held history_ids histories) \<inter> ids = {}"
    "distinct (map store_position (map snd recs @ each_held sh_records histories))"
    "distinct (map coordinate (map snd recs @ each_held sh_records histories))"
  shows "\<exists>w'. rfold (claim_history C) (subject_snapshots state histories) w = Ok w'
    \<and> walk_claimed w' (set (each_held history_ids histories) \<union> ids) (recs @ held_by histories)
    \<and> sw_assurances w' = sw_assurances w @ map (\<lambda>(_, h). assured h) histories"
  using assms
proof (induction histories arbitrary: w ids recs)
  case (Cons sh histories)
  obtain s h where sh: "sh = (s, h)" by (cases sh)
  have h: "sh_subject h = s" "\<not> branched h" "state s \<noteq> None" "verifies C h (state s)"
    using Cons.prems(2) by (auto simp: each_verifies_def sh)
  then obtain i where i: "state s = Some i" by blast
  have verified: "verify_subject_history C h i = Ok (assured h)"
    using verify_linear_Ok [OF h(2)] h(4) i by simp
  let ?w = "w\<lparr>sw_subjects := s # sw_subjects w, sw_assurances := sw_assurances w @ [assured h]\<rparr>"
  have "walk_claimed ?w ids recs" using Cons.prems(1) by (simp add: walk_claimed_def)
  moreover have "distinct (anchor_ids (sh_origin h))" "set (anchor_ids (sh_origin h)) \<inter> ids = {}"
    using Cons.prems(5,6) by (auto simp: sh history_ids_def)
  ultimately obtain w1 where w1: "rfold (claim_record_id s) (anchor_ids (sh_origin h)) ?w = Ok w1"
    "walk_claimed w1 (set (anchor_ids (sh_origin h)) \<union> ids) recs" "same_scope ?w w1"
    by (rule claim_ids_Ok [THEN exE]) blast
  have "\<exists>w'. rfold (claim_record s) (sh_records h) w1 = Ok w'
      \<and> walk_claimed w' (record_id ` set (sh_records h) \<union> (set (anchor_ids (sh_origin h)) \<union> ids)) (recs @ map (Pair s) (sh_records h))
      \<and> same_scope w1 w'"
    using Cons.prems(5-8) by (intro claim_records_Ok w1(2)) (auto simp: sh history_ids_def)
  then obtain w2 where w2: "rfold (claim_record s) (sh_records h) w1 = Ok w2"
    "walk_claimed w2 (record_id ` set (sh_records h) \<union> (set (anchor_ids (sh_origin h)) \<union> ids)) (recs @ map (Pair s) (sh_records h))"
    "same_scope w1 w2" by blast
  have "s \<notin> set (sw_subjects w)" using Cons.prems(4) by (auto simp: sh)
  with h(1) w1 w2 have step: "claim_history C \<lparr>ss_history = h, ss_terminal = i\<rparr> w = Ok w2"
    by (simp add: claim_history_def verified Let_def ensure_def)
  have ids: "record_id ` set (sh_records h) \<union> (set (anchor_ids (sh_origin h)) \<union> ids) = set (history_ids h) \<union> ids"
    by (auto simp: history_ids_def)
  have "\<exists>w'. rfold (claim_history C) (subject_snapshots state histories) w2 = Ok w'
    \<and> walk_claimed w' (set (each_held history_ids histories) \<union> (set (history_ids h) \<union> ids)) ((recs @ map (Pair s) (sh_records h)) @ held_by histories)
    \<and> sw_assurances w' = sw_assurances w2 @ map (\<lambda>(_, h). assured h) histories" (is "\<exists>w'. ?rest w'")
  proof (rule Cons.IH)
    show "walk_claimed w2 (set (history_ids h) \<union> ids) (recs @ map (Pair s) (sh_records h))" using w2(2) by (simp only: ids)
    show "each_verifies C histories state" using Cons.prems(2) by (simp add: each_verifies_def)
    show "distinct (map fst histories)" using Cons.prems(3) by simp
    show "set (sw_subjects w2) \<inter> fst ` set histories = {}" using Cons.prems(3,4) w1(3) w2(3) by (auto simp: sh)
    show "distinct (each_held history_ids histories)" using Cons.prems(5) by (simp add: sh)
    show "set (each_held history_ids histories) \<inter> (set (history_ids h) \<union> ids) = {}" using Cons.prems(5,6) by (auto simp: sh)
    show "distinct (map store_position (map snd (recs @ map (Pair s) (sh_records h)) @ each_held sh_records histories))"
      using Cons.prems(7) by (simp add: sh comp_def)
    show "distinct (map coordinate (map snd (recs @ map (Pair s) (sh_records h)) @ each_held sh_records histories))"
      using Cons.prems(8) by (simp add: sh comp_def)
  qed
  then obtain w' where w': "?rest w'" by blast
  have "sw_assurances w2 = sw_assurances w @ [assured h]" using w1(3) w2(3) by simp
  moreover have "set (each_held history_ids (sh # histories)) \<union> ids = set (each_held history_ids histories) \<union> (set (history_ids h) \<union> ids)"
    by (auto simp: sh)
  moreover have "rfold (claim_history C) (subject_snapshots state (sh # histories)) w = rfold (claim_history C) (subject_snapshots state histories) w2"
    by (simp add: sh subject_snapshots_def i step)
  moreover have "recs @ held_by (sh # histories) = (recs @ map (Pair s) (sh_records h)) @ held_by histories" by (simp add: sh)
  ultimately show ?case using w' by (intro exI [of _ w']) (simp add: sh)
qed (simp add: subject_snapshots_def)

section \<open>Stores whose histories are complete\<close>

text \<open>Within one batch the members are stored in their order.\<close>

definition ordered_members :: "stored_record list \<Rightarrow> bool" where
  "ordered_members rs \<longleftrightarrow> (\<forall>r \<in> set rs. \<forall>r' \<in> set rs. member_key r = member_key r' \<longrightarrow> member_index r < member_index r'
     \<longrightarrow> store_position r < store_position r')"

text \<open>How many positions are taken: all of them when there is no next one.\<close>

definition positions_taken :: "64 word option \<Rightarrow> nat" where
  "positions_taken p = (case p of Some n \<Rightarrow> unat n | None \<Rightarrow> 2 ^ 64)"

definition histories_ok :: "codec \<Rightarrow> (subject, subject_history) btree \<Rightarrow> (subject \<Rightarrow> entity_instance option) \<Rightarrow> 64 word option \<Rightarrow> bool" where
  "histories_ok C histories state next_position \<longleftrightarrow>
     sorted_keys histories \<and> each_verifies C histories state \<and> (\<forall>s. bt_get histories s = None \<longrightarrow> state s = None)
     \<and> distinct (each_held history_ids histories)
     \<and> distinct (map store_position (each_held sh_records histories)) \<and> distinct (map coordinate (each_held sh_records histories))
     \<and> (\<forall>r \<in> set (each_held sh_records histories). unat (store_position r) < positions_taken next_position)
     \<and> ordered_members (each_held sh_records histories)"

lemma ascending_sorted: "sorted_wrt (\<lambda>m m'. fst (snd m) < fst (snd m')) ms \<Longrightarrow> ascending_members ms = Ok ()"
  by (induction ms rule: ascending_members.induct) auto

lemma distinct_finer:
  assumes "distinct (map f xs)" "\<And>x y. x \<in> set xs \<Longrightarrow> y \<in> set xs \<Longrightarrow> g x = g y \<Longrightarrow> f x = f y"
  shows "distinct (map g xs)"
  using assms
proof (induction xs)
  case (Cons x xs)
  have "g x \<notin> g ` set xs"
  proof
    assume "g x \<in> g ` set xs"
    then obtain y where y: "y \<in> set xs" "g x = g y" by blast
    then have "f x = f y" by (intro Cons.prems(2)) simp_all
    with y(1) Cons.prems(1) show False by simp
  qed
  moreover have "distinct (map g xs)" using Cons by simp
  ultimately show ?case by simp
qed simp

lemma members_ascend:
  assumes "ordered_members (map snd recs)" "distinct (map coordinate (map snd recs))"
  shows "ascending_members (sort_key fst (map member_order (filter (\<lambda>(_, r). member_key r = k) recs))) = Ok ()"
proof (rule ascending_sorted)
  let ?ms = "map member_order (filter (\<lambda>(_, r). member_key r = k) recs)"
  let ?sorted = "sort_key fst ?ms"
  have "distinct (map (\<lambda>(_, r). coordinate r) (filter (\<lambda>(_, r). member_key r = k) recs))"
    using assms(2) by (simp add: comp_def case_prod_unfold distinct_map_filter)
  then have "distinct (map (\<lambda>x. fst (member_order x)) (filter (\<lambda>(_, r). member_key r = k) recs))"
    by (rule distinct_finer) (auto simp: member_order_def coordinate_def)
  then have "distinct (map fst ?ms)" by (simp only: map_map comp_def)
  moreover have "mset (map fst ?sorted) = mset (map fst ?ms)" by (simp only: mset_map mset_sort)
  ultimately have "distinct (map fst ?sorted)" using mset_eq_imp_distinct_iff by blast
  then have "sorted_wrt (<) (map fst ?sorted)" unfolding strict_sorted_iff by (simp del: map_map)
  moreover have "fst (snd m) < fst (snd m')" if "m \<in> set ?ms" "m' \<in> set ?ms" "fst m < fst m'" for m m'
  proof -
    from that(1,2) obtain s r s' r' where "(s, r) \<in> set recs" "m = member_order (s, r)" "(s', r') \<in> set recs" "m' = member_order (s', r')"
      "member_key r = k" "member_key r' = k" by auto
    moreover from this have "r \<in> set (map snd recs)" "r' \<in> set (map snd recs)" by force+
    ultimately show ?thesis
      using that(3) assms(1) [unfolded ordered_members_def, rule_format, of r r'] by (simp add: member_order_def)
  qed
  ultimately show "sorted_wrt (\<lambda>m m'. fst (snd m) < fst (snd m')) ?sorted"
    by (auto simp: sorted_wrt_map intro!: sorted_wrt_mono_rel [of ?sorted "\<lambda>m m'. fst m < fst m'"])
qed

lemma rfold_each: "(\<And>x. x \<in> set xs \<Longrightarrow> f x = Ok ()) \<Longrightarrow> rfold (\<lambda>x _. f x) xs () = Ok ()"
  by (induction xs) simp_all

lemma assured_subject [simp]: "assurance_subject (assured h) = sh_subject h"
  by (simp add: assurance_subject_def assured_def split: history_origin.split)

lemma assured_in_order:
  assumes "sorted_keys histories" "each_verifies C histories state"
  shows "sort_key assurance_subject (map (\<lambda>(_, h). assured h) histories) = map (\<lambda>(_, h). assured h) histories"
proof (rule sort_key_id_if_sorted)
  have "map assurance_subject (map (\<lambda>(_, h). assured h) histories) = map fst histories"
    using assms(2) by (auto simp: each_verifies_def)
  then show "sorted (map assurance_subject (map (\<lambda>(_, h). assured h) histories))"
    using assms(1) by (simp only: sorted_keys_def strict_sorted_iff)
qed

lemma histories_verify:
  assumes "histories_ok C histories state next_position" "\<not> is_blank scope"
  shows "verify_histories C scope (subject_snapshots state histories) coverage
    = Ok \<lparr>sa_scope = scope, sa_coverage = coverage, sa_subjects = map (\<lambda>(_, h). assured h) histories\<rparr>"
proof -
  have each: "each_verifies C histories state" and sorted: "sorted_keys histories"
    using assms(1) by (simp_all add: histories_ok_def)
  have "walk_claimed store_walk_start {} []" by (simp add: walk_claimed_def store_walk_start_def listed_def)
  then have "\<exists>w. rfold (claim_history C) (subject_snapshots state histories) store_walk_start = Ok w
    \<and> walk_claimed w (set (each_held history_ids histories) \<union> {}) ([] @ held_by histories)
    \<and> sw_assurances w = sw_assurances store_walk_start @ map (\<lambda>(_, h). assured h) histories"
    by (rule claim_histories_Ok [OF _ each])
      (use assms(1) in \<open>simp_all add: histories_ok_def sorted_keys_distinct store_walk_start_def\<close>)
  then obtain w where w: "rfold (claim_history C) (subject_snapshots state histories) store_walk_start = Ok w"
    "walk_claimed w (set (each_held history_ids histories)) (held_by histories)" "sw_assurances w = map (\<lambda>(_, h). assured h) histories"
    by (auto simp: store_walk_start_def)
  have "ascending_members (sort_key fst members) = Ok ()" if member: "members \<in> set (bt_values (sw_orders w))" for members
  proof -
    obtain k where "(k, members) \<in> set (sw_orders w)" using member by (auto simp: bt_values_def)
    then have "members = map member_order (filter (\<lambda>(_, r). member_key r = k) (held_by histories))"
      using w(2) by (auto simp: walk_claimed_def listed_def bt.get_entries [symmetric] dest: spec [of _ k])
    then show ?thesis
      using members_ascend [of "held_by histories" k] assms(1) by (simp only: held_by_records histories_ok_def)
  qed
  then have "rfold (\<lambda>members _. ascending_members (sort_key fst members)) (bt_values (sw_orders w)) () = Ok ()"
    by (rule rfold_each)
  with w(1,3) assms(2) show ?thesis
    by (simp add: verify_histories_def assured_in_order [OF sorted each] ensure_def)
qed

end
