(* ===== verification/Kept.thy ===== *)
theory Kept
  imports Complete
begin

text \<open>
  The operations of the reference store keep it verifiable: staging a member extends one verified history by one
  record whose identity, coordinate and physical position are new, and a commit swaps the staged histories in.
\<close>

section \<open>The reference store's invariant\<close>

definition recorded_ok :: "codec \<Rightarrow> recorded_memory \<Rightarrow> bool" where
  "recorded_ok C m \<longleftrightarrow> histories_ok C (me_histories m) (bt_get (me_instances m)) (me_next_position m)
     \<and> set (each_held history_ids (me_histories m)) \<subseteq> dom (bt_get (me_records m))
     \<and> member_key ` set (each_held sh_records (me_histories m)) \<subseteq> dom (bt_get (me_batches m))"

section \<open>One history changed\<close>

lemma each_verifies_get:
  "sorted_keys histories \<Longrightarrow> each_verifies C histories state \<longleftrightarrow> (\<forall>s h. bt_get histories s = Some h \<longrightarrow>
     sh_subject h = s \<and> \<not> branched h \<and> state s \<noteq> None \<and> verifies C h (state s))"
  by (auto simp: each_verifies_def bt.get_entries)

lemma held_insert:
  "sorted_keys histories \<Longrightarrow> g (history_new s) = [] \<Longrightarrow>
     mset (each_held g (bt_insert s h histories)) + mset (g (history_at histories s)) = mset (each_held g histories) + mset (g h)"
proof (induction s h histories rule: bt_insert.induct)
  case (2 k v k' v' m)
  have absent: "g (history_at m k) = []" if "k < k'"
  proof -
    have "k \<notin> fst ` set m" using "2.prems"(1) that by auto
    then show ?thesis using "2.prems"(2) by (simp add: history_at_def map_of_eq_None_iff [THEN iffD2])
  qed
  consider "k < k'" | "k' < k" | "k = k'" by fastforce
  then show ?case
  proof cases
    case 1
    then have "k \<noteq> k'" by simp
    then show ?thesis using absent [OF 1] 1 by (simp add: history_at_def)
  next
    case 2
    then have order: "k \<noteq> k'" "\<not> k < k'" by (simp_all add: less_imp_not_less)
    then have "history_at ((k', v') # m) k = history_at m k" by (simp add: history_at_def)
    then show ?thesis using "2.IH" 2 order "2.prems" by (simp add: add.assoc)
  next
    case 3
    then show ?thesis by (simp add: history_at_def)
  qed
qed (simp add: history_at_def)

lemma held_at: "x \<in> set (g (history_at histories s)) \<Longrightarrow> g (history_new s) = [] \<Longrightarrow> x \<in> set (each_held g histories)"
  by (auto simp: history_at_def each_held_def dest: map_of_SomeD split: option.splits)

text \<open>One record pushed onto one history.\<close>

definition pushed :: "subject \<Rightarrow> stored_record \<Rightarrow> (subject, subject_history) btree \<Rightarrow> (subject, subject_history) btree" where
  "pushed s r histories = (let h = history_at histories s in bt_insert s (h\<lparr>sh_records := sh_records h @ [r]\<rparr>) histories)"

lemma held_pushed:
  assumes "sorted_keys histories"
  shows "mset (each_held sh_records (pushed s r histories)) = add_mset r (mset (each_held sh_records histories))"
    and "mset (each_held history_ids (pushed s r histories)) = add_mset (record_id r) (mset (each_held history_ids histories))"
proof -
  let ?h = "history_at histories s"
  let ?h' = "?h\<lparr>sh_records := sh_records ?h @ [r]\<rparr>"
  have "mset (each_held sh_records (pushed s r histories)) + mset (sh_records ?h) = mset (each_held sh_records histories) + mset (sh_records ?h')"
    unfolding pushed_def Let_def by (rule held_insert [OF assms]) (simp add: history_new_def)
  then show "mset (each_held sh_records (pushed s r histories)) = add_mset r (mset (each_held sh_records histories))" by simp
  have "mset (each_held history_ids (pushed s r histories)) + mset (history_ids ?h) = mset (each_held history_ids histories) + mset (history_ids ?h')"
    unfolding pushed_def Let_def by (rule held_insert [OF assms]) (simp add: history_new_def history_ids_def anchor_ids_def)
  moreover have "mset (history_ids ?h') = add_mset (record_id r) (mset (history_ids ?h))" by (simp add: history_ids_def)
  ultimately show "mset (each_held history_ids (pushed s r histories)) = add_mset (record_id r) (mset (each_held history_ids histories))"
    by (metis add_mset_add_single add_right_imp_eq union_assoc union_commute)
qed

lemma mset_same:
  assumes "mset xs = add_mset x (mset ys)"
  shows "set xs = insert x (set ys)" "distinct (map f xs) \<longleftrightarrow> f x \<notin> f ` set ys \<and> distinct (map f ys)"
    "distinct xs \<longleftrightarrow> x \<notin> set ys \<and> distinct ys"
proof -
  have same: "mset xs = mset (x # ys)" using assms by simp
  show "set xs = insert x (set ys)" using mset_eq_setD [OF same] by simp
  have "mset (map f xs) = mset (map f (x # ys))" using same by (simp only: mset_map)
  from mset_eq_imp_distinct_iff [OF this] show "distinct (map f xs) \<longleftrightarrow> f x \<notin> f ` set ys \<and> distinct (map f ys)" by simp
  from mset_eq_imp_distinct_iff [OF same] show "distinct xs \<longleftrightarrow> x \<notin> set ys \<and> distinct ys" by simp
qed

lemma history_at_verifies:
  assumes "histories_ok C histories state p" "validate_subject s = Ok ()"
  shows "sh_subject (history_at histories s) = s" "\<not> branched (history_at histories s)"
    "verifies C (history_at histories s) (state s)"
proof -
  have each: "bt_get histories s = Some h \<Longrightarrow> sh_subject h = s \<and> \<not> branched h \<and> verifies C h (state s)" for h
    using assms(1) by (auto simp: histories_ok_def each_verifies_get)
  have "bt_get histories s = None \<Longrightarrow> state s = None" using assms(1) by (simp add: histories_ok_def)
  with each assms(2) show "sh_subject (history_at histories s) = s" "\<not> branched (history_at histories s)"
    "verifies C (history_at histories s) (state s)"
    by (auto simp: history_at_def history_new_def verifies_def branched_def validate_imported_boundary_def origin_state_def
      last_position_def split: option.split)
qed

lemma positions_taken_next: "positions_taken (checked_next n) = Suc (unat n)"
proof (cases "n = - 1")
  case True
  then show ?thesis by (simp add: positions_taken_def checked_next_def unsigned_minus_1_eq_mask mask_eq_exp_minus_1)
next
  case False
  then have "1 + n \<noteq> 0" by (metis add.commute eq_neg_iff_add_eq_0)
  then show ?thesis using False unatSuc [of n] by (simp add: positions_taken_def checked_next_def add.commute)
qed

lemma checked_next_greater: "checked_next n = Some p \<Longrightarrow> n < p"
  using positions_taken_next [of n] by (simp add: positions_taken_def word_less_nat_alt)

text \<open>The next records a store can hold: what the verifier asks of a record that follows a verified history.\<close>

lemma push_keeps:
  assumes ok: "histories_ok C histories state (Some n)"
    and admitted: "validate_entry_against_state C (sr_entry r) (sr_expect r) (state s) = Ok (Some i)" "validate_subject s = Ok ()"
    and coordinates: "validate_stored_coordinates C s r (last_position (sh_records (history_at histories s))) False = Ok ()"
      "sr_lineage r = None" "store_position r = n"
    and fresh: "record_id r \<notin> set (each_held history_ids histories)"
      "\<forall>r' \<in> set (each_held sh_records histories). member_key r' = member_key r \<longrightarrow> member_index r' < member_index r"
  shows "histories_ok C (pushed s r histories) (state(s \<mapsto> i)) (checked_next n)"
proof -
  have sorted: "sorted_keys histories" using ok by (simp add: histories_ok_def)
  have pushed: "sorted_keys (pushed s r histories)" using sorted by (simp add: pushed_def Let_def)
  note records = mset_same [OF held_pushed(1) [OF sorted, of s r]] and ids = mset_same [OF held_pushed(2) [OF sorted, of s r]]
  note at_s = history_at_verifies [OF ok admitted(2)]
  let ?h = "history_at histories s"
  have "record_id r \<notin> record_id ` set (sh_records ?h)"
    using fresh(1) held_at [of "record_id r" history_ids histories s] by (auto simp: history_ids_def history_new_def anchor_ids_def)
  then have "verifies C (?h\<lparr>sh_records := sh_records ?h @ [r]\<rparr>) (Some i)"
    unfolding verifies_snoc using at_s(1,3) admitted(1) coordinates(1) by auto
  moreover have "\<not> branched (?h\<lparr>sh_records := sh_records ?h @ [r]\<rparr>)" using at_s(2) coordinates(2) by (simp add: branched_def)
  ultimately have each: "each_verifies C (pushed s r histories) (state(s \<mapsto> i))"
    using ok at_s(1) unfolding each_verifies_get [OF pushed]
    by (auto simp: histories_ok_def each_verifies_get pushed_def Let_def)
  have positions: "\<forall>r' \<in> set (each_held sh_records histories). unat (store_position r') < unat n"
    using ok by (simp add: histories_ok_def positions_taken_def)
  then have new: "store_position r \<notin> store_position ` set (each_held sh_records histories)" using coordinates(3) by auto
  have "coordinate r \<notin> coordinate ` set (each_held sh_records histories)" using fresh(2) by (auto simp: coordinate_def)
  with ok new have "distinct (map store_position (each_held sh_records (pushed s r histories)))"
    "distinct (map coordinate (each_held sh_records (pushed s r histories)))"
    unfolding records(2) by (simp_all add: histories_ok_def)
  moreover have "distinct (each_held history_ids (pushed s r histories))" unfolding ids(3) using ok fresh(1) by (simp add: histories_ok_def)
  moreover have "positions_taken (checked_next n) = Suc (unat n)" by (rule positions_taken_next)
  then have "\<forall>r' \<in> set (each_held sh_records (pushed s r histories)). unat (store_position r') < positions_taken (checked_next n)"
    unfolding records(1) using positions coordinates(3) by auto
  moreover have "ordered_members (each_held sh_records (pushed s r histories))"
    using ok fresh(2) positions unfolding ordered_members_def records(1)
    by (auto simp: histories_ok_def ordered_members_def coordinates(3) word_less_nat_alt)
  moreover have "\<forall>t. bt_get (pushed s r histories) t = None \<longrightarrow> (state(s \<mapsto> i)) t = None"
    using ok by (auto simp: histories_ok_def pushed_def Let_def)
  ultimately show ?thesis using pushed each by (simp add: histories_ok_def)
qed

section \<open>Staging a batch\<close>

text \<open>Histories only grow: a subject keeps its origin and its records, in their order.\<close>

definition grows :: "(subject, subject_history) btree \<Rightarrow> (subject, subject_history) btree \<Rightarrow> bool" where
  "grows histories histories' \<longleftrightarrow> (\<forall>s h. bt_get histories s = Some h \<longrightarrow>
     (\<exists>rs. bt_get histories' s = Some (h\<lparr>sh_records := sh_records h @ rs\<rparr>)))"

lemma grows_refl [simp]: "grows histories histories"
  by (auto simp: grows_def intro: exI [of _ "[]"])

lemma grows_trans:
  assumes "grows histories histories'" "grows histories' histories''"
  shows "grows histories histories''"
  unfolding grows_def
proof (intro allI impI)
  fix s h
  assume "bt_get histories s = Some h"
  then obtain rs where "bt_get histories' s = Some (h\<lparr>sh_records := sh_records h @ rs\<rparr>)" using assms(1) by (auto simp: grows_def)
  then obtain ts where "bt_get histories'' s = Some (h\<lparr>sh_records := (sh_records h @ rs) @ ts\<rparr>)" using assms(2) by (force simp: grows_def)
  then show "\<exists>rs. bt_get histories'' s = Some (h\<lparr>sh_records := sh_records h @ rs\<rparr>)" by auto
qed

lemma history_at_pushed:
  "history_at (pushed s r histories) t = (if t = s
     then (history_at histories s)\<lparr>sh_records := sh_records (history_at histories s) @ [r]\<rparr> else history_at histories t)"
  by (simp add: pushed_def Let_def history_at_def)

lemma grows_pushed [simp]: "grows histories (pushed s r histories)"
  by (auto simp: grows_def pushed_def history_at_def Let_def intro: exI [of _ "[]"])

definition recorded_at :: "(subject, subject_history) btree \<Rightarrow> stored_record \<Rightarrow> bool" where
  "recorded_at histories r \<longleftrightarrow> r \<in> set (sh_records (history_at histories (entry_subject (sr_entry r))))"

lemma recorded_at_grows: "recorded_at histories r \<Longrightarrow> grows histories histories' \<Longrightarrow> recorded_at histories' r"
  by (force simp: recorded_at_def history_at_def history_new_def grows_def split: option.splits)

definition staging :: "codec \<Rightarrow> recorded_memory \<Rightarrow> batch_key \<Rightarrow> nat \<Rightarrow> staged \<Rightarrow> bool" where
  "staging C m k j g \<longleftrightarrow> histories_ok C (sg_histories g) (staged_state m g) (sg_next_position g)
     \<and> j \<le> positions_taken (sg_next_position g) \<and> (\<forall>r \<in> set (each_held sh_records (sg_histories g)). member_key r = k \<longrightarrow> unat (member_index r) < j)
     \<and> set (each_held history_ids (sg_histories g)) \<subseteq> dom (bt_get (me_records m)) \<union> record_id ` set (sg_stored g)
     \<and> member_key ` set (each_held sh_records (sg_histories g)) \<subseteq> insert k (dom (bt_get (me_batches m)))
     \<and> sorted_keys (sg_overlay g) \<and> grows (me_histories m) (sg_histories g) \<and> list_all (recorded_at (sg_histories g)) (sg_stored g)"

text \<open>What a stored record keeps of the member it was stored from.\<close>

definition stores :: "batch_key \<Rightarrow> nat \<Rightarrow> append_member \<Rightarrow> stored_record \<Rightarrow> bool" where
  "stores k index member r \<longleftrightarrow> sr_entry r = am_entry member \<and> sr_expect r = am_expect member
     \<and> sr_request_bytes r = am_request_bytes member \<and> coordinate r = (k, of_nat index)"

definition admissible :: "codec \<Rightarrow> recorded_memory \<Rightarrow> batch_key \<Rightarrow> nat \<Rightarrow> append_member \<Rightarrow> bool" where
  "admissible C m k index member \<longleftrightarrow> validate_key k = Ok () \<and> member_validate C member = Ok ()
     \<and> (\<forall>i. k = SingleRecord i \<longrightarrow> i = entry_record_id (am_entry member) \<and> index = 0)
     \<and> bt_get (me_records m) (entry_record_id (am_entry member)) = None"

lemma stage_member_keeps:
  assumes staging: "staging C m k j g" and step: "stage_member C m k (j, member) g = Ok g'"
    and member: "admissible C m k j member" "entry_record_id (am_entry member) \<notin> record_id ` set (sg_stored g)"
  shows "\<exists>r. staging C m k (Suc j) g' \<and> sg_stored g' = sg_stored g @ [r] \<and> stores k j member r"
proof -
  let ?e = "am_entry member"
  let ?s = "entry_subject ?e"
  from step obtain i at_subject n bytes
    where admitted: "validate_entry_against_state C ?e (am_expect member) (staged_state m g ?s) = Ok (Some i)"
      and at_subject: "subject_position C ?s (bt_get (sg_histories g) ?s) = Ok at_subject"
      and n: "sg_next_position g = Some n" and bytes: "record_comparison_bytes C ?e = Ok bytes"
      and g': "g' = g\<lparr>sg_histories := pushed ?s (stored_member k j member \<lparr>rp_subject = at_subject, rp_store = n\<rparr> bytes) (sg_histories g),
        sg_next_position := checked_next n, sg_overlay := bt_insert ?s i (sg_overlay g),
        sg_stored := sg_stored g @ [stored_member k j member \<lparr>rp_subject = at_subject, rp_store = n\<rparr> bytes]\<rparr>"
    by (auto simp: stage_member_def Let_def pushed_def res_simps)
  define r where "r = stored_member k j member \<lparr>rp_subject = at_subject, rp_store = n\<rparr> bytes"
  have r: "sr_entry r = ?e" "sr_expect r = am_expect member" "sr_lineage r = None" "store_position r = n"
    "rp_subject (sr_position r) = at_subject" "member_key r = k" "member_index r = of_nat j" "record_id r = entry_record_id ?e"
    "sr_request_bytes r = am_request_bytes member" "sr_record_bytes r = bytes" "receipt_agrees ?s r"
    "rr_record_id (sr_receipt r) = entry_record_id ?e"
    by (simp_all add: r_def stored_member_def Let_def record_id_def receipt_agrees_def)
  have state: "staged_state m g' = (staged_state m g)(?s \<mapsto> i)" by (simp add: g' staged_state_def fun_eq_iff)
  have ok: "histories_ok C (sg_histories g) (staged_state m g) (Some n)" and j: "j \<le> unat n"
    and index: "\<forall>r \<in> set (each_held sh_records (sg_histories g)). member_key r = k \<longrightarrow> unat (member_index r) < j"
    using staging n by (simp_all add: staging_def positions_taken_def)
  have valid: "validate_subject ?s = Ok ()" "original_request_comparison_bytes C ?e = Ok (am_request_bytes member)" "validate_key k = Ok ()"
    using member(1) by (auto simp: admissible_def member_validate_def entry_validate_def res_simps)
  let ?h = "history_at (sg_histories g) ?s"
  have "store_position (last (sh_records ?h)) < n" if "sh_records ?h \<noteq> []"
  proof -
    have "last (sh_records ?h) \<in> set (each_held sh_records (sg_histories g))"
      using last_in_set [OF that] by (rule held_at) (simp add: history_new_def)
    then show ?thesis using ok by (simp add: histories_ok_def positions_taken_def word_less_nat_alt)
  qed
  moreover have "rp_subject (sr_position (last (sh_records ?h))) < at_subject" if "sh_records ?h \<noteq> []"
  proof -
    have "checked_next (rp_subject (sr_position (last (sh_records ?h)))) = Some at_subject"
      using that at_subject by (auto simp: subject_position_def history_at_def history_new_def res_simps split: option.splits)
    then show ?thesis by (rule checked_next_greater)
  qed
  moreover have "check_bytes C ?s r = Ok ()" using bytes valid(2) by (simp add: check_bytes_def said_corrupt_def r ensure_def)
  moreover have "(case k of SingleRecord i \<Rightarrow> i = entry_record_id ?e \<and> j = 0 | Named _ \<Rightarrow> True)"
    using member(1) by (simp add: admissible_def split: batch_key.split)
  ultimately have coordinates: "validate_stored_coordinates C ?s r (last_position (sh_records ?h)) False = Ok ()"
    using valid(3) by (auto simp: validate_stored_coordinates_def r last_position_def said_corrupt_def ensure_def not_le split: batch_key.split)
  have "unat n < 2 ^ LENGTH(64)" by (rule unsigned_less)
  then have "unat (of_nat j :: 64 word) = j" using j by (simp add: unsigned_of_nat take_bit_nat_eq_self)
  then have fresh: "\<forall>r' \<in> set (each_held sh_records (sg_histories g)). member_key r' = member_key r \<longrightarrow> member_index r' < member_index r"
    using index by (simp add: r word_less_nat_alt)
  have new: "record_id r \<notin> set (each_held history_ids (sg_histories g))"
    using staging member by (auto simp: staging_def admissible_def r)
  have kept: "histories_ok C (pushed ?s r (sg_histories g)) ((staged_state m g)(?s \<mapsto> i)) (checked_next n)"
    using push_keeps [OF ok _ valid(1) coordinates r(3,4) new fresh] admitted by (simp add: r)
  have sorted: "sorted_keys (sg_histories g)" using ok by (simp add: histories_ok_def)
  have now: "set (each_held sh_records (sg_histories g')) = insert r (set (each_held sh_records (sg_histories g)))"
    "set (each_held history_ids (sg_histories g')) = insert (record_id r) (set (each_held history_ids (sg_histories g)))"
    using mset_same(1) [OF held_pushed(1) [OF sorted, of ?s r]] mset_same(1) [OF held_pushed(2) [OF sorted, of ?s r]] g' r_def by simp_all
  have grown: "grows (sg_histories g) (sg_histories g')" "sg_stored g' = sg_stored g @ [r]" "sg_next_position g' = checked_next n"
    using g' r_def by simp_all
  have "sg_histories g' = pushed ?s r (sg_histories g)" using g' r_def by simp
  then have "recorded_at (sg_histories g') r" by (simp add: recorded_at_def r(1) history_at_pushed)
  moreover have "list_all (recorded_at (sg_histories g')) (sg_stored g)"
    using staging recorded_at_grows [OF _ grown(1)] by (auto simp: staging_def list_all_iff)
  moreover have "grows (me_histories m) (sg_histories g')" using staging grows_trans grown(1) by (auto simp: staging_def)
  moreover have "sorted_keys (sg_overlay g')" using staging g' by (simp add: staging_def)
  moreover have "histories_ok C (sg_histories g') (staged_state m g') (sg_next_position g')"
    unfolding state grown(3) using kept g' r_def by simp
  ultimately have "staging C m k (Suc j) g'"
    using staging index j now grown(2,3) \<open>unat (of_nat j :: 64 word) = j\<close>
    by (auto simp: staging_def positions_taken_next r less_Suc_eq)
  moreover have "stores k j member r" by (simp add: stores_def r coordinate_def)
  ultimately show ?thesis using grown(2) by blast
qed

end
