(* ===== verification/Reached.thy ===== *)
theory Reached
  imports Kept
begin

text \<open>
  Every state the reference store reaches, by appends with any script, seeds and reads: its histories verify
  completely, its indexes agree with them, and what it holds is never lost.
\<close>

section \<open>A staged batch\<close>

lemma stage_keeps:
  assumes "rfold (stage_member C m k) (enumerate j members) g = Ok g'" "staging C m k j g"
    and "\<And>i member. (i, member) \<in> set (enumerate j members) \<Longrightarrow> admissible C m k i member"
    and "distinct (map record_id (sg_stored g) @ member_ids members)"
  shows "staging C m k (j + length members) g' \<and> (\<exists>rs. sg_stored g' = sg_stored g @ rs
    \<and> list_all2 (\<lambda>(i, member). stores k i member) (enumerate j members) rs)"
  using assms
proof (induction members arbitrary: j g)
  case (Cons member members)
  from Cons.prems(1) obtain g1 where g1: "stage_member C m k (j, member) g = Ok g1"
    "rfold (stage_member C m k) (enumerate (Suc j) members) g1 = Ok g'" by (auto simp: res_simps)
  have "entry_record_id (am_entry member) \<notin> record_id ` set (sg_stored g)" using Cons.prems(4) by (auto simp: member_ids_def)
  from stage_member_keeps [OF Cons.prems(2) g1(1) Cons.prems(3) this] obtain r where
    r: "staging C m k (Suc j) g1" "sg_stored g1 = sg_stored g @ [r]" "stores k j member r" by auto
  have "record_id r = entry_record_id (am_entry member)" using r(3) by (simp add: stores_def record_id_def)
  then have "distinct (map record_id (sg_stored g1) @ member_ids members)" using Cons.prems(4) r(2) by (simp add: member_ids_def)
  moreover have "admissible C m k i x" if "(i, x) \<in> set (enumerate (Suc j) members)" for i x
    using that Cons.prems(3) by simp
  ultimately have "staging C m k (Suc j + length members) g' \<and> (\<exists>rs. sg_stored g' = sg_stored g1 @ rs
    \<and> list_all2 (\<lambda>(i, member). stores k i member) (enumerate (Suc j) members) rs)"
    by (intro Cons.IH g1(2) r(1)) auto
  with r(2,3) show ?case by auto
qed simp

lemma validate_distinct_Ok: "validate_distinct seen ids = Ok u \<longleftrightarrow> distinct ids \<and> set ids \<inter> set seen = {}"
  by (induction seen ids rule: validate_distinct.induct) auto

lemma rfold_units_iff: "rfold (\<lambda>x _. f x) xs () = Ok u \<longleftrightarrow> (\<forall>x \<in> set xs. f x = Ok ())"
  by (induction xs) (auto simp: res_simps)

lemma request_valid:
  assumes "request_validate C q = Ok u" "aq_members q \<noteq> []"
  obtains k where "aq_key q = Some k" "validate_key k = Ok ()" "distinct (member_ids (aq_members q))"
    "\<And>i. k = SingleRecord i \<Longrightarrow> member_ids (aq_members q) = [i]" "\<And>member. member \<in> set (aq_members q) \<Longrightarrow> member_validate C member = Ok ()"
proof -
  obtain member members where members: "aq_members q = member # members" using assms(2) by (cases "aq_members q") auto
  obtain k where k: "aq_key q = Some k" using assms(1) by (cases "aq_key q") (simp_all add: request_validate_def members)
  have steps: "validate_key k = Ok ()" "validate_single k (member_ids (aq_members q))
      ''SingleRecord requires exactly one member with the same record id'' = Ok ()"
    "validate_distinct [] (member_ids (aq_members q)) = Ok ()" "rfold (\<lambda>m _. member_validate C m) (aq_members q) () = Ok ()"
    using assms(1) by (simp_all add: request_validate_def k members res_simps del: rfold.simps validate_distinct.simps)
  show thesis
  proof (rule that [OF k steps(1)])
    show "distinct (member_ids (aq_members q))" using steps(3) by (simp add: validate_distinct_Ok)
    show "member_ids (aq_members q) = [i]" if "k = SingleRecord i" for i using steps(2) that by (simp add: validate_single_def)
    show "member_validate C x = Ok ()" if "x \<in> set (aq_members q)" for x
      using steps(4) that by (simp add: rfold_units_iff del: rfold.simps)
  qed
qed

lemma prior_entries_Nil:
  assumes "prior_entries C records members = Ok []" "member \<in> set members"
  shows "bt_get records (entry_record_id (am_entry member)) = None"
proof -
  from assms(1) obtain found where found: "rmap (prior_entry C records) (enumerate 0 members) = Ok found" "concat found = []"
    by (auto simp: prior_entries_def res_simps)
  obtain i where i: "i < length members" "members ! i = member" using assms(2) by (auto simp: in_set_conv_nth)
  from found(1) have all: "list_all2 (\<lambda>x y. prior_entry C records x = Ok y) (enumerate 0 members) found" unfolding rmap_Ok_iff .
  then have "prior_entry C records (enumerate 0 members ! i) = Ok (found ! i)" "i < length found"
    using i(1) by (auto simp: list_all2_conv_all_nth)
  moreover from this have "found ! i = []" using found(2) by simp
  ultimately have "prior_entry C records (i, member) = Ok []" using i by (simp add: nth_enumerate_eq)
  then show ?thesis by (auto simp: prior_entry_def res_simps split: option.splits if_splits)
qed


section \<open>What the indexes hold\<close>

text \<open>A batch and the global index agree with the histories; an imported record is evidence of its subject's boundary.\<close>

definition batch_held :: "codec \<Rightarrow> record_lookup smap \<Rightarrow> batch_key \<Rightarrow> stored_batch \<Rightarrow> bool" where
  "batch_held C records k b \<longleftrightarrow> sb_key b = k \<and> batch_comparison_bytes C k (stored_members (sb_records b)) = Ok (sb_comparison_bytes b)
     \<and> receipt_of k (sb_records b) = Ok (sb_receipt b)
     \<and> map coordinate (sb_records b) = map (\<lambda>i. (k, of_nat i)) [0..<length (sb_records b)]
     \<and> (\<forall>r \<in> set (sb_records b). bt_get records (record_id r) = Some (LookupCommitted r))
     \<and> (\<forall>i. k = SingleRecord i \<longrightarrow> map record_id (sb_records b) = [i])"

definition evidence_at :: "(subject, subject_history) btree \<Rightarrow> imported_evidence \<Rightarrow> bool" where
  "evidence_at histories v \<longleftrightarrow> (\<exists>anchor. sh_origin (history_at histories (entry_subject (ie_entry v))) = ImportedFrom anchor
     \<and> LegacyEnvelope v \<in> set (la_evidence anchor))"

definition lookup_held :: "(subject, subject_history) btree \<Rightarrow> string \<Rightarrow> record_lookup \<Rightarrow> bool" where
  "lookup_held histories i l \<longleftrightarrow> (case l of
     LookupCommitted r \<Rightarrow> record_id r = i \<and> recorded_at histories r
   | LookupImported v \<Rightarrow> entry_record_id (ie_entry v) = i \<and> evidence_at histories v)"

definition indexed :: "codec \<Rightarrow> recorded_memory \<Rightarrow> bool" where
  "indexed C m \<longleftrightarrow> (\<forall>i l. bt_get (me_records m) i = Some l \<longrightarrow> lookup_held (me_histories m) i l)
     \<and> (\<forall>k b. bt_get (me_batches m) k = Some b \<longrightarrow> batch_held C (me_records m) k b)"

text \<open>What a store holds is never taken back: neither a history, nor a record, nor a batch.\<close>

definition holds_on :: "recorded_memory \<Rightarrow> recorded_memory \<Rightarrow> bool" where
  "holds_on m m' \<longleftrightarrow> grows (me_histories m) (me_histories m') \<and> bt_get (me_records m) \<subseteq>\<^sub>m bt_get (me_records m')
     \<and> bt_get (me_batches m) \<subseteq>\<^sub>m bt_get (me_batches m')"

lemma holds_on_refl [simp]: "holds_on m m"
  by (simp add: holds_on_def)

lemma holds_on_trans: "holds_on m m' \<Longrightarrow> holds_on m' m'' \<Longrightarrow> holds_on m m''"
  unfolding holds_on_def by (meson grows_trans map_le_trans)

lemma evidence_at_grows: "evidence_at histories v \<Longrightarrow> grows histories histories' \<Longrightarrow> evidence_at histories' v"
  by (force simp: evidence_at_def history_at_def history_new_def grows_def split: option.splits)

lemma lookup_held_grows: "lookup_held histories i l \<Longrightarrow> grows histories histories' \<Longrightarrow> lookup_held histories' i l"
  by (auto simp: lookup_held_def intro: recorded_at_grows evidence_at_grows split: record_lookup.splits)

lemma batch_held_extends: "batch_held C records k b \<Longrightarrow> bt_get records \<subseteq>\<^sub>m bt_get records' \<Longrightarrow> batch_held C records' k b"
  unfolding batch_held_def by (metis domI map_le_def)

section \<open>A commit\<close>

lemma get_fold_insert:
  "map_of (fold (\<lambda>(k, v). bt_insert k v) kvs m) k = (case map_of (rev kvs) k of Some v \<Rightarrow> Some v | None \<Rightarrow> map_of m k)"
proof (induction kvs arbitrary: m)
  case (Cons kv kvs)
  then show ?case by (cases kv) (auto simp: map_add_def split: option.splits)
qed simp

lemma staged_states:
  assumes "sorted_keys (sg_overlay g)"
  shows "bt_get (fold (\<lambda>(s, i). bt_insert s i) (sg_overlay g) (me_instances m)) = staged_state m g"
  by (rule ext) (simp add: get_fold_insert staged_state_def map_of_rev_distinct [OF sorted_keys_distinct [OF assms]])

lemma get_indexed:
  assumes "distinct (map record_id rs)"
  shows "r \<in> set rs \<Longrightarrow> bt_get (fold (\<lambda>r. bt_insert (record_id r) (LookupCommitted r)) rs records) (record_id r) = Some (LookupCommitted r)"
    "i \<notin> record_id ` set rs \<Longrightarrow> bt_get (fold (\<lambda>r. bt_insert (record_id r) (LookupCommitted r)) rs records) i = bt_get records i"
proof -
  have "(r \<in> set rs \<longrightarrow> bt_get (fold (\<lambda>r. bt_insert (record_id r) (LookupCommitted r)) rs records) (record_id r) = Some (LookupCommitted r))
    \<and> (i \<notin> record_id ` set rs \<longrightarrow> bt_get (fold (\<lambda>r. bt_insert (record_id r) (LookupCommitted r)) rs records) i = bt_get records i)"
    using assms
  proof (induction rs rule: rev_induct)
    case (snoc x xs)
    then have "record_id x \<notin> record_id ` set xs" by simp
    then have "r \<in> set xs \<longrightarrow> record_id r \<noteq> record_id x" by (metis imageI)
    with snoc show ?case by (auto simp del: image_iff)
  qed simp
  then show "r \<in> set rs \<Longrightarrow> bt_get (fold (\<lambda>r. bt_insert (record_id r) (LookupCommitted r)) rs records) (record_id r) = Some (LookupCommitted r)"
    "i \<notin> record_id ` set rs \<Longrightarrow> bt_get (fold (\<lambda>r. bt_insert (record_id r) (LookupCommitted r)) rs records) i = bt_get records i"
    by blast+
qed

lemma stored_members_encode:
  assumes "list_all2 (\<lambda>(i, member). stores k i member) (enumerate j members) rs"
  shows "batch_comparison_bytes C k' (stored_members rs) = batch_comparison_bytes C k' members"
    "map sr_request_bytes rs = map am_request_bytes members" "map record_id rs = member_ids members"
    "map coordinate rs = map (\<lambda>i. (k, of_nat i)) [j..<j + length members]"
proof -
  from assms have "rmap (member_json C) (stored_members rs) = rmap (member_json C) members
      \<and> map sr_request_bytes rs = map am_request_bytes members \<and> map record_id rs = member_ids members
      \<and> map coordinate rs = map (\<lambda>i. (k, of_nat i)) [j..<j + length members]"
  proof (induction members arbitrary: j rs)
    case (Cons member members)
    then obtain r rs' where rs: "rs = r # rs'" "stores k j member r"
      "list_all2 (\<lambda>(i, member). stores k i member) (enumerate (Suc j) members) rs'" by (auto simp: list_all2_Cons1)
    have "[j..<j + length (member # members)] = j # [Suc j..<j + length (member # members)]" by (rule upt_conv_Cons) simp
    then have "[j..<j + length (member # members)] = j # [Suc j..<Suc j + length members]" by (simp del: upt_Suc)
    with Cons.IH [OF rs(3)] rs(1,2) show ?case
      by (simp add: stored_members_def stores_def member_json_def member_new_def record_id_def member_ids_def del: upt_Suc)
  qed (simp add: stored_members_def member_ids_def)
  then show "batch_comparison_bytes C k' (stored_members rs) = batch_comparison_bytes C k' members"
    "map sr_request_bytes rs = map am_request_bytes members" "map record_id rs = member_ids members"
    "map coordinate rs = map (\<lambda>i. (k, of_nat i)) [j..<j + length members]"
    by (simp_all add: batch_comparison_bytes_def)
qed

text \<open>What a fresh append commits: every member, at the key's coordinates, under one receipt.\<close>

definition commits :: "codec \<Rightarrow> batch_key \<Rightarrow> append_member list \<Rightarrow> commit_receipt \<Rightarrow> recorded_memory \<Rightarrow> bool" where
  "commits C k members receipt m \<longleftrightarrow> (\<exists>b. bt_get (me_batches m) k = Some b \<and> sb_receipt b = receipt
     \<and> batch_comparison_bytes C k members = Ok (sb_comparison_bytes b)
     \<and> map sr_request_bytes (sb_records b) = map am_request_bytes members \<and> map sr_entry (sb_records b) = map am_entry members)"

lemma commits_holds: "commits C k members receipt m \<Longrightarrow> holds_on m m' \<Longrightarrow> commits C k members receipt m'"
  unfolding commits_def holds_on_def by (metis domI map_le_def)

lemma stored_entries:
  "list_all2 (\<lambda>(i, member). stores k i member) (enumerate j members) rs \<Longrightarrow> map sr_entry rs = map am_entry members"
proof (induction members arbitrary: j rs)
  case (Cons member members)
  then show ?case by (auto simp: list_all2_Cons1 stores_def)
qed simp

lemma commit_keeps:
  assumes commit: "commit_staged C k members bytes m = Ok (m', outcome)" and bytes: "batch_comparison_bytes C k members = Ok bytes"
    and ok: "recorded_ok C m" "indexed C m" and k: "bt_get (me_batches m) k = None"
    and request: "validate_key k = Ok ()" "distinct (member_ids members)" "\<And>i. k = SingleRecord i \<Longrightarrow> member_ids members = [i]"
      "\<And>member. member \<in> set members \<Longrightarrow> member_validate C member = Ok ()"
    and fresh: "\<And>member. member \<in> set members \<Longrightarrow> bt_get (me_records m) (entry_record_id (am_entry member)) = None"
  shows "recorded_ok C m' \<and> indexed C m' \<and> holds_on m m' \<and> (\<exists>receipt. outcome = AppendCommitted receipt False
    \<and> commits C k members receipt m')"
proof -
  let ?start = "\<lparr>sg_histories = me_histories m, sg_next_position = me_next_position m, sg_overlay = [], sg_stored = []\<rparr>"
  from commit obtain g receipt where staged: "rfold (stage_member C m k) (enumerate 0 members) ?start = Ok g"
    and receipt: "receipt_of k (sg_stored g) = Ok receipt" "outcome = AppendCommitted receipt False"
    and m': "m' = committed g \<lparr>sb_key = k, sb_records = sg_stored g, sb_comparison_bytes = bytes, sb_receipt = receipt\<rparr> m"
    by (auto simp: commit_staged_def stage_def res_simps)
  let ?b = "\<lparr>sb_key = k, sb_records = sg_stored g, sb_comparison_bytes = bytes, sb_receipt = receipt\<rparr>"
  have "staged_state m ?start = bt_get (me_instances m)" by (simp add: staged_state_def fun_eq_iff)
  moreover have "\<forall>r \<in> set (each_held sh_records (me_histories m)). member_key r \<noteq> k" using ok(1) k by (force simp: recorded_ok_def)
  ultimately have start: "staging C m k 0 ?start" using ok(1) by (auto simp: staging_def recorded_ok_def)
  have "admissible C m k i member" if "(i, member) \<in> set (enumerate 0 members)" for i member
  proof -
    have "i < length members" "members ! i = member" using that by (auto simp: in_set_enumerate_eq)
    moreover from this have "member \<in> set members" by auto
    ultimately show ?thesis using request fresh by (fastforce simp: admissible_def member_ids_def)
  qed
  from stage_keeps [OF staged start this] request(2) have staging: "staging C m k (length members) g"
    and stored: "list_all2 (\<lambda>(i, member). stores k i member) (enumerate 0 members) (sg_stored g)" by simp_all
  note encode = stored_members_encode [OF stored]
  have ids: "distinct (map record_id (sg_stored g))" "\<forall>r \<in> set (sg_stored g). bt_get (me_records m) (record_id r) = None"
  proof -
    show "distinct (map record_id (sg_stored g))" using encode(3) request(2) by simp
    show "\<forall>r \<in> set (sg_stored g). bt_get (me_records m) (record_id r) = None"
    proof
      fix r
      assume "r \<in> set (sg_stored g)"
      then have "record_id r \<in> set (member_ids members)" unfolding encode(3) [symmetric] by simp
      then obtain member where "member \<in> set members" "record_id r = entry_record_id (am_entry member)"
        by (auto simp: member_ids_def)
      then show "bt_get (me_records m) (record_id r) = None" using fresh by simp
    qed
  qed
  let ?records = "fold (\<lambda>r. bt_insert (record_id r) (LookupCommitted r)) (sg_stored g) (me_records m)"
  have fields: "me_histories m' = sg_histories g" "me_next_position m' = sg_next_position g" "me_records m' = ?records"
    "bt_get (me_instances m') = staged_state m g" "me_batches m' = bt_insert k ?b (me_batches m)"
    using staging by (simp_all add: m' committed_def record_id_def staged_states staging_def)
  have dom: "dom (bt_get ?records) = dom (bt_get (me_records m)) \<union> record_id ` set (sg_stored g)"
  proof (intro set_eqI)
    fix i
    show "i \<in> dom (bt_get ?records) \<longleftrightarrow> i \<in> dom (bt_get (me_records m)) \<union> record_id ` set (sg_stored g)"
    proof (cases "i \<in> record_id ` set (sg_stored g)")
      case True
      then show ?thesis using get_indexed(1) [OF ids(1)] by auto
    next
      case False
      then show ?thesis using get_indexed(2) [OF ids(1) False] by auto
    qed
  qed
  have kept: "bt_get (me_records m) \<subseteq>\<^sub>m bt_get ?records"
  proof (unfold map_le_def, intro ballI)
    fix i
    assume "i \<in> dom (bt_get (me_records m))"
    then have "i \<notin> record_id ` set (sg_stored g)" using ids(2) by auto
    then show "bt_get (me_records m) i = bt_get ?records i" by (rule get_indexed(2) [OF ids(1), symmetric])
  qed
  have grown: "grows (me_histories m) (sg_histories g)" using staging by (simp add: staging_def)
  have ok': "recorded_ok C m'" using staging dom unfolding recorded_ok_def fields staging_def by auto
  have "length (sg_stored g) = length members" using list_all2_lengthD [OF stored] by simp
  then have "batch_held C ?records k ?b"
    using encode receipt(1) bytes request(3) get_indexed(1) [OF ids(1)] by (simp add: batch_held_def)
  then have batches: "\<forall>l b. bt_get (me_batches m') l = Some b \<longrightarrow> batch_held C (me_records m') l b"
    using ok(2) batch_held_extends [OF _ kept] by (auto simp: fields indexed_def)
  have "lookup_held (sg_histories g) i l" if "bt_get ?records i = Some l" for i l
  proof (cases "i \<in> record_id ` set (sg_stored g)")
    case True
    then obtain r where r: "r \<in> set (sg_stored g)" "i = record_id r" by blast
    with that get_indexed(1) [OF ids(1) r(1)] have "l = LookupCommitted r" by simp
    moreover have "recorded_at (sg_histories g) r" using staging r(1) by (simp add: staging_def list_all_iff)
    ultimately show ?thesis using r(2) by (simp add: lookup_held_def)
  next
    case False
    then show ?thesis using that get_indexed(2) [OF ids(1) False] ok(2) lookup_held_grows [OF _ grown] by (auto simp: indexed_def)
  qed
  then have "indexed C m'" using batches by (simp add: indexed_def fields)
  moreover have "holds_on m m'" using grown kept k by (auto simp: holds_on_def fields map_le_def)
  moreover have "commits C k members receipt m'"
    using bytes encode(2) stored_entries [OF stored] by (simp add: commits_def fields)
  ultimately show ?thesis using ok' receipt(2) by blast
qed

section \<open>Appends and seeds\<close>

text \<open>An append keeps the store's invariant and all it holds, whatever it answers.\<close>

lemma transact_keeps:
  assumes "transact C k members m = Ok (m', outcome)" "recorded_ok C m" "indexed C m"
    and "validate_key k = Ok ()" "distinct (member_ids members)" "\<And>i. k = SingleRecord i \<Longrightarrow> member_ids members = [i]"
      "\<And>member. member \<in> set members \<Longrightarrow> member_validate C member = Ok ()"
  shows "recorded_ok C m' \<and> indexed C m' \<and> holds_on m m'"
proof -
  from assms(1) obtain bytes where bytes: "batch_comparison_bytes C k members = Ok bytes" by (auto simp: transact_def res_simps)
  show ?thesis
  proof (cases "bt_get (me_batches m) k")
    case (Some b)
    then have "m' = m" using assms(1) bytes by (auto simp: transact_def split: if_splits)
    then show ?thesis using assms(2,3) by simp
  next
    case None
    then obtain prior where prior: "prior_entries C (me_records m) members = Ok prior"
      using assms(1) bytes by (auto simp: transact_def res_simps)
    show ?thesis
    proof (cases prior)
      case Nil
      then have "commit_staged C k members bytes m = Ok (m', outcome)"
        using assms(1) bytes None prior by (cases k) (simp_all add: transact_def)
      from commit_keeps [OF this bytes assms(2,3) None assms(4-7)] prior_entries_Nil prior Nil show ?thesis by blast
    next
      case (Cons p ps)
      then have "m' = m"
        using assms(1) bytes None prior by (auto simp: transact_def res_simps split: batch_key.splits prod.splits)
      then show ?thesis using assms(2,3) by simp
    qed
  qed
qed

lemma only_traced:
  assumes "me_instances m' = me_instances m" "me_histories m' = me_histories m" "me_records m' = me_records m"
    "me_batches m' = me_batches m" "me_next_position m' = me_next_position m"
  shows "recorded_ok C m' = recorded_ok C m" "indexed C m' = indexed C m" "holds_on m m'" "holds_on m' m"
    "commits C k members receipt m' = commits C k members receipt m"
  using assms by (simp_all add: recorded_ok_def indexed_def holds_on_def commits_def)

lemma append_keeps:
  assumes "recorded_append C q m = (m', answer)" "recorded_ok C m" "indexed C m"
  shows "recorded_ok C m' \<and> indexed C m' \<and> holds_on m m'"
proof (cases "request_validate C q")
  case (Inl e)
  then show ?thesis using assms by (simp add: recorded_append_def)
next
  case (Inr u)
  show ?thesis
  proof (cases "aq_members q = []")
    case True
    then show ?thesis using assms Inr by (simp add: recorded_append_def)
  next
    case False
    obtain k where k: "aq_key q = Some k" "validate_key k = Ok ()" "distinct (member_ids (aq_members q))"
      "\<And>i. k = SingleRecord i \<Longrightarrow> member_ids (aq_members q) = [i]" "\<And>member. member \<in> set (aq_members q) \<Longrightarrow> member_validate C member = Ok ()"
      using request_valid [OF Inr False] by blast
    let ?m = "trace_call ''append'' (m\<lparr>me_next_script := None\<rparr>)"
    note same = only_traced [of ?m m]
    have start: "recorded_ok C ?m" "indexed C ?m" "holds_on m ?m" using assms(2,3) same by (simp_all add: trace_call_def)
    show ?thesis
    proof (cases "transact C k (aq_members q) ?m")
      case (Inl e)
      then have "m' = ?m" using assms(1) Inr False k(1)
        by (simp add: recorded_append_def append_transaction_def consume_script_def Let_def)
      then show ?thesis using start by simp
    next
      case (Inr r)
      obtain outcome where "r = (m', outcome)" using assms(1) \<open>request_validate C q = Ok u\<close> False k(1) Inr
        by (cases r) (simp add: recorded_append_def append_transaction_def consume_script_def Let_def)
      then show ?thesis using transact_keeps [OF _ start(1,2) k(2-5)] Inr holds_on_trans start(3) by blast
    qed
  qed
qed

definition evidence_ids :: "legacy_evidence list \<Rightarrow> string list" where
  "evidence_ids evidence = concat (map (\<lambda>e. case e of LegacyEnvelope v \<Rightarrow> [entry_record_id (ie_entry v)] | _ \<Rightarrow> []) evidence)"

lemma evidence_ids_Cons:
  "evidence_ids (e # evidence) = (case e of LegacyEnvelope v \<Rightarrow> [entry_record_id (ie_entry v)] | _ \<Rightarrow> []) @ evidence_ids evidence"
  by (simp add: evidence_ids_def)

lemma anchor_evidence_ids: "anchor_ids (ImportedFrom anchor) = evidence_ids (la_evidence anchor)"
  by (simp add: anchor_ids_def evidence_ids_def)

lemma seed_envelope: "seed_evidence (LegacyEnvelope v) records = Ok records' \<longleftrightarrow> entry_validate (ie_entry v) = Ok ()
    \<and> bt_get records (entry_record_id (ie_entry v)) = None
    \<and> records' = bt_insert (entry_record_id (ie_entry v)) (LookupImported v) records"
  by (auto simp: seed_evidence_def bt_contains_def Let_def res_simps split: if_splits)

lemma seed_evidence_keeps:
  assumes "rfold seed_evidence evidence records = Ok records'"
  shows "bt_get records \<subseteq>\<^sub>m bt_get records'"
    "\<forall>i l. bt_get records' i = Some l \<longrightarrow> bt_get records i = Some l
       \<or> (\<exists>v. l = LookupImported v \<and> i = entry_record_id (ie_entry v) \<and> LegacyEnvelope v \<in> set evidence)"
    "distinct (evidence_ids evidence)"
    "dom (bt_get records') = dom (bt_get records) \<union>
       set (evidence_ids evidence)"
    "set (evidence_ids evidence) \<inter> dom (bt_get records) = {}"
proof -
  have "bt_get records \<subseteq>\<^sub>m bt_get records' \<and> (\<forall>i l. bt_get records' i = Some l \<longrightarrow> bt_get records i = Some l
       \<or> (\<exists>v. l = LookupImported v \<and> i = entry_record_id (ie_entry v) \<and> LegacyEnvelope v \<in> set evidence))
     \<and> distinct (evidence_ids evidence) \<and> dom (bt_get records') = dom (bt_get records) \<union> set (evidence_ids evidence)
     \<and> set (evidence_ids evidence) \<inter> dom (bt_get records) = {}" (is "?all evidence records records'")
    using assms
  proof (induction evidence arbitrary: records)
    case (Cons e evidence)
    show ?case
    proof (cases e)
      case (LegacyEnvelope v)
      let ?i = "entry_record_id (ie_entry v)"
      let ?records = "bt_insert ?i (LookupImported v) records"
      from Cons.prems LegacyEnvelope have new: "bt_get records ?i = None" and rest: "rfold seed_evidence evidence ?records = Ok records'"
        by (auto simp: seed_envelope res_simps)
      note IH = Cons.IH [OF rest]
      have "bt_get records \<subseteq>\<^sub>m bt_get ?records" using new by (auto simp: map_le_def)
      then have "bt_get records \<subseteq>\<^sub>m bt_get records'" using IH map_le_trans by blast
      moreover have "\<forall>i l. bt_get records' i = Some l \<longrightarrow> bt_get records i = Some l
         \<or> (\<exists>v. l = LookupImported v \<and> i = entry_record_id (ie_entry v) \<and> LegacyEnvelope v \<in> set (e # evidence))"
        using IH LegacyEnvelope by (auto split: if_splits)
      moreover have keys: "dom (bt_get ?records) = insert ?i (dom (bt_get records))" by auto
      have "?i \<notin> set (evidence_ids evidence)" using IH unfolding keys by blast
      then have "distinct (evidence_ids (e # evidence))" using IH LegacyEnvelope by (simp add: evidence_ids_Cons)
      moreover have "dom (bt_get records') = dom (bt_get records) \<union> set (evidence_ids (e # evidence))"
        using IH unfolding keys by (auto simp: evidence_ids_Cons LegacyEnvelope)
      moreover have "set (evidence_ids (e # evidence)) \<inter> dom (bt_get records) = {}"
        using IH new unfolding keys by (auto simp: evidence_ids_Cons LegacyEnvelope)
      ultimately show ?thesis by (intro conjI)
    next
      case (LegacyDecision r)
      then show ?thesis using Cons by (auto simp: seed_evidence_def evidence_ids_def)
    next
      case (LegacyEvent ev)
      then show ?thesis using Cons by (auto simp: seed_evidence_def evidence_ids_def)
    qed
  qed (simp add: evidence_ids_def)
  then show "bt_get records \<subseteq>\<^sub>m bt_get records'"
    "\<forall>i l. bt_get records' i = Some l \<longrightarrow> bt_get records i = Some l
       \<or> (\<exists>v. l = LookupImported v \<and> i = entry_record_id (ie_entry v) \<and> LegacyEnvelope v \<in> set evidence)"
    "distinct (evidence_ids evidence)" "dom (bt_get records') = dom (bt_get records) \<union> set (evidence_ids evidence)"
    "set (evidence_ids evidence) \<inter> dom (bt_get records) = {}" by blast+
qed

lemma same_distinct: "mset xs = mset ys \<Longrightarrow> distinct (map f xs) \<longleftrightarrow> distinct (map f ys)"
  by (rule mset_eq_imp_distinct_iff) (simp only: mset_map)

lemma evidence_subject:
  assumes "sh_origin h = ImportedFrom anchor" "validate_imported_boundary s (sh_origin h) = Ok ()" "LegacyEnvelope v \<in> set (la_evidence anchor)"
  shows "entry_subject (ie_entry v) = s"
proof -
  have "rfold (check_evidence s anchor) evidence ids = Ok ids' \<Longrightarrow> LegacyEnvelope v \<in> set evidence \<Longrightarrow> entry_subject (ie_entry v) = s"
    for evidence ids ids'
  proof (induction evidence arbitrary: ids)
    case (Cons e evidence)
    then show ?case by (auto simp: check_evidence_def check_envelope_def Let_def res_simps split: legacy_evidence.splits)
  qed simp
  then show ?thesis using assms by (auto simp: validate_imported_boundary_def res_simps)
qed

lemma seed_keeps:
  assumes "seed_imported h m = Ok m'" and ok: "recorded_ok C m" "indexed C m"
  shows "recorded_ok C m' \<and> indexed C m' \<and> holds_on m m'"
proof -
  let ?s = "sh_subject h" and ?H = "me_histories m"
  from assms(1) obtain anchor records where origin: "sh_origin h = ImportedFrom anchor" and empty: "sh_records h = []"
    and valid: "validate_subject ?s = Ok ()" "validate_imported_boundary ?s (sh_origin h) = Ok ()"
    and absent: "bt_get ?H ?s = None"
    and records: "rfold seed_evidence (la_evidence anchor) (me_records m) = Ok records"
    and m': "m' = m\<lparr>me_records := records, me_instances := bt_insert ?s (la_instance anchor) (me_instances m),
      me_histories := bt_insert ?s h ?H\<rparr>"
    by (auto simp: seed_imported_def Let_def bt_contains_def res_simps split: history_origin.splits)
  note seeded = seed_evidence_keeps [OF records]
  let ?H' = "bt_insert ?s h ?H" and ?state = "(bt_get (me_instances m))(?s \<mapsto> la_instance anchor)"
  have histories: "histories_ok C ?H (bt_get (me_instances m)) (me_next_position m)" and sorted: "sorted_keys ?H"
    using ok(1) by (simp_all add: recorded_ok_def histories_ok_def)
  have at_s: "history_at ?H ?s = history_new ?s" using absent by (simp add: history_at_def)
  have same: "mset (each_held sh_records ?H') = mset (each_held sh_records ?H)"
    using held_insert [OF sorted, of sh_records ?s h] by (simp add: at_s history_new_def empty)
  have ids: "mset (each_held history_ids ?H') = mset (evidence_ids (la_evidence anchor) @ each_held history_ids ?H)"
    using held_insert [OF sorted, of history_ids ?s h]
    by (simp add: at_s history_new_def history_ids_def empty origin anchor_evidence_ids anchor_ids_def [of Genesis])
  have new_ids: "set (each_held history_ids ?H') = set (evidence_ids (la_evidence anchor)) \<union> set (each_held history_ids ?H)"
    using mset_eq_setD [OF ids] by simp
  have recs: "set (each_held sh_records ?H') = set (each_held sh_records ?H)" by (rule mset_eq_setD [OF same])
  have "verifies C h (Some (la_instance anchor))"
    using valid by (simp add: verifies_def empty origin origin_state_def last_position_def)
  moreover have "\<not> branched h" by (simp add: branched_def empty)
  ultimately have "each_verifies C ?H' ?state"
    using histories sorted by (simp add: each_verifies_get histories_ok_def)
  moreover have "distinct (each_held history_ids ?H')"
    using mset_eq_imp_distinct_iff [OF ids] histories seeded(3,5) ok(1) by (auto simp: histories_ok_def recorded_ok_def)
  moreover have "distinct (map store_position (each_held sh_records ?H')) \<and> distinct (map coordinate (each_held sh_records ?H'))"
    using histories by (simp add: histories_ok_def same_distinct [OF same])
  ultimately have "histories_ok C ?H' ?state (me_next_position m)"
    using histories by (auto simp: histories_ok_def recs ordered_members_def)
  moreover have "bt_get (me_instances m') = ?state" by (simp add: m' fun_eq_iff)
  ultimately have "recorded_ok C m'"
    using ok(1) seeded(4) by (auto simp: recorded_ok_def m' new_ids recs)
  moreover have grown: "grows ?H ?H'" using absent by (auto simp: grows_def intro: exI [of _ "[]"])
  moreover have "lookup_held ?H' i l" if found: "bt_get records i = Some l" for i l
  proof (cases "bt_get (me_records m) i = Some l")
    case True
    then show ?thesis using ok(2) lookup_held_grows [OF _ grown] by (auto simp: indexed_def)
  next
    case False
    then obtain v where v: "l = LookupImported v" "i = entry_record_id (ie_entry v)" "LegacyEnvelope v \<in> set (la_evidence anchor)"
      using seeded(2) found by blast
    have "entry_subject (ie_entry v) = ?s"
      using valid(2) v(3) by (rule evidence_subject [OF origin])
    then have "evidence_at ?H' v" using v(3) origin by (simp add: evidence_at_def history_at_def)
    then show ?thesis using v(1,2) by (simp add: lookup_held_def)
  qed
  ultimately show ?thesis
    using ok(2) seeded(1) batch_held_extends [OF _ seeded(1)] by (simp add: indexed_def holds_on_def m')
qed

section \<open>The states a reference store reaches\<close>

text \<open>Its steps: an append, whatever it answers; a seed; a read; and a script for the next append. The store starts empty.\<close>

inductive recorded_step :: "codec \<Rightarrow> recorded_memory \<Rightarrow> recorded_memory \<Rightarrow> bool" for C where
  appends: "recorded_append C q m = (m', answer) \<Longrightarrow> recorded_step C m m'"
| seeds: "seed_imported h m = Ok m' \<Longrightarrow> recorded_step C m m'"
| reads: "recorded_step C m (trace_call operation m)"
| scripts: "recorded_step C m (script_next_append script m)"
| clears: "recorded_step C m (clear_trace m)"

inductive recorded_runs :: "codec \<Rightarrow> recorded_memory \<Rightarrow> recorded_memory \<Rightarrow> bool" for C where
  stays: "recorded_runs C m m"
| runs: "recorded_runs C m m' \<Longrightarrow> recorded_step C m' m'' \<Longrightarrow> recorded_runs C m m''"

abbreviation recorded_reachable :: "codec \<Rightarrow> recorded_memory \<Rightarrow> bool" where
  "recorded_reachable C \<equiv> recorded_runs C recorded_new"

inductive_cases recorded_step_cases: "recorded_step C m m'"

lemma recorded_runs_trans: "recorded_runs C m' m'' \<Longrightarrow> recorded_runs C m m' \<Longrightarrow> recorded_runs C m m''"
  by (induction rule: recorded_runs.induct) (auto intro: recorded_runs.intros)

lemma step_keeps:
  assumes "recorded_step C m m'" "recorded_ok C m" "indexed C m"
  shows "recorded_ok C m' \<and> indexed C m' \<and> holds_on m m'"
  using assms(1)
proof cases
  case (appends q answer)
  then show ?thesis using append_keeps assms(2,3) by blast
next
  case (seeds h)
  then show ?thesis using seed_keeps assms(2,3) by blast
next
  case (reads operation)
  then show ?thesis using only_traced [of m' m] assms(2,3) by (simp add: trace_call_def)
next
  case (scripts script)
  then show ?thesis using only_traced [of m' m] assms(2,3) by (simp add: script_next_append_def)
next
  case clears
  then show ?thesis using only_traced [of m' m] assms(2,3) by (simp add: clear_trace_def)
qed

lemma new_ok: "recorded_ok C recorded_new" "indexed C recorded_new"
  by (simp_all add: recorded_ok_def indexed_def recorded_new_def histories_ok_def each_verifies_def ordered_members_def)

lemma runs_keep:
  assumes "recorded_runs C m m'" "recorded_ok C m" "indexed C m"
  shows "recorded_ok C m' \<and> indexed C m' \<and> holds_on m m'"
  using assms
proof (induction rule: recorded_runs.induct)
  case (runs m m' m'')
  then show ?case using step_keeps holds_on_trans by blast
qed simp

lemma reachable_ok: "recorded_reachable C m \<Longrightarrow> recorded_ok C m \<and> indexed C m"
  using runs_keep new_ok by blast

text \<open>What the store captures of itself is its histories at the states they reached, and verifies.\<close>

lemma captured:
  assumes "recorded_ok C m"
  shows "snd (complete_snapshot scope m) = Ok \<lparr>cs_scope = scope, cs_coverage = CompleteSnapshot,
    cs_histories = subject_snapshots (bt_get (me_instances m)) (me_histories m)\<rparr>"
proof -
  have "rmap (snapshot_of m) histories = Ok (subject_snapshots (bt_get (me_instances m)) histories)"
    if "each_verifies C histories (bt_get (me_instances m))" for histories
    using that
  proof (induction histories)
    case (Cons sh histories)
    then show ?case by (cases sh) (auto simp: each_verifies_def snapshot_of_def subject_snapshots_def)
  qed (simp add: subject_snapshots_def)
  then show ?thesis using assms by (auto simp: complete_snapshot_def recorded_ok_def histories_ok_def)
qed

lemma reachable_verifies:
  assumes "recorded_reachable C m" "\<not> is_blank scope"
  shows "verify_complete_store C (\<lambda>scope. snd (complete_snapshot scope m)) scope
    = Ok \<lparr>sa_scope = scope, sa_coverage = CompleteSnapshot, sa_subjects = map (\<lambda>(_, h). assured h) (me_histories m)\<rparr>"
proof -
  have ok: "recorded_ok C m" using reachable_ok [OF assms(1)] by blast
  then have "histories_ok C (me_histories m) (bt_get (me_instances m)) (me_next_position m)" by (simp add: recorded_ok_def)
  from histories_verify [OF this assms(2)] show ?thesis
    using assms(2) by (simp add: verify_complete_store_def captured [OF ok] ensure_def)
qed

section \<open>Retries\<close>

definition as_replayed :: "append_outcome \<Rightarrow> append_outcome" where
  "as_replayed a = (case a of AppendCommitted receipt _ \<Rightarrow> AppendCommitted receipt True | _ \<Rightarrow> a)"

lemma holds_batch: "bt_get (me_batches m) k = Some b \<Longrightarrow> holds_on m m' \<Longrightarrow> bt_get (me_batches m') k = Some b"
  by (auto simp: holds_on_def map_le_def dest: bspec [OF _ domI])

lemma holds_record: "bt_get (me_records m) i = Some l \<Longrightarrow> holds_on m m' \<Longrightarrow> bt_get (me_records m') i = Some l"
  by (auto simp: holds_on_def map_le_def dest: bspec [OF _ domI])

text \<open>A batch that was committed is answered with its original receipt by every later append of the same request.\<close>

lemma batch_replays:
  assumes "commits C k members receipt m"
  shows "transact C k members m = Ok (m, AppendCommitted receipt True)"
proof -
  from assms(1) obtain b where b: "bt_get (me_batches m) k = Some b" "sb_receipt b = receipt"
    "batch_comparison_bytes C k members = Ok (sb_comparison_bytes b)"
    "map sr_request_bytes (sb_records b) = map am_request_bytes members" by (auto simp: commits_def)
  have "length (sb_records b) = length members" using b(4) by (metis length_map)
  moreover have "list_all (\<lambda>(stored, requested). sr_request_bytes stored = am_request_bytes requested) (zip (sb_records b) members)"
    using b(4) by (auto simp: list_all_iff list_eq_iff_nth_eq set_zip)
  ultimately have "same_batch b (sb_comparison_bytes b) members" by (simp add: same_batch_def)
  then show ?thesis using b by (simp add: transact_def)
qed

text \<open>A record found before its batch key was ever used keeps the key unused.\<close>

lemma key_stays_unused:
  assumes "bt_get (me_records m) i = Some l" "bt_get (me_batches m) (SingleRecord i) = None"
    "recorded_ok C m" "indexed C m" "indexed C m'" "holds_on m m'"
  shows "bt_get (me_batches m') (SingleRecord i) = None"
proof (rule ccontr)
  assume "bt_get (me_batches m') (SingleRecord i) \<noteq> None"
  then obtain b where "bt_get (me_batches m') (SingleRecord i) = Some b" by blast
  then have "batch_held C (me_records m') (SingleRecord i) b" using assms(5) by (simp add: indexed_def)
  then have b: "map record_id (sb_records b) = [i]" "\<forall>r \<in> set (sb_records b). bt_get (me_records m') (record_id r) = Some (LookupCommitted r)"
    "map coordinate (sb_records b) = map (\<lambda>j. (SingleRecord i, of_nat j)) [0..<length (sb_records b)]"
    by (simp_all add: batch_held_def)
  from b(1) obtain r where "sb_records b = [r]" "record_id r = i" by auto
  with b(2,3) have r: "record_id r = i" "bt_get (me_records m') i = Some (LookupCommitted r)" "member_key r = SingleRecord i"
    by (simp_all add: coordinate_def)
  then have "l = LookupCommitted r" using holds_record [OF assms(1,6)] by simp
  then have "lookup_held (me_histories m) i (LookupCommitted r)" using assms(1,4) by (simp add: indexed_def)
  then have "recorded_at (me_histories m) r" by (simp add: lookup_held_def)
  then have "r \<in> set (each_held sh_records (me_histories m))"
    unfolding recorded_at_def by (rule held_at) (simp add: history_new_def)
  then show False using assms(2,3) r(3) by (force simp: recorded_ok_def)
qed

lemma same_assurance:
  assumes "imported_assurance m v = Ok a" "holds_on m m'"
  shows "imported_assurance m' v = Ok a"
proof -
  from assms(1) obtain h where h: "bt_get (me_histories m) (entry_subject (ie_entry v)) = Some h" "verify_imported_record h v = Ok a"
    by (auto simp: imported_assurance_def Let_def res_simps)
  then obtain rs where "bt_get (me_histories m') (entry_subject (ie_entry v)) = Some (h\<lparr>sh_records := sh_records h @ rs\<rparr>)"
    using assms(2) by (auto simp: holds_on_def grows_def)
  moreover have "verify_imported_record (h\<lparr>sh_records := sh_records h @ rs\<rparr>) v = verify_imported_record h v"
    by (simp add: verify_imported_record_def Let_def cong: history_origin.case_cong)
  ultimately show ?thesis using h(2) by (simp add: imported_assurance_def Let_def)
qed

lemma transact_settles:
  assumes step: "transact C k members m = Ok (m', outcome)" and ok: "recorded_ok C m" "indexed C m"
    and request: "validate_key k = Ok ()" "distinct (member_ids members)" "\<And>i. k = SingleRecord i \<Longrightarrow> member_ids members = [i]"
      "\<And>member. member \<in> set members \<Longrightarrow> member_validate C member = Ok ()"
    and later: "holds_on m' m''" "indexed C m''"
  shows "transact C k members m'' = Ok (m'', as_replayed outcome)"
proof -
  from step obtain bytes where bytes: "batch_comparison_bytes C k members = Ok bytes" by (auto simp: transact_def res_simps)
  show ?thesis
  proof (cases "bt_get (me_batches m) k")
    case (Some b)
    then have same: "m' = m" "outcome = AppendCommitted (sb_receipt b) True" "same_batch b bytes members"
      using step bytes by (auto simp: transact_def split: if_splits)
    then show ?thesis using holds_batch [OF Some] later(1) bytes by (simp add: transact_def as_replayed_def)
  next
    case None
    then obtain prior where prior: "prior_entries C (me_records m) members = Ok prior"
      using step bytes by (auto simp: transact_def res_simps)
    show ?thesis
    proof (cases prior)
      case Nil
      then have "commit_staged C k members bytes m = Ok (m', outcome)" using step bytes None prior by (cases k) (simp_all add: transact_def)
      from commit_keeps [OF this bytes ok None request] prior_entries_Nil prior Nil
      obtain receipt where "outcome = AppendCommitted receipt False" "commits C k members receipt m'" by blast
      then show ?thesis using batch_replays commits_holds later(1) by (simp add: as_replayed_def)
    next
      case (Cons p ps)
      then obtain i where k: "k = SingleRecord i" using step bytes None prior by (cases k) (auto simp: transact_def split: prod.splits)
      from request(3) [OF k] obtain member where members: "members = [member]" and i: "entry_record_id (am_entry member) = i"
        by (auto simp: member_ids_def)
      from prior Cons members i obtain l where l: "bt_get (me_records m) i = Some l" "same_record C l member = Ok True" "prior = [(0, l)]"
        by (auto simp: prior_entries_def prior_entry_def res_simps split: option.splits if_splits)
      have step': "recorded_before m l = Ok outcome" "m' = m"
        using step bytes None prior l(3) k by (auto simp: transact_def res_simps)
      have now: "bt_get (me_records m'') i = Some l" using holds_record [OF l(1)] later(1) step'(2) by simp
      have "bt_get (me_batches m'') k = None"
        using key_stays_unused [OF l(1) _ ok later(2)] None k later(1) step'(2) by simp
      moreover have "prior_entries C (me_records m'') members = Ok [(0, l)]"
        using now l(2) by (simp add: members i prior_entries_def prior_entry_def)
      moreover have "recorded_before m'' l = Ok (as_replayed outcome)"
        using step'(1) later(1) same_assurance [of m _ _ m''] unfolding step'(2)
        by (auto simp: recorded_before_def as_replayed_def res_simps split: record_lookup.splits)
      ultimately show ?thesis using bytes k by (simp add: transact_def)
    qed
  qed
qed

text \<open>An append either is refused and changes nothing, or every later append of the request is answered as it was.\<close>

lemma append_settles:
  assumes append: "recorded_append C q m = (m', answer)" and ok: "recorded_ok C m" "indexed C m"
    and answered: "\<And>e. answer \<noteq> Some (Err (NotCommitted e))"
    and later: "holds_on m' m''" "indexed C m''" "me_next_script m'' = None"
  shows "\<exists>outcome trace. recorded_append C q m'' = (m''\<lparr>me_trace := trace\<rparr>, Some (Ok (as_replayed outcome)))
    \<and> answer = (if aq_members q = [] then Some (Ok AppendEmpty) else scripted (me_next_script m) (aq_key q) outcome)"
proof (cases "request_validate C q")
  case (Inl e)
  then show ?thesis using append answered by (auto simp: recorded_append_def)
next
  case (Inr u)
  show ?thesis
  proof (cases "aq_members q = []")
    case True
    then show ?thesis using append Inr
      by (auto simp: recorded_append_def as_replayed_def intro!: exI [of _ AppendEmpty] exI [of _ "me_trace m''"])
  next
    case False
    obtain k where k: "aq_key q = Some k" "validate_key k = Ok ()" "distinct (member_ids (aq_members q))"
      "\<And>i. k = SingleRecord i \<Longrightarrow> member_ids (aq_members q) = [i]" "\<And>member. member \<in> set (aq_members q) \<Longrightarrow> member_validate C member = Ok ()"
      using request_valid [OF Inr False] by blast
    let ?m = "trace_call ''append'' (m\<lparr>me_next_script := None\<rparr>)" and ?m'' = "trace_call ''append'' m''"
    have start: "recorded_ok C ?m" "indexed C ?m" using ok only_traced [of ?m m] by (simp_all add: trace_call_def)
    have finish: "indexed C ?m''" "holds_on m'' ?m''" using later(2) only_traced [of ?m'' m''] by (simp_all add: trace_call_def)
    show ?thesis
    proof (cases "transact C k (aq_members q) ?m")
      case (Inl e)
      then show ?thesis using append answered Inr False k(1)
        by (auto simp: recorded_append_def append_transaction_def consume_script_def Let_def)
    next
      case step: (Inr r)
      obtain outcome where r: "r = (m', outcome)" and answer: "answer = scripted (me_next_script m) (Some k) outcome"
        using append Inr False k(1) step
        by (cases r) (simp add: recorded_append_def append_transaction_def consume_script_def Let_def)
      have consume: "consume_script m'' = (m'', None)" using later(3) by (simp add: consume_script_def)
      have "recorded_append C q m'' = (?m'', Some (Ok (as_replayed outcome)))"
        using transact_settles [OF step [unfolded r] start k(2-5) holds_on_trans [OF later(1) finish(2)] finish(1)] Inr False k(1)
        by (simp add: recorded_append_def append_transaction_def consume scripted_def Let_def)
      then show ?thesis using answer False k(1) by (auto simp: trace_call_def)
    qed
  qed
qed

lemma refused_append_changes_nothing:
  assumes "recorded_append C q m = (m', Some (Err (NotCommitted e)))"
  shows "m' = m\<lparr>me_trace := me_trace m', me_next_script := me_next_script m'\<rparr>"
proof -
  have "scripted script (Some k) outcome \<noteq> Some (Err (NotCommitted e))" for script k outcome
    by (simp add: scripted_def split: option.split append_script.split)
  then show ?thesis using assms
    by (auto simp: recorded_append_def append_transaction_def consume_script_def trace_call_def Let_def split: sum.splits if_splits option.splits)
qed

end
