(* ===== verification/Executed.thy ===== *)
theory Executed
  imports Execution Reached
begin

text \<open>
  What the executor guarantees over a store that reads what it holds (the locale \<open>readable_store\<close>, interpreted on the
  reference store): recovery recognises what a batch committed, and an answer given or lost once stands.
\<close>

section \<open>Tasks that only read\<close>

text \<open>A task that answers, and leaves a state that is the same to every reader.\<close>

definition reading :: "('s \<Rightarrow> 's \<Rightarrow> bool) \<Rightarrow> ('s, 'e, 'a) task \<Rightarrow> bool" where
  "reading same t \<longleftrightarrow> (\<forall>m. \<exists>m' r. t m = (m', Some r) \<and> same m m')"

definition reads_as :: "('s \<Rightarrow> 's \<Rightarrow> bool) \<Rightarrow> 's \<Rightarrow> ('s, 'e, 'a) task \<Rightarrow> ('e, 'a) result \<Rightarrow> bool" where
  "reads_as same m t r \<longleftrightarrow> (\<exists>m'. t m = (m', Some r) \<and> same m m')"

lemma awaited_simps: "awaited t f m = (case t m of (m', Some r) \<Rightarrow> f r m' | (m', None) \<Rightarrow> (m', None))"
  by (simp add: awaited_def)

lemma ready_simps [simp]: "ready r m = (m, Some r)"
  by (simp add: ready_def)

lemma tbind_cases:
  assumes "tbind t f m = (m'', answer)"
  obtains x m' where "t m = (m', Some (Ok x))" "f x m' = (m'', answer)"
    | e where "t m = (m'', Some (Err e))" "answer = Some (Err e)"
    | "t m = (m'', None)" "answer = None"
proof -
  obtain m' r where t: "t m = (m', r)" by (cases "t m")
  with assms that show thesis
    by (cases r) (auto simp: tbind_def awaited_def split: sum.splits)
qed

lemma tbind_Ok: "t m = (m', Some (Ok x)) \<Longrightarrow> tbind t f m = f x m'"
  by (simp add: tbind_def awaited_def)

text \<open>What a record found on its own is answered with.\<close>

definition prior_outcome :: "record_lookup \<Rightarrow> subject_assurance option \<Rightarrow> append_outcome" where
  "prior_outcome l assurance = (case l of
     LookupCommitted stored \<Rightarrow> AppendCommitted (SingleReceipt (sr_receipt stored)) True
   | LookupImported v \<Rightarrow> AppendHistorical v (the assurance))"

section \<open>The interface of a readable store\<close>

locale readable_store =
  fixes P :: "'s ports"
    and instances :: "'s \<Rightarrow> subject \<Rightarrow> entity_instance option"
    and records :: "'s \<Rightarrow> string \<Rightarrow> record_lookup option"
    and batches :: "'s \<Rightarrow> batch_key \<Rightarrow> stored_batch option"
    and histories :: "'s \<Rightarrow> subject \<Rightarrow> subject_history"
    and same :: "'s \<Rightarrow> 's \<Rightarrow> bool"
  assumes loads: "reads_as same m (pt_load P s) (Ok (instances m s))"
    and looks_up: "reads_as same m (pt_lookup_record P i) (Ok (records m i))"
    and finds_batch: "reads_as same m (pt_lookup_batch P k) (Ok (batches m k))"
    and reads_history: "reads_as same m (pt_history P s) (Ok (histories m s))"
    and same_refl: "same m m"
    and same_trans: "same m m' \<Longrightarrow> same m' m'' \<Longrightarrow> same m m''"
    and same_views: "same m m' \<Longrightarrow> instances m' = instances m \<and> records m' = records m \<and> batches m' = batches m \<and> histories m' = histories m"
begin

lemma reading_ready: "reading same (ready r)"
  using same_refl by (auto simp: reading_def)

lemma reading_awaited:
  assumes "reading same t" "\<And>r. reading same (f r)"
  shows "reading same (awaited t f)"
  unfolding reading_def
proof
  fix m
  from assms(1) obtain m' r where t: "t m = (m', Some r)" "same m m'" unfolding reading_def by blast
  from assms(2) obtain m'' r' where f: "f r m' = (m'', Some r')" "same m' m''" unfolding reading_def by blast
  show "\<exists>m' r. awaited t f m = (m', Some r) \<and> same m m'"
    using t f same_trans by (auto simp: awaited_def)
qed

lemma reading_tbind: "reading same t \<Longrightarrow> (\<And>x. reading same (f x)) \<Longrightarrow> reading same (tbind t f)"
  unfolding tbind_def by (rule reading_awaited) (auto intro: reading_ready split: sum.split)

lemma reading_tfold: "(\<And>x a. x \<in> set xs \<Longrightarrow> reading same (f x a)) \<Longrightarrow> reading same (tfold f xs a)"
  by (induction xs arbitrary: a) (auto intro!: reading_ready reading_tbind)

lemma reading_ports: "reading same (pt_load P s)" "reading same (pt_lookup_record P i)" "reading same (pt_lookup_batch P k)"
  "reading same (pt_history P s)"
  using loads looks_up finds_batch reads_history unfolding reading_def reads_as_def by blast+

lemmas reading_intros = reading_ready reading_awaited reading_tbind reading_tfold reading_ports

lemma reading_recovery_parts: "reading same (verify_committed_prefix C P stored)" "reading same (verify_imported P v)"
  unfolding verify_committed_prefix_def verify_imported_def Let_def by (intro reading_intros)+

lemma reading_recovery: "reading same (recover_existing C P k actions)"
proof -
  note prefix = reading_recovery_parts(1)
  have "reading same (recover_record C P x prior)" for x prior
    by (auto simp: recover_record_def split: prod.split sum.split option.split record_lookup.split intro!: reading_intros reading_recovery_parts)
  moreover have "reading same (recover_member C P x u)" for x u
    by (auto simp: recover_member_def split: prod.split sum.split intro!: reading_intros prefix)
  ultimately show ?thesis
    by (auto simp: recover_existing_def split: sum.split option.split intro!: reading_intros)
qed

lemma reading_decision: "reading same (decide_member C R P a decided)"
  by (cases decided) (auto simp: decide_member_def decide_merge_def merge_base_at_def loaded_overlay_def
    split: sum.split batch_action.split intro!: reading_intros)

lemma reading_decisions: "reading same (tfold (decide_member C R P) actions decided)"
  using reading_decision by (blast intro: reading_tfold)

text \<open>What the ports answer, at any state that reads as \<open>m\<close>.\<close>

lemma load_reads:
  assumes "same m m1"
  obtains m2 where "pt_load P x m1 = (m2, Some (Ok (instances m x)))" "same m m2"
  using loads [of m1 x] same_views [OF assms] same_trans [OF assms] that by (auto simp: reads_as_def)

lemma record_reads:
  assumes "same m m1"
  obtains m2 where "pt_lookup_record P x m1 = (m2, Some (Ok (records m x)))" "same m m2"
  using looks_up [of m1 x] same_views [OF assms] same_trans [OF assms] that by (auto simp: reads_as_def)

lemma batch_reads:
  assumes "same m m1"
  obtains m2 where "pt_lookup_batch P x m1 = (m2, Some (Ok (batches m x)))" "same m m2"
  using finds_batch [of m1 x] same_views [OF assms] same_trans [OF assms] that by (auto simp: reads_as_def)

lemma history_reads:
  assumes "same m m1"
  obtains m2 where "pt_history P x m1 = (m2, Some (Ok (histories m x)))" "same m m2"
  using reads_history [of m1 x] same_views [OF assms] same_trans [OF assms] that by (auto simp: reads_as_def)

text \<open>A record whose history holds it, and verifies up to it.\<close>

definition prefix_stands :: "codec \<Rightarrow> 's \<Rightarrow> stored_record \<Rightarrow> bool" where
  "prefix_stands C m r \<longleftrightarrow> find (\<lambda>x. entry_record_id (sr_entry x) = entry_record_id (sr_entry r))
       (sh_records (histories m (entry_subject (sr_entry r)))) = Some r
     \<and> (\<exists>a. verify_subject_prefix C (histories m (entry_subject (sr_entry r))) (entry_record_id (sr_entry r)) = Ok a)"

lemma prefix_verifies:
  assumes "same m m1" "prefix_stands C m r"
  obtains m2 where "verify_committed_prefix C P r m1 = (m2, Some (Ok ()))" "same m m2"
proof -
  obtain m2 where "pt_history P (entry_subject (sr_entry r)) m1 = (m2, Some (Ok (histories m (entry_subject (sr_entry r)))))" "same m m2"
    by (rule history_reads [OF assms(1)])
  then show thesis using assms(2) that
    by (auto simp: verify_committed_prefix_def awaited_def prefix_stands_def map_err_def Let_def ensure_def)
qed

lemma members_recover:
  assumes "same m m1" "list_all2 (\<lambda>a r. match_committed C a r = Ok () \<and> records m (entry_record_id (sr_entry r)) = Some (LookupCommitted r)
    \<and> prefix_stands C m r) actions rs"
  obtains m2 where "tfold (recover_member C P) (zip actions rs) () m1 = (m2, Some (Ok ()))" "same m m2"
proof -
  have "\<exists>m2. tfold (recover_member C P) (zip actions rs) () m1 = (m2, Some (Ok ())) \<and> same m m2"
    using assms(2,1)
  proof (induction arbitrary: m1 rule: list_all2_induct)
    case (Cons a actions r rs)
    obtain m2 where m2: "pt_lookup_record P (entry_record_id (sr_entry r)) m1 = (m2, Some (Ok (records m (entry_record_id (sr_entry r)))))"
      "same m m2" by (rule record_reads [OF Cons.prems])
    obtain m3 where m3: "verify_committed_prefix C P r m2 = (m3, Some (Ok ()))" "same m m3"
      using prefix_verifies [OF m2(2)] Cons.hyps(1) by blast
    have "recover_member C P (a, r) () m1 = (m3, Some (Ok ()))"
      using Cons.hyps(1) m2(1) m3(1) by (simp add: recover_member_def awaited_def map_err_def ensure_def)
    moreover obtain m4 where "tfold (recover_member C P) (zip actions rs) () m3 = (m4, Some (Ok ()))" "same m m4"
      using Cons.IH [OF m3(2)] by blast
    ultimately show ?case by (auto simp: tbind_def awaited_def)
  qed auto
  then show thesis using that by blast
qed

lemma batch_recovers:
  assumes "batches m k = Some b" "validate_stored_batch C k (length actions) b = Ok ()"
    and "list_all2 (\<lambda>a r. match_committed C a r = Ok () \<and> records m (entry_record_id (sr_entry r)) = Some (LookupCommitted r)
      \<and> prefix_stands C m r) actions (sb_records b)"
  shows "reads_as same m (recover_existing C P k actions) (Ok (Some (AppendCommitted (sb_receipt b) True)))"
proof -
  obtain m1 where m1: "pt_lookup_batch P k m = (m1, Some (Ok (Some b)))" "same m m1"
    using finds_batch [of m k] assms(1) by (auto simp: reads_as_def)
  obtain m2 where "tfold (recover_member C P) (zip actions (sb_records b)) () m1 = (m2, Some (Ok ()))" "same m m2"
    by (rule members_recover [OF m1(2) assms(3)])
  then show ?thesis
    using m1(1) assms(2) by (auto simp: reads_as_def recover_existing_def awaited_def tbind_def)
qed

text \<open>Conversely, what a recovery that answers has found.\<close>

definition found :: "codec \<Rightarrow> 's \<Rightarrow> bound_action \<Rightarrow> record_lookup \<Rightarrow> subject_assurance option \<Rightarrow> bool" where
  "found C m a l assurance \<longleftrightarrow> records m (bound_record_id a) = Some l \<and> (case l of
     LookupCommitted stored \<Rightarrow> match_committed C a stored = Ok () \<and> assurance = None
   | LookupImported v \<Rightarrow> match_imported C a v = Ok ()
       \<and> (\<exists>x. verify_imported_record (histories m (entry_subject (ie_entry v))) v = Ok x \<and> assurance = Some x))"

lemma record_step:
  assumes "same m m1" "recover_record C P (index, a) prior m1 = (m2, Some (Ok prior'))"
  shows "same m m2 \<and> (records m (bound_record_id a) = None \<and> prior' = prior
    \<or> (\<exists>l assurance. found C m a l assurance \<and> prior' = prior @ [(of_nat index, l, assurance)]))"
proof -
  obtain m3 where m3: "pt_lookup_record P (bound_record_id a) m1 = (m3, Some (Ok (records m (bound_record_id a))))" "same m m3"
    by (rule record_reads [OF assms(1)])
  show ?thesis
  proof (cases "records m (bound_record_id a)")
    case None
    then show ?thesis using assms(2) m3 by (simp add: recover_record_def awaited_def)
  next
    case (Some l)
    show ?thesis
    proof (cases l)
      case (LookupCommitted stored)
      have matched: "match_committed C a stored = Ok ()"
        using assms(2) m3 Some LookupCommitted by (cases "match_committed C a stored") (simp_all add: recover_record_def awaited_def)
      then have step: "tbind (verify_committed_prefix C P stored) (\<lambda>_. ready (Ok (prior @ [(of_nat index, LookupCommitted stored, None)]))) m3
          = (m2, Some (Ok prior'))"
        using assms(2) m3 Some LookupCommitted by (simp add: recover_record_def awaited_def)
      obtain m4 r where m4: "verify_committed_prefix C P stored m3 = (m4, Some r)" "same m3 m4"
        using reading_recovery_parts(1) unfolding reading_def by blast
      with step have "m2 = m4" "prior' = prior @ [(of_nat index, LookupCommitted stored, None)]"
        by (auto simp: tbind_def awaited_def split: sum.splits)
      then show ?thesis using matched Some LookupCommitted same_trans [OF m3(2) m4(2)] by (auto simp: found_def)
    next
      case (LookupImported v)
      have matched: "match_imported C a v = Ok ()"
        using assms(2) m3 Some LookupImported by (cases "match_imported C a v") (simp_all add: recover_record_def awaited_def)
      then have step: "tbind (verify_imported P v) (\<lambda>x. ready (Ok (prior @ [(of_nat index, LookupImported v, Some x)]))) m3
          = (m2, Some (Ok prior'))"
        using assms(2) m3 Some LookupImported by (simp add: recover_record_def awaited_def)
      obtain m4 where m4: "pt_history P (entry_subject (ie_entry v)) m3 = (m4, Some (Ok (histories m (entry_subject (ie_entry v)))))" "same m m4"
        by (rule history_reads [OF m3(2)])
      from step m4(1) obtain x where "verify_imported_record (histories m (entry_subject (ie_entry v))) v = Ok x" "m2 = m4"
        "prior' = prior @ [(of_nat index, LookupImported v, Some x)]"
        by (auto simp: verify_imported_def tbind_def awaited_def map_err_def split: sum.splits)
      then show ?thesis using matched Some LookupImported m4(2) by (auto simp: found_def)
    qed
  qed
qed

lemma records_step:
  assumes "tfold (recover_record C P) (enumerate j actions) prior m1 = (m2, Some (Ok prior'))" "same m m1"
  shows "same m m2 \<and> (\<exists>later. prior' = prior @ later \<and> (later = [] \<longrightarrow> (\<forall>a \<in> set actions. records m (bound_record_id a) = None))
    \<and> (\<forall>(_, l, assurance) \<in> set later. \<exists>a \<in> set actions. found C m a l assurance))"
  using assms
proof (induction actions arbitrary: j prior m1)
  case (Cons a actions)
  from Cons.prems(1) obtain prior1 m3 where m3: "recover_record C P (j, a) prior m1 = (m3, Some (Ok prior1))"
    "tfold (recover_record C P) (enumerate (Suc j) actions) prior1 m3 = (m2, Some (Ok prior'))"
    by (auto elim: tbind_cases)
  from record_step [OF Cons.prems(2) m3(1)] Cons.IH [OF m3(2)] obtain later where later: "same m m2" "prior' = prior1 @ later"
    "later = [] \<longrightarrow> (\<forall>a \<in> set actions. records m (bound_record_id a) = None)"
    "\<forall>(_, l, assurance) \<in> set later. \<exists>a \<in> set actions. found C m a l assurance" by blast
  from record_step [OF Cons.prems(2) m3(1)] show ?case
  proof (elim conjE disjE exE)
    assume "records m (bound_record_id a) = None" "prior1 = prior"
    then show ?thesis using later by auto
  next
    fix l assurance
    assume "found C m a l assurance" "prior1 = prior @ [(of_nat j, l, assurance)]"
    then show ?thesis using later by (auto intro!: exI [of _ "(of_nat j, l, assurance) # later"])
  qed
qed simp

lemma recovered_nothing:
  assumes "recover_existing C P k actions m = (m', Some (Ok None))"
  shows "same m m' \<and> batches m k = None \<and> (\<forall>a \<in> set actions. records m (bound_record_id a) = None)"
proof -
  obtain m1 where m1: "pt_lookup_batch P k m = (m1, Some (Ok (batches m k)))" "same m m1" by (rule batch_reads [OF same_refl])
  show ?thesis
  proof (cases "batches m k")
    case (Some b)
    then show ?thesis using assms m1 by (auto simp: recover_existing_def awaited_def split: sum.splits elim!: tbind_cases)
  next
    case None
    then have "tbind (tfold (recover_record C P) (enumerate 0 actions) []) (\<lambda>prior. ready (recovered_records k prior)) m1 = (m', Some (Ok None))"
      using assms m1 by (simp add: recover_existing_def awaited_def)
    then obtain prior where prior: "tfold (recover_record C P) (enumerate 0 actions) [] m1 = (m', Some (Ok prior))"
      "recovered_records k prior = Ok None" by (auto elim!: tbind_cases)
    note step = records_step [OF prior(1) m1(2)]
    then have all: "\<forall>(_, l, assurance) \<in> set prior. \<exists>a \<in> set actions. found C m a l assurance" by auto
    have "prior = []"
    proof (cases prior)
      case (Cons p ps)
      obtain index l assurance where p: "p = (index, l, assurance)" by (cases p)
      have "found C m a l assurance \<Longrightarrow> l = LookupImported v \<Longrightarrow> assurance \<noteq> None" for a v by (auto simp: found_def)
      then show ?thesis using prior(2) Cons p all
        by (auto simp: recovered_records_def split: batch_key.splits record_lookup.splits option.splits)
    qed
    then show ?thesis using step None by auto
  qed
qed

lemma members_matched:
  assumes "tfold (recover_member C P) (zip actions rs) u m = (m', Some (Ok v))" "length rs = length actions"
  shows "list_all2 (\<lambda>a r. match_committed C a r = Ok ()) actions rs"
  using assms(2,1)
proof (induction rs actions arbitrary: u m rule: list_induct2)
  case (Cons r rs a actions)
  from Cons.prems obtain w m1 where step: "recover_member C P (a, r) u m = (m1, Some (Ok w))"
    "tfold (recover_member C P) (zip actions rs) w m1 = (m', Some (Ok v))" by (auto elim: tbind_cases)
  obtain m2 where "pt_lookup_record P (entry_record_id (sr_entry r)) m = (m2, Some (Ok (records m (entry_record_id (sr_entry r)))))"
    by (rule record_reads [OF same_refl])
  with step(1) have "match_committed C a r = Ok ()"
    by (auto simp: recover_member_def awaited_def map_err_def res_simps split: sum.splits)
  with Cons.IH [OF step(2)] show ?case by simp
qed simp

lemma recovered_something:
  assumes "recover_existing C P k actions m = (m', Some (Ok (Some outcome)))"
  shows "same m m' \<and> ((\<exists>b. batches m k = Some b \<and> validate_stored_batch C k (length actions) b = Ok ()
      \<and> list_all2 (\<lambda>a r. match_committed C a r = Ok ()) actions (sb_records b) \<and> outcome = AppendCommitted (sb_receipt b) True)
    \<or> (batches m k = None \<and> (\<exists>i. k = SingleRecord i) \<and> (\<exists>a \<in> set actions. \<exists>l assurance. found C m a l assurance \<and> outcome = prior_outcome l assurance)))"
proof -
  have same: "same m m'" using reading_recovery assms unfolding reading_def by (metis prod.inject)
  obtain m1 where m1: "pt_lookup_batch P k m = (m1, Some (Ok (batches m k)))" "same m m1" by (rule batch_reads [OF same_refl])
  show ?thesis
  proof (cases "batches m k")
    case (Some b)
    have valid: "validate_stored_batch C k (length actions) b = Ok ()"
      using assms m1 Some by (cases "validate_stored_batch C k (length actions) b") (simp_all add: recover_existing_def awaited_def)
    then have "tbind (tfold (recover_member C P) (zip actions (sb_records b)) ()) (\<lambda>_. ready (Ok (Some (AppendCommitted (sb_receipt b) True)))) m1
        = (m', Some (Ok (Some outcome)))"
      using assms m1 Some by (simp add: recover_existing_def awaited_def)
    then obtain u where "tfold (recover_member C P) (zip actions (sb_records b)) () m1 = (m', Some (Ok u))"
      "outcome = AppendCommitted (sb_receipt b) True" by (auto elim!: tbind_cases)
    moreover have "length (sb_records b) = length actions" using valid by (auto simp: validate_stored_batch_def Let_def res_simps)
    ultimately show ?thesis using same Some valid members_matched by blast
  next
    case None
    then have "tbind (tfold (recover_record C P) (enumerate 0 actions) []) (\<lambda>prior. ready (recovered_records k prior)) m1
        = (m', Some (Ok (Some outcome)))"
      using assms m1 by (simp add: recover_existing_def awaited_def)
    then obtain prior where prior: "tfold (recover_record C P) (enumerate 0 actions) [] m1 = (m', Some (Ok prior))"
      "recovered_records k prior = Ok (Some outcome)" by (auto elim!: tbind_cases)
    from records_step [OF prior(1) m1(2)] have all: "\<forall>(_, l, assurance) \<in> set prior. \<exists>a \<in> set actions. found C m a l assurance" by auto
    obtain index l assurance ps where p: "prior = (index, l, assurance) # ps"
      using prior(2) by (cases prior) (auto simp: recovered_records_def)
    then obtain a where a: "a \<in> set actions" "found C m a l assurance" using all by auto
    have "\<exists>i. k = SingleRecord i" "outcome = prior_outcome l assurance"
      using prior(2) p a(2) by (auto simp: recovered_records_def prior_outcome_def found_def split: batch_key.splits record_lookup.splits option.splits)
    then show ?thesis using same None a by blast
  qed
qed

text \<open>A single action whose record is found answers with it.\<close>

lemma single_recovers:
  assumes "batches m (SingleRecord i) = None" "found C m a l assurance" "\<And>stored. l = LookupCommitted stored \<Longrightarrow> prefix_stands C m stored"
  shows "reads_as same m (recover_existing C P (SingleRecord i) [a]) (Ok (Some (prior_outcome l assurance)))"
proof -
  obtain m1 where m1: "pt_lookup_batch P (SingleRecord i) m = (m1, Some (Ok None))" "same m m1"
    using assms(1) batch_reads [OF same_refl] by metis
  obtain m2 where m2: "pt_lookup_record P (bound_record_id a) m1 = (m2, Some (Ok (Some l)))" "same m m2"
    using assms(2) record_reads [OF m1(2)] unfolding found_def by metis
  show ?thesis
  proof (cases l)
    case (LookupCommitted stored)
    obtain m3 where "verify_committed_prefix C P stored m2 = (m3, Some (Ok ()))" "same m m3"
      using prefix_verifies [OF m2(2)] assms(3) [OF LookupCommitted] by blast
    then show ?thesis using m1(1) m2(1) assms(2) LookupCommitted
      by (auto simp: reads_as_def recover_existing_def recover_record_def awaited_def tbind_def found_def recovered_records_def prior_outcome_def)
  next
    case (LookupImported v)
    obtain m3 where "pt_history P (entry_subject (ie_entry v)) m2 = (m3, Some (Ok (histories m (entry_subject (ie_entry v)))))" "same m m3"
      by (rule history_reads [OF m2(2)])
    then show ?thesis using m1(1) m2(1) assms(2) LookupImported
      by (auto simp: reads_as_def recover_existing_def recover_record_def verify_imported_def awaited_def tbind_def map_err_def found_def
        recovered_records_def prior_outcome_def)
  qed
qed

end

end
