(* ===== verification/Served.thy ===== *)
theory Served
  imports Executed
begin

text \<open>
  The executor over the reference store: the store's ports interpret \<open>readable_store\<close>, every state an executor leaves
  keeps the store's invariant, and an answer the executor gave, or lost, stands for every later retry.
\<close>

section \<open>The reference store's ports\<close>

definition memory_ports :: "codec \<Rightarrow> recorded_memory ports" where
  "memory_ports C = \<lparr>pt_load = \<lambda>s m. case recorded_load (cx_serde C) s m of (m', r) \<Rightarrow> (m', Some r),
     pt_lookup_record = \<lambda>i m. case lookup_record i m of (m', r) \<Rightarrow> (m', Some r),
     pt_lookup_batch = \<lambda>k m. case lookup_batch k m of (m', r) \<Rightarrow> (m', Some r),
     pt_history = \<lambda>s m. case recorded_history (cx_serde C) s m of (m', r) \<Rightarrow> (m', Some r),
     pt_append = recorded_append C\<rparr>"

definition retraced :: "recorded_memory \<Rightarrow> recorded_memory \<Rightarrow> bool" where
  "retraced m m' \<longleftrightarrow> (\<exists>calls. m' = m\<lparr>me_trace := calls\<rparr>)"

lemma retraced_same:
  assumes "retraced m m'"
  shows "me_instances m' = me_instances m" "me_histories m' = me_histories m" "me_records m' = me_records m" "me_batches m' = me_batches m"
    "me_next_position m' = me_next_position m" "me_next_script m' = me_next_script m"
  using assms by (auto simp: retraced_def)

interpretation memory: readable_store "memory_ports C" "\<lambda>m. bt_get (me_instances m)" "\<lambda>m. bt_get (me_records m)"
  "\<lambda>m. bt_get (me_batches m)" "\<lambda>m. history_at (me_histories m)" retraced
  for C
proof
  fix m m' m'' :: recorded_memory and s i k
  show "reads_as retraced m (pt_load (memory_ports C) s) (Ok (bt_get (me_instances m) s))"
    "reads_as retraced m (pt_lookup_record (memory_ports C) i) (Ok (bt_get (me_records m) i))"
    "reads_as retraced m (pt_lookup_batch (memory_ports C) k) (Ok (bt_get (me_batches m) k))"
    "reads_as retraced m (pt_history (memory_ports C) s) (Ok (history_at (me_histories m) s))"
    by (simp_all add: reads_as_def memory_ports_def recorded_load_def lookup_record_def lookup_batch_def recorded_history_def
      trace_call_def retraced_def) (rule exI, rule refl)+
  show "retraced m m" by (auto simp: retraced_def intro: exI [of _ "me_trace m"])
  show "retraced m m''" if "retraced m m'" "retraced m' m''" using that by (auto simp: retraced_def)
  show "bt_get (me_instances m') = bt_get (me_instances m) \<and> bt_get (me_records m') = bt_get (me_records m)
      \<and> bt_get (me_batches m') = bt_get (me_batches m) \<and> history_at (me_histories m') = history_at (me_histories m)"
    if "retraced m m'" using retraced_same [OF that] by simp
qed

section \<open>What the store holds is recognised\<close>

lemma retraced_runs: "retraced m m' \<Longrightarrow> recorded_ok C m' = recorded_ok C m \<and> indexed C m' = indexed C m \<and> holds_on m m' \<and> holds_on m' m"
proof (intro conjI)
  assume "retraced m m'"
  note same = retraced_same [OF this]
  show "recorded_ok C m' = recorded_ok C m" "indexed C m' = indexed C m" "holds_on m m'" "holds_on m' m"
    by (rule only_traced; simp add: same)+
qed

lemma found_first:
  assumes "r \<in> set rs" "distinct (map record_id rs)"
  shows "find (\<lambda>x. entry_record_id (sr_entry x) = entry_record_id (sr_entry r)) rs = Some r"
  using assms
proof (induction rs)
  case (Cons x rs)
  show ?case
  proof (cases "x = r")
    case False
    then have r: "r \<in> set rs" using Cons.prems(1) by simp
    then have "record_id r \<in> set (map record_id rs)" by simp
    then have "record_id x \<noteq> record_id r" using Cons.prems(2) by auto
    then show ?thesis using Cons r by (simp add: record_id_def)
  qed simp
qed simp

lemma verifies_distinct:
  assumes "verifies C h state"
  shows "distinct (map record_id (sh_records h))"
proof -
  have "distinct (map record_id rs)" if "verifies C (h\<lparr>sh_records := rs\<rparr>) state" for rs
    using that
  proof (induction rs arbitrary: state rule: rev_induct)
    case (snoc r rs)
    then show ?case by (auto simp: verifies_snoc)
  qed simp
  from this [of "sh_records h"] assms show ?thesis by simp
qed

lemma recorded_prefix:
  assumes "recorded_ok C m" "recorded_at (me_histories m) r"
  shows "memory.prefix_stands C m r"
proof -
  let ?h = "history_at (me_histories m) (entry_subject (sr_entry r))"
  have r: "r \<in> set (sh_records ?h)" using assms(2) by (simp add: recorded_at_def)
  then obtain h where h: "bt_get (me_histories m) (entry_subject (sr_entry r)) = Some h" "?h = h"
    by (auto simp: history_at_def history_new_def split: option.splits)
  have "each_verifies C (me_histories m) (bt_get (me_instances m))" "sorted_keys (me_histories m)"
    using assms(1) by (simp_all add: recorded_ok_def histories_ok_def)
  then have "\<not> branched h" "verifies C h (bt_get (me_instances m) (entry_subject (sr_entry r)))"
    using h(1) by (simp_all add: each_verifies_get)
  moreover have "distinct (map record_id (sh_records h))"
    using calculation(2) by (rule verifies_distinct)
  ultimately show ?thesis
    using verified_prefix [of h C _ r] r h(2) found_first [of r "sh_records h"]
    by (auto simp: memory.prefix_stands_def record_id_def)
qed

lemma rfold_all: "(\<And>x. x \<in> set xs \<Longrightarrow> f x () = Ok ()) \<Longrightarrow> rfold f xs () = Ok ()"
  by (induction xs) simp_all

lemma held_batch_valid:
  assumes "batch_held C records k b" "length (sb_records b) = n"
  shows "validate_stored_batch C k n b = Ok ()"
proof -
  have b: "sb_key b = k" "batch_comparison_bytes C k (stored_members (sb_records b)) = Ok (sb_comparison_bytes b)"
    "receipt_of k (sb_records b) = Ok (sb_receipt b)" "map coordinate (sb_records b) = map (\<lambda>i. (k, of_nat i)) [0..<length (sb_records b)]"
    "\<And>i. k = SingleRecord i \<Longrightarrow> map record_id (sb_records b) = [i]"
    using assms(1) by (simp_all add: batch_held_def)
  have "rfold (\<lambda>(index, r) _. ensure (\<not> (rr_batch_key (sr_receipt r) \<noteq> k \<or> rr_member_index (sr_receipt r) \<noteq> of_nat index)) e)
      (enumerate 0 (sb_records b)) () = Ok ()" for e
  proof (rule rfold_all)
    fix x
    assume "x \<in> set (enumerate 0 (sb_records b))"
    moreover obtain i r where "x = (i, r)" by (metis surj_pair)
    ultimately have i: "i < length (sb_records b)" "x = (i, sb_records b ! i)" by (auto simp: in_set_enumerate_eq)
    have "coordinate (sb_records b ! i) = (k, of_nat i)"
      using arg_cong [OF b(4), of "\<lambda>xs. xs ! i"] i(1) by simp
    then show "(case x of (index, r) \<Rightarrow> \<lambda>_. ensure (\<not> (rr_batch_key (sr_receipt r) \<noteq> k \<or> rr_member_index (sr_receipt r) \<noteq> of_nat index)) e) ()
        = Ok ()" by (simp add: i(2) coordinate_def)
  qed
  moreover have "(case (k, sb_receipt b) of
          (SingleRecord _, SingleReceipt receipt) \<Rightarrow> (case sb_records b of [r] \<Rightarrow> receipt = sr_receipt r | _ \<Rightarrow> False)
        | (Named _, BatchOf receipt) \<Rightarrow> bc_key receipt = k \<and> bc_members receipt = map sr_receipt (sb_records b)
        | _ \<Rightarrow> False)"
  proof (cases k)
    case (SingleRecord i)
    then obtain r where "sb_records b = [r]" using b(5) by auto
    moreover from this have "sb_receipt b = SingleReceipt (sr_receipt r)" using b(3) SingleRecord by (simp add: receipt_of_def)
    ultimately show ?thesis using SingleRecord by simp
  next
    case (Named i)
    then have "sb_receipt b = BatchOf \<lparr>bc_key = k, bc_members = map sr_receipt (sb_records b)\<rparr>" using b(3) by (simp add: receipt_of_def)
    then show ?thesis using Named by simp
  qed
  ultimately show ?thesis
    using b(1,2) assms(2) by (simp add: validate_stored_batch_def Let_def map_err_def stored_members_def ensure_def)
qed

lemma held_batch_recovers:
  assumes ok: "recorded_ok C m" "indexed C m" and b: "bt_get (me_batches m) k = Some b"
    and matched: "list_all2 (\<lambda>a r. match_committed C a r = Ok ()) actions (sb_records b)"
  shows "reads_as retraced m (recover_existing C (memory_ports C) k actions) (Ok (Some (AppendCommitted (sb_receipt b) True)))"
proof (rule memory.batch_recovers [OF b])
  have held: "batch_held C (me_records m) k b" using ok(2) b by (simp add: indexed_def)
  then show "validate_stored_batch C k (length actions) b = Ok ()"
    by (rule held_batch_valid) (simp add: list_all2_lengthD [OF matched])
  have "bt_get (me_records m) (record_id r) = Some (LookupCommitted r) \<and> memory.prefix_stands C m r" if "r \<in> set (sb_records b)" for r
  proof
    show "bt_get (me_records m) (record_id r) = Some (LookupCommitted r)" using held that by (simp add: batch_held_def)
    then have "lookup_held (me_histories m) (record_id r) (LookupCommitted r)" using ok(2) by (simp add: indexed_def)
    then show "memory.prefix_stands C m r" using recorded_prefix [OF ok(1)] by (simp add: lookup_held_def)
  qed
  with matched show "list_all2 (\<lambda>a r. match_committed C a r = Ok () \<and> bt_get (me_records m) (entry_record_id (sr_entry r)) = Some (LookupCommitted r)
      \<and> memory.prefix_stands C m r) actions (sb_records b)"
    by (auto simp: list_all2_conv_all_nth record_id_def)
qed

section \<open>What a batch decides\<close>

text \<open>A member is what its action asked for: the request it is recognised by is its own, and so is its record identity.\<close>

definition answers_action :: "codec \<Rightarrow> bound_action \<Rightarrow> append_member \<Rightarrow> bool" where
  "answers_action C a member \<longleftrightarrow> request_comparison_bytes C (ba_action a) (am_entry member) = Ok (am_request_bytes member)
     \<and> entry_record_id (am_entry member) = bound_record_id a"

lemma recorded_decision_id: "recorded_decision dn g = Ok e \<Longrightarrow> entry_record_id e = rg_record_id g"
  by (auto simp: recorded_decision_def recorded_commit_new_def seal_def envelope_new_def entry_record_id_def Let_def res_simps
    split: if_splits)

lemma action_decided_id:
  assumes "decide_action S R a current p = Ok (expected, e)"
  shows "entry_record_id e = action_record_id a"
  using assms
  by (auto simp: decide_action_def decide_creation_def decide_operation_def Let_def action_record_id_def res_simps entry_record_id_def [of "EntryObservation _"]
    dest: recorded_decision_id split: batch_action.splits option.splits)

lemma member_answers:
  assumes "decide_member C R P a (overlay, members) m = (m', Some (Ok (overlay', members')))"
  shows "\<exists>member. members' = members @ [member] \<and> answers_action C a member"
proof -
  obtain p where p: "prepare (cx_serde C) R a = Ok p" using assms by (auto simp: decide_member_def split: sum.splits)
  show ?thesis
  proof (cases "\<exists>q. ba_action a = ActMerge q")
    case True
    then obtain q where q: "ba_action a = ActMerge q" by blast
    have "decide_merge C R P q p (overlay, members) m = (m', Some (Ok (overlay', members')))"
      using assms p q by (simp add: decide_member_def)
    then obtain merge expected e bytes where step: "decide_action (cx_serde C) R (ActExecute (xm_execute q)) (Some (mb_base merge)) p = Ok (expected, e)"
      "request_comparison_bytes C (ActExecute (xm_execute q)) e = Ok bytes" "members' = members @ [merging (member_new expected e bytes) merge]"
      by (auto simp: decide_merge_def res_simps elim!: tbind_cases)
    moreover obtain c where "e = EntryDecision c"
      using step(2) by (cases e) (auto simp: request_comparison_bytes_def)
    ultimately show ?thesis using action_decided_id [OF step(1)] q
      by (simp add: answers_action_def merging_def member_new_def request_comparison_bytes_def action_record_id_def)
  next
    case False
    then have "tbind (loaded_overlay P (bound_subject a) overlay) (\<lambda>overlay. ready (decide_on C R (ba_action a) p members overlay)) m
        = (m', Some (Ok (overlay', members')))"
      using assms p by (cases "ba_action a") (simp_all add: decide_member_def)
    then obtain overlay1 where "decide_on C R (ba_action a) p members overlay1 = Ok (overlay', members')" by (auto elim!: tbind_cases)
    then obtain current expected e bytes where "decide_action (cx_serde C) R (ba_action a) current p = Ok (expected, e)"
      "request_comparison_bytes C (ba_action a) e = Ok bytes" "members' = members @ [member_new expected e bytes]"
      by (auto simp: decide_on_def Let_def res_simps)
    then show ?thesis using action_decided_id by (auto simp: answers_action_def member_new_def)
  qed
qed

lemma members_answer:
  assumes "tfold (decide_member C R P) actions (overlay, members) m = (m', Some (Ok (overlay', members')))"
  shows "\<exists>new. members' = members @ new \<and> list_all2 (answers_action C) actions new"
  using assms
proof (induction actions arbitrary: overlay members m)
  case (Cons a actions)
  from Cons.prems obtain overlay1 members1 m1 where step: "decide_member C R P a (overlay, members) m = (m1, Some (Ok (overlay1, members1)))"
    "tfold (decide_member C R P) actions (overlay1, members1) m1 = (m', Some (Ok (overlay', members')))"
    by (auto elim!: tbind_cases)
  from member_answers [OF step(1)] Cons.IH [OF step(2)] show ?case by fastforce
qed simp

section \<open>What a batch commits\<close>

lemma answer_matches:
  assumes "answers_action C a member" "sr_entry r = am_entry member" "sr_request_bytes r = am_request_bytes member" "ba_version a = None"
  shows "match_committed C a r = Ok ()"
  using assms by (simp add: match_committed_def match_saved_version_def answers_action_def map_err_def ensure_def)

lemma commits_matched:
  assumes "commits C k members receipt m" "list_all2 (answers_action C) actions members" "\<forall>a \<in> set actions. ba_version a = None"
  obtains b where "bt_get (me_batches m) k = Some b" "sb_receipt b = receipt" "list_all2 (\<lambda>a r. match_committed C a r = Ok ()) actions (sb_records b)"
proof -
  from assms(1) obtain b where b: "bt_get (me_batches m) k = Some b" "sb_receipt b = receipt"
    "map sr_request_bytes (sb_records b) = map am_request_bytes members" "map sr_entry (sb_records b) = map am_entry members"
    by (auto simp: commits_def)
  have len: "length (sb_records b) = length members" using b(4) by (metis length_map)
  have "list_all2 (\<lambda>a r. match_committed C a r = Ok ()) actions (sb_records b)"
  proof (rule list_all2_all_nthI)
    show "length actions = length (sb_records b)" using assms(2) len by (simp add: list_all2_lengthD)
    fix n
    assume n: "n < length actions"
    then have "n < length members" using assms(2) by (simp add: list_all2_lengthD)
    moreover from this have "sr_entry (sb_records b ! n) = am_entry (members ! n)" "sr_request_bytes (sb_records b ! n) = am_request_bytes (members ! n)"
      using arg_cong [OF b(4), of "\<lambda>xs. xs ! n"] arg_cong [OF b(3), of "\<lambda>xs. xs ! n"] len by simp_all
    ultimately show "match_committed C (actions ! n) (sb_records b ! n) = Ok ()"
      using assms(2,3) n by (intro answer_matches) (auto simp: list_all2_conv_all_nth)
  qed
  then show thesis using that b(1,2) by blast
qed

lemma fresh_append:
  assumes append: "recorded_append C q m = (m', answer)" and ok: "recorded_ok C m" "indexed C m"
    and q: "request_validate C q = Ok ()" "aq_members q \<noteq> []" "aq_key q = Some k" "bt_get (me_batches m) k = None"
      "\<forall>member \<in> set (aq_members q). bt_get (me_records m) (entry_record_id (am_entry member)) = None"
  shows "(\<exists>e. answer = Some (Err (NotCommitted e))) \<or> (\<exists>receipt. commits C k (aq_members q) receipt m'
    \<and> answer = scripted (me_next_script m) (Some k) (AppendCommitted receipt False))"
proof -
  obtain k' where "aq_key q = Some k'" and valid: "validate_key k' = Ok ()" "distinct (member_ids (aq_members q))"
    "\<And>i. k' = SingleRecord i \<Longrightarrow> member_ids (aq_members q) = [i]" "\<And>member. member \<in> set (aq_members q) \<Longrightarrow> member_validate C member = Ok ()"
    using request_valid [OF q(1,2)] by blast
  then have k': "k' = k" using q(3) by simp
  let ?m = "trace_call ''append'' (m\<lparr>me_next_script := None\<rparr>)"
  have start: "recorded_ok C ?m" "indexed C ?m" using ok only_traced [of ?m m] by (simp_all add: trace_call_def)
  have prior: "prior_entries C (me_records ?m) (aq_members q) = Ok []"
  proof -
    have "prior_entry C (me_records ?m) x = Ok []" if "x \<in> set (enumerate 0 (aq_members q))" for x
    proof -
      obtain i member where x: "x = (i, member)" by (metis surj_pair)
      then have "member \<in> set (aq_members q)" using that by (auto simp: in_set_enumerate_eq)
      then show ?thesis using q(5) by (simp add: x prior_entry_def trace_call_def)
    qed
    then have "\<exists>found. rmap (prior_entry C (me_records ?m)) xs = Ok found \<and> concat found = []"
      if "set xs \<subseteq> set (enumerate 0 (aq_members q))" for xs
      using that by (induction xs) auto
    then show ?thesis by (force simp: prior_entries_def)
  qed
  show ?thesis
  proof (cases "transact C k (aq_members q) ?m")
    case (Inl e)
    then show ?thesis using append q(1-3)
      by (auto simp: recorded_append_def append_transaction_def consume_script_def Let_def)
  next
    case (Inr r)
    obtain outcome where r: "r = (m', outcome)" and answer: "answer = scripted (me_next_script m) (Some k) outcome"
      using append q(1-3) Inr by (cases r) (simp add: recorded_append_def append_transaction_def consume_script_def Let_def)
    from Inr r obtain bytes where bytes: "batch_comparison_bytes C k (aq_members q) = Ok bytes" by (auto simp: transact_def res_simps)
    have none: "bt_get (me_batches ?m) k = None" using q(4) by (simp add: trace_call_def)
    have "commit_staged C k (aq_members q) bytes ?m = Ok (m', outcome)"
      using Inr r bytes none prior by (cases k) (simp_all add: transact_def)
    from commit_keeps [OF this bytes start none valid [unfolded k']] prior_entries_Nil prior answer show ?thesis by blast
  qed
qed

text \<open>An executor's reads and appends are steps of the store, and keep it.\<close>

lemma retraced_steps:
  assumes "retraced m m'"
  shows "recorded_runs C m m'"
proof -
  have "recorded_runs C m (m\<lparr>me_trace := calls\<rparr>)" for calls
  proof (induction calls rule: rev_induct)
    case Nil
    show ?case using recorded_runs.runs [OF recorded_runs.stays recorded_step.clears] by (simp add: clear_trace_def)
  next
    case (snoc call calls)
    from recorded_runs.runs [OF snoc recorded_step.reads [of C _ call]] show ?case by (simp add: trace_call_def)
  qed
  then show ?thesis using assms by (auto simp: retraced_def)
qed

definition kept :: "codec \<Rightarrow> recorded_memory \<Rightarrow> recorded_memory \<Rightarrow> bool" where
  "kept C m m' \<longleftrightarrow> recorded_runs C m m' \<and> recorded_ok C m' \<and> indexed C m' \<and> holds_on m m'"

lemma kept_refl: "recorded_ok C m \<Longrightarrow> indexed C m \<Longrightarrow> kept C m m"
  by (simp add: kept_def recorded_runs.stays)

lemma kept_trans: "kept C m m' \<Longrightarrow> kept C m' m'' \<Longrightarrow> kept C m m''"
  by (auto simp: kept_def intro: holds_on_trans recorded_runs_trans)

lemma kept_read:
  assumes "reading retraced t" "t m = (m', answer)" "recorded_ok C m" "indexed C m"
  shows "kept C m m' \<and> retraced m m' \<and> answer \<noteq> None"
proof -
  from assms(1,2) have "retraced m m' \<and> answer \<noteq> None" unfolding reading_def by (metis option.distinct(1) prod.inject)
  then show ?thesis using assms(3,4) retraced_runs retraced_steps by (auto simp: kept_def)
qed

lemma request_new_Ok: "request_new C k members = Ok q \<longleftrightarrow> request_validate C q = Ok () \<and> q = \<lparr>aq_key = Some k, aq_members = members\<rparr>"
  by (auto simp: request_new_def Let_def res_simps)

lemma ports_append: "pt_append (memory_ports C) = recorded_append C"
  by (simp add: memory_ports_def)

lemma appended_keeps:
  assumes append: "append_decided C (memory_ports C) k actions members m = (m', answer)" and ok: "recorded_ok C m" "indexed C m"
  shows "kept C m m'"
proof (cases "request_new C k members")
  case (Inl e)
  then show ?thesis using assms by (simp add: append_decided_def kept_refl)
next
  case (Inr q)
  obtain m1 r where m1: "recorded_append C q m = (m1, r)" by (cases "recorded_append C q m")
  have one: "kept C m m1"
    using append_keeps [OF m1 ok] recorded_runs.runs [OF recorded_runs.stays recorded_step.appends [OF m1]] by (simp add: kept_def)
  have "kept C m1 m'"
  proof (cases "\<exists>m2 found. recover_existing C (memory_ports C) k actions m1 = (m2, found) \<and> m' = m2")
    case True
    then show ?thesis using kept_read [OF memory.reading_recovery] one by (auto simp: kept_def)
  next
    case False
    have "tbind (recover_existing C (memory_ports C) k actions) (\<lambda>found. ready (recovered_or e found)) m1 \<noteq> (m', answer)" for e
      using False by (auto elim!: tbind_cases)
    then have "m' = m1" using append Inr m1
      by (auto simp: append_decided_def awaited_def ports_append split: option.splits sum.splits append_outcome.splits write_failure.splits bool.splits)
    then show ?thesis using one kept_refl by (simp add: kept_def)
  qed
  then show ?thesis using one kept_trans by blast
qed

lemma decisions_keep:
  assumes step: "decide_and_append C R (memory_ports C) k actions m = (m', answer)" and ok: "recorded_ok C m" "indexed C m"
  shows "kept C m m'"
  using step unfolding decide_and_append_def
proof (cases rule: tbind_cases)
  case (1 decided m1)
  then have "kept C m m1" using kept_read [OF memory.reading_decisions _ ok] by blast
  moreover from this have "kept C m1 m'" using 1(2) by (cases decided) (auto simp: kept_def dest: appended_keeps)
  ultimately show ?thesis by (rule kept_trans)
next
  case (2 e)
  then show ?thesis using kept_read [OF memory.reading_decisions _ ok] by blast
next
  case 3
  then show ?thesis using kept_read [OF memory.reading_decisions _ ok] by blast
qed

text \<open>A batch is held with what answers its actions.\<close>

definition holds_batch_of :: "codec \<Rightarrow> recorded_memory \<Rightarrow> batch_key \<Rightarrow> bound_action list \<Rightarrow> commit_receipt \<Rightarrow> bool" where
  "holds_batch_of C m k actions receipt \<longleftrightarrow> (\<exists>b. bt_get (me_batches m) k = Some b \<and> sb_receipt b = receipt
     \<and> list_all2 (\<lambda>a r. match_committed C a r = Ok ()) actions (sb_records b))"

lemma batch_of_recovers:
  assumes "recorded_ok C m" "indexed C m" "holds_batch_of C m k actions receipt"
  shows "reads_as retraced m (recover_existing C (memory_ports C) k actions) (Ok (Some (AppendCommitted receipt True)))"
  using assms held_batch_recovers by (auto simp: holds_batch_of_def)

lemma holds_batch_of_holds: "holds_batch_of C m k actions receipt \<Longrightarrow> holds_on m m' \<Longrightarrow> holds_batch_of C m' k actions receipt"
  unfolding holds_batch_of_def using holds_batch by blast

lemma appended_commits:
  assumes append: "append_decided C (memory_ports C) k actions members m = (m', answer)" and ok: "recorded_ok C m" "indexed C m"
    and fresh: "bt_get (me_batches m) k = None" "\<forall>a \<in> set actions. bt_get (me_records m) (bound_record_id a) = None"
    and members: "list_all2 (answers_action C) actions members" "\<forall>a \<in> set actions. ba_version a = None" "actions \<noteq> []"
    and answered: "\<And>e. answer \<noteq> Some (Err e)"
  shows "\<exists>receipt. holds_batch_of C m' k actions receipt \<and> (\<forall>outcome. answer = Some (Ok outcome) \<longrightarrow> as_replayed outcome = AppendCommitted receipt True)"
proof -
  obtain q where new: "request_new C k members = Ok q" using append answered by (cases "request_new C k members") (auto simp: append_decided_def)
  then have q: "request_validate C q = Ok ()" "aq_key q = Some k" "aq_members q = members" unfolding request_new_Ok by auto
  have nonempty: "members \<noteq> []" using members(1,3) by auto
  obtain m1 r where m1: "recorded_append C q m = (m1, r)" by (cases "recorded_append C q m")
  have one: "kept C m m1"
    using append_keeps [OF m1 ok] recorded_runs.runs [OF recorded_runs.stays recorded_step.appends [OF m1]] by (simp add: kept_def)
  have "\<forall>member \<in> set members. bt_get (me_records m) (entry_record_id (am_entry member)) = None"
  proof
    fix member
    assume "member \<in> set members"
    then obtain a where "a \<in> set actions" "answers_action C a member" using members(1) by (metis list_all2_conv_all_nth in_set_conv_nth)
    then show "bt_get (me_records m) (entry_record_id (am_entry member)) = None" using fresh(2) by (simp add: answers_action_def)
  qed
  from fresh_append [OF m1 ok q(1) _ q(2) fresh(1)] this q(3) nonempty
  consider e where "r = Some (Err (NotCommitted e))"
    | receipt where "commits C k members receipt m1" "r = scripted (me_next_script m) (Some k) (AppendCommitted receipt False)" by auto
  then show ?thesis
  proof cases
    case (1 e)
    then have "answer = Some (Err (ExecWrite (NotCommitted e)))" using append new m1 by (simp add: append_decided_def awaited_def ports_append)
    then show ?thesis using answered by blast
  next
    case (2 receipt)
    from commits_matched [OF 2(1) members(1,2)] have held: "holds_batch_of C m1 k actions receipt" by (auto simp: holds_batch_of_def)
    have recovers: "reads_as retraced m1 (recover_existing C (memory_ports C) k actions) (Ok (Some (AppendCommitted receipt True)))"
      using batch_of_recovers held one by (simp add: kept_def)
    show ?thesis
    proof (cases "me_next_script m")
      case None
      then show ?thesis using append new m1 2(2) held
        by (auto simp: append_decided_def awaited_def ports_append scripted_def as_replayed_def)
    next
      case (Some script)
      show ?thesis
      proof (cases script)
        case CommitThenPending
        then show ?thesis using append new m1 2(2) held Some
          by (auto simp: append_decided_def awaited_def ports_append scripted_def)
      next
        case CommitThenUncertain
        obtain m2 where m2: "recover_existing C (memory_ports C) k actions m1 = (m2, Some (Ok (Some (AppendCommitted receipt True))))" "retraced m1 m2"
          using recovers by (auto simp: reads_as_def)
        then have "m' = m2" "answer = Some (Ok (AppendCommitted receipt True))"
          using append new m1 2(2) Some CommitThenUncertain
          by (auto simp: append_decided_def awaited_def ports_append scripted_def tbind_def recovered_or_def)
        moreover have "holds_batch_of C m2 k actions receipt" using held retraced_same [OF m2(2)] by (simp add: holds_batch_of_def)
        ultimately show ?thesis by (auto simp: as_replayed_def)
      qed
    qed
  qed
qed

section \<open>Answers stand\<close>

lemma map_bound: "\<forall>a \<in> set (map bound actions). ba_version a = None"
  by (simp add: bound_def)

lemma batch_bound_keeps:
  assumes step: "batch_bound C (executor_new R (memory_ports C)) k actions m = (m', answer)" and ok: "recorded_ok C m" "indexed C m"
  shows "kept C m m'"
proof (cases "actions = [] \<or> (\<exists>e. validate_batch k actions = Err e)")
  case True
  then show ?thesis using step ok by (cases "actions = []") (auto simp: batch_bound_def kept_refl)
next
  case False
  then obtain u where "validate_batch k actions = Ok u" "actions \<noteq> []" by (cases "validate_batch k actions") auto
  then have "tbind (recover_existing C (memory_ports C) k actions) (\<lambda>found. case found of Some outcome \<Rightarrow> ready (Ok outcome)
      | None \<Rightarrow> awaited (decide_and_append C R (memory_ports C) k actions) (record_refused None k actions)) m = (m', answer)"
    using step by (simp add: batch_bound_def executor_new_def)
  then show ?thesis
  proof (cases rule: tbind_cases)
    case (1 found m1)
    have read: "kept C m m1" using kept_read [OF memory.reading_recovery 1(1) ok] by blast
    show ?thesis
    proof (cases found)
      case None
      obtain m2 r where m2: "decide_and_append C R (memory_ports C) k actions m1 = (m2, r)" by (cases "decide_and_append C R (memory_ports C) k actions m1")
      then have "m' = m2" using 1(2) None by (auto simp: awaited_def record_refused_def split: option.splits sum.splits)
      moreover have "kept C m1 m2" using decisions_keep [OF m2] read by (simp add: kept_def)
      ultimately show ?thesis using kept_trans read by blast
    next
      case (Some outcome)
      then show ?thesis using 1(2) read by simp
    qed
  next
    case (2 e)
    then show ?thesis using kept_read [OF memory.reading_recovery _ ok] by blast
  next
    case 3
    then show ?thesis using kept_read [OF memory.reading_recovery _ ok] by blast
  qed
qed

text \<open>A recovery that found something finds it again, however the store has moved on.\<close>

lemma imported_stands:
  assumes "verify_imported_record (history_at (me_histories m) s) v = Ok x" "holds_on m m'"
  shows "verify_imported_record (history_at (me_histories m') s) v = Ok x"
proof -
  have "sh_origin (history_at (me_histories m) s) \<noteq> Genesis"
    using assms(1) by (auto simp: verify_imported_record_def validate_imported_boundary_def Let_def res_simps)
  then obtain h where h: "bt_get (me_histories m) s = Some h" by (auto simp: history_at_def history_new_def split: option.splits)
  then obtain rs where "bt_get (me_histories m') s = Some (h\<lparr>sh_records := sh_records h @ rs\<rparr>)"
    using assms(2) by (auto simp: holds_on_def grows_def)
  then show ?thesis using assms(1) h
    by (simp add: history_at_def verify_imported_record_def Let_def cong: history_origin.case_cong)
qed

lemma found_stands:
  assumes "memory.found C m a l assurance" "holds_on m m'"
  shows "memory.found C m' a l assurance"
proof -
  have again: "bt_get (me_records m') (bound_record_id a) = Some l"
    using assms(1) holds_record [OF _ assms(2)] by (simp add: memory.found_def)
  show ?thesis
  proof (cases l)
    case (LookupCommitted stored)
    then show ?thesis using assms(1) again by (simp add: memory.found_def)
  next
    case (LookupImported v)
    then obtain x where x: "verify_imported_record (history_at (me_histories m) (entry_subject (ie_entry v))) v = Ok x" "assurance = Some x"
      using assms(1) by (auto simp: memory.found_def)
    then show ?thesis using assms(1) LookupImported again imported_stands [OF x(1) assms(2)] by (simp add: memory.found_def)
  qed
qed

lemma recovery_stands:
  assumes recover: "recover_existing C (memory_ports C) k actions m = (m1, Some (Ok (Some outcome)))"
    and valid: "validate_batch k actions = Ok ()" and ok: "recorded_ok C m" "indexed C m"
    and later: "holds_on m m''" "recorded_ok C m''" "indexed C m''"
  shows "reads_as retraced m'' (recover_existing C (memory_ports C) k actions) (Ok (Some outcome)) \<and> as_replayed outcome = outcome"
  using memory.recovered_something [OF recover]
proof (elim conjE disjE exE bexE)
  fix b
  assume b: "bt_get (me_batches m) k = Some b" "list_all2 (\<lambda>a r. match_committed C a r = Ok ()) actions (sb_records b)"
    "outcome = AppendCommitted (sb_receipt b) True"
  then show ?thesis using held_batch_recovers [OF later(2,3) holds_batch [OF b(1) later(1)] b(2)] by (simp add: as_replayed_def)
next
  fix i a l assurance
  assume none: "bt_get (me_batches m) k = None" and k: "k = SingleRecord i" and a: "a \<in> set actions"
    and found: "memory.found C m a l assurance" and outcome: "outcome = prior_outcome l assurance"
  have "map bound_record_id actions = [i]"
    using valid by (simp add: validate_batch_def validate_single_def k res_simps)
  with a have actions: "actions = [a]" and i: "bound_record_id a = i" by auto
  have l: "bt_get (me_records m) i = Some l" using found i by (simp add: memory.found_def)
  have "prior_outcome l assurance = outcome \<and> as_replayed outcome = outcome"
    by (simp add: outcome prior_outcome_def as_replayed_def split: record_lookup.split)
  moreover have "reads_as retraced m'' (recover_existing C (memory_ports C) (SingleRecord i) [a]) (Ok (Some (prior_outcome l assurance)))"
  proof (rule memory.single_recovers [OF _ found_stands [OF found later(1)]])
    show "bt_get (me_batches m'') (SingleRecord i) = None"
      using key_stays_unused [OF l _ ok later(3,1)] none k by simp
    fix stored
    assume "l = LookupCommitted stored"
    then have "lookup_held (me_histories m'') i (LookupCommitted stored)"
      using holds_record [OF l later(1)] later(3) by (simp add: indexed_def)
    then show "memory.prefix_stands C m'' stored" using recorded_prefix [OF later(2)] by (simp add: lookup_held_def)
  qed
  ultimately show ?thesis by (simp add: actions k)
qed

text \<open>
  A batch that was answered, or whose answer never came, is answered by every later call with the same actions, as it was.
\<close>

lemma batch_stands:
  assumes step: "batch_bound C (executor_new R (memory_ports C)) k actions m = (m', answer)" and ok: "recorded_ok C m" "indexed C m"
    and unbound: "\<forall>a \<in> set actions. ba_version a = None" and answered: "\<And>e. answer \<noteq> Some (Err e)"
    and later: "holds_on m' m''" "recorded_ok C m''" "indexed C m''"
  shows "\<exists>outcome. reads_as retraced m'' (batch_bound C (executor_new R' (memory_ports C)) k actions) (Ok outcome)
    \<and> (\<forall>a. answer = Some (Ok a) \<longrightarrow> outcome = as_replayed a)"
proof (cases "actions = []")
  case True
  then show ?thesis using step by (auto simp: batch_bound_def reads_as_def as_replayed_def intro: memory.same_refl)
next
  case False
  have valid: "validate_batch k actions = Ok ()"
    using step answered False by (cases "validate_batch k actions") (auto simp: batch_bound_def)
  have again: "reads_as retraced m'' (batch_bound C (executor_new R' (memory_ports C)) k actions) (Ok outcome)"
    if "reads_as retraced m'' (recover_existing C (memory_ports C) k actions) (Ok (Some outcome))" for outcome
    using that False valid by (auto simp: reads_as_def batch_bound_def executor_new_def tbind_def awaited_def)
  have "tbind (recover_existing C (memory_ports C) k actions) (\<lambda>found. case found of Some outcome \<Rightarrow> ready (Ok outcome)
      | None \<Rightarrow> awaited (decide_and_append C R (memory_ports C) k actions) (record_refused None k actions)) m = (m', answer)"
    using step False valid by (simp add: batch_bound_def executor_new_def)
  then show ?thesis
  proof (cases rule: tbind_cases)
    case (1 found m1)
    show ?thesis
    proof (cases found)
      case (Some outcome)
      then have answer: "m' = m1" "answer = Some (Ok outcome)" using 1(2) by auto
      have "holds_on m m''" using kept_read [OF memory.reading_recovery 1(1) ok] later(1) answer(1) holds_on_trans by (auto simp: kept_def)
      from recovery_stands [OF 1(1) [unfolded Some] valid ok this later(2,3)] again answer(2) show ?thesis by auto
    next
      case None
      have read: "kept C m m1" "retraced m m1" using kept_read [OF memory.reading_recovery 1(1) ok] by blast+
      from memory.recovered_nothing [OF 1(1) [unfolded None]] retraced_same [OF read(2)]
      have fresh: "bt_get (me_batches m1) k = None" "\<forall>a \<in> set actions. bt_get (me_records m1) (bound_record_id a) = None" by auto
      obtain m2 r where m2: "decide_and_append C R (memory_ports C) k actions m1 = (m2, r)" by (cases "decide_and_append C R (memory_ports C) k actions m1")
      then have m': "m' = m2" "answer = r" using 1(2) None by (auto simp: awaited_def record_refused_def split: option.splits sum.splits)
      from m2 have "\<exists>receipt. holds_batch_of C m2 k actions receipt \<and> (\<forall>outcome. r = Some (Ok outcome) \<longrightarrow> as_replayed outcome = AppendCommitted receipt True)"
        unfolding decide_and_append_def
      proof (cases rule: tbind_cases)
        case decided: (1 decided m3)
        obtain overlay members where d: "decided = (overlay, members)" by (cases decided)
        have read3: "kept C m1 m3" "retraced m1 m3" using kept_read [OF memory.reading_decisions decided(1)] read(1) by (auto simp: kept_def)
        have "list_all2 (answers_action C) actions members" using members_answer [OF decided(1) [unfolded d]] by simp
        then show ?thesis
          using decided(2) d read3 answered m'(2) fresh retraced_same [OF read3(2)] unbound False
          by (intro appended_commits [where m = m3 and members = members]) (auto simp: kept_def)
      next
        case (2 e)
        then show ?thesis using answered m'(2) by blast
      next
        case 3
        have "recorded_ok C m1" "indexed C m1" using read(1) by (simp_all add: kept_def)
        from kept_read [OF memory.reading_decisions 3(1) this] show ?thesis by simp
      qed
      then obtain receipt where receipt: "holds_batch_of C m' k actions receipt"
        "\<forall>outcome. answer = Some (Ok outcome) \<longrightarrow> as_replayed outcome = AppendCommitted receipt True" using m' by auto
      from again [OF batch_of_recovers [OF later(2,3) holds_batch_of_holds [OF receipt(1) later(1)]]] receipt(2)
      show ?thesis by force
    qed
  next
    case (2 e)
    then show ?thesis using answered by blast
  next
    case 3
    then show ?thesis using kept_read [OF memory.reading_recovery _ ok] by blast
  qed
qed

end
