(* ===== verification/Concurrent.thy ===== *)
theory Concurrent
  imports Served
begin

text \<open>
  Commands decided concurrently: what a fresh answer of the executor says of the state it was decided on and the state it
  left, that a subject's revision never falls, and that of the commands decided on one revision at most one commits.
\<close>

section \<open>A fresh commit\<close>

lemma transact_fresh:
  assumes "transact C k members m = Ok (m', AppendCommitted receipt False)"
  obtains bytes where "commit_staged C k members bytes m = Ok (m', AppendCommitted receipt False)"
  using assms
  by (auto simp: transact_def recorded_before_def res_simps split: option.splits if_splits list.splits batch_key.splits prod.splits record_lookup.splits)

lemma commit_one:
  assumes "commit_staged C k [member] bytes m = Ok (m', outcome)"
  obtains i where "validate_entry_against_state C (am_entry member) (am_expect member) (bt_get (me_instances m) (entry_subject (am_entry member))) = Ok (Some i)"
    "bt_get (me_instances m') = (bt_get (me_instances m))(entry_subject (am_entry member) \<mapsto> i)"
proof -
  let ?start = "\<lparr>sg_histories = me_histories m, sg_next_position = me_next_position m, sg_overlay = [], sg_stored = []\<rparr>"
  from assms obtain g b where g: "stage_member C m k (0, member) ?start = Ok g" and m': "m' = committed g b m"
    by (auto simp: commit_staged_def stage_def res_simps)
  have "staged_state m ?start = bt_get (me_instances m)" by (simp add: staged_state_def fun_eq_iff)
  with g obtain i where i: "validate_entry_against_state C (am_entry member) (am_expect member)
      (bt_get (me_instances m) (entry_subject (am_entry member))) = Ok (Some i)"
    and "sg_overlay g = [(entry_subject (am_entry member), i)]"
    by (auto simp: stage_member_def Let_def res_simps)
  then have "bt_get (me_instances m') = (bt_get (me_instances m))(entry_subject (am_entry member) \<mapsto> i)"
    by (simp add: m' committed_def fun_eq_iff)
  with i that show thesis by blast
qed

text \<open>A replayed or recovered answer says so: only a commit of this very call is answered as not replayed.\<close>

lemma recovered_replayed:
  "recover_existing C (memory_ports C) k actions m \<noteq> (m', Some (Ok (Some (AppendCommitted receipt False))))"
proof
  assume recovered: "recover_existing C (memory_ports C) k actions m = (m', Some (Ok (Some (AppendCommitted receipt False))))"
  have "prior_outcome l assurance \<noteq> AppendCommitted receipt False" for l assurance
    by (cases l) (simp_all add: prior_outcome_def)
  then show False using memory.recovered_something [OF recovered] by (metis append_outcome.inject(1))
qed

lemma append_fresh:
  assumes "append_decided C (memory_ports C) k actions members m = (m', Some (Ok (AppendCommitted receipt False)))"
  obtains q where "request_new C k members = Ok q" "recorded_append C q m = (m', Some (Ok (AppendCommitted receipt False)))"
proof -
  obtain q where q: "request_new C k members = Ok q" using assms by (cases "request_new C k members") (auto simp: append_decided_def)
  obtain m1 r where m1: "recorded_append C q m = (m1, r)" by (cases "recorded_append C q m")
  have no: "tbind (recover_existing C (memory_ports C) k actions) (\<lambda>found. ready (recovered_or e found)) m1
      \<noteq> (m', Some (Ok (AppendCommitted receipt False)))" for e
    by (auto simp: recovered_or_def res_simps recovered_replayed elim!: tbind_cases)
  have "m1 = m' \<and> r = Some (Ok (AppendCommitted receipt False))"
    using assms q m1 no
    by (auto simp: append_decided_def awaited_def ports_append split: option.splits sum.splits append_outcome.splits write_failure.splits bool.splits)
  with q m1 that show thesis by blast
qed

lemma appended_fresh:
  assumes "recorded_append C q m = (m', Some (Ok (AppendCommitted receipt False)))" "aq_key q = Some k"
  obtains bytes m1 where "commit_staged C k (aq_members q) bytes m1 = Ok (m', AppendCommitted receipt False)"
    "me_instances m1 = me_instances m"
proof -
  let ?m = "trace_call ''append'' (m\<lparr>me_next_script := None\<rparr>)"
  have "transact C k (aq_members q) ?m = Ok (m', AppendCommitted receipt False)"
    using assms
    by (auto simp: recorded_append_def append_transaction_def consume_script_def scripted_def Let_def
      split: sum.splits if_splits option.splits append_script.splits)
  then obtain bytes where "commit_staged C k (aq_members q) bytes ?m = Ok (m', AppendCommitted receipt False)" by (rule transact_fresh)
  then show thesis by (rule that) (simp add: trace_call_def)
qed

text \<open>A single action answered as fresh was decided on the state the store held, and its decision is the state the store holds next.\<close>

lemma batch_fresh:
  assumes step: "batch_bound C (executor_new R (memory_ports C)) k [bound a] m = (m', Some (Ok (AppendCommitted receipt False)))"
    and ok: "recorded_ok C m" "indexed C m" and plain: "\<And>q. a \<noteq> ActMerge q"
  obtains p expected e bytes i where "prepare (cx_serde C) R (bound a) = Ok p"
    "decide_action (cx_serde C) R a (bt_get (me_instances m) (action_subject a)) p = Ok (expected, e)"
    "validate_entry_against_state C e expected (bt_get (me_instances m) (entry_subject e)) = Ok (Some i)"
    "bt_get (me_instances m') = (bt_get (me_instances m))(entry_subject e \<mapsto> i)"
proof -
  let ?P = "memory_ports C"
  have valid: "validate_batch k [bound a] = Ok ()" using step by (cases "validate_batch k [bound a]") (auto simp: batch_bound_def)
  have "tbind (recover_existing C ?P k [bound a]) (\<lambda>found. case found of Some outcome \<Rightarrow> ready (Ok outcome)
      | None \<Rightarrow> awaited (decide_and_append C R ?P k [bound a]) (record_refused None k [bound a])) m
      = (m', Some (Ok (AppendCommitted receipt False)))"
    using step valid by (simp add: batch_bound_def executor_new_def)
  then obtain found m1 where found: "recover_existing C ?P k [bound a] m = (m1, Some (Ok found))"
    and rest: "(case found of Some outcome \<Rightarrow> ready (Ok outcome)
      | None \<Rightarrow> awaited (decide_and_append C R ?P k [bound a]) (record_refused None k [bound a])) m1
      = (m', Some (Ok (AppendCommitted receipt False)))" by (auto elim!: tbind_cases)
  have "found = None"
  proof (rule ccontr)
    assume "found \<noteq> None"
    then have "m1 = m'" "found = Some (AppendCommitted receipt False)" using rest by auto
    then show False using found recovered_replayed by simp
  qed
  then have "decide_and_append C R ?P k [bound a] m1 = (m', Some (Ok (AppendCommitted receipt False)))"
    using rest by (auto simp: awaited_def record_refused_def split: prod.splits option.splits sum.splits)
  then obtain decided m2 where decided: "decide_member C R ?P (bound a) ([], []) m1 = (m2, Some (Ok decided))"
    and appended: "append_decided C ?P k [bound a] (snd decided) m2 = (m', Some (Ok (AppendCommitted receipt False)))"
    by (auto simp: decide_and_append_def case_prod_unfold elim!: tbind_cases)
  have same: "retraced m m1" "retraced m1 m2"
    using kept_read [OF memory.reading_recovery found ok] kept_read [OF memory.reading_decision decided] by (auto simp: kept_def)
  note instances = retraced_same(1) [OF same(1)] retraced_same(1) [OF same(2)]
  obtain p where p: "prepare (cx_serde C) R (bound a) = Ok p" using decided by (auto simp: decide_member_def split: sum.splits)
  have "tbind (loaded_overlay ?P (action_subject a) []) (\<lambda>overlay. ready (decide_on C R a p [] overlay)) m1 = (m2, Some (Ok decided))"
    using decided p plain by (cases a) (auto simp: decide_member_def bound_def)
  then have "decide_on C R a p [] [(action_subject a, bt_get (me_instances m) (action_subject a))] = Ok decided"
    by (auto simp: loaded_overlay_def bt_contains_def awaited_def memory_ports_def recorded_load_def instances elim!: tbind_cases)
  then obtain expected e bytes where d: "decide_action (cx_serde C) R a (bt_get (me_instances m) (action_subject a)) p = Ok (expected, e)"
    "snd decided = [member_new expected e bytes]"
    by (auto simp: decide_on_def Let_def res_simps)
  obtain q where q: "request_new C k (snd decided) = Ok q" "recorded_append C q m2 = (m', Some (Ok (AppendCommitted receipt False)))"
    using appended by (rule append_fresh)
  from q(1) have "aq_key q = Some k" "aq_members q = [member_new expected e bytes]" unfolding request_new_Ok d(2) by auto
  from appended_fresh [OF q(2) this(1)] this(2) obtain b m3 where "commit_staged C k [member_new expected e bytes] b m3
      = Ok (m', AppendCommitted receipt False)" "me_instances m3 = me_instances m2" by metis
  from commit_one [OF this(1)] this(2) obtain i where "validate_entry_against_state C e expected (bt_get (me_instances m) (entry_subject e)) = Ok (Some i)"
    "bt_get (me_instances m') = (bt_get (me_instances m))(entry_subject e \<mapsto> i)" by (auto simp: member_new_def instances)
  with that p d(1) show thesis by blast
qed

section \<open>The decision of a command\<close>

text \<open>What the executor evaluates is the kernel's decision, with the request's actions when the operation asked for them.\<close>

lemma evaluated_decision:
  assumes "evaluate_operation S p i q = Ok (Accepted dn)"
  obtains fulfillments where "decide_with_fulfillments S (po_definition p) i (po_operation p) (JObject (po_arguments p)) fulfillments (po_response_check p)
      = Ok (Accepted dn)" "fulfillments = None \<and> xe_fulfillments q = [] \<or> fulfillments = Some (xe_fulfillments q)"
proof -
  from assms obtain loaded where loaded: "select_with S p i = Ok loaded"
    and answer: "(case loaded of Complete answer \<Rightarrow> (case answer of
        Accepted dn \<Rightarrow> rbind (ensure (xe_fulfillments q = []) (FulfillmentKeysMismatch (xe_operation q)
            (case dr_outcome (dn_record dn) of Some outcome \<Rightarrow> outcome | None \<Rightarrow> '''') [] (bt_keys (xe_fulfillments q)))) (\<lambda>_. Ok answer)
      | RefusedBranch _ \<Rightarrow> Ok answer)
     | NeedsFulfillment prepared \<Rightarrow> complete S prepared (xe_fulfillments q)) = Ok (Accepted dn)"
    unfolding evaluate_operation_def rbind_Ok_iff by blast
  show thesis
  proof (cases loaded)
    case (Complete given)
    with answer have "given = Accepted dn" "xe_fulfillments q = []" by (auto simp: res_simps split: kernel_answer.splits)
    moreover from this loaded Complete have "decide_with_fulfillments S (po_definition p) i (po_operation p) (JObject (po_arguments p)) None
        (po_response_check p) = Ok (Accepted dn)"
      by (auto simp: select_with_def res_simps split: sum.splits core_error.splits)
    ultimately show thesis using that [of None] by simp
  next
    case (NeedsFulfillment pr)
    then have "complete S pr (xe_fulfillments q) = Ok (Accepted dn)" using answer by simp
    moreover have "pc_definition pr = po_definition p" "pc_operation pr = po_operation p" "pc_instance pr = i"
      "pc_arguments pr = po_arguments p" "pc_response_check pr = po_response_check p"
      using loaded NeedsFulfillment by (auto simp: select_with_def res_simps split: sum.splits core_error.splits)
    ultimately show thesis using that [of "Some (xe_fulfillments q)"] by (simp add: complete_def)
  qed
qed

text \<open>The subject of a verified history is that of the state it reaches.\<close>

lemma verified_subject:
  assumes "verifies C h (Some i)"
  shows "Subject (in_entity i) (in_id i) = sh_subject h"
proof -
  have "Subject (in_entity i) (in_id i) = sh_subject h" if "verifies C (h\<lparr>sh_records := rs\<rparr>) (Some i)" for rs
    using that
  proof (induction rs arbitrary: i rule: rev_induct)
    case Nil
    then show ?case
      by (cases "sh_subject h") (auto simp: verifies_def origin_state_def validate_imported_boundary_def res_simps split: history_origin.splits)
  next
    case (snoc r rs)
    then obtain earlier where earlier: "verifies C (h\<lparr>sh_records := rs\<rparr>) earlier"
      and admitted: "validate_entry_against_state C (sr_entry r) (sr_expect r) earlier = Ok (Some i)"
      and "entry_subject (sr_entry r) = sh_subject h"
      by (auto simp: verifies_snoc validate_stored_coordinates_def res_simps)
    then show ?case using admitted_state [OF admitted] snoc.IH
      by (auto simp: entry_subject_def split: recorded_entry.splits)
  qed
  from this [of "sh_records h"] assms show ?thesis by simp
qed

lemma held_instance:
  assumes "recorded_ok C m" "bt_get (me_instances m) s = Some i"
  obtains h where "bt_get (me_histories m) s = Some h" "sh_subject h = s" "\<not> branched h" "verifies C h (Some i)"
    "Subject (in_entity i) (in_id i) = s"
proof -
  have ok: "histories_ok C (me_histories m) (bt_get (me_instances m)) (me_next_position m)" using assms(1) by (simp add: recorded_ok_def)
  then obtain h where h: "bt_get (me_histories m) s = Some h" using assms(2) unfolding histories_ok_def by force
  have "sorted_keys (me_histories m)" "each_verifies C (me_histories m) (bt_get (me_instances m))"
    using ok by (simp_all add: histories_ok_def)
  from each_verifies_get [OF this(1), THEN iffD1, OF this(2)] h
  have "sh_subject h = s \<and> \<not> branched h \<and> verifies C h (bt_get (me_instances m) s)" by blast
  then have "sh_subject h = s" "\<not> branched h" "verifies C h (Some i)" by (simp_all add: assms(2))
  with h verified_subject that show thesis by blast
qed

lemma prepared_load:
  assumes "runtime_decide_before_load R entity version i name arguments = Ok (Load p)"
  obtains d args where "registry_get R entity version = Some d" "normalize_arguments d name arguments = Ok args"
    "p = \<lparr>po_definition = d, po_operation = name, po_expected_id = i, po_arguments = args, po_response_check = Checked\<rparr>"
proof -
  from assms obtain d where d: "registry_get R entity version = Some d" "decide_before_load_as d i name arguments Checked = Ok (Load p)"
    by (auto simp: runtime_decide_before_load_def runtime_definition_def decide_before_load_def res_simps)
  from d(2) show thesis by (rule before_load_Load) (use that d(1) in blast)
qed

definition decided_from :: "codec \<Rightarrow> registry \<Rightarrow> execute_request \<Rightarrow> entity_instance \<Rightarrow> decision \<Rightarrow> bool" where
  "decided_from C R q i dn \<longleftrightarrow> in_revision i = xe_expected q \<and> (\<exists>d args fulfillments.
     registry_get R (su_entity (xe_subject q)) (in_version i) = Some d \<and> normalize_arguments d (xe_operation q) (xe_arguments q) = Ok args
     \<and> decide_with_fulfillments (cx_serde C) d i (xe_operation q) (JObject args) fulfillments Checked = Ok (Accepted dn)
     \<and> (fulfillments = None \<and> xe_fulfillments q = [] \<or> fulfillments = Some (xe_fulfillments q)))"

lemma loaded_Ok: "(case preload of Load p \<Rightarrow> Ok p | RefusedUnloaded r \<Rightarrow> Err (refused r)) = Ok p \<longleftrightarrow> preload = Load p"
  by (cases preload) auto

lemma operation_decided:
  assumes "decide_operation (cx_serde C) R q current nothing_prepared = Ok (expected, e)"
  obtains i dn where "current = Some i" "decided_from C R q i dn" "expected = ExpectRevision (xe_expected q)"
    "recorded_decision dn (xe_recording q) = Ok e"
proof -
  from assms obtain i p answer dn where i: "current = Some i" "in_revision i = xe_expected q"
    and p: "runtime_decide_before_load R (su_entity (xe_subject q)) (in_version i) (su_id (xe_subject q)) (xe_operation q) (xe_arguments q) = Ok (Load p)"
    and evaluated: "evaluate_operation (cx_serde C) p i q = Ok answer" "into_decision answer = Ok dn"
    and e: "recorded_decision dn (xe_recording q) = Ok e" "expected = ExpectRevision (xe_expected q)"
    by (auto simp: decide_operation_def nothing_prepared_def current_at_def Let_def res_simps loaded_Ok)
  from p obtain d args where d: "registry_get R (su_entity (xe_subject q)) (in_version i) = Some d"
    "normalize_arguments d (xe_operation q) (xe_arguments q) = Ok args"
    "p = \<lparr>po_definition = d, po_operation = xe_operation q, po_expected_id = su_id (xe_subject q), po_arguments = args, po_response_check = Checked\<rparr>"
    by (rule prepared_load)
  have "evaluate_operation (cx_serde C) p i q = Ok (Accepted dn)" using evaluated by (simp add: into_decision_Ok)
  then obtain fulfillments where "decide_with_fulfillments (cx_serde C) d i (xe_operation q) (JObject args) fulfillments Checked = Ok (Accepted dn)"
    "fulfillments = None \<and> xe_fulfillments q = [] \<or> fulfillments = Some (xe_fulfillments q)"
    by (rule evaluated_decision) (simp add: d(3))
  then have "decided_from C R q i dn" using d(1,2) i(2) unfolding decided_from_def by blast
  with that i(1) e show thesis by blast
qed

lemma execute_fresh:
  assumes step: "exec_execute C (executor_new R (memory_ports C)) q m = (m', Some (Ok (AppendCommitted receipt False)))"
    and ok: "recorded_ok C m" "indexed C m"
  obtains i dn where "bt_get (me_instances m) (xe_subject q) = Some i" "decided_from C R q i dn"
    "bt_get (me_instances m') = (bt_get (me_instances m))(xe_subject q \<mapsto> dn_instance dn)"
proof -
  have "batch_bound C (executor_new R (memory_ports C)) (SingleRecord (rg_record_id (xe_recording q))) [bound (ActExecute q)] m
      = (m', Some (Ok (AppendCommitted receipt False)))"
    using step by (simp add: exec_execute_def exec_batch_def)
  from this ok obtain p expected e i1 where p: "prepare (cx_serde C) R (bound (ActExecute q)) = Ok p"
    and decided: "decide_action (cx_serde C) R (ActExecute q) (bt_get (me_instances m) (xe_subject q)) p = Ok (expected, e)"
    and admitted: "validate_entry_against_state C e expected (bt_get (me_instances m) (entry_subject e)) = Ok (Some i1)"
    and instances: "bt_get (me_instances m') = (bt_get (me_instances m))(entry_subject e \<mapsto> i1)"
    by (rule batch_fresh) (auto simp: action_subject_def)
  have "p = nothing_prepared" using p by (simp add: prepare_def bound_def)
  then have "decide_operation (cx_serde C) R q (bt_get (me_instances m) (xe_subject q)) nothing_prepared = Ok (expected, e)"
    using decided by (simp add: decide_action_def)
  then obtain i dn where i: "bt_get (me_instances m) (xe_subject q) = Some i" and dn: "decided_from C R q i dn"
    and e: "recorded_decision dn (xe_recording q) = Ok e" by (rule operation_decided)
  from e obtain c where c: "e = EntryDecision c" "rm_instance c = dn_instance dn"
    by (auto simp: recorded_decision_def recorded_commit_new_def res_simps)
  have "i1 = dn_instance dn" using admitted_state [OF admitted] c by simp
  moreover have "in_entity (dn_instance dn) = in_entity i \<and> in_id (dn_instance dn) = in_id i"
    using dn decided_describes(3,4) unfolding decided_from_def by blast
  then have "entry_subject e = xe_subject q"
    using held_instance [OF ok(1) i] c by (auto simp: entry_subject_def)
  ultimately show thesis using that i dn instances by simp
qed

section \<open>Revisions never fall\<close>

lemma replayed_decision:
  assumes "replay_operation S d i name arguments actions before = Ok dn"
  obtains args fulfillments where "decide_with_fulfillments S d before name (JObject args) fulfillments Recorded = Ok (Accepted dn)"
proof -
  from assms obtain preload where preload: "decide_before_load_as d i name (JObject arguments) Recorded = Ok preload"
    and answered: "(case preload of RefusedUnloaded r \<Rightarrow> Err (Refused (rf_outcome r) (rf_error r) (rf_message r))
     | Load p \<Rightarrow> rbind (select_with S p before) (\<lambda>loaded. case loaded of
           Complete answer \<Rightarrow> into_decision answer
         | NeedsFulfillment q \<Rightarrow> rbind (complete S q actions) into_decision)) = Ok dn"
    unfolding replay_operation_def rbind_Ok_iff by blast
  then obtain p loaded where p: "preload = Load p" and loaded: "select_with S p before = Ok loaded"
    and answer: "(case loaded of Complete answer \<Rightarrow> into_decision answer
         | NeedsFulfillment q \<Rightarrow> rbind (complete S q actions) into_decision) = Ok dn"
    by (cases preload) (auto simp: res_simps)
  obtain args where eq: "p = \<lparr>po_definition = d, po_operation = name, po_expected_id = i, po_arguments = args, po_response_check = Recorded\<rparr>"
    using preload [unfolded p] by (rule before_load_Load)
  show thesis
  proof (cases loaded)
    case (Complete given)
    with answer have "loaded = Complete (Accepted dn)" by (simp add: into_decision_Ok)
    with loaded have "decide_with_fulfillments S d before name (JObject args) None Recorded = Ok (Accepted dn)"
      by (auto simp: select_with_def eq res_simps split: sum.splits core_error.splits)
    then show thesis by (rule that)
  next
    case (NeedsFulfillment q)
    with answer have "complete S q actions = Ok (Accepted dn)" by (auto simp: res_simps into_decision_Ok)
    moreover have "pc_definition q = d" "pc_operation q = name" "pc_instance q = before" "pc_arguments q = args" "pc_response_check q = Recorded"
      using loaded NeedsFulfillment by (auto simp: select_with_def eq res_simps split: sum.splits core_error.splits)
    ultimately have "decide_with_fulfillments S d before name (JObject args) (Some actions) Recorded = Ok (Accepted dn)"
      by (simp add: complete_def)
    then show thesis by (rule that)
  qed
qed

lemma admitted_revision:
  assumes "validate_entry_against_state C e expected (Some i) = Ok next"
  shows "\<exists>j. next = Some j \<and> unat (in_revision i) \<le> unat (in_revision j)"
proof (cases e)
  case (EntryDecision c)
  from assms EntryDecision obtain d dn where dn: "recompute_saved (cx_serde C) (entry_subject e) d (env_record (rm_envelope c)) (Some i) = Ok dn"
    "next = Some (dn_instance dn)"
    by (auto simp: validate_entry_against_state_def Let_def res_simps split: if_splits)
  then obtain name arguments actions where "replay_operation (cx_serde C) d (dr_id (env_record (rm_envelope c))) name arguments actions i = Ok dn"
    by (auto simp: recompute_saved_def Let_def split: decision_command.splits sum.splits)
  then obtain args fulfillments where "decide_with_fulfillments (cx_serde C) d i name (JObject args) fulfillments Recorded = Ok (Accepted dn)"
    by (rule replayed_decision)
  from decided_describes(6) [OF this] dn(2) show ?thesis by simp
next
  case (EntryObservation b)
  then show ?thesis using admitted_state [OF assms] by simp
qed

lemma verified_revision:
  assumes "verifies C (h\<lparr>sh_records := rs\<rparr>) (Some i)" "verifies C (h\<lparr>sh_records := rs @ ts\<rparr>) state"
  shows "\<exists>j. state = Some j \<and> unat (in_revision i) \<le> unat (in_revision j)"
  using assms(2)
proof (induction ts arbitrary: state rule: rev_induct)
  case Nil
  then show ?case using verifies_unique [OF assms(1)] by auto
next
  case (snoc r ts)
  have "verifies C (h\<lparr>sh_records := (rs @ ts) @ [r]\<rparr>) state" using snoc.prems by simp
  then obtain earlier where earlier: "verifies C (h\<lparr>sh_records := rs @ ts\<rparr>) earlier"
    "validate_entry_against_state C (sr_entry r) (sr_expect r) earlier = Ok state" unfolding verifies_snoc by blast
  from snoc.IH [OF earlier(1)] obtain j where j: "earlier = Some j" "unat (in_revision i) \<le> unat (in_revision j)" by blast
  from admitted_revision earlier(2) [unfolded j(1)] j(2) show ?case by fastforce
qed

lemma revision_kept:
  assumes "recorded_ok C m" "recorded_ok C m'" "holds_on m m'" "bt_get (me_instances m) s = Some i"
  obtains j where "bt_get (me_instances m') s = Some j" "unat (in_revision i) \<le> unat (in_revision j)"
proof -
  obtain h where h: "bt_get (me_histories m) s = Some h" "verifies C h (Some i)" using held_instance [OF assms(1,4)] by blast
  then obtain ts where ts: "bt_get (me_histories m') s = Some (h\<lparr>sh_records := sh_records h @ ts\<rparr>)"
    using assms(3) by (auto simp: holds_on_def grows_def)
  have "sorted_keys (me_histories m')" "each_verifies C (me_histories m') (bt_get (me_instances m'))"
    using assms(2) by (simp_all add: recorded_ok_def histories_ok_def)
  from each_verifies_get [OF this(1), THEN iffD1, OF this(2)] ts
  have "verifies C (h\<lparr>sh_records := sh_records h @ ts\<rparr>) (bt_get (me_instances m') s)" by blast
  from verified_revision [OF _ this] h(2) that show thesis by auto
qed

text \<open>A command decided on a revision that a committed command has left is not committed.\<close>

lemma stale_command:
  assumes first: "exec_execute C (executor_new R (memory_ports C)) q m = (m', Some (Ok (AppendCommitted receipt False)))"
    and ok: "recorded_ok C m" "indexed C m" and later: "recorded_runs C m' m''"
    and stale: "xe_subject q' = xe_subject q" "xe_expected q' = xe_expected q"
  shows "snd (exec_execute C (executor_new R' (memory_ports C)) q' m'') \<noteq> Some (Ok (AppendCommitted receipt' False))"
proof
  assume fresh: "snd (exec_execute C (executor_new R' (memory_ports C)) q' m'') = Some (Ok (AppendCommitted receipt' False))"
  obtain i dn where i: "decided_from C R q i dn"
    "bt_get (me_instances m') = (bt_get (me_instances m))(xe_subject q \<mapsto> dn_instance dn)"
    using execute_fresh [OF first ok] by metis
  have kept: "kept C m m'"
    using batch_bound_keeps [OF _ ok] first by (simp add: exec_execute_def exec_batch_def)
  then have ok': "recorded_ok C m'" "indexed C m'" by (simp_all add: kept_def)
  note run = runs_keep [OF later ok']
  have "unat (in_revision (dn_instance dn)) = unat (xe_expected q) + 1"
    using i(1) decided_describes(6) unfolding decided_from_def by metis
  moreover obtain j where j: "bt_get (me_instances m'') (xe_subject q) = Some j" "unat (in_revision (dn_instance dn)) \<le> unat (in_revision j)"
    using revision_kept [of C m' m'' "xe_subject q" "dn_instance dn"] ok' run i(2) by auto
  moreover obtain m3 where "exec_execute C (executor_new R' (memory_ports C)) q' m'' = (m3, Some (Ok (AppendCommitted receipt' False)))"
    using fresh by (metis prod.collapse)
  then obtain j' dn' where "bt_get (me_instances m'') (xe_subject q') = Some j'" "decided_from C R' q' j' dn'"
    using run by (auto elim!: execute_fresh)
  ultimately show False using stale by (auto simp: decided_from_def)
qed

end
