(* ===== verification/Desk.thy ===== *)
theory Desk
  imports Stored Concurrent
begin

text \<open>
  The run of \<open>Example\<close> through the executor: the ticket is created and closed in the reference store, once with the
  answer of the creation lost.
\<close>

section \<open>One action on a store that has never seen it\<close>

text \<open>The state a single fresh record leaves.\<close>

definition shelved :: "batch_key \<Rightarrow> append_member \<Rightarrow> entity_instance \<Rightarrow> stored_record \<Rightarrow> recorded_memory \<Rightarrow> recorded_memory \<Rightarrow> bool" where
  "shelved k member i r m m' \<longleftrightarrow>
     bt_get (me_instances m') = (bt_get (me_instances m))(entry_subject (am_entry member) \<mapsto> i)
     \<and> bt_get (me_records m') = (bt_get (me_records m))(entry_record_id (am_entry member) \<mapsto> LookupCommitted r)
     \<and> (\<exists>b. bt_get (me_batches m') = (bt_get (me_batches m))(k \<mapsto> b))
     \<and> bt_get (me_histories m') = (bt_get (me_histories m))(entry_subject (am_entry member) \<mapsto>
         (history_at (me_histories m) (entry_subject (am_entry member)))
           \<lparr>sh_records := sh_records (history_at (me_histories m) (entry_subject (am_entry member))) @ [r]\<rparr>)
     \<and> sr_entry r = am_entry member \<and> sr_lineage r = None \<and> sr_expect r = am_expect member
     \<and> me_next_position m' = Option.bind (me_next_position m) checked_next \<and> me_next_script m' = me_next_script m"

lemma transact_single:
  assumes "batch_comparison_bytes C (SingleRecord rid) [member] = Ok compared" "bt_get (me_batches m) (SingleRecord rid) = None"
    "entry_record_id (am_entry member) = rid" "bt_get (me_records m) rid = None"
    "validate_entry_against_state C (am_entry member) (am_expect member) (bt_get (me_instances m) (entry_subject (am_entry member))) = Ok (Some i)"
    "subject_position C (entry_subject (am_entry member)) (bt_get (me_histories m) (entry_subject (am_entry member))) = Ok p"
    "me_next_position m = Some n" "record_comparison_bytes C (am_entry member) = Ok bytes"
  obtains m' r where "transact C (SingleRecord rid) [member] m = Ok (m', AppendCommitted (SingleReceipt (sr_receipt r)) False)"
    "shelved (SingleRecord rid) member i r m m'" "rp_subject (sr_position r) = p"
proof -
  define r where "r = stored_member (SingleRecord rid) 0 member \<lparr>rp_subject = p, rp_store = n\<rparr> bytes"
  have r: "sr_entry r = am_entry member" "sr_lineage r = None" "sr_expect r = am_expect member" "rp_subject (sr_position r) = p"
    by (simp_all add: r_def stored_member_def Let_def)
  let ?start = "\<lparr>sg_histories = me_histories m, sg_next_position = me_next_position m, sg_overlay = [], sg_stored = []\<rparr>"
  let ?s = "entry_subject (am_entry member)"
  let ?g = "\<lparr>sg_histories = bt_insert ?s (history_at (me_histories m) ?s \<lparr>sh_records := sh_records (history_at (me_histories m) ?s) @ [r]\<rparr>)
    (me_histories m), sg_next_position = checked_next n, sg_overlay = [(?s, i)], sg_stored = [r]\<rparr>"
  have "staged_state m ?start = bt_get (me_instances m)" by (simp add: staged_state_def fun_eq_iff)
  then have "stage_member C m (SingleRecord rid) (0, member) ?start = Ok ?g"
    using assms(5-8) by (simp add: stage_member_def Let_def r_def)
  then have "stage C m (SingleRecord rid) [member] = Ok ?g" by (simp add: stage_def)
  then have "transact C (SingleRecord rid) [member] m = Ok (committed ?g \<lparr>sb_key = SingleRecord rid, sb_records = [r],
      sb_comparison_bytes = compared, sb_receipt = SingleReceipt (sr_receipt r)\<rparr> m, AppendCommitted (SingleReceipt (sr_receipt r)) False)"
    using assms(1-4) by (simp add: transact_def prior_entries_def prior_entry_def commit_staged_def receipt_of_def)
  moreover have "shelved (SingleRecord rid) member i r m (committed ?g \<lparr>sb_key = SingleRecord rid, sb_records = [r],
      sb_comparison_bytes = compared, sb_receipt = SingleReceipt (sr_receipt r)\<rparr> m)"
    using assms(3,7) by (auto simp: shelved_def committed_def r fun_eq_iff)
  ultimately show thesis using that r(4) by blast
qed

text \<open>The trace of the reads and of the append that a single action makes.\<close>

definition consulted :: "codec \<Rightarrow> batch_key \<Rightarrow> string \<Rightarrow> subject \<Rightarrow> recorded_memory \<Rightarrow> recorded_memory" where
  "consulted C k rid s m = trace_call ''append'' ((trace_call (''load:'' @ subject_coordinate_id (cx_serde C) s)
     (trace_call (''lookup_record:'' @ rid) (trace_call ''lookup_batch'' m)))\<lparr>me_next_script := None\<rparr>)"

lemma consulted_same:
  "me_instances (consulted C k rid s m) = me_instances m" "me_histories (consulted C k rid s m) = me_histories m"
  "me_records (consulted C k rid s m) = me_records m" "me_batches (consulted C k rid s m) = me_batches m"
  "me_next_position (consulted C k rid s m) = me_next_position m" "me_next_script (consulted C k rid s m) = None"
  by (simp_all add: consulted_def trace_call_def)

lemma batch_single:
  assumes "validate_batch k [bound a] = Ok ()" "bt_get (me_batches m) k = None" "bt_get (me_records m) (action_record_id a) = None"
    "\<And>q. a \<noteq> ActMerge q" "prepare (cx_serde C) R (bound a) = Ok p"
    "decide_action (cx_serde C) R a (bt_get (me_instances m) (action_subject a)) p = Ok (expected, e)"
    "request_comparison_bytes C a e = Ok bytes" "request_validate C \<lparr>aq_key = Some k, aq_members = [member_new expected e bytes]\<rparr> = Ok ()"
    "transact C k [member_new expected e bytes] (consulted C k (action_record_id a) (action_subject a) m) = Ok (m', AppendCommitted receipt False)"
    "me_next_script m \<noteq> Some CommitThenUncertain"
  shows "batch_bound C (executor_new R (memory_ports C)) k [bound a] m
    = (m', if me_next_script m = None then Some (Ok (AppendCommitted receipt False)) else None)"
proof -
  let ?P = "memory_ports C" and ?r = "''lookup_record:'' @ action_record_id a" and ?l = "''load:'' @ subject_coordinate_id (cx_serde C) (action_subject a)"
  let ?m1 = "trace_call ?r (trace_call ''lookup_batch'' m)" and ?member = "member_new expected e bytes"
  have ids: "ba_action (bound a) = a" by (simp add: bound_def)
  have recovery: "recover_existing C ?P k [bound a] m = (?m1, Some (Ok None))"
    using assms(2,3) by (simp add: recover_existing_def recover_record_def tbind_def awaited_def recovered_records_def ids ready_def
      memory_ports_def lookup_record_def lookup_batch_def trace_call_def)
  have "decide_member C R ?P (bound a) ([], []) = tbind (loaded_overlay ?P (action_subject a) [])
      (\<lambda>overlay. ready (decide_on C R a p [] overlay))"
    using assms(4,5) by (cases a) (auto simp: decide_member_def bound_def)
  moreover have "loaded_overlay ?P (action_subject a) [] ?m1
      = (trace_call ?l ?m1, Some (Ok [(action_subject a, bt_get (me_instances m) (action_subject a))]))"
    by (simp add: loaded_overlay_def bt_contains_def awaited_def ready_def memory_ports_def recorded_load_def trace_call_def)
  ultimately obtain overlay where "decide_member C R ?P (bound a) ([], []) ?m1 = (trace_call ?l ?m1, Some (Ok (overlay, [?member])))"
    using assms(6,7) by (simp add: tbind_def awaited_def ready_def decide_on_def Let_def)
  then have decided: "tfold (decide_member C R ?P) [bound a] ([], []) ?m1 = (trace_call ?l ?m1, Some (Ok (overlay, [?member])))"
    by (simp add: tbind_def awaited_def ready_def)
  have "consulted C k (action_record_id a) (action_subject a) m = trace_call ''append'' ((trace_call ?l ?m1)\<lparr>me_next_script := None\<rparr>)"
    by (simp add: consulted_def)
  then have "append_decided C ?P k [bound a] [?member] (trace_call ?l ?m1)
      = (m', if me_next_script m = None then Some (Ok (AppendCommitted receipt False)) else None)"
    using assms(8-10) by (cases "me_next_script m" rule: option.exhaust; cases "the (me_next_script m)")
      (simp_all add: append_decided_def request_new_def awaited_def ready_def ports_append recorded_append_def append_transaction_def
        consume_script_def scripted_def Let_def trace_call_def)
  then have "decide_and_append C R ?P k [bound a] ?m1 = (m', if me_next_script m = None then Some (Ok (AppendCommitted receipt False)) else None)"
    unfolding decide_and_append_def tbind_def [of "tfold f xs a" for f xs a] awaited_def decided by simp
  then show ?thesis
    using assms(1) recovery by (simp add: batch_bound_def executor_new_def tbind_def awaited_def record_refused_def ready_def)
qed

section \<open>The ticket's desk\<close>

definition desk_codec :: codec where
  "desk_codec = \<lparr>cx_serde = ticket_serde, cx_commit = \<lambda>c. Ok (JString (env_record_id (rm_envelope c))),
     cx_observation = \<lambda>_. Ok JNull, cx_write = \<lambda>_. Ok ''bytes''\<rparr>"

definition desk_registry :: registry where
  "desk_registry = [(''ticket'', [(1, ticket)])]"

definition desk_subject :: subject where
  "desk_subject = Subject ''ticket'' ''s:a''"

definition open_request :: create_request where
  "open_request = \<lparr>xc_subject = desk_subject, xc_version = 1, xc_fields = JObject [(''title'', JString ''a'')], xc_recording = stamp ''a''\<rparr>"

definition close_request :: "string \<Rightarrow> execute_request" where
  "close_request rid = \<lparr>xe_subject = desk_subject, xe_expected = 1, xe_operation = ''close'',
     xe_arguments = JObject [(''note'', JString ''yes'')], xe_fulfillments = [], xe_recording = stamp rid\<rparr>"

definition desk_executor :: "recorded_memory executor" where
  "desk_executor = executor_new desk_registry (memory_ports desk_codec)"

definition desk_opened :: recorded_memory where
  "desk_opened = fst (exec_create desk_codec desk_executor open_request recorded_new)"

definition desk_closed :: recorded_memory where
  "desk_closed = fst (exec_execute desk_codec desk_executor (close_request ''b'') desk_opened)"

text \<open>The same creation, its answer never delivered.\<close>

definition desk_pending :: recorded_memory where
  "desk_pending = fst (exec_create desk_codec desk_executor open_request (script_next_append CommitThenPending recorded_new))"

lemma desk_bytes: "record_comparison_bytes desk_codec (EntryDecision c) = Ok ''bytes''"
    "canonical_domain_bytes desk_codec domain v = Ok ''bytes''"
  by (simp_all add: record_comparison_bytes_def tagged_record_def desk_codec_def encoding_def canonical_domain_bytes_def)

lemma desk_serde: "cx_serde desk_codec = ticket_serde"
  by (simp add: desk_codec_def)

lemma sealed_parts: "env_record (rm_envelope (sealed rid dn)) = dn_record dn" "rm_instance (sealed rid dn) = dn_instance dn"
    "env_record_id (rm_envelope (sealed rid dn)) = rid"
  by (simp_all add: sealed_def)

lemma desk_blank: "\<not> is_blank ''a''" "\<not> is_blank ''b''" "\<not> is_blank ''s:a''" "\<not> is_blank ''ticket''" "\<not> is_blank ''close''"
  by code_simp+

lemma desk_ticket: "validate_definition ticket = []" "validate_new ticket = Ok ticket" "registry_get desk_registry ''ticket'' 1 = Some ticket"
  using ticket_registered by (simp_all add: registered_def validate_new_def registry_get_def desk_registry_def)

lemma desk_validates:
  "recorded_commit_validate (sealed ''a'' ticket_created) = Ok ()" "recorded_commit_validate (sealed ''b'' ticket_closed) = Ok ()"
proof -
  show "recorded_commit_validate (sealed ''a'' ticket_created) = Ok ()"
    using created_describes [OF ticket_create [unfolded decide_create_def]]
    by (intro sealed_validates [OF stamped(1)]) (simp_all add: ticket_created_def created_decision_def describes_def)
  show "recorded_commit_validate (sealed ''b'' ticket_closed) = Ok ()"
    using decided_describes(1) [OF ticket_closes]
    by (intro sealed_validates [OF stamped(2)]) (simp_all add: ticket_closed_def describes_def)
qed

lemma desk_entries:
  "entry_validate (EntryDecision (sealed ''a'' ticket_created)) = Ok ()" "entry_validate (EntryDecision (sealed ''b'' ticket_closed)) = Ok ()"
  using desk_validates by (simp_all add: entry_validate_def entry_subject_def validate_subject_def said_store_def sealed_def ensure_def
      ticket_instances ticket_instance_def closed_instance_def desk_blank)

lemma desk_admits:
  "validate_entry_against_state desk_codec (EntryDecision (sealed ''a'' ticket_created)) Absent None = Ok (Some ticket_instance)"
  "validate_entry_against_state desk_codec (EntryDecision (sealed ''b'' ticket_closed)) (ExpectRevision 1) (Some ticket_instance)
    = Ok (Some closed_instance)"
proof -
  have created: "dr_definition (dn_record ticket_created) = Some ticket" "dr_id (dn_record ticket_created) = ''s:a''"
    "dr_command (dn_record ticket_created) = CommandCreate (in_fields ticket_instance) [(''title'', JString ''a'')]"
    by (simp_all add: ticket_created_def created_decision_def ticket_instance_def)
  have closed: "dr_definition (dn_record ticket_closed) = Some ticket" "dr_id (dn_record ticket_closed) = ''s:a''"
    "dr_command (dn_record ticket_closed) = CommandExecute ''close'' [(''note'', JString ''yes'')] []"
    by (simp_all add: ticket_closed_def)
  have "raise (replay_creation ticket_serde ticket ''s:a'' (in_fields ticket_instance) [(''title'', JString ''a'')]) = Ok ticket_created"
    using replay_creation_decided(1) [OF ticket_registered ticket_faithful ticket_input_ok(1) ticket_create [unfolded decide_create_def], of 0]
      created by (simp add: replay_decision_def)
  then have recreated: "replay_creation ticket_serde ticket ''s:a'' (in_fields ticket_instance) [(''title'', JString ''a'')] = Ok ticket_created"
    by (simp add: res_simps)
  have "raise (replay_operation ticket_serde ticket ''s:a'' ''close'' [(''note'', JString ''yes'')] [] ticket_instance) = Ok ticket_closed"
    using replay_operation_decided [OF ticket_registered ticket_faithful ticket_input_ok(2) _ ticket_closes, of 0] closed
    by (simp add: replay_decision_def ticket_instance_def desk_blank)
  then have reclosed: "replay_operation ticket_serde ticket ''s:a'' ''close'' [(''note'', JString ''yes'')] [] ticket_instance = Ok ticket_closed"
    by (simp add: res_simps)
  have revisions: "check_revision s 1 = Ok ()" "check_revision s 2 = Ok ()" for s
    by (simp_all add: check_revision_def max_revision_def ensure_def)
  have held: "in_revision ticket_instance = 1" "in_revision closed_instance = 2"
    by (simp_all add: ticket_instance_def closed_instance_def)
  show "validate_entry_against_state desk_codec (EntryDecision (sealed ''a'' ticket_created)) Absent None = Ok (Some ticket_instance)"
    using desk_entries(1) recreated created desk_ticket(1) revisions(1)
    by (simp add: validate_entry_against_state_def sealed_parts desk_serde ticket_instances entry_revision_def check_predecessor_def ensure_def
      recompute_saved_def Let_def held)
  show "validate_entry_against_state desk_codec (EntryDecision (sealed ''b'' ticket_closed)) (ExpectRevision 1) (Some ticket_instance)
    = Ok (Some closed_instance)"
    using desk_entries(2) reclosed closed desk_ticket(1) revisions(2)
    by (simp add: validate_entry_against_state_def sealed_parts desk_serde ticket_instances entry_revision_def check_predecessor_def ensure_def
      recompute_saved_def Let_def held)
qed

section \<open>Its run\<close>

lemma desk_recordings: "validate_recording (stamp ''a'') = Ok ()" "validate_recording (stamp ''b'') = Ok ()"
proof -
  have "is_valid_timestamp ''2024-02-29''" by code_simp
  then show "validate_recording (stamp ''a'') = Ok ()" "validate_recording (stamp ''b'') = Ok ()"
    by (simp_all add: validate_recording_def seal_def envelope_new_def envelope_validate_def ensure_def stamp_def desk_blank)
qed

lemma opening_asked:
  "validate_batch (SingleRecord ''a'') [bound (ActCreate open_request)] = Ok ()"
  "prepare ticket_serde desk_registry (bound (ActCreate open_request)) = Ok \<lparr>pp_operation = None, pp_creation = Some (Ok (Accepted ticket_created))\<rparr>"
  "decide_action ticket_serde desk_registry (ActCreate open_request) None \<lparr>pp_operation = None, pp_creation = Some (Ok (Accepted ticket_created))\<rparr>
    = Ok (Absent, EntryDecision (sealed ''a'' ticket_created))"
  "request_comparison_bytes desk_codec (ActCreate open_request) (EntryDecision (sealed ''a'' ticket_created)) = Ok ''bytes''"
  "request_validate desk_codec \<lparr>aq_key = Some (SingleRecord ''a''), aq_members = [member_new Absent (EntryDecision (sealed ''a'' ticket_created)) ''bytes'']\<rparr>
    = Ok ()"
proof -
  have stamped_id: "rg_record_id (stamp ''a'') = ''a''" by (simp add: stamp_def)
  show "validate_batch (SingleRecord ''a'') [bound (ActCreate open_request)] = Ok ()"
    by (simp add: validate_batch_def validate_key_def key_value_def validate_action_def validate_shape_def open_request_def desk_subject_def
      validate_subject_def bound_def action_subject_def action_record_id_def validate_single_def desk_blank desk_recordings stamped_id ensure_def)
  show "prepare ticket_serde desk_registry (bound (ActCreate open_request)) = Ok \<lparr>pp_operation = None, pp_creation = Some (Ok (Accepted ticket_created))\<rparr>"
    by (simp add: prepare_def bound_def open_request_def desk_subject_def runtime_decide_create_def runtime_definition_def desk_ticket ticket_create)
  show "decide_action ticket_serde desk_registry (ActCreate open_request) None \<lparr>pp_operation = None, pp_creation = Some (Ok (Accepted ticket_created))\<rparr>
    = Ok (Absent, EntryDecision (sealed ''a'' ticket_created))"
    by (simp add: decide_action_def decide_creation_def into_decision_def recorded_decision_def open_request_def stamped)
  have written: "dr_definition (dn_record ticket_created) = Some ticket" "dr_entity (dn_record ticket_created) = ''ticket''"
    "dr_id (dn_record ticket_created) = ''s:a''" "dr_command (dn_record ticket_created) = CommandCreate (in_fields ticket_instance) [(''title'', JString ''a'')]"
    by (simp_all add: ticket_created_def created_decision_def ticket_instance_def ticket_def)
  show "request_comparison_bytes desk_codec (ActCreate open_request) (EntryDecision (sealed ''a'' ticket_created)) = Ok ''bytes''"
    using written ticket_create
    by (simp add: request_comparison_bytes_def create_bytes_def saved_definition_def sealed_parts desk_ticket said_core_def create_def into_decision_def
      open_request_def desk_subject_def names_subject_def desk_bytes desk_serde ensure_def Let_def)
  show "request_validate desk_codec \<lparr>aq_key = Some (SingleRecord ''a''), aq_members = [member_new Absent (EntryDecision (sealed ''a'' ticket_created)) ''bytes'']\<rparr>
    = Ok ()"
    using desk_entries(1) written
    by (simp add: request_validate_def validate_key_def key_value_def desk_blank validate_single_def member_ids_def member_new_def entry_record_id_def
      sealed_parts member_validate_def original_request_comparison_bytes_def desk_bytes ensure_def Let_def)
qed

lemma desk_batch_bytes: "validate_key k = Ok () \<Longrightarrow> batch_comparison_bytes desk_codec k [member_new expected (EntryDecision c) bytes] = Ok ''bytes''"
  by (simp add: batch_comparison_bytes_def member_json_def member_new_def tagged_record_def desk_codec_def encoding_def)

abbreviation "opening \<equiv> member_new Absent (EntryDecision (sealed ''a'' ticket_created)) ''bytes''"
abbreviation "closing \<equiv> member_new (ExpectRevision 1) (EntryDecision (sealed ''b'' ticket_closed)) ''bytes''"

lemma desk_members:
  "entry_subject (am_entry opening) = desk_subject" "entry_record_id (am_entry opening) = ''a''"
  "entry_subject (am_entry closing) = desk_subject" "entry_record_id (am_entry closing) = ''b''"
  by (simp_all add: member_new_def entry_subject_def entry_record_id_def sealed_parts ticket_instances desk_subject_def ticket_instance_def closed_instance_def)

lemma desk_opening:
  assumes "m = recorded_new \<or> m = script_next_append CommitThenPending recorded_new"
  obtains r m' where "exec_create desk_codec desk_executor open_request m
      = (m', if me_next_script m = None then Some (Ok (AppendCommitted (SingleReceipt (sr_receipt r)) False)) else None)"
    "shelved (SingleRecord ''a'') opening ticket_instance r (consulted desk_codec (SingleRecord ''a'') ''a'' desk_subject m) m'"
    "rp_subject (sr_position r) = 0"
proof -
  let ?m = "consulted desk_codec (SingleRecord ''a'') ''a'' desk_subject m"
  have empty: "me_batches m = []" "me_records m = []" "me_instances m = []" "me_histories m = []" "me_next_position m = Some 0"
    "me_next_script m \<noteq> Some CommitThenUncertain"
    using assms by (auto simp: recorded_new_def script_next_append_def)
  have key: "validate_key (SingleRecord ''a'') = Ok ()" by (simp add: validate_key_def key_value_def desk_blank ensure_def)
  have request: "action_record_id (ActCreate open_request) = ''a''" "action_subject (ActCreate open_request) = desk_subject"
    by (simp_all add: action_record_id_def action_subject_def open_request_def stamp_def)
  obtain m' r where m': "transact desk_codec (SingleRecord ''a'') [opening] ?m = Ok (m', AppendCommitted (SingleReceipt (sr_receipt r)) False)"
    "shelved (SingleRecord ''a'') opening ticket_instance r ?m m'" "rp_subject (sr_position r) = 0"
  proof (rule transact_single)
    show "batch_comparison_bytes desk_codec (SingleRecord ''a'') [opening] = Ok ''bytes''" by (rule desk_batch_bytes [OF key])
    show "entry_record_id (am_entry opening) = ''a''" by (rule desk_members)
    show "bt_get (me_batches ?m) (SingleRecord ''a'') = None" "bt_get (me_records ?m) ''a'' = None" "me_next_position ?m = Some 0"
      "subject_position desk_codec (entry_subject (am_entry opening)) (bt_get (me_histories ?m) (entry_subject (am_entry opening))) = Ok 0"
      by (simp_all add: consulted_same empty subject_position_def)
    show "validate_entry_against_state desk_codec (am_entry opening) (am_expect opening) (bt_get (me_instances ?m) (entry_subject (am_entry opening)))
        = Ok (Some ticket_instance)"
      using desk_admits(1) by (simp add: consulted_same empty) (simp add: member_new_def)
    show "record_comparison_bytes desk_codec (am_entry opening) = Ok ''bytes''" by (simp add: member_new_def desk_bytes)
  qed
  have "batch_bound desk_codec (executor_new desk_registry (memory_ports desk_codec)) (SingleRecord ''a'') [bound (ActCreate open_request)] m
      = (m', if me_next_script m = None then Some (Ok (AppendCommitted (SingleReceipt (sr_receipt r)) False)) else None)"
    using opening_asked m'(1) empty by (intro batch_single) (auto simp: request desk_serde)
  then have "exec_create desk_codec desk_executor open_request m
      = (m', if me_next_script m = None then Some (Ok (AppendCommitted (SingleReceipt (sr_receipt r)) False)) else None)"
    by (simp add: exec_create_def exec_batch_def desk_executor_def open_request_def stamp_def)
  then show thesis using that m'(2,3) by blast
qed

lemma desk_selects: "select_with ticket_serde ticket_loaded ticket_instance = Ok (Complete (Accepted ticket_closed))"
  using select_with_decides [OF ticket_before_load [unfolded decide_before_load_def] ticket_arguments_ok _ ticket_subject]
  by (simp add: ticket_close [unfolded decide_def])

lemma desk_decides:
  "decide_action ticket_serde desk_registry (ActExecute (close_request rid)) (Some ticket_instance) nothing_prepared
    = rbind (recorded_decision ticket_closed (stamp rid)) (\<lambda>e. Ok (ExpectRevision 1, e))"
proof -
  have "runtime_decide_before_load desk_registry ''ticket'' 1 ''s:a'' ''close'' (JObject [(''note'', JString ''yes'')]) = Ok (Load ticket_loaded)"
    by (simp add: runtime_decide_before_load_def runtime_definition_def desk_ticket ticket_before_load)
  moreover have "in_version ticket_instance = 1" "in_revision ticket_instance = 1" by (simp_all add: ticket_instance_def)
  ultimately show ?thesis
    by (simp add: decide_action_def decide_operation_def close_request_def desk_subject_def current_at_def nothing_prepared_def
      evaluate_operation_def desk_selects into_decision_def ensure_def Let_def)
qed

lemma closing_asked:
  "validate_batch (SingleRecord ''b'') [bound (ActExecute (close_request ''b''))] = Ok ()"
  "prepare ticket_serde desk_registry (bound (ActExecute (close_request ''b''))) = Ok nothing_prepared"
  "decide_action ticket_serde desk_registry (ActExecute (close_request ''b'')) (Some ticket_instance) nothing_prepared
    = Ok (ExpectRevision 1, EntryDecision (sealed ''b'' ticket_closed))"
  "request_comparison_bytes desk_codec (ActExecute (close_request ''b'')) (EntryDecision (sealed ''b'' ticket_closed)) = Ok ''bytes''"
  "request_validate desk_codec \<lparr>aq_key = Some (SingleRecord ''b''), aq_members = [closing]\<rparr> = Ok ()"
proof -
  have stamped_id: "rg_record_id (stamp ''b'') = ''b''" by (simp add: stamp_def)
  show "validate_batch (SingleRecord ''b'') [bound (ActExecute (close_request ''b''))] = Ok ()"
    by (simp add: validate_batch_def validate_key_def key_value_def validate_action_def validate_shape_def validate_execute_shape_def
      validate_revision_def max_revision_def close_request_def desk_subject_def
      validate_subject_def bound_def action_subject_def action_record_id_def validate_single_def desk_blank desk_recordings stamped_id ensure_def)
  show "prepare ticket_serde desk_registry (bound (ActExecute (close_request ''b''))) = Ok nothing_prepared"
    by (simp add: prepare_def bound_def)
  show "decide_action ticket_serde desk_registry (ActExecute (close_request ''b'')) (Some ticket_instance) nothing_prepared
    = Ok (ExpectRevision 1, EntryDecision (sealed ''b'' ticket_closed))"
    by (simp add: desk_decides recorded_decision_def stamped)
  have written: "dr_definition (dn_record ticket_closed) = Some ticket" "dr_entity (dn_record ticket_closed) = ''ticket''"
    "dr_id (dn_record ticket_closed) = ''s:a''" "dr_command (dn_record ticket_closed) = CommandExecute ''close'' [(''note'', JString ''yes'')] []"
    "dr_revision (dn_record ticket_closed) = 2"
    by (simp_all add: ticket_closed_def)
  show "request_comparison_bytes desk_codec (ActExecute (close_request ''b'')) (EntryDecision (sealed ''b'' ticket_closed)) = Ok ''bytes''"
    using written ticket_arguments_normal
    by (simp add: request_comparison_bytes_def execute_bytes_def saved_definition_def sealed_parts desk_ticket said_core_def
      close_request_def desk_subject_def names_subject_def desk_bytes desk_serde ensure_def Let_def)
  show "request_validate desk_codec \<lparr>aq_key = Some (SingleRecord ''b''), aq_members = [closing]\<rparr> = Ok ()"
    using desk_entries(2) written
    by (simp add: request_validate_def validate_key_def key_value_def desk_blank validate_single_def member_ids_def member_new_def entry_record_id_def
      sealed_parts member_validate_def original_request_comparison_bytes_def positive_predecessor_def desk_bytes ensure_def Let_def)
qed

lemma desk_opened_facts:
  obtains r where "exec_create desk_codec desk_executor open_request recorded_new
      = (desk_opened, Some (Ok (AppendCommitted (SingleReceipt (sr_receipt r)) False)))"
    "bt_get (me_instances desk_opened) = [desk_subject \<mapsto> ticket_instance]"
    "bt_get (me_records desk_opened) = [''a'' \<mapsto> LookupCommitted r]" "bt_get (me_batches desk_opened) (SingleRecord ''b'') = None"
    "bt_get (me_histories desk_opened) = [desk_subject \<mapsto> (history_new desk_subject)\<lparr>sh_records := [r]\<rparr>]"
    "rp_subject (sr_position r) = 0" "me_next_position desk_opened = Some 1" "me_next_script desk_opened = None"
proof -
  obtain r m' where run: "exec_create desk_codec desk_executor open_request recorded_new
      = (m', if me_next_script recorded_new = None then Some (Ok (AppendCommitted (SingleReceipt (sr_receipt r)) False)) else None)"
    and m': "shelved (SingleRecord ''a'') opening ticket_instance r (consulted desk_codec (SingleRecord ''a'') ''a'' desk_subject recorded_new) m'"
      "rp_subject (sr_position r) = 0"
    using desk_opening [of recorded_new] by blast
  have "m' = desk_opened" by (simp add: desk_opened_def run)
  moreover have "bt_get (me_batches m') (SingleRecord ''b'') = None"
    using m'(1) by (auto simp: shelved_def consulted_same) (simp add: recorded_new_def)
  moreover have "checked_next 0 = Some 1" by (simp add: checked_next_def)
  ultimately show thesis
    using that run m' unfolding shelved_def consulted_same desk_members
    by (simp add: recorded_new_def history_at_def history_new_def)
qed

lemma desk_closing:
  obtains receipt where "exec_execute desk_codec desk_executor (close_request ''b'') desk_opened
      = (desk_closed, Some (Ok (AppendCommitted receipt False)))"
    "bt_get (me_instances desk_closed) = [desk_subject \<mapsto> closed_instance]"
proof -
  let ?m = "consulted desk_codec (SingleRecord ''b'') ''b'' desk_subject desk_opened"
  obtain r where r: "bt_get (me_instances desk_opened) = [desk_subject \<mapsto> ticket_instance]"
    "bt_get (me_records desk_opened) = [''a'' \<mapsto> LookupCommitted r]" "bt_get (me_batches desk_opened) (SingleRecord ''b'') = None"
    "bt_get (me_histories desk_opened) = [desk_subject \<mapsto> (history_new desk_subject)\<lparr>sh_records := [r]\<rparr>]"
    "rp_subject (sr_position r) = 0" "me_next_position desk_opened = Some 1" "me_next_script desk_opened = None"
    by (rule desk_opened_facts)
  have key: "validate_key (SingleRecord ''b'') = Ok ()" by (simp add: validate_key_def key_value_def desk_blank ensure_def)
  have request: "action_record_id (ActExecute (close_request ''b'')) = ''b''" "action_subject (ActExecute (close_request ''b'')) = desk_subject"
    by (simp_all add: action_record_id_def action_subject_def close_request_def stamp_def)
  obtain m' r' where m': "transact desk_codec (SingleRecord ''b'') [closing] ?m = Ok (m', AppendCommitted (SingleReceipt (sr_receipt r')) False)"
    "shelved (SingleRecord ''b'') closing closed_instance r' ?m m'"
  proof (rule transact_single)
    show "batch_comparison_bytes desk_codec (SingleRecord ''b'') [closing] = Ok ''bytes''" by (rule desk_batch_bytes [OF key])
    show "entry_record_id (am_entry closing) = ''b''" by (rule desk_members)
    show "bt_get (me_batches ?m) (SingleRecord ''b'') = None" "bt_get (me_records ?m) ''b'' = None" "me_next_position ?m = Some 1"
      by (simp_all add: consulted_same r)
    show "subject_position desk_codec (entry_subject (am_entry closing)) (bt_get (me_histories ?m) (entry_subject (am_entry closing))) = Ok 1"
      by (simp add: consulted_same r desk_members subject_position_def checked_next_def)
    show "validate_entry_against_state desk_codec (am_entry closing) (am_expect closing) (bt_get (me_instances ?m) (entry_subject (am_entry closing)))
        = Ok (Some closed_instance)"
      using desk_admits(2) unfolding consulted_same r desk_members by (simp add: member_new_def)
    show "record_comparison_bytes desk_codec (am_entry closing) = Ok ''bytes''" by (simp add: member_new_def desk_bytes)
  qed
  have "batch_bound desk_codec (executor_new desk_registry (memory_ports desk_codec)) (SingleRecord ''b'') [bound (ActExecute (close_request ''b''))] desk_opened
      = (m', if me_next_script desk_opened = None then Some (Ok (AppendCommitted (SingleReceipt (sr_receipt r')) False)) else None)"
    using closing_asked m'(1) r by (intro batch_single) (auto simp: request desk_serde)
  then have run: "exec_execute desk_codec desk_executor (close_request ''b'') desk_opened
      = (m', Some (Ok (AppendCommitted (SingleReceipt (sr_receipt r')) False)))"
    by (simp add: exec_execute_def exec_batch_def desk_executor_def close_request_def stamp_def r)
  then have eq: "m' = desk_closed" by (simp add: desk_closed_def)
  have "bt_get (me_instances m') = [desk_subject \<mapsto> closed_instance]"
    using m'(2) unfolding shelved_def consulted_same desk_members r by simp
  from that [OF run [unfolded eq] this [unfolded eq]] show thesis .
qed

lemma create_kept:
  assumes "recorded_ok C m" "indexed C m"
  shows "kept C m (fst (exec_create C (executor_new R (memory_ports C)) q m))"
  using batch_bound_keeps [OF _ assms] unfolding exec_create_def exec_batch_def by (metis fst_conv surj_pair)

lemma execute_kept:
  assumes "recorded_ok C m" "indexed C m"
  shows "kept C m (fst (exec_execute C (executor_new R (memory_ports C)) q m))"
  using batch_bound_keeps [OF _ assms] unfolding exec_execute_def exec_batch_def by (metis fst_conv surj_pair)

lemma desk_kept: "kept desk_codec recorded_new desk_opened" "kept desk_codec desk_opened desk_closed" "kept desk_codec recorded_new desk_closed"
proof -
  show opened: "kept desk_codec recorded_new desk_opened"
    unfolding desk_opened_def desk_executor_def using new_ok by (rule create_kept)
  show closed: "kept desk_codec desk_opened desk_closed"
    unfolding desk_closed_def desk_executor_def using opened by (intro execute_kept) (simp_all add: kept_def)
  show "kept desk_codec recorded_new desk_closed" using opened closed by (rule kept_trans)
qed

lemma desk_reachable: "recorded_reachable desk_codec desk_opened" "recorded_reachable desk_codec desk_closed"
  using desk_kept by (simp_all add: kept_def)

lemma desk_pends: "exec_create desk_codec desk_executor open_request (script_next_append CommitThenPending recorded_new) = (desk_pending, None)"
proof -
  obtain m' where "exec_create desk_codec desk_executor open_request (script_next_append CommitThenPending recorded_new) = (m', None)"
    by (rule desk_opening [of "script_next_append CommitThenPending recorded_new"]) (auto simp: script_next_append_def)
  then show ?thesis by (simp add: desk_pending_def)
qed

text \<open>Its history, whole and up to the creation.\<close>

lemma desk_history:
  obtains h where "bt_get (me_histories desk_closed) desk_subject = Some h" "sh_origin h = Genesis" "\<not> branched h"
    "verify_subject_history desk_codec (h\<lparr>sh_records := take 1 (sh_records h)\<rparr>) ticket_instance = Ok (VerifiedFromGenesis desk_subject)"
    "verify_subject_history desk_codec h closed_instance = Ok (VerifiedFromGenesis desk_subject)"
proof -
  have ok: "recorded_ok desk_codec desk_opened" "recorded_ok desk_codec desk_closed" "holds_on desk_opened desk_closed"
    using desk_kept by (simp_all add: kept_def)
  obtain r where r: "bt_get (me_instances desk_opened) = [desk_subject \<mapsto> ticket_instance]"
    "bt_get (me_histories desk_opened) = [desk_subject \<mapsto> (history_new desk_subject)\<lparr>sh_records := [r]\<rparr>]"
    by (rule desk_opened_facts)
  obtain h0 where h0: "bt_get (me_histories desk_opened) desk_subject = Some h0" "\<not> branched h0" "verifies desk_codec h0 (Some ticket_instance)"
    using held_instance [OF ok(1), of desk_subject ticket_instance] r(1) by auto
  then have eq: "h0 = (history_new desk_subject)\<lparr>sh_records := [r]\<rparr>" using r(2) by simp
  have "bt_get (me_instances desk_closed) desk_subject = Some closed_instance" by (rule desk_closing) simp
  from held_instance [OF ok(2) this] obtain h where h: "bt_get (me_histories desk_closed) desk_subject = Some h" "\<not> branched h"
    "verifies desk_codec h (Some closed_instance)" by blast
  obtain ts where "h = h0\<lparr>sh_records := sh_records h0 @ ts\<rparr>" using ok(3) h0(1) h(1) unfolding holds_on_def grows_def by fastforce
  then have parts: "h\<lparr>sh_records := take 1 (sh_records h)\<rparr> = h0" "sh_origin h = Genesis" "sh_subject h = desk_subject"
    by (simp_all add: eq history_new_def)
  have "assured h0 = VerifiedFromGenesis desk_subject" "assured h = VerifiedFromGenesis desk_subject"
    using parts by (simp_all add: assured_def eq history_new_def)
  then show thesis
    using that [OF h(1) parts(2) h(2)] verify_linear_Ok [OF h0(2)] verify_linear_Ok [OF h(2)] h0(3) h(3) unfolding parts(1) by auto
qed

definition opening_request :: append_request where
  "opening_request = \<lparr>aq_key = Some (SingleRecord ''a''), aq_members = [opening]\<rparr>"

lemma opening_appends:
  obtains m' receipt where "recorded_append desk_codec opening_request recorded_new = (m', Some (Ok (AppendCommitted receipt False)))"
    "me_next_script m' = None"
proof -
  let ?m = "trace_call ''append'' recorded_new"
  have empty: "me_batches ?m = []" "me_records ?m = []" "me_instances ?m = []" "me_histories ?m = []" "me_next_position ?m = Some 0"
    by (simp_all add: recorded_new_def trace_call_def)
  have key: "validate_key (SingleRecord ''a'') = Ok ()" by (simp add: validate_key_def key_value_def desk_blank ensure_def)
  obtain m' and r :: stored_record where "transact desk_codec (SingleRecord ''a'') [opening] ?m = Ok (m', AppendCommitted (SingleReceipt (sr_receipt r)) False)"
    and script: "shelved (SingleRecord ''a'') opening ticket_instance r ?m m'"
  proof (rule transact_single)
    show "batch_comparison_bytes desk_codec (SingleRecord ''a'') [opening] = Ok ''bytes''" by (rule desk_batch_bytes [OF key])
    show "entry_record_id (am_entry opening) = ''a''" by (rule desk_members)
    show "bt_get (me_batches ?m) (SingleRecord ''a'') = None" "bt_get (me_records ?m) ''a'' = None" "me_next_position ?m = Some 0"
      "subject_position desk_codec (entry_subject (am_entry opening)) (bt_get (me_histories ?m) (entry_subject (am_entry opening))) = Ok 0"
      by (simp_all add: empty subject_position_def)
    show "validate_entry_against_state desk_codec (am_entry opening) (am_expect opening) (bt_get (me_instances ?m) (entry_subject (am_entry opening)))
        = Ok (Some ticket_instance)"
      using desk_admits(1) by (simp add: empty) (simp add: member_new_def)
    show "record_comparison_bytes desk_codec (am_entry opening) = Ok ''bytes''" by (simp add: member_new_def desk_bytes)
  qed
  moreover have "consume_script recorded_new = (recorded_new, None)" by (simp add: consume_script_def recorded_new_def)
  ultimately have "recorded_append desk_codec opening_request recorded_new = (m', Some (Ok (AppendCommitted (SingleReceipt (sr_receipt r)) False)))"
    using opening_asked(5) by (simp add: recorded_append_def opening_request_def append_transaction_def scripted_def Let_def)
  with that script show thesis by (auto simp: shelved_def trace_call_def recorded_new_def)
qed

end
