(* ===== verification/Projection.thy ===== *)
theory Projection
  imports Lifecycle Soundness
begin

text \<open>
  The read models of \<open>entity-store/src/projection.rs\<close>: each declared projection groups the identities of instances
  by a key. The address walk of the service rules is the store's own copy of the kernel's, without the length of a text;
  the last section shows that a registered key is read as the kernel reads it.
\<close>

section \<open>Keys\<close>

definition spelled :: "json \<Rightarrow> string option" where
  "spelled v = (case v of
     JString s \<Rightarrow> Some s
   | JNumber n \<Rightarrow> Some n
   | JBool b \<Rightarrow> Some (if b then ''true'' else ''false'')
   | _ \<Rightarrow> None)"

datatype projected_read = ReadHeld json | ReadCount nat

definition projected_variant :: "field_definition \<Rightarrow> json \<Rightarrow> string \<Rightarrow> field_definition option" where
  "projected_variant f v segment =
     (let content = (if fd_tag f = Some ''value'' then ''content'' else ''value'') in
      if segment \<noteq> content then None
      else do {
        members \<leftarrow> as_object v;
        tag \<leftarrow> bt_get members (case fd_tag f of Some t \<Rightarrow> t | None \<Rightarrow> ''kind'');
        label \<leftarrow> as_str tag;
        bt_get (fd_variants f) label
      })"

function service_walk :: "json \<Rightarrow> string \<Rightarrow> field_definition option \<Rightarrow> bool \<Rightarrow> projected_read option" where
  "service_walk v path field checked = (case next_segment path of (segment, rest) \<Rightarrow>
     let declared = map_option fd_kind field;
         members = (\<lambda>_::unit.
           if declared = Some KMap then None
           else (case Option.bind (as_object v) (\<lambda>m. bt_get m segment) of
               None \<Rightarrow> None
             | Some next \<Rightarrow>
                 (case rest of
                    None \<Rightarrow> Some (ReadHeld next)
                  | Some rest \<Rightarrow> service_walk next rest
                      (Option.bind field (\<lambda>f. case fd_kind f of
                         KObject \<Rightarrow> bt_get (fd_properties f) segment
                       | KUnion \<Rightarrow> projected_variant f v segment
                       | _ \<Rightarrow> None))
                      (checked \<and> declared \<noteq> Some KUnion)))) in
     if checked \<and> declared = Some KString then None
     else (case v of
         JObject m \<Rightarrow>
           if declared = Some KMap \<and> segment = ''count'' then (if rest = None then Some (ReadCount (length m)) else None)
           else members ()
       | JArray vs \<Rightarrow>
           if segment = ''count'' then (if rest = None then Some (ReadCount (length vs)) else None)
           else if segment \<noteq> ''0'' \<and> starts_with segment ''0'' then None
           else (case parse_unsigned 64 segment of
               None \<Rightarrow> None
             | Some i \<Rightarrow>
                 if i < length vs
                 then (case rest of
                     None \<Rightarrow> Some (ReadHeld (vs ! i))
                   | Some rest \<Rightarrow> service_walk (vs ! i) rest (Option.bind field fd_items) checked)
                 else None)
       | _ \<Rightarrow> members ()))"
  by pat_completeness auto
termination
  by (relation "measure (\<lambda>(_, path, _). length path)") (auto simp: next_segment_smaller)

declare service_walk.simps [simp del]

definition service_lookup :: "jmap \<Rightarrow> string \<Rightarrow> object_schema \<Rightarrow> projected_read option" where
  "service_lookup root_map path schema = (case next_segment path of (first, rest) \<Rightarrow>
     if first = [] then None
     else (case bt_get root_map first of
         None \<Rightarrow> None
       | Some v \<Rightarrow>
           let field = bt_get (os_fields schema) first in
           (case rest of
              None \<Rightarrow> Some (ReadHeld v)
            | Some rest \<Rightarrow> service_walk v rest field (field \<noteq> None))))"

fun members_at :: "json \<Rightarrow> string list \<Rightarrow> json option" where
  "members_at v [] = Some v"
| "members_at v (part # parts) = (case Option.bind (as_object v) (\<lambda>m. bt_get m part) of
     None \<Rightarrow> None
   | Some next \<Rightarrow> members_at next parts)"

definition key_of :: "string \<Rightarrow> entity_instance \<Rightarrow> entity_definition \<Rightarrow> string option" where
  "key_of reference i d =
     (if reference = ''$state'' then Some (in_state i)
      else if reference = ''$id'' then Some (in_id i)
      else if reference = ''$entity'' then Some (in_entity i)
      else if reference = ''$version'' then Some (number_of_nat (unat (in_version i)))
      else (case strip_prefix ''$fields.'' reference of
          None \<Rightarrow> None
        | Some path \<Rightarrow>
            if has_service_semantics (def_semantics d)
            then (case service_lookup (in_fields i) path (def_schema d) of
                None \<Rightarrow> None
              | Some (ReadHeld v) \<Rightarrow> spelled v
              | Some (ReadCount n) \<Rightarrow> Some (number_of_nat n))
            else (case split_all is_dot path of
                [] \<Rightarrow> None
              | first # parts \<Rightarrow> (case bt_get (in_fields i) first of
                    None \<Rightarrow> None
                  | Some v \<Rightarrow> Option.bind (members_at v parts) spelled))))"

section \<open>Groupings\<close>

type_synonym grouping = "string list smap"

definition projected :: "entity_definition \<Rightarrow> projection_definition \<Rightarrow> entity_instance \<Rightarrow> grouping \<Rightarrow> grouping" where
  "projected d p i g =
     (if in_entity i \<noteq> def_entity d \<or> in_version i \<noteq> def_version d then g
      else if (case pd_in_state p of Some state \<Rightarrow> in_state i \<noteq> state | None \<Rightarrow> False) then g
      else (case key_of (pd_key p) i d of
          None \<Rightarrow> g
        | Some key \<Rightarrow> bt_insert key (bs_insert (in_id i) (case bt_get g key of Some ids \<Rightarrow> ids | None \<Rightarrow> [])) g))"

definition project :: "entity_definition \<Rightarrow> entity_instance list \<Rightarrow> grouping smap" where
  "project d instances = bt_collect (map (\<lambda>(name, p). (name, fold (projected d p) instances [])) (def_projections d))"

section \<open>What a grouping holds\<close>

definition groups :: "grouping \<Rightarrow> string \<Rightarrow> string \<Rightarrow> bool" where
  "groups g key i \<longleftrightarrow> (\<exists>ids. bt_get g key = Some ids \<and> i \<in> set ids)"

definition filed_under :: "entity_definition \<Rightarrow> projection_definition \<Rightarrow> entity_instance \<Rightarrow> string \<Rightarrow> bool" where
  "filed_under d p i key \<longleftrightarrow> in_entity i = def_entity d \<and> in_version i = def_version d
     \<and> (\<forall>state. pd_in_state p = Some state \<longrightarrow> in_state i = state) \<and> key_of (pd_key p) i d = Some key"

lemma projected_groups: "groups (projected d p x g) key i \<longleftrightarrow> groups g key i \<or> (in_id x = i \<and> filed_under d p x key)"
  by (auto simp: projected_def groups_def filed_under_def split: option.splits dest: sym)

lemma grouping_groups:
  "groups (fold (projected d p) xs g) key i \<longleftrightarrow> groups g key i \<or> (\<exists>x \<in> set xs. in_id x = i \<and> filed_under d p x key)"
  by (induction xs arbitrary: g) (auto simp: projected_groups)

lemma projection_grouping:
  assumes "distinct (map fst (def_projections d))" "(name, p) \<in> set (def_projections d)"
  shows "bt_get (project d xs) name = Some (fold (projected d p) xs [])"
proof -
  let ?each = "map (\<lambda>(name, p). (name, fold (projected d p) xs [])) (def_projections d)"
  have names: "distinct (map fst ?each)" using assms(1) by (simp add: comp_def case_prod_unfold)
  have "(name, fold (projected d p) xs []) \<in> set ?each" using assms(2) by auto
  from map_of_is_SomeI [OF names this] show ?thesis
    by (simp add: project_def bt_get_collect map_of_rev_distinct [OF names])
qed

section \<open>A key is what the kernel reads\<close>

definition read_value :: "projected_read \<Rightarrow> json" where
  "read_value r = (case r of ReadHeld v \<Rightarrow> v | ReadCount n \<Rightarrow> JNumber (number_of_nat n))"

lemma read_value_simps [simp]: "read_value (ReadHeld v) = v" "read_value (ReadCount n) = JNumber (number_of_nat n)"
  by (simp_all add: read_value_def)

lemma projected_variant_selected: "projected_variant = selected_variant"
  by (intro ext) (simp add: projected_variant_def selected_variant_def content_key_def tag_key_def Let_def)

text \<open>A declaration registration accepted, and what it says of the declarations inside it.\<close>

definition well_declared :: "field_definition \<Rightarrow> bool" where
  "well_declared f \<longleftrightarrow> (\<exists>path k. validate_field_definition f path k = [])"

lemma well_declared_parts:
  assumes "well_declared f"
  shows "fd_items f = Some g \<Longrightarrow> well_declared g" "map_of (fd_properties f) n = Some g \<Longrightarrow> well_declared g"
    "map_of (fd_variants f) n = Some g \<Longrightarrow> well_declared g" "fd_items f \<noteq> None \<Longrightarrow> fd_kind f = KArray \<or> fd_kind f = KMap"
proof -
  obtain path k where valid: "validate_field_definition f path k = []" using assms by (auto simp: well_declared_def)
  note parts = valid [unfolded validate_field_definition.simps [of f] append_is_Nil_conv]
  show "fd_items f = Some g \<Longrightarrow> well_declared g" using parts unfolding well_declared_def by auto
  show "well_declared g" if "map_of (fd_properties f) n = Some g"
    using parts map_of_SomeD [OF that] unfolding well_declared_def by fastforce
  show "well_declared g" if "map_of (fd_variants f) n = Some g"
    using parts map_of_SomeD [OF that] unfolding well_declared_def by fastforce
  show "fd_kind f = KArray \<or> fd_kind f = KMap" if "fd_items f \<noteq> None"
    using parts that by (auto simp: validate_constraint_applicability_def Let_def split: if_splits)
qed

text \<open>What a projection's walk may assume of the declaration it has reached.\<close>

definition readable :: "semantics \<Rightarrow> json \<Rightarrow> string \<Rightarrow> field_definition option \<Rightarrow> bool \<Rightarrow> bool" where
  "readable k v path field checked \<longleftrightarrow> (\<forall>f. field = Some f \<longrightarrow> conforms k f v \<and> well_declared f
     \<and> (checked \<longrightarrow> (\<exists>walked. walk_field_path f walked path ProjectionReader True = Ok ())))"

lemma readable_None [simp]: "readable k v path None checked"
  by (simp add: readable_def)

lemma readable_element:
  assumes "readable k (JArray vs) path field checked" "next_segment path = (segment, Some rest)" "segment \<noteq> ''count''"
    and "segment \<noteq> ''0'' \<longrightarrow> \<not> starts_with segment ''0''" "parse_unsigned 64 segment = Some i" "i < length vs"
  shows "readable k (vs ! i) rest (Option.bind field fd_items) checked"
proof (cases field)
  case (Some f)
  show ?thesis
  proof (cases "fd_items f")
    case items: (Some g)
    have f: "conforms k f (JArray vs)" "well_declared f" using assms(1) Some by (simp_all add: readable_def)
    have kind: "fd_kind f = KArray" using well_declared_parts(4) [OF f(2)] items f(1) by (auto simp: conforms_kind)
    have "conforms k g (vs ! i)" using f(1) kind items assms(6) by (auto simp: conforms_kind)
    moreover have "\<exists>walked. walk_field_path g walked rest ProjectionReader True = Ok ()" if c: checked
    proof -
      have "\<exists>walked. walk_field_path f walked path ProjectionReader True = Ok ()" using assms(1) Some c by (auto simp: readable_def)
      then obtain walked where "walk_field_path f walked path ProjectionReader True = Ok ()" ..
      then show ?thesis
        using kind items assms(2,3) by (subst (asm) walk_field_path.simps) (auto simp: Let_def split: if_splits)
    qed
    ultimately show ?thesis using well_declared_parts(1) [OF f(2) items] by (simp add: readable_def Some items)
  qed (simp add: Some)
qed simp

lemma readable_member:
  assumes "readable k (JObject m) path field checked" "next_segment path = (segment, Some rest)" "map_of m segment = Some w"
    and "segment \<noteq> ''count'' \<or> map_option fd_kind field \<noteq> Some KMap"
  shows "readable k w rest (member_field field (JObject m) segment) (checked \<and> map_option fd_kind field \<noteq> Some KUnion)"
proof (cases field)
  case (Some f)
  have f: "conforms k f (JObject m)" "well_declared f" using assms(1) Some by (simp_all add: readable_def)
  consider (obj) "fd_kind f = KObject" | (uni) "fd_kind f = KUnion" | (other) "fd_kind f \<noteq> KObject" "fd_kind f \<noteq> KUnion" by blast
  then show ?thesis
  proof cases
    case obj
    show ?thesis
    proof (cases "map_of (fd_properties f) segment")
      case None
      then show ?thesis by (simp add: Some obj member_field_def)
    next
      case (Some g)
      have "members_conform (conforms k) (fd_properties f) (fd_additional_properties f) m" using f(1) obj by (auto simp: conforms_kind)
      from members_conformD(1) [OF this assms(3) Some] have "conforms k g w" .
      moreover have "\<exists>walked. walk_field_path g walked rest ProjectionReader True = Ok ()" if c: checked
      proof -
        have "\<exists>walked. walk_field_path f walked path ProjectionReader True = Ok ()"
          using assms(1) \<open>field = Some f\<close> c by (auto simp: readable_def)
        then obtain walked where "walk_field_path f walked path ProjectionReader True = Ok ()" ..
        then show ?thesis
          using obj Some assms(2) by (subst (asm) walk_field_path.simps) (auto simp: Let_def split: if_splits)
      qed
      ultimately show ?thesis
        using well_declared_parts(2) [OF f(2) Some] by (simp add: readable_def \<open>field = Some f\<close> obj member_field_def Some)
    qed
  next
    case uni
    have "conforms k g w" "well_declared g" if "selected_variant f (JObject m) segment = Some g" for g
    proof -
      from that obtain label where g: "segment = content_key f" "map_of m (tag_key f) = Some (JString label)" "map_of (fd_variants f) label = Some g"
        by (auto simp: selected_variant_def bind_eq_Some_conv as_str_Some split: if_splits)
      show "well_declared g" by (rule well_declared_parts(3) [OF f(2) g(3)])
      show "conforms k g w" using f(1) uni g assms(3) by (auto simp: conforms_kind union_conforms_def)
    qed
    then show ?thesis by (auto simp: readable_def Some uni member_field_def)
  qed (auto simp: Some member_field_def split: field_kind.splits)
qed (simp add: member_field_def)

lemma readable_untyped:
  assumes "readable k v path field checked"
  shows "\<not> (checked \<and> map_option fd_kind field = Some KString)"
    and "v = JArray vs \<Longrightarrow> reads_array field" "map_option fd_kind field = Some KArray \<Longrightarrow> \<exists>vs. v = JArray vs"
proof -
  show "\<not> (checked \<and> map_option fd_kind field = Some KString)"
  proof
    assume checked: "checked \<and> map_option fd_kind field = Some KString"
    then obtain f where f: "field = Some f" "fd_kind f = KString" by auto
    obtain segment rest where split: "next_segment path = (segment, rest)" by fastforce
    have "\<exists>walked. walk_field_path f walked path ProjectionReader True = Ok ()"
      using assms f checked by (auto simp: readable_def)
    then obtain walked where "walk_field_path f walked path ProjectionReader True = Ok ()" ..
    then show False using f split by (subst (asm) walk_field_path.simps) (auto simp: Let_def split: if_splits)
  qed
  show "reads_array field" if "v = JArray vs"
  proof (cases field)
    case (Some f)
    then have "conforms k f v" using assms by (simp add: readable_def)
    then show ?thesis using that Some by (cases "fd_kind f") (auto simp: reads_array_def conforms_kind)
  qed (simp add: reads_array_def)
  show "\<exists>vs. v = JArray vs" if "map_option fd_kind field = Some KArray"
    using assms that by (auto simp: readable_def conforms_kind)
qed

lemma walk_past_count [simp]: "walk (JNumber n) path None checked True Root = None"
  by (subst walk.simps) (auto simp: declared_at_def collection_address_def Let_def split: prod.splits)

text \<open>On a declared address of a conforming value the store's walk reads what the kernel's reads.\<close>

lemma service_walk_reads:
  "readable k v path field checked \<Longrightarrow>
     walk v path field checked True Root = map_option read_value (service_walk v path field checked)"
proof (induction "length path" arbitrary: path v field checked rule: less_induct)
  case less
  obtain segment rest where split: "next_segment path = (segment, rest)" by fastforce
  have shorter: "length r < length path" if "rest = Some r" for r using split that by (simp add: next_segment_shorter)
  note facts = readable_untyped [OF less.prems]
  have scalar: ?case if "\<And>m. v \<noteq> JObject m" "\<And>vs. v \<noteq> JArray vs"
  proof -
    have "as_object v = None" using that(1) by (cases v) auto
    moreover have "collection_address v field segment = None" using that by (cases v) (auto simp: collection_address_def)
    ultimately have "walk v path field checked True Root = None" "service_walk v path field checked = None"
      using facts(1) that
      by (subst walk.simps service_walk.simps; auto simp: split Let_def simp del: map_option_eq_Some split: json.split)+
    then show ?thesis by simp
  qed
  show ?case
  proof (cases v)
    case (JArray vs)
    have deeper: "walk (vs ! i) r (Option.bind field fd_items) checked True Root
        = map_option read_value (service_walk (vs ! i) r (Option.bind field fd_items) checked)"
      if "rest = Some r" "segment \<noteq> ''count''" "segment \<noteq> ''0'' \<longrightarrow> \<not> starts_with segment ''0''"
        "parse_unsigned 64 segment = Some i" "i < length vs" for r i
      using less.hyps [OF shorter [OF that(1)]] readable_element [OF less.prems [unfolded JArray] split [unfolded that(1)] that(2-5)]
      by blast
    have array: "reads_array field" by (rule facts(2) [OF JArray])
    show ?thesis
      using facts(1) deeper array
      by (subst walk.simps, subst service_walk.simps)
        (auto simp: JArray split Let_def collection_address_def split: option.splits)
  next
    case (JObject m)
    have deeper: "walk w r (member_field field v segment) (checked \<and> map_option fd_kind field \<noteq> Some KUnion) True Root
        = map_option read_value (service_walk w r (member_field field v segment) (checked \<and> map_option fd_kind field \<noteq> Some KUnion))"
      if "rest = Some r" "map_of m segment = Some w" "map_option fd_kind field \<noteq> Some KMap" for r w
      using less.hyps [OF shorter [OF that(1)]] readable_member [OF less.prems [unfolded JObject] split [unfolded that(1)] that(2)] that(3)
      by (simp add: JObject)
    have "map_option fd_kind field \<noteq> Some KArray" using facts(3) JObject by auto
    note kind = facts(1) this
    have next_field: "Option.bind field (\<lambda>f. case fd_kind f of
        KObject \<Rightarrow> map_of (fd_properties f) segment | KUnion \<Rightarrow> projected_variant f v segment | _ \<Rightarrow> None) = member_field field v segment"
      unfolding member_field_def projected_variant_selected ..
    show ?thesis
    proof (cases "map_option fd_kind field = Some KMap")
      case True
      then show ?thesis
        by (subst walk.simps, subst service_walk.simps)
          (simp add: JObject split Let_def collection_address_def split: option.split)
    next
      case False
      then show ?thesis
        using kind deeper next_field
        by (subst walk.simps, subst service_walk.simps)
          (auto simp: JObject split Let_def collection_address_def simp del: map_option_eq_Some split: option.split)
    qed
  qed (use scalar in auto)
qed

lemma walk_members: "walk v path field checked False start = members_at v (split_all is_dot path)"
proof (induction "length path" arbitrary: path v field checked rule: less_induct)
  case less
  obtain segment rest where split: "next_segment path = (segment, rest)" by fastforce
  show ?case
    using less.hyps [OF next_segment_shorter]
    by (subst walk.simps, subst split_all_next) (auto simp: split Let_def split: option.splits)
qed

section \<open>What a registered key names\<close>

lemma strip_prefix_self [simp]: "strip_prefix p (p @ r) = Some r"
  by simp

lemma plain_strip: "\<not> starts_with e ''$'' \<Longrightarrow> strip_prefix (CHR ''$'' # p) e = None"
  by (cases e) (auto simp: starts_with_iff)

lemma registered_keys:
  assumes "registered d" "(name, p) \<in> set (def_projections d)"
  shows "validate_reference (pd_key p) (entity_scope d ScopeInvariant None) ProjectionReader = Ok ()"
proof -
  have "validate_projections d = []" using assms(1) validate_definition_Nil(8) by (simp add: registered_def)
  from bspec [OF this [unfolded validate_projections_def concat_eq_Nil_conv set_map ball_simps] assms(2)]
  show ?thesis by (simp add: Let_def map_err_Ok_iff)
qed

lemma key_forms:
  assumes "validate_reference e (entity_scope d ScopeInvariant None) ProjectionReader = Ok ()"
  obtains (root) "e \<in> {''$id'', ''$entity'', ''$version'', ''$state'', ''$fields''}"
    | (plain) "\<not> starts_with e ''$''"
    | (path) path where "e = ''$fields.'' @ path"
        "validate_schema_path (def_schema d) path ''field'' ProjectionReader (has_service_semantics (def_semantics d)) = Ok ()"
proof (cases "scope_allows (entity_scope d ScopeInvariant None) e")
  case True
  then show ?thesis using root by (auto simp: scope_allows_def entity_scope_def split: if_splits)
next
  case False
  show ?thesis
  proof (cases "strip_prefix ''$fields.'' e")
    case (Some p)
    then show ?thesis using assms False path [of p]
      by (auto simp: validate_reference_def entity_scope_def scope_allows_def scope_service_def reference_roots_def
          map_err_Ok_iff split: prod.splits)
  next
    case None
    then show ?thesis using assms False plain
      by (auto simp: validate_reference_def entity_scope_def reference_roots_def scope_allows_def
          split: prod.splits option.splits if_splits)
  qed
qed

lemma declared_field_readable:
  assumes "registered d" "instance_ok S d i" "map_of (in_fields i) first = Some v"
    and "validate_schema_path (def_schema d) path ''field'' ProjectionReader True = Ok ()" "next_segment path = (first, Some rest)"
  shows "readable (def_semantics d) v rest (map_of (os_fields (def_schema d)) first) (map_of (os_fields (def_schema d)) first \<noteq> None)"
proof (cases "map_of (os_fields (def_schema d)) first")
  case (Some f)
  have schema: "schema_ok (def_schema d)" "validate_schema_definition (def_schema d) ''schema'' (def_semantics d) = []"
    using assms(1) unfolding registered_def document_ok_def validate_definition_def append_is_Nil_conv by blast+
  have "members_conform (conforms (def_semantics d)) (os_fields (def_schema d)) (os_additional_fields (def_schema d)) (in_fields i)"
    using assms(2) schema(1) validate_object_Nil by (auto simp: instance_ok_def)
  then have "conforms (def_semantics d) f v" using members_conformD(1) assms(3) Some by blast
  moreover have "well_declared f"
    using schema(2) map_of_SomeD [OF Some] unfolding well_declared_def validate_schema_definition_def by fastforce
  moreover have "walk_field_path f first rest ProjectionReader True = Ok ()"
    using assms(4,5) Some by (simp add: validate_schema_path_def split: if_splits)
  ultimately show ?thesis by (auto simp: readable_def Some)
qed simp

lemma fields_path_reads:
  assumes "registered d" "instance_ok S d i"
    and "validate_schema_path (def_schema d) path ''field'' ProjectionReader (has_service_semantics (def_semantics d)) = Ok ()"
  shows "key_of (''$fields.'' @ path) i d = Option.bind
     (lookup (in_fields i) path (Some (def_schema d)) (has_service_semantics (def_semantics d))) spelled"
proof -
  obtain first rest where split: "next_segment path = (first, rest)" by fastforce
  have first: "first \<noteq> []" using assms(3) split by (auto simp: validate_schema_path_def)
  have spells: "(case r of None \<Rightarrow> None | Some (ReadHeld v) \<Rightarrow> spelled v | Some (ReadCount n) \<Rightarrow> Some (number_of_nat n))
      = Option.bind (map_option read_value r) spelled" for r
    by (auto simp: spelled_def split: option.split projected_read.split)
  show ?thesis
  proof (cases "has_service_semantics (def_semantics d)")
    case True
    let ?field = "map_of (os_fields (def_schema d)) first"
    have "walk v r ?field (?field \<noteq> None) True Root = map_option read_value (service_walk v r ?field (?field \<noteq> None))"
      if "map_of (in_fields i) first = Some v" "rest = Some r" for v r
      using service_walk_reads [OF declared_field_readable [OF assms(1,2) that(1) assms(3) [simplified True] split [unfolded that(2)]]] .
    then have "lookup (in_fields i) path (Some (def_schema d)) True
        = map_option read_value (service_lookup (in_fields i) path (def_schema d))"
      using first by (auto simp: lookup_def service_lookup_def split Let_def simp del: not_None_eq split: option.split)
    then show ?thesis by (simp add: key_of_def True spells strip_prefix_self)
  next
    case False
    then show ?thesis using first
      by (auto simp: key_of_def lookup_def walk_members split split_all_next [of path] strip_prefix_self split: option.split)
  qed
qed

lemma key_reads:
  assumes "registered d" "instance_ok S d i"
    and "validate_reference e (entity_scope d ScopeInvariant None) ProjectionReader = Ok ()"
  shows "key_of e i d = Some key \<longleftrightarrow> (\<exists>v. resolve_expression_optional e
     (operation_context d i op args (in_fields i) (in_state i)) [] = Ok (Some v) \<and> spelled v = Some key)"
proof -
  have i: "in_entity i = def_entity d" "in_version i = def_version d"
    using assms(2) by (auto simp: instance_ok_def ensure_instance_matches_def ensure_entity_matches_def res_simps split: if_splits)
  from assms(3) show ?thesis
  proof (cases rule: key_forms)
    case root
    then show ?thesis
      by (auto simp: key_of_def resolve_expression_optional_def resolve_named_def operation_context_def i spelled_def
          split: prod.split)
  next
    case plain
    moreover have "e \<noteq> CHR ''$'' # r" for r using plain by (auto simp: starts_with_iff)
    ultimately show ?thesis
      by (simp add: key_of_def resolve_expression_optional_def resolve_named_def resolve_root_def plain_strip split: prod.split)
  next
    case (path p)
    show ?thesis
      using fields_path_reads [OF assms(1,2) path(2)]
      by (auto simp: path(1) resolve_expression_optional_def resolve_named_def resolve_root_def operation_context_def
          service_def strip_prefix_self bind_eq_Some_conv split: prod.split)
  qed
qed

section \<open>Read models\<close>

lemma filed_under_reads:
  assumes "registered d" "(name, p) \<in> set (def_projections d)" "in_entity i = def_entity d \<and> in_version i = def_version d \<longrightarrow> instance_ok S d i"
  shows "filed_under d p i key \<longleftrightarrow> in_entity i = def_entity d \<and> in_version i = def_version d
     \<and> (\<forall>state. pd_in_state p = Some state \<longrightarrow> in_state i = state)
     \<and> (\<exists>v. resolve_expression_optional (pd_key p) (operation_context d i op args (in_fields i) (in_state i)) [] = Ok (Some v)
          \<and> spelled v = Some key)"
proof (cases "in_entity i = def_entity d \<and> in_version i = def_version d")
  case True
  with assms(3) have "instance_ok S d i" by blast
  from key_reads [OF assms(1) this registered_keys [OF assms(1,2)]] True show ?thesis unfolding filed_under_def by blast
qed (auto simp: filed_under_def)

lemma projection_answers:
  assumes "registered d" "distinct (map fst (def_projections d))" "(name, p) \<in> set (def_projections d)"
    and "\<forall>i \<in> set xs. in_entity i = def_entity d \<and> in_version i = def_version d \<longrightarrow> instance_ok S d i"
  shows "\<exists>g. bt_get (project d xs) name = Some g \<and> (\<forall>key who. (\<exists>ids. bt_get g key = Some ids \<and> who \<in> set ids)
     \<longleftrightarrow> (\<exists>i \<in> set xs. in_id i = who \<and> in_entity i = def_entity d \<and> in_version i = def_version d
       \<and> (\<forall>state. pd_in_state p = Some state \<longrightarrow> in_state i = state)
       \<and> (\<exists>v. resolve_expression_optional (pd_key p) (operation_context d i op args (in_fields i) (in_state i)) [] = Ok (Some v)
            \<and> spelled v = Some key)))"
proof -
  have "groups (fold (projected d p) xs []) key who \<longleftrightarrow> (\<exists>i \<in> set xs. in_id i = who \<and> filed_under d p i key)" for key who
    by (simp add: grouping_groups) (simp add: groups_def)
  with filed_under_reads [OF assms(1,3)] assms(4) show ?thesis
    unfolding projection_grouping [OF assms(2,3)] groups_def by fastforce
qed

text \<open>Registration admits a key that is no reference, under which nothing is ever filed.\<close>

lemma plain_key_files_nothing:
  assumes "\<not> starts_with (pd_key p) ''$''"
  shows "validate_reference (pd_key p) (entity_scope d ScopeInvariant None) ProjectionReader = Ok ()"
    and "projected d p i g = g"
proof -
  have e: "pd_key p \<noteq> CHR ''$'' # r" for r using assms by (auto simp: starts_with_iff)
  show "validate_reference (pd_key p) (entity_scope d ScopeInvariant None) ProjectionReader = Ok ()"
    using assms by (simp add: validate_reference_def entity_scope_def reference_roots_def plain_strip split: prod.split)
  show "projected d p i g = g" using assms e by (simp add: projected_def key_of_def plain_strip)
qed

end
