(* ===== verification/Spec2Isabelle.thy ===== *)
theory Spec2Isabelle
  imports Stored Folded Desk Projection
begin

text \<open>
  Verification of the entity runtime: its kernel, its recorded store and its executor.

  The program. A definition (an entity type with a schema, a lifecycle, operations, rules and an identity)
  is registered once; the kernel then decides what a command does to an instance of it, purely: it takes the
  definition, the instance and the command's arguments and answers with a decision (the next instance, a
  record and events), a refusal, or an error. The executor is the host's loop around it: it looks a request up by its
  identities, reads state, asks the kernel, and appends the decided records to a recorded store as one batch; the
  store admits each record by rerunning its command, and its verifiers rerun whole histories.

  The theories, in the order of the code (all under \<open>src/crates\<close>):

  \<^item> \<open>Prelude\<close>, \<open>Maps\<close>, \<open>Strings\<close>, \<open>Json\<close>, \<open>Decimals\<close>: results (\<open>Err\<close>, \<open>Ok\<close>, \<open>rbind\<close> for \<open>?\<close>), ordered
    maps and sets (\<open>BTreeMap\<close>, \<open>BTreeSet\<close> as ascending lists, with the map laws as the locale \<open>ordered_map\<close>),
    UTF-8 strings as byte lists, JSON values with number tokens, and the digits of decimals.
  \<^item> \<open>Truth\<close>: \<open>entity-core/src/truth.rs\<close>. The locale \<open>three_valued\<close> is interpreted on the truth of a condition
    and on the partial truth of a guard read before its subject is loaded.
  \<^item> \<open>Number\<close>, \<open>Binary64\<close>, \<open>Observed\<close>: \<open>number.rs\<close> and \<open>observed.rs\<close>. The locale \<open>comparison\<close> (a comparison
    that decides the order of a meaning) is interpreted on number tokens, exact observations and instants.
    The conversions \<open>f64::from_str\<close> and \<open>Display\<close> are the standard library's, modelled by their documented
    result, the nearest binary64 and the shortest text that reads back.
  \<^item> \<open>Timestamp\<close>, \<open>Identity\<close>: \<open>timestamp.rs\<close> and \<open>identity.rs\<close>.
  \<^item> \<open>Definition\<close>, \<open>Errors\<close>: the types of \<open>definition.rs\<close> and the run-time errors of \<open>error.rs\<close>.
  \<^item> \<open>Validation\<close>, \<open>Conformance\<close>: \<open>validation.rs\<close>, the checks of documents against their declarations, and
    the predicate they decide.
  \<^item> \<open>Addressing\<close>: the two walks of a dotted address, at registration and at run time.
  \<^item> \<open>Evaluation\<close>, \<open>Preload\<close>: templates and conditions of \<open>runtime.rs\<close>; what a condition means, and that a
    guard read before the load is right.
  \<^item> \<open>Kernel\<close>, \<open>Decide\<close>: the numbered steps of \<open>runtime.rs\<close> and their composition.
  \<^item> \<open>DecideFacts\<close>, \<open>Prepared\<close>, \<open>Lifecycle\<close>, \<open>Acceptance\<close>: what an accepted decision went through, the
    decision in two steps, the reachable instances (\<open>reachable\<close>) with their invariant and the abstract
    lifecycle machine (\<open>history\<close>) they follow, and the rules, events and responses of one decision.
  \<^item> \<open>Scopes\<close>, \<open>Registration\<close>, \<open>Registered\<close>: the defects of \<open>error.rs\<close> and the checks of \<open>validation.rs\<close> that
    find them, from one reference in its scope to \<open>validate_definition\<close>.
  \<^item> \<open>Soundness\<close>, \<open>Panics\<close>: what a definition without defects gives the kernel, and that no command on one
    reaches a panic.
  \<^item> \<open>Registry\<close>, \<open>Keyed\<close>, \<open>Relations\<close>: \<open>registry.rs\<close> and the kernel over a registry (\<open>Runtime\<close>). The locale
    \<open>keyed_store\<close> (what was put last is what is found) is interpreted on \<open>replace\<close> and on \<open>register\<close>; what
    \<open>validate_all\<close> accepts is the predicate \<open>coherent\<close>.
  \<^item> \<open>Store\<close>, \<open>StoreFacts\<close>: envelopes, recorded commits and observations, the store contract and \<open>MemoryStore\<close> of
    \<open>entity-store\<close>; the memory store interprets \<open>keyed_store\<close> and its histories only grow.
  \<^item> \<open>Replay\<close>, \<open>Driven\<close>: \<open>replay\<close> of \<open>replay.rs\<close>, complete and sound for the histories the kernel makes; a memory
    store that many clients drive with the kernel's decisions, as a step relation over the store and what they loaded.
  \<^item> \<open>Projection\<close>: \<open>projection.rs\<close>, the read models: the store's own walk of a key's address, the groupings, and that
    on a registered key the walk reads what the kernel reads.
  \<^item> \<open>Rehydrate\<close>, \<open>Locality\<close>, \<open>Sourced\<close>: \<open>rehydrate\<close> of \<open>replay.rs\<close>, the fold over events alone, sound for the lifecycle
    and complete for the events a \<open>kernel/1\<close> definition emits (\<open>event_history\<close>); what such a definition's rules
    and templates read.
  \<^item> \<open>Recorded\<close>, \<open>Encoding\<close>, \<open>Verify\<close>: \<open>types.rs\<close>, \<open>encoding.rs\<close> and \<open>verify.rs\<close> of \<open>entity-store/src/asynchronous\<close>:
    subjects, records, receipts, batches and histories; the documents they are compared by; and the verifiers of one
    entry, of an imported boundary, of linear and branched histories, extensions and prefixes, and of a whole store.
    \<open>Verified\<close>: a verified history replays, and an extension verifies as the whole does.
  \<^item> \<open>RecordedStore\<close>: \<open>memory.rs\<close> beside it, the reference store, its operations one by one. \<open>Complete\<close>, \<open>Kept\<close>, \<open>Reached\<close>:
    its invariant (\<open>recorded_ok\<close> on histories, \<open>indexed\<close> on the record and batch indexes), its steps as the relation
    \<open>recorded_step\<close>, that every step keeps both and takes nothing back (\<open>holds_on\<close>), and what a retry is answered.
  \<^item> \<open>Executor\<close>, \<open>Execution\<close>: \<open>entity-executor/src/lib.rs\<close> over a record of ports (\<open>ports.rs\<close>); a future takes the
    provider's state to the next one and its answer, or stays pending (\<open>task\<close>). \<open>Executed\<close>: the locale \<open>readable_store\<close>
    of what the ports' reads promise, with the facts of recovery proved in it; \<open>Served\<close>: its interpretation on the
    reference store, and that answers stand. \<open>Concurrent\<close>: what a fresh commit was decided on, and stale commands.
  \<^item> \<open>Example\<close>, \<open>Admitted\<close>, \<open>Stored\<close>, \<open>Folded\<close>, \<open>Desk\<close>: small definitions created and decided, their registration, and their
    runs in the memory store and through the executor, for the concrete runs below.

  Correspondence. A struct is a record and an enum a datatype with the source's constructors; each method and
  free function keeps its name unless HOL has it. \<open>Result\<close> is a sum, \<open>?\<close> is \<open>rbind\<close>, a panic is the error
  \<open>Panicked\<close>. \<open>u64\<close> and \<open>u32\<close> are words; \<open>usize\<close> is \<open>nat\<close>. The text of a message is its template and
  arguments (\<open>Msg\<close>), so no proof depends on formatting. Recursion is structural or by a measure; no fuel is
  used, so every function modelled is total.

  Parameters. \<open>serde\<close> and \<open>serde_json\<close> are libraries: the JSON quoting of a string and the (de)serialization
  of a definition snapshot are the fields of the record \<open>serde\<close>; the value of a commit and of an observation, and the
  writing of a value, are those of \<open>store_codec\<close> and \<open>codec\<close>. No property assumes anything of the writing.

  Not modelled: the concrete syntax of definitions (\<open>serde\<close> attributes, the YAML front end) and the text of errors;
  parsing stored bytes back (\<open>read_record_in_domain\<close>); the file, SQLite and PostgreSQL stores, which are input and output;
  the Eventlog adapter and synchronization, which drive an external event-log crate; the crates that only carry
  the kernel's answers (command line, MCP, remote, query and documentation surfaces); and the test support of the executor.
\<close>

section \<open>Deciding\<close>

text \<open>C1: An accepted decision is the subject's next revision and its record says so: the identity, entity
  and version are the subject's, the revision is exactly one more and never leaves the range a store can
  keep, the record carries the resulting instance and the state it left, and every event it emitted carries
  the same coordinates, states and field changes.\<close>

theorem accepted_decision_is_the_next_revision:
  assumes "decide_with_fulfillments S d i name arguments fulfillments check = Ok (Accepted dn)"
  shows "mirrors dn \<and> dr_from_state (dn_record dn) = Some (in_state i) \<and> in_id (dn_instance dn) = in_id i
    \<and> in_entity (dn_instance dn) = in_entity i \<and> in_version (dn_instance dn) = in_version i
    \<and> unat (in_revision (dn_instance dn)) = unat (in_revision i) + 1 \<and> unat (in_revision (dn_instance dn)) \<le> 2 ^ 63 - 1"
  using decided_mirrors [OF assms] by blast

lemma accepted_decision_is_the_next_revision_witness:
  "mirrors ticket_closed \<and> in_id (dn_instance ticket_closed) = in_id ticket_instance"
  using accepted_decision_is_the_next_revision [OF ticket_close [unfolded decide_def]] by blast

text \<open>C2: Every instance that creations and decisions of a registered definition can make is well formed: of
  the definition's entity and version, in a declared state, at a revision from 1 to the largest signed 64-bit
  integer, with fields that conform to the schema, and at the address its identity field derives.\<close>

theorem reachable_instances_are_valid:
  assumes "reachable S d i" "definition_ok d"
  shows "instance_ok S d i
    \<and> members_conform (conforms (def_semantics d)) (os_fields (def_schema d)) (os_additional_fields (def_schema d)) (in_fields i)"
proof -
  have i: "instance_ok S d i" by (rule reachable_instance_ok [OF assms])
  moreover have "schema_ok (def_schema d)" using assms(2) by (simp add: definition_ok_def)
  ultimately show ?thesis using validate_object_Nil by (auto simp: instance_ok_def)
qed

lemma reachable_instances_are_valid_witness:
  "instance_ok ticket_serde ticket (dn_instance ticket_closed)
    \<and> members_conform (conforms Service1) (os_fields ticket_schema) (os_additional_fields ticket_schema) (in_fields closed_instance)"
  using reachable_instances_are_valid [OF ticket_reachable ticket_definition_ok]
  by (simp add: ticket_closed_def)



text \<open>C4: A decision is accepted only when every precondition of its operation holds of the subject's fields
  in the state it moves to, and every invariant of the definition holds of the fields it writes: held means
  evaluated, without error, to true; false and unknown are refusals.\<close>

theorem accepted_decision_satisfies_its_rules:
  assumes "decide_with_fulfillments S d i name arguments fulfillments check = Ok (Accepted dn)"
  shows "\<exists>op args. map_of (def_operations d) name = Some op \<and> normalize_arguments d name arguments = Ok args
    \<and> list_all (holds_at (operation_context d i op args (in_fields i) (in_state (dn_instance dn)))) (op_preconditions op)
    \<and> list_all (holds_at (operation_context d i op args (in_fields (dn_instance dn)) (in_state (dn_instance dn)))) (def_invariants d)"
  by (rule accepted_rules_hold [OF assms])

lemma accepted_decision_satisfies_its_rules_witness:
  "\<exists>op args. map_of (def_operations ticket) ''close'' = Some op
    \<and> list_all (holds_at (operation_context ticket ticket_instance op args (in_fields (dn_instance ticket_closed))
         (in_state (dn_instance ticket_closed)))) (def_invariants ticket)"
  using accepted_decision_satisfies_its_rules [OF ticket_close [unfolded decide_def]] by blast

text \<open>C5: A record is enough to rebuild the fields it decided: applying what it says was removed and changed to
  the subject's fields, as a fold over records does, gives the fields of the decided instance. No branch of
  the definition writes one field twice.\<close>

theorem record_rebuilds_the_fields:
  assumes "decide_with_fulfillments S d i name arguments fulfillments check = Ok (Accepted dn)"
    and "jmap_ok (in_fields i)" "writes_once d" "\<And>a. fulfillments = Some a \<Longrightarrow> distinct (map fst a)"
  shows "apply_event_changes (in_fields i) (dr_removed (dn_record dn)) (dr_changed (dn_record dn)) = in_fields (dn_instance dn)"
  by (rule decide_rebuilds [OF assms])

lemma record_rebuilds_the_fields_witness:
  "apply_event_changes (in_fields ticket_instance) (dr_removed (dn_record ticket_closed)) (dr_changed (dn_record ticket_closed))
     = in_fields (dn_instance ticket_closed)"
  by (rule record_rebuilds_the_fields [OF ticket_close [unfolded decide_def]])
    (simp_all add: ticket_instance_def writes_once_def ticket_def ticket_operation_def outcome_writes_once_def
      closed_outcome_def refused_outcome_def plain_outcome_def bt_keys_def jmap_ok_def,
     simp_all add: number_ok_def unsigned_text_def is_digits_def is_digit_def is_exponent_mark_def is_point_def)

text \<open>C6: Selection takes the first branch, in declared order, that is neither a wrong-state branch nor guarded
  by another state nor guarded by a condition that is false: every branch before it was passed over, and it
  was not. An unknown guard stops the selection, so a later branch is never taken past it.\<close>

theorem selection_takes_the_first_branch:
  "select_outcome command outcomes state ctx = Ok o' \<longleftrightarrow>
     (\<exists>before after. filter (\<lambda>b. \<not> od_wrong_state b) outcomes = before @ o' # after
        \<and> (\<forall>b \<in> set before. passed_over ctx state b) \<and> taken ctx state o')"
  unfolding select_outcome_def by (rule select_first_Ok)

lemma selection_takes_the_first_branch_witness:
  "select_outcome ''create'' [created_outcome] None (new_ticket None []) = Ok created_outcome"
  by (subst selection_takes_the_first_branch)
    (rule exI [of _ "[]"], rule exI [of _ "[]"],
     simp add: taken_def guarded_out_def created_outcome_def plain_outcome_def)

text \<open>C7: An answer given before the subject is loaded stands: the subject, once loaded, gets the same refusal
  or the same error (an unobservable guard names the same branch), so nothing is refused unloaded that would
  have been accepted.\<close>

theorem answer_before_the_load_stands:
  assumes "\<And>op. map_of (def_operations d) name = Some op \<Longrightarrow> selectors_ok op"
    and "subject_of d expected_id i" "\<not> is_blank expected_id"
  shows "stands (decide_before_load_as d expected_id name arguments check)
    (decide_with_fulfillments S d i name arguments fulfillments check)"
  by (rule before_load_stands [OF assms])

lemma answer_before_the_load_stands_witness:
  "stands (decide_before_load ticket ''s:a'' ''close'' (JObject [(''note'', JString ''no'')]))
    (decide ticket_serde ticket ticket_instance ''close'' (JObject [(''note'', JString ''no'')]))"
  unfolding decide_def decide_before_load_def
  by (rule answer_before_the_load_stands)
    (auto simp: ticket_selectors_ok ticket_subject not_blank_ascii visible_ascii_def)

text \<open>C8: Deciding in two steps is deciding: what the continuation selects once the subject is loaded is the
  answer of the single step, an error or a refusal or an acceptance, and a branch that leaves fields to the
  host is returned instead of its missing-fulfilment error.\<close>

theorem continuing_is_deciding:
  assumes "decide_before_load_as d expected_id name arguments check = Ok (Load p)"
    and "arguments_ok d name" "json_ok arguments" "subject_of d expected_id i"
  shows "select_with S p i = (case decide_with_fulfillments S d i name arguments None check of
       Err (FulfillmentRequired operation_name outcome names) \<Rightarrow>
         Ok (NeedsFulfillment \<lparr>pc_definition = d, pc_operation = name, pc_instance = i,
           pc_arguments = po_arguments p, pc_outcome = outcome, pc_response_check = check\<rparr>)
     | Err e \<Rightarrow> Err e
     | Ok answer \<Rightarrow> Ok (Complete answer))"
  by (rule select_with_decides [OF assms])

lemma continuing_is_deciding_witness:
  "select_with ticket_serde ticket_loaded ticket_instance = Ok (Complete (Accepted ticket_closed))"
  using continuing_is_deciding [OF ticket_before_load [unfolded decide_before_load_def] ticket_arguments_ok _ ticket_subject]
  by (simp add: ticket_close [unfolded decide_def])

text \<open>C9: A created instance is in the initial state, at revision 1, at the address it was given, never a blank
  one, with fields the schema accepts and an identity field that derives that address.\<close>

theorem creation_starts_the_history:
  assumes "decide_create_as S d i input check = Ok (Accepted dn)" "definition_ok d" "json_ok input"
  shows "position_of (dn_instance dn) = (i, lc_initial (def_lifecycle d), 1) \<and> \<not> is_blank i \<and> instance_ok S d (dn_instance dn)"
proof -
  note made = decide_create_from [OF assms]
  then have "instance_ok S d (dn_instance dn)" using created_instance_ok assms(2) by blast
  with made show ?thesis
    by (auto simp: created_from_def created_address_def position_of_def initial_instance_def)
qed

lemma creation_starts_the_history_witness:
  "position_of (dn_instance ticket_created) = (''s:a'', ''ready'', 1)"
proof -
  have "json_ok (JObject [(''title'', JString ''a'')])" by simp
  from creation_starts_the_history [OF ticket_create [unfolded decide_create_def] ticket_definition_ok this]
  show ?thesis by (simp add: ticket_def)
qed

section \<open>The recorded store\<close>

text \<open>C10: Whatever is appended, seeded, scripted and read, the reference store verifies: the snapshot it captures of a scope
  passes the store verifier, which reruns every saved command on the state before it, recomputes every record's bytes, and
  holds record identities, positions and batch coordinates apart across subjects; and every subject it holds is assured.\<close>

theorem recorded_stores_verify:
  assumes "recorded_reachable C m" "\<not> is_blank scope"
  shows "verify_complete_store C (\<lambda>scope. snd (complete_snapshot scope m)) scope
    = Ok \<lparr>sa_scope = scope, sa_coverage = CompleteSnapshot, sa_subjects = map (\<lambda>(_, h). assured h) (me_histories m)\<rparr>"
  by (rule reachable_verifies [OF assms])

lemma recorded_stores_verify_witness:
  "\<exists>subjects. verify_complete_store desk_codec (\<lambda>scope. snd (complete_snapshot scope desk_closed)) ''a''
     = Ok \<lparr>sa_scope = ''a'', sa_coverage = CompleteSnapshot, sa_subjects = subjects\<rparr>"
  using recorded_stores_verify [OF desk_reachable(2) desk_blank(1)] by blast

text \<open>C11: A verified linear history is a history of the kernel: the records of its decisions replay, in the sense of the
  core's \<open>replay\<close>, to the very state it was verified against.\<close>

theorem verified_histories_replay:
  assumes "verify_subject_history C h terminal = Ok a" "sh_origin h = Genesis" "\<not> branched h"
  shows "replay (cx_serde C) (decisions h) = Ok terminal"
  by (rule verified_history_replays [OF assms])

lemma verified_histories_replay_witness:
  "\<exists>h. bt_get (me_histories desk_closed) desk_subject = Some h \<and> replay ticket_serde (decisions h) = Ok closed_instance"
proof -
  obtain h where h: "bt_get (me_histories desk_closed) desk_subject = Some h" "sh_origin h = Genesis" "\<not> branched h"
    "verify_subject_history desk_codec h closed_instance = Ok (VerifiedFromGenesis desk_subject)" by (rule desk_history)
  with verified_histories_replay [OF h(4,2,3)] show ?thesis by (simp add: desk_serde)
qed

text \<open>C12: Verifying what a history gained is verifying all of it: once a prefix has been verified at a state, the verifier of
  the extension from that state gives the answer of the verifier of the whole history, on every terminal it is held to.\<close>

theorem verifying_an_extension_is_verifying_the_whole:
  assumes "verify_subject_history C (h\<lparr>sh_records := take n (sh_records h)\<rparr>) state = Ok a"
  shows "verify_subject_history_extension C h n state terminal = verify_subject_history C h terminal"
  by (rule extension_resumes [OF assms])

lemma verifying_an_extension_is_verifying_the_whole_witness:
  "\<exists>h. bt_get (me_histories desk_closed) desk_subject = Some h
     \<and> verify_subject_history_extension desk_codec h 1 ticket_instance closed_instance = Ok (VerifiedFromGenesis desk_subject)"
proof -
  obtain h where h: "bt_get (me_histories desk_closed) desk_subject = Some h"
    "verify_subject_history desk_codec (h\<lparr>sh_records := take 1 (sh_records h)\<rparr>) ticket_instance = Ok (VerifiedFromGenesis desk_subject)"
    "verify_subject_history desk_codec h closed_instance = Ok (VerifiedFromGenesis desk_subject)" by (rule desk_history)
  with verifying_an_extension_is_verifying_the_whole [OF h(2), of closed_instance] show ?thesis by simp
qed

text \<open>C13: An append settles its request for good: unless it was refused, every later append of the same request, in any
  state the store reaches, is answered as the first one was, marked as a replay, and changes nothing but the call trace; so a
  lost or pending answer can always be asked for again.\<close>

theorem appends_settle_their_request:
  assumes "recorded_reachable C m" "recorded_append C q m = (m', answer)" "\<And>e. answer \<noteq> Some (Err (NotCommitted e))"
    and "recorded_runs C m' m''" "me_next_script m'' = None"
  shows "\<exists>outcome trace. recorded_append C q m'' = (m''\<lparr>me_trace := trace\<rparr>, Some (Ok (as_replayed outcome)))
    \<and> answer = (if aq_members q = [] then Some (Ok AppendEmpty) else scripted (me_next_script m) (aq_key q) outcome)"
proof -
  have ok: "recorded_ok C m" "indexed C m" using reachable_ok [OF assms(1)] by blast+
  then have "recorded_ok C m'" "indexed C m'" using append_keeps [OF assms(2)] by blast+
  with runs_keep [OF assms(4)] have "holds_on m' m''" "indexed C m''" by blast+
  from append_settles [OF assms(2) ok assms(3) this assms(5)] show ?thesis .
qed

lemma appends_settle_their_request_witness:
  "\<exists>receipt trace. recorded_append desk_codec opening_request (fst (recorded_append desk_codec opening_request recorded_new))
     = ((fst (recorded_append desk_codec opening_request recorded_new))\<lparr>me_trace := trace\<rparr>, Some (Ok (AppendCommitted receipt True)))"
proof -
  obtain m' receipt where m': "recorded_append desk_codec opening_request recorded_new = (m', Some (Ok (AppendCommitted receipt False)))"
      and script: "me_next_script m' = None" by (rule opening_appends)
  from appends_settle_their_request [OF recorded_runs.stays m' _ recorded_runs.stays script] obtain outcome trace where
    again: "recorded_append desk_codec opening_request m' = (m'\<lparr>me_trace := trace\<rparr>, Some (Ok (as_replayed outcome)))"
    and "Some (Ok (AppendCommitted receipt False)) = scripted None (Some (SingleRecord ''a'')) outcome"
    by (auto simp: opening_request_def recorded_new_def)
  then show ?thesis using m' by (auto simp: scripted_def as_replayed_def)
qed



section \<open>The executor\<close>

text \<open>C15: An executor's answer stands, and a lost one is found: a batch that was answered without an error, or whose answer
  never came, is answered by every later call with the same actions, whatever was committed since and whatever registry it is
  made with, by the outcome of the first call, and that call only reads.\<close>

theorem executor_answers_stand:
  assumes "recorded_reachable C m" "exec_batch C (executor_new R (memory_ports C)) k actions m = (m', answer)"
    and "\<And>e. answer \<noteq> Some (Err e)" "recorded_runs C m' m''"
  shows "\<exists>m3 outcome. exec_batch C (executor_new R' (memory_ports C)) k actions m'' = (m3, Some (Ok outcome)) \<and> retraced m'' m3
    \<and> (\<forall>a. answer = Some (Ok a) \<longrightarrow> outcome = as_replayed a)"
proof -
  have ok: "recorded_ok C m" "indexed C m" using reachable_ok [OF assms(1)] by blast+
  note step = assms(2) [unfolded exec_batch_def]
  from batch_bound_keeps [OF step ok] have "recorded_ok C m'" "indexed C m'" by (simp_all add: kept_def)
  with runs_keep [OF assms(4)] have later: "holds_on m' m''" "recorded_ok C m''" "indexed C m''" by blast+
  from batch_stands [OF step ok map_bound assms(3) later]
  show ?thesis unfolding exec_batch_def reads_as_def by blast
qed

lemma executor_answers_stand_witness:
  "\<exists>m3 outcome. exec_batch desk_codec (executor_new [] (memory_ports desk_codec)) (SingleRecord ''a'') [ActCreate open_request] desk_pending
     = (m3, Some (Ok outcome))"
proof -
  have "recorded_reachable desk_codec (script_next_append CommitThenPending recorded_new)"
    by (rule recorded_runs.runs [OF recorded_runs.stays recorded_step.scripts])
  moreover have "exec_batch desk_codec (executor_new desk_registry (memory_ports desk_codec)) (SingleRecord ''a'') [ActCreate open_request]
      (script_next_append CommitThenPending recorded_new) = (desk_pending, None)"
    using desk_pends by (simp add: exec_create_def desk_executor_def open_request_def stamp_def)
  ultimately show ?thesis using executor_answers_stand [OF _ _ _ recorded_runs.stays] by blast
qed

text \<open>C16: A command the executor commits is the kernel's decision, on the state the store held: the instance was at the
  revision the command expected, the registered definition of its version decided it on the normalized arguments and the
  actions supplied, and the decided instance, of that subject alone, is what the store holds next.\<close>

theorem executed_commands_are_decided:
  assumes "recorded_reachable C m"
    and "exec_execute C (executor_new R (memory_ports C)) q m = (m', Some (Ok (AppendCommitted receipt False)))"
  shows "recorded_reachable C m' \<and> (\<exists>i dn. bt_get (me_instances m) (xe_subject q) = Some i \<and> decided_from C R q i dn
    \<and> bt_get (me_instances m') = (bt_get (me_instances m))(xe_subject q \<mapsto> dn_instance dn))"
proof -
  have ok: "recorded_ok C m" "indexed C m" using reachable_ok [OF assms(1)] by blast+
  have "recorded_runs C m m'" using execute_kept [OF ok] assms(2) by (metis fst_conv kept_def)
  with assms(1) have "recorded_reachable C m'" using recorded_runs_trans by blast
  moreover from execute_fresh [OF assms(2) ok] obtain i dn where "bt_get (me_instances m) (xe_subject q) = Some i"
    "decided_from C R q i dn" "bt_get (me_instances m') = (bt_get (me_instances m))(xe_subject q \<mapsto> dn_instance dn)" .
  ultimately show ?thesis by blast
qed

lemma executed_commands_are_decided_witness:
  "\<exists>i dn. bt_get (me_instances desk_opened) desk_subject = Some i \<and> decided_from desk_codec desk_registry (close_request ''b'') i dn
     \<and> bt_get (me_instances desk_closed) = (bt_get (me_instances desk_opened))(desk_subject \<mapsto> dn_instance dn)"
proof -
  obtain receipt where "exec_execute desk_codec (executor_new desk_registry (memory_ports desk_codec)) (close_request ''b'') desk_opened
      = (desk_closed, Some (Ok (AppendCommitted receipt False)))" by (rule desk_closing) (simp add: desk_executor_def)
  from executed_commands_are_decided [OF desk_reachable(1) this] show ?thesis by (simp add: close_request_def)
qed



section \<open>Registration\<close>









text \<open>C22: Registering definitions one after another only ever adds: every definition of the list is found under its
  own entity and version, whatever was registered stays what it was, nothing else appears, and every definition
  the registry holds is one validation let through.\<close>

theorem registry_is_a_partial_map:
  assumes "registry_ok R" "rfold registry_register ds R = Ok R'"
  shows "registry_ok R'
    \<and> (\<forall>d \<in> set ds. registry_get R' (def_entity d) (def_version d) = Some d)
    \<and> (\<forall>entity version d. registry_get R entity version = Some d \<longrightarrow> registry_get R' entity version = Some d)
    \<and> (\<forall>entity version d. registry_get R' entity version = Some d \<longrightarrow> d \<in> set ds \<or> registry_get R entity version = Some d)"
  using fresh.inv_puts [OF assms(2,1)] registered_all [OF assms(2,1)] registered_kept [OF assms(2,1)]
    fresh.get_puts_source [OF assms(2,1)]
  by (fastforce simp: registry_key_def)

lemma registry_is_a_partial_map_witness: "registry_get workshop (def_entity lamp) (def_version lamp) = Some lamp"
  using registry_is_a_partial_map [OF empty_registry_ok workshop_registered] by simp



section \<open>Storing and replaying\<close>

text \<open>C24: A history the kernel made replays to the instance it led to: rerunning every record under the definition
  it carries, from the arguments it records, decides the same records again and ends where the kernel ended.\<close>

theorem replay_reaches_what_was_decided:
  assumes "kernel_history S records i"
  shows "replay S records = Ok i"
  using replays_history [OF assms] by (simp add: replay_Ok)

lemma replay_reaches_what_was_decided_witness:
  "replay ticket_serde [dn_record ticket_created, dn_record ticket_closed] = Ok closed_instance"
  by (rule replay_reaches_what_was_decided [OF ticket_history])

text \<open>C25: Records that replay are one instance's history: their revisions count from one without a gap, each leaves
  the state the next starts from, all name the same entity, version and identity, the last describes the instance
  answered, and that instance is a valid one of the last record's definition, itself free of defects.\<close>

theorem replay_is_sound:
  assumes "replay S records = Ok i" "list_all record_ok records"
  shows "one_history S records i"
  using replayed_history [OF _ assms(2)] assms(1) by (simp add: replay_Ok)

lemma replay_is_sound_witness: "one_history ticket_serde [dn_record ticket_created, dn_record ticket_closed] closed_instance"
proof (rule replay_is_sound [OF _ ticket_records_ok])
  show "replay ticket_serde [dn_record ticket_created, dn_record ticket_closed] = Ok closed_instance"
    using replays_history [OF ticket_history] by (simp add: replay_Ok)
qed

text \<open>C26: The events are enough: an instance of a registered \<open>kernel/1\<close> definition whose creation and decisions all
  emit is rebuilt by folding its events, and by nothing but them; the fold accepts every revision (its transition,
  its arguments, what it cleared and changed, and every payload) and ends in the instance that was decided.\<close>

theorem events_fold_back_to_the_instance:
  assumes "event_history S d events i" "registered d" "\<not> has_service_semantics (def_semantics d)"
  shows "rehydrate d events = Ok i"
  by (rule events_rehydrate [OF assms])

lemma events_fold_back_to_the_instance_witness: "rehydrate memo (dn_events memo_created @ [filed_event]) = Ok filed_memo"
  by (rule events_fold_back_to_the_instance [OF memo_history memo_registered]) (simp add: memo_parts)

text \<open>C27: A fold reaches only what the lifecycle allows: whatever events are folded, what comes out under a registered
  definition is a well-formed instance of it, in a state and at a revision that permitted moves lead to from the
  initial one, with fields the schema accepts and every invariant holding of them, as one of the events says.\<close>

theorem folded_instances_are_valid:
  assumes "rehydrate d events = Ok i" "registered d" "sorted_keys (def_operations d)" "\<forall>e \<in> set events. jmap_ok (ev_changed e)"
  shows "instance_ok S d i \<and> history d (position_of i) \<and> (\<exists>e \<in> set events. ev_revision e = in_revision i
    \<and> ev_to_state e = in_state i \<and> check_invariants d (fold_context d e [] None [] (in_fields i) (ev_from_state e)) = Ok ())"
proof -
  obtain e where e: "e \<in> set events" "reached_by d e i" using rehydrated_reached(2) [OF assms(1,3,4)] by blast
  have "instance_ok S d i" by (rule reached_by_ok [OF e(2) assms(2) rehydrated_reached(1) [OF assms(1,3,4)]])
  with e show ?thesis unfolding reached_by_def by metis
qed

lemma folded_instances_are_valid_witness: "instance_ok memo_serde memo empty_memo \<and> history memo (position_of empty_memo)"
  using folded_instances_are_valid [OF memo_folds memo_registered] by (simp add: memo_parts noted_def)

text \<open>C28: A commit that was kept can be retried at any later time, whatever else was committed or observed since: it
  answers success and changes nothing; a different document under the same identity is refused.\<close>

theorem retried_commits_are_idempotent:
  assumes "memory_ok M" "memory_commit_recorded C c expected M = Ok N" "rfold (perform C) cmds N = Ok M'"
  shows "memory_commit_recorded C c retried M' = Ok M'
    \<and> (\<forall>c' document. env_record_id (rm_envelope c') = env_record_id (rm_envelope c) \<longrightarrow> recorded_commit_validate c' = Ok () \<longrightarrow>
        sc_commit C c' = Ok document \<longrightarrow> sc_commit C c \<noteq> Ok document \<longrightarrow>
        memory_commit_recorded C c' retried M' = Err (RecordConflict (env_record_id (rm_envelope c))))"
  using memory_retry_idempotent [OF assms] by blast

lemma retried_commits_are_idempotent_witness:
  "memory_commit_recorded shop_codec (sealed ''a'' ticket_created) (ExpectRevision 7) opened_shop = Ok opened_shop"
  using retried_commits_are_idempotent [OF memory_new_ok shop_opened, of "[]"] by simp

text \<open>C29: In a store driven by the kernel, with any number of clients deciding on instances they loaded at any time,
  replaying the records of an identity gives the instance the store holds, and there are as many records as its
  revision says; an identity without an instance has no records.\<close>

theorem driven_store_replays:
  assumes "driven S C M L"
  shows "case memory_load entity i M of
      None \<Rightarrow> memory_records entity i M = []
    | Some x \<Rightarrow> replay S (map env_record (memory_records entity i M)) = Ok x
        \<and> unat (in_revision x) = length (memory_records entity i M)"
  using driven_lined_up [OF assms] lined_up_none lined_up_some lined_up_last(3) replays_history
  by (fastforce simp: memory_load_def memory_records_def replay_Ok split: option.split)

lemma driven_store_replays_witness: "replay ticket_serde (map env_record (memory_records ''ticket'' ''s:a'' opened_shop)) = Ok ticket_instance"
proof -
  have "memory_load ''ticket'' ''s:a'' opened_shop = Some ticket_instance"
    using shop_holds by (simp add: memory_load_def instance_key_def ticket_instance_def)
  with driven_store_replays [OF shop_driven, of "''ticket''" "''s:a''"] show ?thesis by simp
qed



text \<open>C31: A read model groups what the kernel reads: under a declared projection of a registered definition an
  identity stands under a key exactly when some instance of the definition with that identity, in the declared state if
  there is one, has the kernel resolve the projection's address to a value spelled as that key. So the store's own
  walk of an address, collections and unions included, never disagrees with the rules over the same address.\<close>

theorem projections_group_what_the_kernel_reads:
  assumes "registered d" "distinct (map fst (def_projections d))" "(name, p) \<in> set (def_projections d)"
    and "\<forall>i \<in> set xs. in_entity i = def_entity d \<and> in_version i = def_version d \<longrightarrow> instance_ok S d i"
  shows "\<exists>g. bt_get (project d xs) name = Some g \<and> (\<forall>key who. (\<exists>ids. bt_get g key = Some ids \<and> who \<in> set ids)
     \<longleftrightarrow> (\<exists>i \<in> set xs. in_id i = who \<and> in_entity i = def_entity d \<and> in_version i = def_version d
       \<and> (\<forall>state. pd_in_state p = Some state \<longrightarrow> in_state i = state)
       \<and> (\<exists>v. resolve_expression_optional (pd_key p) (operation_context d i op args (in_fields i) (in_state i)) [] = Ok (Some v)
            \<and> spelled v = Some key)))"
  by (rule projection_answers [OF assms])

lemma projections_group_what_the_kernel_reads_witness:
  "\<exists>v. resolve_expression_optional ''$fields.count''
     (operation_context ticket closed_instance ticket_operation [] (in_fields closed_instance) ''done'') [] = Ok (Some v)
     \<and> spelled v = Some ''1''"
proof -
  let ?p = "\<lparr>pd_key = ''$fields.count'', pd_in_state = Some ''done''\<rparr>"
  have closed: "instance_ok ticket_serde ticket closed_instance"
    using reachable_instance_ok [OF ticket_reachable ticket_definition_ok] by (simp add: ticket_closed_def)
  have grouped: "bt_get (project ticket [closed_instance]) ''closed_by_count'' = Some [(''1'', [''s:a''])]"
    by (simp add: project_def projected_def key_of_def service_lookup_def next_segment_def ticket_def closed_instance_def
        ticket_instance_def has_service_semantics_def spelled_def bt_get_collect bs_insert_def)
  have declared: "distinct (map fst (def_projections ticket))" "(''closed_by_count'', ?p) \<in> set (def_projections ticket)"
    by (simp_all add: ticket_def)
  have all_closed: "\<forall>i \<in> set [closed_instance]. in_entity i = def_entity ticket \<and> in_version i = def_version ticket \<longrightarrow> instance_ok ticket_serde ticket i"
    using closed by simp
  have closed_state: "in_state closed_instance = ''done''" by (simp add: closed_instance_def)
  show ?thesis
    using projections_group_what_the_kernel_reads [OF ticket_registered declared all_closed, where op = ticket_operation and args = "[]"]
  proof (elim exE conjE, goal_cases)
    case (1 g)
    have "\<exists>ids. bt_get g ''1'' = Some ids \<and> ''s:a'' \<in> set ids" using 1(1) grouped by auto
    from iffD1 [OF 1(2) [THEN spec, THEN spec] this] show ?case by (simp add: closed_state)
  qed
qed

section \<open>Conditions\<close>

text \<open>C32: A guard read before its subject is loaded answers without error, and what it answers is right: either
  it needs the subject, or it already has the truth it would have with any subject loaded.\<close>

theorem guards_read_early_are_sound:
  assumes "same_input ctx ctx'" "tc_id ctx \<noteq> None" "condition_ok False (map fst bs) c"
  shows "\<exists>p u'. evaluate_condition_before_load c ctx bs u = Ok (p, u') \<and> (p = NeedsSubject \<or> p = Known (meaning c ctx' bs))"
proof -
  obtain p where "answers (evaluate_condition_before_load c ctx bs) p" "sound_for p (meaning c ctx' bs)"
    using before_load_sound [OF assms] by (auto simp: answers_soundly_def)
  then show ?thesis using answersD by (cases p) fastforce+
qed

lemma guards_read_early_are_sound_witness:
  "\<exists>p u'. evaluate_condition_before_load (CEq (JString ''$args.note'') (JString ''no''))
       (unloaded_context ticket ticket_operation ''s:a'' []) [] [] = Ok (p, u')
     \<and> (p = NeedsSubject \<or> p = Known (meaning (CEq (JString ''$args.note'') (JString ''no''))
       (operation_context ticket ticket_instance ticket_operation [] [] ''done'') []))"
  by (rule guards_read_early_are_sound)
    (simp_all add: same_input_def unloaded_context_def operation_context_def ticket_instance_def condition_ok.simps
      leaf_operands_def reference_ok_def starts_with_def)

section \<open>Fields, arguments, responses\<close>







section \<open>Numbers, instants, addresses\<close>

text \<open>C36: Comparing two number tokens of any length and exponent is comparing the rationals they spell.\<close>

theorem number_comparison_orders_values:
  assumes "number_ok m" "number_ok n"
  shows "number_compare m n = cmp (number_value m) (number_value n)"
  using assms by (rule number.compare_meaning)

lemma number_comparison_orders_values_witness: "number_compare ''1e2'' ''100.0'' = Equal"
proof -
  have ok: "number_ok ''1e2''" "number_ok ''100.0''" by (simp_all add: token_eval)
  have "number_value ''1e2'' = number_value ''100.0''" by (simp add: number_value_def token_eval)
  with number_comparison_orders_values [OF ok] show ?thesis by simp
qed

text \<open>C37: The sum of two number tokens, when there is one, spells the exact sum of the rationals, and is itself a
  token of the JSON grammar.\<close>

theorem number_sum_is_exact:
  assumes "number_ok l" "number_ok r" "number_add l r = Some s"
  shows "number_value s = number_value l + number_value r \<and> number_ok s"
  by (rule number_add_exact [OF assms])

lemma number_sum_is_exact_witness: "number_value ''0.3'' = number_value ''0.1'' + number_value ''0.2''"
proof -
  have "number_ok ''0.1''" "number_ok ''0.2''" by (simp_all add: token_eval)
  moreover have "number_add ''0.1'' ''0.2'' = Some ''0.3''" by code_simp
  ultimately show ?thesis using number_sum_is_exact by blast
qed



text \<open>C39: Reading an instant yields fields in range, a day its month has and a second up to the leap second, and
  the full spelling of what was read reads back as the same instant.\<close>

theorem timestamp_reads_what_is_written:
  assumes "timestamp_parse text = Some t"
  shows "timestamp_ok t \<and> timestamp_parse (timestamp_text t) = Some t"
  using timestamp_parse_sound [OF assms] timestamp_parse_text by blast

lemma timestamp_reads_what_is_written_witness:
  "\<exists>t. timestamp_parse ''2024-02-29'' = Some t \<and> timestamp_parse (timestamp_text t) = Some t"
proof -
  have "timestamp_parse ''2024-02-29'' \<noteq> None" by code_simp
  then obtain t where t: "timestamp_parse ''2024-02-29'' = Some t" by blast
  with timestamp_reads_what_is_written [OF t] show ?thesis by blast
qed



end
